(* ===== verification/Prelude.thy ===== *)
theory Prelude
  imports Main "HOL-Library.Finite_Map" "HOL-Library.List_Lexorder" "HOL-Library.Char_ord"
    "HOL-Library.Word"
begin

text \<open>
  Shared material of the development: the collections of facts that the component theories
  fill and use, decimal printing as Go's formatting verbs do it, string operations of Go's
  standard library that the source calls (\<open>strings.Split\<close>, \<open>strings.Join\<close>), and generic
  lemmas on finite maps, lists and folds over the iteration order of a map.
\<close>

named_theorems chan_defs
  \<comment> \<open>the definitions of the channel operations\<close>

named_theorems ckpt_defs
  \<comment> \<open>the definitions of the checkpoint operations\<close>

named_theorems engine_defs
  \<comment> \<open>the definitions of the engine's helpers\<close>

section \<open>Decimal printing\<close>

fun digit_char :: "nat \<Rightarrow> char" where
  "digit_char n = char_of (48 + n)"

fun show_nat :: "nat \<Rightarrow> string" where
  "show_nat n = (if n < 10 then [digit_char n] else show_nat (n div 10) @ [digit_char (n mod 10)])"

declare show_nat.simps [simp del]

definition show_int :: "int \<Rightarrow> string" where
  "show_int i = (if i < 0 then CHR ''-'' # show_nat (nat (- i)) else show_nat (nat i))"

section \<open>Splitting and joining strings\<close>

text \<open>\<open>strings.Split(s, sep)\<close> for a one-byte separator: always at least one part.\<close>

fun split_on :: "'a \<Rightarrow> 'a list \<Rightarrow> 'a list list" where
  "split_on d [] = [[]]"
| "split_on d (c # cs) =
     (if c = d then [] # split_on d cs
      else (case split_on d cs of [] \<Rightarrow> [[c]] | p # ps \<Rightarrow> (c # p) # ps))"

text \<open>\<open>strings.Join(parts, sep)\<close> for a one-byte separator.\<close>

fun join_with :: "'a \<Rightarrow> 'a list list \<Rightarrow> 'a list" where
  "join_with d [] = []"
| "join_with d [p] = p"
| "join_with d (p # q # ps) = p @ d # join_with d (q # ps)"

lemma split_on_not_Nil [simp]: "split_on d s \<noteq> []"
  by (induction s) (auto split: list.splits)

lemma split_on_free: "d \<notin> set s \<Longrightarrow> split_on d s = [s]"
  by (induction s) auto

lemma split_on_append: "d \<notin> set p \<Longrightarrow> split_on d (p @ d # s) = p # split_on d s"
  by (induction p) auto

lemma split_on_join:
  "ps \<noteq> [] \<Longrightarrow> \<forall>p \<in> set ps. d \<notin> set p \<Longrightarrow> split_on d (join_with d ps) = ps"
  by (induction d ps rule: join_with.induct) (auto simp: split_on_free split_on_append)

lemma join_with_Cons: "ps \<noteq> [] \<Longrightarrow> join_with d (p # ps) = p @ d # join_with d ps"
  by (cases ps) auto

lemma join_split_on: "join_with d (split_on d s) = s"
proof (induction s)
  case Nil
  show ?case by simp
next
  case (Cons c s)
  then show ?case
    by (cases "split_on d s"; cases "tl (split_on d s)") (auto simp: join_with_Cons)
qed

lemma split_on_parts_free: "p \<in> set (split_on d s) \<Longrightarrow> d \<notin> set p"
  by (induction s arbitrary: p) (force split: list.splits if_splits)+

section \<open>Finite maps\<close>

text \<open>
  A Go map lookup on a missing key gives the zero value of the element type.
  \<open>fmlookup_default\<close> is that lookup; \<open>flen\<close> is \<open>len(m)\<close>.
\<close>

definition fmlookup_default :: "'v \<Rightarrow> ('k, 'v) fmap \<Rightarrow> 'k \<Rightarrow> 'v" where
  "fmlookup_default z m k = (case fmlookup m k of None \<Rightarrow> z | Some v \<Rightarrow> v)"

definition flen :: "('k, 'v) fmap \<Rightarrow> nat" where
  "flen m = card (fmdom' m)"

lemma fmlookup_default_empty [simp]: "fmlookup_default z fmempty k = z"
  by (simp add: fmlookup_default_def)

lemma fmlookup_default_upd [simp]:
  "fmlookup_default z (fmupd k v m) k' = (if k = k' then v else fmlookup_default z m k')"
  by (simp add: fmlookup_default_def)

lemma flen_empty [simp]: "flen fmempty = 0"
  by (simp add: flen_def)

lemma flen_0_iff [simp]: "flen m = 0 \<longleftrightarrow> m = fmempty"
proof
  assume "flen m = 0"
  then have "fmdom' m = {}" by (simp add: flen_def)
  then show "m = fmempty" by (metis fmrestrict_set_dom fmrestrict_set_null)
qed simp

lemma flen_upd: "flen (fmupd k v m) = (if k \<in> fmdom' m then flen m else Suc (flen m))"
  by (simp add: flen_def card_insert_if)

text \<open>
  Iterating over a Go map visits every entry once, in an order the language leaves open.
  An order is a list of the entries; \<open>entries m es\<close> says that \<open>es\<close> is such an order for
  the map \<open>m\<close>.
\<close>

definition entries :: "('k, 'v) fmap \<Rightarrow> ('k \<times> 'v) list \<Rightarrow> bool" where
  "entries m es \<longleftrightarrow> distinct (map fst es) \<and> fmap_of_list es = m"

lemma entries_mem: "entries m es \<Longrightarrow> (k, v) \<in> set es \<longleftrightarrow> fmlookup m k = Some v"
  by (auto simp: entries_def fmlookup_of_list)

lemma entries_keys: "entries m es \<Longrightarrow> k \<in> fst ` set es \<longleftrightarrow> k \<in> fmdom' m"
  by (force simp: entries_def fmdom'_alt_def fset_of_list.rep_eq)

lemma entries_distinct: "entries m es \<Longrightarrow> distinct (map fst es)"
  by (simp add: entries_def)

lemma entries_of_list: "distinct (map fst es) \<Longrightarrow> entries (fmap_of_list es) es"
  by (simp add: entries_def)

lemma entries_set_eq: "entries m es \<Longrightarrow> entries m fs \<Longrightarrow> set es = set fs"
  using entries_mem[of m es] entries_mem[of m fs] by auto

lemma entries_exist: "\<exists>es. entries m es"
proof (induction m)
  case fmempty
  have "entries fmempty []" by (simp add: entries_def)
  then show ?case by blast
next
  case (fmupd k v m)
  then obtain es where es: "entries m es" by blast
  from fmupd.hyps have "k \<notin> fst ` set es"
    using entries_keys[OF es] by (auto simp: fmlookup_dom'_iff)
  with es have "entries (fmupd k v m) ((k, v) # es)"
    by (auto simp: entries_def)
  then show ?case by blast
qed

lemma entries_sorted: "entries m (sorted_list_of_fmap m)"
proof -
  have "map fst (sorted_list_of_fmap m) = sorted_list_of_fset (fmdom m)"
    by (simp add: sorted_list_of_fmap_def comp_def)
  moreover have "distinct (sorted_list_of_fset (fmdom m))"
    by (simp add: sorted_list_of_fset.rep_eq)
  ultimately show ?thesis
    by (simp add: entries_def fmap_ext fmlookup_of_list)
qed

lemma entries_single: "entries (fmupd k v fmempty) es \<Longrightarrow> es = [(k, v)]"
proof -
  assume es: "entries (fmupd k v fmempty) es"
  then have "set es = {(k, v)}"
    using entries_set_eq[OF es, of "[(k, v)]"] by (simp add: entries_def)
  moreover have "distinct es" using es by (auto simp: entries_def distinct_map)
  ultimately show ?thesis
  proof (cases es)
    case (Cons y ys)
    with \<open>set es = {(k, v)}\<close> \<open>distinct es\<close> show ?thesis by (cases ys) auto
  qed simp
qed

lemma entries_values: "entries m es \<Longrightarrow> v \<in> snd ` set es \<longleftrightarrow> (\<exists>k. fmlookup m k = Some v)"
  using entries_mem[of m es] by force

text \<open>A fold of updates at distinct keys writes each key once.\<close>

lemma fold_fmupd_lookup:
  "distinct (map fst es) \<Longrightarrow>
   fmlookup (fold (\<lambda>(k, v). fmupd k (f k v)) es m) k' =
     (case map_of es k' of Some v \<Rightarrow> Some (f k' v) | None \<Rightarrow> fmlookup m k')"
proof (induction es arbitrary: m)
  case Nil
  show ?case by simp
next
  case (Cons e es)
  obtain k v where e: "e = (k, v)" by (cases e)
  from Cons.prems have d: "distinct (map fst es)" and k: "k \<notin> fst ` set es"
    by (auto simp: e)
  from k have "map_of es k = None" by (simp add: map_of_eq_None_iff)
  then show ?case by (auto simp: e Cons.IH[OF d] split: option.splits)
qed

lemma fold_invariant:
  "P s \<Longrightarrow> (\<And>x s. x \<in> set xs \<Longrightarrow> P s \<Longrightarrow> P (f x s)) \<Longrightarrow> P (fold f xs s)"
  by (induction xs arbitrary: s) auto

end
