(* ===== verification/Values.thy ===== *)
theory Values
  imports Prelude
begin

text \<open>
  Go values as the engine sees them (the dynamic types the source switches on), the parts of
  Go's runtime the model takes as parameters, and the error types of
  \<^verbatim>\<open>internal/harness/graph/errors/errors.go\<close> with their texts and classifiers.
\<close>

section \<open>Values of type interface{}\<close>

text \<open>
  Go's \<open>int\<close> is a 64-bit word and \<open>float64\<close> its IEEE-754 bit pattern. Every constructor is
  one dynamic type that some type switch or assertion of the source tells apart.
  \<open>VStruct t fs\<close> is a value of the struct type \<open>t\<close>, its fields in order as name, exported or
  not, and value; \<open>VPtr\<close> is a pointer to a value; \<open>VType t\<close> is a \<open>reflect.Type\<close>
  descriptor; \<open>VOther t n\<close> is the \<open>n\<close>-th value of any further type \<open>t\<close>.
\<close>

type_synonym goint = "64 word"
type_synonym float64 = "64 word"

datatype gval =
    VNil
  | VMissing
  | VBool bool
  | VInt goint
  | VFloat float64
  | VStr string
  | VBytes string
  | VList "gval list"
  | VMap "(string, gval) fmap"
  | VBoolMap "(string, bool) fmap"
  | VIntMap "(string, goint) fmap"
  | VIntMapMap "(string, (string, goint) fmap) fmap"
  | VMapList "(string, gval) fmap list"
  | VStruct string "(string \<times> bool \<times> gval) list"
  | VPtr gval
  | VOverwrite gval
  | VInterrupt gval string
  | VType string
  | VOther string nat

type_synonym gmap = "(string, gval) fmap"

text \<open>
  What the model needs of the runtime and does not compute: float64 addition and product, the conversions
  between int and float64, the printing of floats and of values of further types, the zero
  value of a type that is declared outside the source (what \<open>reflect\<close> builds for it: empty for
  a slice or map type), the \<open>GetValue\<close> method of such a type if it has one, and the JSON round trip of the leaves
  JSON changes (strings lose invalid UTF-8, bytes become base64 text, further types become
  what their marshaller makes of them, or fail), the text \<open>json.Marshal\<close> makes of a value and
  what \<open>json.Unmarshal\<close> into a string map makes of a text, the fields or entries of a value of a
  further type (nothing when it is neither a struct nor a map), the zero value of a struct
  field's type and the assignment or conversion of a value to it (nothing when \<open>reflect\<close> allows
  neither), and the printing and parsing of times, which are nanoseconds since Go's zero time.
\<close>

record golib =
  fadd :: "float64 \<Rightarrow> float64 \<Rightarrow> float64"
  fmul :: "float64 \<Rightarrow> float64 \<Rightarrow> float64"
  i2f :: "goint \<Rightarrow> float64"
  f2i :: "float64 \<Rightarrow> goint"
  fmt_float :: "float64 \<Rightarrow> string"
  fmt_other :: "gval \<Rightarrow> string"
  zero_of :: "string \<Rightarrow> gval"
  get_value :: "gval \<Rightarrow> gval option"
  json_string :: "string \<Rightarrow> string"
  json_bytes :: "string \<Rightarrow> string"
  json_float :: "float64 \<Rightarrow> float64 option"
  json_other :: "gval \<Rightarrow> gval option"
  json_text :: "gval \<Rightarrow> string option"
  json_parse :: "string \<Rightarrow> gmap option"
  reflect_map :: "gval \<Rightarrow> gmap option"
  field_zero :: "string \<Rightarrow> gval"
  field_convert :: "string \<Rightarrow> gval \<Rightarrow> gval option"
  fmt_time :: "int \<Rightarrow> string"
  parse_time :: "string \<Rightarrow> int option"

text \<open>A concrete instance of the parameters, for witnesses: small integral floats are their
  integers, and printing is decimal.\<close>

definition demo_lib :: golib where
  "demo_lib = \<lparr>fadd = (\<lambda>a b. a + b), fmul = (\<lambda>a b. a * b), i2f = (\<lambda>i. i), f2i = (\<lambda>f. f),
     fmt_float = (\<lambda>f. show_int (sint f)), fmt_other = (\<lambda>v. ''?''), zero_of = (\<lambda>t. VOther t 0), get_value = (\<lambda>v. None),
     json_string = (\<lambda>s. s), json_bytes = (\<lambda>s. s), json_float = Some,
     json_other = (\<lambda>v. None), json_text = (\<lambda>v. None), json_parse = (\<lambda>s. None),
     reflect_map = (\<lambda>v. None), field_zero = (\<lambda>t. VOther t 0), field_convert = (\<lambda>t v. Some v),
     fmt_time = show_int, parse_time = (\<lambda>s. Some 0)\<rparr>"

definition IsMissing :: "gval \<Rightarrow> bool" where
  "IsMissing v = (case v of VMissing \<Rightarrow> True | _ \<Rightarrow> False)"

lemma IsMissing_iff [simp]: "IsMissing v \<longleftrightarrow> v = VMissing"
  by (cases v) (auto simp: IsMissing_def)

text \<open>The \<open>%T\<close> verb.\<close>

primrec type_name :: "gval \<Rightarrow> string" where
  "type_name VNil = ''<nil>''"
| "type_name VMissing = ''*channels.missingSentinel''"
| "type_name (VBool b) = ''bool''"
| "type_name (VInt i) = ''int''"
| "type_name (VFloat f) = ''float64''"
| "type_name (VStr s) = ''string''"
| "type_name (VBytes s) = ''[]uint8''"
| "type_name (VList vs) = ''[]interface {}''"
| "type_name (VMap m) = ''map[string]interface {}''"
| "type_name (VBoolMap m) = ''map[string]bool''"
| "type_name (VIntMap m) = ''map[string]int''"
| "type_name (VIntMapMap m) = ''map[string]map[string]int''"
| "type_name (VMapList ms) = ''[]map[string]interface {}''"
| "type_name (VStruct t fs) = t"
| "type_name (VPtr v) = CHR ''*'' # type_name v"
| "type_name (VOverwrite v) = ''*types.Overwrite''"
| "type_name (VInterrupt v i) = ''*types.Interrupt''"
| "type_name (VType t) = ''*reflect.rtype''"
| "type_name (VOther t n) = t"

definition show_bool :: "bool \<Rightarrow> string" where
  "show_bool b = (if b then ''true'' else ''false'')"

text \<open>The \<open>%v\<close> verb: maps print their keys in order.\<close>

definition fmt_map :: "(string, string) fmap \<Rightarrow> string" where
  "fmt_map m = ''map['' @
     join_with CHR '' '' (map (\<lambda>(k, v). k @ CHR '':'' # v) (sorted_list_of_fmap m)) @ '']''"

primrec fmt_v :: "golib \<Rightarrow> gval \<Rightarrow> string" where
  "fmt_v L VNil = ''<nil>''"
| "fmt_v L VMissing = ''<MISSING>''"
| "fmt_v L (VBool b) = show_bool b"
| "fmt_v L (VInt i) = show_int (sint i)"
| "fmt_v L (VFloat f) = fmt_float L f"
| "fmt_v L (VStr s) = s"
| "fmt_v L (VBytes s) =
     CHR ''['' # join_with CHR '' '' (map (\<lambda>c. show_nat (of_char c)) s) @ '']''"
| "fmt_v L (VList vs) = CHR ''['' # join_with CHR '' '' (map (fmt_v L) vs) @ '']''"
| "fmt_v L (VMap m) = fmt_map (fmmap (fmt_v L) m)"
| "fmt_v L (VBoolMap m) = fmt_map (fmmap show_bool m)"
| "fmt_v L (VIntMap m) = fmt_map (fmmap (\<lambda>i. show_int (sint i)) m)"
| "fmt_v L (VIntMapMap m) = fmt_map (fmmap (\<lambda>n. fmt_map (fmmap (\<lambda>i. show_int (sint i)) n)) m)"
| "fmt_v L (VMapList ms) =
     CHR ''['' # join_with CHR '' '' (map fmt_map (map (fmmap (fmt_v L)) ms)) @ '']''"
| "fmt_v L (VStruct t fs) = fmt_other L (VStruct t fs)"
| "fmt_v L (VPtr v) = fmt_other L (VPtr v)"
| "fmt_v L (VOverwrite v) = fmt_other L (VOverwrite v)"
| "fmt_v L (VInterrupt v i) = fmt_other L (VInterrupt v i)"
| "fmt_v L (VType t) = t"
| "fmt_v L (VOther t n) = fmt_other L (VOther t n)"

section \<open>Errors\<close>

text \<open>
  One constructor per error type. \<open>WrapError msg e\<close> is \<open>fmt.Errorf("<msg>: %w", e)\<close>,
  \<open>SuffixError e msg\<close> is \<open>fmt.Errorf("%w: <msg>", e)\<close>,
  \<open>ErrorString\<close> an error with nothing but a text, \<open>ContextDone\<close> the \<open>ctx.Err()\<close> of a
  cancelled context. A Go \<open>nil\<close> error is \<open>None\<close>.
\<close>

datatype gerr =
    EmptyChannelError string
  | GraphRecursionError int
  | InvalidUpdateError string
  | GraphBubbleUp string "gerr option"
  | GraphInterrupt "gval list"
  | ParentCommand gval
  | EmptyInputError string
  | TaskNotFound string
  | InvalidNodeError string string
  | InvalidEdgeError string string string
  | ChannelNotFoundError string
  | NodeNotFoundError string
  | ErrorContext string string "string list" "gerr option" gmap
  | VersionConflictError int int string string
  | RetryExhaustedError string int "gerr option" gval
  | GraphError string string
  | WrapError string gerr
  | ErrorString string
  | ContextDone string
  | WriteValidationError string string
  | WriteSkipError string
  | StoreError string string
  | RunnableError string string
  | SuffixError gerr string

definition ErrorCodeGraphRecursionLimit :: string where
  "ErrorCodeGraphRecursionLimit = ''GRAPH_RECURSION_LIMIT''"

definition ErrorCodeInvalidConcurrentGraphUpdate :: string where
  "ErrorCodeInvalidConcurrentGraphUpdate = ''INVALID_CONCURRENT_GRAPH_UPDATE''"

definition ErrorCodeCancellation :: string where
  "ErrorCodeCancellation = ''CANCELLATION''"

text \<open>
  \<open>err.Error()\<close>. The metadata of an \<open>ErrorContext\<close> prints in the order of the map's
  iteration, which is left open; the model prints it in key order.
\<close>

primrec error_text :: "golib \<Rightarrow> gerr \<Rightarrow> string" where
  "error_text L (EmptyChannelError m) = (if m \<noteq> [] then m else ''channel is empty'')"
| "error_text L (GraphRecursionError n) =
     ''Graph recursion limit of '' @ show_int n @
     '' reached. To increase the limit, run your graph with a config specifying a higher recursion_limit.''"
| "error_text L (InvalidUpdateError m) = ''Invalid update: '' @ m"
| "error_text L (GraphBubbleUp m c) =
     (if m \<noteq> [] then m
      else case map_option (error_text L) c of Some t \<Rightarrow> t | None \<Rightarrow> ''graph bubble up'')"
| "error_text L (GraphInterrupt is) =
     ''graph interrupted with '' @ show_nat (length is) @ '' interrupt(s)''"
| "error_text L (ParentCommand c) = ''parent command''"
| "error_text L (EmptyInputError m) = (if m \<noteq> [] then m else ''empty input'')"
| "error_text L (TaskNotFound t) = ''task not found: '' @ t"
| "error_text L (InvalidNodeError n m) = ''invalid node '' @ [CHR 0x27] @ n @ [CHR 0x27] @ '': '' @ m"
| "error_text L (InvalidEdgeError f t m) =
     ''invalid edge from '' @ [CHR 0x27] @ f @ [CHR 0x27] @ '' to '' @ [CHR 0x27] @ t @ [CHR 0x27] @ '': '' @ m"
| "error_text L (ChannelNotFoundError c) = ''channel not found: '' @ c"
| "error_text L (NodeNotFoundError n) = ''node not found: '' @ n"
| "error_text L (ErrorContext code m st cause md) =
     CHR ''['' # code @ ''] '' @ m
     @ (case map_option (error_text L) cause of None \<Rightarrow> [] | Some t \<Rightarrow> CHR 0x0A # ''Caused by: '' @ t)
     @ (if st = [] then [] else CHR 0x0A # ''Stack trace:'' @ concat (map (\<lambda>f. CHR 0x0A # ''  '' @ f) st))
     @ (if flen md = 0 then []
        else CHR 0x0A # ''Metadata:'' @
          concat (map (\<lambda>(k, v). CHR 0x0A # ''  '' @ k @ '': '' @ fmt_v L v) (sorted_list_of_fmap md)))"
| "error_text L (VersionConflictError cur ex cid tid) =
     ''version conflict: expected version '' @ show_int ex @ '' but found '' @ show_int cur
     @ '' for checkpoint '' @ cid @ '' in thread '' @ tid"
| "error_text L (RetryExhaustedError n k e out) =
     ''node '' @ n @ '' failed after '' @ show_int k @ '' attempts: ''
     @ (case map_option (error_text L) e of None \<Rightarrow> ''<nil>'' | Some t \<Rightarrow> t)"
| "error_text L (GraphError m c) = (if c \<noteq> [] then c @ '': '' @ m else m)"
| "error_text L (WrapError m e) = m @ '': '' @ error_text L e"
| "error_text L (ErrorString m) = m"
| "error_text L (ContextDone m) = m"
| "error_text L (WriteValidationError c m) = ''write validation error for channel '' @ c @ '': '' @ m"
| "error_text L (WriteSkipError c) = ''write skipped for channel '' @ c"
| "error_text L (StoreError m c) = (if c \<noteq> [] then c @ '': '' @ m else m)"
| "error_text L (RunnableError m c) = (if c \<noteq> [] then c @ '': '' @ m else m)"
| "error_text L (SuffixError e m) = error_text L e @ '': '' @ m"

text \<open>The classifiers are type assertions: they do not look below a wrapper.\<close>

definition IsEmptyChannelError :: "gerr option \<Rightarrow> bool" where
  "IsEmptyChannelError e = (case e of Some (EmptyChannelError _) \<Rightarrow> True | _ \<Rightarrow> False)"

definition IsGraphRecursionError :: "gerr option \<Rightarrow> bool" where
  "IsGraphRecursionError e = (case e of Some (GraphRecursionError _) \<Rightarrow> True | _ \<Rightarrow> False)"

definition IsInvalidUpdateError :: "gerr option \<Rightarrow> bool" where
  "IsInvalidUpdateError e = (case e of Some (InvalidUpdateError _) \<Rightarrow> True | _ \<Rightarrow> False)"

definition IsGraphInterrupt :: "gerr option \<Rightarrow> bool" where
  "IsGraphInterrupt e = (case e of Some (GraphInterrupt _) \<Rightarrow> True | _ \<Rightarrow> False)"

definition IsParentCommand :: "gerr option \<Rightarrow> bool" where
  "IsParentCommand e = (case e of Some (ParentCommand _) \<Rightarrow> True | _ \<Rightarrow> False)"

definition IsEmptyInputError :: "gerr option \<Rightarrow> bool" where
  "IsEmptyInputError e = (case e of Some (EmptyInputError _) \<Rightarrow> True | _ \<Rightarrow> False)"

definition IsTaskNotFound :: "gerr option \<Rightarrow> bool" where
  "IsTaskNotFound e = (case e of Some (TaskNotFound _) \<Rightarrow> True | _ \<Rightarrow> False)"

definition IsRetryExhausted :: "gerr option \<Rightarrow> bool" where
  "IsRetryExhausted e = (case e of Some (RetryExhaustedError _ _ _ _) \<Rightarrow> True | _ \<Rightarrow> False)"

definition GetErrorCode :: "gerr option \<Rightarrow> string" where
  "GetErrorCode e = (case e of None \<Rightarrow> []
     | Some (ErrorContext code _ _ _ _) \<Rightarrow> code
     | _ \<Rightarrow>
        if IsGraphRecursionError e then ErrorCodeGraphRecursionLimit
        else if IsGraphInterrupt e then ErrorCodeCancellation
        else if IsParentCommand e then ErrorCodeInvalidConcurrentGraphUpdate
        else [])"

definition NewErrorContext :: "string list \<Rightarrow> string \<Rightarrow> string \<Rightarrow> gerr option \<Rightarrow> gerr" where
  "NewErrorContext stack code msg cause = ErrorContext code msg stack cause fmempty"

text \<open>\<open>stack\<close> is what \<open>captureStackTrace\<close> returns.\<close>

definition wrap_error :: "string list \<Rightarrow> gerr option \<Rightarrow> string \<Rightarrow> string \<Rightarrow> gerr option" where
  "wrap_error stack e code msg = (case e of None \<Rightarrow> None
     | Some (ErrorContext c m s ca md) \<Rightarrow>
         Some (ErrorContext code msg stack (Some (ErrorContext c m s ca md)) fmempty)
     | Some e' \<Rightarrow> Some (NewErrorContext stack code msg (Some e')))"

definition Unwrap :: "gerr \<Rightarrow> gerr option" where
  "Unwrap e = (case e of ErrorContext _ _ _ c _ \<Rightarrow> c | GraphBubbleUp _ c \<Rightarrow> c
     | RetryExhaustedError _ _ c _ \<Rightarrow> c | WrapError _ c \<Rightarrow> Some c
     | SuffixError c _ \<Rightarrow> Some c | _ \<Rightarrow> None)"

definition AddMetadata :: "gerr \<Rightarrow> string \<Rightarrow> gval \<Rightarrow> gerr" where
  "AddMetadata e k v = (case e of
     ErrorContext c m s ca md \<Rightarrow> ErrorContext c m s ca (fmupd k v md) | _ \<Rightarrow> e)"

definition GetMetadata :: "gerr \<Rightarrow> string \<Rightarrow> gval option" where
  "GetMetadata e k = (case e of ErrorContext c m s ca md \<Rightarrow> fmlookup md k | _ \<Rightarrow> None)"

definition GetErrorStack :: "gerr option \<Rightarrow> string list" where
  "GetErrorStack e = (case e of Some (ErrorContext c m s ca md) \<Rightarrow> s | _ \<Rightarrow> [])"

definition ChainError :: "golib \<Rightarrow> gerr option \<Rightarrow> gerr option \<Rightarrow> gerr option" where
  "ChainError L base new = (case new of None \<Rightarrow> base
     | Some n \<Rightarrow> (case base of None \<Rightarrow> Some n | Some b \<Rightarrow> Some (WrapError (error_text L n) b)))"

text \<open>
  \<open>FormatError\<close>: the loop prints the current error and goes on with
  \<open>fmt.Sprintf("%v", err)\<close> of the error it was given, at most ten times.
\<close>

fun format_loop :: "golib \<Rightarrow> gerr \<Rightarrow> nat \<Rightarrow> gerr option \<Rightarrow> nat \<Rightarrow> string" where
  "format_loop L err 0 current depth = []"
| "format_loop L err (Suc fuel) None depth = []"
| "format_loop L err (Suc fuel) (Some current) depth =
     concat (replicate depth ''  '') @ error_text L current @ [CHR 0x0A]
     @ (let unwrapped = error_text L err in
        format_loop L err fuel
          (if unwrapped \<noteq> error_text L current then Some (ErrorString unwrapped) else None)
          (Suc depth))"

definition FormatError :: "golib \<Rightarrow> gerr option \<Rightarrow> string" where
  "FormatError L e = (case e of None \<Rightarrow> [] | Some err \<Rightarrow> format_loop L err 10 (Some err) 0)"

lemma FormatError_Some: "FormatError L (Some e) = error_text L e @ [CHR 0x0A]"
  by (simp add: FormatError_def eval_nat_numeral)

lemma wrap_error_code:
  "GetErrorCode (wrap_error st e code msg) = (if e = None then [] else code)"
  by (auto simp: wrap_error_def GetErrorCode_def NewErrorContext_def split: option.splits gerr.splits)

lemma wrap_error_unwrap: "wrap_error st (Some e) code msg = Some w \<Longrightarrow> Unwrap w = Some e"
  by (auto simp: wrap_error_def NewErrorContext_def Unwrap_def split: gerr.splits)

text \<open>The chain of causes below an error, outermost first.\<close>

primrec causes :: "gerr \<Rightarrow> gerr list" where
  "causes (EmptyChannelError m) = [EmptyChannelError m]"
| "causes (GraphRecursionError n) = [GraphRecursionError n]"
| "causes (InvalidUpdateError m) = [InvalidUpdateError m]"
| "causes (GraphBubbleUp m c) =
     GraphBubbleUp m c # (case map_option causes c of None \<Rightarrow> [] | Some cs \<Rightarrow> cs)"
| "causes (GraphInterrupt is) = [GraphInterrupt is]"
| "causes (ParentCommand c) = [ParentCommand c]"
| "causes (EmptyInputError m) = [EmptyInputError m]"
| "causes (TaskNotFound t) = [TaskNotFound t]"
| "causes (InvalidNodeError n m) = [InvalidNodeError n m]"
| "causes (InvalidEdgeError f t m) = [InvalidEdgeError f t m]"
| "causes (ChannelNotFoundError c) = [ChannelNotFoundError c]"
| "causes (NodeNotFoundError n) = [NodeNotFoundError n]"
| "causes (ErrorContext code m st cause md) =
     ErrorContext code m st cause md # (case map_option causes cause of None \<Rightarrow> [] | Some cs \<Rightarrow> cs)"
| "causes (VersionConflictError a b c d) = [VersionConflictError a b c d]"
| "causes (RetryExhaustedError n k e out) =
     RetryExhaustedError n k e out # (case map_option causes e of None \<Rightarrow> [] | Some cs \<Rightarrow> cs)"
| "causes (GraphError m c) = [GraphError m c]"
| "causes (WrapError m e) = WrapError m e # causes e"
| "causes (ErrorString m) = [ErrorString m]"
| "causes (ContextDone m) = [ContextDone m]"
| "causes (WriteValidationError c m) = [WriteValidationError c m]"
| "causes (WriteSkipError c) = [WriteSkipError c]"
| "causes (StoreError m c) = [StoreError m c]"
| "causes (RunnableError m c) = [RunnableError m c]"
| "causes (SuffixError e m) = SuffixError e m # causes e"

lemma wrap_error_causes:
  "wrap_error st (Some e) code msg = Some w \<Longrightarrow> causes w = w # causes e"
  by (auto simp: wrap_error_def NewErrorContext_def split: gerr.splits)

end
