(* ===== verification/Chan_Scalar.thy ===== *)
theory Chan_Scalar
  imports Values
begin

text \<open>
  The channels of \<^verbatim>\<open>channels/\<close> that hold one value or a list of values: \<open>BaseChannel\<close>,
  \<open>LastValue\<close>, \<open>AnyValue\<close>, \<open>EphemeralValue\<close>, \<open>UntrackedValue\<close>, \<open>LastValueAfterFinish\<close> and
  \<open>Topic\<close>. A method that changes the channel returns the changed channel beside its result;
  \<open>Get\<close> returns one too, since reading an ephemeral channel empties it.
\<close>

section \<open>BaseChannel\<close>

record base_channel =
  chKey :: string
  chTyp :: gval
  chVersion :: goint

definition new_base :: "gval \<Rightarrow> base_channel" where
  "new_base typ = \<lparr>chKey = [], chTyp = typ, chVersion = 0\<rparr>"

definition base_GetKey :: "'a base_channel_scheme \<Rightarrow> string" where
  "base_GetKey c = chKey c"

definition base_SetKey :: "'a base_channel_scheme \<Rightarrow> string \<Rightarrow> 'a base_channel_scheme" where
  "base_SetKey c k = c\<lparr>chKey := k\<rparr>"

definition base_Consume :: "'a base_channel_scheme \<Rightarrow> bool \<times> 'a base_channel_scheme" where
  "base_Consume c = (False, c)"

definition base_Finish :: "'a base_channel_scheme \<Rightarrow> bool \<times> 'a base_channel_scheme" where
  "base_Finish c = (False, c)"

definition base_GetVersion :: "'a base_channel_scheme \<Rightarrow> goint" where
  "base_GetVersion c = chVersion c"

definition base_SetVersion :: "'a base_channel_scheme \<Rightarrow> goint \<Rightarrow> 'a base_channel_scheme" where
  "base_SetVersion c v = c\<lparr>chVersion := v\<rparr>"

lemmas [chan_defs] = new_base_def base_GetKey_def base_SetKey_def base_Consume_def
  base_Finish_def base_GetVersion_def base_SetVersion_def

section \<open>LastValue\<close>

record last_value = base_channel +
  lvValue :: gval

definition NewLastValue :: "gval \<Rightarrow> last_value" where
  "NewLastValue typ = \<lparr>chKey = [], chTyp = typ, chVersion = 0, lvValue = VMissing\<rparr>"

definition lv_Get :: "last_value \<Rightarrow> gerr + gval" where
  "lv_Get c = (if IsMissing (lvValue c) then Inl (EmptyChannelError []) else Inr (lvValue c))"

definition lv_IsAvailable :: "last_value \<Rightarrow> bool" where
  "lv_IsAvailable c = (\<not> IsMissing (lvValue c))"

definition lv_Update :: "last_value \<Rightarrow> gval list \<Rightarrow> (gerr + bool) \<times> last_value" where
  "lv_Update c vs =
     (if length vs = 0 then (Inr False, c)
      else if length vs \<noteq> 1 then
        (Inl (InvalidUpdateError
           (''At key '' @ [CHR 0x27] @ chKey c @ [CHR 0x27] @
            '': Can receive only one value per step. Use a reducer to handle multiple values.'')), c)
      else (Inr True, c\<lparr>lvValue := vs ! (length vs - 1)\<rparr>))"

definition lv_Copy :: "last_value \<Rightarrow> last_value" where
  "lv_Copy c = (NewLastValue (chTyp c))\<lparr>chKey := chKey c, lvValue := lvValue c\<rparr>"

definition lv_Checkpoint :: "last_value \<Rightarrow> gval" where
  "lv_Checkpoint c = lvValue c"

definition lv_FromCheckpoint :: "last_value \<Rightarrow> gval \<Rightarrow> last_value" where
  "lv_FromCheckpoint c cp =
     (let n = (NewLastValue (chTyp c))\<lparr>chKey := chKey c\<rparr>
      in if \<not> IsMissing cp then n\<lparr>lvValue := cp\<rparr> else n)"

lemmas [chan_defs] = NewLastValue_def lv_Get_def lv_IsAvailable_def lv_Update_def lv_Copy_def
  lv_Checkpoint_def lv_FromCheckpoint_def

section \<open>AnyValue\<close>

record any_value = base_channel +
  avValue :: gval

definition NewAnyValue :: "gval \<Rightarrow> any_value" where
  "NewAnyValue typ = \<lparr>chKey = [], chTyp = typ, chVersion = 0, avValue = VMissing\<rparr>"

definition av_Get :: "any_value \<Rightarrow> gerr + gval" where
  "av_Get c = (if IsMissing (avValue c) then Inl (EmptyChannelError []) else Inr (avValue c))"

definition av_IsAvailable :: "any_value \<Rightarrow> bool" where
  "av_IsAvailable c = (\<not> IsMissing (avValue c))"

definition av_Update :: "any_value \<Rightarrow> gval list \<Rightarrow> (gerr + bool) \<times> any_value" where
  "av_Update c vs =
     (if length vs = 0 then (Inr False, c)
      else (Inr True, c\<lparr>avValue := vs ! (length vs - 1)\<rparr>))"

definition av_Copy :: "any_value \<Rightarrow> any_value" where
  "av_Copy c = (NewAnyValue (chTyp c))\<lparr>chKey := chKey c, avValue := avValue c\<rparr>"

definition av_Checkpoint :: "any_value \<Rightarrow> gval" where
  "av_Checkpoint c = avValue c"

definition av_FromCheckpoint :: "any_value \<Rightarrow> gval \<Rightarrow> any_value" where
  "av_FromCheckpoint c cp =
     (let n = (NewAnyValue (chTyp c))\<lparr>chKey := chKey c\<rparr>
      in if \<not> IsMissing cp then n\<lparr>avValue := cp\<rparr> else n)"

lemmas [chan_defs] = NewAnyValue_def av_Get_def av_IsAvailable_def av_Update_def av_Copy_def
  av_Checkpoint_def av_FromCheckpoint_def

section \<open>EphemeralValue\<close>

record ephemeral_value = base_channel +
  evValue :: gval
  evGuard :: bool

definition NewEphemeralValue :: "gval \<Rightarrow> bool \<Rightarrow> ephemeral_value" where
  "NewEphemeralValue typ g =
     \<lparr>chKey = [], chTyp = typ, chVersion = 0, evValue = VMissing, evGuard = g\<rparr>"

definition ev_Get :: "ephemeral_value \<Rightarrow> (gerr + gval) \<times> ephemeral_value" where
  "ev_Get c =
     (if IsMissing (evValue c) then
        (if evGuard c then (Inl (EmptyChannelError []), c) else (Inr VNil, c))
      else (Inr (evValue c), c\<lparr>evValue := VMissing\<rparr>))"

definition ev_IsAvailable :: "ephemeral_value \<Rightarrow> bool" where
  "ev_IsAvailable c = (\<not> IsMissing (evValue c))"

definition ev_Update :: "ephemeral_value \<Rightarrow> gval list \<Rightarrow> (gerr + bool) \<times> ephemeral_value" where
  "ev_Update c vs =
     (if length vs = 0 then (Inr False, c)
      else (Inr True, c\<lparr>evValue := vs ! (length vs - 1)\<rparr>))"

definition ev_Copy :: "ephemeral_value \<Rightarrow> ephemeral_value" where
  "ev_Copy c = (NewEphemeralValue (chTyp c) (evGuard c))\<lparr>chKey := chKey c, evValue := evValue c\<rparr>"

definition ev_Checkpoint :: "ephemeral_value \<Rightarrow> gval" where
  "ev_Checkpoint c = evValue c"

definition ev_FromCheckpoint :: "ephemeral_value \<Rightarrow> gval \<Rightarrow> ephemeral_value" where
  "ev_FromCheckpoint c cp =
     (let n = (NewEphemeralValue (chTyp c) (evGuard c))\<lparr>chKey := chKey c\<rparr>
      in if \<not> IsMissing cp then n\<lparr>evValue := cp\<rparr> else n)"

lemmas [chan_defs] = NewEphemeralValue_def ev_Get_def ev_IsAvailable_def ev_Update_def ev_Copy_def
  ev_Checkpoint_def ev_FromCheckpoint_def

section \<open>UntrackedValue\<close>

record untracked_value = base_channel +
  uvValue :: gval

definition NewUntrackedValue :: "gval \<Rightarrow> untracked_value" where
  "NewUntrackedValue typ = \<lparr>chKey = [], chTyp = typ, chVersion = 0, uvValue = VMissing\<rparr>"

definition uv_Get :: "untracked_value \<Rightarrow> gerr + gval" where
  "uv_Get c = (if IsMissing (uvValue c) then Inl (EmptyChannelError []) else Inr (uvValue c))"

definition uv_IsAvailable :: "untracked_value \<Rightarrow> bool" where
  "uv_IsAvailable c = (\<not> IsMissing (uvValue c))"

definition uv_Update :: "untracked_value \<Rightarrow> gval list \<Rightarrow> (gerr + bool) \<times> untracked_value" where
  "uv_Update c vs =
     (if length vs = 0 then (Inr False, c)
      else (Inr True, c\<lparr>uvValue := vs ! (length vs - 1)\<rparr>))"

definition uv_Copy :: "untracked_value \<Rightarrow> untracked_value" where
  "uv_Copy c = (NewUntrackedValue (chTyp c))\<lparr>chKey := chKey c\<rparr>"

definition uv_Checkpoint :: "untracked_value \<Rightarrow> gval" where
  "uv_Checkpoint c = VMissing"

definition uv_FromCheckpoint :: "untracked_value \<Rightarrow> gval \<Rightarrow> untracked_value" where
  "uv_FromCheckpoint c cp = NewUntrackedValue (chTyp c)"

lemmas [chan_defs] = NewUntrackedValue_def uv_Get_def uv_IsAvailable_def uv_Update_def uv_Copy_def
  uv_Checkpoint_def uv_FromCheckpoint_def

section \<open>LastValueAfterFinish\<close>

record last_value_af = base_channel +
  laValue :: gval
  laFinished :: bool

definition NewLastValueAfterFinish :: "gval \<Rightarrow> last_value_af" where
  "NewLastValueAfterFinish typ =
     \<lparr>chKey = [], chTyp = typ, chVersion = 0, laValue = VMissing, laFinished = False\<rparr>"

definition la_Get :: "last_value_af \<Rightarrow> gerr + gval" where
  "la_Get c =
     (if \<not> laFinished c then Inl (EmptyChannelError [])
      else if IsMissing (laValue c) then Inl (EmptyChannelError [])
      else Inr (laValue c))"

definition la_IsAvailable :: "last_value_af \<Rightarrow> bool" where
  "la_IsAvailable c = (laFinished c \<and> \<not> IsMissing (laValue c))"

definition la_Update :: "last_value_af \<Rightarrow> gval list \<Rightarrow> (gerr + bool) \<times> last_value_af" where
  "la_Update c vs =
     (if length vs = 0 then (Inr False, c)
      else if length vs > 1 then
        (Inl (InvalidUpdateError
           ''Can receive only one value per step. Use a reducer to handle multiple values.''), c)
      else (Inr True, c\<lparr>laValue := vs ! 0\<rparr>))"

definition la_Copy :: "last_value_af \<Rightarrow> last_value_af" where
  "la_Copy c = (NewLastValueAfterFinish (chTyp c))
     \<lparr>chKey := chKey c, laValue := laValue c, laFinished := laFinished c\<rparr>"

definition la_Checkpoint :: "last_value_af \<Rightarrow> gval" where
  "la_Checkpoint c = laValue c"

definition la_FromCheckpoint :: "last_value_af \<Rightarrow> gval \<Rightarrow> last_value_af" where
  "la_FromCheckpoint c cp =
     (let n = (NewLastValueAfterFinish (chTyp c))\<lparr>chKey := chKey c\<rparr>
      in if \<not> IsMissing cp then n\<lparr>laValue := cp\<rparr> else n)"

definition la_Finish :: "last_value_af \<Rightarrow> bool \<times> last_value_af" where
  "la_Finish c = (if \<not> laFinished c then (True, c\<lparr>laFinished := True\<rparr>) else (False, c))"

definition la_Consume :: "last_value_af \<Rightarrow> bool \<times> last_value_af" where
  "la_Consume c = (False, c)"

lemmas [chan_defs] = NewLastValueAfterFinish_def la_Get_def la_IsAvailable_def la_Update_def
  la_Copy_def la_Checkpoint_def la_FromCheckpoint_def la_Finish_def la_Consume_def

section \<open>Topic\<close>

record topic = base_channel +
  tpValues :: "gval list"
  tpAccumulate :: bool

definition NewTopic :: "gval \<Rightarrow> bool \<Rightarrow> topic" where
  "NewTopic typ acc =
     \<lparr>chKey = [], chTyp = typ, chVersion = 0, tpValues = [], tpAccumulate = acc\<rparr>"

definition tp_Get :: "topic \<Rightarrow> gerr + gval" where
  "tp_Get c = (if length (tpValues c) = 0 then Inl (EmptyChannelError []) else Inr (VList (tpValues c)))"

definition tp_IsAvailable :: "topic \<Rightarrow> bool" where
  "tp_IsAvailable c = (length (tpValues c) > 0)"

fun flatten :: "gval list \<Rightarrow> gval list" where
  "flatten [] = []"
| "flatten (v # vs) = (case v of VList xs \<Rightarrow> xs @ flatten vs | _ \<Rightarrow> v # flatten vs)"

definition tp_Update :: "topic \<Rightarrow> gval list \<Rightarrow> (gerr + bool) \<times> topic" where
  "tp_Update c vs =
     (let updated = (\<not> tpAccumulate c \<and> length (tpValues c) > 0);
          c1 = (if \<not> tpAccumulate c then c\<lparr>tpValues := []\<rparr> else c);
          flat = flatten vs
      in if length flat > 0 then (Inr True, c1\<lparr>tpValues := tpValues c1 @ flat\<rparr>)
         else (Inr updated, c1))"

definition tp_Copy :: "topic \<Rightarrow> topic" where
  "tp_Copy c = (NewTopic (chTyp c) (tpAccumulate c))\<lparr>chKey := chKey c, tpValues := tpValues c\<rparr>"

definition tp_Checkpoint :: "topic \<Rightarrow> gval" where
  "tp_Checkpoint c = (if length (tpValues c) = 0 then VMissing else VList (tpValues c))"

definition tp_FromCheckpoint :: "topic \<Rightarrow> gval \<Rightarrow> topic" where
  "tp_FromCheckpoint c cp =
     (let n = (NewTopic (chTyp c) (tpAccumulate c))\<lparr>chKey := chKey c\<rparr>
      in if \<not> IsMissing cp then (case cp of VList vs \<Rightarrow> n\<lparr>tpValues := vs\<rparr> | _ \<Rightarrow> n) else n)"

lemmas [chan_defs] = NewTopic_def tp_Get_def tp_IsAvailable_def tp_Update_def tp_Copy_def
  tp_Checkpoint_def tp_FromCheckpoint_def

text \<open>What a sequence of publications leaves in a topic.\<close>

lemma flatten_append: "flatten (vs @ ws) = flatten vs @ flatten ws"
  by (induction vs) (auto split: gval.splits)

definition tp_run :: "topic \<Rightarrow> gval list list \<Rightarrow> topic" where
  "tp_run c steps = fold (\<lambda>vs c. snd (tp_Update c vs)) steps c"

lemma tp_Update_values:
  "tpValues (snd (tp_Update c vs)) =
     (if tpAccumulate c then tpValues c else []) @ flatten vs"
  "tpAccumulate (snd (tp_Update c vs)) = tpAccumulate c"
  by (auto simp: tp_Update_def Let_def)

lemma tp_run_values:
  "tpValues (tp_run c steps) =
     (if tpAccumulate c then tpValues c @ flatten (concat steps)
      else case rev steps of [] \<Rightarrow> tpValues c | vs # _ \<Rightarrow> flatten vs)"
proof -
  have acc: "tpAccumulate (fold (\<lambda>vs c. snd (tp_Update c vs)) steps c) = tpAccumulate c" for steps
    by (induction steps arbitrary: c) (auto simp: tp_Update_values)
  show ?thesis
  proof (induction steps rule: rev_induct)
    case Nil
    show ?case by (simp add: tp_run_def)
  next
    case (snoc vs steps)
    then show ?case
      by (simp add: tp_run_def tp_Update_values acc flatten_append)
  qed
qed

end
