(* ===== verification/Chan_Barrier.thy ===== *)
theory Chan_Barrier
  imports Chan_Scalar
begin

text \<open>
  The barrier channels of \<^verbatim>\<open>channels/barrier.go\<close>: \<open>NamedBarrierValue\<close> and
  \<open>NamedBarrierValueAfterFinish\<close>. Both keep a set of expected names and a set of names seen,
  as Go maps to \<open>bool\<close>; an update that fails keeps the names recorded before the failure.
\<close>

section \<open>The shared update loop and test\<close>

definition not_string_error :: "gval \<Rightarrow> gerr" where
  "not_string_error v = InvalidUpdateError (''value must be a string, got '' @ type_name v)"

definition unexpected_name_error :: "(string, bool) fmap \<Rightarrow> string \<Rightarrow> gerr" where
  "unexpected_name_error names n = InvalidUpdateError
     (''value '' @ [CHR 0x27] @ n @ [CHR 0x27] @ '' not in expected names '' @ fmt_map (fmmap show_bool names))"

fun barrier_loop ::
  "(string, bool) fmap \<Rightarrow> (string, bool) fmap \<Rightarrow> bool \<Rightarrow> gval list \<Rightarrow> (gerr + bool) \<times> (string, bool) fmap"
where
  "barrier_loop names seen updated [] = (Inr updated, seen)"
| "barrier_loop names seen updated (v # vs) =
     (case v of
        VStr n \<Rightarrow>
          (case fmlookup names n of
             Some _ \<Rightarrow>
               (if \<not> fmlookup_default False seen n
                then barrier_loop names (fmupd n True seen) True vs
                else barrier_loop names seen updated vs)
           | None \<Rightarrow> (Inl (unexpected_name_error names n), seen))
      | _ \<Rightarrow> (Inl (not_string_error v), seen))"

definition names_match :: "(string, bool) fmap \<Rightarrow> (string, bool) fmap \<Rightarrow> bool" where
  "names_match names seen \<longleftrightarrow>
     flen names = flen seen \<and> (\<forall>n \<in> fmdom' names. fmlookup_default False seen n)"

definition name_set :: "string list \<Rightarrow> (string, bool) fmap" where
  "name_set wait = fold (\<lambda>n m. fmupd n True m) wait fmempty"

text \<open>\<open>for k, bv := range v \<open>{\<close> if b, ok := bv.(bool) \<dots>\<close>: the boolean entries of a decoded map.\<close>

definition bool_entries :: "gmap \<Rightarrow> (string, bool) fmap" where
  "bool_entries m = fmmap (\<lambda>v. v = VBool True)
     (fmfilter (\<lambda>k. case fmlookup m k of Some (VBool b) \<Rightarrow> True | _ \<Rightarrow> False) m)"

text \<open>The set of names seen, read off the Go map.\<close>

definition seen_set :: "(string, bool) fmap \<Rightarrow> string set" where
  "seen_set seen = {n. fmlookup seen n = Some True}"

section \<open>NamedBarrierValue\<close>

record named_barrier = base_channel +
  nbNames :: "(string, bool) fmap"
  nbSeen :: "(string, bool) fmap"

definition NewNamedBarrierValue :: "gval \<Rightarrow> string list \<Rightarrow> named_barrier" where
  "NewNamedBarrierValue typ wait =
     \<lparr>chKey = [], chTyp = typ, chVersion = 0, nbNames = name_set wait, nbSeen = fmempty\<rparr>"

definition nb_namesMatchSeen :: "named_barrier \<Rightarrow> bool" where
  "nb_namesMatchSeen c = names_match (nbNames c) (nbSeen c)"

definition nb_Get :: "named_barrier \<Rightarrow> gerr + gval" where
  "nb_Get c = (if \<not> nb_namesMatchSeen c then Inl (EmptyChannelError []) else Inr VNil)"

definition nb_IsAvailable :: "named_barrier \<Rightarrow> bool" where
  "nb_IsAvailable c = nb_namesMatchSeen c"

definition nb_Update :: "named_barrier \<Rightarrow> gval list \<Rightarrow> (gerr + bool) \<times> named_barrier" where
  "nb_Update c vs =
     (if length vs = 0 then (Inr False, c)
      else case barrier_loop (nbNames c) (nbSeen c) False vs of (r, s) \<Rightarrow> (r, c\<lparr>nbSeen := s\<rparr>))"

definition nb_Copy :: "named_barrier \<Rightarrow> named_barrier" where
  "nb_Copy c = (NewNamedBarrierValue (chTyp c) [])
     \<lparr>chKey := chKey c, nbNames := nbNames c, nbSeen := nbSeen c\<rparr>"

definition nb_Checkpoint :: "named_barrier \<Rightarrow> gval" where
  "nb_Checkpoint c = (if flen (nbSeen c) = 0 then VMissing else VBoolMap (nbSeen c))"

definition nb_FromCheckpoint :: "named_barrier \<Rightarrow> gval \<Rightarrow> named_barrier" where
  "nb_FromCheckpoint c cp =
     (let n = (NewNamedBarrierValue (chTyp c) [])\<lparr>chKey := chKey c, nbNames := nbNames c\<rparr>
      in if cp \<noteq> VNil \<and> \<not> IsMissing cp then
           (case cp of VBoolMap m \<Rightarrow> n\<lparr>nbSeen := m\<rparr>
            | VMap m \<Rightarrow> n\<lparr>nbSeen := bool_entries m\<rparr>
            | _ \<Rightarrow> n\<lparr>nbSeen := fmempty\<rparr>)
         else n)"

definition nb_Finish :: "named_barrier \<Rightarrow> bool \<times> named_barrier" where
  "nb_Finish c = (if flen (nbSeen c) > 0 then (True, c\<lparr>nbSeen := fmempty\<rparr>) else (False, c))"

definition nb_Consume :: "named_barrier \<Rightarrow> bool \<times> named_barrier" where
  "nb_Consume c = (if nb_namesMatchSeen c \<and> flen (nbSeen c) > 0
     then (True, c\<lparr>nbSeen := fmempty\<rparr>) else (False, c))"

lemmas [chan_defs] = NewNamedBarrierValue_def nb_Get_def nb_IsAvailable_def nb_Update_def
  nb_Copy_def nb_Checkpoint_def nb_FromCheckpoint_def nb_Finish_def nb_Consume_def
  nb_namesMatchSeen_def

section \<open>NamedBarrierValueAfterFinish\<close>

record named_barrier_af = base_channel +
  naNames :: "(string, bool) fmap"
  naSeen :: "(string, bool) fmap"
  naFinished :: bool

definition NewNamedBarrierValueAfterFinish :: "gval \<Rightarrow> string list \<Rightarrow> named_barrier_af" where
  "NewNamedBarrierValueAfterFinish typ wait =
     \<lparr>chKey = [], chTyp = typ, chVersion = 0, naNames = name_set wait, naSeen = fmempty,
      naFinished = False\<rparr>"

definition na_namesMatchSeen :: "named_barrier_af \<Rightarrow> bool" where
  "na_namesMatchSeen c = names_match (naNames c) (naSeen c)"

definition na_Get :: "named_barrier_af \<Rightarrow> gerr + gval" where
  "na_Get c = (if \<not> naFinished c \<or> \<not> na_namesMatchSeen c then Inl (EmptyChannelError []) else Inr VNil)"

definition na_IsAvailable :: "named_barrier_af \<Rightarrow> bool" where
  "na_IsAvailable c = (naFinished c \<and> na_namesMatchSeen c)"

definition na_Update :: "named_barrier_af \<Rightarrow> gval list \<Rightarrow> (gerr + bool) \<times> named_barrier_af" where
  "na_Update c vs =
     (if length vs = 0 then (Inr False, c)
      else case barrier_loop (naNames c) (naSeen c) False vs of (r, s) \<Rightarrow> (r, c\<lparr>naSeen := s\<rparr>))"

definition na_Copy :: "named_barrier_af \<Rightarrow> named_barrier_af" where
  "na_Copy c = (NewNamedBarrierValueAfterFinish (chTyp c) [])
     \<lparr>chKey := chKey c, naNames := naNames c, naSeen := naSeen c, naFinished := naFinished c\<rparr>"

definition na_Checkpoint :: "named_barrier_af \<Rightarrow> gval" where
  "na_Checkpoint c =
     (if flen (naSeen c) = 0 \<and> \<not> naFinished c then VMissing
      else VMap (fmap_of_list [(''seen'', VBoolMap (naSeen c)), (''finished'', VBool (naFinished c))]))"

definition na_FromCheckpoint :: "named_barrier_af \<Rightarrow> gval \<Rightarrow> named_barrier_af" where
  "na_FromCheckpoint c cp =
     (let n = (NewNamedBarrierValueAfterFinish (chTyp c) [])\<lparr>chKey := chKey c, naNames := naNames c\<rparr>
      in if cp \<noteq> VNil \<and> \<not> IsMissing cp then
           (case cp of
              VMap m \<Rightarrow>
                (let n1 = (case fmlookup m ''seen'' of
                             Some (VBoolMap s) \<Rightarrow> n\<lparr>naSeen := s\<rparr>
                           | Some (VMap s) \<Rightarrow> n\<lparr>naSeen := bool_entries s\<rparr>
                           | _ \<Rightarrow> n\<lparr>naSeen := fmempty\<rparr>)
                 in case fmlookup m ''finished'' of
                      Some (VBool b) \<Rightarrow> n1\<lparr>naFinished := b\<rparr> | _ \<Rightarrow> n1)
            | _ \<Rightarrow> n)
         else n)"

definition na_Finish :: "named_barrier_af \<Rightarrow> bool \<times> named_barrier_af" where
  "na_Finish c = (if \<not> naFinished c \<and> na_namesMatchSeen c
     then (True, c\<lparr>naFinished := True\<rparr>) else (False, c))"

definition na_Consume :: "named_barrier_af \<Rightarrow> bool \<times> named_barrier_af" where
  "na_Consume c = (if naFinished c \<and> na_namesMatchSeen c \<and> flen (naSeen c) > 0
     then (True, c\<lparr>naFinished := False, naSeen := fmempty\<rparr>) else (False, c))"

lemmas [chan_defs] = NewNamedBarrierValueAfterFinish_def na_Get_def na_IsAvailable_def
  na_Update_def na_Copy_def na_Checkpoint_def na_FromCheckpoint_def na_Finish_def na_Consume_def
  na_namesMatchSeen_def

section \<open>What the barrier computes\<close>

text \<open>
  The invariant of a barrier's two maps: every entry is \<open>true\<close>, and only expected names are
  recorded. Under it the code's comparison of lengths and entries is equality of the sets.
\<close>

definition barrier_ok :: "(string, bool) fmap \<Rightarrow> (string, bool) fmap \<Rightarrow> bool" where
  "barrier_ok names seen \<longleftrightarrow>
     fmpred (\<lambda>_ b. b) names \<and> fmpred (\<lambda>_ b. b) seen \<and> fmdom' seen \<subseteq> fmdom' names"

lemma seen_set_upd [simp]: "seen_set (fmupd n True s) = insert n (seen_set s)"
  by (auto simp: seen_set_def)

lemma seen_set_empty [simp]: "seen_set fmempty = {}"
  by (simp add: seen_set_def)

lemma seen_set_dom: "fmpred (\<lambda>_ b. b) s \<Longrightarrow> seen_set s = fmdom' s"
  by (fastforce simp: seen_set_def fmlookup_dom'_iff dest: fmpredD)

lemma finite_seen_set [simp]: "finite (seen_set s)"
  by (rule finite_subset[of _ "fmdom' s"]) (auto simp: seen_set_def fmlookup_dom'_iff)

lemma name_set_dom: "fmdom' (name_set wait) = set wait"
proof -
  have "fmdom' (fold (\<lambda>n m. fmupd n True m) wait m) = set wait \<union> fmdom' m"
    for m :: "(string, bool) fmap"
    by (induction wait arbitrary: m) auto
  then show ?thesis by (simp add: name_set_def)
qed

lemma name_set_true: "fmpred (\<lambda>_ b. b) (name_set wait)"
  unfolding name_set_def by (rule fold_invariant) auto

lemma barrier_ok_new: "barrier_ok (name_set wait) fmempty"
  by (simp add: barrier_ok_def name_set_true)

lemma names_match_iff:
  assumes "barrier_ok names seen"
  shows "names_match names seen \<longleftrightarrow> seen_set seen = fmdom' names"
proof -
  from assms have sub: "fmdom' seen \<subseteq> fmdom' names" and t: "fmpred (\<lambda>_ b. b) seen"
    by (auto simp: barrier_ok_def)
  have s: "seen_set seen = fmdom' seen" by (rule seen_set_dom[OF t])
  show ?thesis
  proof
    assume "names_match names seen"
    then have "card (fmdom' names) = card (fmdom' seen)"
      by (simp add: names_match_def flen_def)
    with sub have "fmdom' seen = fmdom' names"
      by (metis card_subset_eq finite_fmdom')
    with s show "seen_set seen = fmdom' names" by simp
  next
    assume eq: "seen_set seen = fmdom' names"
    have "fmlookup_default False seen n" if "n \<in> fmdom' names" for n
    proof -
      from that eq have "n \<in> seen_set seen" by simp
      then show ?thesis by (simp add: seen_set_def fmlookup_default_def)
    qed
    with eq s show "names_match names seen" by (auto simp: names_match_def flen_def)
  qed
qed

lemma barrier_ok_upd:
  "barrier_ok names seen \<Longrightarrow> fmlookup names n = Some b \<Longrightarrow> barrier_ok names (fmupd n True seen)"
  by (auto simp: barrier_ok_def fmlookup_dom'_iff)

lemma barrier_loop_ok:
  "barrier_ok names seen \<Longrightarrow> barrier_ok names (snd (barrier_loop names seen u vs))"
  by (induction names seen u vs rule: barrier_loop.induct)
    (auto simp: barrier_ok_upd split: gval.splits option.splits)

text \<open>A loop over expected names records exactly those names.\<close>

lemma barrier_loop_names:
  "set ns \<subseteq> fmdom' names \<Longrightarrow>
   (case barrier_loop names seen u (map VStr ns) of (r, s) \<Rightarrow>
      seen_set s = seen_set seen \<union> set ns \<and>
      r = Inr (u \<or> \<not> set ns \<subseteq> seen_set seen))"
proof (induction ns arbitrary: seen u)
  case Nil
  show ?case by simp
next
  case (Cons n ns)
  from Cons.prems obtain b where b: "fmlookup names n = Some b"
    by (auto simp: fmlookup_dom'_iff)
  have sub: "set ns \<subseteq> fmdom' names" using Cons.prems by simp
  show ?case
  proof (cases "fmlookup_default False seen n")
    case True
    then have "n \<in> seen_set seen"
      by (auto simp: fmlookup_default_def seen_set_def split: option.splits)
    with True b Cons.IH[OF sub, of seen u] show ?thesis
      by (auto split: prod.splits)
  next
    case False
    then have "n \<notin> seen_set seen"
      by (auto simp: fmlookup_default_def seen_set_def split: option.splits)
    with False b Cons.IH[OF sub, of "fmupd n True seen" True] show ?thesis
      by (auto split: prod.splits)
  qed
qed

text \<open>An update with a value that is no expected name fails and keeps what came before it.\<close>

lemma barrier_loop_fail:
  assumes "set ns \<subseteq> fmdom' names" and "v \<notin> VStr ` fmdom' names"
  shows "\<exists>e s. barrier_loop names seen u (map VStr ns @ v # vs) = (Inl (InvalidUpdateError e), s)
           \<and> seen_set s = seen_set seen \<union> set ns"
  using assms(1)
proof (induction ns arbitrary: seen u)
  case Nil
  from assms(2) show ?case
    by (auto simp: unexpected_name_error_def not_string_error_def fmlookup_dom'_iff
        split: gval.splits option.splits)
next
  case (Cons n ns)
  then obtain b where b: "fmlookup names n = Some b"
    by (auto simp: fmlookup_dom'_iff)
  have sub: "set ns \<subseteq> fmdom' names" using Cons.prems by simp
  show ?case
  proof (cases "fmlookup_default False seen n")
    case True
    then have "n \<in> seen_set seen"
      by (auto simp: fmlookup_default_def seen_set_def split: option.splits)
    with True b Cons.IH[OF sub, of seen u] show ?thesis by auto
  next
    case False
    with b Cons.IH[OF sub, of "fmupd n True seen" True] show ?thesis by auto
  qed
qed

lemma bool_entries_of_bool_map: "bool_entries (fmmap VBool m) = m"
proof (rule fmap_ext)
  fix k
  show "fmlookup (bool_entries (fmmap VBool m)) k = fmlookup m k"
    by (cases "fmlookup m k") (auto simp: bool_entries_def)
qed

end
