(* ===== verification/Chan_Reduce.thy ===== *)
theory Chan_Reduce
  imports Chan_Scalar
begin

text \<open>
  \<open>BinaryOperatorAggregate\<close> of \<^verbatim>\<open>channels/binop.go\<close> with its operators, the built-in reducers
  of \<^verbatim>\<open>channels/reducer.go\<close> and \<^verbatim>\<open>graph/state.go\<close>, and the zero value a typed aggregate
  starts from. The channel that wraps another one is in theory \<open>Channels\<close>.
\<close>

section \<open>Zero values\<close>

text \<open>\<open>reflect.Zero(rt).Interface()\<close>, or the empty slice or map, of a value's type.\<close>

primrec zero_elem :: "golib \<Rightarrow> gval \<Rightarrow> gval" where
  "zero_elem L VNil = VNil"
| "zero_elem L VMissing = zero_of L ''channels.missingSentinel''"
| "zero_elem L (VBool b) = VBool False"
| "zero_elem L (VInt i) = VInt 0"
| "zero_elem L (VFloat f) = VFloat 0"
| "zero_elem L (VStr s) = VStr []"
| "zero_elem L (VBytes s) = VBytes []"
| "zero_elem L (VList vs) = VList []"
| "zero_elem L (VMap m) = VMap fmempty"
| "zero_elem L (VBoolMap m) = VBoolMap fmempty"
| "zero_elem L (VIntMap m) = VIntMap fmempty"
| "zero_elem L (VIntMapMap m) = VIntMapMap fmempty"
| "zero_elem L (VMapList ms) = VMapList []"
| "zero_elem L (VStruct t fs) = zero_of L t"
| "zero_elem L (VPtr v) = zero_of L (CHR ''*'' # type_name v)"
| "zero_elem L (VOverwrite v) = zero_of L ''types.Overwrite''"
| "zero_elem L (VInterrupt v i) = zero_of L ''types.Interrupt''"
| "zero_elem L (VType t) = zero_of L ''reflect.rtype''"
| "zero_elem L (VOther t n) = zero_of L t"

definition createZeroValue :: "golib \<Rightarrow> gval \<Rightarrow> gval" where
  "createZeroValue L typ =
     (case typ of
        VNil \<Rightarrow> VMissing
      | VList _ \<Rightarrow> VList []
      | VMap _ \<Rightarrow> VMap fmempty
      | VPtr v \<Rightarrow> zero_elem L v
      | v \<Rightarrow> zero_elem L v)"

section \<open>Operators and reducers\<close>

type_synonym binary_operator = "gval \<Rightarrow> gval \<Rightarrow> gval"

definition StringConcat :: "golib \<Rightarrow> binary_operator" where
  "StringConcat L a b =
     (case (a, b) of (VStr sa, VStr sb) \<Rightarrow> VStr (sa @ sb)
      | _ \<Rightarrow> VStr (fmt_v L a @ fmt_v L b))"

definition IntAdd :: "golib \<Rightarrow> binary_operator" where
  "IntAdd L a b =
     (case (a, b) of (VInt ai, VInt bi) \<Rightarrow> VInt (ai + bi)
      | (VFloat af, VFloat bf) \<Rightarrow> VFloat (fadd L af bf)
      | _ \<Rightarrow> a)"

definition ListAppend :: binary_operator where
  "ListAppend a b =
     (case a of
        VList al \<Rightarrow> (case b of VList bl \<Rightarrow> VList (al @ bl) | _ \<Rightarrow> VList (al @ [b]))
      | _ \<Rightarrow> VList [a, b])"

text \<open>Copying two maps one after the other into a new one.\<close>

definition merge_maps :: "gmap \<Rightarrow> gmap \<Rightarrow> gmap" where
  "merge_maps m n = m ++\<^sub>f n"

text \<open>The merge operator \<open>CreateReducerChannel\<close> gives to map fields.\<close>

definition MapMerge :: binary_operator where
  "MapMerge a b = (case (a, b) of (VMap am, VMap bm) \<Rightarrow> VMap (merge_maps am bm) | _ \<Rightarrow> b)"

definition AddReducer :: "golib \<Rightarrow> binary_operator" where
  "AddReducer L current update =
     (if current = VNil then update
      else case (current, update) of
          (VInt ci, VInt ui) \<Rightarrow> VInt (ci + ui)
        | (VFloat cf, VFloat uf) \<Rightarrow> VFloat (fadd L cf uf)
        | _ \<Rightarrow> update)"

definition AppendReducer :: binary_operator where
  "AppendReducer current update =
     (case current of VNil \<Rightarrow> VList [update]
      | VList xs \<Rightarrow> VList (xs @ [update])
      | _ \<Rightarrow> VList [current, update])"

definition MergeReducer :: binary_operator where
  "MergeReducer current update =
     (case current of VNil \<Rightarrow> update
      | VMap cm \<Rightarrow> (case update of VMap um \<Rightarrow> VMap (merge_maps cm um) | _ \<Rightarrow> update)
      | _ \<Rightarrow> update)"

text \<open>The registry of reducers a struct tag can name.\<close>

definition reducers :: "golib \<Rightarrow> string \<Rightarrow> binary_operator option" where
  "reducers L = (\<lambda>n. if n = ''add'' then Some (AddReducer L)
     else if n = ''append'' then Some AppendReducer
     else if n = ''merge'' then Some MergeReducer
     else None)"

section \<open>BinaryOperatorAggregate\<close>

record binop = base_channel +
  boValue :: gval
  boOperator :: binary_operator

definition NewBinaryOperatorAggregate :: "golib \<Rightarrow> gval \<Rightarrow> binary_operator \<Rightarrow> binop" where
  "NewBinaryOperatorAggregate L typ opr =
     \<lparr>chKey = [], chTyp = typ, chVersion = 0, boValue = createZeroValue L typ, boOperator = opr\<rparr>"

definition bo_Get :: "binop \<Rightarrow> gerr + gval" where
  "bo_Get c = (if IsMissing (boValue c) then Inl (EmptyChannelError []) else Inr (boValue c))"

definition bo_IsAvailable :: "binop \<Rightarrow> bool" where
  "bo_IsAvailable c = (\<not> IsMissing (boValue c))"

text \<open>
  The wrapper test. No type of the source has a \<open>GetValue\<close> method, so only a type declared
  elsewhere can be an \<open>overwriter\<close>; in particular \<open>*types.Overwrite\<close> is none.
\<close>

definition overwriter :: "golib \<Rightarrow> gval \<Rightarrow> gval option" where
  "overwriter L v = (case v of VStruct _ _ \<Rightarrow> get_value L v | VPtr _ \<Rightarrow> get_value L v
     | VOther _ _ \<Rightarrow> get_value L v | _ \<Rightarrow> None)"

definition isOverwrite :: "golib \<Rightarrow> gval \<Rightarrow> gval option" where
  "isOverwrite L v =
     (if v = VNil then None
      else case overwriter L v of
          Some w \<Rightarrow> Some w
        | None \<Rightarrow>
           (case v of
              VMap m \<Rightarrow> (if flen m = 1 then fmlookup m ''__overwrite__'' else None)
            | _ \<Rightarrow> None))"

fun binop_loop ::
  "golib \<Rightarrow> binary_operator \<Rightarrow> gval \<Rightarrow> bool \<Rightarrow> gval list \<Rightarrow> (gerr + bool) \<times> gval"
where
  "binop_loop L opr cur seen [] = (Inr True, cur)"
| "binop_loop L opr cur seen (v # vs) =
     (case isOverwrite L v of
        Some ow \<Rightarrow>
          (if seen then (Inl (InvalidUpdateError ''Can receive only one Overwrite value per super-step.''), cur)
           else binop_loop L opr ow True vs)
      | None \<Rightarrow>
          (if \<not> seen then binop_loop L opr (opr cur v) seen vs
           else binop_loop L opr cur seen vs))"

definition bo_Update :: "golib \<Rightarrow> binop \<Rightarrow> gval list \<Rightarrow> (gerr + bool) \<times> binop" where
  "bo_Update L c vs =
     (if length vs = 0 then (Inr False, c)
      else
        let (cur, rest) = (if IsMissing (boValue c) then (vs ! 0, drop 1 vs) else (boValue c, vs))
        in case binop_loop L (boOperator c) cur False rest of (r, v) \<Rightarrow> (r, c\<lparr>boValue := v\<rparr>))"

definition bo_Copy :: "golib \<Rightarrow> binop \<Rightarrow> binop" where
  "bo_Copy L c = (NewBinaryOperatorAggregate L (chTyp c) (boOperator c))
     \<lparr>chKey := chKey c, boValue := boValue c\<rparr>"

definition bo_Checkpoint :: "binop \<Rightarrow> gval" where
  "bo_Checkpoint c = boValue c"

definition bo_FromCheckpoint :: "golib \<Rightarrow> binop \<Rightarrow> gval \<Rightarrow> binop" where
  "bo_FromCheckpoint L c cp =
     (let n = (NewBinaryOperatorAggregate L (chTyp c) (boOperator c))\<lparr>chKey := chKey c\<rparr>
      in if \<not> IsMissing cp then n\<lparr>boValue := cp\<rparr> else n)"

lemmas [chan_defs] = NewBinaryOperatorAggregate_def bo_Get_def bo_IsAvailable_def bo_Update_def
  bo_Copy_def bo_Checkpoint_def bo_FromCheckpoint_def

section \<open>What an aggregate computes\<close>

text \<open>
  The reference: with no overwrite among the values the operator folds over them; with one,
  its value stands and everything beside it is ignored; a second one is refused.
\<close>

definition overwrites :: "golib \<Rightarrow> gval list \<Rightarrow> gval list" where
  "overwrites L vs = List.map_filter (isOverwrite L) vs"

definition binop_spec :: "golib \<Rightarrow> binary_operator \<Rightarrow> gval \<Rightarrow> gval list \<Rightarrow> gval option" where
  "binop_spec L opr cur vs =
     (case overwrites L vs of
        [] \<Rightarrow> Some (foldl opr cur vs)
      | [w] \<Rightarrow> Some w
      | _ \<Rightarrow> None)"

lemma overwrites_simps [simp]:
  "overwrites L [] = []"
  "overwrites L (v # vs) =
     (case isOverwrite L v of None \<Rightarrow> overwrites L vs | Some w \<Rightarrow> w # overwrites L vs)"
  by (auto simp: overwrites_def map_filter_simps split: option.splits)

lemma binop_loop_seen:
  "binop_loop L opr cur True vs =
     (if overwrites L vs = [] then (Inr True, cur)
      else (Inl (InvalidUpdateError ''Can receive only one Overwrite value per super-step.''), cur))"
  by (induction vs) (auto split: option.splits)

lemma binop_loop_spec:
  "(case binop_spec L opr cur vs of
      Some v \<Rightarrow> binop_loop L opr cur False vs = (Inr True, v)
    | None \<Rightarrow> fst (binop_loop L opr cur False vs) =
        Inl (InvalidUpdateError ''Can receive only one Overwrite value per super-step.''))"
proof (induction vs arbitrary: cur)
  case Nil
  show ?case by (simp add: binop_spec_def)
next
  case (Cons v vs)
  show ?case
  proof (cases "isOverwrite L v")
    case None
    with Cons.IH[of "opr cur v"] show ?thesis
      by (auto simp: binop_spec_def split: list.splits)
  next
    case (Some w)
    then show ?thesis
      by (auto simp: binop_spec_def binop_loop_seen split: list.splits)
  qed
qed

text \<open>The second overwrite leaves the first one's value behind.\<close>

lemma binop_loop_two_overwrites:
  "overwrites L vs = w # w' # ws \<Longrightarrow> snd (binop_loop L opr cur False vs) = w"
  by (induction vs arbitrary: cur) (auto simp: binop_loop_seen split: option.splits if_splits)

end
