(* ===== verification/Channels.thy ===== *)
theory Channels
  imports Chan_Barrier Chan_Reduce
begin

text \<open>
  The \<open>Channel\<close> interface of \<^verbatim>\<open>channels/base.go\<close>: a datatype with one constructor per
  implementing struct, each method dispatching on it, the wrapper \<open>ReducerChannel\<close> and
  \<open>CreateReducerChannel\<close> of \<^verbatim>\<open>channels/reducer.go\<close>. Two locales state what the engine relies
  on: \<open>channel_laws\<close> (the only read error is the empty channel, and it agrees with
  \<open>IsAvailable\<close>) and \<open>resumable\<close> (a channel rebuilt from its checkpoint cannot be told from the
  channel that was saved). Both are interpreted on the model.
\<close>

section \<open>The interface\<close>

datatype channel =
    ChLastValue last_value
  | ChAnyValue any_value
  | ChEphemeralValue ephemeral_value
  | ChUntrackedValue untracked_value
  | ChTopic topic
  | ChLastValueAF last_value_af
  | ChNamedBarrier named_barrier
  | ChNamedBarrierAF named_barrier_af
  | ChBinop binop
  | ChReducer channel binary_operator

text \<open>A method's result beside the updated struct, put back under its constructor.\<close>

definition on_snd :: "('b \<Rightarrow> 'c) \<Rightarrow> 'a \<times> 'b \<Rightarrow> 'a \<times> 'c" where
  "on_snd k p = (fst p, k (snd p))"

lemma on_snd_simps [simp]:
  "on_snd k (a, b) = (a, k b)" "fst (on_snd k p) = fst p" "snd (on_snd k p) = k (snd p)"
  by (simp_all add: on_snd_def)

primrec ch_GetKey :: "channel \<Rightarrow> string" where
  "ch_GetKey (ChLastValue c) = base_GetKey c"
| "ch_GetKey (ChAnyValue c) = base_GetKey c"
| "ch_GetKey (ChEphemeralValue c) = base_GetKey c"
| "ch_GetKey (ChUntrackedValue c) = base_GetKey c"
| "ch_GetKey (ChTopic c) = base_GetKey c"
| "ch_GetKey (ChLastValueAF c) = base_GetKey c"
| "ch_GetKey (ChNamedBarrier c) = base_GetKey c"
| "ch_GetKey (ChNamedBarrierAF c) = base_GetKey c"
| "ch_GetKey (ChBinop c) = base_GetKey c"
| "ch_GetKey (ChReducer c r) = ch_GetKey c"

primrec ch_SetKey :: "channel \<Rightarrow> string \<Rightarrow> channel" where
  "ch_SetKey (ChLastValue c) k = ChLastValue (base_SetKey c k)"
| "ch_SetKey (ChAnyValue c) k = ChAnyValue (base_SetKey c k)"
| "ch_SetKey (ChEphemeralValue c) k = ChEphemeralValue (base_SetKey c k)"
| "ch_SetKey (ChUntrackedValue c) k = ChUntrackedValue (base_SetKey c k)"
| "ch_SetKey (ChTopic c) k = ChTopic (base_SetKey c k)"
| "ch_SetKey (ChLastValueAF c) k = ChLastValueAF (base_SetKey c k)"
| "ch_SetKey (ChNamedBarrier c) k = ChNamedBarrier (base_SetKey c k)"
| "ch_SetKey (ChNamedBarrierAF c) k = ChNamedBarrierAF (base_SetKey c k)"
| "ch_SetKey (ChBinop c) k = ChBinop (base_SetKey c k)"
| "ch_SetKey (ChReducer c r) k = ChReducer (ch_SetKey c k) r"

primrec ch_Get :: "channel \<Rightarrow> (gerr + gval) \<times> channel" where
  "ch_Get (ChLastValue c) = (lv_Get c, ChLastValue c)"
| "ch_Get (ChAnyValue c) = (av_Get c, ChAnyValue c)"
| "ch_Get (ChEphemeralValue c) = on_snd ChEphemeralValue (ev_Get c)"
| "ch_Get (ChUntrackedValue c) = (uv_Get c, ChUntrackedValue c)"
| "ch_Get (ChTopic c) = (tp_Get c, ChTopic c)"
| "ch_Get (ChLastValueAF c) = (la_Get c, ChLastValueAF c)"
| "ch_Get (ChNamedBarrier c) = (nb_Get c, ChNamedBarrier c)"
| "ch_Get (ChNamedBarrierAF c) = (na_Get c, ChNamedBarrierAF c)"
| "ch_Get (ChBinop c) = (bo_Get c, ChBinop c)"
| "ch_Get (ChReducer c r) = on_snd (\<lambda>c'. ChReducer c' r) (ch_Get c)"

primrec ch_IsAvailable :: "channel \<Rightarrow> bool" where
  "ch_IsAvailable (ChLastValue c) = lv_IsAvailable c"
| "ch_IsAvailable (ChAnyValue c) = av_IsAvailable c"
| "ch_IsAvailable (ChEphemeralValue c) = ev_IsAvailable c"
| "ch_IsAvailable (ChUntrackedValue c) = uv_IsAvailable c"
| "ch_IsAvailable (ChTopic c) = tp_IsAvailable c"
| "ch_IsAvailable (ChLastValueAF c) = la_IsAvailable c"
| "ch_IsAvailable (ChNamedBarrier c) = nb_IsAvailable c"
| "ch_IsAvailable (ChNamedBarrierAF c) = na_IsAvailable c"
| "ch_IsAvailable (ChBinop c) = bo_IsAvailable c"
| "ch_IsAvailable (ChReducer c r) = ch_IsAvailable c"

text \<open>
  \<open>ReducerChannel.Update\<close>: the current value, if there is one, and the new values are folded
  with the reducer, and the wrapped channel is updated with the one result. Reading the current
  value is a \<open>Get\<close>, so it empties a wrapped ephemeral channel.
\<close>

definition reduce_values :: "binary_operator \<Rightarrow> gerr + gval \<Rightarrow> gval list \<Rightarrow> gval" where
  "reduce_values r current vs =
     (let combined = (case current of Inr cur \<Rightarrow> r cur (vs ! 0) | Inl _ \<Rightarrow> vs ! 0)
      in foldl r combined (drop 1 vs))"

lemma size_ch_Get: "size (snd (ch_Get c)) = size c"
  by (induction c) (auto simp: on_snd_def)

function ch_Update :: "golib \<Rightarrow> channel \<Rightarrow> gval list \<Rightarrow> (gerr + bool) \<times> channel" where
  "ch_Update L (ChLastValue c) vs = on_snd ChLastValue (lv_Update c vs)"
| "ch_Update L (ChAnyValue c) vs = on_snd ChAnyValue (av_Update c vs)"
| "ch_Update L (ChEphemeralValue c) vs = on_snd ChEphemeralValue (ev_Update c vs)"
| "ch_Update L (ChUntrackedValue c) vs = on_snd ChUntrackedValue (uv_Update c vs)"
| "ch_Update L (ChTopic c) vs = on_snd ChTopic (tp_Update c vs)"
| "ch_Update L (ChLastValueAF c) vs = on_snd ChLastValueAF (la_Update c vs)"
| "ch_Update L (ChNamedBarrier c) vs = on_snd ChNamedBarrier (nb_Update c vs)"
| "ch_Update L (ChNamedBarrierAF c) vs = on_snd ChNamedBarrierAF (na_Update c vs)"
| "ch_Update L (ChBinop c) vs = on_snd ChBinop (bo_Update L c vs)"
| "ch_Update L (ChReducer c r) vs =
     (if length vs = 0 then (Inr False, ChReducer c r)
      else on_snd (\<lambda>c''. ChReducer c'' r)
             (case ch_Get c of (current, c') \<Rightarrow> ch_Update L c' [reduce_values r current vs]))"
  by pat_completeness auto
termination
proof (relation "measure (\<lambda>(L, c, vs). size c)")
  fix c r current c'
  fix L :: golib and vs :: "gval list"
  assume "(current, c') = ch_Get c"
  then have "c' = snd (ch_Get c)" by (cases "ch_Get c") simp
  then show "((L, c', [reduce_values r current vs]), (L, ChReducer c r, vs)) \<in> measure (\<lambda>(L, c, vs). size c)"
    by (simp add: size_ch_Get)
qed simp

primrec ch_Copy :: "golib \<Rightarrow> channel \<Rightarrow> channel" where
  "ch_Copy L (ChLastValue c) = ChLastValue (lv_Copy c)"
| "ch_Copy L (ChAnyValue c) = ChAnyValue (av_Copy c)"
| "ch_Copy L (ChEphemeralValue c) = ChEphemeralValue (ev_Copy c)"
| "ch_Copy L (ChUntrackedValue c) = ChUntrackedValue (uv_Copy c)"
| "ch_Copy L (ChTopic c) = ChTopic (tp_Copy c)"
| "ch_Copy L (ChLastValueAF c) = ChLastValueAF (la_Copy c)"
| "ch_Copy L (ChNamedBarrier c) = ChNamedBarrier (nb_Copy c)"
| "ch_Copy L (ChNamedBarrierAF c) = ChNamedBarrierAF (na_Copy c)"
| "ch_Copy L (ChBinop c) = ChBinop (bo_Copy L c)"
| "ch_Copy L (ChReducer c r) = ChReducer (ch_Copy L c) r"

primrec ch_Checkpoint :: "channel \<Rightarrow> gval" where
  "ch_Checkpoint (ChLastValue c) = lv_Checkpoint c"
| "ch_Checkpoint (ChAnyValue c) = av_Checkpoint c"
| "ch_Checkpoint (ChEphemeralValue c) = ev_Checkpoint c"
| "ch_Checkpoint (ChUntrackedValue c) = uv_Checkpoint c"
| "ch_Checkpoint (ChTopic c) = tp_Checkpoint c"
| "ch_Checkpoint (ChLastValueAF c) = la_Checkpoint c"
| "ch_Checkpoint (ChNamedBarrier c) = nb_Checkpoint c"
| "ch_Checkpoint (ChNamedBarrierAF c) = na_Checkpoint c"
| "ch_Checkpoint (ChBinop c) = bo_Checkpoint c"
| "ch_Checkpoint (ChReducer c r) = ch_Checkpoint c"

primrec ch_FromCheckpoint :: "golib \<Rightarrow> channel \<Rightarrow> gval \<Rightarrow> channel" where
  "ch_FromCheckpoint L (ChLastValue c) cp = ChLastValue (lv_FromCheckpoint c cp)"
| "ch_FromCheckpoint L (ChAnyValue c) cp = ChAnyValue (av_FromCheckpoint c cp)"
| "ch_FromCheckpoint L (ChEphemeralValue c) cp = ChEphemeralValue (ev_FromCheckpoint c cp)"
| "ch_FromCheckpoint L (ChUntrackedValue c) cp = ChUntrackedValue (uv_FromCheckpoint c cp)"
| "ch_FromCheckpoint L (ChTopic c) cp = ChTopic (tp_FromCheckpoint c cp)"
| "ch_FromCheckpoint L (ChLastValueAF c) cp = ChLastValueAF (la_FromCheckpoint c cp)"
| "ch_FromCheckpoint L (ChNamedBarrier c) cp = ChNamedBarrier (nb_FromCheckpoint c cp)"
| "ch_FromCheckpoint L (ChNamedBarrierAF c) cp = ChNamedBarrierAF (na_FromCheckpoint c cp)"
| "ch_FromCheckpoint L (ChBinop c) cp = ChBinop (bo_FromCheckpoint L c cp)"
| "ch_FromCheckpoint L (ChReducer c r) cp = ChReducer (ch_FromCheckpoint L c cp) r"

primrec ch_Consume :: "channel \<Rightarrow> bool \<times> channel" where
  "ch_Consume (ChLastValue c) = on_snd ChLastValue (base_Consume c)"
| "ch_Consume (ChAnyValue c) = on_snd ChAnyValue (base_Consume c)"
| "ch_Consume (ChEphemeralValue c) = on_snd ChEphemeralValue (base_Consume c)"
| "ch_Consume (ChUntrackedValue c) = on_snd ChUntrackedValue (base_Consume c)"
| "ch_Consume (ChTopic c) = on_snd ChTopic (base_Consume c)"
| "ch_Consume (ChLastValueAF c) = on_snd ChLastValueAF (la_Consume c)"
| "ch_Consume (ChNamedBarrier c) = on_snd ChNamedBarrier (nb_Consume c)"
| "ch_Consume (ChNamedBarrierAF c) = on_snd ChNamedBarrierAF (na_Consume c)"
| "ch_Consume (ChBinop c) = on_snd ChBinop (base_Consume c)"
| "ch_Consume (ChReducer c r) = on_snd (\<lambda>c'. ChReducer c' r) (ch_Consume c)"

primrec ch_Finish :: "channel \<Rightarrow> bool \<times> channel" where
  "ch_Finish (ChLastValue c) = on_snd ChLastValue (base_Finish c)"
| "ch_Finish (ChAnyValue c) = on_snd ChAnyValue (base_Finish c)"
| "ch_Finish (ChEphemeralValue c) = on_snd ChEphemeralValue (base_Finish c)"
| "ch_Finish (ChUntrackedValue c) = on_snd ChUntrackedValue (base_Finish c)"
| "ch_Finish (ChTopic c) = on_snd ChTopic (base_Finish c)"
| "ch_Finish (ChLastValueAF c) = on_snd ChLastValueAF (la_Finish c)"
| "ch_Finish (ChNamedBarrier c) = on_snd ChNamedBarrier (nb_Finish c)"
| "ch_Finish (ChNamedBarrierAF c) = on_snd ChNamedBarrierAF (na_Finish c)"
| "ch_Finish (ChBinop c) = on_snd ChBinop (base_Finish c)"
| "ch_Finish (ChReducer c r) = on_snd (\<lambda>c'. ChReducer c' r) (ch_Finish c)"

primrec ch_GetVersion :: "channel \<Rightarrow> goint" where
  "ch_GetVersion (ChLastValue c) = base_GetVersion c"
| "ch_GetVersion (ChAnyValue c) = base_GetVersion c"
| "ch_GetVersion (ChEphemeralValue c) = base_GetVersion c"
| "ch_GetVersion (ChUntrackedValue c) = base_GetVersion c"
| "ch_GetVersion (ChTopic c) = base_GetVersion c"
| "ch_GetVersion (ChLastValueAF c) = base_GetVersion c"
| "ch_GetVersion (ChNamedBarrier c) = base_GetVersion c"
| "ch_GetVersion (ChNamedBarrierAF c) = base_GetVersion c"
| "ch_GetVersion (ChBinop c) = base_GetVersion c"
| "ch_GetVersion (ChReducer c r) = ch_GetVersion c"

text \<open>
  \<open>ch.(interface \<open>{\<close> SetVersion(int) \<open>}\<close>)\<close>: the structs that embed \<open>BaseChannel\<close> have the
  method; \<open>ReducerChannel\<close> embeds the interface \<open>Channel\<close>, which does not list it, so the
  assertion fails and nothing is set.
\<close>

primrec ch_SetVersion :: "channel \<Rightarrow> goint \<Rightarrow> channel" where
  "ch_SetVersion (ChLastValue c) v = ChLastValue (base_SetVersion c v)"
| "ch_SetVersion (ChAnyValue c) v = ChAnyValue (base_SetVersion c v)"
| "ch_SetVersion (ChEphemeralValue c) v = ChEphemeralValue (base_SetVersion c v)"
| "ch_SetVersion (ChUntrackedValue c) v = ChUntrackedValue (base_SetVersion c v)"
| "ch_SetVersion (ChTopic c) v = ChTopic (base_SetVersion c v)"
| "ch_SetVersion (ChLastValueAF c) v = ChLastValueAF (base_SetVersion c v)"
| "ch_SetVersion (ChNamedBarrier c) v = ChNamedBarrier (base_SetVersion c v)"
| "ch_SetVersion (ChNamedBarrierAF c) v = ChNamedBarrierAF (base_SetVersion c v)"
| "ch_SetVersion (ChBinop c) v = ChBinop (base_SetVersion c v)"
| "ch_SetVersion (ChReducer c r) v = ChReducer c r"

section \<open>CreateReducerChannel\<close>

datatype gkind = KBool | KInt | KInt8 | KInt16 | KInt32 | KInt64 | KUint | KUint8 | KUint16
  | KUint32 | KUint64 | KFloat32 | KFloat64 | KString | KSlice | KArray | KMap | KStruct
  | KPtr | KInterface | KOtherKind

record gtype =
  tyKind :: gkind
  tyName :: string

definition numeric_kind :: "gkind \<Rightarrow> bool" where
  "numeric_kind k = (k \<in> {KInt, KInt8, KInt16, KInt32, KInt64, KUint, KUint8, KUint16,
     KUint32, KUint64, KFloat32, KFloat64})"

text \<open>\<open>reflect.Zero(fieldType).Interface()\<close> of a numeric type.\<close>

definition zero_numeric :: "golib \<Rightarrow> gtype \<Rightarrow> gval" where
  "zero_numeric L t = (if tyKind t = KInt \<and> tyName t = ''int'' then VInt 0
     else if tyKind t = KFloat64 \<and> tyName t = ''float64'' then VFloat 0
     else VOther (tyName t) 0)"

text \<open>
  For slices and maps the source passes the \<open>reflect.Type\<close> itself as the channel's type, for
  numbers the zero value of the type.
\<close>

definition CreateReducerChannel :: "golib \<Rightarrow> string \<Rightarrow> gtype \<Rightarrow> binary_operator option \<Rightarrow> channel" where
  "CreateReducerChannel L fieldName t r =
     (let channel =
        (if tyKind t = KSlice \<or> tyKind t = KArray
           then ChBinop (NewBinaryOperatorAggregate L (VType (tyName t)) ListAppend)
         else if tyKind t = KMap
           then ChBinop (NewBinaryOperatorAggregate L (VType (tyName t)) MapMerge)
         else if numeric_kind (tyKind t)
           then ChBinop (NewBinaryOperatorAggregate L (zero_numeric L t) (IntAdd L))
         else ChLastValue (NewLastValue (VType (tyName t))));
          keyed = ch_SetKey channel fieldName
      in case r of Some f \<Rightarrow> ChReducer keyed f | None \<Rightarrow> keyed)"

section \<open>Laws of the interface\<close>

locale channel_laws =
  fixes Get :: "'c \<Rightarrow> (gerr + gval) \<times> 'c"
    and IsAvailable :: "'c \<Rightarrow> bool"
    and Update :: "'c \<Rightarrow> gval list \<Rightarrow> (gerr + bool) \<times> 'c"
  assumes Get_error: "fst (Get c) = Inl e \<Longrightarrow> e = EmptyChannelError [] \<and> \<not> IsAvailable c \<and> snd (Get c) = c"
    and Update_error: "fst (Update c vs) = Inl e \<Longrightarrow> \<exists>m. e = InvalidUpdateError m"
begin

text \<open>Reading a list of channels in turn, the empty ones left out.\<close>

fun read_all :: "('k \<times> 'c) list \<Rightarrow> (gerr + ('k \<times> gval) list) \<times> ('k \<times> 'c) list" where
  "read_all [] = (Inr [], [])"
| "read_all ((k, c) # cs) =
     (case Get c of
        (Inl e, c') \<Rightarrow>
          (if IsEmptyChannelError (Some e)
           then (case read_all cs of (r, cs') \<Rightarrow> (r, (k, c') # cs'))
           else (Inl e, (k, c') # cs))
      | (Inr v, c') \<Rightarrow>
          (case read_all cs of (r, cs') \<Rightarrow> (map_sum id (\<lambda>vs. (k, v) # vs) r, (k, c') # cs')))"

lemma available_read: "IsAvailable c \<Longrightarrow> \<exists>v. fst (Get c) = Inr v"
  using Get_error[of c] by (cases "fst (Get c)") auto

lemma read_all_succeeds: "\<exists>vs. fst (read_all cs) = Inr vs"
proof (induction cs)
  case Nil
  show ?case by simp
next
  case (Cons p cs)
  obtain k c where p: "p = (k, c)" by (cases p)
  from Cons.IH obtain vs cs' where r: "read_all cs = (Inr vs, cs')"
    by (cases "read_all cs") auto
  show ?case
    using Get_error[of c] by (cases "Get c"; cases "fst (Get c)") (auto simp: p r IsEmptyChannelError_def)
qed

end

text \<open>
  A resumable channel: a step is any sequence of interface calls, \<open>same\<close> relates channels no
  step can tell apart, and the channel rebuilt from a checkpoint is such a channel.
\<close>

locale resumable = channel_laws Get IsAvailable Update
  for Get :: "'c \<Rightarrow> (gerr + gval) \<times> 'c"
    and IsAvailable :: "'c \<Rightarrow> bool"
    and Update :: "'c \<Rightarrow> gval list \<Rightarrow> (gerr + bool) \<times> 'c" +
  fixes step :: "'o \<Rightarrow> 'c \<Rightarrow> 'r \<times> 'c"
    and Copy :: "'c \<Rightarrow> 'c"
    and Checkpoint :: "'c \<Rightarrow> gval"
    and FromCheckpoint :: "'c \<Rightarrow> gval \<Rightarrow> 'c"
    and durable :: "'c \<Rightarrow> bool"
    and same :: "'c \<Rightarrow> 'c \<Rightarrow> bool"
  assumes restore: "durable c \<Longrightarrow> FromCheckpoint c (Checkpoint c) = Copy c"
    and copy_same: "durable c \<Longrightarrow> same (Copy c) c"
    and same_step: "same c d \<Longrightarrow> fst (step m c) = fst (step m d) \<and> same (snd (step m c)) (snd (step m d))"
begin

fun run :: "'o list \<Rightarrow> 'c \<Rightarrow> 'r list" where
  "run [] c = []"
| "run (m # ms) c = fst (step m c) # run ms (snd (step m c))"

lemma run_same: "same c d \<Longrightarrow> run ms c = run ms d"
proof (induction ms arbitrary: c d)
  case Nil
  show ?case by simp
next
  case (Cons m ms)
  with same_step[OF Cons.prems, of m] show ?case by simp
qed

theorem resume_transparent: "durable c \<Longrightarrow> run ms (FromCheckpoint c (Checkpoint c)) = run ms c"
  by (simp add: restore run_same copy_same)

theorem copy_transparent: "durable c \<Longrightarrow> run ms (Copy c) = run ms c"
  by (simp add: run_same copy_same)

end

section \<open>The model satisfies the laws\<close>

lemma ch_Get_error:
  "fst (ch_Get c) = Inl e \<Longrightarrow> e = EmptyChannelError [] \<and> \<not> ch_IsAvailable c \<and> snd (ch_Get c) = c"
  by (induction c) (auto simp: chan_defs split: if_splits)

lemma barrier_loop_error: "fst (barrier_loop names seen u vs) = Inl e \<Longrightarrow> \<exists>m. e = InvalidUpdateError m"
  by (induction names seen u vs rule: barrier_loop.induct)
    (auto simp: not_string_error_def unexpected_name_error_def split: gval.splits option.splits if_splits)

lemma binop_loop_error: "fst (binop_loop L opr cur s vs) = Inl e \<Longrightarrow> \<exists>m. e = InvalidUpdateError m"
  by (induction L opr cur s vs rule: binop_loop.induct) (auto split: option.splits if_splits)

lemma ch_Update_error: "fst (ch_Update L c vs) = Inl e \<Longrightarrow> \<exists>m. e = InvalidUpdateError m"
  by (induction L c vs rule: ch_Update.induct)
    (auto simp: chan_defs Let_def dest: barrier_loop_error[OF trans[OF arg_cong[of _ _ fst]]]
      binop_loop_error[OF trans[OF arg_cong[of _ _ fst]]] split: if_splits prod.splits)

interpretation chan: channel_laws ch_Get ch_IsAvailable "ch_Update L" for L
  by unfold_locales (auto dest: ch_Get_error ch_Update_error)

text \<open>
  Two channels are the same for their users when they differ in version numbers only:
  \<open>ch_reset\<close> clears those.
\<close>

primrec ch_reset :: "channel \<Rightarrow> channel" where
  "ch_reset (ChLastValue c) = ChLastValue (c\<lparr>chVersion := 0\<rparr>)"
| "ch_reset (ChAnyValue c) = ChAnyValue (c\<lparr>chVersion := 0\<rparr>)"
| "ch_reset (ChEphemeralValue c) = ChEphemeralValue (c\<lparr>chVersion := 0\<rparr>)"
| "ch_reset (ChUntrackedValue c) = ChUntrackedValue (c\<lparr>chVersion := 0\<rparr>)"
| "ch_reset (ChTopic c) = ChTopic (c\<lparr>chVersion := 0\<rparr>)"
| "ch_reset (ChLastValueAF c) = ChLastValueAF (c\<lparr>chVersion := 0\<rparr>)"
| "ch_reset (ChNamedBarrier c) = ChNamedBarrier (c\<lparr>chVersion := 0\<rparr>)"
| "ch_reset (ChNamedBarrierAF c) = ChNamedBarrierAF (c\<lparr>chVersion := 0\<rparr>)"
| "ch_reset (ChBinop c) = ChBinop (c\<lparr>chVersion := 0\<rparr>)"
| "ch_reset (ChReducer c r) = ChReducer (ch_reset c) r"

text \<open>
  The channels whose checkpoint holds all their state: not an untracked channel, not a finished
  \<open>LastValueAfterFinish\<close> (its flag is not saved), and not an aggregate that holds no value while
  its type has a zero value.
\<close>

primrec ch_durable :: "golib \<Rightarrow> channel \<Rightarrow> bool" where
  "ch_durable L (ChLastValue c) = True"
| "ch_durable L (ChAnyValue c) = True"
| "ch_durable L (ChEphemeralValue c) = True"
| "ch_durable L (ChUntrackedValue c) = False"
| "ch_durable L (ChTopic c) = True"
| "ch_durable L (ChLastValueAF c) = (\<not> laFinished c)"
| "ch_durable L (ChNamedBarrier c) = True"
| "ch_durable L (ChNamedBarrierAF c) = True"
| "ch_durable L (ChBinop c) = (boValue c = VMissing \<longrightarrow> createZeroValue L (chTyp c) = VMissing)"
| "ch_durable L (ChReducer c r) = ch_durable L c"

text \<open>One interface call and what its caller sees.\<close>

datatype chan_op = OpGet | OpUpdate "gval list" | OpConsume | OpFinish | OpAvailable | OpCheckpoint

datatype chan_obs = ObsGet "gerr + gval" | ObsUpdate "gerr + bool" | ObsFlag bool | ObsValue gval

fun ch_step :: "golib \<Rightarrow> chan_op \<Rightarrow> channel \<Rightarrow> chan_obs \<times> channel" where
  "ch_step L OpGet c = (case ch_Get c of (r, c') \<Rightarrow> (ObsGet r, c'))"
| "ch_step L (OpUpdate vs) c = (case ch_Update L c vs of (r, c') \<Rightarrow> (ObsUpdate r, c'))"
| "ch_step L OpConsume c = (case ch_Consume c of (r, c') \<Rightarrow> (ObsFlag r, c'))"
| "ch_step L OpFinish c = (case ch_Finish c of (r, c') \<Rightarrow> (ObsFlag r, c'))"
| "ch_step L OpAvailable c = (ObsFlag (ch_IsAvailable c), c)"
| "ch_step L OpCheckpoint c = (ObsValue (ch_Checkpoint c), c)"

definition ch_same :: "channel \<Rightarrow> channel \<Rightarrow> bool" where
  "ch_same c d \<longleftrightarrow> ch_reset c = ch_reset d"

text \<open>Every call commutes with clearing the versions.\<close>

lemma ch_Get_reset: "ch_Get (ch_reset c) = on_snd ch_reset (ch_Get c)"
  by (induction c) (auto simp: chan_defs on_snd_def)

lemma ch_Consume_reset: "ch_Consume (ch_reset c) = on_snd ch_reset (ch_Consume c)"
  by (induction c) (auto simp: chan_defs on_snd_def)

lemma ch_Finish_reset: "ch_Finish (ch_reset c) = on_snd ch_reset (ch_Finish c)"
  by (induction c) (auto simp: chan_defs on_snd_def)

lemma ch_IsAvailable_reset: "ch_IsAvailable (ch_reset c) = ch_IsAvailable c"
  by (induction c) (auto simp: chan_defs)

lemma ch_Checkpoint_reset: "ch_Checkpoint (ch_reset c) = ch_Checkpoint c"
  by (induction c) (auto simp: chan_defs)

lemma ch_Update_reset: "ch_Update L (ch_reset c) vs = on_snd ch_reset (ch_Update L c vs)"
proof (induction L c vs rule: ch_Update.induct)
  case (10 L c r vs)
  show ?case
  proof (cases "vs = []")
    case True
    then show ?thesis by (simp add: on_snd_def)
  next
    case False
    obtain g c' where g: "ch_Get c = (g, c')" by (cases "ch_Get c")
    from 10[OF _ g[symmetric]] False
    have "ch_Update L (ch_reset c') [reduce_values r g vs] =
        on_snd ch_reset (ch_Update L c' [reduce_values r g vs])" by simp
    with False g show ?thesis by (simp add: ch_Get_reset on_snd_def)
  qed
qed (auto simp: chan_defs on_snd_def Let_def split: prod.splits)

lemma ch_step_reset: "ch_step L m (ch_reset c) = on_snd ch_reset (ch_step L m c)"
  by (cases m) (auto simp: ch_Get_reset ch_Consume_reset ch_Finish_reset ch_IsAvailable_reset
      ch_Checkpoint_reset ch_Update_reset on_snd_def split: prod.splits)

lemma ch_same_step:
  assumes "ch_same c d"
  shows "fst (ch_step L m c) = fst (ch_step L m d) \<and> ch_same (snd (ch_step L m c)) (snd (ch_step L m d))"
proof -
  have "on_snd ch_reset (ch_step L m c) = on_snd ch_reset (ch_step L m d)"
    using assms ch_step_reset[of L m c] ch_step_reset[of L m d] by (simp add: ch_same_def)
  then show ?thesis by (simp add: on_snd_def ch_same_def)
qed

lemma ch_reset_idem [simp]: "ch_reset (ch_reset c) = ch_reset c"
  by (induction c) auto

lemma ch_Copy_reset: "ch_durable L c \<Longrightarrow> ch_Copy L c = ch_reset c"
  by (induction c) (auto simp: chan_defs)

lemma ch_restore: "ch_durable L c \<Longrightarrow> ch_FromCheckpoint L c (ch_Checkpoint c) = ch_Copy L c"
  by (induction c) (auto simp: chan_defs Let_def)

interpretation chan: resumable ch_Get ch_IsAvailable "ch_Update L" "ch_step L" "ch_Copy L"
    ch_Checkpoint "ch_FromCheckpoint L" "ch_durable L" ch_same for L
proof unfold_locales
  fix c
  assume d: "ch_durable L c"
  show "ch_FromCheckpoint L c (ch_Checkpoint c) = ch_Copy L c" by (rule ch_restore[OF d])
  show "ch_same (ch_Copy L c) c" by (simp add: ch_same_def ch_Copy_reset[OF d])
qed (rule ch_same_step)

definition run_steps :: "golib \<Rightarrow> chan_op list \<Rightarrow> channel \<Rightarrow> chan_obs list" where
  "run_steps L ms c = chan.run L ms c"

lemma run_steps_simps [simp]:
  "run_steps L [] c = []"
  "run_steps L (m # ms) c = fst (ch_step L m c) # run_steps L ms (snd (ch_step L m c))"
  by (simp_all add: run_steps_def chan.run.simps)

text \<open>
  The configuration of a channel is what a checkpoint does not carry: the struct, its key, type,
  operator, expected names and flags. \<open>ch_blank\<close> is the empty channel of the same configuration.
\<close>

definition ch_blank :: "golib \<Rightarrow> channel \<Rightarrow> channel" where
  "ch_blank L c = ch_FromCheckpoint L c VMissing"

lemma ch_FromCheckpoint_blank:
  "ch_durable L c \<Longrightarrow> ch_FromCheckpoint L (ch_blank L c) cp = ch_FromCheckpoint L c cp"
  unfolding ch_blank_def by (induction c) (auto simp: chan_defs Let_def split: gval.splits)

lemma ch_blank_of_missing:
  "ch_durable L c \<Longrightarrow> ch_Checkpoint c = VMissing \<Longrightarrow> ch_blank L c = ch_Copy L c"
  using ch_restore[of L c] by (simp add: ch_blank_def)

lemma ch_blank_Get: "ch_blank L (snd (ch_Get c)) = ch_blank L c"
  unfolding ch_blank_def by (induction c) (auto simp: chan_defs Let_def)

lemma ch_blank_Update: "ch_blank L (snd (ch_Update L c vs)) = ch_blank L c"
proof (induction L c vs rule: ch_Update.induct)
  case (10 L c r vs)
  show ?case
  proof (cases "vs = []")
    case True
    then show ?thesis by simp
  next
    case False
    obtain g c' where g: "ch_Get c = (g, c')" by (cases "ch_Get c")
    with ch_blank_Get[of L c] have "ch_blank L c' = ch_blank L c" by simp
    with 10[OF _ g[symmetric]] False g show ?thesis by (simp add: ch_blank_def)
  qed
qed (auto simp: ch_blank_def chan_defs Let_def split: prod.splits)

end
