(* ===== verification/Registry.thy ===== *)
theory Registry
  imports Channels
begin

text \<open>
  The channel registry of \<^verbatim>\<open>channels/base.go\<close>. A registry is a finite map from names to
  channels. Where a method ranges over a Go map, the order of iteration is an argument: a list
  of the map's entries.
\<close>

section \<open>Operations\<close>

type_synonym registry = "(string, channel) fmap"

definition NewRegistry :: registry where
  "NewRegistry = fmempty"

definition rg_Register :: "registry \<Rightarrow> string \<Rightarrow> channel \<Rightarrow> registry" where
  "rg_Register r name c = fmupd name c r"

definition rg_Get :: "registry \<Rightarrow> string \<Rightarrow> channel option" where
  "rg_Get r name = fmlookup r name"

definition rg_Remove :: "registry \<Rightarrow> string \<Rightarrow> registry" where
  "rg_Remove r name = fmdrop name r"

definition rg_Len :: "registry \<Rightarrow> nat" where
  "rg_Len r = flen r"

definition rg_Names :: "(string \<times> channel) list \<Rightarrow> string list" where
  "rg_Names es = map fst es"

fun create_loop :: "(string \<times> channel) list \<Rightarrow> gmap \<Rightarrow> gmap" where
  "create_loop [] cp = cp"
| "create_loop ((n, c) # es) cp =
     (let v = ch_Checkpoint c
      in if \<not> IsMissing v then create_loop es (fmupd n v cp) else create_loop es cp)"

definition rg_CreateCheckpoint :: "(string \<times> channel) list \<Rightarrow> gmap" where
  "rg_CreateCheckpoint es = create_loop es fmempty"

fun rg_RestoreFromCheckpoint ::
  "golib \<Rightarrow> registry \<Rightarrow> (string \<times> gval) list \<Rightarrow> gerr option \<times> registry"
where
  "rg_RestoreFromCheckpoint L r [] = (None, r)"
| "rg_RestoreFromCheckpoint L r ((n, cp) # cps) =
     (case fmlookup r n of
        None \<Rightarrow> (Some (ErrorString (''channel '' @ n @ '' not found in registry'')), r)
      | Some c \<Rightarrow> rg_RestoreFromCheckpoint L (fmupd n (ch_FromCheckpoint L c cp) r) cps)"

fun rg_UpdateChannels ::
  "golib \<Rightarrow> registry \<Rightarrow> (string \<times> gval list) list \<Rightarrow> gerr option \<times> registry"
where
  "rg_UpdateChannels L r [] = (None, r)"
| "rg_UpdateChannels L r ((n, vs) # ws) =
     (case fmlookup r n of
        None \<Rightarrow> (Some (ChannelNotFoundError n), r)
      | Some c \<Rightarrow>
          (case ch_Update L c vs of
             (Inl e, c') \<Rightarrow> (Some (WrapError (''failed to update channel '' @ n) e), fmupd n c' r)
           | (Inr _, c') \<Rightarrow> rg_UpdateChannels L (fmupd n c' r) ws))"

fun values_loop ::
  "registry \<Rightarrow> (string \<times> channel) list \<Rightarrow> gmap \<Rightarrow> (gerr + gmap) \<times> registry"
where
  "values_loop r [] vals = (Inr vals, r)"
| "values_loop r ((n, c) # es) vals =
     (case ch_Get c of
        (Inl e, c') \<Rightarrow>
          (if IsEmptyChannelError (Some e) then values_loop (fmupd n c' r) es vals
           else (Inl (WrapError (''failed to get value from channel '' @ n) e), fmupd n c' r))
      | (Inr v, c') \<Rightarrow> values_loop (fmupd n c' r) es (fmupd n v vals))"

definition rg_GetValues :: "registry \<Rightarrow> (string \<times> channel) list \<Rightarrow> (gerr + gmap) \<times> registry" where
  "rg_GetValues r es = values_loop r es fmempty"

section \<open>Checkpoints of a registry\<close>

lemma create_loop_lookup:
  "distinct (map fst es) \<Longrightarrow>
   fmlookup (create_loop es m) k =
     (case map_of es k of None \<Rightarrow> fmlookup m k
      | Some c \<Rightarrow> (if ch_Checkpoint c = VMissing then fmlookup m k else Some (ch_Checkpoint c)))"
proof (induction es m rule: create_loop.induct)
  case (1 cp)
  show ?case by simp
next
  case (2 n c es cp)
  then have "map_of es n = None" and "distinct (map fst es)"
    by (auto simp: map_of_eq_None_iff)
  with 2(1,2) show ?case by (auto simp: Let_def split: option.splits)
qed

lemma CreateCheckpoint_lookup:
  assumes "entries r es"
  shows "fmlookup (rg_CreateCheckpoint es) k =
    (case fmlookup r k of None \<Rightarrow> None
     | Some c \<Rightarrow> (if ch_Checkpoint c = VMissing then None else Some (ch_Checkpoint c)))"
proof -
  from assms have "fmlookup r k = map_of es k" by (auto simp: entries_def fmlookup_of_list)
  with create_loop_lookup[OF entries_distinct[OF assms], of fmempty k] show ?thesis
    by (auto simp: rg_CreateCheckpoint_def split: option.splits)
qed

lemma CreateCheckpoint_order:
  "entries r es \<Longrightarrow> entries r fs \<Longrightarrow> rg_CreateCheckpoint es = rg_CreateCheckpoint fs"
  by (rule fmap_ext) (simp add: CreateCheckpoint_lookup)

lemma Restore_lookup:
  "distinct (map fst cps) \<Longrightarrow> fst ` set cps \<subseteq> fmdom' r \<Longrightarrow>
   \<exists>r'. rg_RestoreFromCheckpoint L r cps = (None, r') \<and>
     (\<forall>k. fmlookup r' k =
        (case map_of cps k of None \<Rightarrow> fmlookup r k
         | Some cp \<Rightarrow> map_option (\<lambda>c. ch_FromCheckpoint L c cp) (fmlookup r k)))"
proof (induction cps arbitrary: r)
  case Nil
  show ?case by simp
next
  case (Cons p cps)
  obtain n cp where p: "p = (n, cp)" by (cases p)
  from Cons.prems obtain c where c: "fmlookup r n = Some c"
    by (auto simp: p fmlookup_dom'_iff)
  have "fst ` set cps \<subseteq> fmdom' (fmupd n (ch_FromCheckpoint L c cp) r)" "distinct (map fst cps)"
    using Cons.prems by (auto simp: p)
  with Cons.IH[of "fmupd n (ch_FromCheckpoint L c cp) r"] obtain r' where
    r': "rg_RestoreFromCheckpoint L (fmupd n (ch_FromCheckpoint L c cp) r) cps = (None, r')" and
    look: "\<And>k. fmlookup r' k =
        (case map_of cps k of None \<Rightarrow> fmlookup (fmupd n (ch_FromCheckpoint L c cp) r) k
         | Some cp' \<Rightarrow> map_option (\<lambda>c. ch_FromCheckpoint L c cp') (fmlookup (fmupd n (ch_FromCheckpoint L c cp) r) k))"
    by blast
  from Cons.prems have "map_of cps n = None" by (auto simp: p map_of_eq_None_iff)
  with r' look c show ?case by (auto simp: p split: option.splits)
qed

lemma Restore_unregistered:
  "fst ` set cps \<subseteq> fmdom' r \<or> fst (rg_RestoreFromCheckpoint L r cps) \<noteq> None"
proof (induction cps arbitrary: r)
  case Nil
  show ?case by simp
next
  case (Cons p cps)
  obtain n cp where p: "p = (n, cp)" by (cases p)
  show ?case
  proof (cases "fmlookup r n")
    case None
    then show ?thesis by (simp add: p)
  next
    case (Some c)
    then have n: "n \<in> fmdom' r" by (simp add: fmlookup_dom'_iff)
    with Cons.IH[of "fmupd n (ch_FromCheckpoint L c cp) r"] Some show ?thesis
      by (auto simp: p insert_absorb)
  qed
qed

text \<open>
  Saving a registry and restoring it into the blank channels of the same graph gives back,
  in any iteration orders, channels no caller can tell from the saved ones.
\<close>

lemma registry_restore_same:
  assumes es: "entries r es" and cps: "entries (rg_CreateCheckpoint es) cps"
    and dur: "\<And>k c. fmlookup r k = Some c \<Longrightarrow> ch_durable L c"
  shows "\<exists>r'. rg_RestoreFromCheckpoint L (fmmap (ch_blank L) r) cps = (None, r') \<and>
    fmdom' r' = fmdom' r \<and>
    (\<forall>k c. fmlookup r k = Some c \<longrightarrow> (\<exists>c'. fmlookup r' k = Some c' \<and> ch_same c' c))"
proof -
  have dom: "fst ` set cps \<subseteq> fmdom' (fmmap (ch_blank L) r)"
  proof
    fix k assume "k \<in> fst ` set cps"
    then have "k \<in> fmdom' (rg_CreateCheckpoint es)" using entries_keys[OF cps] by simp
    then show "k \<in> fmdom' (fmmap (ch_blank L) r)"
      by (auto simp: fmlookup_dom'_iff CreateCheckpoint_lookup[OF es] split: option.splits if_splits)
  qed
  from Restore_lookup[OF entries_distinct[OF cps] dom, of L] obtain r' where
    r': "rg_RestoreFromCheckpoint L (fmmap (ch_blank L) r) cps = (None, r')" and
    look: "\<And>k. fmlookup r' k = (case map_of cps k of None \<Rightarrow> fmlookup (fmmap (ch_blank L) r) k
         | Some cp \<Rightarrow> map_option (\<lambda>c. ch_FromCheckpoint L c cp) (fmlookup (fmmap (ch_blank L) r) k))"
    by blast
  have mo: "map_of cps k = fmlookup (rg_CreateCheckpoint es) k" for k
    using cps unfolding entries_def by (metis fmlookup_of_list)
  have val: "fmlookup r' k = map_option (ch_Copy L) (fmlookup r k)" for k
  proof (cases "fmlookup r k")
    case None
    with look[of k] show ?thesis by (simp add: mo CreateCheckpoint_lookup[OF es])
  next
    case (Some c)
    with look[of k] dur[OF Some] show ?thesis
      by (auto simp: mo CreateCheckpoint_lookup[OF es] ch_FromCheckpoint_blank ch_blank_of_missing ch_restore)
  qed
  have "fmdom' r' = fmdom' r" by (rule set_eqI) (simp add: fmlookup_dom'_iff val)
  moreover have "\<exists>c'. fmlookup r' k = Some c' \<and> ch_same c' c" if "fmlookup r k = Some c" for k c
    using that dur[OF that] by (simp add: val ch_same_def ch_Copy_reset)
  ultimately show ?thesis using r' by blast
qed

section \<open>Updates\<close>

text \<open>What one update does, and the result of all of them, per channel.\<close>

definition upd_ok :: "golib \<Rightarrow> registry \<Rightarrow> string \<Rightarrow> gval list \<Rightarrow> bool" where
  "upd_ok L r n vs \<longleftrightarrow>
     (case fmlookup r n of None \<Rightarrow> False | Some c \<Rightarrow> \<not> isl (fst (ch_Update L c vs)))"

lemma Update_lookup:
  "distinct (map fst ws) \<Longrightarrow> \<forall>(n, vs) \<in> set ws. upd_ok L r n vs \<Longrightarrow>
   \<exists>r'. rg_UpdateChannels L r ws = (None, r') \<and>
     (\<forall>k. fmlookup r' k =
        (case map_of ws k of None \<Rightarrow> fmlookup r k
         | Some vs \<Rightarrow> map_option (\<lambda>c. snd (ch_Update L c vs)) (fmlookup r k)))"
proof (induction ws arbitrary: r)
  case Nil
  show ?case by simp
next
  case (Cons p ws)
  obtain n vs where p: "p = (n, vs)" by (cases p)
  from Cons.prems obtain c b c' where c: "fmlookup r n = Some c" and u: "ch_Update L c vs = (Inr b, c')"
    by (auto simp: p upd_ok_def isl_def split: option.splits)
      (metis prod.exhaust_sel sum.exhaust)
  from Cons.prems have nw: "n \<notin> fst ` set ws" and d: "distinct (map fst ws)" by (auto simp: p)
  have "\<forall>(m, us) \<in> set ws. upd_ok L (fmupd n c' r) m us"
  proof clarify
    fix m us assume m: "(m, us) \<in> set ws"
    with nw have "m \<noteq> n" by force
    moreover from m Cons.prems have "upd_ok L r m us" by (auto simp: p)
    ultimately show "upd_ok L (fmupd n c' r) m us" by (simp add: upd_ok_def)
  qed
  with Cons.IH[OF d, of "fmupd n c' r"] obtain r' where
    r': "rg_UpdateChannels L (fmupd n c' r) ws = (None, r')" and
    look: "\<And>k. fmlookup r' k = (case map_of ws k of None \<Rightarrow> fmlookup (fmupd n c' r) k
         | Some vs \<Rightarrow> map_option (\<lambda>c. snd (ch_Update L c vs)) (fmlookup (fmupd n c' r) k))"
    by blast
  from nw have "map_of ws n = None" by (simp add: map_of_eq_None_iff)
  with r' look c u show ?case by (auto simp: p split: option.splits)
qed

lemma Update_fails:
  "distinct (map fst ws) \<Longrightarrow> (n, vs) \<in> set ws \<Longrightarrow> \<not> upd_ok L r n vs \<Longrightarrow>
   fst (rg_UpdateChannels L r ws) \<noteq> None"
proof (induction ws arbitrary: r)
  case Nil
  then show ?case by simp
next
  case (Cons p ws)
  obtain m us where p: "p = (m, us)" by (cases p)
  show ?case
  proof (cases "upd_ok L r m us")
    case False
    then show ?thesis
      by (auto simp: p upd_ok_def isl_def split: option.splits prod.splits sum.splits)
  next
    case True
    then obtain c b c' where c: "fmlookup r m = Some c" and u: "ch_Update L c us = (Inr b, c')"
      by (auto simp: upd_ok_def isl_def split: option.splits) (metis prod.exhaust_sel sum.exhaust)
    from True Cons.prems have in_ws: "(n, vs) \<in> set ws" by (auto simp: p)
    with Cons.prems have "n \<noteq> m" by (force simp: p)
    with Cons.prems have "\<not> upd_ok L (fmupd m c' r) n vs" by (simp add: upd_ok_def)
    with Cons.IH[of "fmupd m c' r"] in_ws Cons.prems show ?thesis by (auto simp: p c u)
  qed
qed

lemma Update_order_independent:
  assumes es: "entries w es" and fs: "entries w fs"
    and ok: "rg_UpdateChannels L r es = (None, r')"
  shows "rg_UpdateChannels L r fs = (None, r')"
proof -
  have all: "\<forall>(n, vs) \<in> set es. upd_ok L r n vs"
  proof clarify
    fix n vs assume "(n, vs) \<in> set es"
    with Update_fails[OF entries_distinct[OF es], of n vs L r] ok show "upd_ok L r n vs" by auto
  qed
  then have all': "\<forall>(n, vs) \<in> set fs. upd_ok L r n vs"
    using entries_set_eq[OF es fs] by simp
  have mo: "map_of es = map_of fs"
    using es fs by (metis entries_def fmlookup_of_list)
  from Update_lookup[OF entries_distinct[OF es] all] ok have l1:
    "\<And>k. fmlookup r' k = (case map_of es k of None \<Rightarrow> fmlookup r k
         | Some vs \<Rightarrow> map_option (\<lambda>c. snd (ch_Update L c vs)) (fmlookup r k))" by auto
  from Update_lookup[OF entries_distinct[OF fs] all'] obtain r2 where
    r2: "rg_UpdateChannels L r fs = (None, r2)" and
    l2: "\<And>k. fmlookup r2 k = (case map_of fs k of None \<Rightarrow> fmlookup r k
         | Some vs \<Rightarrow> map_option (\<lambda>c. snd (ch_Update L c vs)) (fmlookup r k))" by auto
  have "r2 = r'" by (rule fmap_ext) (simp add: l1 l2 mo)
  with r2 show ?thesis by simp
qed

section \<open>Reading all values\<close>

lemma values_loop_lookup:
  "distinct (map fst es) \<Longrightarrow>
   \<exists>vals' r'. values_loop r es vals = (Inr vals', r') \<and>
     (\<forall>k. fmlookup vals' k =
        (case map_of es k of None \<Rightarrow> fmlookup vals k
         | Some c \<Rightarrow> (case fst (ch_Get c) of Inr v \<Rightarrow> Some v | Inl _ \<Rightarrow> fmlookup vals k))) \<and>
     (\<forall>k. fmlookup r' k =
        (case map_of es k of None \<Rightarrow> fmlookup r k | Some c \<Rightarrow> Some (snd (ch_Get c))))"
proof (induction es arbitrary: r vals)
  case Nil
  show ?case by simp
next
  case (Cons p es)
  obtain n c where p: "p = (n, c)" by (cases p)
  from Cons.prems have d: "distinct (map fst es)" and n: "map_of es n = None"
    by (auto simp: p map_of_eq_None_iff)
  obtain g c' where g: "ch_Get c = (g, c')" by (cases "ch_Get c")
  show ?case
  proof (cases g)
    case (Inl e)
    with g chan.Get_error[of c e] have e: "IsEmptyChannelError (Some e)"
      by (simp add: IsEmptyChannelError_def)
    from Cons.IH[OF d, of "fmupd n c' r" vals] g Inl e n show ?thesis
      by (fastforce simp: p split: option.splits)
  next
    case (Inr v)
    from Cons.IH[OF d, of "fmupd n c' r" "fmupd n v vals"] g Inr n show ?thesis
      by (fastforce simp: p split: option.splits sum.splits)
  qed
qed

lemma GetValues_lookup:
  assumes "entries r es"
  shows "\<exists>vals r'. rg_GetValues r es = (Inr vals, r') \<and>
     (\<forall>k. fmlookup vals k =
        (case fmlookup r k of None \<Rightarrow> None
         | Some c \<Rightarrow> (case fst (ch_Get c) of Inr v \<Rightarrow> Some v | Inl _ \<Rightarrow> None))) \<and>
     r' = fmmap (\<lambda>c. snd (ch_Get c)) r"
proof -
  from assms have mo: "fmlookup r k = map_of es k" for k by (auto simp: entries_def fmlookup_of_list)
  from values_loop_lookup[OF entries_distinct[OF assms], of r fmempty] obtain vals r' where
    v: "values_loop r es fmempty = (Inr vals, r')" and
    l1: "\<And>k. fmlookup vals k = (case map_of es k of None \<Rightarrow> fmlookup fmempty k
         | Some c \<Rightarrow> (case fst (ch_Get c) of Inr v \<Rightarrow> Some v | Inl _ \<Rightarrow> fmlookup fmempty k))" and
    l2: "\<And>k. fmlookup r' k = (case map_of es k of None \<Rightarrow> fmlookup r k | Some c \<Rightarrow> Some (snd (ch_Get c)))"
    by blast
  have "r' = fmmap (\<lambda>c. snd (ch_Get c)) r"
    by (rule fmap_ext) (auto simp: l2 mo split: option.splits)
  with v show ?thesis
    by (intro exI[of _ vals] exI[of _ r'])
      (auto simp: rg_GetValues_def mo l1 split: option.splits sum.splits)
qed

end
