(* ===== verification/Schema.thy ===== *)
theory Schema
  imports Channels
begin

text \<open>
  State schemas (\<^verbatim>\<open>graph/state.go\<close>): what the builder reads of a schema by reflection, the
  annotations in struct tags, and the channels a schema asks for.
\<close>

section \<open>Schemas\<close>

text \<open>
  \<open>sfTag\<close> is \<open>field.Tag.Get("harness")\<close>, empty when there is no such tag; \<open>sfExported\<close> is
  \<open>field.PkgPath == ""\<close>. \<open>SchemaMap b\<close> is a map type, \<open>b\<close> telling whether its keys are strings,
  and \<open>SchemaOther k\<close> a value of any other kind, named as \<open>reflect.Kind\<close> prints it.
\<close>

record struct_field =
  sfName :: string
  sfType :: gtype
  sfExported :: bool
  sfTag :: string

datatype schema =
    SchemaNil
  | SchemaStruct string "struct_field list"
  | SchemaMap bool
  | SchemaPtr schema
  | SchemaOther string

definition schema_elem :: "schema \<Rightarrow> schema" where
  "schema_elem s = (case s of SchemaPtr t \<Rightarrow> t | _ \<Rightarrow> s)"

section \<open>Annotations\<close>

record annotation =
  anReducer :: "binary_operator option"
  anMetadata :: gmap

text \<open>\<open>strings.TrimSpace\<close> on the ASCII white space.\<close>

definition is_space :: "char \<Rightarrow> bool" where
  "is_space c = (c \<in> {CHR '' '', CHR 0x09, CHR 0x0A, CHR 0x0B, CHR 0x0C, CHR 0x0D})"

definition TrimSpace :: "string \<Rightarrow> string" where
  "TrimSpace s = rev (dropWhile is_space (rev (dropWhile is_space s)))"

text \<open>\<open>strings.SplitN(s, "=", 2)\<close>.\<close>

definition split_n2 :: "char \<Rightarrow> string \<Rightarrow> string list" where
  "split_n2 d s = (if d \<in> set s then [takeWhile (\<lambda>c. c \<noteq> d) s, tl (dropWhile (\<lambda>c. c \<noteq> d) s)] else [s])"

fun annotation_loop :: "golib \<Rightarrow> string list \<Rightarrow> annotation \<Rightarrow> gerr + annotation" where
  "annotation_loop L [] a = Inr a"
| "annotation_loop L (pair # ps) a =
     (case split_n2 CHR ''='' pair of
        [k, v] \<Rightarrow>
          (let key = TrimSpace k; value = TrimSpace v
           in if key = ''reducer'' then
                (case reducers L value of
                   None \<Rightarrow> Inl (ErrorString (''unknown reducer: '' @ value))
                 | Some r \<Rightarrow> annotation_loop L ps (a\<lparr>anReducer := Some r\<rparr>))
              else annotation_loop L ps (a\<lparr>anMetadata := fmupd key (VStr value) (anMetadata a)\<rparr>))
      | _ \<Rightarrow> annotation_loop L ps (a\<lparr>anMetadata := fmupd pair (VBool True) (anMetadata a)\<rparr>))"

definition parseAnnotation :: "golib \<Rightarrow> string \<Rightarrow> gerr + annotation" where
  "parseAnnotation L tag =
     annotation_loop L (split_on CHR '','' tag) \<lparr>anReducer = None, anMetadata = fmempty\<rparr>"

section \<open>Fields\<close>

record field_info =
  fiName :: string
  fiType :: gtype
  fiChannel :: channel
  fiAnnotation :: "annotation option"

definition processField :: "golib \<Rightarrow> struct_field \<Rightarrow> gerr + field_info" where
  "processField L field =
     (case (if sfTag field \<noteq> [] then map_sum id Some (parseAnnotation L (sfTag field)) else Inr None) of
        Inl e \<Rightarrow> Inl (WrapError ''invalid annotation'' e)
      | Inr ann \<Rightarrow>
          Inr \<lparr>fiName = sfName field, fiType = sfType field,
               fiChannel = CreateReducerChannel L (sfName field) (sfType field)
                 (case ann of None \<Rightarrow> None | Some a \<Rightarrow> anReducer a),
               fiAnnotation = ann\<rparr>)"

fun fields_loop ::
  "golib \<Rightarrow> struct_field list \<Rightarrow> (string, field_info) fmap \<Rightarrow> gerr + (string, field_info) fmap"
where
  "fields_loop L [] infos = Inr infos"
| "fields_loop L (f # fs) infos =
     (if \<not> sfExported f then fields_loop L fs infos
      else (case processField L f of
              Inl e \<Rightarrow> Inl (WrapError (''field '' @ sfName f) e)
            | Inr info \<Rightarrow> fields_loop L fs (fmupd (fiName info) info infos)))"

definition schema_kind :: "schema \<Rightarrow> string" where
  "schema_kind s = (case s of SchemaPtr _ \<Rightarrow> ''ptr'' | SchemaOther k \<Rightarrow> k | SchemaStruct _ _ \<Rightarrow> ''struct''
     | SchemaMap _ \<Rightarrow> ''map'' | SchemaNil \<Rightarrow> ''invalid'')"

definition validateStateSchema :: "golib \<Rightarrow> schema \<Rightarrow> gerr + (string, field_info) fmap" where
  "validateStateSchema L schema =
     (if schema = SchemaNil then Inl (ErrorString ''state schema cannot be nil'')
      else (case schema_elem schema of
          SchemaStruct t fs \<Rightarrow> fields_loop L fs fmempty
        | SchemaMap string_keys \<Rightarrow>
            (if \<not> string_keys then Inl (ErrorString ''state schema map must have string keys'')
             else Inr fmempty)
        | v \<Rightarrow> Inl (ErrorString (''state schema must be a struct or map, got '' @ schema_kind v))))"

section \<open>Facts\<close>

definition exported :: "struct_field list \<Rightarrow> struct_field list" where
  "exported = filter sfExported"

lemma fields_loop_ok:
  assumes "fields_loop L fs infos = Inr infos'"
  shows "list_all (\<lambda>f. \<exists>i. processField L f = Inr i) (exported fs)"
    and "fmdom' infos' = fmdom' infos \<union> sfName ` set (exported fs)"
    and "distinct (map sfName (exported fs)) \<Longrightarrow> f \<in> set (exported fs) \<Longrightarrow>
      map_sum id Some (processField L f) = Inr (fmlookup infos' (sfName f))"
proof -
  have "list_all (\<lambda>f. \<exists>i. processField L f = Inr i) (exported fs) \<and>
    fmdom' infos' = fmdom' infos \<union> sfName ` set (exported fs) \<and>
    (distinct (map sfName (exported fs)) \<longrightarrow>
      (\<forall>k. k \<notin> sfName ` set (exported fs) \<longrightarrow> fmlookup infos' k = fmlookup infos k) \<and>
      (\<forall>f \<in> set (exported fs). map_sum id Some (processField L f) = Inr (fmlookup infos' (sfName f))))"
    using assms
  proof (induction fs arbitrary: infos)
    case Nil
    then show ?case by (simp add: exported_def)
  next
    case (Cons f fs)
    show ?case
    proof (cases "sfExported f")
      case False
      with Cons show ?thesis by (simp add: exported_def)
    next
      case True
      with Cons.prems obtain i where i: "processField L f = Inr i" and
        rest: "fields_loop L fs (fmupd (fiName i) i infos) = Inr infos'"
        by (auto split: sum.splits)
      from i have n: "fiName i = sfName f"
        by (auto simp: processField_def split: sum.splits)
      from Cons.IH[OF rest] True i n show ?thesis
        by (auto simp: exported_def)
    qed
  qed
  then show "list_all (\<lambda>f. \<exists>i. processField L f = Inr i) (exported fs)"
    and "fmdom' infos' = fmdom' infos \<union> sfName ` set (exported fs)"
    and "distinct (map sfName (exported fs)) \<Longrightarrow> f \<in> set (exported fs) \<Longrightarrow>
      map_sum id Some (processField L f) = Inr (fmlookup infos' (sfName f))"
    by auto
qed

lemma fields_loop_fails:
  "(\<exists>e. fields_loop L fs infos = Inl e) \<longleftrightarrow>
     (\<exists>f \<in> set (exported fs). \<exists>e. processField L f = Inl e)"
  by (induction fs arbitrary: infos) (auto simp: exported_def split: sum.splits)

text \<open>
  A tag is accepted exactly when each of its \<open>reducer=\<close> parts names a registered reducer.
\<close>

definition names_reducer :: "golib \<Rightarrow> string \<Rightarrow> bool" where
  "names_reducer L pair = (case split_n2 CHR ''='' pair of
     [k, v] \<Rightarrow> TrimSpace k = ''reducer'' \<longrightarrow> reducers L (TrimSpace v) \<noteq> None | _ \<Rightarrow> True)"

lemma annotation_loop_ok:
  "(\<exists>a'. annotation_loop L ps a = Inr a') \<longleftrightarrow> list_all (names_reducer L) ps"
proof (induction ps arbitrary: a)
  case Nil
  show ?case by simp
next
  case (Cons p ps)
  consider "split_n2 CHR ''='' p = [p]" | k v where "split_n2 CHR ''='' p = [k, v]"
    by (cases "CHR ''='' \<in> set p") (simp_all add: split_n2_def)
  then show ?case
  proof cases
    case 1
    then show ?thesis by (simp add: names_reducer_def Cons.IH)
  next
    case 2
    then show ?thesis
      by (cases "reducers L (TrimSpace v)") (simp_all add: names_reducer_def Cons.IH Let_def)
  qed
qed

lemma processField_ok:
  "(\<exists>i. processField L f = Inr i) \<longleftrightarrow>
     sfTag f = [] \<or> list_all (names_reducer L) (split_on CHR '','' (sfTag f))"
proof -
  have "(\<exists>i. processField L f = Inr i) \<longleftrightarrow> sfTag f = [] \<or> (\<exists>a. parseAnnotation L (sfTag f) = Inr a)"
    unfolding processField_def by (cases "parseAnnotation L (sfTag f)") simp_all
  then show ?thesis
    unfolding parseAnnotation_def annotation_loop_ok .
qed

text \<open>The schemas the builder accepts.\<close>

definition schema_ok :: "golib \<Rightarrow> schema \<Rightarrow> bool" where
  "schema_ok L s = (case schema_elem s of
     SchemaStruct t fs \<Rightarrow>
       list_all (\<lambda>f. sfTag f = [] \<or> list_all (names_reducer L) (split_on CHR '','' (sfTag f))) (exported fs)
   | SchemaMap b \<Rightarrow> b | _ \<Rightarrow> False)"

lemma validateStateSchema_ok: "(\<exists>infos. validateStateSchema L s = Inr infos) \<longleftrightarrow> schema_ok L s"
proof (cases "schema_elem s")
  case (SchemaStruct t fs)
  then have "s \<noteq> SchemaNil" by (auto simp: schema_elem_def)
  moreover have "(\<exists>infos. fields_loop L fs fmempty = Inr infos) \<longleftrightarrow>
      list_all (\<lambda>f. \<exists>i. processField L f = Inr i) (exported fs)"
  proof -
    have sum: "(\<exists>i. x = Inr i) \<longleftrightarrow> \<not> (\<exists>e. x = Inl e)" for x :: "'e + 'i"
      by (cases x) simp_all
    show ?thesis unfolding sum fields_loop_fails by (simp add: list_all_iff)
  qed
  ultimately show ?thesis
    using SchemaStruct by (simp add: validateStateSchema_def schema_ok_def processField_ok)
qed (auto simp: validateStateSchema_def schema_ok_def schema_elem_def)

end
