(* ===== verification/Retry.thy ===== *)
theory Retry
  imports Values
begin

text \<open>
  Retrying nodes: \<^verbatim>\<open>types.RetryPolicy\<close> with its backoff, and the executors of
  \<^verbatim>\<open>pregel/retry.go\<close> and \<^verbatim>\<open>pregel/retry_multi.go\<close>. What happens outside the executor (the
  node function, the clock, the context, the random source) changes a world of an arbitrary
  type \<open>'w\<close> that the definitions pass along.
\<close>

section \<open>Policies and backoff\<close>

type_synonym duration = goint

record retry_policy =
  rpInitialInterval :: duration
  rpBackoffFactor :: float64
  rpMaxInterval :: duration
  rpMaxAttempts :: int
  rpJitter :: bool
  rpRetryOn :: "(gerr option \<Rightarrow> bool) option"

text \<open>The literals 0.5, 1.0, 1.5 and 2.0, and the durations of \<open>time\<close>.\<close>

definition f_half :: float64 where "f_half = 0x3FE0000000000000"
definition f_one :: float64 where "f_one = 0x3FF0000000000000"
definition f_one_half :: float64 where "f_one_half = 0x3FF8000000000000"
definition f_two :: float64 where "f_two = 0x4000000000000000"

definition Millisecond :: duration where "Millisecond = 1000000"
definition Second :: duration where "Second = 1000000000"

definition DefaultRetryOn :: "gerr option \<Rightarrow> bool" where
  "DefaultRetryOn err = True"

definition DefaultRetryPolicy :: retry_policy where
  "DefaultRetryPolicy = \<lparr>rpInitialInterval = 500 * Millisecond, rpBackoffFactor = f_two,
     rpMaxInterval = 128 * Second, rpMaxAttempts = 3, rpJitter = True,
     rpRetryOn = Some DefaultRetryOn\<rparr>"

definition powFloat :: "golib \<Rightarrow> float64 \<Rightarrow> int \<Rightarrow> float64" where
  "powFloat L base n = ((\<lambda>result. fmul L result base) ^^ nat n) f_one"

text \<open>\<open>rnd\<close> is \<open>rand.Float64\<close>, called only when the policy asks for jitter.\<close>

definition CalculateBackoff ::
  "golib \<Rightarrow> ('w \<Rightarrow> float64 \<times> 'w) \<Rightarrow> retry_policy \<Rightarrow> int \<Rightarrow> 'w \<Rightarrow> duration \<times> 'w"
where
  "CalculateBackoff L rnd p attempt w =
     (let raw = f2i L (fmul L (i2f L (rpInitialInterval p)) (powFloat L (rpBackoffFactor p) (attempt - 1)));
          backoff = (if sint raw > sint (rpMaxInterval p) then rpMaxInterval p else raw)
      in if rpJitter p
         then (case rnd w of (u, w') \<Rightarrow>
           let jitter = f2i L (fmul L (fmul L (i2f L backoff) f_half) u);
               less = backoff - jitter
           in (if sint less < 0 then 0 else less, w'))
         else (backoff, w))"

section \<open>RetryExecutor\<close>

text \<open>A call returns a value and an error, or panics.\<close>

datatype called = Returned gval "gerr option" | Panicked gval

text \<open>
  \<open>reWait d\<close> is the \<open>select\<close> between \<open>ctx.Done()\<close> and \<open>time.After(d)\<close>: the context's error if
  the context ended first, \<open>None\<close> if the time has passed.
\<close>

record 'w retry_env =
  reWait :: "duration \<Rightarrow> 'w \<Rightarrow> gerr option \<times> 'w"
  reRand :: "'w \<Rightarrow> float64 \<times> 'w"

definition NewRetryExecutor :: "retry_policy option \<Rightarrow> retry_policy" where
  "NewRetryExecutor policy = (case policy of None \<Rightarrow> DefaultRetryPolicy | Some p \<Rightarrow> p)"

definition re_retryable :: "retry_policy \<Rightarrow> gerr \<Rightarrow> bool" where
  "re_retryable p e = (case rpRetryOn p of None \<Rightarrow> True | Some f \<Rightarrow> f (Some e))"

function exec_loop ::
  "golib \<Rightarrow> 'w retry_env \<Rightarrow> retry_policy \<Rightarrow> string \<Rightarrow> ('w \<Rightarrow> called \<times> 'w) \<Rightarrow> int
   \<Rightarrow> gerr option \<Rightarrow> gval \<Rightarrow> 'w \<Rightarrow> (gval \<times> gerr option) \<times> 'w"
where
  "exec_loop L E p name fn attempt lastErr lastOutput w =
     (if attempt \<le> rpMaxAttempts p then
        (case fn w of
           (Panicked r, w1) \<Rightarrow>
             ((VNil, Some (ErrorString (''node '' @ name @ '' panicked: '' @ fmt_v L r))), w1)
         | (Returned out None, w1) \<Rightarrow> ((out, None), w1)
         | (Returned out (Some e), w1) \<Rightarrow>
             (if IsGraphInterrupt (Some e) then ((VNil, Some e), w1)
              else if \<not> re_retryable p e then
                ((VNil, Some (WrapError (''node '' @ name @ '' failed with non-retryable error'') e)), w1)
              else if attempt \<ge> rpMaxAttempts p then
                ((VNil, Some (RetryExhaustedError name (rpMaxAttempts p) (Some e) out)), w1)
              else
                (case CalculateBackoff L (reRand E) p attempt w1 of
                   (backoff, w2) \<Rightarrow>
                     (case reWait E backoff w2 of
                        (Some c, w3) \<Rightarrow>
                          ((VNil, Some (WrapError (''node '' @ name @ '' cancelled during retry'') c)), w3)
                      | (None, w3) \<Rightarrow>
                          exec_loop L E p name fn (attempt + 1) (Some e) out w3))))
      else ((VNil, Some (RetryExhaustedError name (rpMaxAttempts p) lastErr lastOutput)), w))"
  by pat_completeness auto
termination
  by (relation "measure (\<lambda>(L, E, p, name, fn, attempt, _). nat (rpMaxAttempts p - attempt + 1))") auto

declare exec_loop.simps [simp del]

definition re_Execute ::
  "golib \<Rightarrow> 'w retry_env \<Rightarrow> retry_policy \<Rightarrow> string \<Rightarrow> ('w \<Rightarrow> called \<times> 'w)
   \<Rightarrow> 'w \<Rightarrow> (gval \<times> gerr option) \<times> 'w"
where
  "re_Execute L E p name fn w = exec_loop L E p name fn 1 None VNil w"

section \<open>Predicates\<close>

definition lower_char :: "char \<Rightarrow> char" where
  "lower_char c = (if 65 \<le> (of_char c :: nat) \<and> (of_char c :: nat) \<le> 90
     then char_of ((of_char c :: nat) + 32) else c)"

definition toLower :: "string \<Rightarrow> string" where
  "toLower s = map lower_char s"

definition containsIgnoreCase :: "string \<Rightarrow> string \<Rightarrow> bool" where
  "containsIgnoreCase s substr =
     (let s' = toLower s; substr' = toLower substr
      in length s' \<ge> length substr' \<and> take (length substr') s' = substr')"

definition contains :: "string \<Rightarrow> string \<Rightarrow> bool" where
  "contains s substr \<longleftrightarrow> length s \<ge> length substr \<and>
     (s = substr \<or> length s > length substr \<and>
        (take (length substr) s = substr \<or> containsIgnoreCase s substr))"

definition matches_keyword :: "golib \<Rightarrow> string list \<Rightarrow> gerr option \<Rightarrow> bool" where
  "matches_keyword L kws err = (case err of None \<Rightarrow> False
     | Some e \<Rightarrow> list_ex (contains (error_text L e)) kws)"

definition rp_Always :: "gerr option \<Rightarrow> bool" where "rp_Always err = True"
definition rp_Never :: "gerr option \<Rightarrow> bool" where "rp_Never err = False"

definition rp_NetworkErrors :: "golib \<Rightarrow> gerr option \<Rightarrow> bool" where
  "rp_NetworkErrors L = matches_keyword L [''connection refused'', ''connection reset'',
     ''timeout'', ''network'', ''dns'', ''temporary failure'', ''503'', ''502'', ''504'']"

definition rp_TemporaryErrors :: "golib \<Rightarrow> gerr option \<Rightarrow> bool" where
  "rp_TemporaryErrors L = matches_keyword L [''temporary'', ''transient'', ''rate limit'',
     ''too many requests'', ''429'']"

section \<open>RetryConfig\<close>

text \<open>The callbacks act on the world.\<close>

record 'w retry_config =
  rcPolicy :: retry_policy
  rcOnRetry :: "(int \<Rightarrow> gerr option \<Rightarrow> 'w \<Rightarrow> 'w) option"
  rcOnSuccess :: "(int \<Rightarrow> 'w \<Rightarrow> 'w) option"

definition NewRetryConfig :: "'w retry_config" where
  "NewRetryConfig = \<lparr>rcPolicy = DefaultRetryPolicy, rcOnRetry = None, rcOnSuccess = None\<rparr>"

definition rc_WithRetryOn :: "'w retry_config \<Rightarrow> (gerr option \<Rightarrow> bool) \<Rightarrow> 'w retry_config" where
  "rc_WithRetryOn c f = c\<lparr>rcPolicy := (rcPolicy c)\<lparr>rpRetryOn := Some f\<rparr>\<rparr>"

definition rc_WithMaxAttempts :: "'w retry_config \<Rightarrow> int \<Rightarrow> 'w retry_config" where
  "rc_WithMaxAttempts c n = c\<lparr>rcPolicy := (rcPolicy c)\<lparr>rpMaxAttempts := n\<rparr>\<rparr>"

definition rc_WithBackoff :: "'w retry_config \<Rightarrow> duration \<Rightarrow> duration \<Rightarrow> float64 \<Rightarrow> 'w retry_config" where
  "rc_WithBackoff c initial mx factor =
     c\<lparr>rcPolicy := (rcPolicy c)\<lparr>rpInitialInterval := initial, rpMaxInterval := mx, rpBackoffFactor := factor\<rparr>\<rparr>"

definition rc_WithJitter :: "'w retry_config \<Rightarrow> bool \<Rightarrow> 'w retry_config" where
  "rc_WithJitter c b = c\<lparr>rcPolicy := (rcPolicy c)\<lparr>rpJitter := b\<rparr>\<rparr>"

definition rc_WithOnRetry ::
  "'w retry_config \<Rightarrow> (int \<Rightarrow> gerr option \<Rightarrow> 'w \<Rightarrow> 'w) \<Rightarrow> 'w retry_config"
where
  "rc_WithOnRetry c f = c\<lparr>rcOnRetry := Some f\<rparr>"

definition rc_WithOnSuccess :: "'w retry_config \<Rightarrow> (int \<Rightarrow> 'w \<Rightarrow> 'w) \<Rightarrow> 'w retry_config" where
  "rc_WithOnSuccess c f = c\<lparr>rcOnSuccess := Some f\<rparr>"

section \<open>MultiPolicyRetryExecutor\<close>

fun findMatchingPolicy :: "retry_policy list \<Rightarrow> gerr \<Rightarrow> retry_policy option" where
  "findMatchingPolicy [] e = None"
| "findMatchingPolicy (p # ps) e =
     (case rpRetryOn p of
        None \<Rightarrow> Some p
      | Some f \<Rightarrow> if f (Some e) then Some p else findMatchingPolicy ps e)"

lemma findMatchingPolicy_set: "findMatchingPolicy ps e = Some p \<Longrightarrow> p \<in> set ps"
  by (induction ps) (auto split: option.splits if_splits)

definition max_attempts :: "retry_policy list \<Rightarrow> int" where
  "max_attempts ps = foldr (\<lambda>p. max (rpMaxAttempts p)) ps 0"

lemma max_attempts_ge: "p \<in> set ps \<Longrightarrow> rpMaxAttempts p \<le> max_attempts ps"
  by (induction ps) (auto simp: max_attempts_def)

text \<open>The loop of \<open>Execute\<close>. A panic of the node's own call is not recovered here.\<close>

function multi_loop ::
  "golib \<Rightarrow> 'w retry_env \<Rightarrow> retry_policy list \<Rightarrow> string \<Rightarrow> ('w \<Rightarrow> called \<times> 'w) \<Rightarrow> int \<Rightarrow> 'w
   \<Rightarrow> called \<times> 'w"
where
  "multi_loop L E ps name fn attempt w =
     (case fn w of
        (Panicked r, w1) \<Rightarrow> (Panicked r, w1)
      | (Returned out None, w1) \<Rightarrow> (Returned out None, w1)
      | (Returned out (Some e), w1) \<Rightarrow>
          (let attempt1 = attempt + 1 in
           case findMatchingPolicy ps e of
             None \<Rightarrow>
               (Returned VNil (Some (WrapError (''node '' @ name @ '' failed with non-retryable error'') e)), w1)
           | Some policy \<Rightarrow>
               (if attempt1 \<ge> rpMaxAttempts policy then
                  (Returned VNil (Some (RetryExhaustedError name attempt1 (Some e) out)), w1)
                else
                  (let remaining = rpMaxAttempts policy - attempt1;
                       limitedPolicy = policy\<lparr>rpMaxAttempts := remaining + 1\<rparr>
                   in case re_Execute L E (NewRetryExecutor (Some limitedPolicy)) name fn w1 of
                        ((result, None), w2) \<Rightarrow> (Returned result None, w2)
                      | ((result, Some e2), w2) \<Rightarrow>
                          multi_loop L E ps name fn (attempt1 + remaining) w2))))"
  by pat_completeness auto
termination
  by (relation "measure (\<lambda>(L, E, ps, name, fn, attempt, w). nat (max_attempts ps - attempt))")
    (auto dest!: findMatchingPolicy_set max_attempts_ge)

declare multi_loop.simps [simp del]

definition mp_Execute ::
  "golib \<Rightarrow> 'w retry_env \<Rightarrow> retry_policy list \<Rightarrow> string \<Rightarrow> ('w \<Rightarrow> called \<times> 'w) \<Rightarrow> 'w \<Rightarrow> called \<times> 'w"
where
  "mp_Execute L E ps name fn w = (if length ps = 0 then fn w else multi_loop L E ps name fn 0 w)"

record 'w multi_retry_config =
  mcPolicies :: "retry_policy list"
  mcOnRetry :: "(int \<Rightarrow> int \<Rightarrow> gerr option \<Rightarrow> 'w \<Rightarrow> 'w) option"
  mcOnSuccess :: "(int \<Rightarrow> 'w \<Rightarrow> 'w) option"
  mcOnPolicyMatch :: "(int \<Rightarrow> int \<Rightarrow> 'w \<Rightarrow> 'w) option"

definition NewMultiRetryConfig :: "retry_policy list \<Rightarrow> 'w multi_retry_config" where
  "NewMultiRetryConfig ps = \<lparr>mcPolicies = (if length ps = 0 then [DefaultRetryPolicy] else ps),
     mcOnRetry = None, mcOnSuccess = None, mcOnPolicyMatch = None\<rparr>"

definition mc_WithOnRetry ::
  "'w multi_retry_config \<Rightarrow> (int \<Rightarrow> int \<Rightarrow> gerr option \<Rightarrow> 'w \<Rightarrow> 'w) \<Rightarrow> 'w multi_retry_config"
where
  "mc_WithOnRetry c f = c\<lparr>mcOnRetry := Some f\<rparr>"

definition mc_WithOnSuccess ::
  "'w multi_retry_config \<Rightarrow> (int \<Rightarrow> 'w \<Rightarrow> 'w) \<Rightarrow> 'w multi_retry_config"
where
  "mc_WithOnSuccess c f = c\<lparr>mcOnSuccess := Some f\<rparr>"

definition mc_WithOnPolicyMatch ::
  "'w multi_retry_config \<Rightarrow> (int \<Rightarrow> int \<Rightarrow> 'w \<Rightarrow> 'w) \<Rightarrow> 'w multi_retry_config"
where
  "mc_WithOnPolicyMatch c f = c\<lparr>mcOnPolicyMatch := Some f\<rparr>"

definition CreateExecutor :: "'w multi_retry_config \<Rightarrow> retry_policy list" where
  "CreateExecutor c = mcPolicies c"

definition preset_NetworkErrors :: "golib \<Rightarrow> retry_policy" where
  "preset_NetworkErrors L = \<lparr>rpInitialInterval = 100 * Millisecond, rpBackoffFactor = f_two,
     rpMaxInterval = 30 * Second, rpMaxAttempts = 5, rpJitter = True,
     rpRetryOn = Some (rp_NetworkErrors L)\<rparr>"

definition preset_TemporaryErrors :: "golib \<Rightarrow> retry_policy" where
  "preset_TemporaryErrors L = \<lparr>rpInitialInterval = 500 * Millisecond, rpBackoffFactor = f_one_half,
     rpMaxInterval = 10 * Second, rpMaxAttempts = 3, rpJitter = True,
     rpRetryOn = Some (rp_TemporaryErrors L)\<rparr>"

definition preset_ResourceErrors :: "golib \<Rightarrow> retry_policy" where
  "preset_ResourceErrors L = \<lparr>rpInitialInterval = 1 * Second, rpBackoffFactor = f_one_half,
     rpMaxInterval = 60 * Second, rpMaxAttempts = 10, rpJitter = True,
     rpRetryOn = Some (matches_keyword L [''resource exhausted'', ''too many requests'',
       ''rate limit'', ''quota exceeded'', ''429'', ''503''])\<rparr>"

definition preset_TimeoutErrors :: "golib \<Rightarrow> retry_policy" where
  "preset_TimeoutErrors L = \<lparr>rpInitialInterval = 1 * Second, rpBackoffFactor = f_two,
     rpMaxInterval = 30 * Second, rpMaxAttempts = 3, rpJitter = False,
     rpRetryOn = Some (matches_keyword L [''timeout'', ''deadline exceeded'',
       ''context deadline'', ''408'', ''504''])\<rparr>"

definition CreateDefaultMultiPolicy :: "golib \<Rightarrow> 'w multi_retry_config" where
  "CreateDefaultMultiPolicy L = NewMultiRetryConfig [preset_NetworkErrors L,
     preset_TemporaryErrors L, preset_TimeoutErrors L, preset_ResourceErrors L]"

section \<open>What the executors do\<close>

lemma lower_prefix: "take (length k) s = k \<Longrightarrow> take (length k) (toLower s) = toLower k"
  by (simp add: toLower_def take_map)

lemma length_toLower [simp]: "length (toLower s) = length s"
  by (simp add: toLower_def)

text \<open>\<open>contains\<close> looks at the beginning of the text only.\<close>

lemma contains_iff_prefix:
  "contains s k \<longleftrightarrow> s = k \<or> length k < length s \<and> take (length k) (toLower s) = toLower k"
  by (auto simp: contains_def containsIgnoreCase_def Let_def lower_prefix)

text \<open>Counting the calls of the node function: the count is a part of the world.\<close>

definition counted :: "('w \<Rightarrow> 'a \<times> 'w) \<Rightarrow> nat \<times> 'w \<Rightarrow> 'a \<times> nat \<times> 'w" where
  "counted fn = (\<lambda>(n, w). case fn w of (r, w') \<Rightarrow> (r, Suc n, w'))"

definition uncounted :: "('w \<Rightarrow> 'a \<times> 'w) \<Rightarrow> nat \<times> 'w \<Rightarrow> 'a \<times> nat \<times> 'w" where
  "uncounted f = (\<lambda>(n, w). case f w of (r, w') \<Rightarrow> (r, n, w'))"

definition counted_env :: "'w retry_env \<Rightarrow> (nat \<times> 'w) retry_env" where
  "counted_env E = \<lparr>reWait = (\<lambda>d. uncounted (reWait E d)), reRand = uncounted (reRand E)\<rparr>"

lemma counted_env_simps [simp]:
  "reWait (counted_env E) d = uncounted (reWait E d)" "reRand (counted_env E) = uncounted (reRand E)"
  by (simp_all add: counted_env_def)

lemma backoff_uncounted:
  "CalculateBackoff L (uncounted rnd) p k (n, w) =
     (case CalculateBackoff L rnd p k w of (b, w') \<Rightarrow> (b, n, w'))"
  by (simp add: CalculateBackoff_def uncounted_def Let_def split: prod.splits)

text \<open>
  The counted run gives the result of the run and at most one call for each attempt left, and
  exactly one for each when the result is that the attempts are used up.
\<close>

lemma exec_loop_counted:
  "\<exists>k. exec_loop L (counted_env E) p name (counted fn) a le lo (n, w) =
         (fst (exec_loop L E p name fn a le lo w), n + k, snd (exec_loop L E p name fn a le lo w)) \<and>
       int k \<le> max 0 (rpMaxAttempts p - a + 1) \<and>
       (IsRetryExhausted (snd (fst (exec_loop L E p name fn a le lo w))) \<longrightarrow>
          int k = max 0 (rpMaxAttempts p - a + 1))"
proof (induction "nat (rpMaxAttempts p - a + 1)" arbitrary: a le lo w n rule: less_induct)
  case less
  show ?case
  proof (cases "a \<le> rpMaxAttempts p")
    case False
    then show ?thesis
      by (intro exI[of _ 0]) (simp add: exec_loop.simps[of _ "counted_env E"] exec_loop.simps[of _ E])
  next
    case True
    obtain r w1 where f: "fn w = (r, w1)" by (cases "fn w")
    then have cf: "counted fn (n, w) = (r, Suc n, w1)" by (simp add: counted_def)
    note unf = exec_loop.simps[of L "counted_env E" p name "counted fn" a le lo]
      exec_loop.simps[of L E p name fn a le lo] True f cf
    show ?thesis
    proof (cases r)
      case (Panicked v)
      then show ?thesis
        using True by (intro exI[of _ 1]) (simp add: unf IsRetryExhausted_def)
    next
      case (Returned out err)
      note ret = this
      show ?thesis
      proof (cases err)
        case None
        then show ?thesis
          using True ret by (intro exI[of _ 1]) (simp add: unf IsRetryExhausted_def)
      next
        case (Some e)
        show ?thesis
        proof (cases "IsGraphInterrupt (Some e) \<or> \<not> re_retryable p e \<or> a \<ge> rpMaxAttempts p")
          case stop: True
          have last: "rpMaxAttempts p \<le> a \<Longrightarrow> rpMaxAttempts p = a" using True by simp
          have "\<not> IsRetryExhausted (Some e)" if "IsGraphInterrupt (Some e)"
            using that by (auto simp: IsRetryExhausted_def IsGraphInterrupt_def split: gerr.splits)
          moreover have "\<not> IsRetryExhausted (Some (WrapError m e))" for m
            by (simp add: IsRetryExhausted_def)
          ultimately show ?thesis
            using True ret Some stop by (intro exI[of _ 1]) (auto simp: unf dest: last)
        next
          case False
          obtain b w2 where b: "CalculateBackoff L (reRand E) p a w1 = (b, w2)"
            by (cases "CalculateBackoff L (reRand E) p a w1")
          obtain c w3 where c: "reWait E b w2 = (c, w3)" by (cases "reWait E b w2")
          show ?thesis
          proof (cases c)
            case Some': (Some ce)
            show ?thesis
              using True ret Some False b c Some'
              by (intro exI[of _ 1])
                (simp add: unf IsRetryExhausted_def backoff_uncounted, simp add: uncounted_def)
          next
            case None
            let ?rec = "exec_loop L E p name fn (a + 1) (Some e) out w3"
            from True have "nat (rpMaxAttempts p - (a + 1) + 1) < nat (rpMaxAttempts p - a + 1)" by simp
            from less[OF this, where le = "Some e" and lo = out and w = w3 and n = "Suc n"] obtain k where
              k: "exec_loop L (counted_env E) p name (counted fn) (a + 1) (Some e) out (Suc n, w3) =
                    (fst ?rec, Suc n + k, snd ?rec)"
                 "int k \<le> max 0 (rpMaxAttempts p - (a + 1) + 1)"
                 "IsRetryExhausted (snd (fst ?rec)) \<longrightarrow> int k = max 0 (rpMaxAttempts p - (a + 1) + 1)"
              by blast
            have "exec_loop L E p name fn a le lo w = ?rec"
              using ret Some False b c None by (simp add: unf)
            moreover have "exec_loop L (counted_env E) p name (counted fn) a le lo (n, w) =
                (fst ?rec, n + Suc k, snd ?rec)"
              using ret Some False b c None k(1)
              by (simp add: unf backoff_uncounted) (simp add: uncounted_def)
            ultimately show ?thesis
              using k(2,3) False True by (intro exI[of _ "Suc k"]) auto
          qed
        qed
      qed
    qed
  qed
qed

lemma execute_counted:
  "\<exists>k. re_Execute L (counted_env E) p name (counted fn) (n, w) =
         (fst (re_Execute L E p name fn w), n + k, snd (re_Execute L E p name fn w)) \<and>
       int k \<le> max 0 (rpMaxAttempts p) \<and>
       (IsRetryExhausted (snd (fst (re_Execute L E p name fn w))) \<longrightarrow> int k = max 0 (rpMaxAttempts p))"
  using exec_loop_counted[of L E p name fn 1 None VNil n w] by (simp add: re_Execute_def)

text \<open>
  A node as the sequence of the results its calls give, with a clock that always lets the
  backoff pass: the run is decided by the first result that is not a retryable error.
\<close>

definition next_result :: "called list \<Rightarrow> called \<times> called list" where
  "next_result rs = (case rs of [] \<Rightarrow> (Returned VNil None, []) | r # rs' \<Rightarrow> (r, rs'))"

lemma next_result_Cons [simp]: "next_result (r # rs) = (r, rs)"
  by (simp add: next_result_def)

definition patient :: "'w retry_env \<Rightarrow> bool" where
  "patient E \<longleftrightarrow> (\<forall>d w. reWait E d w = (None, w)) \<and> (\<forall>w. snd (reRand E w) = w)"

definition retried :: "retry_policy \<Rightarrow> called \<Rightarrow> bool" where
  "retried p r = (case r of Returned out (Some e) \<Rightarrow> \<not> IsGraphInterrupt (Some e) \<and> re_retryable p e
     | _ \<Rightarrow> False)"

definition verdict :: "golib \<Rightarrow> string \<Rightarrow> called \<Rightarrow> gval \<times> gerr option" where
  "verdict L name r = (case r of
      Panicked v \<Rightarrow> (VNil, Some (ErrorString (''node '' @ name @ '' panicked: '' @ fmt_v L v)))
    | Returned out None \<Rightarrow> (out, None)
    | Returned out (Some e) \<Rightarrow>
        (VNil, Some (if IsGraphInterrupt (Some e) then e
                     else WrapError (''node '' @ name @ '' failed with non-retryable error'') e)))"

definition exhausted :: "string \<Rightarrow> int \<Rightarrow> called \<Rightarrow> gval \<times> gerr option" where
  "exhausted name n r = (case r of
      Returned out err \<Rightarrow> (VNil, Some (RetryExhaustedError name n err out))
    | Panicked v \<Rightarrow> (VNil, None))"

lemma patient_backoff: "patient E \<Longrightarrow> snd (CalculateBackoff L (reRand E) p k w) = w"
  by (simp add: patient_def CalculateBackoff_def Let_def split: prod.splits) (metis snd_conv)

lemma exec_loop_decided:
  assumes "patient E" and "list_all (retried p) pre" and "\<not> retried p r"
    and "int (length pre) \<le> rpMaxAttempts p - a"
  shows "exec_loop L E p name next_result a le lo (pre @ r # rest) = (verdict L name r, rest)"
  using assms
proof (induction pre arbitrary: a le lo)
  case Nil
  then have "a \<le> rpMaxAttempts p" by simp
  with Nil show ?case
    by (auto simp: exec_loop.simps[of L E] retried_def verdict_def
        split: called.splits option.splits)
next
  case (Cons q pre)
  from Cons.prems obtain out e where q: "q = Returned out (Some e)" "\<not> IsGraphInterrupt (Some e)"
      "re_retryable p e"
    by (auto simp: retried_def split: called.splits option.splits)
  from Cons.prems(4) have le: "a \<le> rpMaxAttempts p" "\<not> a \<ge> rpMaxAttempts p" by simp_all
  obtain b where b: "CalculateBackoff L (reRand E) p a (pre @ r # rest) = (b, pre @ r # rest)"
    using patient_backoff[OF Cons.prems(1)] by (metis surjective_pairing)
  have w: "reWait E b v = (None, v)" for v using Cons.prems(1) by (simp add: patient_def)
  have "exec_loop L E p name next_result (a + 1) (Some e) out (pre @ r # rest) = (verdict L name r, rest)"
    using Cons.prems by (intro Cons.IH) auto
  then show ?case
    using q le b w by (simp add: exec_loop.simps[of L E p name next_result a])
qed

lemma exec_loop_exhausted:
  assumes "patient E" and "list_all (retried p) rs" and "rs \<noteq> []"
    and "int (length rs) = rpMaxAttempts p - a + 1"
  shows "exec_loop L E p name next_result a le lo (rs @ rest) =
    (exhausted name (rpMaxAttempts p) (last rs), rest)"
  using assms
proof (induction rs arbitrary: a le lo)
  case Nil
  then show ?case by simp
next
  case (Cons q rs)
  from Cons.prems obtain out e where q: "q = Returned out (Some e)" "\<not> IsGraphInterrupt (Some e)"
      "re_retryable p e"
    by (auto simp: retried_def split: called.splits option.splits)
  show ?case
  proof (cases "rs = []")
    case True
    with Cons.prems(4) have "rpMaxAttempts p = a" by simp
    then show ?thesis
      using q True by (simp add: exec_loop.simps[of L E p name next_result a] exhausted_def)
  next
    case False
    then have "int (length rs) > 0" by simp
    moreover have "int (length rs) = rpMaxAttempts p - a" using Cons.prems(4) by simp
    ultimately have le: "a \<le> rpMaxAttempts p" "\<not> a \<ge> rpMaxAttempts p" by linarith+
    obtain b where b: "CalculateBackoff L (reRand E) p a (rs @ rest) = (b, rs @ rest)"
      using patient_backoff[OF Cons.prems(1)] by (metis surjective_pairing)
    have w: "reWait E b v = (None, v)" for v using Cons.prems(1) by (simp add: patient_def)
    have "exec_loop L E p name next_result (a + 1) (Some e) out (rs @ rest) =
        (exhausted name (rpMaxAttempts p) (last rs), rest)"
      using Cons.prems False by (intro Cons.IH) auto
    then show ?thesis
      using q le b w False
      by (simp add: exec_loop.simps[of L E p name next_result a])
  qed
qed

lemma retried_policy: "retried p r \<Longrightarrow> \<exists>out e. r = Returned out (Some e) \<and> findMatchingPolicy [p] e = Some p"
  by (auto simp: retried_def re_retryable_def split: called.splits option.splits)

lemma retried_upd [simp]: "retried (p\<lparr>rpMaxAttempts := n\<rparr>) = retried p"
  by (rule ext) (simp add: retried_def re_retryable_def split: called.splits option.splits)

lemma multi_loop_last:
  assumes "retried p (Returned out (Some e))" and "rpMaxAttempts p \<le> a + 1"
  shows "multi_loop L E [p] name next_result a (Returned out (Some e) # rest) =
    (Returned VNil (Some (RetryExhaustedError name (a + 1) (Some e) out)), rest)"
  using assms retried_policy[OF assms(1)] by (simp add: multi_loop.simps[of L E])

section \<open>Properties\<close>

text \<open>
  C21: with a clock that lets every backoff pass, the run is decided by the first call that does
  not end in a retryable error: its value, its panic as an error, a graph interrupt as it is, or
  the wrapped non-retryable error; calls after it are not made. If there is no such call within
  \<open>MaxAttempts\<close>, the result is \<open>RetryExhaustedError\<close> with the last error and output.
\<close>

theorem Execute_decided:
  assumes "patient E" and "list_all (retried p) pre"
    and "if r = None then pre \<noteq> [] \<and> int (length pre) = rpMaxAttempts p
         else \<not> retried p (the r) \<and> int (length pre) < rpMaxAttempts p"
  shows "re_Execute L E p name next_result (pre @ (case r of None \<Rightarrow> rest | Some d \<Rightarrow> d # rest)) =
    (case r of None \<Rightarrow> exhausted name (rpMaxAttempts p) (last pre) | Some d \<Rightarrow> verdict L name d, rest)"
  using assms exec_loop_decided[of E p pre "the r" 1] exec_loop_exhausted[of E p pre 1]
  by (auto simp: re_Execute_def split: option.splits if_splits)

definition patient_env :: "'w retry_env" where
  "patient_env = \<lparr>reWait = (\<lambda>d w. (None, w)), reRand = (\<lambda>w. (0, w))\<rparr>"

lemma patient_env [simp]: "patient patient_env"
  by (simp add: patient_def patient_env_def)

lemma Execute_decided_witness:
  "re_Execute demo_lib patient_env DefaultRetryPolicy ''n'' next_result
     [Returned VNil (Some (ErrorString ''a'')), Returned (VInt 7) None, Panicked VNil] =
   ((VInt 7, None), [Panicked VNil])"
  using Execute_decided[of patient_env DefaultRetryPolicy "[Returned VNil (Some (ErrorString ''a''))]"
      "Some (Returned (VInt 7) None)" demo_lib "''n''" "[Panicked VNil]"]
  by (simp add: retried_def DefaultRetryPolicy_def DefaultRetryOn_def re_retryable_def
      IsGraphInterrupt_def verdict_def)

text \<open>
  one run calls the node at most \<open>MaxAttempts\<close> times, and exactly that many times when it
  reports that the attempts are exhausted; counting the calls does not change the run.
\<close>

theorem Execute_calls:
  "\<exists>k. re_Execute L (counted_env E) p name (counted fn) (n, w) =
         (fst (re_Execute L E p name fn w), n + k, snd (re_Execute L E p name fn w)) \<and>
       (if IsRetryExhausted (snd (fst (re_Execute L E p name fn w)))
        then int k = max 0 (rpMaxAttempts p) else int k \<le> max 0 (rpMaxAttempts p))"
  using execute_counted[of L E p name fn n w] by auto

text \<open>
  the multi-policy executor with one policy of \<open>N \<ge> 2\<close> attempts calls a node that keeps
  failing \<open>N + 2\<close> times and reports \<open>N + 1\<close> attempts.
\<close>

theorem multi_Execute_calls:
  assumes "patient E" and "list_all (retried p) rs" and "2 \<le> rpMaxAttempts p"
    and "int (length rs) = rpMaxAttempts p + 2" and "last rs = Returned out (Some e)"
  shows "mp_Execute L E [p] name next_result (rs @ rest) =
    (Returned VNil (Some (RetryExhaustedError name (rpMaxAttempts p + 1) (Some e) out)), rest)"
proof -
  from assms(3,4) have "rs \<noteq> []" "tl rs \<noteq> []" by (cases rs; cases "tl rs"; simp)+
  then obtain q mid where rs: "rs = q # mid @ [last rs]"
    by (cases rs) (auto intro: append_butlast_last_id[symmetric])
  have mid: "int (length mid) = rpMaxAttempts p" using assms(4) by (subst (asm) rs) simp
  have all: "retried p q" "list_all (retried p) mid" "retried p (Returned out (Some e))"
    using assms(2,5) by (subst (asm) rs, simp)+
  obtain o1 e1 where q: "q = Returned o1 (Some e1)" "findMatchingPolicy [p] e1 = Some p"
    using retried_policy[OF all(1)] by blast
  let ?p' = "p\<lparr>rpMaxAttempts := rpMaxAttempts p - 1 + 1\<rparr>"
  let ?x = "exhausted name (rpMaxAttempts p) (last mid)"
  have ne: "mid \<noteq> []" using mid assms(3) by auto
  have ex: "re_Execute L E ?p' name next_result (mid @ Returned out (Some e) # rest) =
      (?x, Returned out (Some e) # rest)"
    using exec_loop_exhausted[of E ?p' mid 1 L name None VNil "Returned out (Some e) # rest"]
      assms(1) all(2) mid ne by (simp add: re_Execute_def)
  have "retried p (last mid)" using all(2) ne by (simp add: list_all_iff)
  then obtain o2 e2 where x: "?x = (o2, Some e2)"
    using retried_policy by (fastforce simp: exhausted_def)
  have "multi_loop L E [p] name next_result 0 (rs @ rest) =
      multi_loop L E [p] name next_result (1 + (rpMaxAttempts p - 1)) (Returned out (Some e) # rest)"
    using q assms(3) ex x
    by (subst rs) (simp add: multi_loop.simps[of L E "[p]" name next_result 0] assms(5) NewRetryExecutor_def Let_def del: findMatchingPolicy.simps)
  then show ?thesis
    using multi_loop_last[OF all(3), of "rpMaxAttempts p" L E name rest] by (simp add: mp_Execute_def)
qed

lemma multi_Execute_calls_witness:
  "mp_Execute demo_lib patient_env [DefaultRetryPolicy] ''n'' next_result
     (replicate 5 (Returned VNil (Some (ErrorString ''a'')))) =
   (Returned VNil (Some (RetryExhaustedError ''n'' 4 (Some (ErrorString ''a'')) VNil)), [])"
  using multi_Execute_calls[of patient_env DefaultRetryPolicy
      "replicate 5 (Returned VNil (Some (ErrorString ''a'')))" VNil "ErrorString ''a''"
      demo_lib "''n''" "[]"]
  by (simp add: retried_def DefaultRetryPolicy_def DefaultRetryOn_def re_retryable_def
      IsGraphInterrupt_def list_all_iff)

text \<open>
  a network keyword is recognised only where the error's text begins with it: any text that
  starts with another letter than those of the nine keywords is not a network error.
\<close>

theorem NetworkErrors_prefix_only:
  "rp_NetworkErrors L (Some e) \<longleftrightarrow>
     (\<exists>k \<in> {''connection refused'', ''connection reset'', ''timeout'', ''network'', ''dns'',
             ''temporary failure'', ''503'', ''502'', ''504''}.
        take (length k) (toLower (error_text L e)) = k \<and>
        (length k < length (error_text L e) \<or> error_text L e = k))"
proof -
  have low: "toLower k = k" if "k \<in> {''connection refused'', ''connection reset'', ''timeout'',
      ''network'', ''dns'', ''temporary failure'', ''503'', ''502'', ''504''}" for k
    using that by (auto simp: toLower_def lower_char_def)
  have iff: "contains s k \<longleftrightarrow> take (length k) (toLower s) = k \<and> (length k < length s \<or> s = k)"
    if "toLower k = k" for s k
    using that by (auto simp: contains_iff_prefix)
  show ?thesis
    unfolding rp_NetworkErrors_def matches_keyword_def
    using iff[OF low] by (simp add: list_ex_iff)
qed

end
