(* ===== verification/Graph.thy ===== *)
theory Graph
  imports Registry Schema Retry
begin

text \<open>
  The graph builder (\<^verbatim>\<open>graph/graph.go\<close>): the graph under construction, the operations that
  extend it, its validation with the search for reachable nodes, and compilation. Node and edge
  functions act on a world of an arbitrary type \<open>'w\<close>.
\<close>

section \<open>Data\<close>

type_synonym 'w node_func = "gval \<Rightarrow> 'w \<Rightarrow> called \<times> 'w"
type_synonym 'w edge_func = "gval \<Rightarrow> 'w \<Rightarrow> (gval \<times> gerr option) \<times> 'w"

record field_mapping =
  fmFrom :: string
  fmTo :: string

record 'w node =
  ndName :: string
  ndFunction :: "'w node_func"
  ndTriggers :: "string list"
  ndWrites :: "string list"
  ndRetryPolicy :: "retry_policy option"
  ndTags :: "string list"
  ndMetadata :: gmap
  ndFieldMapping :: "field_mapping list"

record edge =
  edFrom :: string
  edTo :: string

record data_edge =
  deFrom :: string
  deTo :: string
  deMapping :: "field_mapping list"

record 'w cond_edge =
  ceFrom :: string
  ceCondition :: "'w edge_func"
  ceMapping :: "(string, string) fmap"

record 'w branch =
  brFrom :: string
  brCondition :: "'w edge_func"
  brThen :: "gval \<Rightarrow> string list"

record 'w node_options =
  noRetryPolicy :: "retry_policy option"
  noTags :: "string list"
  noMetadata :: gmap
  noTriggers :: "string list"
  noWrites :: "string list"
  noFieldMapping :: "field_mapping list"
  noStatePre :: "'w node_func option"
  noStatePost :: "'w node_func option"

type_synonym trigger_mode = string

definition NodeTriggerAnyPredecessor :: trigger_mode where
  "NodeTriggerAnyPredecessor = ''any''"

definition NodeTriggerAllPredecessor :: trigger_mode where
  "NodeTriggerAllPredecessor = ''all''"

definition Start :: string where "Start = ''__start__''"
definition End :: string where "End = ''__end__''"
definition All :: string where "All = ''*''"
definition DefaultRecursionLimit :: int where "DefaultRecursionLimit = 50"

lemma names_distinct [simp]: "Start \<noteq> End" "End \<noteq> Start" "End \<noteq> []" "Start \<noteq> []"
  by (simp_all add: Start_def End_def)

record 'w sgraph =
  sgNodes :: "(string, 'w node) fmap"
  sgEdges :: "edge list"
  sgDataEdges :: "data_edge list"
  sgConditionalEdges :: "'w cond_edge list"
  sgBranches :: "'w branch list"
  sgEntryPoint :: string
  sgFinishPoints :: "string list"
  sgChannels :: registry
  sgReducers :: "(string, binary_operator) fmap"
  sgStateSchema :: schema
  sgInputSchema :: schema
  sgOutputSchema :: schema
  sgNodeTriggerMode :: trigger_mode

definition NewStateGraph :: "schema \<Rightarrow> 'w sgraph" where
  "NewStateGraph s = \<lparr>sgNodes = fmempty, sgEdges = [], sgDataEdges = [], sgConditionalEdges = [],
     sgBranches = [], sgEntryPoint = [], sgFinishPoints = [], sgChannels = fmempty,
     sgReducers = fmempty, sgStateSchema = s, sgInputSchema = s, sgOutputSchema = s,
     sgNodeTriggerMode = []\<rparr>"

definition WithInputSchema :: "'w sgraph \<Rightarrow> schema \<Rightarrow> 'w sgraph" where
  "WithInputSchema g s = g\<lparr>sgInputSchema := s\<rparr>"

definition WithOutputSchema :: "'w sgraph \<Rightarrow> schema \<Rightarrow> 'w sgraph" where
  "WithOutputSchema g s = g\<lparr>sgOutputSchema := s\<rparr>"

section \<open>Nodes\<close>

definition AddNode :: "'w sgraph \<Rightarrow> string \<Rightarrow> 'w node_func \<Rightarrow> 'w node \<times> 'w sgraph" where
  "AddNode g name fn =
     (let node = \<lparr>ndName = name, ndFunction = fn, ndTriggers = [], ndWrites = [],
                  ndRetryPolicy = None, ndTags = [], ndMetadata = fmempty, ndFieldMapping = []\<rparr>
      in (node, g\<lparr>sgNodes := fmupd name node (sgNodes g)\<rparr>))"

text \<open>The node function with the state handlers around it.\<close>

definition with_handlers ::
  "string \<Rightarrow> 'w node_func option \<Rightarrow> 'w node_func option \<Rightarrow> 'w node_func \<Rightarrow> 'w node_func"
where
  "with_handlers name pre post orig state w =
     (case (case pre of None \<Rightarrow> (Returned state None, w) | Some f \<Rightarrow> f state w) of
        (Panicked r, w1) \<Rightarrow> (Panicked r, w1)
      | (Returned s (Some e), w1) \<Rightarrow>
          (Returned VNil (Some (WrapError (''state pre-handler for '' @ [CHR 0x27] @ name @ [CHR 0x27]) e)), w1)
      | (Returned s None, w1) \<Rightarrow>
          (case orig s w1 of
             (Panicked r, w2) \<Rightarrow> (Panicked r, w2)
           | (Returned out (Some e), w2) \<Rightarrow> (Returned VNil (Some e), w2)
           | (Returned out None, w2) \<Rightarrow>
               (case post of
                  None \<Rightarrow> (Returned out None, w2)
                | Some f \<Rightarrow>
                    (case f out w2 of
                       (Panicked r, w3) \<Rightarrow> (Panicked r, w3)
                     | (Returned out2 (Some e), w3) \<Rightarrow>
                         (Returned VNil (Some (WrapError (''state post-handler for '' @ [CHR 0x27] @ name @ [CHR 0x27]) e)), w3)
                     | (Returned out2 None, w3) \<Rightarrow> (Returned out2 None, w3)))))"

definition AddNodeWithOptions ::
  "'w sgraph \<Rightarrow> string \<Rightarrow> 'w node_func \<Rightarrow> 'w node_options \<Rightarrow> 'w node \<times> 'w sgraph"
where
  "AddNodeWithOptions g name fn opts =
     (let fn' = (if noStatePre opts \<noteq> None \<or> noStatePost opts \<noteq> None
                 then with_handlers name (noStatePre opts) (noStatePost opts) fn else fn)
      in case AddNode g name fn' of (n0, g') \<Rightarrow>
        (let n1 = (if noRetryPolicy opts \<noteq> None then n0\<lparr>ndRetryPolicy := noRetryPolicy opts\<rparr> else n0);
             n2 = n1\<lparr>ndTags := ndTags n1 @ noTags opts\<rparr>;
             n3 = n2\<lparr>ndMetadata := ndMetadata n2 ++\<^sub>f noMetadata opts\<rparr>;
             n4 = n3\<lparr>ndTriggers := ndTriggers n3 @ noTriggers opts\<rparr>;
             n5 = n4\<lparr>ndWrites := ndWrites n4 @ noWrites opts\<rparr>;
             n6 = n5\<lparr>ndFieldMapping := ndFieldMapping n5 @ noFieldMapping opts\<rparr>
         in (n6, g'\<lparr>sgNodes := fmupd name n6 (sgNodes g')\<rparr>)))"

definition WithStatePreHandler :: "'w node_func \<Rightarrow> 'w node_options \<Rightarrow> 'w node_options" where
  "WithStatePreHandler fn opts = opts\<lparr>noStatePre := Some fn\<rparr>"

definition WithStatePostHandler :: "'w node_func \<Rightarrow> 'w node_options \<Rightarrow> 'w node_options" where
  "WithStatePostHandler fn opts = opts\<lparr>noStatePost := Some fn\<rparr>"

definition WithFieldMapping :: "field_mapping list \<Rightarrow> 'w node_options \<Rightarrow> 'w node_options" where
  "WithFieldMapping ms opts = opts\<lparr>noFieldMapping := noFieldMapping opts @ ms\<rparr>"

definition MapFields :: "string \<Rightarrow> string \<Rightarrow> field_mapping" where
  "MapFields f t = \<lparr>fmFrom = f, fmTo = t\<rparr>"

definition MapTo :: "string \<Rightarrow> field_mapping" where
  "MapTo t = \<lparr>fmFrom = [], fmTo = t\<rparr>"

section \<open>Edges\<close>

text \<open>Operations that can fail return the error, if there is one, and the graph.\<close>

definition AddEdge :: "'w sgraph \<Rightarrow> string \<Rightarrow> string \<Rightarrow> gerr option \<times> 'w sgraph" where
  "AddEdge g from to =
     (if from \<notin> fmdom' (sgNodes g) \<and> from \<noteq> Start then (Some (NodeNotFoundError from), g)
      else if to \<notin> fmdom' (sgNodes g) \<and> to \<noteq> End then (Some (NodeNotFoundError to), g)
      else
        (let g1 = g\<lparr>sgEdges := sgEdges g @ [\<lparr>edFrom = from, edTo = to\<rparr>]\<rparr>;
             g2 = (if from = Start then g1\<lparr>sgEntryPoint := to\<rparr> else g1);
             g3 = (if to = End
                   then (if from \<notin> set (sgFinishPoints g2)
                         then g2\<lparr>sgFinishPoints := sgFinishPoints g2 @ [from]\<rparr> else g2)
                   else g2)
         in (None, g3)))"

text \<open>\<open>ms\<close> lists the entries of the mapping in the order the loop visits them.\<close>

fun targets_check :: "'w sgraph \<Rightarrow> (string \<times> string) list \<Rightarrow> gerr option" where
  "targets_check g [] = None"
| "targets_check g ((k, target) # ms) =
     (if target \<notin> fmdom' (sgNodes g) \<and> target \<noteq> End then Some (NodeNotFoundError target)
      else targets_check g ms)"

definition AddConditionalEdges ::
  "'w sgraph \<Rightarrow> string \<Rightarrow> 'w edge_func \<Rightarrow> (string, string) fmap \<Rightarrow> (string \<times> string) list
   \<Rightarrow> gerr option \<times> 'w sgraph"
where
  "AddConditionalEdges g from condition mapping ms =
     (if from \<notin> fmdom' (sgNodes g) then (Some (NodeNotFoundError from), g)
      else (case targets_check g ms of
          Some e \<Rightarrow> (Some e, g)
        | None \<Rightarrow> (None, g\<lparr>sgConditionalEdges := sgConditionalEdges g @
            [\<lparr>ceFrom = from, ceCondition = condition, ceMapping = mapping\<rparr>]\<rparr>)))"

definition AddBranch ::
  "'w sgraph \<Rightarrow> string \<Rightarrow> 'w edge_func \<Rightarrow> (gval \<Rightarrow> string list) \<Rightarrow> gerr option \<times> 'w sgraph"
where
  "AddBranch g from condition thn =
     (if from \<notin> fmdom' (sgNodes g) then (Some (NodeNotFoundError from), g)
      else (None, g\<lparr>sgBranches := sgBranches g @
             [\<lparr>brFrom = from, brCondition = condition, brThen = thn\<rparr>]\<rparr>))"

definition AddDataEdge ::
  "'w sgraph \<Rightarrow> string \<Rightarrow> string \<Rightarrow> field_mapping list \<Rightarrow> gerr option \<times> 'w sgraph"
where
  "AddDataEdge g from to mappings =
     (if from \<notin> fmdom' (sgNodes g) \<and> from \<noteq> Start then (Some (NodeNotFoundError from), g)
      else if to \<notin> fmdom' (sgNodes g) \<and> to \<noteq> End then (Some (NodeNotFoundError to), g)
      else (None, g\<lparr>sgDataEdges := sgDataEdges g @ [\<lparr>deFrom = from, deTo = to, deMapping = mappings\<rparr>]\<rparr>))"

definition GetNode :: "'w sgraph \<Rightarrow> string \<Rightarrow> 'w node option" where
  "GetNode g name = fmlookup (sgNodes g) name"

definition SetNodeTriggerMode :: "'w sgraph \<Rightarrow> trigger_mode \<Rightarrow> 'w sgraph" where
  "SetNodeTriggerMode g mode = g\<lparr>sgNodeTriggerMode := mode\<rparr>"

definition SetEntryPoint :: "'w sgraph \<Rightarrow> string \<Rightarrow> gerr option \<times> 'w sgraph" where
  "SetEntryPoint g node =
     (if node \<notin> fmdom' (sgNodes g) then (Some (NodeNotFoundError node), g)
      else (None, g\<lparr>sgEntryPoint := node\<rparr>))"

definition SetFinishPoint :: "'w sgraph \<Rightarrow> string \<Rightarrow> gerr option \<times> 'w sgraph" where
  "SetFinishPoint g node =
     (if node \<notin> fmdom' (sgNodes g) then (Some (NodeNotFoundError node), g)
      else (None, g\<lparr>sgFinishPoints := sgFinishPoints g @ [node]\<rparr>))"

section \<open>Channels of the graph\<close>

text \<open>The channel argument has type \<open>interface{}\<close>: \<open>None\<close> is a value that is no channel.\<close>

definition AddChannel :: "'w sgraph \<Rightarrow> string \<Rightarrow> channel option \<Rightarrow> 'w sgraph" where
  "AddChannel g name ch = (case ch of None \<Rightarrow> g
     | Some c \<Rightarrow> g\<lparr>sgChannels := fmupd name (ch_SetKey c name) (sgChannels g)\<rparr>)"

definition SetReducer :: "'w sgraph \<Rightarrow> string \<Rightarrow> binary_operator \<Rightarrow> 'w sgraph" where
  "SetReducer g name r =
     (let g1 = (case fmlookup (sgChannels g) name of
                  None \<Rightarrow> g
                | Some c \<Rightarrow> g\<lparr>sgChannels := fmupd name (ChReducer c r) (sgChannels g)\<rparr>)
      in g1\<lparr>sgReducers := fmupd name r (sgReducers g1)\<rparr>)"

definition AddChannelWithReducer ::
  "'w sgraph \<Rightarrow> string \<Rightarrow> channel option \<Rightarrow> binary_operator option \<Rightarrow> 'w sgraph"
where
  "AddChannelWithReducer g name ch r = (case ch of None \<Rightarrow> g
     | Some c \<Rightarrow>
         (case r of
            Some f \<Rightarrow> g\<lparr>sgChannels := fmupd name (ChReducer (ch_SetKey c name) f) (sgChannels g),
                       sgReducers := fmupd name f (sgReducers g)\<rparr>
          | None \<Rightarrow> g\<lparr>sgChannels := fmupd name (ch_SetKey c name) (sgChannels g)\<rparr>))"

section \<open>Reachability\<close>

text \<open>
  \<open>ord\<close> is the order in which ranging over a conditional edge's mapping visits the entries.
  The candidates of a node, in the order the two loops of \<open>computeReachable\<close> meet them.
\<close>

type_synonym map_order = "(string, string) fmap \<Rightarrow> (string \<times> string) list"

definition edge_targets :: "'w sgraph \<Rightarrow> string \<Rightarrow> string list" where
  "edge_targets g current = map edTo (filter (\<lambda>e. edFrom e = current \<and> edTo e \<noteq> End) (sgEdges g))"

definition cond_targets :: "map_order \<Rightarrow> 'w sgraph \<Rightarrow> string \<Rightarrow> string list" where
  "cond_targets ord g current =
     concat (map (\<lambda>c. filter (\<lambda>t. t \<in> fmdom' (sgNodes g) \<and> t \<noteq> End) (map snd (ord (ceMapping c))))
       (filter (\<lambda>c. ceFrom c = current) (sgConditionalEdges g)))"

fun visit :: "string list \<Rightarrow> string set \<Rightarrow> string list \<Rightarrow> string set \<times> string list" where
  "visit [] reachable queue = (reachable, queue)"
| "visit (t # ts) reachable queue =
     (if t \<notin> reachable then visit ts (insert t reachable) (queue @ [t]) else visit ts reachable queue)"

definition reach_candidates :: "map_order \<Rightarrow> 'w sgraph \<Rightarrow> string \<Rightarrow> string list" where
  "reach_candidates ord g current = edge_targets g current @ cond_targets ord g current"

definition reach_universe :: "'w sgraph \<Rightarrow> string set" where
  "reach_universe g = edTo ` set (sgEdges g) \<union> fmdom' (sgNodes g)"

lemma finite_reach_universe [simp]: "finite (reach_universe g)"
  by (simp add: reach_universe_def)

lemma reach_candidates_universe: "set (reach_candidates ord g c) \<subseteq> reach_universe g"
  by (auto simp: reach_candidates_def edge_targets_def cond_targets_def reach_universe_def)

lemma visit_spec:
  "\<exists>new. visit ts R q = (R \<union> set ts, q @ new) \<and> distinct new \<and> set new = set ts - R"
proof (induction ts arbitrary: R q)
  case Nil
  show ?case by simp
next
  case (Cons t ts)
  show ?case
  proof (cases "t \<in> R")
    case True
    with Cons.IH[of R q] show ?thesis by (auto simp: insert_absorb)
  next
    case False
    from Cons.IH[of "insert t R" "q @ [t]"] obtain new where
      "visit ts (insert t R) (q @ [t]) = (insert t R \<union> set ts, (q @ [t]) @ new)"
      "distinct new" "set new = set ts - insert t R" by blast
    with False show ?thesis by (intro exI[of _ "t # new"]) auto
  qed
qed

lemma visit_decreases:
  assumes "visit ts R q = (R', q')" and "set ts \<subseteq> U" and "finite U"
  shows "2 * card (U - R') + length q' \<le> 2 * card (U - R) + length q"
proof -
  from visit_spec[of ts R q] assms(1) obtain new where
    new: "R' = R \<union> set ts" "q' = q @ new" "distinct new" "set new = set ts - R" by auto
  have "card (U - R) = card (U - R') + card (set new)"
    using assms(2,3) new by (subst card_Un_disjoint[symmetric]) (auto intro: finite_subset arg_cong[where f = card])
  moreover have "card (set new) = length new" using new(3) by (rule distinct_card)
  ultimately show ?thesis using new(2) by simp
qed

function reach_loop :: "map_order \<Rightarrow> 'w sgraph \<Rightarrow> string set \<Rightarrow> string list \<Rightarrow> string set" where
  "reach_loop ord g reachable [] = reachable"
| "reach_loop ord g reachable (current # queue) =
     (case visit (edge_targets g current) reachable queue of
        (reachable1, queue1) \<Rightarrow>
          (case visit (cond_targets ord g current) reachable1 queue1 of
             (reachable2, queue2) \<Rightarrow> reach_loop ord g reachable2 queue2))"
  by pat_completeness auto
termination
proof (relation "measure (\<lambda>(ord, g, R, q). 2 * card (reach_universe g - R) + length q)", goal_cases)
  case 1
  show ?case by simp
next
  case (2 ord g R current q R1 q1 R2 q2)
  have "set (edge_targets g current) \<subseteq> reach_universe g" "set (cond_targets ord g current) \<subseteq> reach_universe g"
    using reach_candidates_universe[of ord g current] by (simp_all add: reach_candidates_def)
  then have "2 * card (reach_universe g - R1) + length q1 \<le> 2 * card (reach_universe g - R) + length q"
    and "2 * card (reach_universe g - R2) + length q2 \<le> 2 * card (reach_universe g - R1) + length q1"
    using visit_decreases[OF 2(1)[symmetric]] visit_decreases[OF 2(2)[symmetric]] by simp_all
  then show ?case by simp
qed

definition computeReachable :: "map_order \<Rightarrow> 'w sgraph \<Rightarrow> string set" where
  "computeReachable ord g = (if sgEntryPoint g = [] then {}
     else reach_loop ord g {sgEntryPoint g} [sgEntryPoint g])"

section \<open>Validation and compilation\<close>

definition ValidateStateSchema :: "golib \<Rightarrow> 'w sgraph \<Rightarrow> gerr option" where
  "ValidateStateSchema L g = (case validateStateSchema L (sgStateSchema g) of Inl e \<Rightarrow> Some e | Inr _ \<Rightarrow> None)"

text \<open>\<open>ns\<close> lists the node names in the order the loop visits them.\<close>

definition Validate :: "golib \<Rightarrow> map_order \<Rightarrow> string list \<Rightarrow> 'w sgraph \<Rightarrow> gerr option" where
  "Validate L ord ns g =
     (if sgEntryPoint g = [] then Some (ErrorString ''no entry point set'')
      else if length (sgFinishPoints g) = 0 then Some (ErrorString ''no finish points set'')
      else (case find (\<lambda>n. n \<notin> computeReachable ord g) ns of
          Some n \<Rightarrow> Some (ErrorString (''node '' @ n @ '' is not reachable from entry point''))
        | None \<Rightarrow> map_option (WrapError ''state schema validation failed'') (ValidateStateSchema L g)))"

text \<open>\<open>fis\<close> lists the entries of the schema's field map in the order of the loop.\<close>

fun configure_loop :: "(string \<times> field_info) list \<Rightarrow> 'w sgraph \<Rightarrow> 'w sgraph" where
  "configure_loop [] g = g"
| "configure_loop ((name, info) # fis) g =
     (let g1 = (if name \<notin> fmdom' (sgChannels g)
                then g\<lparr>sgChannels := fmupd name (fiChannel info) (sgChannels g)\<rparr> else g);
          g2 = (case fiAnnotation info of
                  None \<Rightarrow> g1
                | Some a \<Rightarrow> (case anReducer a of
                    None \<Rightarrow> g1
                  | Some r \<Rightarrow> g1\<lparr>sgReducers := fmupd name r (sgReducers g1)\<rparr>))
      in configure_loop fis g2)"

definition configureChannelsFromSchema ::
  "golib \<Rightarrow> ((string, field_info) fmap \<Rightarrow> (string \<times> field_info) list) \<Rightarrow> 'w sgraph \<Rightarrow> gerr option \<times> 'w sgraph"
where
  "configureChannelsFromSchema L fo g =
     (case validateStateSchema L (sgStateSchema g) of
        Inl e \<Rightarrow> (Some e, g)
      | Inr infos \<Rightarrow> (None, configure_loop (fo infos) g))"

text \<open>\<open>'c\<close> is the type of checkpointers.\<close>

record ('w, 'c) compiled =
  cgGraph :: "'w sgraph"
  cgCheckpointer :: "'c option"
  cgInterrupts :: "string set"
  cgInterruptsAfter :: "string set"
  cgRecursionLimit :: int
  cgDebug :: bool
  cgNodeTriggerMode :: trigger_mode

type_synonym ('w, 'c) compile_option = "('w, 'c) compiled \<Rightarrow> ('w, 'c) compiled"

definition WithCheckpointer :: "'c \<Rightarrow> ('w, 'c) compile_option" where
  "WithCheckpointer cp cg = cg\<lparr>cgCheckpointer := Some cp\<rparr>"

definition WithInterrupts :: "string list \<Rightarrow> ('w, 'c) compile_option" where
  "WithInterrupts nodes cg = cg\<lparr>cgInterrupts := cgInterrupts cg \<union> set nodes\<rparr>"

definition WithInterruptsAfter :: "string list \<Rightarrow> ('w, 'c) compile_option" where
  "WithInterruptsAfter nodes cg = cg\<lparr>cgInterruptsAfter := cgInterruptsAfter cg \<union> set nodes\<rparr>"

definition WithRecursionLimit :: "int \<Rightarrow> ('w, 'c) compile_option" where
  "WithRecursionLimit limit cg = cg\<lparr>cgRecursionLimit := limit\<rparr>"

definition WithDebug :: "bool \<Rightarrow> ('w, 'c) compile_option" where
  "WithDebug b cg = cg\<lparr>cgDebug := b\<rparr>"

definition WithNodeTriggerMode :: "trigger_mode \<Rightarrow> ('w, 'c) compile_option" where
  "WithNodeTriggerMode mode cg = cg\<lparr>cgNodeTriggerMode := mode\<rparr>"

text \<open>
  The compiled graph points to the graph it was built from, so the trigger mode set last shows
  in both.
\<close>

definition Compile ::
  "golib \<Rightarrow> map_order \<Rightarrow> string list \<Rightarrow> ((string, field_info) fmap \<Rightarrow> (string \<times> field_info) list)
   \<Rightarrow> 'w sgraph \<Rightarrow> ('w, 'c) compile_option list \<Rightarrow> (gerr + ('w, 'c) compiled) \<times> 'w sgraph"
where
  "Compile L ord ns fo g opts =
     (case Validate L ord ns g of
        Some e \<Rightarrow> (Inl (WrapError ''graph validation failed'' e), g)
      | None \<Rightarrow>
          (case configureChannelsFromSchema L fo g of
             (Some e, g1) \<Rightarrow> (Inl (WrapError ''failed to configure channels from schema'' e), g1)
           | (None, g1) \<Rightarrow>
               (let cg0 = \<lparr>cgGraph = g1, cgCheckpointer = None, cgInterrupts = {},
                           cgInterruptsAfter = {}, cgRecursionLimit = DefaultRecursionLimit,
                           cgDebug = False, cgNodeTriggerMode = NodeTriggerAnyPredecessor\<rparr>;
                    cg = fold (\<lambda>opt c. opt c) opts cg0;
                    g2 = g1\<lparr>sgNodeTriggerMode := cgNodeTriggerMode cg\<rparr>
                in (Inr (cg\<lparr>cgGraph := g2\<rparr>), g2))))"

section \<open>The search finds what can be reached\<close>

definition map_order_ok :: "map_order \<Rightarrow> bool" where
  "map_order_ok ord \<longleftrightarrow> (\<forall>m. entries m (ord m))"

text \<open>What an execution that follows edges and conditional edges can reach.\<close>

inductive reaches :: "'w sgraph \<Rightarrow> string \<Rightarrow> bool" for g where
  entry: "sgEntryPoint g \<noteq> [] \<Longrightarrow> reaches g (sgEntryPoint g)"
| edge: "reaches g (edFrom e) \<Longrightarrow> e \<in> set (sgEdges g) \<Longrightarrow> edTo e \<noteq> End \<Longrightarrow> reaches g (edTo e)"
| cond: "reaches g (ceFrom c) \<Longrightarrow> c \<in> set (sgConditionalEdges g) \<Longrightarrow>
    fmlookup (ceMapping c) k = Some t \<Longrightarrow> t \<in> fmdom' (sgNodes g) \<Longrightarrow> t \<noteq> End \<Longrightarrow> reaches g t"

inductive_cases reaches_End: "reaches g End"

lemma cond_targets_iff:
  assumes "map_order_ok ord"
  shows "t \<in> set (cond_targets ord g a) \<longleftrightarrow>
    (\<exists>c \<in> set (sgConditionalEdges g). ceFrom c = a \<and> (\<exists>k. fmlookup (ceMapping c) k = Some t)
       \<and> t \<in> fmdom' (sgNodes g) \<and> t \<noteq> End)"
proof -
  have "t \<in> snd ` set (ord m) \<longleftrightarrow> (\<exists>k. fmlookup m k = Some t)" for m
    using assms entries_values[of m "ord m" t] by (simp add: map_order_ok_def)
  then show ?thesis unfolding cond_targets_def by auto
qed

lemma candidate_reaches:
  assumes "map_order_ok ord" and "reaches g a" and "t \<in> set (reach_candidates ord g a)"
  shows "reaches g t"
proof -
  from assms(3) consider "t \<in> set (edge_targets g a)" | "t \<in> set (cond_targets ord g a)"
    by (auto simp: reach_candidates_def)
  then show ?thesis
  proof cases
    case 1
    with assms(2) show ?thesis by (auto simp: edge_targets_def intro: reaches.edge)
  next
    case 2
    with assms(1,2) show ?thesis by (auto simp: cond_targets_iff intro: reaches.cond)
  qed
qed

lemma reach_step:
  assumes "visit (edge_targets g a) R q = (R1, q1)" and "visit (cond_targets ord g a) R1 q1 = (R2, q2)"
  shows "R2 = R \<union> set (reach_candidates ord g a)"
    and "set q2 = set q \<union> (set (reach_candidates ord g a) - R)"
  using visit_spec[of "edge_targets g a" R q] visit_spec[of "cond_targets ord g a" R1 q1] assms
  by (auto simp: reach_candidates_def)

lemma reach_loop_closed:
  assumes "map_order_ok ord" and "\<forall>n \<in> R. reaches g n" and "set q \<subseteq> R"
    and "\<forall>a \<in> R - set q. set (reach_candidates ord g a) \<subseteq> R"
  shows "R \<subseteq> reach_loop ord g R q \<and> (\<forall>n \<in> reach_loop ord g R q. reaches g n) \<and>
    (\<forall>a \<in> reach_loop ord g R q. set (reach_candidates ord g a) \<subseteq> reach_loop ord g R q)"
  using assms
proof (induction ord g R q rule: reach_loop.induct)
  case (1 ord g R)
  then show ?case by simp
next
  case (2 ord g R a q)
  obtain R1 q1 where v1: "visit (edge_targets g a) R q = (R1, q1)"
    by (cases "visit (edge_targets g a) R q")
  obtain R2 q2 where v2: "visit (cond_targets ord g a) R1 q1 = (R2, q2)"
    by (cases "visit (cond_targets ord g a) R1 q1")
  note st = reach_step[OF v1 v2]
  have a: "reaches g a" using 2(3,4) by simp
  have "\<forall>n \<in> R2. reaches g n" using 2(2,3) candidate_reaches[OF 2(2) a] st(1) by blast
  moreover have "set q2 \<subseteq> R2" using 2(4) st by auto
  moreover have "\<forall>b \<in> R2 - set q2. set (reach_candidates ord g b) \<subseteq> R2"
    using 2(5) st by auto
  ultimately have "R2 \<subseteq> reach_loop ord g R2 q2 \<and> (\<forall>n \<in> reach_loop ord g R2 q2. reaches g n) \<and>
      (\<forall>b \<in> reach_loop ord g R2 q2. set (reach_candidates ord g b) \<subseteq> reach_loop ord g R2 q2)"
    by (intro 2(1)[OF v1[symmetric] v2[symmetric]] 2(2)) auto
  then show ?case using v1 v2 st by auto
qed

lemma computeReachable_iff:
  assumes "map_order_ok ord"
  shows "n \<in> computeReachable ord g \<longleftrightarrow> reaches g n"
proof (cases "sgEntryPoint g = []")
  case True
  have "\<not> reaches g n"
  proof
    assume "reaches g n"
    then show False using True by induction auto
  qed
  with True show ?thesis by (simp add: computeReachable_def)
next
  case False
  let ?X = "reach_loop ord g {sgEntryPoint g} [sgEntryPoint g]"
  have X: "sgEntryPoint g \<in> ?X" "\<forall>n \<in> ?X. reaches g n" "\<forall>a \<in> ?X. set (reach_candidates ord g a) \<subseteq> ?X"
    using reach_loop_closed[OF assms, of "{sgEntryPoint g}" g "[sgEntryPoint g]"] reaches.entry[OF False]
    by auto
  have "n \<in> ?X" if "reaches g n"
    using that
  proof induction
    case entry
    show ?case by (rule X(1))
  next
    case (edge e)
    then have "edTo e \<in> set (reach_candidates ord g (edFrom e))"
      by (auto simp: reach_candidates_def edge_targets_def)
    with edge X(3) show ?case by blast
  next
    case (cond c k t)
    then have "t \<in> set (reach_candidates ord g (ceFrom c))"
      by (auto simp: reach_candidates_def cond_targets_iff[OF assms])
    with cond X(3) show ?case by blast
  qed
  with X(2) False show ?thesis by (auto simp: computeReachable_def)
qed

section \<open>Well-formed graphs\<close>

definition wf_graph :: "'w sgraph \<Rightarrow> bool" where
  "wf_graph g \<longleftrightarrow>
     (\<forall>n nd. fmlookup (sgNodes g) n = Some nd \<longrightarrow> ndName nd = n) \<and>
     (\<forall>e \<in> set (sgEdges g). edFrom e \<in> insert Start (fmdom' (sgNodes g)) \<and> edTo e \<in> insert End (fmdom' (sgNodes g))) \<and>
     (\<forall>e \<in> set (sgDataEdges g). deFrom e \<in> insert Start (fmdom' (sgNodes g)) \<and> deTo e \<in> insert End (fmdom' (sgNodes g))) \<and>
     (\<forall>c \<in> set (sgConditionalEdges g). ceFrom c \<in> fmdom' (sgNodes g) \<and>
        fmran' (ceMapping c) \<subseteq> insert End (fmdom' (sgNodes g))) \<and>
     (\<forall>b \<in> set (sgBranches g). brFrom b \<in> fmdom' (sgNodes g)) \<and>
     (sgEntryPoint g = [] \<or> sgEntryPoint g \<in> insert End (fmdom' (sgNodes g))) \<and>
     set (sgFinishPoints g) \<subseteq> insert Start (fmdom' (sgNodes g))"

lemma wf_new: "wf_graph (NewStateGraph s)"
  by (simp add: wf_graph_def NewStateGraph_def)

lemma wf_put_node:
  "wf_graph g \<Longrightarrow> ndName nd = name \<Longrightarrow> wf_graph (g\<lparr>sgNodes := fmupd name nd (sgNodes g)\<rparr>)"
  by (auto simp: wf_graph_def)

lemma wf_AddNode: "wf_graph g \<Longrightarrow> wf_graph (snd (AddNode g name fn))"
  by (simp add: AddNode_def Let_def wf_put_node)

lemma wf_AddNodeWithOptions: "wf_graph g \<Longrightarrow> wf_graph (snd (AddNodeWithOptions g name fn opts))"
  by (auto simp: AddNodeWithOptions_def AddNode_def Let_def intro!: wf_put_node)

lemma wf_AddEdge: "wf_graph g \<Longrightarrow> wf_graph (snd (AddEdge g a b))"
  by (auto simp: AddEdge_def wf_graph_def Let_def)

lemma targets_check_None:
  "targets_check g ms = None \<longleftrightarrow> (\<forall>t \<in> snd ` set ms. t \<in> insert End (fmdom' (sgNodes g)))"
  by (induction g ms rule: targets_check.induct) auto

lemma wf_AddConditionalEdges:
  assumes "wf_graph g" and "entries mapping ms"
  shows "wf_graph (snd (AddConditionalEdges g a f mapping ms))"
proof -
  have "fmran' mapping \<subseteq> insert End (fmdom' (sgNodes g))" if "targets_check g ms = None"
  proof -
    have "fmran' mapping = snd ` set ms" by (rule set_eqI) (simp only: entries_values[OF assms(2)] fmlookup_ran'_iff)
    with that show ?thesis unfolding targets_check_None by blast
  qed
  with assms(1) show ?thesis
    by (auto simp: AddConditionalEdges_def wf_graph_def split: option.splits)
qed

lemma wf_AddBranch: "wf_graph g \<Longrightarrow> wf_graph (snd (AddBranch g a f thn))"
  by (auto simp: AddBranch_def wf_graph_def)

lemma wf_AddDataEdge: "wf_graph g \<Longrightarrow> wf_graph (snd (AddDataEdge g a b ms))"
  by (auto simp: AddDataEdge_def wf_graph_def)

lemma wf_SetEntryPoint: "wf_graph g \<Longrightarrow> wf_graph (snd (SetEntryPoint g n))"
  by (auto simp: SetEntryPoint_def wf_graph_def)

lemma wf_SetFinishPoint: "wf_graph g \<Longrightarrow> wf_graph (snd (SetFinishPoint g n))"
  by (auto simp: SetFinishPoint_def wf_graph_def)

lemma wf_channel_ops:
  "wf_graph g \<Longrightarrow> wf_graph (AddChannel g name ch)"
  "wf_graph g \<Longrightarrow> wf_graph (SetReducer g name r)"
  "wf_graph g \<Longrightarrow> wf_graph (AddChannelWithReducer g name ch ro)"
  "wf_graph g \<Longrightarrow> wf_graph (SetNodeTriggerMode g mode)"
  "wf_graph g \<Longrightarrow> wf_graph (WithInputSchema g s)"
  "wf_graph g \<Longrightarrow> wf_graph (WithOutputSchema g s)"
  by (auto simp: wf_graph_def AddChannel_def SetReducer_def AddChannelWithReducer_def Let_def
      SetNodeTriggerMode_def WithInputSchema_def WithOutputSchema_def split: option.splits)

lemmas wf_ops = wf_AddNode wf_AddNodeWithOptions wf_AddEdge wf_AddConditionalEdges wf_AddBranch
  wf_AddDataEdge wf_SetEntryPoint wf_SetFinishPoint wf_channel_ops

text \<open>The graphs a program can build.\<close>

inductive built :: "'w sgraph \<Rightarrow> bool" where
  new: "built (NewStateGraph s)"
| add_node: "built g \<Longrightarrow> built (snd (AddNode g name fn))"
| add_node_with_options: "built g \<Longrightarrow> built (snd (AddNodeWithOptions g name fn opts))"
| add_edge: "built g \<Longrightarrow> built (snd (AddEdge g a b))"
| add_conditional: "built g \<Longrightarrow> entries mapping ms \<Longrightarrow> built (snd (AddConditionalEdges g a f mapping ms))"
| add_branch: "built g \<Longrightarrow> built (snd (AddBranch g a f thn))"
| add_data_edge: "built g \<Longrightarrow> built (snd (AddDataEdge g a b fms))"
| set_entry: "built g \<Longrightarrow> built (snd (SetEntryPoint g n))"
| set_finish: "built g \<Longrightarrow> built (snd (SetFinishPoint g n))"
| add_channel: "built g \<Longrightarrow> built (AddChannel g name ch)"
| set_reducer: "built g \<Longrightarrow> built (SetReducer g name r)"
| add_channel_with_reducer: "built g \<Longrightarrow> built (AddChannelWithReducer g name ch ro)"
| set_mode: "built g \<Longrightarrow> built (SetNodeTriggerMode g mode)"
| input_schema: "built g \<Longrightarrow> built (WithInputSchema g s)"
| output_schema: "built g \<Longrightarrow> built (WithOutputSchema g s)"

lemma built_wf: "built g \<Longrightarrow> wf_graph g"
  by (induction rule: built.induct) (simp_all add: wf_new wf_ops)

section \<open>Validation and compilation\<close>

lemma Validate_None:
  assumes "map_order_ok ord" and "set ns = fmdom' (sgNodes g)"
  shows "Validate L ord ns g = None \<longleftrightarrow>
    sgEntryPoint g \<noteq> [] \<and> sgFinishPoints g \<noteq> [] \<and> (\<forall>n \<in> fmdom' (sgNodes g). reaches g n) \<and>
    schema_ok L (sgStateSchema g)"
proof -
  have "ValidateStateSchema L g = None \<longleftrightarrow> schema_ok L (sgStateSchema g)"
    using validateStateSchema_ok[of L "sgStateSchema g"]
    by (cases "validateStateSchema L (sgStateSchema g)") (simp_all add: ValidateStateSchema_def)
  moreover have "find (\<lambda>n. n \<notin> computeReachable ord g) ns = None \<longleftrightarrow> (\<forall>n \<in> fmdom' (sgNodes g). reaches g n)"
    by (auto simp: find_None_iff computeReachable_iff[OF assms(1)] assms(2)[symmetric])
  ultimately show ?thesis by (auto simp: Validate_def split: option.splits)
qed

lemma configure_loop_frame:
  "sgNodes (configure_loop fis g) = sgNodes g \<and> sgEdges (configure_loop fis g) = sgEdges g \<and>
   sgDataEdges (configure_loop fis g) = sgDataEdges g \<and>
   sgConditionalEdges (configure_loop fis g) = sgConditionalEdges g \<and>
   sgBranches (configure_loop fis g) = sgBranches g \<and>
   sgEntryPoint (configure_loop fis g) = sgEntryPoint g \<and>
   sgFinishPoints (configure_loop fis g) = sgFinishPoints g \<and>
   sgStateSchema (configure_loop fis g) = sgStateSchema g"
  by (induction fis g rule: configure_loop.induct) (simp_all add: Let_def split: option.splits)

lemma configure_loop_channels:
  "distinct (map fst fis) \<Longrightarrow>
   fmlookup (sgChannels (configure_loop fis g)) k =
     (case fmlookup (sgChannels g) k of Some c \<Rightarrow> Some c | None \<Rightarrow> map_option fiChannel (map_of fis k))"
proof (induction fis g rule: configure_loop.induct)
  case (1 g)
  show ?case by (simp split: option.splits)
next
  case (2 name info fis g)
  define g1 where "g1 = (if name \<notin> fmdom' (sgChannels g)
      then g\<lparr>sgChannels := fmupd name (fiChannel info) (sgChannels g)\<rparr> else g)"
  define g2 where "g2 = (case fiAnnotation info of None \<Rightarrow> g1 | Some a \<Rightarrow> (case anReducer a of
      None \<Rightarrow> g1 | Some r \<Rightarrow> g1\<lparr>sgReducers := fmupd name r (sgReducers g1)\<rparr>))"
  have ch: "sgChannels g2 = sgChannels g1" by (simp add: g2_def split: option.splits)
  have new: "map_of fis name = None" using 2(2) by (simp add: map_of_eq_None_iff)
  have "fmlookup (sgChannels (configure_loop fis g2)) k =
      (case fmlookup (sgChannels g2) k of Some c \<Rightarrow> Some c | None \<Rightarrow> map_option fiChannel (map_of fis k))"
    using 2(1)[OF refl refl] 2(2) unfolding g1_def[symmetric] g2_def[symmetric] by simp
  moreover have "configure_loop ((name, info) # fis) g = configure_loop fis g2"
    by (simp only: configure_loop.simps Let_def g1_def g2_def)
  ultimately show ?case
    using new by (auto simp: ch g1_def fmdom'_notI split: option.splits)
qed

section \<open>Properties\<close>

text \<open>
  C10: \<open>computeReachable\<close> returns exactly the nodes that a path of edges and conditional edges
  reaches from the entry point, whatever the order in which mappings are visited.
\<close>

theorem computeReachable_reaches:
  assumes "map_order_ok ord"
  shows "computeReachable ord g = {n. reaches g n}"
  using computeReachable_iff[OF assms] by blast

lemma sorted_order_ok: "map_order_ok sorted_list_of_fmap"
  by (simp add: map_order_ok_def entries_sorted)

definition echo :: "'w node_func" where
  "echo s w = (Returned s None, w)"

definition demo_graph :: "unit sgraph" where
  "demo_graph = snd (AddEdge (snd (AddEdge (snd (AddEdge (snd (AddNode (snd (AddNode
     (NewStateGraph (SchemaMap True)) ''a'' echo)) ''b'' echo))
     Start ''a'')) ''a'' ''b'')) ''b'' End)"

lemma demo_graph_simps [simp]:
  "fmdom' (sgNodes demo_graph) = {''a'', ''b''}" "sgEntryPoint demo_graph = ''a''"
  "sgEdges demo_graph = [\<lparr>edFrom = Start, edTo = ''a''\<rparr>, \<lparr>edFrom = ''a'', edTo = ''b''\<rparr>, \<lparr>edFrom = ''b'', edTo = End\<rparr>]"
  "sgFinishPoints demo_graph = [''b'']" "sgStateSchema demo_graph = SchemaMap True"
  by (auto simp: demo_graph_def AddEdge_def AddNode_def NewStateGraph_def Let_def Start_def End_def)

lemma computeReachable_reaches_witness:
  "computeReachable sorted_list_of_fmap demo_graph = {n. reaches demo_graph n}"
  by (rule computeReachable_reaches[OF sorted_order_ok])

text \<open>
  C11: in every graph that the builder's operations make, the ends of all edges, data edges,
  conditional edges and branches are nodes of the graph (or the virtual start and end), the
  entry point is a node or the virtual end, and every node is stored under its own name.
\<close>

theorem built_wf_graph: "built g \<Longrightarrow> wf_graph g"
  by (rule built_wf)

lemma built_demo: "built demo_graph"
  unfolding demo_graph_def by (intro built.intros)

lemma built_wf_graph_witness: "wf_graph demo_graph"
  by (rule built_wf_graph[OF built_demo])

text \<open>
  C12: \<open>Validate\<close> accepts a graph exactly when an entry point and a finish point are set, every
  node can be reached through edges and conditional edges, and the schema is a struct or a
  string-keyed map whose tags name known reducers.
\<close>

theorem Validate_accepts:
  assumes "map_order_ok ord" and "set ns = fmdom' (sgNodes g)"
  shows "Validate L ord ns g = None \<longleftrightarrow>
    sgEntryPoint g \<noteq> [] \<and> sgFinishPoints g \<noteq> [] \<and> (\<forall>n \<in> fmdom' (sgNodes g). reaches g n) \<and>
    schema_ok L (sgStateSchema g)"
  by (rule Validate_None[OF assms])

lemma Validate_accepts_witness:
  "Validate demo_lib sorted_list_of_fmap [''a'', ''b''] demo_graph = None \<longleftrightarrow>
    sgEntryPoint demo_graph \<noteq> [] \<and> sgFinishPoints demo_graph \<noteq> [] \<and>
    (\<forall>n \<in> fmdom' (sgNodes demo_graph). reaches demo_graph n) \<and> schema_ok demo_lib (sgStateSchema demo_graph)"
  by (rule Validate_accepts[OF sorted_order_ok]) simp

text \<open>
  C13: a graph that compiles keeps its nodes and edges and every channel it had; each exported
  field of the schema that had no channel gets the one \<open>processField\<close> makes; every node of the
  compiled graph can be reached; and the trigger mode of the options is set in the graph.
\<close>

theorem Compile_result:
  assumes ord: "map_order_ok ord" and ns: "set ns = fmdom' (sgNodes g)"
    and fo: "\<And>m. entries m (fo m)"
    and ok: "Compile L ord ns fo g opts = (Inr cg, g')"
  shows "cgGraph cg = g' \<and> sgNodes g' = sgNodes g \<and> sgEdges g' = sgEdges g \<and>
    sgNodeTriggerMode g' = cgNodeTriggerMode cg \<and>
    (\<forall>n \<in> fmdom' (sgNodes g'). reaches g n) \<and>
    (\<exists>infos. validateStateSchema L (sgStateSchema g) = Inr infos \<and>
      (\<forall>k. fmlookup (sgChannels g') k =
        (case fmlookup (sgChannels g) k of Some c \<Rightarrow> Some c | None \<Rightarrow> map_option fiChannel (fmlookup infos k))))"
proof -
  have valid: "Validate L ord ns g = None"
    using ok by (auto simp: Compile_def split: option.splits)
  with ok obtain infos where infos: "validateStateSchema L (sgStateSchema g) = Inr infos"
    by (auto simp: Compile_def configureChannelsFromSchema_def split: sum.splits)
  let ?g1 = "configure_loop (fo infos) g"
  from ok valid infos obtain mode where g': "g' = ?g1\<lparr>sgNodeTriggerMode := mode\<rparr>"
      "cgGraph cg = g'" "cgNodeTriggerMode cg = mode"
    by (auto simp: Compile_def configureChannelsFromSchema_def Let_def)
  have "map_of (fo infos) k = fmlookup infos k" for k
    using fo[of infos] unfolding entries_def by (metis fmlookup_of_list)
  then have "fmlookup (sgChannels ?g1) k = (case fmlookup (sgChannels g) k of Some c \<Rightarrow> Some c
      | None \<Rightarrow> map_option fiChannel (fmlookup infos k))" for k
    using configure_loop_channels[OF entries_distinct[OF fo[of infos]], of g k] by (simp split: option.splits)
  moreover have "\<forall>n \<in> fmdom' (sgNodes g). reaches g n" using valid Validate_None[OF ord ns] by blast
  ultimately show ?thesis using g' infos configure_loop_frame[of "fo infos" g] by simp
qed

definition demo_schema_order :: "(string, field_info) fmap \<Rightarrow> (string \<times> field_info) list" where
  "demo_schema_order = sorted_list_of_fmap"

lemma demo_reaches: "reaches demo_graph ''a''" "reaches demo_graph ''b''"
proof -
  show a: "reaches demo_graph ''a''" using reaches.entry[of demo_graph] by simp
  show "reaches demo_graph ''b''"
    using reaches.edge[of demo_graph "\<lparr>edFrom = ''a'', edTo = ''b''\<rparr>"] a by (simp add: End_def)
qed

lemma demo_Compile:
  "\<exists>cg g'. Compile demo_lib sorted_list_of_fmap [''a'', ''b''] demo_schema_order demo_graph
     ([] :: (unit, unit) compile_option list) = (Inr cg, g')"
proof -
  have "set [''a'', ''b''] = fmdom' (sgNodes demo_graph)" by simp
  from Validate_None[OF sorted_order_ok this, of demo_lib]
  have "Validate demo_lib sorted_list_of_fmap [''a'', ''b''] demo_graph = None"
    using demo_reaches by (simp add: schema_ok_def schema_elem_def)
  moreover have "validateStateSchema demo_lib (sgStateSchema demo_graph) = Inr fmempty"
    by (simp add: validateStateSchema_def schema_elem_def)
  ultimately show ?thesis by (simp add: Compile_def configureChannelsFromSchema_def Let_def)
qed

lemma Compile_result_witness:
  "\<exists>cg g'. Compile demo_lib sorted_list_of_fmap [''a'', ''b''] demo_schema_order demo_graph
     ([] :: (unit, unit) compile_option list) = (Inr cg, g') \<and> cgGraph cg = g' \<and>
     (\<forall>n \<in> fmdom' (sgNodes g'). reaches demo_graph n)"
proof -
  obtain cg g' where c: "Compile demo_lib sorted_list_of_fmap [''a'', ''b''] demo_schema_order demo_graph
     ([] :: (unit, unit) compile_option list) = (Inr cg, g')" using demo_Compile by blast
  have "set [''a'', ''b''] = fmdom' (sgNodes demo_graph)" by simp
  from Compile_result[OF sorted_order_ok this _ c] have "cgGraph cg = g' \<and> (\<forall>n \<in> fmdom' (sgNodes g'). reaches demo_graph n)"
    unfolding demo_schema_order_def using entries_sorted by blast
  with c show ?thesis by blast
qed

end
