(* ===== verification/Checkpoint.thy ===== *)
theory Checkpoint
  imports Values
begin

text \<open>
  The \<open>Checkpoint\<close> struct of \<^verbatim>\<open>checkpoint/checkpoint.go\<close>: its data, cloning, version tracking,
  the conversion to and from maps, and the JSON copies. Fresh identifiers (\<open>uuid.New\<close>) and the
  current time are arguments.
\<close>

section \<open>JSON copies\<close>

text \<open>
  \<open>json.Marshal\<close> followed by \<open>json.Unmarshal\<close> into \<open>interface{}\<close>: numbers become float64, byte
  slices base64 text, typed maps and slices their untyped forms. \<open>None\<close> is a failed marshal.
  Map keys are taken to be valid UTF-8.
\<close>

definition all_some :: "('k, 'v option) fmap \<Rightarrow> ('k, 'v) fmap option" where
  "all_some m = (if fmpred (\<lambda>_ v. v \<noteq> None) m then Some (fmmap the m) else None)"

primrec json_rt :: "golib \<Rightarrow> gval \<Rightarrow> gval option" where
  "json_rt L VNil = Some VNil"
| "json_rt L VMissing = Some (VMap fmempty)"
| "json_rt L (VBool b) = Some (VBool b)"
| "json_rt L (VInt i) = Some (VFloat (i2f L i))"
| "json_rt L (VFloat f) = map_option VFloat (json_float L f)"
| "json_rt L (VStr s) = Some (VStr (json_string L s))"
| "json_rt L (VBytes s) = Some (VStr (json_bytes L s))"
| "json_rt L (VList vs) = map_option VList (those (map (json_rt L) vs))"
| "json_rt L (VMap m) = map_option VMap (all_some (fmmap (json_rt L) m))"
| "json_rt L (VBoolMap m) = Some (VMap (fmmap VBool m))"
| "json_rt L (VIntMap m) = Some (VMap (fmmap (\<lambda>i. VFloat (i2f L i)) m))"
| "json_rt L (VIntMapMap m) = Some (VMap (fmmap (\<lambda>n. VMap (fmmap (\<lambda>i. VFloat (i2f L i)) n)) m))"
| "json_rt L (VMapList ms) = map_option (\<lambda>xs. VList (map VMap xs)) (those (map all_some (map (fmmap (json_rt L)) ms)))"
| "json_rt L (VStruct t fs) = json_other L (VStruct t fs)"
| "json_rt L (VPtr v) = json_rt L v"
| "json_rt L (VOverwrite v) = map_option (\<lambda>w. VMap (fmap_of_list [(''Value'', w)])) (json_rt L v)"
| "json_rt L (VInterrupt v i) =
     map_option (\<lambda>w. VMap (fmap_of_list [(''Value'', w), (''ID'', VStr (json_string L i))])) (json_rt L v)"
| "json_rt L (VType t) = json_other L (VType t)"
| "json_rt L (VOther t n) = json_other L (VOther t n)"

definition json_copy :: "golib \<Rightarrow> gval \<Rightarrow> gval" where
  "json_copy L v = (case json_rt L v of None \<Rightarrow> VNil | Some w \<Rightarrow> w)"

primrec deepCopy :: "golib \<Rightarrow> gval \<Rightarrow> gval" where
  "deepCopy L VNil = VNil"
| "deepCopy L VMissing = json_copy L VMissing"
| "deepCopy L (VBool b) = json_copy L (VBool b)"
| "deepCopy L (VInt i) = json_copy L (VInt i)"
| "deepCopy L (VFloat f) = json_copy L (VFloat f)"
| "deepCopy L (VStr s) = json_copy L (VStr s)"
| "deepCopy L (VBytes s) = json_copy L (VBytes s)"
| "deepCopy L (VList vs) = VList (map (deepCopy L) vs)"
| "deepCopy L (VMap m) = VMap (fmmap (deepCopy L) m)"
| "deepCopy L (VBoolMap m) = json_copy L (VBoolMap m)"
| "deepCopy L (VIntMap m) = json_copy L (VIntMap m)"
| "deepCopy L (VIntMapMap m) = json_copy L (VIntMapMap m)"
| "deepCopy L (VMapList ms) = json_copy L (VMapList ms)"
| "deepCopy L (VStruct t fs) = json_copy L (VStruct t fs)"
| "deepCopy L (VPtr v) = json_copy L (VPtr v)"
| "deepCopy L (VOverwrite v) = json_copy L (VOverwrite v)"
| "deepCopy L (VInterrupt v i) = json_copy L (VInterrupt v i)"
| "deepCopy L (VType t) = json_copy L (VType t)"
| "deepCopy L (VOther t n) = json_copy L (VOther t n)"

definition deepCopyMap :: "golib \<Rightarrow> gmap \<Rightarrow> gmap" where
  "deepCopyMap L m = fmmap (deepCopy L) m"

definition deepCopySlice :: "golib \<Rightarrow> gval list \<Rightarrow> gval list" where
  "deepCopySlice L vs = map (deepCopy L) vs"

section \<open>Data\<close>

type_synonym versions = "(string, goint) fmap"

record checkpoint_metadata =
  cmID :: string
  cmParentID :: string
  cmThreadID :: string
  cmStep :: goint
  cmCreatedAt :: int
  cmSource :: string
  cmMetadata :: gmap

definition SourceNode :: string where "SourceNode = ''node''"

record pending_write =
  pwChannel :: string
  pwValue :: gval
  pwOverwrite :: bool
  pwNode :: string
  pwTimestamp :: int
  pwTaskID :: string

definition NewPendingWrite :: "int \<Rightarrow> string \<Rightarrow> gval \<Rightarrow> bool \<Rightarrow> string \<Rightarrow> string \<Rightarrow> pending_write" where
  "NewPendingWrite now channel value ow node taskID = \<lparr>pwChannel = channel, pwValue = value,
     pwOverwrite = ow, pwNode = node, pwTimestamp = now, pwTaskID = taskID\<rparr>"

record checkpoint =
  ckID :: string
  ckVersion :: goint
  ckParentID :: string
  ckChannelVersions :: versions
  ckVersionsSeen :: "(string, versions) fmap"
  ckState :: gmap
  ckPendingWrites :: "pending_write list"
  ckMetadata :: checkpoint_metadata

definition NewCheckpoint :: "string \<Rightarrow> int \<Rightarrow> string \<Rightarrow> goint \<Rightarrow> checkpoint" where
  "NewCheckpoint uuid now threadID step =
     \<lparr>ckID = uuid, ckVersion = 0, ckParentID = [], ckChannelVersions = fmempty,
      ckVersionsSeen = fmempty, ckState = fmempty, ckPendingWrites = [],
      ckMetadata = \<lparr>cmID = uuid, cmParentID = [], cmThreadID = threadID, cmStep = step,
        cmCreatedAt = now, cmSource = SourceNode, cmMetadata = fmempty\<rparr>\<rparr>"

definition Clone :: "golib \<Rightarrow> string \<Rightarrow> int \<Rightarrow> checkpoint \<Rightarrow> checkpoint" where
  "Clone L uuid now c =
     \<lparr>ckID = uuid, ckVersion = ckVersion c, ckParentID = ckID c,
      ckChannelVersions = ckChannelVersions c, ckVersionsSeen = ckVersionsSeen c,
      ckState = fmmap (deepCopy L) (ckState c),
      ckPendingWrites = map (\<lambda>pw. pw\<lparr>pwValue := deepCopy L (pwValue pw)\<rparr>) (ckPendingWrites c),
      ckMetadata = \<lparr>cmID = uuid, cmParentID = ckID c, cmThreadID = cmThreadID (ckMetadata c),
        cmStep = cmStep (ckMetadata c), cmCreatedAt = now, cmSource = cmSource (ckMetadata c),
        cmMetadata = fmmap (deepCopy L) (cmMetadata (ckMetadata c))\<rparr>\<rparr>"

section \<open>Versions\<close>

definition IncrementChannel :: "string \<Rightarrow> checkpoint \<Rightarrow> checkpoint" where
  "IncrementChannel ch c = c\<lparr>ckChannelVersions :=
     fmupd ch (fmlookup_default 0 (ckChannelVersions c) ch + 1) (ckChannelVersions c)\<rparr>"

definition MarkSeen :: "string \<Rightarrow> string \<Rightarrow> checkpoint \<Rightarrow> checkpoint" where
  "MarkSeen node ch c =
     (let vs = (case fmlookup (ckVersionsSeen c) node of None \<Rightarrow> fmempty | Some vs \<Rightarrow> vs)
      in c\<lparr>ckVersionsSeen := fmupd node
           (fmupd ch (fmlookup_default 0 (ckChannelVersions c) ch) vs) (ckVersionsSeen c)\<rparr>)"

definition HasSeen :: "string \<Rightarrow> string \<Rightarrow> checkpoint \<Rightarrow> bool" where
  "HasSeen node ch c =
     (case fmlookup (ckVersionsSeen c) node of
        None \<Rightarrow> False
      | Some vs \<Rightarrow> (case fmlookup vs ch of
          None \<Rightarrow> False
        | Some v \<Rightarrow> v = fmlookup_default 0 (ckChannelVersions c) ch))"

definition AddPendingWrite :: "string \<Rightarrow> gval \<Rightarrow> bool \<Rightarrow> string \<Rightarrow> checkpoint \<Rightarrow> checkpoint" where
  "AddPendingWrite ch value ow node c = c\<lparr>ckPendingWrites := ckPendingWrites c @
     [\<lparr>pwChannel = ch, pwValue = value, pwOverwrite = ow, pwNode = node, pwTimestamp = 0, pwTaskID = []\<rparr>]\<rparr>"

definition ClearPendingWrites :: "checkpoint \<Rightarrow> checkpoint" where
  "ClearPendingWrites c = c\<lparr>ckPendingWrites := []\<rparr>"

section \<open>Maps\<close>

definition write_map :: "pending_write \<Rightarrow> gmap" where
  "write_map pw = fmap_of_list [(''channel'', VStr (pwChannel pw)), (''value'', pwValue pw),
     (''overwrite'', VBool (pwOverwrite pw)), (''node'', VStr (pwNode pw))]"

definition metadata_map :: "golib \<Rightarrow> checkpoint_metadata \<Rightarrow> gmap" where
  "metadata_map L m = fmap_of_list [(''id'', VStr (cmID m)), (''parent_id'', VStr (cmParentID m)),
     (''thread_id'', VStr (cmThreadID m)), (''step'', VInt (cmStep m)),
     (''created_at'', VStr (fmt_time L (cmCreatedAt m))), (''source'', VStr (cmSource m))]
     ++\<^sub>f cmMetadata m"

definition ToMap :: "golib \<Rightarrow> checkpoint \<Rightarrow> gmap" where
  "ToMap L c = fmap_of_list [(''id'', VStr (ckID c)), (''version'', VInt (ckVersion c)),
     (''parent_id'', VStr (ckParentID c)), (''channel_versions'', VIntMap (ckChannelVersions c)),
     (''versions_seen'', VIntMapMap (ckVersionsSeen c)),
     (''state'', VMap (fmmap (deepCopy L) (ckState c))),
     (''pending_writes'', VMapList (map write_map (ckPendingWrites c))),
     (''metadata'', VMap (metadata_map L (ckMetadata c)))]"

definition getString :: "gmap \<Rightarrow> string \<Rightarrow> string" where
  "getString data key = (case fmlookup data key of Some (VStr s) \<Rightarrow> s | _ \<Rightarrow> [])"

definition getInt :: "golib \<Rightarrow> gmap \<Rightarrow> string \<Rightarrow> goint \<Rightarrow> goint" where
  "getInt L data key d = (case fmlookup data key of Some (VFloat f) \<Rightarrow> f2i L f | _ \<Rightarrow> d)"

definition getBool :: "gmap \<Rightarrow> string \<Rightarrow> bool \<Rightarrow> bool" where
  "getBool data key d = (case fmlookup data key of Some (VBool b) \<Rightarrow> b | _ \<Rightarrow> d)"

text \<open>The loops that keep the entries of one dynamic type.\<close>

definition is_float :: "gval option \<Rightarrow> bool" where
  "is_float v = (case v of Some (VFloat _) \<Rightarrow> True | _ \<Rightarrow> False)"

definition is_map :: "gval option \<Rightarrow> bool" where
  "is_map v = (case v of Some (VMap _) \<Rightarrow> True | _ \<Rightarrow> False)"

definition float_entries :: "golib \<Rightarrow> gmap \<Rightarrow> versions" where
  "float_entries L m = fmmap (\<lambda>v. case v of VFloat f \<Rightarrow> f2i L f | _ \<Rightarrow> 0)
     (fmfilter (\<lambda>k. is_float (fmlookup m k)) m)"

definition seen_entries :: "golib \<Rightarrow> gmap \<Rightarrow> (string, versions) fmap" where
  "seen_entries L m = fmmap (\<lambda>v. case v of VMap n \<Rightarrow> float_entries L n | _ \<Rightarrow> fmempty)
     (fmfilter (\<lambda>k. is_map (fmlookup m k)) m)"

definition map_write :: "gmap \<Rightarrow> pending_write" where
  "map_write m = \<lparr>pwChannel = getString m ''channel'', pwValue = fmlookup_default VNil m ''value'',
     pwOverwrite = getBool m ''overwrite'' False, pwNode = getString m ''node'',
     pwTimestamp = 0, pwTaskID = []\<rparr>"

definition reserved_metadata :: "string list" where
  "reserved_metadata = [''id'', ''parent_id'', ''thread_id'', ''step'', ''created_at'', ''source'']"

definition map_metadata :: "golib \<Rightarrow> gmap \<Rightarrow> checkpoint_metadata" where
  "map_metadata L md =
     \<lparr>cmID = getString md ''id'', cmParentID = getString md ''parent_id'',
      cmThreadID = getString md ''thread_id'', cmStep = getInt L md ''step'' 0,
      cmCreatedAt =
        (let s = getString md ''created_at''
         in if s \<noteq> [] then (case parse_time L s of Some t \<Rightarrow> t | None \<Rightarrow> 0) else 0),
      cmSource = getString md ''source'',
      cmMetadata = fmfilter (\<lambda>k. k \<notin> set reserved_metadata) md\<rparr>"

definition zero_metadata :: checkpoint_metadata where
  "zero_metadata = \<lparr>cmID = [], cmParentID = [], cmThreadID = [], cmStep = 0, cmCreatedAt = 0,
     cmSource = [], cmMetadata = fmempty\<rparr>"

text \<open>\<open>FromMap\<close> never returns an error.\<close>

definition FromMap :: "golib \<Rightarrow> gmap \<Rightarrow> checkpoint" where
  "FromMap L data =
     \<lparr>ckID = getString data ''id'', ckVersion = getInt L data ''version'' 0,
      ckParentID = getString data ''parent_id'',
      ckChannelVersions = (case fmlookup data ''channel_versions'' of
         Some (VMap cv) \<Rightarrow> float_entries L cv | _ \<Rightarrow> fmempty),
      ckVersionsSeen = (case fmlookup data ''versions_seen'' of
         Some (VMap vs) \<Rightarrow> seen_entries L vs | _ \<Rightarrow> fmempty),
      ckState = (case fmlookup data ''state'' of
         Some (VMap st) \<Rightarrow> fmmap (deepCopy L) st | _ \<Rightarrow> fmempty),
      ckPendingWrites = (case fmlookup data ''pending_writes'' of
         Some (VList pws) \<Rightarrow> List.map_filter (\<lambda>pw. case pw of VMap m \<Rightarrow> Some (map_write m) | _ \<Rightarrow> None) pws
       | _ \<Rightarrow> []),
      ckMetadata = (case fmlookup data ''metadata'' of
         Some (VMap md) \<Rightarrow> map_metadata L md | _ \<Rightarrow> zero_metadata)\<rparr>"

lemmas [ckpt_defs] = IncrementChannel_def MarkSeen_def HasSeen_def AddPendingWrite_def
  ClearPendingWrites_def

section \<open>Facts\<close>

lemma json_copy_simps [simp]:
  "json_copy L (VStr s) = VStr (json_string L s)"
  "json_copy L (VBool b) = VBool b"
  "json_copy L (VInt i) = VFloat (i2f L i)"
  "json_copy L (VBytes s) = VStr (json_bytes L s)"
  "json_copy L (VIntMap m) = VMap (fmmap (\<lambda>i. VFloat (i2f L i)) m)"
  "json_copy L (VIntMapMap n) = VMap (fmmap (\<lambda>n. VMap (fmmap (\<lambda>i. VFloat (i2f L i)) n)) n)"
  by (simp_all add: json_copy_def)

lemma fmmap_fmmap [simp]: "fmmap f (fmmap g m) = fmmap (\<lambda>x. f (g x)) m"
  by (rule fmap_ext) (simp add: option.map_comp comp_def)

lemma HasSeen_MarkSeen: "HasSeen node ch (MarkSeen node ch c)"
  by (simp add: HasSeen_def MarkSeen_def Let_def)

lemma HasSeen_Increment:
  "HasSeen node ch (IncrementChannel ch' c) \<longleftrightarrow>
     (if ch = ch' then
        (\<exists>vs. fmlookup (ckVersionsSeen c) node = Some vs \<and>
           fmlookup vs ch = Some (fmlookup_default 0 (ckChannelVersions c) ch + 1))
      else HasSeen node ch c)"
  by (auto simp: HasSeen_def IncrementChannel_def split: option.splits)

lemma Increment_funpow:
  "(IncrementChannel ch ^^ n) c = c\<lparr>ckChannelVersions :=
     (if n = 0 then ckChannelVersions c
      else fmupd ch (fmlookup_default 0 (ckChannelVersions c) ch + of_nat n) (ckChannelVersions c))\<rparr>"
  by (induction n) (simp_all add: IncrementChannel_def ac_simps)

text \<open>What the conversion to a map and a JSON store keep of a checkpoint.\<close>

definition json_stable :: "golib \<Rightarrow> string set \<Rightarrow> bool" where
  "json_stable L ss \<longleftrightarrow> (\<forall>s \<in> ss. json_string L s = s)"

definition int_stable :: "golib \<Rightarrow> goint set \<Rightarrow> bool" where
  "int_stable L is \<longleftrightarrow> (\<forall>i \<in> is. f2i L (i2f L i) = i)"

definition portable :: "golib \<Rightarrow> checkpoint \<Rightarrow> bool" where
  "portable L c \<longleftrightarrow>
     json_stable L ({ckID c, ckParentID c, cmID (ckMetadata c), cmParentID (ckMetadata c),
       cmThreadID (ckMetadata c), cmSource (ckMetadata c), fmt_time L (cmCreatedAt (ckMetadata c))}
       \<union> pwChannel ` set (ckPendingWrites c) \<union> pwNode ` set (ckPendingWrites c)) \<and>
     int_stable L ({ckVersion c, cmStep (ckMetadata c)} \<union> fmran' (ckChannelVersions c)
       \<union> \<Union> (fmran' ` fmran' (ckVersionsSeen c))) \<and>
     fmt_time L (cmCreatedAt (ckMetadata c)) \<noteq> [] \<and>
     parse_time L (fmt_time L (cmCreatedAt (ckMetadata c))) = Some (cmCreatedAt (ckMetadata c)) \<and>
     list_all (\<lambda>pw. json_rt L (pwValue pw) \<noteq> None) (ckPendingWrites c) \<and>
     fmdom' (cmMetadata (ckMetadata c)) \<inter> set reserved_metadata = {}"

lemma float_entries_copy:
  "int_stable L (fmran' m) \<Longrightarrow> float_entries L (fmmap (\<lambda>i. VFloat (i2f L i)) m) = m"
proof (rule fmap_ext)
  fix k
  assume "int_stable L (fmran' m)"
  then show "fmlookup (float_entries L (fmmap (\<lambda>i. VFloat (i2f L i)) m)) k = fmlookup m k"
    by (cases "fmlookup m k") (auto simp: float_entries_def is_float_def int_stable_def dest: fmran'I)
qed

lemma seen_entries_copy:
  assumes "int_stable L (\<Union> (fmran' ` fmran' m))"
  shows "seen_entries L (fmmap (\<lambda>n. VMap (fmmap (\<lambda>i. VFloat (i2f L i)) n)) m) = m"
proof (rule fmap_ext)
  fix k
  show "fmlookup (seen_entries L (fmmap (\<lambda>n. VMap (fmmap (\<lambda>i. VFloat (i2f L i)) n)) m)) k = fmlookup m k"
  proof (cases "fmlookup m k")
    case None
    then show ?thesis by (simp add: seen_entries_def is_map_def)
  next
    case (Some n)
    then have "int_stable L (fmran' n)"
      using assms unfolding int_stable_def by (blast intro: fmran'I)
    with Some show ?thesis by (simp add: seen_entries_def is_map_def float_entries_copy)
  qed
qed

lemma all_some_map: "fmpred (\<lambda>_ v. v \<noteq> None) m \<Longrightarrow> all_some m = Some (fmmap the m)"
  by (simp add: all_some_def)

lemma write_copy:
  assumes "json_rt L (pwValue pw) = Some w"
  shows "all_some (fmmap (json_rt L) (write_map pw)) = Some (fmap_of_list
    [(''channel'', VStr (json_string L (pwChannel pw))), (''value'', w),
     (''overwrite'', VBool (pwOverwrite pw)), (''node'', VStr (json_string L (pwNode pw)))])"
proof -
  have m: "fmmap (json_rt L) (write_map pw) = fmap_of_list [(''channel'', Some (VStr (json_string L (pwChannel pw)))),
      (''value'', Some w), (''overwrite'', Some (VBool (pwOverwrite pw))), (''node'', Some (VStr (json_string L (pwNode pw))))]"
    by (rule fmap_ext) (simp add: write_map_def fmlookup_of_list assms)
  show ?thesis
    unfolding m by (subst all_some_map) (auto intro!: fmap_ext simp: fmpred_iff split: if_splits)
qed

lemma writes_copy:
  assumes "list_all (\<lambda>pw. json_rt L (pwValue pw) \<noteq> None) pws"
    and "json_stable L (pwChannel ` set pws \<union> pwNode ` set pws)"
  shows "\<exists>xs. those (map all_some (map (fmmap (json_rt L)) (map write_map pws))) = Some xs \<and>
    map map_write xs =
      map (\<lambda>pw. pw\<lparr>pwValue := json_copy L (pwValue pw), pwTimestamp := 0, pwTaskID := []\<rparr>) pws"
  using assms
proof (induction pws)
  case Nil
  show ?case by simp
next
  case (Cons pw pws)
  then obtain w where w: "json_rt L (pwValue pw) = Some w" by auto
  from Cons obtain xs where xs: "those (map all_some (map (fmmap (json_rt L)) (map write_map pws))) = Some xs"
    "map map_write xs = map (\<lambda>pw. pw\<lparr>pwValue := json_copy L (pwValue pw), pwTimestamp := 0, pwTaskID := []\<rparr>) pws"
    by (auto simp: json_stable_def)
  have "map_write (fmap_of_list [(''channel'', VStr (json_string L (pwChannel pw))), (''value'', w),
      (''overwrite'', VBool (pwOverwrite pw)), (''node'', VStr (json_string L (pwNode pw)))]) =
      pw\<lparr>pwValue := json_copy L (pwValue pw), pwTimestamp := 0, pwTaskID := []\<rparr>"
    using Cons.prems(2) w
    by (simp add: map_write_def getString_def getBool_def fmlookup_default_def json_stable_def
        json_copy_def fmlookup_of_list)
  with xs w show ?case by (auto simp: write_copy simp del: fmap_of_list_simps)
qed

lemma metadata_copy:
  assumes "json_stable L {cmID m, cmParentID m, cmThreadID m, cmSource m, fmt_time L (cmCreatedAt m)}"
    and "int_stable L {cmStep m}" and "fmt_time L (cmCreatedAt m) \<noteq> []"
    and "parse_time L (fmt_time L (cmCreatedAt m)) = Some (cmCreatedAt m)"
    and "fmdom' (cmMetadata m) \<inter> set reserved_metadata = {}"
  shows "map_metadata L (fmmap (deepCopy L) (metadata_map L m)) = m\<lparr>cmMetadata := fmmap (deepCopy L) (cmMetadata m)\<rparr>"
proof -
  have no: "fmlookup (cmMetadata m) k = None" if "k \<in> set reserved_metadata" for k
    using assms(5) that by (intro fmdom'_notD) blast
  have d: "k |\<notin>| fmdom (cmMetadata m)" if "k \<in> set reserved_metadata" for k
    using no[OF that] by (simp add: fmdom_notI)
  have custom: "fmfilter (\<lambda>k. k \<notin> set reserved_metadata) (fmmap (deepCopy L) (metadata_map L m)) =
      fmmap (deepCopy L) (cmMetadata m)"
    by (rule fmap_ext)
      (auto simp: metadata_map_def no reserved_metadata_def fmlookup_of_list fmdom_notD split: if_splits)
  show ?thesis
    unfolding map_metadata_def custom
    using assms(1-4) d
    by (simp add: getString_def getInt_def metadata_map_def reserved_metadata_def json_stable_def
        int_stable_def fmlookup_of_list)
qed

section \<open>Properties\<close>

text \<open>
  a node that has marked a channel as seen has seen it until the channel's version changes;
  as versions are 64-bit words, that is unless the channel was updated a multiple of \<open>2 ^ 64\<close>
  times since.
\<close>

theorem seen_until_updated:
  "HasSeen node ch ((IncrementChannel ch ^^ n) (MarkSeen node ch c)) \<longleftrightarrow> 2 ^ 64 dvd n"
proof -
  have "(of_nat n :: goint) = 0 \<longleftrightarrow> 2 ^ 64 dvd n" using word_of_nat_eq_0_iff[where ?'a = 64, of n] by simp
  then show ?thesis
    by (auto simp: Increment_funpow HasSeen_def MarkSeen_def Let_def)
qed

text \<open>
  a checkpoint written as a map, stored by a JSON store and read back keeps its identity,
  lineage, versions, the versions seen and its metadata; the values of the state and of the
  pending writes are their JSON copies, and the time and task of a pending write are lost.
\<close>

theorem ToMap_store_FromMap:
  assumes "portable L c"
  shows "FromMap L (deepCopyMap L (ToMap L c)) = c
    \<lparr>ckState := fmmap (\<lambda>v. deepCopy L (deepCopy L (deepCopy L v))) (ckState c),
     ckPendingWrites := map (\<lambda>pw. pw\<lparr>pwValue := json_copy L (pwValue pw), pwTimestamp := 0, pwTaskID := []\<rparr>)
       (ckPendingWrites c),
     ckMetadata := (ckMetadata c)\<lparr>cmMetadata := fmmap (deepCopy L) (cmMetadata (ckMetadata c))\<rparr>\<rparr>"
proof -
  from writes_copy[of L "ckPendingWrites c"] assms obtain xs where xs:
    "those (map all_some (map (fmmap (json_rt L)) (map write_map (ckPendingWrites c)))) = Some xs"
    "map map_write xs = map (\<lambda>pw. pw\<lparr>pwValue := json_copy L (pwValue pw), pwTimestamp := 0, pwTaskID := []\<rparr>)
       (ckPendingWrites c)"
    by (auto simp: portable_def json_stable_def)
  have pw: "json_copy L (VMapList (map write_map (ckPendingWrites c))) = VList (map VMap xs)"
    using xs(1) by (simp add: json_copy_def)
  have mf: "List.map_filter (\<lambda>pw. case pw of VMap m \<Rightarrow> Some (map_write m) | _ \<Rightarrow> None) (map VMap xs) =
      map map_write xs"
    by (induction xs) (simp_all add: map_filter_simps)
  have cv: "float_entries L (fmmap (\<lambda>i. VFloat (i2f L i)) (ckChannelVersions c)) = ckChannelVersions c"
    using assms by (intro float_entries_copy) (auto simp: portable_def int_stable_def)
  have vs: "seen_entries L (fmmap (\<lambda>n. VMap (fmmap (\<lambda>i. VFloat (i2f L i)) n)) (ckVersionsSeen c)) = ckVersionsSeen c"
    using assms by (intro seen_entries_copy) (auto simp: portable_def int_stable_def)
  have md: "map_metadata L (fmmap (deepCopy L) (metadata_map L (ckMetadata c))) =
      (ckMetadata c)\<lparr>cmMetadata := fmmap (deepCopy L) (cmMetadata (ckMetadata c))\<rparr>"
    using assms by (intro metadata_copy) (auto simp: portable_def json_stable_def int_stable_def)
  have st: "json_string L (ckID c) = ckID c" "json_string L (ckParentID c) = ckParentID c"
    "f2i L (i2f L (ckVersion c)) = ckVersion c"
    using assms by (auto simp: portable_def json_stable_def int_stable_def)
  show ?thesis
    by (simp add: FromMap_def deepCopyMap_def ToMap_def fmlookup_of_list getString_def getInt_def
        cv vs md st pw mf xs(2) comp_def)
qed

definition demo_checkpoint :: checkpoint where
  "demo_checkpoint = MarkSeen ''n'' ''x'' (IncrementChannel ''x'' (NewCheckpoint ''id'' 0 ''t'' 3))"

lemma ToMap_store_FromMap_witness:
  "FromMap demo_lib (deepCopyMap demo_lib (ToMap demo_lib demo_checkpoint)) = demo_checkpoint"
proof -
  have "portable demo_lib demo_checkpoint"
    by (simp add: portable_def demo_checkpoint_def MarkSeen_def IncrementChannel_def NewCheckpoint_def
        demo_lib_def json_stable_def int_stable_def show_int_def show_nat.simps)
  from ToMap_store_FromMap[OF this] show ?thesis
    by (simp add: demo_checkpoint_def MarkSeen_def IncrementChannel_def NewCheckpoint_def)
qed

end
