(* ===== verification/Config.thy ===== *)
theory Config
  imports Values
begin

text \<open>
  \<^verbatim>\<open>types/config.go\<close>: the configuration of a run. A Go map that may be nil is an option of a
  finite map; writing to a nil map panics, which is the result \<open>None\<close>.
\<close>

type_synonym durability = string

definition DurabilitySync :: durability where "DurabilitySync = ''sync''"
definition DurabilityAsync :: durability where "DurabilityAsync = ''async''"
definition DurabilityExit :: durability where "DurabilityExit = ''exit''"

record runnable_config =
  cfConfigurable :: "gmap option"
  cfRecursionLimit :: int
  cfTags :: "string list"
  cfMetadata :: "gmap option"
  cfRunID :: string
  cfThreadID :: string
  cfDurability :: durability

definition NewRunnableConfig :: runnable_config where
  "NewRunnableConfig = \<lparr>cfConfigurable = Some fmempty, cfRecursionLimit = 50, cfTags = [],
     cfMetadata = Some fmempty, cfRunID = [], cfThreadID = [], cfDurability = DurabilitySync\<rparr>"

text \<open>\<open>&RunnableConfig{}\<close>.\<close>

definition zero_config :: runnable_config where
  "zero_config = \<lparr>cfConfigurable = None, cfRecursionLimit = 0, cfTags = [], cfMetadata = None,
     cfRunID = [], cfThreadID = [], cfDurability = []\<rparr>"

definition cf_Get :: "runnable_config \<Rightarrow> string \<Rightarrow> gval option" where
  "cf_Get c key = (case cfConfigurable c of None \<Rightarrow> None | Some m \<Rightarrow> fmlookup m key)"

definition cf_Set :: "runnable_config \<Rightarrow> string \<Rightarrow> gval \<Rightarrow> runnable_config" where
  "cf_Set c key value =
     (let m = (case cfConfigurable c of None \<Rightarrow> fmempty | Some m \<Rightarrow> m)
      in c\<lparr>cfConfigurable := Some (fmupd key value m)\<rparr>)"

definition map_entries :: "gmap option \<Rightarrow> gmap" where
  "map_entries m = (case m of None \<Rightarrow> fmempty | Some m \<Rightarrow> m)"

definition cf_Merge :: "runnable_config \<Rightarrow> runnable_config option \<Rightarrow> runnable_config option" where
  "cf_Merge c other = (case other of
     None \<Rightarrow> Some c
   | Some d \<Rightarrow>
      (let oc = map_entries (cfConfigurable d); om = map_entries (cfMetadata d);
           c1 = (if oc = fmempty then c
                 else c\<lparr>cfConfigurable := Some (map_entries (cfConfigurable c) ++\<^sub>f oc)\<rparr>);
           c2 = (if cfRecursionLimit d > 0 then c1\<lparr>cfRecursionLimit := cfRecursionLimit d\<rparr> else c1);
           c3 = c2\<lparr>cfTags := cfTags c2 @ cfTags d\<rparr>
       in if cfMetadata c3 = None \<and> om \<noteq> fmempty then None
          else
            (let c4 = (if om = fmempty then c3
                       else c3\<lparr>cfMetadata := Some (map_entries (cfMetadata c3) ++\<^sub>f om)\<rparr>);
                 c5 = (if cfRunID d \<noteq> [] then c4\<lparr>cfRunID := cfRunID d\<rparr> else c4);
                 c6 = (if cfThreadID d \<noteq> [] then c5\<lparr>cfThreadID := cfThreadID d\<rparr> else c5);
                 c7 = (if cfDurability d \<noteq> [] \<and> cfDurability d \<noteq> DurabilitySync
                       then c6\<lparr>cfDurability := cfDurability d\<rparr> else c6)
             in Some c7)))"

definition cf_WithConfigurable :: "runnable_config \<Rightarrow> gmap option \<Rightarrow> runnable_config" where
  "cf_WithConfigurable c m = c\<lparr>cfConfigurable := m\<rparr>"

definition cf_WithRecursionLimit :: "runnable_config \<Rightarrow> int \<Rightarrow> runnable_config" where
  "cf_WithRecursionLimit c n = c\<lparr>cfRecursionLimit := n\<rparr>"

definition cf_WithTags :: "runnable_config \<Rightarrow> string list \<Rightarrow> runnable_config" where
  "cf_WithTags c ts = c\<lparr>cfTags := ts\<rparr>"

definition cf_WithMetadata :: "runnable_config \<Rightarrow> gmap option \<Rightarrow> runnable_config" where
  "cf_WithMetadata c m = c\<lparr>cfMetadata := m\<rparr>"

definition cf_WithRunID :: "runnable_config \<Rightarrow> string \<Rightarrow> runnable_config" where
  "cf_WithRunID c s = c\<lparr>cfRunID := s\<rparr>"

definition cf_WithThreadID :: "runnable_config \<Rightarrow> string \<Rightarrow> runnable_config" where
  "cf_WithThreadID c s = c\<lparr>cfThreadID := s\<rparr>"

definition cf_WithDurability :: "runnable_config \<Rightarrow> durability \<Rightarrow> runnable_config" where
  "cf_WithDurability c d = c\<lparr>cfDurability := d\<rparr>"

definition cf_GetOrEmpty :: "runnable_config \<Rightarrow> string \<Rightarrow> string" where
  "cf_GetOrEmpty c key = (case cfConfigurable c of
     None \<Rightarrow> []
   | Some m \<Rightarrow> (case fmlookup m key of Some (VStr s) \<Rightarrow> s | _ \<Rightarrow> []))"

text \<open>A patcher may be nil and may return nil.\<close>

definition PatchConfig ::
  "runnable_config option \<Rightarrow> (runnable_config option \<Rightarrow> runnable_config option) option list
   \<Rightarrow> runnable_config option"
where
  "PatchConfig config patchers =
     fold (\<lambda>p c. case p of None \<Rightarrow> c | Some f \<Rightarrow> f c) patchers
       (case config of None \<Rightarrow> Some NewRunnableConfig | Some c \<Rightarrow> Some c)"

definition EnsureConfig :: "runnable_config option \<Rightarrow> runnable_config" where
  "EnsureConfig config = (case config of None \<Rightarrow> NewRunnableConfig | Some c \<Rightarrow> c)"

fun merge_loop :: "runnable_config \<Rightarrow> runnable_config option list \<Rightarrow> runnable_config option" where
  "merge_loop result [] = Some result"
| "merge_loop result (c # cs) =
     (case cf_Merge result c of None \<Rightarrow> None | Some r \<Rightarrow> merge_loop r cs)"

definition MergeConfigs :: "runnable_config option list \<Rightarrow> runnable_config option" where
  "MergeConfigs configs = merge_loop NewRunnableConfig configs"

section \<open>Facts\<close>

lemma cf_Get_Set [simp]: "cf_Get (cf_Set c k v) k' = (if k = k' then Some v else cf_Get c k')"
  by (auto simp: cf_Get_def cf_Set_def Let_def split: option.splits)

lemma cf_GetOrEmpty_Set [simp]:
  "cf_GetOrEmpty (cf_Set c k (VStr s)) k' = (if k = k' then s else cf_GetOrEmpty c k')"
  by (auto simp: cf_GetOrEmpty_def cf_Set_def Let_def split: option.splits gval.splits)

text \<open>What a merge gives, field by field, when the receiver has its maps.\<close>

lemma cf_Merge_spec:
  assumes "cfMetadata c \<noteq> None" and "cfConfigurable c \<noteq> None"
  obtains c' where "cf_Merge c (Some d) = Some c'"
    and "cfMetadata c' \<noteq> None" and "cfConfigurable c' \<noteq> None"
    and "\<And>k. cf_Get c' k = (case cf_Get d k of None \<Rightarrow> cf_Get c k | Some v \<Rightarrow> Some v)"
    and "cfTags c' = cfTags c @ cfTags d"
    and "cfThreadID c' = (if cfThreadID d \<noteq> [] then cfThreadID d else cfThreadID c)"
    and "cfRecursionLimit c' = (if cfRecursionLimit d > 0 then cfRecursionLimit d else cfRecursionLimit c)"
    and "cfDurability c' = (if cfDurability d \<noteq> [] \<and> cfDurability d \<noteq> DurabilitySync
                            then cfDurability d else cfDurability c)"
proof -
  obtain mc mm where m: "cfConfigurable c = Some mc" "cfMetadata c = Some mm" using assms by auto
  show ?thesis
    by (rule that[OF _ _ _ _ _ _ _ _, of "the (cf_Merge c (Some d))"])
      (auto simp: cf_Merge_def Let_def m map_entries_def cf_Get_def fmlookup_dom_iff
        split: option.splits)
qed

fun last_some :: "('a \<Rightarrow> 'b option) \<Rightarrow> 'a list \<Rightarrow> 'b option" where
  "last_some f [] = None"
| "last_some f (x # xs) = (case last_some f xs of None \<Rightarrow> f x | Some v \<Rightarrow> Some v)"

lemma merge_loop_spec:
  assumes "cfMetadata c \<noteq> None" and "cfConfigurable c \<noteq> None"
  shows "\<exists>c'. merge_loop c (map Some ds) = Some c' \<and>
    (\<forall>k. cf_Get c' k = (case last_some (\<lambda>d. cf_Get d k) ds of None \<Rightarrow> cf_Get c k | Some v \<Rightarrow> Some v)) \<and>
    cfTags c' = cfTags c @ concat (map cfTags ds)"
  using assms
proof (induction ds arbitrary: c)
  case Nil
  then show ?case by simp
next
  case (Cons d ds)
  obtain c1 where c1: "cf_Merge c (Some d) = Some c1" "cfMetadata c1 \<noteq> None" "cfConfigurable c1 \<noteq> None"
    "\<And>k. cf_Get c1 k = (case cf_Get d k of None \<Rightarrow> cf_Get c k | Some v \<Rightarrow> Some v)"
    "cfTags c1 = cfTags c @ cfTags d"
    using cf_Merge_spec[OF Cons.prems] by metis
  from Cons.IH[OF c1(2,3)] obtain c' where
    c': "merge_loop c1 (map Some ds) = Some c'"
      "\<And>k. cf_Get c' k = (case last_some (\<lambda>d. cf_Get d k) ds of None \<Rightarrow> cf_Get c1 k | Some v \<Rightarrow> Some v)"
      "cfTags c' = cfTags c1 @ concat (map cfTags ds)" by blast
  show ?case
    by (rule exI[of _ c']) (auto simp: c1(1) c' c1(4,5) split: option.splits)
qed

section \<open>Properties\<close>

text \<open>
  merging configurations never fails and starts from the defaults; under each key the last
  configuration that sets it decides, and the tags of all are kept in order.
\<close>

theorem MergeConfigs_last_wins:
  "\<exists>c. MergeConfigs (map Some ds) = Some c \<and>
    (\<forall>k. cf_Get c k = last_some (\<lambda>d. cf_Get d k) ds) \<and> cfTags c = concat (map cfTags ds)"
proof -
  have "cfMetadata NewRunnableConfig \<noteq> None" "cfConfigurable NewRunnableConfig \<noteq> None"
    "\<And>k. cf_Get NewRunnableConfig k = None" "cfTags NewRunnableConfig = []"
    by (simp_all add: NewRunnableConfig_def cf_Get_def)
  moreover have "(case x of None \<Rightarrow> None | Some v \<Rightarrow> Some v) = x" for x :: "gval option"
    by (cases x) simp_all
  ultimately show ?thesis
    using merge_loop_spec[of NewRunnableConfig ds] by (simp add: MergeConfigs_def cong: option.case_cong)
qed

end
