(* ===== verification/Checkpoint_Store.thy ===== *)
theory Checkpoint_Store
  imports Checkpoint Config
begin

text \<open>
  The stores of checkpoints: \<open>CheckpointManager\<close> of \<^verbatim>\<open>checkpoint/checkpoint.go\<close> with its
  version-conflict checks, and \<open>MemorySaver\<close> of \<^verbatim>\<open>checkpoint/memory.go\<close>. The locale
  \<open>checkpointer\<close> states what the engine relies on of a saver; \<open>MemorySaver\<close> is shown to keep it.
\<close>

section \<open>CheckpointManager\<close>

record manager =
  mgCheckpoints :: "(string, checkpoint list) fmap"
  mgMaxVersions :: nat

definition NewCheckpointManager :: "int \<Rightarrow> manager" where
  "NewCheckpointManager n =
     \<lparr>mgCheckpoints = fmempty, mgMaxVersions = (if n \<le> 0 then 100 else nat n)\<rparr>"

definition thread :: "manager \<Rightarrow> string \<Rightarrow> checkpoint list" where
  "thread m t = fmlookup_default [] (mgCheckpoints m) t"

definition put_thread :: "string \<Rightarrow> checkpoint list \<Rightarrow> manager \<Rightarrow> manager" where
  "put_thread t cps m = m\<lparr>mgCheckpoints := fmupd t cps (mgCheckpoints m)\<rparr>"

definition conflict :: "checkpoint \<Rightarrow> checkpoint \<Rightarrow> string \<Rightarrow> gerr" where
  "conflict c latest t =
     VersionConflictError (sint (ckVersion c)) (sint (ckVersion latest + 1)) (ckID c) t"

definition Save :: "manager \<Rightarrow> checkpoint \<Rightarrow> gerr option \<times> manager" where
  "Save m c =
     (let t = cmThreadID (ckMetadata c); cps = thread m t in
      if cps \<noteq> [] \<and> ckParentID c \<noteq> [] \<and> ckID (last cps) \<noteq> ckParentID c
        then (Some (conflict c (last cps) t), m)
      else if cps \<noteq> [] \<and> sint (ckVersion c) > 0 \<and> ckVersion (last cps) \<noteq> ckVersion c - 1
        then (Some (conflict c (last cps) t), m)
      else
        (let cps1 = cps @ [c];
             cps2 = (if length cps1 > mgMaxVersions m
                     then drop (length cps1 - mgMaxVersions m) cps1 else cps1)
         in (None, put_thread t cps2 m)))"

fun apply_writes :: "pending_write list \<Rightarrow> checkpoint \<Rightarrow> checkpoint" where
  "apply_writes [] c = c"
| "apply_writes (w # ws) c =
     apply_writes ws (IncrementChannel (pwChannel w)
       (c\<lparr>ckState := fmupd (pwChannel w) (pwValue w) (ckState c)\<rparr>))"

definition PutWrites ::
  "golib \<Rightarrow> string \<Rightarrow> int \<Rightarrow> manager \<Rightarrow> runnable_config \<Rightarrow> pending_write list \<Rightarrow> gerr option \<times> manager"
where
  "PutWrites L uuid now m config writes =
     (let t = cfThreadID config in
      if t = [] then (Some (ErrorString ''thread ID is required for put_writes''), m)
      else if thread m t = [] then (Some (ErrorString (''no checkpoint found for thread '' @ t)), m)
      else
        (let current = last (thread m t); callerID = cf_GetOrEmpty config ''checkpoint_id'' in
         if callerID = [] then
           (Some (ErrorString (''checkpoint_id is required for put_writes on thread '' @ t)), m)
         else if callerID \<noteq> ckID current then
           (Some (VersionConflictError (sint (ckVersion current)) (sint (ckVersion current + 1))
              (ckID current) t), m)
         else
           (let new = (Clone L uuid now current)
                        \<lparr>ckVersion := ckVersion current + 1, ckParentID := ckID current\<rparr>
            in (None, put_thread t (thread m t @ [apply_writes writes new]) m))))"

definition Load :: "golib \<Rightarrow> string \<Rightarrow> int \<Rightarrow> manager \<Rightarrow> string \<Rightarrow> checkpoint option" where
  "Load L uuid now m t =
     (if thread m t = [] then None else Some (Clone L uuid now (last (thread m t))))"

text \<open>\<open>es\<close> is the order in which the threads are visited.\<close>

fun find_id :: "string \<Rightarrow> (string \<times> checkpoint list) list \<Rightarrow> checkpoint option" where
  "find_id cid [] = None"
| "find_id cid ((t, cps) # es) =
     (case find (\<lambda>c. ckID c = cid) cps of Some c \<Rightarrow> Some c | None \<Rightarrow> find_id cid es)"

definition LoadByCheckpointID ::
  "golib \<Rightarrow> string \<Rightarrow> int \<Rightarrow> (string \<times> checkpoint list) list \<Rightarrow> string \<Rightarrow> gerr + checkpoint"
where
  "LoadByCheckpointID L uuid now es cid = (case find_id cid es of
     Some c \<Rightarrow> Inr (Clone L uuid now c)
   | None \<Rightarrow> Inl (ErrorString (''checkpoint not found: '' @ cid)))"

text \<open>\<open>uuids i\<close> is the identifier drawn for the \<open>i\<close>-th clone.\<close>

definition page :: "int \<Rightarrow> nat \<Rightarrow> nat" where
  "page limit n = (if limit \<le> 0 \<or> limit > int n then n else nat limit)"

definition cm_List :: "golib \<Rightarrow> (nat \<Rightarrow> string) \<Rightarrow> int \<Rightarrow> manager \<Rightarrow> string \<Rightarrow> int \<Rightarrow> checkpoint list" where
  "cm_List L uuids now m t limit =
     (let cps = thread m t; n = page limit (length cps); start = length cps - n
      in map (\<lambda>i. Clone L (uuids i) now (cps ! (start + i))) [0..<n])"

record ckpt_tuple =
  ctConfig :: runnable_config
  ctCheckpoint :: "checkpoint option"
  ctParentConfig :: "runnable_config option"
  ctMetadata :: gmap

definition NewCheckpointTuple ::
  "runnable_config option \<Rightarrow> checkpoint option \<Rightarrow> runnable_config option \<Rightarrow> ckpt_tuple"
where
  "NewCheckpointTuple config c parentConfig =
     \<lparr>ctConfig = (case config of None \<Rightarrow> NewRunnableConfig | Some cf \<Rightarrow> cf),
      ctCheckpoint = c, ctParentConfig = parentConfig,
      ctMetadata = (case c of None \<Rightarrow> fmempty | Some c \<Rightarrow> fmap_of_list
        [(''id'', VStr (ckID c)), (''version'', VInt (ckVersion c)),
         (''thread_id'', VStr (cmThreadID (ckMetadata c))), (''step'', VInt (cmStep (ckMetadata c))),
         (''source'', VStr (cmSource (ckMetadata c))),
         (''created_at'', VOther ''time.Time'' (nat (cmCreatedAt (ckMetadata c))))])\<rparr>"

definition config_for :: "string \<Rightarrow> string \<Rightarrow> runnable_config" where
  "config_for t cid = cf_Set (NewRunnableConfig\<lparr>cfThreadID := t\<rparr>) ''checkpoint_id'' (VStr cid)"

definition GetTuple ::
  "golib \<Rightarrow> string \<Rightarrow> string \<Rightarrow> int \<Rightarrow> manager \<Rightarrow> runnable_config \<Rightarrow> gerr + ckpt_tuple"
where
  "GetTuple L uuid1 uuid2 now m config =
     (let t = cfThreadID config; cps = thread m t in
      if t = [] then Inl (ErrorString ''thread ID is required'')
      else if cps = [] then Inr (NewCheckpointTuple (Some config) None None)
      else
        (let latest = Clone L uuid1 now (last cps);
             parentConfig = (if length cps > 1
               then Some (config_for t (ckID (Clone L uuid2 now (cps ! (length cps - 2))))) else None)
         in Inr (NewCheckpointTuple (Some config) (Some latest) parentConfig)))"

fun version_index :: "goint \<Rightarrow> checkpoint list \<Rightarrow> nat \<Rightarrow> nat option" where
  "version_index v [] i = None"
| "version_index v (c # cs) i = (if ckVersion c = v then Some i else version_index v cs (Suc i))"

definition version_not_found :: "goint \<Rightarrow> gerr" where
  "version_not_found v = ErrorString (''version not found: '' @ show_int (sint v))"

definition GetTupleByVersion ::
  "golib \<Rightarrow> string \<Rightarrow> string \<Rightarrow> int \<Rightarrow> manager \<Rightarrow> runnable_config \<Rightarrow> goint \<Rightarrow> gerr + ckpt_tuple"
where
  "GetTupleByVersion L uuid1 uuid2 now m config v =
     (let t = cfThreadID config; cps = thread m t in
      if t = [] then Inl (ErrorString ''thread ID is required'')
      else (case version_index v cps 0 of
          None \<Rightarrow> Inl (version_not_found v)
        | Some i \<Rightarrow>
            (let target = Clone L uuid1 now (cps ! i);
                 parentConfig = (if i > 0
                   then Some (config_for t (ckID (Clone L uuid2 now (cps ! (i - 1))))) else None)
             in Inr (NewCheckpointTuple (Some config) (Some target) parentConfig))))"

definition GetLineage ::
  "golib \<Rightarrow> (nat \<Rightarrow> string) \<Rightarrow> int \<Rightarrow> manager \<Rightarrow> string \<Rightarrow> int \<Rightarrow> ckpt_tuple list"
where
  "GetLineage L uuids now m t limit =
     (let cps = thread m t; n = page limit (length cps)
      in map (\<lambda>i.
           let c = Clone L (uuids i) now (cps ! i);
               parentConfig = (if i > 0 then Some (config_for t (ckID (cps ! (i - 1)))) else None)
           in NewCheckpointTuple (Some (config_for t (ckID c))) (Some c) parentConfig)
         [length cps - n..<length cps])"

definition GetVersion :: "golib \<Rightarrow> string \<Rightarrow> int \<Rightarrow> manager \<Rightarrow> string \<Rightarrow> goint \<Rightarrow> gerr + checkpoint" where
  "GetVersion L uuid now m t v = (case find (\<lambda>c. ckVersion c = v) (thread m t) of
     Some c \<Rightarrow> Inr (Clone L uuid now c) | None \<Rightarrow> Inl (version_not_found v))"

fun remove_id :: "string \<Rightarrow> checkpoint list \<Rightarrow> checkpoint list option" where
  "remove_id cid [] = None"
| "remove_id cid (c # cs) =
     (if ckID c = cid then Some cs else map_option (\<lambda>r. c # r) (remove_id cid cs))"

fun Delete ::
  "manager \<Rightarrow> string \<Rightarrow> (string \<times> checkpoint list) list \<Rightarrow> gerr option \<times> manager"
where
  "Delete m cid [] = (Some (ErrorString (''checkpoint not found: '' @ cid)), m)"
| "Delete m cid ((t, cps) # es) =
     (case remove_id cid cps of
        Some cps' \<Rightarrow> (None, put_thread t cps' m)
      | None \<Rightarrow> Delete m cid es)"

definition ClearThread :: "manager \<Rightarrow> string \<Rightarrow> manager" where
  "ClearThread m t = m\<lparr>mgCheckpoints := fmdrop t (mgCheckpoints m)\<rparr>"

definition ClearAll :: "manager \<Rightarrow> manager" where
  "ClearAll m = m\<lparr>mgCheckpoints := fmempty\<rparr>"

definition RunnableConfigToMap :: "runnable_config option \<Rightarrow> gmap" where
  "RunnableConfigToMap cfg = (case cfg of None \<Rightarrow> fmempty
     | Some c \<Rightarrow> fmap_of_list [(''thread_id'', VStr (cfThreadID c)),
         (''checkpoint_id'', VStr (cf_GetOrEmpty c ''checkpoint_id'')),
         (''checkpoint_ns'', VStr (cf_GetOrEmpty c ''checkpoint_ns''))])"

section \<open>MemorySaver\<close>

record saver_entry =
  seID :: string
  seThreadID :: string
  seCheckpoint :: gmap
  seMetadata :: gmap
  seCreatedAt :: int
  seParentID :: string

record memory_saver =
  msCheckpoints :: "(string, gmap) fmap"
  msVersions :: "(string, saver_entry list) fmap"

definition NewMemorySaver :: memory_saver where
  "NewMemorySaver = \<lparr>msCheckpoints = fmempty, msVersions = fmempty\<rparr>"

definition get_str :: "gmap \<Rightarrow> string \<Rightarrow> string option" where
  "get_str cfg k = (case fmlookup cfg k of Some (VStr s) \<Rightarrow> Some s | _ \<Rightarrow> None)"

definition ms_versions :: "memory_saver \<Rightarrow> string \<Rightarrow> saver_entry list" where
  "ms_versions s t = fmlookup_default [] (msVersions s) t"

definition no_thread :: gerr where
  "no_thread = ErrorString ''thread_id is required''"

definition ms_Get :: "golib \<Rightarrow> memory_saver \<Rightarrow> gmap \<Rightarrow> gerr + gmap option" where
  "ms_Get L s cfg = (case get_str cfg ''thread_id'' of
     None \<Rightarrow> Inl no_thread
   | Some t \<Rightarrow>
      (case get_str cfg ''checkpoint_id'' of
         Some cid \<Rightarrow>
           (case find (\<lambda>e. seID e = cid) (ms_versions s t) of
              Some e \<Rightarrow> Inr (Some (deepCopyMap L (seCheckpoint e)))
            | None \<Rightarrow> Inl (ErrorString (''checkpoint not found: '' @ cid)))
       | None \<Rightarrow>
           (if ms_versions s t = [] then Inr None
            else Inr (Some (deepCopyMap L (seCheckpoint (last (ms_versions s t))))))))"

definition ms_Put :: "golib \<Rightarrow> string \<Rightarrow> int \<Rightarrow> memory_saver \<Rightarrow> gmap \<Rightarrow> gmap \<Rightarrow> gerr option \<times> memory_saver" where
  "ms_Put L uuid now s cfg cp = (case get_str cfg ''thread_id'' of
     None \<Rightarrow> (Some no_thread, s)
   | Some t \<Rightarrow>
      (let entry = \<lparr>seID = (case get_str cfg ''checkpoint_id'' of Some i \<Rightarrow> i | None \<Rightarrow> uuid),
             seThreadID = t, seCheckpoint = deepCopyMap L cp, seMetadata = deepCopyMap L cfg,
             seCreatedAt = now,
             seParentID = (case get_str cfg ''parent_checkpoint_id'' of Some p \<Rightarrow> p | None \<Rightarrow> [])\<rparr>
       in (None, s\<lparr>msVersions := fmupd t (ms_versions s t @ [entry]) (msVersions s),
                  msCheckpoints := fmupd t (deepCopyMap L cp) (msCheckpoints s)\<rparr>)))"

definition ms_List :: "golib \<Rightarrow> memory_saver \<Rightarrow> gmap \<Rightarrow> int \<Rightarrow> gerr + gmap list" where
  "ms_List L s cfg limit = (case get_str cfg ''thread_id'' of
     None \<Rightarrow> Inl no_thread
   | Some t \<Rightarrow>
      (let vs = ms_versions s t; n = page limit (length vs)
       in Inr (map (\<lambda>e. fmap_of_list [(''checkpoint_id'', VStr (seID e)), (''thread_id'', VStr (seThreadID e)),
               (''metadata'', VMap (deepCopyMap L (seMetadata e))),
               (''created_at'', VOther ''time.Time'' (nat (seCreatedAt e))),
               (''parent_id'', VStr (seParentID e))]) (take n (rev vs)))))"

definition ms_GetState :: "golib \<Rightarrow> memory_saver \<Rightarrow> gmap \<Rightarrow> gerr + (gmap \<times> gmap) option" where
  "ms_GetState L s cfg = (case get_str cfg ''thread_id'' of
     None \<Rightarrow> Inl no_thread
   | Some t \<Rightarrow>
      (case get_str cfg ''checkpoint_id'' of
         None \<Rightarrow>
           (if ms_versions s t = [] then Inr None
            else (let e = last (ms_versions s t)
                  in Inr (Some (deepCopyMap L (seCheckpoint e), deepCopyMap L (seMetadata e)))))
       | Some cid \<Rightarrow>
           (case find (\<lambda>e. seID e = cid) (ms_versions s t) of
              Some e \<Rightarrow> Inr (Some (deepCopyMap L (seCheckpoint e), deepCopyMap L (seMetadata e)))
            | None \<Rightarrow> Inl (ErrorString (''checkpoint not found: '' @ cid)))))"

section \<open>The contract of a saver\<close>

text \<open>
  A saver keeps, per thread, what was put last: a successful \<open>Put\<close> is what a later \<open>Get\<close> without a
  checkpoint identifier returns, up to the saver's copying of values, and it does not show in
  other threads.
\<close>

locale checkpointer =
  fixes Get :: "gmap \<Rightarrow> 's \<Rightarrow> gerr + gmap option"
    and Put :: "gmap \<Rightarrow> gmap \<Rightarrow> 's \<Rightarrow> gerr option \<times> 's"
    and copy :: "gmap \<Rightarrow> gmap"
  assumes put_ok: "get_str cfg ''thread_id'' = Some t \<Longrightarrow> fst (Put cfg cp s) = None"
    and get_latest: "get_str cfg ''thread_id'' = Some t \<Longrightarrow> get_str q ''thread_id'' = Some t \<Longrightarrow>
      get_str q ''checkpoint_id'' = None \<Longrightarrow> Get q (snd (Put cfg cp s)) = Inr (Some (copy cp))"
    and get_other: "get_str cfg ''thread_id'' = Some t \<Longrightarrow> get_str q ''thread_id'' = Some t' \<Longrightarrow>
      t \<noteq> t' \<Longrightarrow> Get q (snd (Put cfg cp s)) = Get q s"
begin

definition put_all :: "(gmap \<times> gmap) list \<Rightarrow> 's \<Rightarrow> 's" where
  "put_all ps s = fold (\<lambda>(cfg, cp) s. snd (Put cfg cp s)) ps s"

lemma get_put_all:
  assumes "\<forall>(cfg, cp) \<in> set ps. \<exists>t'. get_str cfg ''thread_id'' = Some t'"
    and "get_str q ''thread_id'' = Some t" and "get_str q ''checkpoint_id'' = None"
  shows "Get q (put_all ps s) =
    (let qs = filter (\<lambda>(cfg, cp). get_str cfg ''thread_id'' = Some t) ps
     in if qs = [] then Get q s else Inr (Some (copy (snd (last qs)))))"
  using assms(1)
proof (induction ps rule: rev_induct)
  case Nil
  show ?case by (simp add: put_all_def)
next
  case (snoc p ps)
  obtain cfg cp where p: "p = (cfg, cp)" by (cases p)
  from snoc.prems obtain t' where t': "get_str cfg ''thread_id'' = Some t'" by (auto simp: p)
  have step: "put_all (ps @ [p]) s = snd (Put cfg cp (put_all ps s))" by (simp add: put_all_def p)
  show ?case
  proof (cases "t' = t")
    case True
    then show ?thesis
      using get_latest[OF t'[unfolded True] assms(2,3)] t' unfolding step by (simp add: p Let_def)
  next
    case False
    then show ?thesis
      using get_other[OF t' assms(2)] snoc t' unfolding step by (simp add: p Let_def)
  qed
qed

end

lemma ms_versions_upd [simp]:
  "ms_versions (s\<lparr>msVersions := fmupd t es (msVersions s), msCheckpoints := x\<rparr>) t' =
     (if t = t' then es else ms_versions s t')"
  by (simp add: ms_versions_def)

definition saver_copy :: "golib \<Rightarrow> gmap \<Rightarrow> gmap" where
  "saver_copy L cp = deepCopyMap L (deepCopyMap L cp)"

interpretation memory: checkpointer "\<lambda>q s. ms_Get L s q" "\<lambda>cfg cp s. ms_Put L uuid now s cfg cp" "saver_copy L"
  for L uuid now
  by unfold_locales (simp_all add: ms_Put_def ms_Get_def Let_def saver_copy_def cong: option.case_cong)

section \<open>Facts on the manager\<close>

lemma thread_put [simp]: "thread (put_thread t cps m) t' = (if t = t' then cps else thread m t')"
  by (simp add: thread_def put_thread_def)

lemma maxVersions_put [simp]: "mgMaxVersions (put_thread t cps m) = mgMaxVersions m"
  by (simp add: put_thread_def)

lemma apply_writes_frame [simp]:
  "ckID (apply_writes ws c) = ckID c" "ckParentID (apply_writes ws c) = ckParentID c"
  "ckVersion (apply_writes ws c) = ckVersion c" "ckVersionsSeen (apply_writes ws c) = ckVersionsSeen c"
  "ckMetadata (apply_writes ws c) = ckMetadata c"
  by (induction ws c rule: apply_writes.induct) (simp_all add: IncrementChannel_def)

lemma apply_writes_state:
  "fmlookup (ckState (apply_writes ws c)) k =
     (case find (\<lambda>w. pwChannel w = k) (rev ws) of
        Some w \<Rightarrow> Some (pwValue w) | None \<Rightarrow> fmlookup (ckState c) k)"
proof (induction ws arbitrary: c)
  case Nil
  show ?case by simp
next
  case (Cons w ws)
  have "find P (xs @ [w]) = (case find P xs of Some x \<Rightarrow> Some x | None \<Rightarrow> if P w then Some w else None)"
    for P and xs :: "pending_write list"
    by (induction xs) auto
  then show ?case by (simp add: Cons.IH IncrementChannel_def split: option.splits)
qed

lemma apply_writes_versions:
  "fmlookup_default 0 (ckChannelVersions (apply_writes ws c)) k =
     fmlookup_default 0 (ckChannelVersions c) k + of_nat (length (filter (\<lambda>w. pwChannel w = k) ws))"
  by (induction ws c rule: apply_writes.induct) (simp_all add: IncrementChannel_def)

text \<open>Consecutive checkpoints of a thread are linked by parent and version.\<close>

definition linked :: "checkpoint \<Rightarrow> checkpoint \<Rightarrow> bool" where
  "linked a b \<longleftrightarrow> (ckParentID b = [] \<or> ckParentID b = ckID a) \<and>
     (sint (ckVersion b) \<le> 0 \<or> ckVersion b = ckVersion a + 1)"

lemma successively_drop: "successively P xs \<Longrightarrow> successively P (drop n xs)"
  using successively_append_iff[of P "take n xs" "drop n xs"] by simp

lemma Save_cases:
  obtains (fails) e where "Save m c = (Some e, m)"
  | (saves) "thread m (cmThreadID (ckMetadata c)) = [] \<or> linked (last (thread m (cmThreadID (ckMetadata c)))) c"
      "Save m c = (None, put_thread (cmThreadID (ckMetadata c))
         (drop (length (thread m (cmThreadID (ckMetadata c))) + 1 - mgMaxVersions m)
            (thread m (cmThreadID (ckMetadata c)) @ [c])) m)"
proof -
  let ?cps = "thread m (cmThreadID (ckMetadata c))"
  consider "?cps \<noteq> [] \<and> ckParentID c \<noteq> [] \<and> ckID (last ?cps) \<noteq> ckParentID c"
    | "?cps \<noteq> [] \<and> sint (ckVersion c) > 0 \<and> ckVersion (last ?cps) \<noteq> ckVersion c - 1"
    | "?cps = [] \<or> linked (last ?cps) c"
    by (fastforce simp: linked_def)
  then show ?thesis
  proof cases
    case 3
    then have "Save m c = (None, put_thread (cmThreadID (ckMetadata c))
        (drop (length ?cps + 1 - mgMaxVersions m) (?cps @ [c])) m)"
      by (auto simp: Save_def Let_def linked_def)
    with 3 saves show ?thesis by blast
  next
    case 1
    then have "Save m c = (Some (conflict c (last ?cps) (cmThreadID (ckMetadata c))), m)"
      by (simp add: Save_def Let_def)
    with fails show ?thesis by blast
  next
    case 2
    then have "Save m c = (Some (conflict c (last ?cps) (cmThreadID (ckMetadata c))), m)"
      by (simp add: Save_def Let_def)
    with fails show ?thesis by blast
  qed
qed

lemma Save_linked:
  assumes "successively linked (thread m t)"
  shows "successively linked (thread (snd (Save m c)) t)"
proof (cases rule: Save_cases[of m c])
  case fails
  with assms show ?thesis by simp
next
  case saves
  show ?thesis
  proof (cases "t = cmThreadID (ckMetadata c)")
    case True
    with saves(1) assms have "successively linked (thread m t @ [c])"
      by (auto simp: successively_append_iff)
    with saves(2) True show ?thesis by (simp add: successively_drop del: drop_append)
  next
    case False
    with saves(2) assms show ?thesis by simp
  qed
qed

lemma PutWrites_cases:
  obtains (fails) e where "PutWrites L uuid now m config ws = (Some e, m)"
  | (puts) "thread m (cfThreadID config) \<noteq> []" "cfThreadID config \<noteq> []"
      "cf_GetOrEmpty config ''checkpoint_id'' = ckID (last (thread m (cfThreadID config)))"
      "PutWrites L uuid now m config ws = (None, put_thread (cfThreadID config)
         (thread m (cfThreadID config) @ [apply_writes ws
           ((Clone L uuid now (last (thread m (cfThreadID config))))
             \<lparr>ckVersion := ckVersion (last (thread m (cfThreadID config))) + 1,
              ckParentID := ckID (last (thread m (cfThreadID config)))\<rparr>)]) m)"
proof (cases "cfThreadID config = [] \<or> thread m (cfThreadID config) = [] \<or>
    cf_GetOrEmpty config ''checkpoint_id'' = [] \<or>
    cf_GetOrEmpty config ''checkpoint_id'' \<noteq> ckID (last (thread m (cfThreadID config)))")
  case True
  then have "\<exists>e. PutWrites L uuid now m config ws = (Some e, m)" by (auto simp: PutWrites_def Let_def)
  with fails show ?thesis by blast
next
  case False
  then show ?thesis by (intro puts) (auto simp: PutWrites_def Let_def)
qed

lemma PutWrites_linked:
  assumes "successively linked (thread m t)"
  shows "successively linked (thread (snd (PutWrites L uuid now m config ws)) t)"
  by (rule PutWrites_cases[of L uuid now m config ws])
    (use assms in \<open>auto simp: successively_append_iff linked_def\<close>)

text \<open>The managers that saving, writing and clearing lead to.\<close>

inductive managed :: "manager \<Rightarrow> bool" where
  new: "managed (NewCheckpointManager n)"
| save: "managed m \<Longrightarrow> managed (snd (Save m c))"
| put_writes: "managed m \<Longrightarrow> managed (snd (PutWrites L uuid now m config ws))"
| clear_thread: "managed m \<Longrightarrow> managed (ClearThread m t)"
| clear_all: "managed m \<Longrightarrow> managed (ClearAll m)"

lemma managed_linked: "managed m \<Longrightarrow> successively linked (thread m t)"
proof (induction rule: managed.induct)
  case (new n)
  show ?case by (simp add: NewCheckpointManager_def thread_def)
next
  case (clear_thread m t')
  then show ?case by (simp add: ClearThread_def thread_def fmlookup_default_def)
next
  case (clear_all m)
  then show ?case by (simp add: ClearAll_def thread_def)
qed (simp_all add: Save_linked PutWrites_linked)

lemma Save_result:
  assumes "Save m c = (None, m')"
  shows "thread m' (cmThreadID (ckMetadata c)) =
    drop (length (thread m (cmThreadID (ckMetadata c))) + 1 - mgMaxVersions m)
      (thread m (cmThreadID (ckMetadata c)) @ [c])"
  using Save_cases[of m c] assms by (metis Pair_inject option.distinct(1) thread_put)

section \<open>Properties\<close>



text \<open>
  C17: of two writers that loaded the same checkpoint only the first gets its writes in: once
  \<open>PutWrites\<close> has succeeded for a checkpoint identifier, the same call again is a version
  conflict and changes nothing.
\<close>

theorem PutWrites_stale:
  assumes "PutWrites L uuid now m config ws = (None, m')"
    and "uuid \<noteq> cf_GetOrEmpty config ''checkpoint_id''"
  shows "\<exists>cur ex. PutWrites L uuid2 now2 m' config ws2 =
    (Some (VersionConflictError cur ex uuid (cfThreadID config)), m')"
proof (cases rule: PutWrites_cases[of L uuid now m config ws])
  case fails
  with assms(1) show ?thesis by simp
next
  case puts
  have "cf_GetOrEmpty config ''checkpoint_id'' \<noteq> []"
    using assms(1) by (auto simp: PutWrites_def Let_def split: if_splits)
  moreover have "ckID (last (thread m' (cfThreadID config))) = uuid"
    using puts(4) assms(1) by (auto simp: Clone_def)
  moreover have "thread m' (cfThreadID config) \<noteq> []" using puts(4) assms(1) by auto
  ultimately show ?thesis
    using puts(2) assms(2) by (simp add: PutWrites_def Let_def)
qed

definition demo_manager :: manager where
  "demo_manager = put_thread ''t'' [NewCheckpoint ''a'' 0 ''t'' 0] (NewCheckpointManager 1)"

lemma PutWrites_stale_witness:
  "\<exists>m' cur ex. PutWrites demo_lib ''b'' 0 demo_manager (config_for ''t'' ''a'') [] = (None, m') \<and>
     PutWrites demo_lib ''c'' 0 m' (config_for ''t'' ''a'') [] =
       (Some (VersionConflictError cur ex ''b'' ''t''), m')"
proof -
  have id: "cf_GetOrEmpty (config_for ''t'' ''a'') ''checkpoint_id'' = ''a''" "cfThreadID (config_for ''t'' ''a'') = ''t''"
    by (simp_all add: config_for_def cf_Set_def Let_def NewRunnableConfig_def cf_GetOrEmpty_def)
  obtain m' where m': "PutWrites demo_lib ''b'' 0 demo_manager (config_for ''t'' ''a'') [] = (None, m')"
    by (simp add: PutWrites_def Let_def id demo_manager_def NewCheckpoint_def)
  from PutWrites_stale[OF m'] m' show ?thesis by (auto simp: id)
qed

text \<open>
  a successful \<open>PutWrites\<close> appends one checkpoint whose version is the next one and whose
  parent is the latest; each written channel holds the last value written to it and its version
  has grown by the number of writes to it, every other channel holds a copy of its value.
\<close>

theorem PutWrites_appends:
  assumes "PutWrites L uuid now m config ws = (None, m')"
  shows "\<exists>c. thread m' (cfThreadID config) = thread m (cfThreadID config) @ [c] \<and>
    ckVersion c = ckVersion (last (thread m (cfThreadID config))) + 1 \<and>
    ckParentID c = ckID (last (thread m (cfThreadID config))) \<and>
    (\<forall>k. fmlookup (ckState c) k =
       (case find (\<lambda>w. pwChannel w = k) (rev ws) of
          Some w \<Rightarrow> Some (pwValue w)
        | None \<Rightarrow> map_option (deepCopy L) (fmlookup (ckState (last (thread m (cfThreadID config)))) k))) \<and>
    (\<forall>k. fmlookup_default 0 (ckChannelVersions c) k =
       fmlookup_default 0 (ckChannelVersions (last (thread m (cfThreadID config)))) k
       + of_nat (length (filter (\<lambda>w. pwChannel w = k) ws)))"
proof (cases rule: PutWrites_cases[of L uuid now m config ws])
  case fails
  with assms show ?thesis by simp
next
  case puts
  let ?c = "apply_writes ws
      ((Clone L uuid now (last (thread m (cfThreadID config))))
        \<lparr>ckVersion := ckVersion (last (thread m (cfThreadID config))) + 1,
         ckParentID := ckID (last (thread m (cfThreadID config)))\<rparr>)"
  from puts assms have "thread m' (cfThreadID config) = thread m (cfThreadID config) @ [?c]" by auto
  then show ?thesis
    by (intro exI[of _ ?c] conjI allI) (simp_all add: apply_writes_state apply_writes_versions Clone_def cong: option.case_cong)
qed

lemma PutWrites_appends_witness:
  "\<exists>m' c. PutWrites demo_lib ''b'' 0 demo_manager (config_for ''t'' ''a'') [NewPendingWrite 0 ''x'' (VInt 1) False ''n'' ''k''] = (None, m') \<and>
     fmlookup (ckState c) ''x'' = Some (VInt 1) \<and> thread m' ''t'' = thread demo_manager ''t'' @ [c]"
proof -
  have id: "cf_GetOrEmpty (config_for ''t'' ''a'') ''checkpoint_id'' = ''a''" "cfThreadID (config_for ''t'' ''a'') = ''t''"
    by (simp_all add: config_for_def cf_Set_def Let_def NewRunnableConfig_def cf_GetOrEmpty_def)
  let ?ws = "[NewPendingWrite 0 ''x'' (VInt 1) False ''n'' ''k'']"
  obtain m' where m': "PutWrites demo_lib ''b'' 0 demo_manager (config_for ''t'' ''a'') ?ws = (None, m')"
    by (simp add: PutWrites_def Let_def id demo_manager_def NewCheckpoint_def)
  from PutWrites_appends[OF m'] obtain c where c: "thread m' ''t'' = thread demo_manager ''t'' @ [c]"
    "fmlookup (ckState c) ''x'' = (case find (\<lambda>w. pwChannel w = ''x'') (rev ?ws) of
          Some w \<Rightarrow> Some (pwValue w)
        | None \<Rightarrow> map_option (deepCopy demo_lib) (fmlookup (ckState (last (thread demo_manager ''t''))) ''x''))"
    unfolding id by blast
  from c(2) have "fmlookup (ckState c) ''x'' = Some (VInt 1)" by (simp add: NewPendingWrite_def)
  with m' c(1) show ?thesis by blast
qed

text \<open>
  \<open>Save\<close> keeps at most the configured number of checkpoints of a thread, the newest ones.
\<close>

theorem Save_bounded:
  assumes "Save m c = (None, m')" and "0 < mgMaxVersions m"
  shows "length (thread m' (cmThreadID (ckMetadata c))) \<le> max (mgMaxVersions m) 1 \<and>
    thread m' (cmThreadID (ckMetadata c)) \<noteq> [] \<and> last (thread m' (cmThreadID (ckMetadata c))) = c"
  using Save_result[OF assms(1)] assms(2) by (auto simp: last_append)

lemma Save_bounded_witness:
  "thread (snd (Save demo_manager (NewCheckpoint ''b'' 0 ''t'' 1))) ''t'' \<noteq> []"
proof -
  obtain m' where m': "Save demo_manager (NewCheckpoint ''b'' 0 ''t'' 1) = (None, m')"
    by (simp add: Save_def Let_def NewCheckpoint_def)
  have "0 < mgMaxVersions demo_manager" by (simp add: demo_manager_def NewCheckpointManager_def)
  from Save_bounded[OF m' this] m' show ?thesis by (simp add: NewCheckpoint_def)
qed

text \<open>
  a checkpoint that was loaded cannot be written back under the identifier it carries:
  \<open>Load\<close> returns a clone with a fresh identifier, so \<open>PutWrites\<close> for that identifier is a version
  conflict.
\<close>

theorem loaded_id_conflicts:
  assumes "Load L uuid now m t = Some c" and "t \<noteq> []" and "uuid \<noteq> []"
    and "uuid \<noteq> ckID (last (thread m t))"
  shows "PutWrites L uuid2 now2 m (config_for t (ckID c)) ws =
    (Some (VersionConflictError (sint (ckVersion (last (thread m t))))
       (sint (ckVersion (last (thread m t)) + 1)) (ckID (last (thread m t))) t), m)"
proof -
  from assms(1) have "thread m t \<noteq> []" "ckID c = uuid" by (auto simp: Load_def Clone_def split: if_splits)
  moreover have "cfThreadID (config_for t i) = t" "cf_GetOrEmpty (config_for t i) ''checkpoint_id'' = i" for i
    by (simp_all add: config_for_def cf_Set_def Let_def NewRunnableConfig_def cf_GetOrEmpty_def)
  ultimately show ?thesis using assms(2-4) by (simp add: PutWrites_def Let_def)
qed

lemma loaded_id_conflicts_witness:
  "\<exists>c. Load demo_lib ''u'' 0 demo_manager ''t'' = Some c \<and>
     PutWrites demo_lib ''v'' 0 demo_manager (config_for ''t'' (ckID c)) [] =
       (Some (VersionConflictError 0 1 ''a'' ''t''), demo_manager)"
proof -
  obtain c where c: "Load demo_lib ''u'' 0 demo_manager ''t'' = Some c"
    by (simp add: Load_def demo_manager_def)
  have last: "last (thread demo_manager ''t'') = NewCheckpoint ''a'' 0 ''t'' 0" by (simp add: demo_manager_def)
  have "PutWrites demo_lib ''v'' 0 demo_manager (config_for ''t'' (ckID c)) [] =
      (Some (VersionConflictError 0 1 ''a'' ''t''), demo_manager)"
    by (subst loaded_id_conflicts[OF c]) (simp_all add: last NewCheckpoint_def)
  with c show ?thesis by blast
qed

end
