(* ===== verification/Engine_Data.thy ===== *)
theory Engine_Data
  imports Graph Checkpoint_Store
begin

text \<open>
  The data of the engine (\<^verbatim>\<open>pregel/engine.go\<close>) and its pure helpers: options, tasks and results,
  conversion of outputs to maps and of maps to the state schema, field mappings, merging of
  states, string sets, task paths, and the folding of an input key to a channel name.
\<close>

section \<open>The engine\<close>

text \<open>A checkpoint saver as the engine sees it, acting on the world.\<close>

record 'w saver =
  svGet :: "gmap \<Rightarrow> 'w \<Rightarrow> (gerr + gmap option) \<times> 'w"
  svPut :: "gmap \<Rightarrow> gmap \<Rightarrow> 'w \<Rightarrow> gerr option \<times> 'w"

record deferred_checkpoint =
  dcThreadID :: string
  dcCheckpointID :: string
  dcStep :: int
  dcCheckpoint :: gmap

text \<open>
  Stream manager, callbacks, cache, debug flag and background executor do not affect what a run
  computes and are left out.
\<close>

record 'w engine =
  egGraph :: "'w sgraph"
  egCheckpointer :: "'w saver option"
  egInterrupts :: "string set"
  egInterruptsAfter :: "string set"
  egRecursionLimit :: int
  egConfig :: "runnable_config option"
  egMaxConcurrency :: int
  egRetryPolicy :: "retry_policy option"
  egCurrentCheckpoint :: "checkpoint option"
  egChannelVersions :: versions
  egVersionsSeen :: "(string, versions) fmap"
  egDeferred :: "deferred_checkpoint list"

type_synonym 'w engine_option = "'w engine \<Rightarrow> 'w engine"

definition NewEngine :: "'w sgraph \<Rightarrow> 'w engine_option list \<Rightarrow> 'w engine" where
  "NewEngine g opts = fold (\<lambda>opt e. opt e) opts
     \<lparr>egGraph = g, egCheckpointer = None, egInterrupts = {}, egInterruptsAfter = {},
      egRecursionLimit = 25, egConfig = Some NewRunnableConfig, egMaxConcurrency = 10,
      egRetryPolicy = None, egCurrentCheckpoint = None, egChannelVersions = fmempty,
      egVersionsSeen = fmempty, egDeferred = []\<rparr>"

definition eo_WithCheckpointer :: "'w saver option \<Rightarrow> 'w engine_option" where
  "eo_WithCheckpointer cp e = e\<lparr>egCheckpointer := cp\<rparr>"

definition eo_WithInterrupts :: "string list \<Rightarrow> 'w engine_option" where
  "eo_WithInterrupts nodes e = e\<lparr>egInterrupts := egInterrupts e \<union> set nodes\<rparr>"

definition eo_WithInterruptsAfter :: "string list \<Rightarrow> 'w engine_option" where
  "eo_WithInterruptsAfter nodes e = e\<lparr>egInterruptsAfter := egInterruptsAfter e \<union> set nodes\<rparr>"

definition eo_WithRecursionLimit :: "int \<Rightarrow> 'w engine_option" where
  "eo_WithRecursionLimit limit e = e\<lparr>egRecursionLimit := limit\<rparr>"

definition eo_WithConfig :: "runnable_config option \<Rightarrow> 'w engine_option" where
  "eo_WithConfig cfg e = e\<lparr>egConfig := cfg\<rparr>"

definition eo_WithMaxConcurrency :: "int \<Rightarrow> 'w engine_option" where
  "eo_WithMaxConcurrency n e = (if n > 0 then e\<lparr>egMaxConcurrency := n\<rparr> else e)"

definition eo_WithRetryPolicy :: "retry_policy option \<Rightarrow> 'w engine_option" where
  "eo_WithRetryPolicy p e = e\<lparr>egRetryPolicy := p\<rparr>"

record 'w task =
  tkID :: string
  tkName :: string
  tkFunc :: "'w node_func option"
  tkChannels :: "string list"
  tkPath :: "string list"
  tkTriggers :: "string set"
  tkRetryPolicy :: "retry_policy option"

record task_result =
  trName :: string
  trOutput :: gval
  trErr :: "gerr option"

section \<open>Values and maps\<close>

text \<open>\<open>reflect.ValueOf(v)\<close>, dereferenced once if it is a pointer.\<close>

definition reflect_elem :: "gval \<Rightarrow> gval" where
  "reflect_elem v = (case v of
     VPtr w \<Rightarrow> w
   | VOverwrite w \<Rightarrow> VStruct ''types.Overwrite'' [(''Value'', True, w)]
   | VInterrupt w i \<Rightarrow> VStruct ''types.Interrupt'' [(''Value'', True, w), (''ID'', True, VStr i)]
   | VMissing \<Rightarrow> VStruct ''channels.missingSentinel'' []
   | VType t \<Rightarrow> VStruct ''reflect.rtype'' []
   | w \<Rightarrow> w)"

fun struct_fields :: "(string \<times> bool \<times> gval) list \<Rightarrow> gmap \<Rightarrow> gmap" where
  "struct_fields [] m = m"
| "struct_fields ((n, ex, v) # fs) m = struct_fields fs (if ex then fmupd n v m else m)"

definition toMap :: "golib \<Rightarrow> gval \<Rightarrow> gerr + gmap" where
  "toMap L val =
     (if val = VNil then Inl (ErrorString ''nil value'')
      else (case val of
        VMap m \<Rightarrow> Inr m
      | _ \<Rightarrow>
        (case reflect_elem val of
           VStruct t fs \<Rightarrow> Inr (struct_fields fs fmempty)
         | VMap m \<Rightarrow> Inr m
         | VBoolMap m \<Rightarrow> Inr (fmmap VBool m)
         | VIntMap m \<Rightarrow> Inr (fmmap VInt m)
         | VIntMapMap m \<Rightarrow> Inr (fmmap VIntMap m)
         | VOther t n \<Rightarrow> (case reflect_map L (VOther t n) of
              Some m \<Rightarrow> Inr m | None \<Rightarrow> Inr (fmupd ''__root__'' val fmempty))
         | _ \<Rightarrow> Inr (fmupd ''__root__'' val fmempty))))"

text \<open>The struct under the pointers of a schema.\<close>

fun schema_deref :: "schema \<Rightarrow> schema" where
  "schema_deref (SchemaPtr s) = schema_deref s"
| "schema_deref s = s"

definition schema_is_ptr :: "schema \<Rightarrow> bool" where
  "schema_is_ptr s = (case s of SchemaPtr _ \<Rightarrow> True | _ \<Rightarrow> False)"

text \<open>
  Filling the fields of a fresh struct. A nil value in the map has no \<open>reflect\<close> type: asking for
  it panics, which is the result \<open>None\<close>.
\<close>

fun fill_fields ::
  "golib \<Rightarrow> gmap \<Rightarrow> struct_field list \<Rightarrow> (string \<times> bool \<times> gval) list option"
where
  "fill_fields L m [] = Some []"
| "fill_fields L m (f # fs) =
     (let zero = field_zero L (tyName (sfType f));
          v = (if \<not> sfExported f then Some zero
               else (case fmlookup m (sfName f) of
                       None \<Rightarrow> Some zero
                     | Some VNil \<Rightarrow> None
                     | Some w \<Rightarrow> (case field_convert L (tyName (sfType f)) w of
                           Some x \<Rightarrow> Some x | None \<Rightarrow> Some zero)))
      in case v of
           None \<Rightarrow> None
         | Some x \<Rightarrow> map_option (\<lambda>r. (sfName f, sfExported f, x) # r) (fill_fields L m fs))"

definition mapToStateSchema :: "golib \<Rightarrow> schema \<Rightarrow> gval \<Rightarrow> gval option" where
  "mapToStateSchema L schema input =
     (case input of
        VMap m \<Rightarrow>
          (if schema = SchemaNil then Some input
           else (case schema_deref schema of
               SchemaStruct t fs \<Rightarrow>
                 map_option (\<lambda>vs. if schema_is_ptr schema then VPtr (VStruct t vs) else VStruct t vs)
                   (fill_fields L m fs)
             | _ \<Rightarrow> Some input))
      | _ \<Rightarrow> Some input)"

definition mergeStates :: "gval \<Rightarrow> gval \<Rightarrow> gval" where
  "mergeStates existing next =
     (if existing = VNil then next
      else if next = VNil then existing
      else (case (existing, next) of
          (VMap em, VMap nm) \<Rightarrow> VMap (em ++\<^sub>f nm)
        | _ \<Rightarrow> next))"

section \<open>Field mappings\<close>

fun get_path :: "gval \<Rightarrow> string list \<Rightarrow> gval" where
  "get_path cur [] = cur"
| "get_path cur (p # ps) =
     (case cur of
        VMap m \<Rightarrow>
          (let v = fmlookup_default VNil m p in if v = VNil then VNil else get_path v ps)
      | _ \<Rightarrow> VNil)"

definition getNestedField :: "gmap \<Rightarrow> string \<Rightarrow> gval" where
  "getNestedField m path = (if path = [] then VMap m else get_path (VMap m) (split_on CHR ''.'' path))"

fun set_path :: "gmap \<Rightarrow> string list \<Rightarrow> gval \<Rightarrow> gmap" where
  "set_path m [] v = m"
| "set_path m [p] v = fmupd p v m"
| "set_path m (p # q # ps) v =
     (let sub = (case fmlookup m p of Some (VMap s) \<Rightarrow> s | _ \<Rightarrow> fmempty)
      in fmupd p (VMap (set_path sub (q # ps) v)) m)"

text \<open>With an empty path the value must be a map: the type assertion panics otherwise.\<close>

definition setNestedField :: "gmap \<Rightarrow> string \<Rightarrow> gval \<Rightarrow> gmap option" where
  "setNestedField m path v =
     (if path = [] then (case v of VMap n \<Rightarrow> Some (m ++\<^sub>f n) | _ \<Rightarrow> None)
      else Some (set_path m (split_on CHR ''.'' path) v))"

fun mapping_loop :: "gmap \<Rightarrow> field_mapping list \<Rightarrow> gmap \<Rightarrow> gmap option" where
  "mapping_loop output [] result = Some result"
| "mapping_loop output (fm # fms) result =
     (let v = getNestedField output (fmFrom fm)
      in if v \<noteq> VNil
         then (case setNestedField result (fmTo fm) v of
                 None \<Rightarrow> None | Some r \<Rightarrow> mapping_loop output fms r)
         else mapping_loop output fms result)"

definition applyFieldMapping :: "gmap \<Rightarrow> field_mapping list \<Rightarrow> gmap option" where
  "applyFieldMapping output mappings =
     (if length mappings = 0 then Some output else mapping_loop output mappings fmempty)"

section \<open>String sets and task paths\<close>

definition serializeStringSet :: "string set \<Rightarrow> string" where
  "serializeStringSet S = (if S = {} then [] else join_with CHR 0x00 (sorted_list_of_set S))"

definition deserializeStringSet :: "string \<Rightarrow> string set option" where
  "deserializeStringSet s = (if s = [] then None else Some (set (split_on CHR 0x00 s)))"

definition TaskPathStr :: "string list \<Rightarrow> string" where
  "TaskPathStr path = (if length path = 0 then [] else join_with CHR ''/'' path)"

definition ParseTaskPath :: "string \<Rightarrow> string list" where
  "ParseTaskPath s = (if s = [] then [] else split_on CHR ''/'' s)"

text \<open>A component that is a string slice is spliced; \<open>Stringer\<close>s print as \<open>%v\<close> does.\<close>

datatype path_component = PathStr string | PathInt goint | PathList "string list" | PathOther gval

definition BuildTaskPath :: "golib \<Rightarrow> path_component list \<Rightarrow> string list" where
  "BuildTaskPath L cs = concat (map (\<lambda>c. case c of
     PathStr s \<Rightarrow> [s] | PathInt i \<Rightarrow> [show_int (sint i)] | PathList ps \<Rightarrow> ps | PathOther v \<Rightarrow> [fmt_v L v]) cs)"

section \<open>Input keys\<close>

definition upper_first :: "char \<Rightarrow> char" where
  "upper_first c = char_of ((of_char c :: nat) - 32)"

definition lower_first :: "char \<Rightarrow> char" where
  "lower_first c = char_of ((of_char c :: nat) + 32)"

definition is_lower :: "char \<Rightarrow> bool" where
  "is_lower c \<longleftrightarrow> 97 \<le> (of_char c :: nat) \<and> (of_char c :: nat) \<le> 122"

definition is_upper :: "char \<Rightarrow> bool" where
  "is_upper c \<longleftrightarrow> 65 \<le> (of_char c :: nat) \<and> (of_char c :: nat) \<le> 90"

definition caseFoldKey :: "registry \<Rightarrow> string \<Rightarrow> string" where
  "caseFoldKey r key = (case key of
     [] \<Rightarrow> []
   | c # cs \<Rightarrow>
       (if is_lower c \<and> rg_Get r (upper_first c # cs) \<noteq> None then upper_first c # cs
        else if is_upper c \<and> rg_Get r (lower_first c # cs) \<noteq> None then lower_first c # cs
        else []))"

end
