(* ===== verification/Engine_Step.thy ===== *)
theory Engine_Step
  imports Engine_Data
begin

text \<open>
  The parts of one superstep (\<^verbatim>\<open>pregel/engine.go\<close>): applying the input, choosing the next tasks,
  executing them, applying their writes, and saving checkpoints. What lies outside the engine is
  the record \<open>runtime\<close>; the orders in which Go maps are visited are the record \<open>orders\<close>, which
  may differ from one moment of the world to the next.
\<close>

section \<open>The surroundings of the engine\<close>

type_synonym writes = "(string, gval list) fmap"
type_synonym pendings = "(string, pending_write) fmap"

text \<open>\<open>ordTasks n\<close> is an order in which \<open>n\<close> concurrent tasks take their turns.\<close>

record orders =
  ordInput :: "gmap \<Rightarrow> (string \<times> gval) list"
  ordReg :: "registry \<Rightarrow> (string \<times> channel) list"
  ordSet :: "string set \<Rightarrow> string list"
  ordWrites :: "writes \<Rightarrow> (string \<times> gval list) list"
  ordPending :: "pendings \<Rightarrow> (string \<times> pending_write) list"
  ordTasks :: "nat \<Rightarrow> nat list"

definition orders_ok :: "orders \<Rightarrow> bool" where
  "orders_ok od \<longleftrightarrow> (\<forall>m. entries m (ordInput od m)) \<and> (\<forall>r. entries r (ordReg od r)) \<and>
     (\<forall>S. finite S \<longrightarrow> set (ordSet od S) = S \<and> distinct (ordSet od S)) \<and>
     (\<forall>w. entries w (ordWrites od w)) \<and> (\<forall>p. entries p (ordPending od p)) \<and>
     (\<forall>n. distinct (ordTasks od n) \<and> set (ordTasks od n) = {0..<n})"

text \<open>
  \<open>rtAbandon\<close> is the \<open>select\<close> between a task's result and the end of the context: the context's
  error if that wins. \<open>rtSetSub\<close> puts the state of a sub-graph in the context of the nodes;
  \<open>rtForward\<close> tells whether the final event still finds its reader.
\<close>

record 'w runtime =
  rtCtxErr :: "'w \<Rightarrow> gerr option"
  rtAbandon :: "'w \<Rightarrow> gerr option \<times> 'w"
  rtUUID :: "'w \<Rightarrow> string \<times> 'w"
  rtNow :: "'w \<Rightarrow> int \<times> 'w"
  rtRetry :: "'w retry_env"
  rtOrders :: "'w \<Rightarrow> orders"
  rtSetSub :: "string \<Rightarrow> 'w \<Rightarrow> 'w"
  rtForward :: "'w \<Rightarrow> bool"

text \<open>A failure of a run: an error on the error channel, or a panic outside a node.\<close>

datatype fault = Fail gerr | Crash

section \<open>Input\<close>

text \<open>
  The loop visits a snapshot of the input's entries: an entry added under a folded key names a
  registered channel, and visiting it would do nothing.
\<close>

fun input_loop :: "registry \<Rightarrow> gmap \<Rightarrow> (string \<times> gval) list \<Rightarrow> registry \<times> gmap" where
  "input_loop r m [] = (r, m)"
| "input_loop r m ((key, value) # es) =
     (if rg_Get r key \<noteq> None then input_loop r m es
      else (let guessed = caseFoldKey r key in
        if guessed \<noteq> [] then input_loop r (fmupd guessed value (fmdrop key m)) es
        else input_loop (rg_Register r key (ChLastValue (NewLastValue value))) m es))"

text \<open>
  \<open>toMap\<close> returns a string map as it is, so the renaming of keys shows in the caller's input:
  the third component.
\<close>

definition applyInput :: "golib \<Rightarrow> orders \<Rightarrow> registry \<Rightarrow> gval \<Rightarrow> gerr option \<times> registry \<times> gval" where
  "applyInput L od r input =
     (case toMap L input of
        Inl e \<Rightarrow> (Some e, r, input)
      | Inr m \<Rightarrow>
          (case input_loop r m (ordInput od m) of
             (r1, m1) \<Rightarrow>
               (let input' = (case input of VMap _ \<Rightarrow> VMap m1 | _ \<Rightarrow> input);
                    writes = fmmap (\<lambda>v. [v]) m1
                in if flen writes > 0
                   then (case rg_UpdateChannels L r1 (ordWrites od writes) of
                           (e, r2) \<Rightarrow> (e, r2, input'))
                   else (None, r1, input'))))"

section \<open>Writes\<close>

fun collect_entries ::
  "string \<Rightarrow> (string \<times> gval) list \<Rightarrow> writes \<Rightarrow> pendings \<Rightarrow> writes \<times> pendings"
where
  "collect_entries node [] ws ps = (ws, ps)"
| "collect_entries node ((key, v) # es) ws ps =
     (if v = VNil then collect_entries node es ws ps
      else (let (value, ow) = (case v of VOverwrite x \<Rightarrow> (x, True) | _ \<Rightarrow> (v, False))
        in collect_entries node es
             (fmupd key (fmlookup_default [] ws key @ [value]) ws)
             (fmupd key \<lparr>pwChannel = key, pwValue = value, pwOverwrite = ow, pwNode = node,
                pwTimestamp = 0, pwTaskID = []\<rparr> ps)))"

text \<open>\<open>None\<close> is the panic of a field mapping.\<close>

definition mapped_output :: "'w sgraph \<Rightarrow> string \<Rightarrow> gmap \<Rightarrow> gmap option" where
  "mapped_output g name m = (case GetNode g name of
     Some nd \<Rightarrow> (if length (ndFieldMapping nd) > 0 then applyFieldMapping m (ndFieldMapping nd) else Some m)
   | None \<Rightarrow> Some m)"

fun collect_results ::
  "golib \<Rightarrow> orders \<Rightarrow> 'w sgraph \<Rightarrow> task_result list \<Rightarrow> writes \<Rightarrow> pendings \<Rightarrow> fault + writes \<times> pendings"
where
  "collect_results L od g [] ws ps = Inr (ws, ps)"
| "collect_results L od g (r # rs) ws ps =
     (if trErr r \<noteq> None \<or> trOutput r = VNil then collect_results L od g rs ws ps
      else (case toMap L (trOutput r) of
          Inl e \<Rightarrow> Inl (Fail (WrapError ''failed to convert output to map'' e))
        | Inr m \<Rightarrow>
            (case mapped_output g (trName r) m of
               None \<Rightarrow> Inl Crash
             | Some m' \<Rightarrow>
                 (case collect_entries (trName r) (ordInput od m') ws ps of
                    (ws', ps') \<Rightarrow> collect_results L od g rs ws' ps'))))"

definition accumulates :: "channel \<Rightarrow> bool" where
  "accumulates c = (case c of ChBinop _ \<Rightarrow> True | ChReducer _ _ \<Rightarrow> True | _ \<Rightarrow> False)"

text \<open>Several values for a channel that does not accumulate: the last one stands.\<close>

definition squash :: "channel \<Rightarrow> gval list \<Rightarrow> gval list" where
  "squash c vs = (if length vs > 1 \<and> \<not> accumulates c then [last vs] else vs)"

fun write_loop ::
  "golib \<Rightarrow> 'w engine \<Rightarrow> registry \<Rightarrow> (string \<times> gval list) list \<Rightarrow> string set
   \<Rightarrow> (gerr + string set) \<times> 'w engine \<times> registry"
where
  "write_loop L e r [] updated = (Inr updated, e, r)"
| "write_loop L e r ((name, values) # ws) updated =
     (let (ch, r0) = (case rg_Get r name of
             Some c \<Rightarrow> (c, r)
           | None \<Rightarrow> (let c = ChLastValue (NewLastValue VNil) in (c, rg_Register r name c)));
          filtered = squash ch (filter (\<lambda>v. v \<noteq> VNil) values)
      in case ch_Update L ch filtered of
           (Inl err, ch1) \<Rightarrow>
             (Inl (WrapError (''failed to update channel '' @ name) err), e, fmupd name ch1 r0)
         | (Inr upd, ch1) \<Rightarrow>
             (if upd \<and> ch_IsAvailable ch1 then
                (let v = fmlookup_default 0 (egChannelVersions e) name + 1;
                     e1 = e\<lparr>egChannelVersions := fmupd name v (egChannelVersions e),
                            egCurrentCheckpoint := map_option (IncrementChannel name) (egCurrentCheckpoint e)\<rparr>
                 in write_loop L e1 (fmupd name (ch_SetVersion ch1 v) r0) ws (insert name updated))
              else write_loop L e (fmupd name ch1 r0) ws updated))"

definition markSeen :: "string \<Rightarrow> string \<Rightarrow> 'w engine \<Rightarrow> 'w engine" where
  "markSeen node ch e =
     (let vs = (case fmlookup (egVersionsSeen e) node of None \<Rightarrow> fmempty | Some vs \<Rightarrow> vs)
      in e\<lparr>egVersionsSeen := fmupd node
             (fmupd ch (fmlookup_default 0 (egChannelVersions e) ch) vs) (egVersionsSeen e),
           egCurrentCheckpoint := map_option (MarkSeen node ch) (egCurrentCheckpoint e)\<rparr>)"

definition hasSeen :: "string \<Rightarrow> string \<Rightarrow> 'w engine \<Rightarrow> bool" where
  "hasSeen node ch e =
     (case fmlookup (egVersionsSeen e) node of
        None \<Rightarrow> False
      | Some vs \<Rightarrow> (case fmlookup vs ch of
          None \<Rightarrow> False
        | Some v \<Rightarrow> v = fmlookup_default 0 (egChannelVersions e) ch))"

definition store_pending :: "(string \<times> pending_write) list \<Rightarrow> 'w engine \<Rightarrow> 'w engine" where
  "store_pending ps e = e\<lparr>egCurrentCheckpoint := map_option
     (\<lambda>c. fold (\<lambda>(k, pw) c. AddPendingWrite (pwChannel pw) (pwValue pw) (pwOverwrite pw) (pwNode pw) c) ps c)
     (egCurrentCheckpoint e)\<rparr>"

definition mark_all :: "string list \<Rightarrow> string list \<Rightarrow> 'w engine \<Rightarrow> 'w engine" where
  "mark_all names channels e = fold (\<lambda>n e. fold (\<lambda>c e. markSeen n c e) channels e) names e"

definition applyWrites ::
  "golib \<Rightarrow> orders \<Rightarrow> 'w engine \<Rightarrow> registry \<Rightarrow> task_result list \<Rightarrow> string set
   \<Rightarrow> (fault + string set) \<times> 'w engine \<times> registry"
where
  "applyWrites L od e r results triggers =
     (case collect_results L od (egGraph e) (sort_key trName results) fmempty fmempty of
        Inl f \<Rightarrow> (Inl f, e, r)
      | Inr (ws, ps) \<Rightarrow>
          (case write_loop L e r (ordWrites od ws) {} of
             (Inl err, e1, r1) \<Rightarrow> (Inl (Fail err), e1, r1)
           | (Inr updated, e1, r1) \<Rightarrow>
               (let e2 = store_pending (ordPending od ps) e1;
                    names = filter (\<lambda>n. n \<in> triggers) (map fst (ordWrites od ws))
                in (Inr updated, mark_all names (ordSet od updated) e2, r1))))"

section \<open>The next nodes\<close>

text \<open>
  \<open>Inl\<close> is the early return on a target that is the virtual end. The condition's error is not
  looked at; its result is used in any case.
\<close>

fun cond_loop ::
  "golib \<Rightarrow> 'w cond_edge list \<Rightarrow> string \<Rightarrow> gval \<Rightarrow> string set \<Rightarrow> bool \<Rightarrow> 'w
   \<Rightarrow> (string set + string set \<times> bool) \<times> 'w"
where
  "cond_loop L [] node state next has w = (Inr (next, has), w)"
| "cond_loop L (c # cs) node state next has w =
     (if ceFrom c \<noteq> node then cond_loop L cs node state next has w
      else (case ceCondition c state w of
          ((result, err), w1) \<Rightarrow>
            (case fmlookup (ceMapping c) (fmt_v L result) of
               None \<Rightarrow> cond_loop L cs node state next True w1
             | Some target \<Rightarrow>
                 (if target = End then (Inl next, w1)
                  else cond_loop L cs node state (insert target next) True w1))))"

fun edges_loop :: "edge list \<Rightarrow> string \<Rightarrow> string set \<Rightarrow> string set + string set" where
  "edges_loop [] node next = Inr next"
| "edges_loop (e # es) node next =
     (if edFrom e = node
      then (if edTo e = End then Inl next else edges_loop es node (insert (edTo e) next))
      else edges_loop es node next)"

definition resume_target :: "'w sgraph \<Rightarrow> gval \<Rightarrow> string set" where
  "resume_target g state = (case state of
     VMap st \<Rightarrow>
       (case fmlookup st ''_next'' of
          Some (VStr tv) \<Rightarrow> (if GetNode g tv \<noteq> None then {tv} else {})
        | Some (VList (VStr s # _)) \<Rightarrow> (if GetNode g s \<noteq> None then {s} else {})
        | _ \<Rightarrow> {})
   | _ \<Rightarrow> {})"

fun branch_loop :: "'w branch list \<Rightarrow> string \<Rightarrow> gval \<Rightarrow> string set \<Rightarrow> 'w \<Rightarrow> string set \<times> 'w" where
  "branch_loop [] node state next w = (next, w)"
| "branch_loop (b # bs) node state next w =
     (if brFrom b \<noteq> node then branch_loop bs node state next w
      else (case brCondition b state w of
          ((result, Some err), w1) \<Rightarrow> branch_loop bs node state next w1
        | ((result, None), w1) \<Rightarrow>
            branch_loop bs node state (next \<union> {t \<in> set (brThen b result). t \<noteq> End}) w1))"

definition getNextNodes :: "golib \<Rightarrow> 'w sgraph \<Rightarrow> string \<Rightarrow> gval \<Rightarrow> 'w \<Rightarrow> string set \<times> 'w" where
  "getNextNodes L g node state w =
     (case cond_loop L (sgConditionalEdges g) node state {} False w of
        (Inl next, w1) \<Rightarrow> (next, w1)
      | (Inr (next, has), w1) \<Rightarrow>
          (case (if \<not> has \<and> next = {} then edges_loop (sgEdges g) node next else Inr next) of
             Inl next1 \<Rightarrow> (next1, w1)
           | Inr next1 \<Rightarrow>
               (let next2 = (if next1 = {} then resume_target g state else next1)
                in branch_loop (sgBranches g) node state next2 w1)))"

section \<open>Tasks\<close>

text \<open>The trigger sets passed by the callers are empty; \<open>state\<close> is not used.\<close>

definition createTask ::
  "'w runtime \<Rightarrow> 'w node \<Rightarrow> gval \<Rightarrow> string list \<Rightarrow> string list \<Rightarrow> 'w \<Rightarrow> 'w task \<times> 'w"
where
  "createTask R node state channels triggers w =
     (case rtUUID R w of (i, w1) \<Rightarrow>
        (\<lparr>tkID = i, tkName = ndName node, tkFunc = Some (ndFunction node), tkChannels = channels,
          tkPath = [], tkTriggers = set triggers, tkRetryPolicy = None\<rparr>, w1))"

definition createTaskInfo ::
  "'w runtime \<Rightarrow> 'w node \<Rightarrow> gval \<Rightarrow> string list \<Rightarrow> string list \<Rightarrow> 'w \<Rightarrow> 'w task \<times> 'w"
where
  "createTaskInfo R node state channels triggers w =
     (case rtUUID R w of (i, w1) \<Rightarrow>
        (\<lparr>tkID = i, tkName = ndName node, tkFunc = None, tkChannels = channels,
          tkPath = [], tkTriggers = set triggers, tkRetryPolicy = None\<rparr>, w1))"

definition make_task ::
  "'w runtime \<Rightarrow> bool \<Rightarrow> 'w node \<Rightarrow> gval \<Rightarrow> string list \<Rightarrow> 'w \<Rightarrow> 'w task \<times> 'w"
where
  "make_task R forExecution node state channels w =
     (if forExecution then createTask R node state channels [] w
      else createTaskInfo R node state channels [] w)"

text \<open>\<open>all\<close> are the names a node without triggers of its own reads.\<close>

definition node_channels :: "'w node \<Rightarrow> string list \<Rightarrow> string list" where
  "node_channels nd all = (if length (ndTriggers nd) = 0 then all else ndTriggers nd)"

fun tasks_loop ::
  "'w runtime \<Rightarrow> 'w sgraph \<Rightarrow> bool \<Rightarrow> string list \<Rightarrow> gval \<Rightarrow> string list \<Rightarrow> 'w
   \<Rightarrow> ('w task list \<times> string set) \<times> 'w"
where
  "tasks_loop R g fe all state [] w = (([], {}), w)"
| "tasks_loop R g fe all state (n # ns) w =
     (case GetNode g n of
        None \<Rightarrow> tasks_loop R g fe all state ns w
      | Some nd \<Rightarrow>
          (let chs = node_channels nd all in
           case make_task R fe nd state chs w of
             (t, w1) \<Rightarrow>
               (case tasks_loop R g fe all state ns w1 of
                  ((ts, tr), w2) \<Rightarrow> ((t # ts, set chs \<union> tr), w2))))"

text \<open>The sources of the edges into each node, in the order of the edges.\<close>

definition buildIncomingEdges :: "'w sgraph \<Rightarrow> (string, string list) fmap" where
  "buildIncomingEdges g =
     fold (\<lambda>e adj. fmupd (edTo e) (fmlookup_default [] adj (edTo e) @ [edFrom e]) adj) (sgEdges g) fmempty"

definition dag_ready :: "'w sgraph \<Rightarrow> string set \<Rightarrow> string \<Rightarrow> bool" where
  "dag_ready g completed n \<longleftrightarrow> n \<notin> completed \<and>
     list_all (\<lambda>p. p = Start \<or> p = End \<or> p \<in> completed) (fmlookup_default [] (buildIncomingEdges g) n)"

definition prepareNextTasksDAG ::
  "'w runtime \<Rightarrow> 'w sgraph \<Rightarrow> string set \<Rightarrow> gval \<Rightarrow> bool \<Rightarrow> 'w \<Rightarrow> ('w task list \<times> string set) \<times> 'w"
where
  "prepareNextTasksDAG R g completed state fe w =
     (let od = rtOrders R w;
          all = map fst (ordReg od (sgChannels g));
          ns = filter (dag_ready g completed) (ordSet od (fmdom' (sgNodes g)))
      in tasks_loop R g fe all state ns w)"

definition prepareNextTasksWithMode ::
  "golib \<Rightarrow> 'w runtime \<Rightarrow> 'w sgraph \<Rightarrow> registry \<Rightarrow> string set \<Rightarrow> string \<Rightarrow> gval \<Rightarrow> bool \<Rightarrow> 'w
   \<Rightarrow> (gerr + 'w task list \<times> string set) \<times> 'w"
where
  "prepareNextTasksWithMode L R g r completed lastN state fe w =
     (let od = rtOrders R w; all = rg_Names (ordReg od r) in
      if completed = {} then
        (let entry = sgEntryPoint g in
         if entry = [] then (Inl (ErrorString ''no entry point set''), w)
         else if entry = End then (Inr ([], {}), w)
         else (case GetNode g entry of
             None \<Rightarrow> (Inl (NodeNotFoundError entry), w)
           | Some nd \<Rightarrow>
               (case createTask R nd state (node_channels nd all) [] w of
                  (t, w1) \<Rightarrow> (Inr ([t], {''__start__''}), w1))))
      else if sgNodeTriggerMode g = NodeTriggerAllPredecessor then
        (case prepareNextTasksDAG R g completed state fe w of (ts, w1) \<Rightarrow> (Inr ts, w1))
      else
        (case getNextNodes L g lastN state w of
           (next, w1) \<Rightarrow>
             (case tasks_loop R g fe all state (ordSet od next) w1 of (ts, w2) \<Rightarrow> (Inr ts, w2))))"

definition prepareNextTasks ::
  "golib \<Rightarrow> 'w runtime \<Rightarrow> 'w sgraph \<Rightarrow> registry \<Rightarrow> string set \<Rightarrow> string \<Rightarrow> gval \<Rightarrow> 'w
   \<Rightarrow> (gerr + 'w task list \<times> string set) \<times> 'w"
where
  "prepareNextTasks L R g r completed lastN state w =
     prepareNextTasksWithMode L R g r completed lastN state True w"

section \<open>Interrupts before and after a node\<close>

definition shouldInterrupt :: "'w engine \<Rightarrow> 'w task list \<Rightarrow> 'w task list" where
  "shouldInterrupt e tasks =
     (if egInterrupts e = {} then []
      else filter (\<lambda>t. All \<in> egInterrupts e \<or> tkName t \<in> egInterrupts e) tasks)"

definition shouldInterruptAfter :: "'w engine \<Rightarrow> task_result list \<Rightarrow> bool" where
  "shouldInterruptAfter e results =
     (if egInterruptsAfter e = {} then False
      else list_ex (\<lambda>r. trErr r = None \<and>
        (All \<in> egInterruptsAfter e \<or> trName r \<in> egInterruptsAfter e)) results)"

section \<open>Execution\<close>

fun read_channels :: "registry \<Rightarrow> string list \<Rightarrow> gmap \<Rightarrow> (gerr + gmap) \<times> registry" where
  "read_channels r [] vals = (Inr vals, r)"
| "read_channels r (n # ns) vals =
     (case rg_Get r n of
        None \<Rightarrow> read_channels r ns vals
      | Some c \<Rightarrow>
          (case ch_Get c of
             (Inl e, c') \<Rightarrow>
               (if IsEmptyChannelError (Some e) then read_channels (fmupd n c' r) ns vals
                else (Inl e, fmupd n c' r))
           | (Inr v, c') \<Rightarrow> read_channels (fmupd n c' r) ns (fmupd n v vals)))"

definition readTaskInput :: "registry \<Rightarrow> 'w task \<Rightarrow> (gerr + gval) \<times> registry" where
  "readTaskInput r t =
     (if length (tkChannels t) = 0 then (Inr (VMap fmempty), r)
      else (case read_channels r (tkChannels t) fmempty of (v, r') \<Rightarrow> (map_sum id VMap v, r')))"

text \<open>Calling a nil function panics.\<close>

definition call_func :: "'w task \<Rightarrow> gval \<Rightarrow> 'w \<Rightarrow> called \<times> 'w" where
  "call_func t input w = (case tkFunc t of Some f \<Rightarrow> f input w | None \<Rightarrow> (Panicked (VOther ''runtime.Error'' 0), w))"

definition task_policy :: "'w task \<Rightarrow> retry_policy" where
  "task_policy t = (case tkRetryPolicy t of None \<Rightarrow> DefaultRetryPolicy | Some p \<Rightarrow> p)"

definition executeTask ::
  "golib \<Rightarrow> 'w runtime \<Rightarrow> 'w engine \<Rightarrow> 'w task \<Rightarrow> registry \<Rightarrow> 'w \<Rightarrow> (fault + task_result) \<times> registry \<times> 'w"
where
  "executeTask L R e t r w =
     (case readTaskInput r t of
        (Inl err, r1) \<Rightarrow>
          (Inr \<lparr>trName = tkName t, trOutput = VNil, trErr = Some (WrapError ''failed to read task input'' err)\<rparr>, r1, w)
      | (Inr input, r1) \<Rightarrow>
          (case mapToStateSchema L (sgStateSchema (egGraph e)) input of
             None \<Rightarrow> (Inl Crash, r1, w)
           | Some conv \<Rightarrow>
               (case re_Execute L (rtRetry R) (NewRetryExecutor (Some (task_policy t))) (tkName t) (call_func t conv) w of
                  ((out, err), w1) \<Rightarrow>
                    (case err of
                       None \<Rightarrow> (Inr \<lparr>trName = tkName t, trOutput = out, trErr = None\<rparr>, r1, w1)
                     | Some er \<Rightarrow>
                         (Inr \<lparr>trName = tkName t, trOutput = VNil,
                            trErr = Some (if IsRetryExhausted (Some er) then WrapError ''max retries exceeded'' er else er)\<rparr>,
                          r1, w1)))))"

text \<open>
  The concurrent execution. Nodes do not see the registry, so the reads of the inputs commute
  with the calls: first the inputs are read, the tasks taking turns in one order, then the
  nodes are called, the tasks taking turns in another. A call with its retries is atomic.
\<close>

fun read_inputs ::
  "registry \<Rightarrow> 'w task list \<Rightarrow> nat list \<Rightarrow> (nat \<Rightarrow> gerr + gval) \<Rightarrow> (nat \<Rightarrow> gerr + gval) \<times> registry"
where
  "read_inputs r ts [] f = (f, r)"
| "read_inputs r ts (i # is) f =
     (case readTaskInput r (ts ! i) of (v, r') \<Rightarrow> read_inputs r' ts is (f(i := v)))"

definition run_task ::
  "golib \<Rightarrow> 'w runtime \<Rightarrow> 'w engine \<Rightarrow> 'w task \<Rightarrow> gerr + gval \<Rightarrow> 'w \<Rightarrow> (fault + task_result) \<times> 'w"
where
  "run_task L R e t input w =
     (case input of
        Inl err \<Rightarrow>
          (Inr \<lparr>trName = tkName t, trOutput = VNil, trErr = Some (WrapError ''failed to read task input'' err)\<rparr>, w)
      | Inr v \<Rightarrow>
          (case mapToStateSchema L (sgStateSchema (egGraph e)) v of
             None \<Rightarrow> (Inl Crash, w)
           | Some conv \<Rightarrow>
               (case re_Execute L (rtRetry R) (NewRetryExecutor (Some (task_policy t))) (tkName t) (call_func t conv) w of
                  ((out, err), w1) \<Rightarrow>
                    (case rtAbandon R w1 of
                       (Some ce, w2) \<Rightarrow> (Inr \<lparr>trName = tkName t, trOutput = VNil, trErr = Some ce\<rparr>, w2)
                     | (None, w2) \<Rightarrow> (Inr \<lparr>trName = tkName t, trOutput = out, trErr = err\<rparr>, w2)))))"

fun run_tasks ::
  "golib \<Rightarrow> 'w runtime \<Rightarrow> 'w engine \<Rightarrow> 'w task list \<Rightarrow> (nat \<Rightarrow> gerr + gval) \<Rightarrow> nat list
   \<Rightarrow> (nat \<Rightarrow> task_result) \<Rightarrow> 'w \<Rightarrow> (fault + (nat \<Rightarrow> task_result)) \<times> 'w"
where
  "run_tasks L R e ts inputs [] f w = (Inr f, w)"
| "run_tasks L R e ts inputs (i # is) f w =
     (case run_task L R e (ts ! i) (inputs i) w of
        (Inl c, w1) \<Rightarrow> (Inl c, w1)
      | (Inr res, w1) \<Rightarrow> run_tasks L R e ts inputs is (f(i := res)) w1)"

definition executeTasksAsync ::
  "golib \<Rightarrow> 'w runtime \<Rightarrow> 'w engine \<Rightarrow> 'w task list \<Rightarrow> registry \<Rightarrow> 'w
   \<Rightarrow> (fault + task_result list) \<times> registry \<times> 'w"
where
  "executeTasksAsync L R e ts r w =
     (let n = length ts;
          (inputs, r1) = read_inputs r ts (ordTasks (rtOrders R w) n) (\<lambda>_. Inr VNil)
      in case run_tasks L R e ts inputs (ordTasks (rtOrders R w) n)
             (\<lambda>_. \<lparr>trName = [], trOutput = VNil, trErr = None\<rparr>) w of
           (Inl c, w1) \<Rightarrow> (Inl c, r1, w1)
         | (Inr f, w1) \<Rightarrow> (Inr (map f [0..<n]), r1, w1))"

section \<open>Output and checkpoints\<close>

definition buildOutput :: "registry \<Rightarrow> (string \<times> channel) list \<Rightarrow> gval \<Rightarrow> gval \<times> registry" where
  "buildOutput r es lastState =
     (case rg_GetValues r es of
        (Inl e, r1) \<Rightarrow> (lastState, r1)
      | (Inr vals, r1) \<Rightarrow> (if flen vals > 0 then (VMap vals, r1) else (lastState, r1)))"

definition saveCheckpoint ::
  "'w engine \<Rightarrow> string \<Rightarrow> string \<Rightarrow> int \<Rightarrow> gmap \<Rightarrow> 'w \<Rightarrow> gerr option \<times> 'w"
where
  "saveCheckpoint e threadID cpID step cp w = (case egCheckpointer e of
     None \<Rightarrow> (None, w)
   | Some s \<Rightarrow> svPut s (fmap_of_list [(''thread_id'', VStr threadID), (''checkpoint_id'', VStr cpID),
       (''step'', VInt (word_of_int step))]) cp w)"

definition deferCheckpoint :: "string \<Rightarrow> string \<Rightarrow> int \<Rightarrow> gmap \<Rightarrow> 'w engine \<Rightarrow> 'w engine" where
  "deferCheckpoint threadID cpID step cp e = e\<lparr>egDeferred := egDeferred e @
     [\<lparr>dcThreadID = threadID, dcCheckpointID = cpID, dcStep = step, dcCheckpoint = cp\<rparr>]\<rparr>"

fun deferred_loop ::
  "'w engine \<Rightarrow> deferred_checkpoint list \<Rightarrow> gerr option \<Rightarrow> 'w \<Rightarrow> gerr option \<times> 'w"
where
  "deferred_loop e [] lastErr w = (lastErr, w)"
| "deferred_loop e (d # ds) lastErr w =
     (case saveCheckpoint e (dcThreadID d) (dcCheckpointID d) (dcStep d) (dcCheckpoint d) w of
        (Some err, w1) \<Rightarrow> deferred_loop e ds (Some err) w1
      | (None, w1) \<Rightarrow> deferred_loop e ds lastErr w1)"

definition saveDeferredCheckpoints :: "'w engine \<Rightarrow> 'w \<Rightarrow> gerr option \<times> 'w engine \<times> 'w" where
  "saveDeferredCheckpoints e w =
     (if egCheckpointer e = None \<or> length (egDeferred e) = 0 then (None, e, w)
      else (case deferred_loop e (egDeferred e) None w of
          (err, w1) \<Rightarrow> (err, e\<lparr>egDeferred := []\<rparr>, w1)))"

definition getThreadID :: "'w runtime \<Rightarrow> 'w engine \<Rightarrow> 'w \<Rightarrow> string \<times> 'w" where
  "getThreadID R e w =
     (case Option.bind (egConfig e) cfConfigurable of
        Some m \<Rightarrow> (case fmlookup m ''thread_id'' of Some (VStr t) \<Rightarrow> (t, w) | _ \<Rightarrow> rtUUID R w)
      | None \<Rightarrow> rtUUID R w)"

end
