(* ===== verification/Interrupt.thy ===== *)
theory Interrupt
  imports Values
begin

text \<open>
  Interrupts raised by nodes (\<^verbatim>\<open>interrupt/interrupt.go\<close>). The state is the interrupt context that
  applies (the one in the request's context, or else the process-wide one) and the process-wide
  counter behind the identifiers. \<open>hash\<close> is the printed first half of the SHA-256 digest.
\<close>

record interrupt_context =
  icResumeValues :: "gval list"
  icIndex :: nat
  icNullResume :: gval

definition new_interrupt_context :: interrupt_context where
  "new_interrupt_context = \<lparr>icResumeValues = [], icIndex = 0, icNullResume = VNil\<rparr>"

text \<open>\<open>per\<close> is what \<open>GetInterruptContext\<close> finds in the context, \<open>glob\<close> the process-wide one.\<close>

record istate =
  isPer :: "interrupt_context option"
  isGlobal :: interrupt_context
  isCounter :: int

definition is_current :: "istate \<Rightarrow> interrupt_context" where
  "is_current s = (case isPer s of Some ic \<Rightarrow> ic | None \<Rightarrow> isGlobal s)"

definition is_put :: "interrupt_context \<Rightarrow> istate \<Rightarrow> istate" where
  "is_put ic s = (case isPer s of Some _ \<Rightarrow> s\<lparr>isPer := Some ic\<rparr> | None \<Rightarrow> s\<lparr>isGlobal := ic\<rparr>)"

definition WithInterruptContext :: "istate \<Rightarrow> istate" where
  "WithInterruptContext s = s\<lparr>isPer := Some new_interrupt_context\<rparr>"

definition IsInterruptContext :: "istate \<Rightarrow> bool" where
  "IsInterruptContext s = (isPer s \<noteq> None)"

definition consumeNextResumeValue :: "interrupt_context \<Rightarrow> gval option \<times> interrupt_context" where
  "consumeNextResumeValue ic =
     (if icIndex ic < length (icResumeValues ic)
      then (Some (icResumeValues ic ! icIndex ic), ic\<lparr>icIndex := icIndex ic + 1\<rparr>)
      else (None, ic))"

definition appendResumeValue :: "gval \<Rightarrow> interrupt_context \<Rightarrow> interrupt_context" where
  "appendResumeValue v ic = ic\<lparr>icResumeValues := icResumeValues ic @ [v]\<rparr>"

definition setNullResume :: "gval \<Rightarrow> interrupt_context \<Rightarrow> interrupt_context" where
  "setNullResume v ic = ic\<lparr>icNullResume := v\<rparr>"

definition setResumeValues :: "gval list \<Rightarrow> interrupt_context \<Rightarrow> interrupt_context" where
  "setResumeValues vs ic = ic\<lparr>icResumeValues := vs\<rparr>"

definition ic_reset :: "interrupt_context \<Rightarrow> interrupt_context" where
  "ic_reset ic = ic\<lparr>icResumeValues := [], icIndex := 0, icNullResume := VNil\<rparr>"

definition generateInterruptID :: "(string \<Rightarrow> string) \<Rightarrow> golib \<Rightarrow> gval \<Rightarrow> istate \<Rightarrow> string \<times> istate" where
  "generateInterruptID hash L v s =
     (let n = isCounter s + 1
      in (hash (fmt_v L v) @ ''_'' @ show_int n, s\<lparr>isCounter := n\<rparr>))"

definition Interrupt ::
  "(string \<Rightarrow> string) \<Rightarrow> golib \<Rightarrow> gval \<Rightarrow> istate \<Rightarrow> (gerr + gval) \<times> istate"
where
  "Interrupt hash L value s =
     (case consumeNextResumeValue (is_current s) of
        (Some v, ic) \<Rightarrow> (Inr v, is_put ic s)
      | (None, ic) \<Rightarrow>
          (let v = icNullResume ic
           in if v \<noteq> VNil then (Inr v, is_put (appendResumeValue v (setNullResume VNil ic)) s)
              else (case generateInterruptID hash L value s of
                      (i, s') \<Rightarrow> (Inl (GraphInterrupt [VInterrupt value i]), s'))))"

definition GetResumeValues :: "istate \<Rightarrow> gval list" where
  "GetResumeValues s = icResumeValues (is_current s)"

definition GetInterruptIndex :: "istate \<Rightarrow> nat" where
  "GetInterruptIndex s = icIndex (is_current s)"

definition AppendResumeValue :: "gval \<Rightarrow> istate \<Rightarrow> istate" where
  "AppendResumeValue v s = is_put (appendResumeValue v (is_current s)) s"

definition GetNullResume :: "bool \<Rightarrow> istate \<Rightarrow> gval \<times> istate" where
  "GetNullResume consume s =
     (let v = icNullResume (is_current s)
      in (v, if consume then is_put (setNullResume VNil (is_current s)) s else s))"

definition Reset :: "istate \<Rightarrow> istate" where
  "Reset s = is_put (ic_reset (is_current s)) s"

definition GetInterruptValue :: "gerr option \<Rightarrow> gval option" where
  "GetInterruptValue e = (case e of
     Some (GraphInterrupt (VInterrupt v i # _)) \<Rightarrow> Some v
   | Some (GraphInterrupt (v # _)) \<Rightarrow> Some v
   | _ \<Rightarrow> None)"

definition SetResumeValues :: "gval list \<Rightarrow> istate \<Rightarrow> istate" where
  "SetResumeValues vs s = is_put (setResumeValues vs (is_current s)) s"

section \<open>Facts\<close>

lemma is_current_put [simp]: "is_current (is_put ic s) = ic"
  by (simp add: is_current_def is_put_def split: option.splits)

lemma is_put_put [simp]: "is_put ic (is_put ic' s) = is_put ic s"
  by (simp add: is_put_def split: option.splits)

lemma is_put_current [simp]: "is_put (is_current s) s = s"
  by (simp add: is_current_def is_put_def split: option.splits)

text \<open>A node that asks a list of questions in turn and stops at the first it has no answer for.\<close>

fun ask :: "(string \<Rightarrow> string) \<Rightarrow> golib \<Rightarrow> gval list \<Rightarrow> istate \<Rightarrow> (gval list \<times> gerr option) \<times> istate" where
  "ask hash L [] s = (([], None), s)"
| "ask hash L (q # qs) s =
     (case Interrupt hash L q s of
        (Inl e, s') \<Rightarrow> (([], Some e), s')
      | (Inr v, s') \<Rightarrow> (case ask hash L qs s' of ((vs, e), s'') \<Rightarrow> ((v # vs, e), s'')))"

lemma Interrupt_answered:
  "icIndex (is_current s) < length (icResumeValues (is_current s)) \<Longrightarrow>
   Interrupt hash L q s = (Inr (icResumeValues (is_current s) ! icIndex (is_current s)),
     is_put ((is_current s)\<lparr>icIndex := icIndex (is_current s) + 1\<rparr>) s)"
  by (simp add: Interrupt_def consumeNextResumeValue_def)

lemma ask_answers:
  assumes "icNullResume (is_current s) = VNil"
    and "icResumeValues (is_current s) = pre @ vs" and "icIndex (is_current s) = length pre"
  shows "fst (fst (ask hash L qs s)) = take (length qs) vs \<and>
    (case snd (fst (ask hash L qs s)) of
       None \<Rightarrow> length qs \<le> length vs
     | Some e \<Rightarrow> length vs < length qs \<and> GetInterruptValue (Some e) = Some (qs ! length vs))"
  using assms
proof (induction qs arbitrary: s pre vs)
  case Nil
  then show ?case by simp
next
  case (Cons q qs)
  show ?case
  proof (cases vs)
    case Nil
    with Cons.prems show ?thesis
      by (simp add: Interrupt_def consumeNextResumeValue_def generateInterruptID_def Let_def
          GetInterruptValue_def)
  next
    case (Cons v vs')
    let ?s = "is_put ((is_current s)\<lparr>icIndex := icIndex (is_current s) + 1\<rparr>) s"
    have i: "Interrupt hash L q s = (Inr v, ?s)"
      using Cons.prems Cons by (subst Interrupt_answered) (simp_all add: nth_append)
    have "fst (fst (ask hash L qs ?s)) = take (length qs) vs' \<and>
        (case snd (fst (ask hash L qs ?s)) of None \<Rightarrow> length qs \<le> length vs'
         | Some e \<Rightarrow> length vs' < length qs \<and> GetInterruptValue (Some e) = Some (qs ! length vs'))"
      using Cons.prems Cons by (intro Cons.IH[of ?s "pre @ [v]"]) simp_all
    then show ?thesis
      using i Cons by (auto split: prod.splits option.splits)
  qed
qed

section \<open>Properties\<close>

text \<open>
  a node that is run again with \<open>n\<close> resume values gets them, in order, as the answers to
  its first \<open>n\<close> interrupts; the next interrupt, if the node makes one, is raised with the value
  the node passed to it.
\<close>

theorem resume_answers_in_order:
  "case fst (ask hash L qs (SetResumeValues vs (Reset s))) of (answers, raised) \<Rightarrow>
    answers = take (length qs) vs \<and>
    (case raised of
       None \<Rightarrow> length qs \<le> length vs
     | Some e \<Rightarrow> length vs < length qs \<and> GetInterruptValue (Some e) = Some (qs ! length vs))"
  using ask_answers[of "SetResumeValues vs (Reset s)" "[]" vs hash L qs]
  by (simp add: SetResumeValues_def Reset_def setResumeValues_def ic_reset_def case_prod_unfold)

text \<open>
  the value given for a null resume is returned twice: by the interrupt that takes it and
  by the next one, which finds it appended to the resume values with the index not advanced.
\<close>

theorem null_resume_twice:
  assumes "icNullResume (is_current s) = v" and "v \<noteq> VNil"
    and "icIndex (is_current s) = length (icResumeValues (is_current s))"
  shows "fst (fst (ask hash L [q1, q2] s)) = [v, v]"
  using assms
  by (simp add: Interrupt_def consumeNextResumeValue_def appendResumeValue_def setNullResume_def)

lemma null_resume_twice_witness:
  "fst (fst (ask (\<lambda>s. s) demo_lib [VStr ''a'', VStr ''b'']
     \<lparr>isPer = None, isGlobal = new_interrupt_context\<lparr>icNullResume := VInt 1\<rparr>, isCounter = 0\<rparr>)) =
   [VInt 1, VInt 1]"
  by (rule null_resume_twice) (simp_all add: is_current_def new_interrupt_context_def)

end
