(* ===== verification/Engine_Run.thy ===== *)
theory Engine_Run
  imports Engine_Step Interrupt
begin

text \<open>
  The run of a graph (\<^verbatim>\<open>Engine.Run\<close>, \<^verbatim>\<open>RunSync\<close> and \<^verbatim>\<open>runCompiledGraph\<close>): setting up the channels
  and the checkpoint, the supersteps, and the final state. One superstep is a function; a run is
  a machine whose steps are supersteps and, at any time, the saves that
  \<open>DurabilityAsync\<close> leaves to goroutines.
\<close>

section \<open>The state of a run\<close>

text \<open>
  \<open>rnPending\<close> are the checkpoints whose saves have been handed to a goroutine and not been
  made yet.
\<close>

record 'w run =
  rnEngine :: "'w engine"
  rnRegistry :: registry
  rnThread :: string
  rnStep :: int
  rnCompleted :: "string set"
  rnLastNode :: string
  rnLastState :: gval
  rnPending :: "deferred_checkpoint list"

datatype 'w phase =
    Running "'w run"
  | Finished "'w run" gval
  | Failed "'w run" fault

section \<open>Setting up\<close>

text \<open>The per-run state of the engine is reset: an engine can be used again.\<close>

definition reset_engine :: "'w engine \<Rightarrow> 'w engine" where
  "reset_engine e = e\<lparr>egCurrentCheckpoint := None, egChannelVersions := fmempty,
     egVersionsSeen := fmempty, egDeferred := []\<rparr>"

definition copy_channels :: "golib \<Rightarrow> (string \<times> channel) list \<Rightarrow> registry" where
  "copy_channels L es = fold (\<lambda>(n, c) r. rg_Register r n (ch_Copy L c)) es NewRegistry"

definition requested_id :: "'w engine \<Rightarrow> string option" where
  "requested_id e = (case Option.bind (egConfig e) cfConfigurable of
     Some m \<Rightarrow> (case fmlookup m ''checkpoint_id'' of
        Some (VStr s) \<Rightarrow> if s \<noteq> [] then Some s else None | _ \<Rightarrow> None)
   | None \<Rightarrow> None)"

text \<open>The checkpoint to start from: an error, or the data if a checkpoint was loaded.\<close>

definition fetch_checkpoint :: "golib \<Rightarrow> 'w engine \<Rightarrow> string \<Rightarrow> 'w \<Rightarrow> (gerr + gmap option) \<times> 'w" where
  "fetch_checkpoint L e threadID w =
     (case egCheckpointer e of
        None \<Rightarrow> (Inr None, w)
      | Some s \<Rightarrow>
          (let cfg0 = fmupd ''thread_id'' (VStr threadID) fmempty;
               cfg = (case requested_id e of None \<Rightarrow> cfg0 | Some i \<Rightarrow> fmupd ''checkpoint_id'' (VStr i) cfg0)
           in case svGet s cfg w of
                (Inr (Some d), w1) \<Rightarrow> (Inr (Some d), w1)
              | (res, w1) \<Rightarrow>
                  (case requested_id e of
                     None \<Rightarrow> (Inr None, w1)
                   | Some i \<Rightarrow>
                       (let msg = (case res of Inl err \<Rightarrow> error_text L err | Inr _ \<Rightarrow> ''checkpoint not found'')
                        in (Inl (ErrorString (''requested checkpoint_id '' @ i @ '': '' @ msg)), w1)))))"

definition restore_sub :: "'w runtime \<Rightarrow> gmap \<Rightarrow> 'w \<Rightarrow> 'w" where
  "restore_sub R d w = (case fmlookup d ''__sub_state__'' of
     Some (VBytes s) \<Rightarrow> rtSetSub R s w | Some (VStr s) \<Rightarrow> rtSetSub R s w | _ \<Rightarrow> w)"

definition restored_tasks :: "gmap \<Rightarrow> string set" where
  "restored_tasks d = (case fmlookup d ''__completed_tasks__'' of
     Some (VStr s) \<Rightarrow> (case deserializeStringSet s of Some S \<Rightarrow> S | None \<Rightarrow> {}) | _ \<Rightarrow> {})"

definition restored_node :: "gmap \<Rightarrow> string" where
  "restored_node d = (case fmlookup d ''__last_completed_node__'' of Some (VStr s) \<Rightarrow> s | _ \<Rightarrow> [])"

definition restored_state :: "golib \<Rightarrow> gmap \<Rightarrow> gval" where
  "restored_state L d =
     (case (case fmlookup d ''__last_state__'' of
              Some (VStr s) \<Rightarrow> json_parse L s | Some (VBytes s) \<Rightarrow> json_parse L s | _ \<Rightarrow> None) of
        Some m \<Rightarrow> VMap m | None \<Rightarrow> VNil)"

text \<open>Only the entries of registered channels are restored.\<close>

definition restore_channels :: "golib \<Rightarrow> orders \<Rightarrow> registry \<Rightarrow> gmap \<Rightarrow> gerr option \<times> registry" where
  "restore_channels L od r d =
     (let filtered = fmfilter (\<lambda>k. rg_Get r k \<noteq> None) d
      in if flen filtered > 0 then rg_RestoreFromCheckpoint L r (ordInput od filtered) else (None, r))"

definition fresh_checkpoint :: "'w runtime \<Rightarrow> string \<Rightarrow> 'w engine \<Rightarrow> 'w \<Rightarrow> 'w engine \<times> 'w" where
  "fresh_checkpoint R threadID e w =
     (if egCurrentCheckpoint e \<noteq> None then (e, w)
      else (case rtUUID R w of (i, w1) \<Rightarrow> (case rtNow R w1 of (now, w2) \<Rightarrow>
        (e\<lparr>egCurrentCheckpoint := Some (NewCheckpoint i now threadID 0)\<rparr>, w2))))"

definition start_resumed ::
  "golib \<Rightarrow> 'w runtime \<Rightarrow> 'w engine \<Rightarrow> registry \<Rightarrow> string \<Rightarrow> gmap \<Rightarrow> 'w \<Rightarrow> (gerr + 'w run) \<times> 'w"
where
  "start_resumed L R e r threadID d w =
     (let w1 = restore_sub R d w in
      case restore_channels L (rtOrders R w1) r d of
        (Some err, r1) \<Rightarrow> (Inl (WrapError ''failed to restore from checkpoint'' err), w1)
      | (None, r1) \<Rightarrow>
          (Inr \<lparr>rnEngine = e\<lparr>egCurrentCheckpoint := Some (FromMap L d)\<rparr>, rnRegistry = r1,
                rnThread = threadID, rnStep = 0, rnCompleted = restored_tasks d,
                rnLastNode = restored_node d, rnLastState = restored_state L d, rnPending = []\<rparr>, w1))"

definition start_fresh ::
  "golib \<Rightarrow> 'w runtime \<Rightarrow> 'w engine \<Rightarrow> registry \<Rightarrow> string \<Rightarrow> gval \<Rightarrow> 'w \<Rightarrow> (gerr + 'w run) \<times> 'w"
where
  "start_fresh L R e r threadID input w =
     (case applyInput L (rtOrders R w) r input of
        (Some err, r1, input1) \<Rightarrow> (Inl (WrapError ''failed to apply input'' err), w)
      | (None, r1, input1) \<Rightarrow>
          (case fresh_checkpoint R threadID e w of (e1, w1) \<Rightarrow>
            (Inr \<lparr>rnEngine = e1, rnRegistry = r1, rnThread = threadID, rnStep = 0, rnCompleted = {},
                  rnLastNode = [], rnLastState = input1, rnPending = []\<rparr>, w1)))"

definition start_run :: "golib \<Rightarrow> 'w runtime \<Rightarrow> 'w engine \<Rightarrow> gval \<Rightarrow> 'w \<Rightarrow> (gerr + 'w run) \<times> 'w" where
  "start_run L R e0 input w0 =
     (case getThreadID R e0 w0 of (threadID, w) \<Rightarrow>
        (let e = reset_engine e0; od = rtOrders R w;
             r = copy_channels L (ordReg od (sgChannels (egGraph e)))
         in case applyInput L od r input of
              (Some err, r1, input1) \<Rightarrow> (Inl (WrapError ''failed to apply input'' err), w)
            | (None, r1, input1) \<Rightarrow>
                (case fetch_checkpoint L e threadID w of
                   (Inl err, w1) \<Rightarrow> (Inl err, w1)
                 | (Inr (Some d), w1) \<Rightarrow> start_resumed L R e r1 threadID d w1
                 | (Inr None, w1) \<Rightarrow> start_fresh L R e r1 threadID input1 w1)))"

section \<open>One superstep\<close>

text \<open>What a step's results say: the completed nodes, the last of them, the merged state,
  whether none succeeded, and the interrupted nodes.\<close>

fun result_loop ::
  "task_result list \<Rightarrow> string set \<times> string \<times> gval \<times> bool \<times> string list
   \<Rightarrow> string set \<times> string \<times> gval \<times> bool \<times> string list"
where
  "result_loop [] acc = acc"
| "result_loop (r # rs) (completed, lastN, st, allFailed, names) =
     result_loop rs
       (if IsGraphInterrupt (trErr r) then (completed, lastN, st, allFailed, names @ [trName r])
        else if trErr r = None
          then (insert (trName r) completed, trName r, mergeStates st (trOutput r), False, names)
        else (completed, lastN, st, allFailed, names))"

text \<open>The first result with an interrupt that carries values.\<close>

fun first_interrupt :: "task_result list \<Rightarrow> gval list option" where
  "first_interrupt [] = None"
| "first_interrupt (r # rs) = (case trErr r of
     Some (GraphInterrupt (v # vs)) \<Rightarrow> Some (v # vs) | _ \<Rightarrow> first_interrupt rs)"

definition sub_state :: "golib \<Rightarrow> task_result list \<Rightarrow> string option" where
  "sub_state L rs = (case first_interrupt rs of
     Some (VInterrupt v i # vs) \<Rightarrow> (if v = VNil then None else json_text L v) | _ \<Rightarrow> None)"

text \<open>
  What is saved when a node interrupts. \<open>i2f\<close> gives the step as a float.
\<close>

definition interrupt_payload ::
  "golib \<Rightarrow> gmap \<Rightarrow> string set \<Rightarrow> string \<Rightarrow> int \<Rightarrow> gval \<Rightarrow> task_result list \<Rightarrow> gmap"
where
  "interrupt_payload L cp completed lastN step st rs =
     (let p1 = fmupd ''__completed_tasks__'' (VStr (serializeStringSet completed)) cp;
          p2 = fmupd ''__last_completed_node__'' (VStr lastN) p1;
          p3 = fmupd ''__step__'' (VFloat (i2f L (word_of_int step))) p2;
          p4 = (if st = VNil then p3
                else (case json_text L st of None \<Rightarrow> p3 | Some t \<Rightarrow> fmupd ''__last_state__'' (VStr t) p3))
      in (case sub_state L rs of None \<Rightarrow> p4 | Some b \<Rightarrow> fmupd ''__sub_state__'' (VBytes b) p4))"

definition put_thread_only :: "'w engine \<Rightarrow> string \<Rightarrow> gmap \<Rightarrow> 'w \<Rightarrow> gerr option \<times> 'w" where
  "put_thread_only e threadID cp w = (case egCheckpointer e of
     None \<Rightarrow> (None, w) | Some s \<Rightarrow> svPut s (fmupd ''thread_id'' (VStr threadID) fmempty) cp w)"

definition handle_interrupt ::
  "golib \<Rightarrow> 'w runtime \<Rightarrow> 'w run \<Rightarrow> task_result list \<Rightarrow> 'w \<Rightarrow> gerr \<times> 'w"
where
  "handle_interrupt L R s rs w =
     (let cp = rg_CreateCheckpoint (ordReg (rtOrders R w) (rnRegistry s));
          payload = interrupt_payload L cp (rnCompleted s) (rnLastNode s) (rnStep s) (rnLastState s) rs
      in case put_thread_only (rnEngine s) (rnThread s) payload w of
           (Some err, w1) \<Rightarrow> (WrapError ''failed to save checkpoint on interrupt'' err, w1)
         | (None, w1) \<Rightarrow>
             (GraphInterrupt (case first_interrupt rs of Some vs \<Rightarrow> vs | None \<Rightarrow> []), w1))"

text \<open>The \<open>%T\<close> verb on an error.\<close>

definition error_type :: "gerr \<Rightarrow> string" where
  "error_type e = (case e of
     EmptyChannelError _ \<Rightarrow> ''*errors.EmptyChannelError''
   | GraphRecursionError _ \<Rightarrow> ''*errors.GraphRecursionError''
   | InvalidUpdateError _ \<Rightarrow> ''*errors.InvalidUpdateError''
   | GraphBubbleUp _ _ \<Rightarrow> ''*errors.GraphBubbleUp''
   | GraphInterrupt _ \<Rightarrow> ''*errors.GraphInterrupt''
   | ParentCommand _ \<Rightarrow> ''*errors.ParentCommand''
   | EmptyInputError _ \<Rightarrow> ''*errors.EmptyInputError''
   | TaskNotFound _ \<Rightarrow> ''*errors.TaskNotFound''
   | InvalidNodeError _ _ \<Rightarrow> ''*errors.InvalidNodeError''
   | InvalidEdgeError _ _ _ \<Rightarrow> ''*errors.InvalidEdgeError''
   | ChannelNotFoundError _ \<Rightarrow> ''*errors.ChannelNotFoundError''
   | NodeNotFoundError _ \<Rightarrow> ''*errors.NodeNotFoundError''
   | ErrorContext _ _ _ _ _ \<Rightarrow> ''*errors.ErrorContext''
   | VersionConflictError _ _ _ _ \<Rightarrow> ''*checkpoint.VersionConflictError''
   | RetryExhaustedError _ _ _ _ \<Rightarrow> ''*pregel.RetryExhaustedError''
   | GraphError _ _ \<Rightarrow> ''*graph.GraphError''
   | WrapError _ _ \<Rightarrow> ''*fmt.wrapError''
   | ErrorString _ \<Rightarrow> ''*errors.errorString''
   | ContextDone m \<Rightarrow> (if m = ''context canceled'' then ''*errors.errorString''
       else ''context.deadlineExceededError'')
   | WriteValidationError _ _ \<Rightarrow> ''*pregel.WriteValidationError''
   | WriteSkipError _ \<Rightarrow> ''*pregel.WriteSkipError''
   | StoreError _ _ \<Rightarrow> ''*store.StoreError''
   | RunnableError _ _ \<Rightarrow> ''*runnable.RunnableError''
   | SuffixError _ _ \<Rightarrow> ''*fmt.wrapError'')"

definition why_failed :: "golib \<Rightarrow> task_result list \<Rightarrow> string" where
  "why_failed L rs = concat (map (\<lambda>r. CHR '' '' # trName r @ CHR ''='' #
     (case trErr r of None \<Rightarrow> ''<nil>(<nil>)''
      | Some e \<Rightarrow> error_type e @ CHR ''('' # error_text L e @ '')'')) rs)"

definition all_failed_error :: "golib \<Rightarrow> task_result list \<Rightarrow> int \<Rightarrow> gerr" where
  "all_failed_error L rs step = ErrorString (''all '' @ show_nat (length rs) @ '' tasks failed in step ''
     @ show_int step @ '': '' @ why_failed L rs)"

text \<open>Saving the checkpoint of a finished step; a nil configuration is dereferenced.\<close>

definition save_step :: "'w runtime \<Rightarrow> 'w run \<Rightarrow> 'w \<Rightarrow> (fault + 'w run) \<times> 'w" where
  "save_step R s w =
     (let e = rnEngine s in
      if egCheckpointer e = None then (Inr s, w)
      else
        (let cp = rg_CreateCheckpoint (ordReg (rtOrders R w) (rnRegistry s)) in
         case rtUUID R w of (i, w1) \<Rightarrow>
           (case egConfig e of
              None \<Rightarrow> (Inl Crash, w1)
            | Some cf \<Rightarrow>
                (if cfDurability cf = DurabilityAsync
                 then (Inr (s\<lparr>rnPending := rnPending s @ [\<lparr>dcThreadID = rnThread s, dcCheckpointID = i,
                         dcStep = rnStep s, dcCheckpoint = cp\<rparr>]\<rparr>), w1)
                 else if cfDurability cf = DurabilityExit
                 then (Inr (s\<lparr>rnEngine := deferCheckpoint (rnThread s) i (rnStep s) cp e\<rparr>), w1)
                 else (case saveCheckpoint e (rnThread s) i (rnStep s) cp w1 of
                     (Some err, w2) \<Rightarrow> (Inl (Fail (WrapError ''failed to save checkpoint'' err)), w2)
                   | (None, w2) \<Rightarrow> (Inr s, w2))))))"

text \<open>The end of a step in which some node succeeded and none interrupted.\<close>

definition commit_step ::
  "golib \<Rightarrow> 'w runtime \<Rightarrow> 'w run \<Rightarrow> task_result list \<Rightarrow> string set \<Rightarrow> 'w \<Rightarrow> 'w phase \<times> 'w"
where
  "commit_step L R s rs triggers w =
     (let od = rtOrders R w in
      case applyWrites L od (rnEngine s) (rnRegistry s) rs triggers of
        (Inl (Fail err), e1, r1) \<Rightarrow>
          (Failed (s\<lparr>rnEngine := e1, rnRegistry := r1\<rparr>) (Fail (WrapError ''failed to apply writes'' err)), w)
      | (Inl Crash, e1, r1) \<Rightarrow> (Failed (s\<lparr>rnEngine := e1, rnRegistry := r1\<rparr>) Crash, w)
      | (Inr updated, e1, r1) \<Rightarrow>
          (let r2 = snd (rg_GetValues r1 (ordReg od r1));
               s1 = s\<lparr>rnEngine := e1, rnRegistry := r2\<rparr>
           in case save_step R s1 w of
                (Inl f, w1) \<Rightarrow> (Failed s1 f, w1)
              | (Inr s2, w1) \<Rightarrow>
                  (if shouldInterruptAfter (rnEngine s2) rs
                   then (Failed s2 (Fail (GraphInterrupt [])), w1)
                   else (Running (s2\<lparr>rnStep := rnStep s2 + 1\<rparr>), w1))))"

definition take_results :: "'w run \<Rightarrow> task_result list \<Rightarrow> 'w run \<times> bool \<times> string list" where
  "take_results s rs =
     (case result_loop rs (rnCompleted s, rnLastNode s, rnLastState s, length rs > 0, []) of
        (completed, lastN, st, allFailed, names) \<Rightarrow>
          (s\<lparr>rnCompleted := completed, rnLastNode := lastN, rnLastState := st\<rparr>, allFailed, names))"

definition execute_step ::
  "golib \<Rightarrow> 'w runtime \<Rightarrow> 'w run \<Rightarrow> 'w task list \<Rightarrow> string set \<Rightarrow> 'w \<Rightarrow> 'w phase \<times> 'w"
where
  "execute_step L R s tasks triggers w =
     (case executeTasksAsync L R (rnEngine s) tasks (rnRegistry s) w of
        (Inl f, r1, w1) \<Rightarrow> (Failed (s\<lparr>rnRegistry := r1\<rparr>) f, w1)
      | (Inr rs, r1, w1) \<Rightarrow>
          (case take_results (s\<lparr>rnRegistry := r1\<rparr>) rs of
             (s1, allFailed, names) \<Rightarrow>
               (if names \<noteq> []
                then (case handle_interrupt L R s1 rs w1 of (err, w2) \<Rightarrow> (Failed s1 (Fail err), w2))
                else if allFailed then (Failed s1 (Fail (all_failed_error L rs (rnStep s1))), w1)
                else commit_step L R s1 rs triggers w1)))"

text \<open>The final state of a run that has no more tasks.\<close>

definition finish_run :: "'w runtime \<Rightarrow> 'w run \<Rightarrow> 'w \<Rightarrow> 'w phase \<times> 'w" where
  "finish_run R s w =
     (case buildOutput (rnRegistry s) (ordReg (rtOrders R w) (rnRegistry s)) (rnLastState s) of
        (out, r1) \<Rightarrow>
          (let s1 = s\<lparr>rnRegistry := r1\<rparr> in
           case egConfig (rnEngine s) of
             None \<Rightarrow> (Failed s1 Crash, w)
           | Some cf \<Rightarrow>
               (if cfDurability cf = DurabilityExit
                then (case saveDeferredCheckpoints (rnEngine s1) w of
                    (Some err, e1, w1) \<Rightarrow>
                      (Failed (s1\<lparr>rnEngine := e1\<rparr>) (Fail (WrapError ''failed to save deferred checkpoints'' err)), w1)
                  | (None, e1, w1) \<Rightarrow> (Finished (s1\<lparr>rnEngine := e1\<rparr>) out, w1))
                else (Finished s1 out, w))))"

definition superstep :: "golib \<Rightarrow> 'w runtime \<Rightarrow> 'w run \<Rightarrow> 'w \<Rightarrow> 'w phase \<times> 'w" where
  "superstep L R s w =
     (let e = rnEngine s in
      case rtCtxErr R w of
        Some err \<Rightarrow> (Failed s (Fail err), w)
      | None \<Rightarrow>
          (if rnStep s \<ge> egRecursionLimit e
           then (Failed s (Fail (GraphRecursionError (egRecursionLimit e))), w)
           else (case prepareNextTasks L R (egGraph e) (rnRegistry s) (rnCompleted s) (rnLastNode s) (rnLastState s) w of
               (Inl err, w1) \<Rightarrow> (Failed s (Fail (WrapError ''failed to prepare next tasks'' err)), w1)
             | (Inr (tasks, triggers), w1) \<Rightarrow>
                 (if length tasks = 0 then finish_run R s w1
                  else if length (shouldInterrupt e tasks) > 0 then
                    (case put_thread_only e (rnThread s)
                            (rg_CreateCheckpoint (ordReg (rtOrders R w1) (rnRegistry s))) w1 of
                       (Some err, w2) \<Rightarrow> (Failed s (Fail (WrapError ''failed to save checkpoint'' err)), w2)
                     | (None, w2) \<Rightarrow> (Failed s (Fail (GraphInterrupt [])), w2))
                  else execute_step L R s tasks triggers w1))))"

section \<open>Runs\<close>

text \<open>
  A step of a run: a superstep, or one of the pending asynchronous saves, whose error is only
  logged. Saves are made in any order, also after the run has ended.
\<close>

definition phase_run :: "'w phase \<Rightarrow> 'w run" where
  "phase_run p = (case p of Running s \<Rightarrow> s | Finished s out \<Rightarrow> s | Failed s f \<Rightarrow> s)"

definition set_run :: "'w run \<Rightarrow> 'w phase \<Rightarrow> 'w phase" where
  "set_run s p = (case p of Running _ \<Rightarrow> Running s | Finished _ out \<Rightarrow> Finished s out | Failed _ f \<Rightarrow> Failed s f)"

definition async_save :: "nat \<Rightarrow> 'w run \<Rightarrow> 'w \<Rightarrow> 'w run \<times> 'w" where
  "async_save i s w =
     (let d = rnPending s ! i
      in (s\<lparr>rnPending := take i (rnPending s) @ drop (Suc i) (rnPending s)\<rparr>,
          snd (saveCheckpoint (rnEngine s) (dcThreadID d) (dcCheckpointID d) (dcStep d) (dcCheckpoint d) w)))"

inductive run_step :: "golib \<Rightarrow> 'w runtime \<Rightarrow> 'w phase \<times> 'w \<Rightarrow> 'w phase \<times> 'w \<Rightarrow> bool"
  for L :: golib and R :: "'w runtime" where
  step: "superstep L R s w = q \<Longrightarrow> run_step L R (Running s, w) q"
| save: "i < length (rnPending (phase_run p)) \<Longrightarrow> async_save i (phase_run p) w = (s', w') \<Longrightarrow>
    run_step L R (p, w) (set_run s' p, w')"

text \<open>The schedule in which every asynchronous save is made before the next superstep.\<close>

fun flush_saves :: "nat \<Rightarrow> 'w run \<Rightarrow> 'w \<Rightarrow> 'w run \<times> 'w" where
  "flush_saves 0 s w = (s, w)"
| "flush_saves (Suc n) s w = (case async_save 0 s w of (s1, w1) \<Rightarrow> flush_saves n s1 w1)"

definition flush :: "'w run \<Rightarrow> 'w \<Rightarrow> 'w run \<times> 'w" where
  "flush s w = flush_saves (length (rnPending s)) s w"

section \<open>What a superstep leaves alone\<close>

text \<open>The settings of the engine.\<close>

definition settings :: "'w engine \<Rightarrow> 'w engine" where
  "settings e = e\<lparr>egCurrentCheckpoint := None, egChannelVersions := fmempty, egVersionsSeen := fmempty, egDeferred := []\<rparr>"

lemma settings_upd [simp]:
  "settings (e\<lparr>egCurrentCheckpoint := a\<rparr>) = settings e"
  "settings (e\<lparr>egChannelVersions := b\<rparr>) = settings e"
  "settings (e\<lparr>egVersionsSeen := c\<rparr>) = settings e"
  "settings (e\<lparr>egDeferred := d\<rparr>) = settings e"
  by (simp_all add: settings_def)

lemma settings_sel:
  "egGraph (settings e) = egGraph e" "egCheckpointer (settings e) = egCheckpointer e"
  "egRecursionLimit (settings e) = egRecursionLimit e" "egConfig (settings e) = egConfig e"
  "egInterrupts (settings e) = egInterrupts e" "egInterruptsAfter (settings e) = egInterruptsAfter e"
  by (simp_all add: settings_def)

lemma settings_eqD:
  assumes "settings e = settings e'"
  shows "egGraph e = egGraph e'" "egCheckpointer e = egCheckpointer e'"
    "egRecursionLimit e = egRecursionLimit e'" "egConfig e = egConfig e'"
    "egInterrupts e = egInterrupts e'" "egInterruptsAfter e = egInterruptsAfter e'"
  using arg_cong[OF assms, of egGraph] arg_cong[OF assms, of egCheckpointer]
    arg_cong[OF assms, of egRecursionLimit] arg_cong[OF assms, of egConfig]
    arg_cong[OF assms, of egInterrupts] arg_cong[OF assms, of egInterruptsAfter]
  by (simp_all add: settings_sel)

lemma write_loop_settings: "settings (fst (snd (write_loop L e r ws updated))) = settings e"
  by (induction L e r ws updated rule: write_loop.induct)
    (auto simp: Let_def split: option.splits sum.splits prod.splits if_splits)

lemma markSeen_settings [simp]: "settings (markSeen n c e) = settings e"
  by (simp add: markSeen_def Let_def)

lemma mark_all_settings [simp]: "settings (mark_all ns cs e) = settings e"
proof -
  have A: "settings (fold (\<lambda>c e. markSeen n c e) cs e) = settings e" for n e
    by (induction cs arbitrary: e) simp_all
  show ?thesis unfolding mark_all_def by (induction ns arbitrary: e) (simp_all add: A)
qed

lemma store_pending_settings [simp]: "settings (store_pending ps e) = settings e"
  by (simp add: store_pending_def)

lemma applyWrites_settings: "settings (fst (snd (applyWrites L od e r rs tr))) = settings e"
proof (cases "collect_results L od (egGraph e) (sort_key trName rs) fmempty fmempty")
  case (Inl f)
  then show ?thesis by (simp add: applyWrites_def)
next
  case (Inr wp)
  obtain ws ps where wp: "wp = (ws, ps)" by (cases wp)
  obtain res e1 r1 where wl: "write_loop L e r (ordWrites od ws) {} = (res, e1, r1)"
    by (metis prod_cases3)
  from write_loop_settings[of L e r "ordWrites od ws" "{}"] wl have "settings e1 = settings e" by simp
  then show ?thesis using Inr wp wl by (cases res) (simp_all add: applyWrites_def Let_def)
qed

text \<open>A superstep that goes on has counted one step and kept the thread and the settings.\<close>

definition advanced :: "'w run \<Rightarrow> 'w run \<Rightarrow> bool" where
  "advanced s s' \<longleftrightarrow> settings (rnEngine s') = settings (rnEngine s) \<and> rnThread s' = rnThread s"

lemma advanced_trans: "advanced s t \<Longrightarrow> advanced t u \<Longrightarrow> advanced s u"
  by (simp add: advanced_def)

lemma save_step_advanced:
  "save_step R s w = (Inr s', w') \<Longrightarrow> advanced s s' \<and> rnStep s' = rnStep s"
  by (auto simp: save_step_def advanced_def deferCheckpoint_def Let_def
      split: if_splits prod.splits option.splits)

lemma commit_step_advanced:
  assumes "commit_step L R s rs tr w = (Running s', w')"
  shows "advanced s s' \<and> rnStep s' = rnStep s + 1"
proof -
  obtain res e1 r1 where aw: "applyWrites L (rtOrders R w) (rnEngine s) (rnRegistry s) rs tr = (res, e1, r1)"
    by (metis prod_cases3)
  from applyWrites_settings[of L "rtOrders R w" "rnEngine s" "rnRegistry s" rs tr] aw
  have e1: "settings e1 = settings (rnEngine s)" by simp
  show ?thesis
  proof (cases res)
    case (Inl f)
    with assms aw show ?thesis by (cases f) (auto simp: commit_step_def)
  next
    case (Inr updated)
    let ?s1 = "s\<lparr>rnEngine := e1, rnRegistry := snd (rg_GetValues r1 (ordReg (rtOrders R w) r1))\<rparr>"
    from assms aw Inr obtain s2 w1 where s2: "save_step R ?s1 w = (Inr s2, w1)"
      and s': "s' = s2\<lparr>rnStep := rnStep s2 + 1\<rparr>"
      by (auto simp: commit_step_def Let_def split: sum.splits prod.splits if_splits)
    from save_step_advanced[OF s2] e1 s' show ?thesis by (simp add: advanced_def)
  qed
qed

lemma take_results_advanced: "take_results s rs = (s', af, ns) \<Longrightarrow> advanced s s' \<and> rnStep s' = rnStep s"
  by (auto simp: take_results_def advanced_def split: prod.splits)

lemma execute_step_advanced:
  "execute_step L R s ts tr w = (Running s', w') \<Longrightarrow> advanced s s' \<and> rnStep s' = rnStep s + 1"
  by (auto simp: execute_step_def split: prod.splits sum.splits if_splits
      dest!: take_results_advanced commit_step_advanced)
    (auto simp: advanced_def)

lemma finish_run_not_running: "finish_run R s w \<noteq> (Running s', w')"
  by (auto simp: finish_run_def Let_def split: prod.splits option.splits if_splits)

lemma superstep_advanced:
  assumes "superstep L R s w = (Running s', w')"
  shows "advanced s s' \<and> rnStep s' = rnStep s + 1 \<and> rnStep s < egRecursionLimit (rnEngine s)"
  using assms finish_run_not_running[of R s _ s' w'] execute_step_advanced[of L R s _ _ _ s' w']
  by (auto simp: superstep_def Let_def split: option.splits prod.splits sum.splits if_splits)

lemma async_save_advanced: "async_save i s w = (s', w') \<Longrightarrow> advanced s s' \<and> rnStep s' = rnStep s"
  by (auto simp: async_save_def advanced_def Let_def)

lemma flush_saves_advanced: "flush_saves n s w = (s', w') \<Longrightarrow> advanced s s' \<and> rnStep s' = rnStep s"
proof (induction n s w rule: flush_saves.induct)
  case (1 s w)
  then show ?case by (simp add: advanced_def)
next
  case (2 n s w)
  obtain s1 w1 where s1: "async_save 0 s w = (s1, w1)" by (cases "async_save 0 s w")
  with 2 async_save_advanced[OF s1] show ?case by (auto intro: advanced_trans)
qed

text \<open>The number of supersteps that are left.\<close>

definition steps_left :: "'w run \<Rightarrow> nat" where
  "steps_left s = nat (egRecursionLimit (rnEngine s) - rnStep s)"

lemma steps_left_same: "advanced s s' \<Longrightarrow> rnStep s' = rnStep s \<Longrightarrow> steps_left s' = steps_left s"
  using settings_eqD(3)[of "rnEngine s'" "rnEngine s"] by (simp add: steps_left_def advanced_def)

lemma superstep_steps_left:
  assumes "superstep L R s w = (Running s', w')"
  shows "steps_left s = Suc (steps_left s')"
  using superstep_advanced[OF assms] settings_eqD(3)[of "rnEngine s'" "rnEngine s"]
  by (simp add: steps_left_def advanced_def) linarith

section \<open>The whole run\<close>

function run_loop :: "golib \<Rightarrow> 'w runtime \<Rightarrow> 'w run \<Rightarrow> 'w \<Rightarrow> 'w phase \<times> 'w" where
  "run_loop L R s w =
     (case superstep L R s w of
        (Running s1, w1) \<Rightarrow> (case flush s1 w1 of (s2, w2) \<Rightarrow> run_loop L R s2 w2)
      | (p, w1) \<Rightarrow> (p, w1))"
  by pat_completeness auto
termination
proof (relation "measure (\<lambda>(L, R, s, w). steps_left s)", goal_cases)
  case 1
  show ?case by simp
next
  case (2 L R s w q w1 s1 q2 s2)
  then have st: "superstep L R s w = (Running s1, w1)"
    and fl: "flush_saves (length (rnPending s1)) s1 w1 = (q2, s2)" by (simp_all add: flush_def)
  from flush_saves_advanced[OF fl] have "steps_left q2 = steps_left s1" by (simp add: steps_left_same)
  with superstep_steps_left[OF st] show ?case by simp
qed

declare run_loop.simps [simp del]

text \<open>
  \<open>RunSync\<close>: the final state reaches the caller through the forwarding goroutine, which stops
  when the context ends: \<open>rtForward\<close>. The result without it is nil.
\<close>

definition RunSync ::
  "golib \<Rightarrow> 'w runtime \<Rightarrow> 'w engine \<Rightarrow> gval \<Rightarrow> 'w \<Rightarrow> (fault + gval) \<times> 'w phase option \<times> 'w"
where
  "RunSync L R e input w =
     (case start_run L R e input w of
        (Inl err, w1) \<Rightarrow> (Inl (Fail err), None, w1)
      | (Inr s, w1) \<Rightarrow>
          (case run_loop L R s w1 of
             (Finished s2 out, w2) \<Rightarrow>
               (Inr (if rtForward R w2 then out else VNil), Some (Finished s2 out), w2)
           | (Failed s2 f, w2) \<Rightarrow> (Inl f, Some (Failed s2 f), w2)
           | (Running s2, w2) \<Rightarrow> (Inl Crash, Some (Running s2), w2)))"

text \<open>
  \<open>runCompiledGraph\<close> and \<open>Invoke\<close>. The interrupt keys are passed in some order; \<open>asSaver\<close> is the
  assertion that the compiled graph's checkpointer is a saver.
\<close>

definition runCompiledGraph ::
  "golib \<Rightarrow> 'w runtime \<Rightarrow> ('c \<Rightarrow> 'w saver option) \<Rightarrow> ('w, 'c) compiled \<Rightarrow> gval \<Rightarrow> runnable_config option \<Rightarrow> 'w
   \<Rightarrow> (fault + gval) \<times> 'w phase option \<times> 'w"
where
  "runCompiledGraph L R asSaver cg input cfg w =
     (let od = rtOrders R w;
          e = NewEngine (cgGraph cg)
            [eo_WithCheckpointer (Option.bind (cgCheckpointer cg) asSaver), eo_WithInterrupts (ordSet od (cgInterrupts cg)),
             eo_WithInterruptsAfter (ordSet od (cgInterruptsAfter cg)),
             eo_WithRecursionLimit (cgRecursionLimit cg), eo_WithConfig cfg]
      in RunSync L R e input w)"

definition cg_Invoke ::
  "golib \<Rightarrow> 'w runtime \<Rightarrow> ('c \<Rightarrow> 'w saver option) \<Rightarrow> ('w, 'c) compiled \<Rightarrow> gval \<Rightarrow> runnable_config option list \<Rightarrow> 'w
   \<Rightarrow> (fault + gval) \<times> 'w phase option \<times> 'w"
where
  "cg_Invoke L R asSaver cg input cfgs w =
     (let rc = (case cfgs of Some c # _ \<Rightarrow> c | _ \<Rightarrow> zero_config)
      in runCompiledGraph L R asSaver cg input (Some rc) w)"

section \<open>Every run comes to an end\<close>

inductive_cases run_stepE: "run_step L R (p, w) q"

inductive_simps run_step_finished: "run_step L R (Finished s out, w) q"

inductive_simps run_step_failed: "run_step L R (Failed s f, w) q"

lemma phase_run_set [simp]: "phase_run (set_run s p) = s"
  by (cases p) (simp_all add: phase_run_def set_run_def)

lemma phase_run_simps [simp]:
  "phase_run (Running s) = s" "phase_run (Finished s out) = s" "phase_run (Failed s f) = s"
  by (simp_all add: phase_run_def)

text \<open>How a superstep leaves the settings, whatever phase it ends in.\<close>

definition moved :: "'w run \<Rightarrow> 'w run \<Rightarrow> bool" where
  "moved s s' \<longleftrightarrow> advanced s s' \<and> length (rnPending s') \<le> Suc (length (rnPending s))"

lemma applyWrites_settings_eq:
  "applyWrites L od e r rs tr = (res, e1, r1) \<Longrightarrow> settings e1 = settings e"
  using applyWrites_settings[of L od e r rs tr] by simp

lemma saveDeferred_settings: "saveDeferredCheckpoints e w = (err, e1, w1) \<Longrightarrow> settings e1 = settings e"
  by (auto simp: saveDeferredCheckpoints_def split: if_splits prod.splits)

lemma moved_same [simp]: "moved s s"
  by (simp add: moved_def advanced_def)

lemma save_step_moved: "save_step R s w = (Inr s', w') \<Longrightarrow> moved s s'"
  by (auto simp: save_step_def moved_def advanced_def deferCheckpoint_def Let_def
      split: if_splits prod.splits option.splits)

lemma commit_step_moved: "commit_step L R s rs tr w = (p, w') \<Longrightarrow> moved s (phase_run p)"
  by (auto simp: commit_step_def Let_def moved_def advanced_def
      split: sum.splits prod.splits if_splits fault.splits
      dest!: applyWrites_settings_eq save_step_moved)

lemma take_results_moved:
  "take_results s rs = (s', af, ns) \<Longrightarrow> advanced s s' \<and> rnPending s' = rnPending s"
  by (auto simp: take_results_def advanced_def split: prod.splits)

lemma execute_step_moved: "execute_step L R s ts tr w = (p, w') \<Longrightarrow> moved s (phase_run p)"
  by (auto simp: execute_step_def split: prod.splits sum.splits if_splits
      dest!: take_results_moved commit_step_moved)
    (auto simp: moved_def advanced_def)

lemma finish_run_moved: "finish_run R s w = (p, w') \<Longrightarrow> moved s (phase_run p)"
  by (auto simp: finish_run_def Let_def moved_def advanced_def
      split: prod.splits option.splits if_splits dest!: saveDeferred_settings)

lemma superstep_moved: "superstep L R s w = (p, w') \<Longrightarrow> moved s (phase_run p)"
  by (auto simp: superstep_def Let_def split: option.splits prod.splits sum.splits if_splits
      intro: execute_step_moved finish_run_moved)

text \<open>A superstep counts for two: it ends one step and may leave one save behind.\<close>

definition work :: "'w phase \<times> 'w \<Rightarrow> nat" where
  "work q = (case fst q of Running s \<Rightarrow> 2 * steps_left s + 2 | _ \<Rightarrow> 0) + length (rnPending (phase_run (fst q)))"

lemma async_save_pending:
  "i < length (rnPending s) \<Longrightarrow> async_save i s w = (s', w') \<Longrightarrow>
   Suc (length (rnPending s')) = length (rnPending s)"
  by (auto simp: async_save_def Let_def)

lemma run_step_work: "run_step L R q q' \<Longrightarrow> work q' < work q"
proof (induction rule: run_step.induct)
  case (step s w q)
  obtain p w' where q: "q = (p, w')" by (cases q)
  have mv: "moved s (phase_run p)" using superstep_moved[of L R s w p w'] step q by simp
  show ?case
  proof (cases p)
    case (Running s')
    with step q have "steps_left s = Suc (steps_left s')" by (auto dest: superstep_steps_left)
    with mv show ?thesis by (simp add: q Running work_def moved_def)
  qed (use mv in \<open>simp_all add: q work_def moved_def\<close>)
next
  case (save i p w s' w')
  from async_save_advanced[OF save(2)] have "steps_left s' = steps_left (phase_run p)"
    by (simp add: steps_left_same)
  moreover note async_save_pending[OF save]
  ultimately show ?case by (cases p) (simp_all add: work_def set_run_def)
qed

text \<open>\<open>run_loop\<close> is one of the schedules.\<close>

lemma flush_saves_steps:
  "n \<le> length (rnPending s) \<Longrightarrow> flush_saves n s w = (s', w') \<Longrightarrow>
   (run_step L R)\<^sup>*\<^sup>* (Running s, w) (Running s', w') \<and> length (rnPending s') = length (rnPending s) - n"
proof (induction n s w arbitrary: s' w' rule: flush_saves.induct)
  case (1 s w)
  then show ?case by simp
next
  case (2 n s w)
  obtain s1 w1 where s1: "async_save 0 s w = (s1, w1)" by (cases "async_save 0 s w")
  from 2(2) have "0 < length (rnPending s)" by linarith
  with s1 have "run_step L R (Running s, w) (Running s1, w1)"
    using run_step.save[of 0 "Running s" w s1 w1 L R] by (simp add: set_run_def)
  moreover have "Suc (length (rnPending s1)) = length (rnPending s)"
    using async_save_pending[OF \<open>0 < length (rnPending s)\<close> s1] .
  moreover from this 2 s1 have "(run_step L R)\<^sup>*\<^sup>* (Running s1, w1) (Running s', w') \<and>
      length (rnPending s') = length (rnPending s1) - n" by simp
  ultimately show ?case by (auto intro: converse_rtranclp_into_rtranclp)
qed

definition ended :: "'w phase \<Rightarrow> bool" where
  "ended p = (case p of Running _ \<Rightarrow> False | _ \<Rightarrow> True)"

lemma run_loop_steps: "(run_step L R)\<^sup>*\<^sup>* (Running s, w) (run_loop L R s w) \<and> ended (fst (run_loop L R s w))"
proof (induction L R s w rule: run_loop.induct)
  case (1 L R s w)
  obtain p w1 where st: "superstep L R s w = (p, w1)" by (cases "superstep L R s w")
  then have first: "run_step L R (Running s, w) (p, w1)" by (rule run_step.step)
  show ?case
  proof (cases p)
    case (Running s1)
    obtain s2 w2 where fl: "flush_saves (length (rnPending s1)) s1 w1 = (s2, w2)"
      by (cases "flush_saves (length (rnPending s1)) s1 w1")
    from flush_saves_steps[OF order_refl fl]
    have mid: "(run_step L R)\<^sup>*\<^sup>* (Running s1, w1) (Running s2, w2)" by blast
    have eq: "run_loop L R s w = run_loop L R s2 w2"
      using st Running fl by (subst run_loop.simps) (simp add: flush_def)
    have IH: "(run_step L R)\<^sup>*\<^sup>* (Running s2, w2) (run_loop L R s2 w2) \<and> ended (fst (run_loop L R s2 w2))"
      using "1.IH"[of p w1 s1 s2 w2] st Running fl by (simp add: flush_def)
    with first mid Running eq show ?thesis by (auto intro: converse_rtranclp_into_rtranclp)
  next
    case (Finished s1 out)
    with st have "run_loop L R s w = (p, w1)" by (subst run_loop.simps) simp
    with first Finished show ?thesis by (auto simp: ended_def)
  next
    case (Failed s1 f)
    with st have "run_loop L R s w = (p, w1)" by (subst run_loop.simps) simp
    with first Failed show ?thesis by (auto simp: ended_def)
  qed
qed

lemma run_steps_bound:
  "(run_step L R)\<^sup>*\<^sup>* q q' \<Longrightarrow>
   settings (rnEngine (phase_run (fst q'))) = settings (rnEngine (phase_run (fst q))) \<and>
   rnThread (phase_run (fst q')) = rnThread (phase_run (fst q))"
proof (induction rule: rtranclp_induct)
  case base
  show ?case by simp
next
  case (step q1 q2)
  from step(2) have "advanced (phase_run (fst q1)) (phase_run (fst q2))"
  proof cases
    case (step s w)
    then show ?thesis using superstep_moved[of L R s w "fst q2" "snd q2"] by (simp add: moved_def)
  next
    case (save i p w s' w')
    then show ?thesis using async_save_advanced[of i "phase_run p" w s' w'] by simp
  qed
  with step.IH show ?case by (simp add: advanced_def)
qed

end
