(* ===== verification/Engine_Sched.thy ===== *)
theory Engine_Sched
  imports Engine_Run
begin

text \<open>
  Which nodes a superstep runs: the schedule of the all-predecessor mode, the nodes that follow a
  node in the other mode, the tasks made from them and their results, and what is true of the
  completed nodes in every state of a run.
\<close>

section \<open>Tasks\<close>

lemma make_task_fields [simp]:
  "make_task R fe nd st chs w = (t, w') \<Longrightarrow>
   tkName t = ndName nd \<and> tkChannels t = chs \<and> tkRetryPolicy t = None"
  by (auto simp: make_task_def createTask_def createTaskInfo_def split: if_splits prod.splits)

lemma wf_node_name: "wf_graph g \<Longrightarrow> fmlookup (sgNodes g) n = Some nd \<Longrightarrow> ndName nd = n"
  by (simp add: wf_graph_def)

lemma tasks_loop_tasks:
  "wf_graph g \<Longrightarrow> tasks_loop R g fe all st ns w = ((ts, tr), w') \<Longrightarrow>
    map tkName ts = filter (\<lambda>n. n \<in> fmdom' (sgNodes g)) ns \<and> (\<forall>t \<in> set ts. tkRetryPolicy t = None)"
proof (induction R g fe all st ns w arbitrary: ts tr w' rule: tasks_loop.induct)
  case (1 R g fe all st w)
  then show ?case by simp
next
  case (2 R g fe all st n ns w)
  show ?case
  proof (cases "fmlookup (sgNodes g) n")
    case None
    with 2 show ?thesis by (simp add: GetNode_def fmlookup_dom'_iff)
  next
    case (Some nd)
    obtain t w1 where t: "make_task R fe nd st (node_channels nd all) w = (t, w1)" by fastforce
    obtain ts1 tr1 w2 where ts1: "tasks_loop R g fe all st ns w1 = ((ts1, tr1), w2)" by (metis prod.exhaust)
    from 2(4) Some t ts1 have ts: "ts = t # ts1" by (simp add: GetNode_def Let_def)
    have "map tkName ts1 = filter (\<lambda>n. n \<in> fmdom' (sgNodes g)) ns \<and> (\<forall>t \<in> set ts1. tkRetryPolicy t = None)"
      using "2.IH"(2) 2(3) Some t ts1 by (auto simp: GetNode_def)
    moreover have "tkName t = n"
      using make_task_fields[OF t] wf_node_name[OF 2(3) Some] by simp
    ultimately show ?thesis
      using make_task_fields[OF t] Some by (auto simp: ts fmlookup_dom'_iff)
  qed
qed

section \<open>The all-predecessor mode\<close>

lemma incoming_fold:
  "fmlookup_default [] (fold (\<lambda>e adj. fmupd (edTo e) (fmlookup_default [] adj (edTo e) @ [edFrom e]) adj) es m) n =
   fmlookup_default [] m n @ map edFrom (filter (\<lambda>e. edTo e = n) es)"
  by (induction es arbitrary: m) auto

lemma buildIncomingEdges_lookup:
  "fmlookup_default [] (buildIncomingEdges g) n = map edFrom (filter (\<lambda>e. edTo e = n) (sgEdges g))"
  by (simp add: buildIncomingEdges_def incoming_fold)

text \<open>A node may start when it has not completed and the sources of the edges into it have.\<close>

definition ready :: "'w sgraph \<Rightarrow> string set \<Rightarrow> string \<Rightarrow> bool" where
  "ready g completed n \<longleftrightarrow> n \<in> fmdom' (sgNodes g) \<and> n \<notin> completed \<and>
     (\<forall>e \<in> set (sgEdges g). edTo e = n \<longrightarrow> edFrom e \<in> {Start, End} \<union> completed)"

lemma dag_ready_iff: "dag_ready g completed n \<longleftrightarrow> n \<notin> completed \<and>
     (\<forall>e \<in> set (sgEdges g). edTo e = n \<longrightarrow> edFrom e \<in> {Start, End} \<union> completed)"
  by (auto simp: dag_ready_def buildIncomingEdges_lookup list_all_iff)

lemma prepareDAG_tasks:
  assumes wf: "wf_graph g" and od: "orders_ok (rtOrders R w)"
    and p: "prepareNextTasksDAG R g completed st fe w = ((ts, tr), w')"
  shows "distinct (map tkName ts) \<and> set (map tkName ts) = {n. ready g completed n} \<and>
    (\<forall>t \<in> set ts. tkRetryPolicy t = None)"
proof -
  let ?ns = "filter (dag_ready g completed) (ordSet (rtOrders R w) (fmdom' (sgNodes g)))"
  have "map tkName ts = filter (\<lambda>n. n \<in> fmdom' (sgNodes g)) ?ns \<and> (\<forall>t \<in> set ts. tkRetryPolicy t = None)"
    using tasks_loop_tasks[OF wf] p by (simp add: prepareNextTasksDAG_def Let_def)
  moreover have "set (ordSet (rtOrders R w) (fmdom' (sgNodes g))) = fmdom' (sgNodes g)"
      "distinct (ordSet (rtOrders R w) (fmdom' (sgNodes g)))"
    using od by (simp_all add: orders_ok_def)
  ultimately show ?thesis by (auto simp: dag_ready_iff ready_def)
qed

text \<open>What every schedule is made of.\<close>

lemma prepare_tasks:
  assumes wf: "wf_graph g" and od: "orders_ok (rtOrders R w)"
    and p: "prepareNextTasks L R g r completed lastN st w = (Inr (ts, tr), w')"
  shows "set (map tkName ts) \<subseteq> fmdom' (sgNodes g) \<and> (\<forall>t \<in> set ts. tkRetryPolicy t = None) \<and>
    (completed = {} \<longrightarrow> map tkName ts = (if sgEntryPoint g = End then [] else [sgEntryPoint g])) \<and>
    (completed \<noteq> {} \<and> sgNodeTriggerMode g = NodeTriggerAllPredecessor \<longrightarrow>
       distinct (map tkName ts) \<and> set (map tkName ts) = {n. ready g completed n})"
proof (cases "completed = {}")
  case True
  then show ?thesis using p wf
    by (auto simp: prepareNextTasks_def prepareNextTasksWithMode_def Let_def createTask_def GetNode_def
        wf_graph_def fmlookup_dom'_iff split: if_splits option.splits prod.splits)
next
  case False
  show ?thesis
  proof (cases "sgNodeTriggerMode g = NodeTriggerAllPredecessor")
    case True
    with False p obtain w1 where "prepareNextTasksDAG R g completed st True w = ((ts, tr), w1)"
      by (auto simp: prepareNextTasks_def prepareNextTasksWithMode_def Let_def split: prod.splits)
    from prepareDAG_tasks[OF wf od this] False show ?thesis by (auto simp: ready_def)
  next
    case mode: False
    with False p obtain ns w1 w2 where
      "tasks_loop R g True (rg_Names (ordReg (rtOrders R w) r)) st ns w1 = ((ts, tr), w2)"
      by (auto simp: prepareNextTasks_def prepareNextTasksWithMode_def Let_def split: prod.splits)
    from tasks_loop_tasks[OF wf this] False mode show ?thesis by auto
  qed
qed

section \<open>Results\<close>

lemma run_task_name: "run_task L R e t v w = (Inr res, w') \<Longrightarrow> trName res = tkName t"
  by (auto simp: run_task_def split: sum.splits option.splits prod.splits)

lemma run_tasks_names:
  "run_tasks L R e ts inputs is f w = (Inr f', w') \<Longrightarrow>
   trName (f' i) = (if i \<in> set is then tkName (ts ! i) else trName (f i))"
proof (induction L R e ts inputs "is" f w arbitrary: f' w' rule: run_tasks.induct)
  case (1 L R e ts inputs f w)
  then show ?case by simp
next
  case (2 L R e ts inputs j "is" f w)
  obtain res w1 where r: "run_task L R e (ts ! j) (inputs j) w = (Inr res, w1)"
    using 2(2) by (auto split: sum.splits prod.splits)
  from 2(2) r have f': "run_tasks L R e ts inputs is (f(j := res)) w1 = (Inr f', w')" by simp
  have "trName (f' i) = (if i \<in> set is then tkName (ts ! i) else trName ((f(j := res)) i))"
    by (rule "2.IH"[OF _ _ f']) (simp_all add: r)
  with run_task_name[OF r] show ?case by auto
qed

lemma executeTasksAsync_names:
  assumes "orders_ok (rtOrders R w)"
    and "executeTasksAsync L R e ts r w = (Inr rs, r', w')"
  shows "map trName rs = map tkName ts"
proof -
  obtain inputs r1 where i: "read_inputs r ts (ordTasks (rtOrders R w) (length ts)) (\<lambda>_. Inr VNil) = (inputs, r1)"
    by fastforce
  from assms(2) i obtain f where
    f: "run_tasks L R e ts inputs (ordTasks (rtOrders R w) (length ts))
      (\<lambda>_. \<lparr>trName = [], trOutput = VNil, trErr = None\<rparr>) w = (Inr f, w')"
    and rs: "rs = map f [0..<length ts]"
    by (auto simp: executeTasksAsync_def Let_def split: sum.splits prod.splits)
  have "trName (f j) = tkName (ts ! j)" if "j < length ts" for j
    using run_tasks_names[OF f, of j] that assms(1) by (simp add: orders_ok_def)
  then show ?thesis by (auto simp: rs intro: nth_equalityI)
qed

lemma result_loop_completed:
  "result_loop rs (c, ln, st, af, ns) = (c', ln', st', af', ns') \<Longrightarrow>
   c \<subseteq> c' \<and> c' \<subseteq> c \<union> trName ` set rs"
proof (induction rs arbitrary: c ln st af ns)
  case Nil
  then show ?case by simp
next
  case (Cons r rs)
  then show ?case by (fastforce split: if_splits)
qed

section \<open>Completed nodes\<close>

definition sound_completed :: "'w sgraph \<Rightarrow> string set \<Rightarrow> bool" where
  "sound_completed g completed \<longleftrightarrow> completed \<subseteq> fmdom' (sgNodes g) \<and>
     (sgNodeTriggerMode g = NodeTriggerAllPredecessor \<longrightarrow>
       (\<forall>n \<in> completed. n \<noteq> sgEntryPoint g \<longrightarrow>
         (\<forall>e \<in> set (sgEdges g). edTo e = n \<longrightarrow> edFrom e \<in> {Start, End} \<union> completed)))"

lemma sound_completed_grow:
  assumes "sound_completed g c" and "c \<subseteq> c'" and "c' \<subseteq> c \<union> N" and "N \<subseteq> fmdom' (sgNodes g)"
    and "sgNodeTriggerMode g = NodeTriggerAllPredecessor \<Longrightarrow> N \<subseteq> {sgEntryPoint g} \<union> {n. ready g c n}"
  shows "sound_completed g c'"
  unfolding sound_completed_def
proof (intro conjI impI ballI)
  show "c' \<subseteq> fmdom' (sgNodes g)" using assms(1,3,4) by (auto simp: sound_completed_def)
next
  fix n e
  assume mode: "sgNodeTriggerMode g = NodeTriggerAllPredecessor" and n: "n \<in> c'" "n \<noteq> sgEntryPoint g"
    and e: "e \<in> set (sgEdges g)" "edTo e = n"
  have "edFrom e \<in> {Start, End} \<union> c"
  proof (cases "n \<in> c")
    case True
    with assms(1) mode n e show ?thesis by (simp add: sound_completed_def)
  next
    case False
    with n assms(3) assms(5)[OF mode] have "ready g c n" by auto
    with e show ?thesis by (simp add: ready_def)
  qed
  with assms(2) show "edFrom e \<in> {Start, End} \<union> c'" by auto
qed

text \<open>What a superstep does to the set: nothing, or it adds nodes that were scheduled.\<close>

lemma save_step_completed: "save_step R s w = (Inr s', w') \<Longrightarrow> rnCompleted s' = rnCompleted s"
  by (auto simp: save_step_def Let_def split: if_splits prod.splits option.splits)

lemma commit_step_completed:
  "commit_step L R s rs tr w = (p, w') \<Longrightarrow> rnCompleted (phase_run p) = rnCompleted s"
  by (auto simp: commit_step_def Let_def split: sum.splits prod.splits if_splits fault.splits
      dest!: save_step_completed)

lemma take_results_completed:
  "take_results s rs = (s', af, ns) \<Longrightarrow>
   rnCompleted s \<subseteq> rnCompleted s' \<and> rnCompleted s' \<subseteq> rnCompleted s \<union> trName ` set rs"
  by (auto simp: take_results_def split: prod.splits dest!: result_loop_completed)

lemma execute_step_completed:
  assumes "orders_ok (rtOrders R w)" and "execute_step L R s ts tr w = (p, w')"
  shows "rnCompleted s \<subseteq> rnCompleted (phase_run p) \<and>
    rnCompleted (phase_run p) \<subseteq> rnCompleted s \<union> tkName ` set ts"
proof (cases "executeTasksAsync L R (rnEngine s) ts (rnRegistry s) w")
  case (fields res r1 w1)
  show ?thesis
  proof (cases res)
    case (Inl f)
    with fields assms(2) show ?thesis by (auto simp: execute_step_def)
  next
    case (Inr rs)
    obtain s1 af ns where tr: "take_results (s\<lparr>rnRegistry := r1\<rparr>) rs = (s1, af, ns)" by (metis prod_cases3)
    have "map trName rs = map tkName ts"
      using executeTasksAsync_names[OF assms(1)] fields Inr by blast
    then have "trName ` set rs = tkName ` set ts" by (metis set_map)
    with take_results_completed[OF tr] have "rnCompleted s \<subseteq> rnCompleted s1 \<and>
        rnCompleted s1 \<subseteq> rnCompleted s \<union> tkName ` set ts" by simp
    moreover have "rnCompleted (phase_run p) = rnCompleted s1"
      using assms(2) fields Inr tr
      by (auto simp: execute_step_def split: if_splits prod.splits dest!: commit_step_completed)
    ultimately show ?thesis by simp
  qed
qed

lemma finish_run_completed: "finish_run R s w = (p, w') \<Longrightarrow> rnCompleted (phase_run p) = rnCompleted s"
  by (auto simp: finish_run_def Let_def split: prod.splits option.splits if_splits)

text \<open>Iteration visits every entry once, at every moment.\<close>

definition runtime_ok :: "'w runtime \<Rightarrow> bool" where
  "runtime_ok R \<longleftrightarrow> (\<forall>w. orders_ok (rtOrders R w))"

lemma runtime_okD: "runtime_ok R \<Longrightarrow> orders_ok (rtOrders R w)"
  by (simp add: runtime_ok_def)

lemma superstep_completed:
  assumes ok: "runtime_ok R" and wf: "wf_graph (egGraph (rnEngine s))"
    and st: "superstep L R s w = (p, w')"
    and sound: "sound_completed (egGraph (rnEngine s)) (rnCompleted s)"
  shows "sound_completed (egGraph (rnEngine s)) (rnCompleted (phase_run p))"
proof -
  consider (same) "rnCompleted (phase_run p) = rnCompleted s"
    | (ran) ts tr w1 where
      "prepareNextTasks L R (egGraph (rnEngine s)) (rnRegistry s) (rnCompleted s) (rnLastNode s) (rnLastState s) w = (Inr (ts, tr), w1)"
      "execute_step L R s ts tr w1 = (p, w')"
    using st
    by (auto simp: superstep_def Let_def split: option.splits prod.splits sum.splits if_splits
        dest!: finish_run_completed)
  then show ?thesis
  proof cases
    case same
    with sound show ?thesis by simp
  next
    case ran
    note tasks = prepare_tasks[OF wf runtime_okD[OF ok] ran(1)]
    from execute_step_completed[OF runtime_okD[OF ok] ran(2)]
    have grow: "rnCompleted s \<subseteq> rnCompleted (phase_run p)"
        "rnCompleted (phase_run p) \<subseteq> rnCompleted s \<union> tkName ` set ts" by simp_all
    have "tkName ` set ts \<subseteq> {sgEntryPoint (egGraph (rnEngine s))} \<union>
        {n. ready (egGraph (rnEngine s)) (rnCompleted s) n}"
      if "sgNodeTriggerMode (egGraph (rnEngine s)) = NodeTriggerAllPredecessor"
    proof (cases "rnCompleted s = {}")
      case True
      with tasks have "map tkName ts = [] \<or> map tkName ts = [sgEntryPoint (egGraph (rnEngine s))]" by simp
      then have "set (map tkName ts) \<subseteq> {sgEntryPoint (egGraph (rnEngine s))}" by auto
      then show ?thesis by auto
    next
      case False
      with tasks that show ?thesis by auto
    qed
    with sound_completed_grow[OF sound grow] tasks show ?thesis by simp
  qed
qed

lemma run_steps_completed:
  assumes ok: "runtime_ok R"
  shows "(run_step L R)\<^sup>*\<^sup>* q q' \<Longrightarrow> wf_graph (egGraph (rnEngine (phase_run (fst q)))) \<Longrightarrow>
    sound_completed (egGraph (rnEngine (phase_run (fst q)))) (rnCompleted (phase_run (fst q))) \<Longrightarrow>
    sound_completed (egGraph (rnEngine (phase_run (fst q)))) (rnCompleted (phase_run (fst q')))"
proof (induction rule: rtranclp_induct)
  case base
  then show ?case by simp
next
  case (step q1 q2)
  have g: "egGraph (rnEngine (phase_run (fst q1))) = egGraph (rnEngine (phase_run (fst q)))"
    using run_steps_bound[OF step(1)] by (auto intro: settings_eqD(1))
  from step(2) show ?case
  proof cases
    case (step s w)
    with superstep_completed[OF ok, of s L w "fst q2" "snd q2"] "step.IH" "step.prems" g
    show ?thesis by simp
  next
    case (save i p w s' w')
    then show ?thesis using step.IH[OF step.prems] by (auto simp: async_save_def Let_def)
  qed
qed

section \<open>A run to the end\<close>

text \<open>
  A concrete run for the witnesses: two nodes that return their input, one after the other, in
  all-predecessor mode.
\<close>

definition demo_orders :: orders where
  "demo_orders = \<lparr>ordInput = sorted_list_of_fmap, ordReg = sorted_list_of_fmap, ordSet = sorted_list_of_set,
     ordWrites = sorted_list_of_fmap, ordPending = sorted_list_of_fmap, ordTasks = (\<lambda>n. [0..<n])\<rparr>"

lemma demo_orders_ok: "orders_ok demo_orders"
  by (simp add: orders_ok_def demo_orders_def entries_sorted)

definition demo_runtime :: "'w runtime" where
  "demo_runtime = \<lparr>rtCtxErr = (\<lambda>_. None), rtAbandon = (\<lambda>w. (None, w)), rtUUID = (\<lambda>w. (''u'', w)),
     rtNow = (\<lambda>w. (0, w)), rtRetry = \<lparr>reWait = (\<lambda>d w. (None, w)), reRand = (\<lambda>w. (0, w))\<rparr>,
     rtOrders = (\<lambda>w. demo_orders), rtSetSub = (\<lambda>s w. w), rtForward = (\<lambda>w. True)\<rparr>"

lemma demo_runtime_ok: "runtime_ok demo_runtime"
  by (simp add: runtime_ok_def demo_runtime_def demo_orders_ok)

definition dag_graph :: "unit sgraph" where
  "dag_graph = SetNodeTriggerMode demo_graph NodeTriggerAllPredecessor"

lemma dag_graph_simps [simp]:
  "GetNode dag_graph n = GetNode demo_graph n"
  "sgNodes dag_graph = sgNodes demo_graph" "sgEntryPoint dag_graph = ''a''" "sgEdges dag_graph = sgEdges demo_graph"
  "sgNodeTriggerMode dag_graph = NodeTriggerAllPredecessor" "sgStateSchema dag_graph = SchemaMap True"
  by (simp_all add: dag_graph_def SetNodeTriggerMode_def GetNode_def)

definition demo_node :: "string \<Rightarrow> unit node" where
  "demo_node n = \<lparr>ndName = n, ndFunction = echo, ndTriggers = [], ndWrites = [],
                  ndRetryPolicy = None, ndTags = [], ndMetadata = fmempty, ndFieldMapping = []\<rparr>"

lemma demo_nodes: "GetNode demo_graph ''a'' = Some (demo_node ''a'')" "GetNode demo_graph ''b'' = Some (demo_node ''b'')"
  by (simp_all add: GetNode_def demo_graph_def AddEdge_def AddNode_def NewStateGraph_def Let_def demo_node_def Start_def End_def)

lemma dag_graph_wf: "wf_graph dag_graph"
proof -
  have "wf_graph demo_graph" unfolding demo_graph_def
    by (intro wf_AddEdge wf_AddNode wf_new)
  then show ?thesis by (simp add: dag_graph_def SetNodeTriggerMode_def wf_graph_def)
qed

definition demo_engine :: "unit engine" where
  "demo_engine = NewEngine dag_graph []"

definition demo_run :: "unit run" where
  "demo_run = \<lparr>rnEngine = demo_engine, rnRegistry = fmempty, rnThread = ''t'', rnStep = 0, rnCompleted = {},
     rnLastNode = [], rnLastState = VMap fmempty, rnPending = []\<rparr>"

lemma dag_graph_channels [simp]: "sgChannels dag_graph = fmempty"
  by (simp add: dag_graph_def SetNodeTriggerMode_def demo_graph_def AddEdge_def AddNode_def NewStateGraph_def Let_def Start_def End_def)

lemmas step_defs = make_task_def superstep_def execute_step_def commit_step_def take_results_def save_step_def
  prepareNextTasks_def prepareNextTasksWithMode_def createTask_def shouldInterrupt_def shouldInterruptAfter_def
  executeTasksAsync_def run_task_def re_Execute_def applyWrites_def task_policy_def call_func_def
  readTaskInput_def mapToStateSchema_def


lemma sorted_fmap_empty [simp]: "sorted_list_of_fmap fmempty = []"
  using entries_sorted[of fmempty] by (metis entries_keys fmdom'_empty list.set_intros(1) empty_iff imageI neq_Nil_conv prod.collapse fst_conv)

lemmas demo_defs = demo_run_def demo_runtime_def demo_engine_def NewEngine_def demo_nodes demo_orders_def
  node_channels_def demo_node_def rg_Names_def exec_loop.simps echo_def NewRetryExecutor_def
  DefaultRetryPolicy_def IsGraphInterrupt_def End_def mergeStates_def toMap_def mapped_output_def
  store_pending_def mark_all_def rg_GetValues_def GetNode_def[symmetric]


lemma sorted_ab [simp]: "sorted_list_of_set {''a'', ''b''} = [''a'', ''b'']"
  by (simp add: sorted_list_of_set_unique[symmetric] less_char_def)

lemma dag_ready_demo: "dag_ready dag_graph {''a''} ''b''" "\<not> dag_ready dag_graph {''a''} ''a''"
  "\<not> dag_ready dag_graph {''b'', ''a''} ''b''" "\<not> dag_ready dag_graph {''b'', ''a''} ''a''"
  by (auto simp: dag_ready_iff Start_def End_def)

lemma demo_runs: "\<exists>s out. run_loop demo_lib demo_runtime demo_run () = (Finished s out, ()) \<and> rnCompleted s = {''a'', ''b''}"
  apply (subst run_loop.simps)
  apply (simp add: step_defs Let_def demo_defs flush_def)
  apply (subst run_loop.simps)
  apply (simp add: step_defs Let_def demo_defs flush_def prepareNextTasksDAG_def dag_ready_demo)
  apply (subst run_loop.simps)
  apply (simp add: step_defs Let_def demo_defs flush_def prepareNextTasksDAG_def dag_ready_demo finish_run_def buildOutput_def NewRunnableConfig_def DurabilityExit_def DurabilitySync_def)
  apply auto
  done

lemma demo_steps:
  "\<exists>s out. (run_step demo_lib demo_runtime)\<^sup>*\<^sup>* (Running demo_run, ()) (Finished s out, ()) \<and> rnCompleted s = {''a'', ''b''}"
  using demo_runs run_loop_steps[of demo_lib demo_runtime demo_run "()"] by metis

section \<open>Properties\<close>

text \<open>
  C4: in all-predecessor mode, once some node has completed, the tasks of the next superstep are
  exactly the nodes that have not completed and into which no edge comes from a node that has
  not completed, each once. (A node that only conditional edges or branches lead to has no such
  edge and is scheduled at once.)
\<close>

theorem dag_schedule:
  assumes "wf_graph g" and "orders_ok (rtOrders R w)" and "completed \<noteq> {}"
    and "sgNodeTriggerMode g = NodeTriggerAllPredecessor"
    and "prepareNextTasks L R g r completed lastN st w = (Inr (ts, tr), w')"
  shows "distinct (map tkName ts) \<and>
    (\<forall>n. n \<in> set (map tkName ts) \<longleftrightarrow> n \<in> fmdom' (sgNodes g) \<and> n \<notin> completed \<and>
       \<not> (\<exists>e \<in> set (sgEdges g). edTo e = n \<and> edFrom e \<notin> {Start, End} \<union> completed))"
  using prepare_tasks[OF assms(1,2,5)] assms(3,4) by (auto simp: ready_def)

lemma dag_schedule_witness:
  "\<exists>ts tr w. prepareNextTasks demo_lib demo_runtime dag_graph fmempty {''a''} ''a'' VNil () = (Inr (ts, tr), w) \<and>
     set (map tkName ts) = {''b''}"
proof -
  have ne: "{''a''} \<noteq> {}" by simp
  obtain ts tr w where d: "prepareNextTasksDAG demo_runtime dag_graph {''a''} VNil True () = ((ts, tr), w)"
    by (metis prod.exhaust)
  have p: "prepareNextTasks demo_lib demo_runtime dag_graph fmempty {''a''} ''a'' VNil () = (Inr (ts, tr), w)"
    by (simp add: prepareNextTasks_def prepareNextTasksWithMode_def Let_def d)
  from dag_schedule[OF dag_graph_wf runtime_okD[OF demo_runtime_ok] ne _ p]
  have "n \<in> set (map tkName ts) \<longleftrightarrow> n = ''b''" for n
    by (auto simp: Start_def End_def)
  with p show ?thesis by blast
qed

text \<open>
  C3: in every state of a run that started with no node completed, the completed nodes are nodes
  of the graph; in all-predecessor mode every one of them but the entry point has completed
  after all the nodes with an edge to it.
\<close>

theorem completed_in_order:
  assumes "runtime_ok R" and "wf_graph (egGraph (rnEngine s))" and "rnCompleted s = {}"
    and "(run_step L R)\<^sup>*\<^sup>* (Running s, w) (p, w')"
  shows "rnCompleted (phase_run p) \<subseteq> fmdom' (sgNodes (egGraph (rnEngine s))) \<and>
    (\<forall>e \<in> set (sgEdges (egGraph (rnEngine s))).
       sgNodeTriggerMode (egGraph (rnEngine s)) = NodeTriggerAllPredecessor \<longrightarrow>
       edTo e \<in> rnCompleted (phase_run p) \<longrightarrow> edTo e \<noteq> sgEntryPoint (egGraph (rnEngine s)) \<longrightarrow>
       edFrom e \<in> {Start, End} \<union> rnCompleted (phase_run p))"
proof -
  have "sound_completed (egGraph (rnEngine s)) {}" by (simp add: sound_completed_def)
  with run_steps_completed[OF assms(1,4)] assms(2,3)
  have "sound_completed (egGraph (rnEngine s)) (rnCompleted (phase_run p))" by simp
  then show ?thesis unfolding sound_completed_def by blast
qed

lemma completed_in_order_witness:
  "\<exists>s out. (run_step demo_lib demo_runtime)\<^sup>*\<^sup>* (Running demo_run, ()) (Finished s out, ()) \<and>
     rnCompleted s \<noteq> {} \<and> rnCompleted s \<subseteq> {''a'', ''b''}"
proof -
  from demo_steps obtain s out where st: "(run_step demo_lib demo_runtime)\<^sup>*\<^sup>* (Running demo_run, ()) (Finished s out, ())"
    and c: "rnCompleted s = {''a'', ''b''}" by (elim exE conjE)
  then have ne: "rnCompleted s \<noteq> {}" by simp
  have "wf_graph (egGraph (rnEngine demo_run))" "rnCompleted demo_run = {}"
    by (simp_all only: demo_run_def demo_engine_def NewEngine_def dag_graph_wf run.simps engine.simps fold_simps id_apply)
  from conjunct1[OF completed_in_order[OF demo_runtime_ok this st]]
  have "rnCompleted (phase_run (Finished s out)) \<subseteq> fmdom' (sgNodes (egGraph (rnEngine demo_run)))" .
  moreover have "egGraph (rnEngine demo_run) = dag_graph"
    by (simp add: demo_run_def demo_engine_def NewEngine_def)
  ultimately have "rnCompleted s \<subseteq> {''a'', ''b''}" by simp
  with st ne show ?thesis by (intro exI conjI)
qed

text \<open>
  C1: every execution ends: there is no infinite sequence of supersteps and asynchronous saves,
  whatever the graph, the nodes and the schedule.
\<close>

theorem run_terminates: "wfP (\<lambda>q' q. run_step L R q q')"
proof -
  have "wf (inv_image less_than (work :: 'w phase \<times> 'w \<Rightarrow> nat))" by simp
  then have "wf {(q', q). run_step L R q q'}"
    by (rule wf_subset) (auto dest: run_step_work)
  then show ?thesis by (simp add: wfp_def)
qed


section \<open>The recursion limit\<close>

lemma save_step_step: "save_step R s w = (Inr s', w') \<Longrightarrow> rnStep s' = rnStep s"
  by (simp add: save_step_advanced)

lemma commit_step_step:
  "commit_step L R s rs tr w = (p, w') \<Longrightarrow> ended p \<Longrightarrow> rnStep (phase_run p) = rnStep s"
  by (auto simp: commit_step_def Let_def ended_def split: sum.splits prod.splits if_splits fault.splits
      dest!: save_step_step)

lemma execute_step_step:
  "execute_step L R s ts tr w = (p, w') \<Longrightarrow> ended p \<Longrightarrow> rnStep (phase_run p) = rnStep s"
  by (auto simp: execute_step_def split: prod.splits sum.splits if_splits
      dest!: take_results_advanced commit_step_step)

lemma finish_run_step: "finish_run R s w = (p, w') \<Longrightarrow> rnStep (phase_run p) = rnStep s"
  by (auto simp: finish_run_def Let_def split: prod.splits option.splits if_splits)

lemma superstep_step:
  "superstep L R s w = (p, w') \<Longrightarrow> ended p \<Longrightarrow> rnStep (phase_run p) = rnStep s"
  by (auto simp: superstep_def Let_def split: option.splits prod.splits sum.splits if_splits
      intro: execute_step_step finish_run_step)

definition limit_of :: "'w run \<Rightarrow> int" where
  "limit_of s = egRecursionLimit (rnEngine s)"

lemma run_steps_limit:
  "(run_step L R)\<^sup>*\<^sup>* q q' \<Longrightarrow> rnStep (phase_run (fst q)) \<le> limit_of (phase_run (fst q)) \<Longrightarrow>
   rnStep (phase_run (fst q)) \<le> rnStep (phase_run (fst q')) \<and>
   rnStep (phase_run (fst q')) \<le> limit_of (phase_run (fst q))"
proof (induction rule: rtranclp_induct)
  case base
  then show ?case by simp
next
  case (step q1 q2)
  have lim: "limit_of (phase_run (fst q1)) = limit_of (phase_run (fst q))"
    using run_steps_bound[OF step(1)] by (auto simp: limit_of_def intro: settings_eqD(3))
  from step(2) show ?case
  proof cases
    case (step s w)
    obtain p w' where q2: "q2 = (p, w')" by (cases q2)
    show ?thesis
    proof (cases p)
      case (Running s')
      with step q2 lim superstep_advanced[of L R s w s' w'] "step.IH" "step.prems"
      show ?thesis by (simp add: limit_of_def)
    next
      case (Finished s' out)
      with step q2 superstep_step[of L R s w p w'] "step.IH" "step.prems" show ?thesis by (simp add: ended_def)
    next
      case (Failed s' f)
      with step q2 superstep_step[of L R s w p w'] "step.IH" "step.prems" show ?thesis by (simp add: ended_def)
    qed
  next
    case (save i p w s' w')
    then show ?thesis using step.IH step.prems async_save_advanced[of i "phase_run p" w s' w'] by simp
  qed
qed

text \<open>
  C5: the step counter of a run stays within the recursion limit, whatever it resumes from; a
  run that is still going on when the counter has reached the limit fails with the recursion
  error in its next superstep, without a task being prepared or a node being called.
\<close>

theorem recursion_limit:
  assumes "rnStep s \<le> egRecursionLimit (rnEngine s)"
    and "(run_step L R)\<^sup>*\<^sup>* (Running s, w) (p, w')"
  shows "rnStep (phase_run p) \<le> egRecursionLimit (rnEngine s) \<and>
    (\<forall>t. p = Running t \<and> rnStep t = egRecursionLimit (rnEngine s) \<and> rtCtxErr R w' = None \<longrightarrow>
       superstep L R t w' = (Failed t (Fail (GraphRecursionError (egRecursionLimit (rnEngine s)))), w'))"
proof -
  have "settings (rnEngine (phase_run p)) = settings (rnEngine s)" using run_steps_bound[OF assms(2)] by simp
  then have "egRecursionLimit (rnEngine (phase_run p)) = egRecursionLimit (rnEngine s)" by (rule settings_eqD(3))
  with run_steps_limit[OF assms(2)] assms(1) show ?thesis
    by (auto simp: limit_of_def superstep_def Let_def)
qed

lemma recursion_limit_witness:
  "\<exists>s out. (run_step demo_lib demo_runtime)\<^sup>*\<^sup>* (Running demo_run, ()) (Finished s out, ()) \<and> rnStep s \<le> 25"
proof -
  from demo_steps obtain s out where st: "(run_step demo_lib demo_runtime)\<^sup>*\<^sup>* (Running demo_run, ()) (Finished s out, ())"
    by (elim exE conjE)
  have lim: "rnStep demo_run \<le> egRecursionLimit (rnEngine demo_run)" "egRecursionLimit (rnEngine demo_run) = 25"
    by (simp_all add: demo_run_def demo_engine_def NewEngine_def)
  from conjunct1[OF recursion_limit[OF lim(1) st]] lim(2) have "rnStep s \<le> 25" by simp
  with st show ?thesis by (intro exI conjI)
qed

end
