(* ===== verification/Engine_Writes.thy ===== *)
theory Engine_Writes
  imports Engine_Sched
begin

text \<open>
  What applying the results of a superstep does to every single channel: the values written to it
  in the order of the node names, the channel's own update, and its version. The order in which
  Go visits the map of writes plays no part in it.
\<close>

section \<open>The values written to a channel\<close>

text \<open>What one result writes to the channel \<open>k\<close>: at most one value, without its overwrite mark.\<close>

definition entry_write :: "gmap \<Rightarrow> string \<Rightarrow> gval list" where
  "entry_write m k = (case fmlookup m k of
     None \<Rightarrow> [] | Some VNil \<Rightarrow> [] | Some (VOverwrite v) \<Rightarrow> [v] | Some v \<Rightarrow> [v])"

definition result_write :: "golib \<Rightarrow> 'w sgraph \<Rightarrow> string \<Rightarrow> task_result \<Rightarrow> gval list" where
  "result_write L g k r =
     (if trErr r \<noteq> None \<or> trOutput r = VNil then []
      else (case toMap L (trOutput r) of
          Inl _ \<Rightarrow> []
        | Inr m \<Rightarrow> (case mapped_output g (trName r) m of None \<Rightarrow> [] | Some m' \<Rightarrow> entry_write m' k)))"

definition step_writes :: "golib \<Rightarrow> 'w sgraph \<Rightarrow> task_result list \<Rightarrow> string \<Rightarrow> gval list" where
  "step_writes L g rs k = concat (map (result_write L g k) (sort_key trName rs))"

lemma collect_entries_lookup:
  "distinct (map fst es) \<Longrightarrow> collect_entries node es ws ps = (ws', ps') \<Longrightarrow>
   fmlookup_default [] ws' k = fmlookup_default [] ws k @ entry_write (fmap_of_list es) k \<and>
   ((\<forall>k. fmlookup ws k \<noteq> Some []) \<longrightarrow> (\<forall>k. fmlookup ws' k \<noteq> Some []))"
proof (induction node es ws ps rule: collect_entries.induct)
  case (1 node ws ps)
  then show ?case by (simp add: entry_write_def)
next
  case (2 node key v es ws ps)
  from 2(3) have d: "distinct (map fst es)" and key: "key \<notin> fst ` set es" by auto
  from key have none: "map_of es key = None" by (simp add: map_of_eq_None_iff)
  show ?case
  proof (cases "v = VNil")
    case True
    with 2 d have "fmlookup_default [] ws' k = fmlookup_default [] ws k @ entry_write (fmap_of_list es) k \<and>
       ((\<forall>k. fmlookup ws k \<noteq> Some []) \<longrightarrow> (\<forall>k. fmlookup ws' k \<noteq> Some []))" by simp
    moreover have "entry_write (fmap_of_list ((key, v) # es)) k = entry_write (fmap_of_list es) k"
      using True none by (auto simp: entry_write_def fmlookup_of_list)
    ultimately show ?thesis by simp
  next
    case False
    obtain va ow where vo: "(case v of VOverwrite x \<Rightarrow> (x, True) | _ \<Rightarrow> (v, False)) = (va, ow)" by fastforce
    let ?ws = "fmupd key (fmlookup_default [] ws key @ [va]) ws"
    let ?ps = "fmupd key \<lparr>pwChannel = key, pwValue = va, pwOverwrite = ow, pwNode = node,
                pwTimestamp = 0, pwTaskID = []\<rparr> ps"
    from 2(4) False vo have "collect_entries node es ?ws ?ps = (ws', ps')" by simp
    with 2(2)[OF False vo[symmetric] refl d]
    have IH: "fmlookup_default [] ws' k = fmlookup_default [] ?ws k @ entry_write (fmap_of_list es) k \<and>
       ((\<forall>k. fmlookup ?ws k \<noteq> Some []) \<longrightarrow> (\<forall>k. fmlookup ws' k \<noteq> Some []))" by simp
    have this_entry: "entry_write (fmap_of_list ((key, v) # es)) k =
        (if key = k then [va] else entry_write (fmap_of_list es) k)"
      using vo False by (cases v) (auto simp: entry_write_def fmlookup_of_list)
    have "entry_write (fmap_of_list es) key = []" by (simp add: entry_write_def fmlookup_of_list none)
    with IH this_entry show ?thesis by auto
  qed
qed

lemma collect_results_lookup:
  assumes od: "orders_ok od"
  shows "collect_results L od g rs ws ps = Inr (ws', ps') \<Longrightarrow>
    fmlookup_default [] ws' k = fmlookup_default [] ws k @ concat (map (result_write L g k) rs) \<and>
    ((\<forall>k. fmlookup ws k \<noteq> Some []) \<longrightarrow> (\<forall>k. fmlookup ws' k \<noteq> Some []))"
proof (induction rs arbitrary: ws ps)
  case Nil
  then show ?case by simp
next
  case (Cons r rs)
  show ?case
  proof (cases "trErr r \<noteq> None \<or> trOutput r = VNil")
    case True
    then have "collect_results L od g rs ws ps = Inr (ws', ps')" using Cons.prems by simp
    from Cons.IH[OF this] True show ?thesis by (simp add: result_write_def)
  next
    case False
    then obtain m m' where m: "toMap L (trOutput r) = Inr m" "mapped_output g (trName r) m = Some m'"
      using Cons.prems by (auto split: sum.splits option.splits)
    obtain ws1 ps1 where ce: "collect_entries (trName r) (ordInput od m') ws ps = (ws1, ps1)" by fastforce
    from od have ent: "entries m' (ordInput od m')" by (simp add: orders_ok_def)
    have "collect_results L od g rs ws1 ps1 = Inr (ws', ps')" using Cons.prems False m ce by simp
    from Cons.IH[OF this] collect_entries_lookup[OF entries_distinct[OF ent] ce] ent False m
    show ?thesis by (simp add: result_write_def entries_def)
  qed
qed

section \<open>The update of a channel\<close>

definition channel_or_new :: "registry \<Rightarrow> string \<Rightarrow> channel" where
  "channel_or_new r k = (case fmlookup r k of Some c \<Rightarrow> c | None \<Rightarrow> ChLastValue (NewLastValue VNil))"

definition update_with :: "golib \<Rightarrow> channel \<Rightarrow> gval list \<Rightarrow> (gerr + bool) \<times> channel" where
  "update_with L c vs = ch_Update L c (squash c (filter (\<lambda>v. v \<noteq> VNil) vs))"

definition version :: "'w engine \<Rightarrow> string \<Rightarrow> goint" where
  "version e k = fmlookup_default 0 (egChannelVersions e) k"

text \<open>How a channel to which \<open>vs\<close> is written goes from one state to the next.\<close>

definition written ::
  "golib \<Rightarrow> string \<Rightarrow> gval list \<Rightarrow> 'w engine \<times> registry \<Rightarrow> 'w engine \<times> registry \<Rightarrow> bool \<Rightarrow> bool"
where
  "written L k vs q q' upd \<longleftrightarrow>
     (\<exists>b c. update_with L (channel_or_new (snd q) k) vs = (Inr b, c) \<and>
        upd = (b \<and> ch_IsAvailable c) \<and>
        (if upd then fmlookup (snd q') k = Some (ch_SetVersion c (version (fst q) k + 1)) \<and>
                     version (fst q') k = version (fst q) k + 1
         else fmlookup (snd q') k = Some c \<and> version (fst q') k = version (fst q) k))"

lemma write_loop_channel:
  "distinct (map fst es) \<Longrightarrow> write_loop L e r es U = (Inr U', e', r') \<Longrightarrow>
   (case map_of es k of
      None \<Rightarrow> fmlookup r' k = fmlookup r k \<and> version e' k = version e k \<and> (k \<in> U' \<longleftrightarrow> k \<in> U)
    | Some vs \<Rightarrow> \<exists>upd. written L k vs (e, r) (e', r') upd \<and> (k \<in> U' \<longleftrightarrow> k \<in> U \<or> upd))"
proof (induction es arbitrary: e r U)
  case Nil
  then show ?case by simp
next
  case (Cons x es)
  obtain name vs where x: "x = (name, vs)" by (cases x)
  from Cons.prems x have d: "distinct (map fst es)" and name: "map_of es name = None"
    by (auto simp: map_of_eq_None_iff)
  define r0 where "r0 = (case rg_Get r name of Some c \<Rightarrow> r | None \<Rightarrow> rg_Register r name (ChLastValue (NewLastValue VNil)))"
  define ch where "ch = channel_or_new r name"
  have pair: "(case rg_Get r name of Some c \<Rightarrow> (c, r)
       | None \<Rightarrow> (let c = ChLastValue (NewLastValue VNil) in (c, rg_Register r name c))) = (ch, r0)"
    by (simp add: ch_def r0_def channel_or_new_def rg_Get_def Let_def split: option.splits)
  obtain b ch1 where up: "ch_Update L ch (squash ch (filter (\<lambda>v. v \<noteq> VNil) vs)) = (Inr b, ch1)"
    using Cons.prems(2) pair x by (auto simp: Let_def split: sum.splits prod.splits)
  have look: "fmlookup r0 j = fmlookup r j" if "j \<noteq> name" for j
    using that by (simp add: r0_def rg_Register_def split: option.splits)
  define upd where "upd = (b \<and> ch_IsAvailable ch1)"
  define e1 where "e1 = (if upd then e\<lparr>egChannelVersions := fmupd name (version e name + 1) (egChannelVersions e),
      egCurrentCheckpoint := map_option (IncrementChannel name) (egCurrentCheckpoint e)\<rparr> else e)"
  define c1 where "c1 = (if upd then ch_SetVersion ch1 (version e name + 1) else ch1)"
  have rest: "write_loop L e1 (fmupd name c1 r0) es (if upd then insert name U else U) = (Inr U', e', r')"
    using Cons.prems(2) pair up x by (auto simp: Let_def version_def upd_def e1_def c1_def split: if_splits)
  have ver: "version e1 j = (if j = name \<and> upd then version e name + 1 else version e j)" for j
    by (simp add: version_def e1_def)
  note IH = Cons.IH[OF d rest]
  show ?case
  proof (cases "k = name")
    case True
    then have "fmlookup r' k = Some c1" "version e' k = version e1 k" "k \<in> U' \<longleftrightarrow> k \<in> U \<or> upd"
      using IH name by auto
    then have "written L k vs (e, r) (e', r') upd"
      using up True ver by (auto simp: written_def update_with_def ch_def upd_def c1_def)
    with \<open>k \<in> U' \<longleftrightarrow> k \<in> U \<or> upd\<close> True x show ?thesis by auto
  next
    case False
    have "version e1 k = version e k" "fmlookup (fmupd name c1 r0) k = fmlookup r k"
      using False ver look by simp_all
    then have "written L k ws (e1, fmupd name c1 r0) (e', r') u = written L k ws (e, r) (e', r') u" for ws u
      by (simp add: written_def channel_or_new_def)
    moreover have "k \<in> (if upd then insert name U else U) \<longleftrightarrow> k \<in> U" using False by auto
    ultimately show ?thesis
      using IH False x \<open>version e1 k = version e k\<close> \<open>fmlookup (fmupd name c1 r0) k = fmlookup r k\<close>
      by (simp split: option.splits)
  qed
qed

lemma version_marks [simp]:
  "version (mark_all ns cs e) k = version e k" "version (store_pending ps e) k = version e k"
proof -
  have seen: "version (markSeen n c e) k = version e k" for n c e
    by (simp add: version_def markSeen_def Let_def)
  have all: "version (fold (\<lambda>c e. markSeen n c e) cs e) k = version e k" for n e
    by (induction cs arbitrary: e) (simp_all add: seen)
  show "version (mark_all ns cs e) k = version e k"
    unfolding mark_all_def by (induction ns arbitrary: e) (simp_all add: all)
  show "version (store_pending ps e) k = version e k" by (simp add: version_def store_pending_def)
qed

lemma applyWrites_written:
  assumes od: "orders_ok od" and ok: "applyWrites L od e r rs tr = (Inr updated, e', r')"
  shows "if step_writes L (egGraph e) rs k = []
    then fmlookup r' k = fmlookup r k \<and> version e' k = version e k \<and> k \<notin> updated
    else \<exists>upd. written L k (step_writes L (egGraph e) rs k) (e, r) (e', r') upd \<and> (k \<in> updated \<longleftrightarrow> upd)"
proof -
  obtain ws ps where cr: "collect_results L od (egGraph e) (sort_key trName rs) fmempty fmempty = Inr (ws, ps)"
    using ok by (cases "collect_results L od (egGraph e) (sort_key trName rs) fmempty fmempty")
      (auto simp: applyWrites_def)
  obtain U e1 where wl: "write_loop L e r (ordWrites od ws) {} = (Inr U, e1, r')" "U = updated"
      "e' = mark_all (filter (\<lambda>n. n \<in> tr) (map fst (ordWrites od ws))) (ordSet od updated)
        (store_pending (ordPending od ps) e1)"
    using ok cr by (auto simp: applyWrites_def Let_def split: sum.splits prod.splits)
  from od have ent: "entries ws (ordWrites od ws)" by (simp add: orders_ok_def)
  have mo: "map_of (ordWrites od ws) k = fmlookup ws k"
    using ent by (auto simp: entries_def fmlookup_of_list[symmetric])
  have "fmlookup_default [] ws k = step_writes L (egGraph e) rs k" "fmlookup ws k \<noteq> Some []"
    using collect_results_lookup[OF od cr, of k] by (simp_all add: step_writes_def)
  then have lk: "fmlookup ws k = (if step_writes L (egGraph e) rs k = [] then None else Some (step_writes L (egGraph e) rs k))"
    by (auto simp: fmlookup_default_def split: option.splits)
  have "version e' k = version e1 k" by (simp add: wl(3))
  then have "written L k vs (e, r) (e', r') upd = written L k vs (e, r) (e1, r') upd" for vs upd
    by (simp add: written_def)
  with write_loop_channel[OF entries_distinct[OF ent] wl(1), of k] \<open>version e' k = version e1 k\<close> lk wl(2)
  show ?thesis by (auto simp: mo)
qed

text \<open>A channel that does not accumulate is updated with one value, the last.\<close>

lemma update_with_squashed:
  "\<not> accumulates c \<Longrightarrow> filter (\<lambda>v. v \<noteq> VNil) vs \<noteq> [] \<Longrightarrow>
   update_with L c vs = ch_Update L c [last (filter (\<lambda>v. v \<noteq> VNil) vs)]"
proof -
  assume acc: "\<not> accumulates c" and ne: "filter (\<lambda>v. v \<noteq> VNil) vs \<noteq> []"
  show ?thesis
  proof (cases "length (filter (\<lambda>v. v \<noteq> VNil) vs) > 1")
    case True
    with acc show ?thesis by (simp add: update_with_def squash_def)
  next
    case False
    with ne obtain v where "filter (\<lambda>v. v \<noteq> VNil) vs = [v]"
      by (cases "filter (\<lambda>v. v \<noteq> VNil) vs") auto
    then show ?thesis by (simp add: update_with_def squash_def)
  qed
qed

section \<open>Properties\<close>

text \<open>
  C7: applying the results of a step does to each channel, whatever the order in which Go visits
  its maps, what the channel's own update does with the values the results write to it, taken in
  the order of the node names: a channel that is not registered is a fresh last-value channel;
  the channel's version grows by one exactly if the update takes effect and leaves it readable,
  and a channel nothing is written to stays as it is.
\<close>

theorem applyWrites_channels:
  assumes "orders_ok od" and "applyWrites L od e r rs tr = (Inr updated, e', r')"
  shows "if step_writes L (egGraph e) rs k = []
    then fmlookup r' k = fmlookup r k \<and> version e' k = version e k \<and> k \<notin> updated
    else \<exists>took c. update_with L (channel_or_new r k) (step_writes L (egGraph e) rs k) = (Inr took, c) \<and>
      (k \<in> updated \<longleftrightarrow> took \<and> ch_IsAvailable c) \<and>
      (if took \<and> ch_IsAvailable c
       then fmlookup r' k = Some (ch_SetVersion c (version e k + 1)) \<and> version e' k = version e k + 1
       else fmlookup r' k = Some c \<and> version e' k = version e k)"
proof (cases "step_writes L (egGraph e) rs k = []")
  case True
  with applyWrites_written[OF assms, of k] show ?thesis by simp
next
  case False
  with applyWrites_written[OF assms, of k] obtain upd where
    w: "written L k (step_writes L (egGraph e) rs k) (e, r) (e', r') upd" and u: "k \<in> updated \<longleftrightarrow> upd" by auto
  from w obtain b c where "update_with L (channel_or_new r k) (step_writes L (egGraph e) rs k) = (Inr b, c)"
    "upd = (b \<and> ch_IsAvailable c)"
    "if upd then fmlookup r' k = Some (ch_SetVersion c (version e k + 1)) \<and> version e' k = version e k + 1
     else fmlookup r' k = Some c \<and> version e' k = version e k"
    unfolding written_def fst_conv snd_conv by (elim exE conjE)
  with u have "update_with L (channel_or_new r k) (step_writes L (egGraph e) rs k) = (Inr b, c) \<and>
      (k \<in> updated \<longleftrightarrow> b \<and> ch_IsAvailable c) \<and>
      (if b \<and> ch_IsAvailable c
       then fmlookup r' k = Some (ch_SetVersion c (version e k + 1)) \<and> version e' k = version e k + 1
       else fmlookup r' k = Some c \<and> version e' k = version e k)" by simp
  then have "\<exists>took c. update_with L (channel_or_new r k) (step_writes L (egGraph e) rs k) = (Inr took, c) \<and>
      (k \<in> updated \<longleftrightarrow> took \<and> ch_IsAvailable c) \<and>
      (if took \<and> ch_IsAvailable c
       then fmlookup r' k = Some (ch_SetVersion c (version e k + 1)) \<and> version e' k = version e k + 1
       else fmlookup r' k = Some c \<and> version e' k = version e k)" by (intro exI)
  with False show ?thesis by (simp only: if_False)
qed

text \<open>A step in which two nodes write the same channel.\<close>

definition star_results :: "task_result list" where
  "star_results = [\<lparr>trName = ''b'', trOutput = VMap (fmupd ''x'' (VStr ''from b'') fmempty), trErr = None\<rparr>,
                   \<lparr>trName = ''a'', trOutput = VMap (fmupd ''x'' (VStr ''from a'') fmempty), trErr = None\<rparr>]"

lemma star_sorted: "sort_key trName star_results = rev star_results"
  by (simp add: star_results_def less_char_def)

lemma demo_mapped: "mapped_output dag_graph ''a'' m = Some m" "mapped_output dag_graph ''b'' m = Some m"
  by (simp_all add: mapped_output_def demo_nodes demo_node_def)

lemma star_writes: "step_writes demo_lib dag_graph star_results k =
    (if k = ''x'' then [VStr ''from a'', VStr ''from b''] else [])"
  unfolding step_writes_def star_sorted
  by (simp add: star_results_def result_write_def toMap_def demo_mapped entry_write_def)

lemma sorted_fmap_single: "sorted_list_of_fmap (fmupd k v fmempty) = [(k, v)]"
  by (rule entries_single[OF entries_sorted])

lemma applyWrites_star:
  "egGraph e = dag_graph \<Longrightarrow> fmlookup r ''x'' = Some (ChLastValue c) \<Longrightarrow>
   \<exists>e' r'. applyWrites demo_lib demo_orders e r star_results {} = (Inr {''x''}, e', r')"
  using star_sorted
  by (simp add: applyWrites_def star_results_def toMap_def demo_mapped demo_orders_def sorted_fmap_single
      rg_Get_def squash_def accumulates_def lv_Update_def lv_IsAvailable_def Let_def mark_all_def)

lemma applyWrites_channels_witness:
  "\<exists>e' r' c. applyWrites demo_lib demo_orders demo_engine (fmupd ''x'' (ChLastValue (NewLastValue VNil)) fmempty)
      star_results {} = (Inr {''x''}, e', r') \<and>
    fmlookup r' ''x'' = Some (ChLastValue c) \<and> lvValue c = VStr ''from b'' \<and> version e' ''x'' = 1 \<and>
    version e' ''y'' = 0"
proof -
  let ?r = "fmupd ''x'' (ChLastValue (NewLastValue VNil)) fmempty"
  have g: "egGraph demo_engine = dag_graph" by (simp add: demo_engine_def NewEngine_def)
  from applyWrites_star[OF g, of ?r "NewLastValue VNil"] obtain e' r' where
    aw: "applyWrites demo_lib demo_orders demo_engine ?r star_results {} = (Inr {''x''}, e', r')" by auto
  have v: "version demo_engine k = 0" for k by (simp add: version_def demo_engine_def NewEngine_def)
  note spec = applyWrites_channels[OF demo_orders_ok aw, unfolded g star_writes]
  from spec[of "''y''"] v have y: "version e' ''y'' = 0" by simp
  from spec[of "''x''"] v obtain c where
    "fmlookup r' ''x'' = Some (ChLastValue c)" "lvValue c = VStr ''from b''" "version e' ''x'' = 1"
    by (auto simp: update_with_def channel_or_new_def squash_def accumulates_def lv_Update_def
        lv_IsAvailable_def base_SetVersion_def)
  with aw y show ?thesis by blast
qed

text \<open>
  a last-value channel that several nodes write in one step takes the last value in the order
  of the node names that is not nil.
\<close>

theorem last_writer_wins:
  assumes "orders_ok od" and "applyWrites L od e r rs tr = (Inr updated, e', r')"
    and "fmlookup r k = Some (ChLastValue c)"
    and "vs = filter (\<lambda>v. v \<noteq> VNil) (step_writes L (egGraph e) rs k)" and "vs \<noteq> []" and "last vs \<noteq> VMissing"
  shows "\<exists>c'. fmlookup r' k = Some (ChLastValue c') \<and> lv_Get c' = Inr (last vs) \<and> k \<in> updated"
proof -
  from assms(4,5) have ne: "step_writes L (egGraph e) rs k \<noteq> []" by auto
  have "update_with L (channel_or_new r k) (step_writes L (egGraph e) rs k) =
      (Inr True, ChLastValue (c\<lparr>lvValue := last vs\<rparr>))"
    using assms(3-5) by (simp add: channel_or_new_def update_with_squashed accumulates_def lv_Update_def)
  with applyWrites_written[OF assms(1,2), of k] ne assms(6)
  have "fmlookup r' k = Some (ChLastValue (c\<lparr>lvValue := last vs, chVersion := version e k + 1\<rparr>)) \<and> k \<in> updated"
    by (auto simp: written_def lv_IsAvailable_def base_SetVersion_def)
  with assms(6) show ?thesis by (simp add: lv_Get_def)
qed

lemma last_writer_wins_witness:
  "\<exists>e' r' c'. applyWrites demo_lib demo_orders demo_engine (fmupd ''x'' (ChLastValue (NewLastValue VNil)) fmempty)
      star_results {} = (Inr {''x''}, e', r') \<and> fmlookup r' ''x'' = Some (ChLastValue c') \<and>
      lv_Get c' = Inr (VStr ''from b'')"
proof -
  let ?r = "fmupd ''x'' (ChLastValue (NewLastValue VNil)) fmempty"
  have g: "egGraph demo_engine = dag_graph" by (simp add: demo_engine_def NewEngine_def)
  from applyWrites_star[OF g, of ?r "NewLastValue VNil"] obtain e' r' where
    aw: "applyWrites demo_lib demo_orders demo_engine ?r star_results {} = (Inr {''x''}, e', r')" by auto
  have "fmlookup ?r ''x'' = Some (ChLastValue (NewLastValue VNil))" by simp
  from last_writer_wins[OF demo_orders_ok aw this refl] aw show ?thesis
    by (auto simp: g star_writes)
qed

text \<open>
  the same squashing meets topics: of the publications that several nodes make in one step
  only the last is delivered; the others are lost.
\<close>

theorem topic_keeps_last_publication:
  assumes "orders_ok od" and "applyWrites L od e r rs tr = (Inr updated, e', r')"
    and "fmlookup r k = Some (ChTopic c)"
    and "vs = filter (\<lambda>v. v \<noteq> VNil) (step_writes L (egGraph e) rs k)" and "vs \<noteq> []"
  shows "\<exists>c'. fmlookup r' k = Some (ChTopic c') \<and> tpValues c' = tpValues (snd (tp_Update c [last vs]))"
proof -
  from assms(4,5) have ne: "step_writes L (egGraph e) rs k \<noteq> []" by auto
  have "update_with L (channel_or_new r k) (step_writes L (egGraph e) rs k) =
      map_prod id ChTopic (tp_Update c [last vs])"
    using assms(3-5) by (simp add: channel_or_new_def update_with_squashed accumulates_def map_prod_def split: prod.splits)
  with applyWrites_written[OF assms(1,2), of k] ne show ?thesis
    by (cases "tp_Update c [last vs]") (auto simp: written_def base_SetVersion_def split: if_splits)
qed

lemma topic_keeps_last_publication_witness:
  "\<exists>e' r' c'. applyWrites demo_lib demo_orders demo_engine (fmupd ''x'' (ChTopic (NewTopic VNil True)) fmempty)
      star_results {} = (Inr {''x''}, e', r') \<and> fmlookup r' ''x'' = Some (ChTopic c') \<and>
      tpValues c' = [VStr ''from b'']"
proof -
  let ?r = "fmupd ''x'' (ChTopic (NewTopic VNil True)) fmempty"
  have g: "egGraph demo_engine = dag_graph" by (simp add: demo_engine_def NewEngine_def)
  have up: "tp_Update (NewTopic VNil True) [VStr ''from b''] = (Inr True, (NewTopic VNil True)\<lparr>tpValues := [VStr ''from b'']\<rparr>)"
    by (simp add: tp_Update_def NewTopic_def Let_def)
  obtain e' r' where
    aw: "applyWrites demo_lib demo_orders demo_engine ?r star_results {} = (Inr {''x''}, e', r')"
    using star_sorted g up
    by (simp add: applyWrites_def star_results_def toMap_def demo_mapped demo_orders_def sorted_fmap_single
        rg_Get_def squash_def accumulates_def Let_def mark_all_def on_snd_def tp_IsAvailable_def)
  have "fmlookup ?r ''x'' = Some (ChTopic (NewTopic VNil True))" by simp
  from topic_keeps_last_publication[OF demo_orders_ok aw this refl] up aw show ?thesis
    by (auto simp: g star_writes)
qed

end
