(* ===== verification/Engine_Resume.thy ===== *)
theory Engine_Resume
  imports Engine_Sched
begin

text \<open>
  Interrupting and resuming: what a run saves, what the next run on the same thread starts from,
  and what is lost on the way; string sets, the form in which completed nodes are saved.
\<close>

section \<open>String sets\<close>

lemma serialize_list:
  assumes "finite S" and "S \<noteq> {}" and "S \<noteq> {[]}" and "\<forall>s \<in> S. CHR 0x00 \<notin> set s"
  shows "serializeStringSet S = join_with CHR 0x00 (sorted_list_of_set S) \<and> serializeStringSet S \<noteq> []"
proof -
  obtain p ps where ps: "sorted_list_of_set S = p # ps" using assms(1,2) by (cases "sorted_list_of_set S") auto
  have "join_with CHR 0x00 (p # ps) \<noteq> []"
  proof (cases ps)
    case Nil
    with ps assms(1) have "S = {p}" by (metis list.simps(15) set_empty set_sorted_list_of_set list.set(1))
    with assms(3) Nil show ?thesis by auto
  qed auto
  with assms(2) ps show ?thesis by (simp add: serializeStringSet_def)
qed

lemma deserialize_serialize:
  assumes "finite S" and "S \<noteq> {[]}" and "\<forall>s \<in> S. CHR 0x00 \<notin> set s"
  shows "(case deserializeStringSet (serializeStringSet S) of Some T \<Rightarrow> T | None \<Rightarrow> {}) = S"
proof (cases "S = {}")
  case True
  then show ?thesis by (simp add: serializeStringSet_def deserializeStringSet_def)
next
  case False
  have "split_on CHR 0x00 (join_with CHR 0x00 (sorted_list_of_set S)) = sorted_list_of_set S"
    using assms(1,3) False by (intro split_on_join) auto
  with serialize_list[OF assms(1) False assms(2,3)] assms(1) show ?thesis
    by (auto simp: deserializeStringSet_def)
qed

section \<open>A saver in memory\<close>

text \<open>\<open>MemorySaver\<close> as the saver of an engine whose world is the saver's state.\<close>

definition memory_saver_of :: "golib \<Rightarrow> string \<Rightarrow> int \<Rightarrow> memory_saver saver" where
  "memory_saver_of L uuid now =
     \<lparr>svGet = (\<lambda>cfg s. (ms_Get L s cfg, s)), svPut = (\<lambda>cfg cp s. ms_Put L uuid now s cfg cp)\<rparr>"

lemma get_str_thread [simp]:
  "get_str (fmupd ''thread_id'' (VStr t) fmempty) ''thread_id'' = Some t"
  "get_str (fmupd ''thread_id'' (VStr t) fmempty) ''checkpoint_id'' = None"
  by (simp_all add: get_str_def)

lemma put_then_fetch:
  assumes "egCheckpointer e = Some (memory_saver_of L uuid now)"
    and "egCheckpointer e' = Some (memory_saver_of L uuid now)" and "requested_id e' = None"
  shows "\<exists>w1. put_thread_only e t cp w = (None, w1) \<and>
    fetch_checkpoint L e' t w1 = (Inr (Some (saver_copy L cp)), w1)"
proof -
  let ?cfg = "fmupd ''thread_id'' (VStr t) fmempty"
  let ?w1 = "snd (ms_Put L uuid now w ?cfg cp)"
  have "fst (ms_Put L uuid now w ?cfg cp) = None" by (rule memory.put_ok) simp
  then have "put_thread_only e t cp w = (None, ?w1)"
    using assms(1) by (simp add: put_thread_only_def memory_saver_of_def prod_eq_iff)
  moreover have "ms_Get L ?w1 ?cfg = Inr (Some (saver_copy L cp))" by (rule memory.get_latest) simp_all
  then have "fetch_checkpoint L e' t ?w1 = (Inr (Some (saver_copy L cp)), ?w1)"
    using assms(2,3) by (simp add: fetch_checkpoint_def memory_saver_of_def Let_def)
  ultimately show ?thesis by blast
qed

lemma saver_copy_lookup:
  "fmlookup (saver_copy L cp) k = map_option (\<lambda>v. deepCopy L (deepCopy L v)) (fmlookup cp k)"
  by (simp add: saver_copy_def deepCopyMap_def option.map_comp comp_def)

lemma copy_str: "deepCopy L (VStr s) = VStr (json_string L s)"
  by (simp add: json_copy_def)

section \<open>Deferred checkpoints\<close>

definition deferred_put :: "deferred_checkpoint \<Rightarrow> gmap \<times> gmap" where
  "deferred_put d = (fmap_of_list [(''thread_id'', VStr (dcThreadID d)), (''checkpoint_id'', VStr (dcCheckpointID d)),
     (''step'', VInt (word_of_int (dcStep d)))], dcCheckpoint d)"

lemma deferred_put_thread: "get_str (fst (deferred_put d)) ''thread_id'' = Some (dcThreadID d)"
  by (simp add: deferred_put_def get_str_def)

lemma deferred_loop_puts:
  assumes "egCheckpointer e = Some (memory_saver_of L uuid now)"
  shows "deferred_loop e ds err w = (err, memory.put_all L uuid now (map deferred_put ds) w)"
proof (induction ds arbitrary: w)
  case Nil
  show ?case by (simp add: memory.put_all_def)
next
  case (Cons d ds)
  have "fst (ms_Put L uuid now w (fst (deferred_put d)) (dcCheckpoint d)) = None"
    by (rule memory.put_ok[OF deferred_put_thread])
  then have "saveCheckpoint e (dcThreadID d) (dcCheckpointID d) (dcStep d) (dcCheckpoint d) w =
      (None, snd (ms_Put L uuid now w (fst (deferred_put d)) (dcCheckpoint d)))"
    using assms by (simp add: saveCheckpoint_def memory_saver_of_def deferred_put_def prod_eq_iff)
  with Cons.IH show ?case by (simp add: memory.put_all_def deferred_put_def)
qed

section \<open>The payload of an interrupt\<close>

definition reserved_keys :: "string set" where
  "reserved_keys = {''__completed_tasks__'', ''__last_completed_node__'', ''__step__'', ''__last_state__'', ''__sub_state__''}"

lemma payload_lookup:
  "fmlookup (interrupt_payload L cp completed lastN step st rs) ''__completed_tasks__'' = Some (VStr (serializeStringSet completed))"
  "fmlookup (interrupt_payload L cp completed lastN step st rs) ''__last_completed_node__'' = Some (VStr lastN)"
  "k \<notin> reserved_keys \<Longrightarrow> fmlookup (interrupt_payload L cp completed lastN step st rs) k = fmlookup cp k"
  by (auto simp: interrupt_payload_def reserved_keys_def Let_def split: option.splits)

text \<open>A run on a thread that has a checkpoint starts from it.\<close>

lemma start_run_resumed:
  assumes thread: "Option.bind (egConfig e) cfConfigurable = Some m" "fmlookup m ''thread_id'' = Some (VStr t)"
    and input: "applyInput L (rtOrders R w) (copy_channels L (ordReg (rtOrders R w) (sgChannels (egGraph e)))) input = (None, r1, input1)"
    and fetch: "fetch_checkpoint L (reset_engine e) t w = (Inr (Some d), w)"
    and ok: "runtime_ok R"
  shows "\<exists>s' w2. start_run L R e input w = (Inr s', w2) \<and> rnCompleted s' = restored_tasks d \<and>
    rnLastNode s' = restored_node d \<and> rnThread s' = t \<and> rnStep s' = 0 \<and>
    (\<forall>k. fmlookup (rnRegistry s') k = (case fmlookup r1 k of None \<Rightarrow> None
       | Some c \<Rightarrow> Some (case fmlookup d k of None \<Rightarrow> c | Some v \<Rightarrow> ch_FromCheckpoint L c v)))"
proof -
  let ?w1 = "restore_sub R d w"
  define f where "f = fmfilter (\<lambda>k. rg_Get r1 k \<noteq> None) d"
  have flook: "fmlookup f k = (if fmlookup r1 k = None then None else fmlookup d k)" for k
    by (simp add: f_def rg_Get_def)
  have rc: "restore_channels L od r1 d =
      (if flen f > 0 then rg_RestoreFromCheckpoint L r1 (ordInput od f) else (None, r1))" for od
    by (simp only: restore_channels_def Let_def f_def)
  have ent: "entries f (ordInput (rtOrders R ?w1) f)" using runtime_okD[OF ok] by (simp add: orders_ok_def)
  have mo: "map_of (ordInput (rtOrders R ?w1) f) k = fmlookup f k" for k
    using ent by (metis entries_def fmlookup_of_list)
  have dom: "fst ` set (ordInput (rtOrders R ?w1) f) \<subseteq> fmdom' r1"
  proof
    fix k assume "k \<in> fst ` set (ordInput (rtOrders R ?w1) f)"
    then have "k \<in> fmdom' f" using entries_keys[OF ent] by simp
    then show "k \<in> fmdom' r1" by (auto simp: fmlookup_dom'_iff flook split: if_splits)
  qed
  obtain r2 where r2: "restore_channels L (rtOrders R ?w1) r1 d = (None, r2)"
    "\<And>k. fmlookup r2 k = (case fmlookup r1 k of None \<Rightarrow> None
       | Some c \<Rightarrow> Some (case fmlookup d k of None \<Rightarrow> c | Some v \<Rightarrow> ch_FromCheckpoint L c v))"
  proof (cases "f = fmempty")
    case True
    then have none: "fmlookup f k = None" for k by simp
    have "fmlookup r1 k = (case fmlookup r1 k of None \<Rightarrow> None
       | Some c \<Rightarrow> Some (case fmlookup d k of None \<Rightarrow> c | Some v \<Rightarrow> ch_FromCheckpoint L c v))" for k
      using none[of k] by (auto simp: flook split: option.splits if_splits)
    with True show ?thesis by (intro that[of r1]) (simp_all add: rc)
  next
    case False
    from Restore_lookup[OF entries_distinct[OF ent] dom, of L] obtain r2 where
      "rg_RestoreFromCheckpoint L r1 (ordInput (rtOrders R ?w1) f) = (None, r2)"
      "\<And>k. fmlookup r2 k = (case map_of (ordInput (rtOrders R ?w1) f) k of None \<Rightarrow> fmlookup r1 k
         | Some cp \<Rightarrow> map_option (\<lambda>c. ch_FromCheckpoint L c cp) (fmlookup r1 k))" by blast
    with False show ?thesis
      by (intro that[of r2]) (auto simp: rc mo flook split: option.splits)
  qed
  have "getThreadID R e w = (t, w)" using thread by (simp add: getThreadID_def)
  then have "start_run L R e input w = start_resumed L R (reset_engine e) r1 t d w"
    using input fetch by (simp add: start_run_def Let_def reset_engine_def)
  with r2 show ?thesis by (simp add: start_resumed_def Let_def)
qed

lemma reset_engine_simps [simp]:
  "requested_id (reset_engine e) = requested_id e" "egCheckpointer (reset_engine e) = egCheckpointer e"
  "egGraph (reset_engine e) = egGraph e" "egConfig (reset_engine e) = egConfig e"
  by (simp_all add: reset_engine_def requested_id_def)

text \<open>An engine for the witnesses: an empty graph, a memory saver, the thread \<open>t\<close>.\<close>

definition memory_engine :: "memory_saver engine" where
  "memory_engine = NewEngine (NewStateGraph SchemaNil)
     [eo_WithCheckpointer (Some (memory_saver_of demo_lib ''u'' 0)), eo_WithConfig (Some (cf_Set NewRunnableConfig ''thread_id'' (VStr ''t'')))]"

lemma memory_engine_simps [simp]:
  "egCheckpointer memory_engine = Some (memory_saver_of demo_lib ''u'' 0)" "requested_id memory_engine = None"
  "Option.bind (egConfig memory_engine) cfConfigurable = Some (fmupd ''thread_id'' (VStr ''t'') fmempty)"
  "sgChannels (egGraph memory_engine) = fmempty" "egRecursionLimit memory_engine = 25"
  by (simp_all add: memory_engine_def NewEngine_def eo_WithCheckpointer_def eo_WithConfig_def cf_Set_def
      NewRunnableConfig_def requested_id_def NewStateGraph_def Let_def)

lemma empty_input [simp]: "applyInput L demo_orders fmempty (VMap fmempty) = (None, fmempty, VMap fmempty)"
  by (simp add: applyInput_def toMap_def demo_orders_def Let_def)

lemma demo_runtime_orders [simp]: "rtOrders demo_runtime w = demo_orders"
  by (simp add: demo_runtime_def)

lemma memory_engine_channels [simp]: "copy_channels L (ordReg demo_orders fmempty) = fmempty"
  by (simp add: copy_channels_def demo_orders_def NewRegistry_def)

definition memory_run :: "memory_saver run" where
  "memory_run = \<lparr>rnEngine = memory_engine, rnRegistry = fmempty, rnThread = ''t'', rnStep = 1, rnCompleted = {''a'', ''b''},
     rnLastNode = ''b'', rnLastState = VNil, rnPending = []\<rparr>"

section \<open>Properties\<close>



text \<open>
  a run that stops before a node saves its channels only: the next run on the thread starts
  with no node completed, whatever had completed, and so from the entry point again.
\<close>

theorem interrupt_before_forgets:
  assumes ok: "runtime_ok R"
    and saver: "egCheckpointer (rnEngine s) = Some (memory_saver_of L uuid now)"
      "egCheckpointer e = Some (memory_saver_of L uuid now)"
    and same_thread: "Option.bind (egConfig e) cfConfigurable = Some m" "fmlookup m ''thread_id'' = Some (VStr (rnThread s))"
      "requested_id e = None"
    and goes_on: "rtCtxErr R w = None" "rnStep s < egRecursionLimit (rnEngine s)"
    and tasks: "prepareNextTasks L R (egGraph (rnEngine s)) (rnRegistry s) (rnCompleted s) (rnLastNode s) (rnLastState s) w
      = (Inr (ts, tr), w0)" "shouldInterrupt (rnEngine s) ts \<noteq> []"
    and no_clash: "fmlookup (rnRegistry s) ''__completed_tasks__'' = None"
    and stop: "superstep L R s w = (p, w1)"
    and input: "applyInput L (rtOrders R w1) (copy_channels L (ordReg (rtOrders R w1) (sgChannels (egGraph e)))) input = (None, r1, input1)"
  shows "p = Failed s (Fail (GraphInterrupt [])) \<and>
    (\<exists>s' w2. start_run L R e input w1 = (Inr s', w2) \<and> rnCompleted s' = {} \<and> rnThread s' = rnThread s)"
proof -
  let ?cp = "rg_CreateCheckpoint (ordReg (rtOrders R w0) (rnRegistry s))"
  have sv: "egCheckpointer (reset_engine e) = Some (memory_saver_of L uuid now)" "requested_id (reset_engine e) = None"
    using saver(2) same_thread(3) by simp_all
  from tasks(2) have ne: "ts \<noteq> []" by (auto simp: shouldInterrupt_def split: if_splits)
  obtain w1' where put: "put_thread_only (rnEngine s) (rnThread s) ?cp w0 = (None, w1')"
    "fetch_checkpoint L (reset_engine e) (rnThread s) w1' = (Inr (Some (saver_copy L ?cp)), w1')"
    using put_then_fetch[OF saver(1) sv, of "rnThread s" ?cp w0] by blast
  have p: "p = Failed s (Fail (GraphInterrupt []))" and w1: "w1 = w1'"
    using stop goes_on tasks ne put(1) by (simp_all add: superstep_def Let_def)
  have "entries (rnRegistry s) (ordReg (rtOrders R w0) (rnRegistry s))"
    using runtime_okD[OF ok] by (simp add: orders_ok_def)
  then have "fmlookup ?cp ''__completed_tasks__'' = None"
    using no_clash by (simp add: CreateCheckpoint_lookup)
  then have "restored_tasks (saver_copy L ?cp) = {}" by (simp add: restored_tasks_def saver_copy_lookup)
  with start_run_resumed[OF same_thread(1,2) input put(2)[folded w1] ok] p show ?thesis by auto
qed

text \<open>A run that is to stop before the node \<open>b\<close>.\<close>

definition before_run :: "memory_saver run" where
  "before_run = memory_run\<lparr>rnEngine := memory_engine\<lparr>egInterrupts := {''b''},
     egGraph := snd (AddEdge (snd (AddNode (snd (AddNode (NewStateGraph SchemaNil) ''a'' echo)) ''b'' echo)) ''a'' ''b'')\<rparr>,
     rnCompleted := {''a''}, rnLastNode := ''a''\<rparr>"

lemma before_tasks: "\<exists>ts tr. prepareNextTasks demo_lib demo_runtime (egGraph (rnEngine before_run)) (rnRegistry before_run)
      (rnCompleted before_run) (rnLastNode before_run) (rnLastState before_run) w = (Inr (ts, tr), w) \<and>
    shouldInterrupt (rnEngine before_run) ts \<noteq> []"
  by (simp add: before_run_def memory_run_def AddEdge_def AddNode_def NewStateGraph_def prepareNextTasks_def
      prepareNextTasksWithMode_def getNextNodes_def Let_def demo_runtime_def demo_orders_def End_def Start_def GetNode_def
      make_task_def createTask_def node_channels_def rg_Names_def shouldInterrupt_def NodeTriggerAllPredecessor_def)

lemma interrupt_before_forgets_witness:
  "\<exists>p w1 s' w2. superstep demo_lib demo_runtime before_run NewMemorySaver = (p, w1) \<and> rnCompleted before_run = {''a''} \<and>
     start_run demo_lib demo_runtime memory_engine (VMap fmempty) w1 = (Inr s', w2) \<and> rnCompleted s' = {}"
proof -
  obtain p w1 where st: "superstep demo_lib demo_runtime before_run NewMemorySaver = (p, w1)" by fastforce
  obtain ts tr where t: "prepareNextTasks demo_lib demo_runtime (egGraph (rnEngine before_run)) (rnRegistry before_run)
      (rnCompleted before_run) (rnLastNode before_run) (rnLastState before_run) NewMemorySaver = (Inr (ts, tr), NewMemorySaver)"
    "shouldInterrupt (rnEngine before_run) ts \<noteq> []" using before_tasks by blast
  have "p = Failed before_run (Fail (GraphInterrupt [])) \<and>
    (\<exists>s' w2. start_run demo_lib demo_runtime memory_engine (VMap fmempty) w1 = (Inr s', w2) \<and> rnCompleted s' = {} \<and>
      rnThread s' = rnThread before_run)"
    by (rule interrupt_before_forgets[where m = "fmupd ''thread_id'' (VStr ''t'') fmempty", OF demo_runtime_ok _ _ _ _ _ _ _ t _ st])
      (simp_all add: before_run_def memory_run_def demo_runtime_def)
  with st show ?thesis by (auto simp: before_run_def)
qed

text \<open>
  C15: when a node of a step interrupts, the other nodes of the step that succeeded count as
  completed, but what they returned is written to no channel: the channels are as the tasks left
  them when they read their inputs.
\<close>

theorem interrupt_drops_outputs:
  assumes "executeTasksAsync L R (rnEngine s) ts (rnRegistry s) w = (Inr rs, r1, w1)"
    and "r \<in> set rs" and "IsGraphInterrupt (trErr r)"
  shows "\<exists>s' err w2. execute_step L R s ts tr w = (Failed s' (Fail err), w2) \<and> rnRegistry s' = r1 \<and>
    rnCompleted s' = rnCompleted s \<union> {trName q |q. q \<in> set rs \<and> trErr q = None}"
proof -
  have names: "snd (snd (snd (snd (result_loop rs (c, ln, st, af, ns))))) =
      ns @ map trName (filter (\<lambda>r. IsGraphInterrupt (trErr r)) rs)" for c ln st af ns
    by (induction rs arbitrary: c ln st af ns) auto
  have completed: "fst (result_loop rs (c, ln, st, af, ns)) = c \<union> {trName q |q. q \<in> set rs \<and> trErr q = None}"
    for c ln st af ns
    by (induction rs arbitrary: c ln st af ns) (auto simp: IsGraphInterrupt_def)
  obtain c ln st af ns where rl: "result_loop rs (rnCompleted s, rnLastNode s, rnLastState s, length rs > 0, []) = (c, ln, st, af, ns)"
    by (metis prod.exhaust)
  from names[of "rnCompleted s" "rnLastNode s" "rnLastState s" "length rs > 0" "[]"] assms(2,3) rl
  have "ns \<noteq> []" by (auto simp: filter_empty_conv)
  moreover from completed[of "rnCompleted s" "rnLastNode s" "rnLastState s" "length rs > 0" "[]"] rl
  have "c = rnCompleted s \<union> {trName q |q. q \<in> set rs \<and> trErr q = None}" by simp
  ultimately show ?thesis
    using assms(1) rl
    by (cases "handle_interrupt L R (s\<lparr>rnRegistry := r1, rnCompleted := c, rnLastNode := ln, rnLastState := st\<rparr>) rs w1")
      (simp add: execute_step_def take_results_def)
qed

definition demo_task :: "string \<Rightarrow> called \<Rightarrow> 'w task" where
  "demo_task n res = \<lparr>tkID = ''u'', tkName = n, tkFunc = Some (\<lambda>v w. (res, w)), tkChannels = [], tkPath = [],
     tkTriggers = {}, tkRetryPolicy = None\<rparr>"

lemma interrupt_drops_outputs_witness:
  "\<exists>s' err w2. execute_step demo_lib demo_runtime memory_run
      [demo_task ''c'' (Returned (VMap (fmupd ''x'' (VStr ''lost'') fmempty)) None),
       demo_task ''d'' (Returned VNil (Some (GraphInterrupt [])))] {} NewMemorySaver = (Failed s' (Fail err), w2) \<and>
    rnRegistry s' = fmempty \<and> ''c'' \<in> rnCompleted s'"
proof -
  let ?rs = "[\<lparr>trName = ''c'', trOutput = VMap (fmupd ''x'' (VStr ''lost'') fmempty), trErr = None\<rparr>,
      \<lparr>trName = ''d'', trOutput = VNil, trErr = Some (GraphInterrupt [])\<rparr>]"
  have ex: "executeTasksAsync demo_lib demo_runtime (rnEngine memory_run)
      [demo_task ''c'' (Returned (VMap (fmupd ''x'' (VStr ''lost'') fmempty)) None),
       demo_task ''d'' (Returned VNil (Some (GraphInterrupt [])))] (rnRegistry memory_run) NewMemorySaver =
     (Inr ?rs, fmempty, NewMemorySaver)"
    by (simp add: executeTasksAsync_def demo_task_def memory_run_def demo_runtime_def demo_orders_def
        run_task_def readTaskInput_def memory_engine_def NewEngine_def eo_WithCheckpointer_def eo_WithConfig_def
        NewStateGraph_def mapToStateSchema_def re_Execute_def exec_loop.simps NewRetryExecutor_def task_policy_def
        DefaultRetryPolicy_def call_func_def IsGraphInterrupt_def upt_rec Let_def)
  have "\<lparr>trName = ''d'', trOutput = VNil, trErr = Some (GraphInterrupt [])\<rparr> \<in> set ?rs" by simp
  from interrupt_drops_outputs[OF ex this] show ?thesis
    by (fastforce simp: IsGraphInterrupt_def)
qed

text \<open>
  every task a superstep is given runs under the default retry policy, whatever policy its
  node was added with.
\<close>

theorem node_policy_ignored:
  assumes "wf_graph g" and "orders_ok (rtOrders R w)"
    and "prepareNextTasks L R g r completed lastN st w = (Inr (ts, tr), w')" and "t \<in> set ts"
  shows "task_policy t = DefaultRetryPolicy"
  using prepare_tasks[OF assms(1-3)] assms(4) by (simp add: task_policy_def)

text \<open>A graph whose node was given a policy of one attempt.\<close>

definition policy_graph :: "unit sgraph" where
  "policy_graph = (NewStateGraph SchemaNil)\<lparr>sgEntryPoint := ''a'',
     sgNodes := fmupd ''a'' ((demo_node ''a'')\<lparr>ndRetryPolicy := Some (DefaultRetryPolicy\<lparr>rpMaxAttempts := 1\<rparr>)\<rparr>) fmempty\<rparr>"

lemma node_policy_ignored_witness:
  "\<exists>ts tr. prepareNextTasks demo_lib demo_runtime policy_graph fmempty {} [] VNil () = (Inr (ts, tr), ()) \<and>
     ts \<noteq> [] \<and> (\<forall>t \<in> set ts. rpMaxAttempts (task_policy t) = 3)"
proof -
  have wf: "wf_graph policy_graph" by (simp add: policy_graph_def wf_graph_def NewStateGraph_def demo_node_def)
  obtain ts tr where p: "prepareNextTasks demo_lib demo_runtime policy_graph fmempty {} [] VNil () = (Inr (ts, tr), ())"
    "ts \<noteq> []"
    by (simp add: prepareNextTasks_def prepareNextTasksWithMode_def policy_graph_def NewStateGraph_def GetNode_def
        createTask_def demo_runtime_def End_def Let_def)
  from node_policy_ignored[OF wf runtime_okD[OF demo_runtime_ok] p(1)]
  have "\<forall>t \<in> set ts. rpMaxAttempts (task_policy t) = 3" by (simp add: DefaultRetryPolicy_def)
  with p show ?thesis by blast
qed

text \<open>
  a run that starts fresh applies its input twice: a channel that adds up integers counts
  the input twice.
\<close>

theorem input_counted_twice:
  assumes "egCheckpointer e = None" and "sgChannels (egGraph e) = fmupd x (ChBinop b) fmempty"
    and "boOperator b = IntAdd L" and "boValue b = VInt a" and ok: "runtime_ok R"
  shows "\<exists>s w' b'. start_run L R e (VMap (fmupd x (VInt i) fmempty)) w = (Inr s, w') \<and>
    fmlookup (rnRegistry s) x = Some (ChBinop b') \<and> boValue b' = VInt (a + i + i)"
proof -
  have reg: "ordReg (rtOrders R w) (fmupd k c fmempty) = [(k, c)]" for w k c
    using runtime_okD[OF ok, of w] by (auto simp: orders_ok_def intro: entries_single)
  have inp: "ordInput (rtOrders R w) (fmupd k v fmempty) = [(k, v)]" for w k v
    using runtime_okD[OF ok, of w] by (auto simp: orders_ok_def intro: entries_single)
  have wrs: "ordWrites (rtOrders R w) (fmupd k v fmempty) = [(k, v)]" for w k v
    using runtime_okD[OF ok, of w] by (auto simp: orders_ok_def intro: entries_single)
  have upd: "bo_Update L c [VInt i] = (Inr True, c\<lparr>boValue := VInt (n + i)\<rparr>)"
    if "boOperator c = IntAdd L" "boValue c = VInt n" for c n
    using that by (simp add: bo_Update_def isOverwrite_def overwriter_def IntAdd_def)
  have app: "applyInput L (rtOrders R w) (fmupd x (ChBinop c) fmempty) (VMap (fmupd x (VInt i) fmempty)) =
      (None, fmupd x (ChBinop (c\<lparr>boValue := VInt (n + i)\<rparr>)) fmempty, VMap (fmupd x (VInt i) fmempty))"
    if "boOperator c = IntAdd L" "boValue c = VInt n" for c n w
    using upd[OF that] by (simp add: applyInput_def toMap_def inp wrs rg_Get_def Let_def on_snd_def fmmap_fmupd)
  define c where "c = bo_Copy L b"
  have c: "boOperator c = IntAdd L" "boValue c = VInt a"
    using assms(3,4) by (simp_all add: c_def bo_Copy_def NewBinaryOperatorAggregate_def)
  have copy: "copy_channels L (ordReg (rtOrders R w) (sgChannels (egGraph (reset_engine e)))) = fmupd x (ChBinop c) fmempty" for w
    using assms(2) by (simp add: copy_channels_def reg NewRegistry_def rg_Register_def c_def)
  let ?c1 = "c\<lparr>boValue := VInt (a + i)\<rparr>" and ?in = "VMap (fmupd x (VInt i) fmempty)"
  obtain t w1 where t: "getThreadID R e w = (t, w1)" by fastforce
  obtain e1 w2 where e1: "fresh_checkpoint R t (reset_engine e) w1 = (e1, w2)" by fastforce
  have "fetch_checkpoint L (reset_engine e) t w1 = (Inr None, w1)" using assms(1) by (simp add: fetch_checkpoint_def)
  then have "start_run L R e ?in w = start_fresh L R (reset_engine e) (fmupd x (ChBinop ?c1) fmempty) t ?in w1"
    using app[OF c] by (simp only: start_run_def t copy Let_def prod.case option.case sum.case)
  moreover have "applyInput L (rtOrders R w1) (fmupd x (ChBinop ?c1) fmempty) ?in =
      (None, fmupd x (ChBinop (?c1\<lparr>boValue := VInt (a + i + i)\<rparr>)) fmempty, ?in)"
    using c(1) by (intro app) simp_all
  then have "start_fresh L R (reset_engine e) (fmupd x (ChBinop ?c1) fmempty) t ?in w1 =
      (Inr \<lparr>rnEngine = e1, rnRegistry = fmupd x (ChBinop (?c1\<lparr>boValue := VInt (a + i + i)\<rparr>)) fmempty,
        rnThread = t, rnStep = 0, rnCompleted = {}, rnLastNode = [], rnLastState = ?in, rnPending = []\<rparr>, w2)"
    by (simp only: start_fresh_def e1 prod.case option.case)
  ultimately have "start_run L R e ?in w = (Inr \<lparr>rnEngine = e1,
      rnRegistry = fmupd x (ChBinop (?c1\<lparr>boValue := VInt (a + i + i)\<rparr>)) fmempty,
      rnThread = t, rnStep = 0, rnCompleted = {}, rnLastNode = [], rnLastState = ?in, rnPending = []\<rparr>, w2)"
    by (rule trans)
  then show ?thesis
    by (intro exI[of _ "\<lparr>rnEngine = e1, rnRegistry = fmupd x (ChBinop (?c1\<lparr>boValue := VInt (a + i + i)\<rparr>)) fmempty,
      rnThread = t, rnStep = 0, rnCompleted = {}, rnLastNode = [], rnLastState = ?in, rnPending = []\<rparr>"]
      exI[of _ w2] exI[of _ "?c1\<lparr>boValue := VInt (a + i + i)\<rparr>"]) simp
qed

lemma input_counted_twice_witness:
  "\<exists>s w' b'. start_run demo_lib demo_runtime
      (NewEngine ((NewStateGraph SchemaNil)\<lparr>sgChannels := fmupd ''n'' (ChBinop
         ((NewBinaryOperatorAggregate demo_lib (VInt 0) (IntAdd demo_lib))\<lparr>boValue := VInt 0\<rparr>)) fmempty\<rparr>) [])
      (VMap (fmupd ''n'' (VInt 5) fmempty)) () = (Inr s, w') \<and>
    fmlookup (rnRegistry s) ''n'' = Some (ChBinop b') \<and> boValue b' = VInt 10"
  using input_counted_twice[OF _ _ _ _ demo_runtime_ok, of
      "NewEngine ((NewStateGraph SchemaNil)\<lparr>sgChannels := fmupd ''n'' (ChBinop
         ((NewBinaryOperatorAggregate demo_lib (VInt 0) (IntAdd demo_lib))\<lparr>boValue := VInt 0\<rparr>)) fmempty\<rparr>) []"
      "''n''" "(NewBinaryOperatorAggregate demo_lib (VInt 0) (IntAdd demo_lib))\<lparr>boValue := VInt 0\<rparr>" demo_lib 0 5 "()"]
  by (simp add: NewEngine_def NewBinaryOperatorAggregate_def)

text \<open>
  at the end of a run in exit durability every thread's latest checkpoint in the memory saver
  is the last one the run deferred for it (copied through JSON), and threads without one keep
  theirs; nothing stays deferred.
\<close>

theorem deferred_saved:
  assumes "egCheckpointer e = Some (memory_saver_of L uuid now)"
    and "saveDeferredCheckpoints e w = (err, e', w')"
  shows "err = None \<and> egDeferred e' = [] \<and>
    ms_Get L w' (fmupd ''thread_id'' (VStr t) fmempty) =
      (let ds = filter (\<lambda>d. dcThreadID d = t) (egDeferred e)
       in if ds = [] then ms_Get L w (fmupd ''thread_id'' (VStr t) fmempty)
          else Inr (Some (saver_copy L (dcCheckpoint (last ds)))))"
proof (cases "egDeferred e = []")
  case True
  with assms show ?thesis by (auto simp: saveDeferredCheckpoints_def)
next
  case False
  let ?ds = "filter (\<lambda>d. dcThreadID d = t) (egDeferred e)"
  from assms False have res: "err = None" "egDeferred e' = []" "w' = memory.put_all L uuid now (map deferred_put (egDeferred e)) w"
    by (auto simp: saveDeferredCheckpoints_def deferred_loop_puts[OF assms(1)])
  have "filter (\<lambda>(cfg, cp). get_str cfg ''thread_id'' = Some t) (map deferred_put (egDeferred e)) = map deferred_put ?ds"
    by (simp add: filter_map comp_def case_prod_unfold deferred_put_thread)
  moreover have "\<forall>(cfg, cp) \<in> set (map deferred_put (egDeferred e)). \<exists>t'. get_str cfg ''thread_id'' = Some t'"
    using deferred_put_thread by (auto simp: case_prod_unfold)
  ultimately have "ms_Get L w' (fmupd ''thread_id'' (VStr t) fmempty) =
      (let qs = map deferred_put ?ds in if qs = [] then ms_Get L w (fmupd ''thread_id'' (VStr t) fmempty)
       else Inr (Some (saver_copy L (snd (last qs)))))"
    using memory.get_put_all[of "map deferred_put (egDeferred e)" "fmupd ''thread_id'' (VStr t) fmempty" t L uuid now w]
    by (simp only: res(3) get_str_thread)
  then show ?thesis by (simp add: res Let_def last_map deferred_put_def)
qed

lemma deferred_saved_witness:
  "\<exists>err e' w'. saveDeferredCheckpoints
      (deferCheckpoint ''t'' ''c2'' 1 (fmupd ''x'' (VStr ''new'') fmempty)
        (deferCheckpoint ''t'' ''c1'' 0 fmempty memory_engine)) NewMemorySaver = (err, e', w') \<and>
     ms_Get demo_lib w' (fmupd ''thread_id'' (VStr ''t'') fmempty) =
       Inr (Some (saver_copy demo_lib (fmupd ''x'' (VStr ''new'') fmempty)))"
proof -
  let ?e = "deferCheckpoint ''t'' ''c2'' 1 (fmupd ''x'' (VStr ''new'') fmempty)
        (deferCheckpoint ''t'' ''c1'' 0 fmempty memory_engine)"
  have e: "egCheckpointer ?e = Some (memory_saver_of demo_lib ''u'' 0)" by (simp add: deferCheckpoint_def)
  obtain err e' w' where s: "saveDeferredCheckpoints ?e NewMemorySaver = (err, e', w')" by (metis prod_cases3)
  have "egDeferred memory_engine = []"
    by (simp add: memory_engine_def NewEngine_def eo_WithCheckpointer_def eo_WithConfig_def)
  with deferred_saved[OF e s, of "''t''"] s show ?thesis by (auto simp: deferCheckpoint_def)
qed

end
