(* ===== verification/Engine_Paths.thy ===== *)
theory Engine_Paths
  imports Engine_Resume "HOL-Library.Sublist"
begin

text \<open>
  The engine's routing of names and values: the nodes that follow a node, field mappings along
  dotted paths, and the encodings of string sets and task paths.
\<close>

section \<open>Nested fields\<close>

lemma get_set_path: "ps \<noteq> [] \<Longrightarrow> v \<noteq> VNil \<Longrightarrow> get_path (VMap (set_path m ps v)) ps = v"
proof (induction m ps v rule: set_path.induct)
  case (2 m p v)
  then show ?case by simp
next
  case (3 m p q ps v)
  then show ?case by (simp add: Let_def)
qed simp

lemma get_set_path_other:
  "\<not> prefix ps qs \<Longrightarrow> \<not> prefix qs ps \<Longrightarrow> get_path (VMap (set_path m ps v)) qs = get_path (VMap m) qs"
proof (induction m ps v arbitrary: qs rule: set_path.induct)
  case (1 m v)
  then show ?case by simp
next
  case (2 m p v)
  then obtain x xs where "qs = x # xs" "x \<noteq> p" by (cases qs) auto
  then show ?case by (simp add: fmlookup_default_def)
next
  case (3 m p q ps v)
  from 3(3) obtain x xs where qs: "qs = x # xs" by (cases qs) auto
  show ?case
  proof (cases "x = p")
    case False
    then show ?thesis by (simp add: qs fmlookup_default_def Let_def)
  next
    case True
    let ?sub = "case fmlookup m p of Some (VMap s) \<Rightarrow> s | _ \<Rightarrow> fmempty"
    from True 3(2,3) qs have np: "\<not> prefix (q # ps) xs" "\<not> prefix xs (q # ps)" by auto
    then obtain y ys where xs: "xs = y # ys" by (cases xs) auto
    have IH: "get_path (VMap (set_path ?sub (q # ps) v)) xs = get_path (VMap ?sub) xs"
      by (rule 3(1)[OF refl np])
    have "get_path (VMap ?sub) xs = (if fmlookup_default VNil m p = VNil then VNil else get_path (fmlookup_default VNil m p) xs)"
      by (auto simp: fmlookup_default_def xs split: option.splits gval.splits)
    with True IH qs show ?thesis by (simp add: Let_def)
  qed
qed

section \<open>The nodes that follow a node\<close>

lemma edges_loop_result:
  "edges_loop es node next =
     (let ts = map edTo (filter (\<lambda>e. edFrom e = node) es)
      in if End \<in> set ts then Inl (next \<union> set (takeWhile (\<lambda>t. t \<noteq> End) ts)) else Inr (next \<union> set ts))"
  by (induction es node "next" rule: edges_loop.induct) (auto simp: Let_def)

lemma cond_loop_none:
  "\<forall>c \<in> set cs. ceFrom c \<noteq> node \<Longrightarrow> cond_loop L cs node st next has w = (Inr (next, has), w)"
  by (induction cs) auto

section \<open>Properties\<close>

text \<open>
  from a node without conditional edges the run goes to the targets of its edges, or, if it
  has none, to the node the state names in \<open>_next\<close>, and in either case to the targets of its
  branches. An edge to the end cuts this short: only the targets of the edges before it, in the
  order in which they were added, are taken, and no branch is looked at.
\<close>

theorem next_nodes:
  assumes "\<forall>c \<in> set (sgConditionalEdges g). ceFrom c \<noteq> node"
    and "ts = map edTo (filter (\<lambda>e. edFrom e = node) (sgEdges g))"
  shows "getNextNodes L g node st w =
    (if End \<in> set ts then (set (takeWhile (\<lambda>t. t \<noteq> End) ts), w)
     else branch_loop (sgBranches g) node st (if ts = [] then resume_target g st else set ts) w)"
proof -
  have "edges_loop (sgEdges g) node {} =
      (if End \<in> set ts then Inl (set (takeWhile (\<lambda>t. t \<noteq> End) ts)) else Inr (set ts))"
    by (simp only: edges_loop_result assms(2)[symmetric] Let_def Un_empty_left)
  moreover have "cond_loop L (sgConditionalEdges g) node st {} False w = (Inr ({}, False), w)"
    by (rule cond_loop_none[OF assms(1)])
  moreover have "set ts = {} \<longleftrightarrow> ts = []" by simp
  ultimately show ?thesis by (simp add: getNextNodes_def Let_def)
qed

text \<open>Two edges out of a node, to the end and to another node, in both orders.\<close>

definition fork_graph :: "string list \<Rightarrow> unit sgraph" where
  "fork_graph ts = (NewStateGraph SchemaNil)\<lparr>sgEdges := map (\<lambda>t. \<lparr>edFrom = ''a'', edTo = t\<rparr>) ts\<rparr>"

lemma next_nodes_witness:
  "getNextNodes demo_lib (fork_graph [End, ''b'']) ''a'' VNil () = ({}, ()) \<and>
   getNextNodes demo_lib (fork_graph [''b'', End]) ''a'' VNil () = ({''b''}, ())"
  by (subst next_nodes[OF _ refl], simp add: fork_graph_def NewStateGraph_def)+
    (simp add: fork_graph_def NewStateGraph_def End_def)

text \<open>
  a field that is set along a dotted path is what the path leads to afterwards; paths that
  neither extend it nor are extended by it lead where they led before.
\<close>

theorem nested_field_set:
  assumes "setNestedField m path v = Some m'" and "path \<noteq> []" and "v \<noteq> VNil"
  shows "getNestedField m' path = v \<and>
    (\<forall>q. q \<noteq> [] \<longrightarrow> \<not> prefix (split_on CHR ''.'' path) (split_on CHR ''.'' q) \<longrightarrow>
       \<not> prefix (split_on CHR ''.'' q) (split_on CHR ''.'' path) \<longrightarrow> getNestedField m' q = getNestedField m q)"
  using assms by (auto simp: setNestedField_def getNestedField_def get_set_path get_set_path_other)

lemma nested_field_set_witness:
  "getNestedField (set_path fmempty [''a'', ''b''] (VInt 1)) ''a.b'' = VInt 1"
proof -
  have "setNestedField fmempty ''a.b'' (VInt 1) = Some (set_path fmempty [''a'', ''b''] (VInt 1))"
    by (simp add: setNestedField_def)
  from nested_field_set[OF this] show ?thesis by simp
qed

text \<open>
  a set of names comes back from its encoding, the empty set as nil, if no name contains the
  separator and the set is not the set of just the empty name, which comes back as nil too; a
  path of names without slashes comes back from its text.
\<close>

theorem string_set_roundtrip:
  assumes "finite S" and "\<forall>s \<in> S. CHR 0x00 \<notin> set s" and "\<forall>p \<in> set path. CHR ''/'' \<notin> set p" and "path \<noteq> [[]]"
  shows "deserializeStringSet (serializeStringSet S) = (if S = {} \<or> S = {[]} then None else Some S) \<and>
    ParseTaskPath (TaskPathStr path) = path"
proof
  show "deserializeStringSet (serializeStringSet S) = (if S = {} \<or> S = {[]} then None else Some S)"
  proof (cases "S = {} \<or> S = {[]}")
    case True
    then show ?thesis by (auto simp: serializeStringSet_def deserializeStringSet_def)
  next
    case False
    then have "serializeStringSet S \<noteq> []" using serialize_list[OF assms(1) _ _ assms(2)] by blast
    moreover from this False deserialize_serialize[OF assms(1) _ assms(2)]
    have "set (split_on CHR 0x00 (serializeStringSet S)) = S" by (simp add: deserializeStringSet_def)
    ultimately show ?thesis using False by (simp add: deserializeStringSet_def)
  qed
  show "ParseTaskPath (TaskPathStr path) = path"
  proof (cases path)
    case (Cons p ps)
    then have "join_with CHR ''/'' path \<noteq> []" using assms(4) by (cases ps) auto
    with Cons assms(3) show ?thesis by (simp add: ParseTaskPath_def TaskPathStr_def split_on_join del: join_with.simps)
  qed (simp add: ParseTaskPath_def TaskPathStr_def)
qed

lemma string_set_roundtrip_witness:
  "deserializeStringSet (serializeStringSet {''a'', ''b''}) = Some {''a'', ''b''} \<and>
   ParseTaskPath (TaskPathStr [''a'', ''b'']) = [''a'', ''b'']"
  using string_set_roundtrip[of "{''a'', ''b''}" "[''a'', ''b'']"] by simp

end
