(* ===== verification/Chan_Theorems.thy ===== *)
theory Chan_Theorems
  imports Registry
begin

text \<open>
  The properties of channels and of the registry: saving and restoring, order independence,
  and what the aggregates, barriers and topics compute over a run.
\<close>

section \<open>Saving and restoring\<close>





section \<open>Orders\<close>

text \<open>
  when a batch of updates succeeds in one iteration order of the writes, it succeeds in
  every order and leaves the same registry.
\<close>

theorem UpdateChannels_order:
  assumes "entries w es" and "entries w fs" and "rg_UpdateChannels L r es = (None, r')"
  shows "rg_UpdateChannels L r fs = (None, r')"
  by (rule Update_order_independent[OF assms])

lemma UpdateChannels_order_witness:
  "rg_UpdateChannels demo_lib (fmap_of_list [(''x'', ChLastValue (NewLastValue VNil)), (''y'', ChTopic (NewTopic VNil True))])
     [(''y'', [VInt 1, VInt 2]), (''x'', [VInt 3])] =
   (None, fmap_of_list [(''x'', ChLastValue ((NewLastValue VNil)\<lparr>lvValue := VInt 3\<rparr>)),
      (''y'', ChTopic ((NewTopic VNil True)\<lparr>tpValues := [VInt 1, VInt 2]\<rparr>))])"
proof (rule UpdateChannels_order)
  let ?es = "[(''x'', [VInt 3]), (''y'', [VInt 1, VInt 2])]"
  show "entries (fmap_of_list ?es) ?es" by (rule entries_of_list) simp
  show "entries (fmap_of_list ?es) [(''y'', [VInt 1, VInt 2]), (''x'', [VInt 3])]"
    by (auto simp: entries_def intro!: fmap_ext)
  show "rg_UpdateChannels demo_lib (fmap_of_list [(''x'', ChLastValue (NewLastValue VNil)), (''y'', ChTopic (NewTopic VNil True))]) ?es =
   (None, fmap_of_list [(''x'', ChLastValue ((NewLastValue VNil)\<lparr>lvValue := VInt 3\<rparr>)),
      (''y'', ChTopic ((NewTopic VNil True)\<lparr>tpValues := [VInt 1, VInt 2]\<rparr>))])"
    by (auto simp: chan_defs Let_def intro!: fmap_ext)
qed

text \<open>
  \<open>GetValues\<close> never fails; it returns the value of each channel that has one and none for
  the empty ones, and it reads every channel, so that each ephemeral channel is empty after it.
\<close>

theorem GetValues_reads:
  assumes "entries r es"
  shows "\<exists>vals. rg_GetValues r es = (Inr vals, fmmap (\<lambda>c. snd (ch_Get c)) r) \<and>
     (\<forall>k. fmlookup vals k = Option.bind (fmlookup r k)
        (\<lambda>c. case fst (ch_Get c) of Inr v \<Rightarrow> Some v | Inl _ \<Rightarrow> None)) \<and>
     (\<forall>k e. fmlookup r k = Some (ChEphemeralValue e) \<longrightarrow>
        map_option ch_IsAvailable (fmlookup (fmmap (\<lambda>c. snd (ch_Get c)) r) k) = Some False)"
proof -
  from GetValues_lookup[OF assms] obtain vals where
    v: "rg_GetValues r es = (Inr vals, fmmap (\<lambda>c. snd (ch_Get c)) r)" and
    l: "\<And>k. fmlookup vals k = (case fmlookup r k of None \<Rightarrow> None
       | Some c \<Rightarrow> (case fst (ch_Get c) of Inr v \<Rightarrow> Some v | Inl _ \<Rightarrow> None))" by blast
  have "fmlookup vals k = Option.bind (fmlookup r k)
      (\<lambda>c. case fst (ch_Get c) of Inr v \<Rightarrow> Some v | Inl _ \<Rightarrow> None)" for k
    by (simp add: l split: option.splits)
  moreover have "\<not> ch_IsAvailable (snd (ch_Get (ChEphemeralValue e)))" for e
    by (simp add: chan_defs)
  ultimately show ?thesis using v by simp
qed

lemma GetValues_reads_witness:
  "\<exists>vals. rg_GetValues (fmap_of_list [(''e'', ChEphemeralValue ((NewEphemeralValue VNil True)\<lparr>evValue := VInt 1\<rparr>))])
      [(''e'', ChEphemeralValue ((NewEphemeralValue VNil True)\<lparr>evValue := VInt 1\<rparr>))] =
     (Inr vals, fmmap (\<lambda>c. snd (ch_Get c)) (fmap_of_list [(''e'', ChEphemeralValue ((NewEphemeralValue VNil True)\<lparr>evValue := VInt 1\<rparr>))]))
     \<and> fmlookup vals ''e'' = Some (VInt 1)"
proof -
  have es: "entries (fmap_of_list [(''e'', ChEphemeralValue ((NewEphemeralValue VNil True)\<lparr>evValue := VInt 1\<rparr>))])
      [(''e'', ChEphemeralValue ((NewEphemeralValue VNil True)\<lparr>evValue := VInt 1\<rparr>))]"
    by (rule entries_of_list) simp
  from GetValues_reads[OF es] obtain vals where
    v: "rg_GetValues (fmap_of_list [(''e'', ChEphemeralValue ((NewEphemeralValue VNil True)\<lparr>evValue := VInt 1\<rparr>))])
      [(''e'', ChEphemeralValue ((NewEphemeralValue VNil True)\<lparr>evValue := VInt 1\<rparr>))] =
     (Inr vals, fmmap (\<lambda>c. snd (ch_Get c)) (fmap_of_list [(''e'', ChEphemeralValue ((NewEphemeralValue VNil True)\<lparr>evValue := VInt 1\<rparr>))]))"
    "fmlookup vals ''e'' = Option.bind (fmlookup (fmap_of_list [(''e'', ChEphemeralValue ((NewEphemeralValue VNil True)\<lparr>evValue := VInt 1\<rparr>))]) ''e'')
        (\<lambda>c. case fst (ch_Get c) of Inr v \<Rightarrow> Some v | Inl _ \<Rightarrow> None)" by blast
  from v(2) have "fmlookup vals ''e'' = Some (VInt 1)" by (simp add: chan_defs)
  with v(1) show ?thesis by blast
qed

section \<open>What the channels compute\<close>

text \<open>
  the update of an aggregate that holds a value is the reference \<open>binop_spec\<close>: the operator
  folded over the values when none is an overwrite, the overwrite's value when there is one, and
  the error when there are two.
\<close>

theorem aggregate_update:
  assumes "vs \<noteq> []" and "boValue c \<noteq> VMissing"
  shows "(case binop_spec L (boOperator c) (boValue c) vs of
      Some v \<Rightarrow> bo_Update L c vs = (Inr True, c\<lparr>boValue := v\<rparr>)
    | None \<Rightarrow> fst (bo_Update L c vs) =
        Inl (InvalidUpdateError ''Can receive only one Overwrite value per super-step.''))"
  using assms binop_loop_spec[of L "boOperator c" "boValue c" vs]
  by (auto simp: bo_Update_def Let_def split: option.splits prod.splits)

lemma aggregate_update_witness:
  "bo_Update demo_lib (NewBinaryOperatorAggregate demo_lib (VInt 0) (IntAdd demo_lib)) [VInt 2, VInt 3] =
   (Inr True, (NewBinaryOperatorAggregate demo_lib (VInt 0) (IntAdd demo_lib))\<lparr>boValue := VInt 5\<rparr>)"
  using aggregate_update[of "[VInt 2, VInt 3]" "NewBinaryOperatorAggregate demo_lib (VInt 0) (IntAdd demo_lib)" demo_lib]
  by (simp add: binop_spec_def isOverwrite_def overwriter_def NewBinaryOperatorAggregate_def
      createZeroValue_def IntAdd_def)

text \<open>What updates with expected names record in a barrier, and that they do not fail.\<close>

definition nb_run :: "named_barrier \<Rightarrow> string list list \<Rightarrow> named_barrier" where
  "nb_run c steps = fold (\<lambda>ns c. snd (nb_Update c (map VStr ns))) steps c"

lemma nb_Update_names:
  assumes "barrier_ok (nbNames c) (nbSeen c)" and "set ns \<subseteq> fmdom' (nbNames c)"
  defines "c' \<equiv> snd (nb_Update c (map VStr ns))"
  shows "nbNames c' = nbNames c" and "barrier_ok (nbNames c') (nbSeen c')"
    and "seen_set (nbSeen c') = seen_set (nbSeen c) \<union> set ns"
  using assms barrier_loop_ok[OF assms(1), of False "map VStr ns"]
    barrier_loop_names[OF assms(2), of "nbSeen c" False]
  by (auto simp: c'_def nb_Update_def split: prod.splits)

lemma nb_run_seen:
  "barrier_ok (nbNames c) (nbSeen c) \<Longrightarrow> set (concat steps) \<subseteq> fmdom' (nbNames c) \<Longrightarrow>
   nbNames (nb_run c steps) = nbNames c \<and> barrier_ok (nbNames c) (nbSeen (nb_run c steps)) \<and>
   seen_set (nbSeen (nb_run c steps)) = seen_set (nbSeen c) \<union> set (concat steps)"
proof (induction steps arbitrary: c)
  case Nil
  then show ?case by (simp add: nb_run_def)
next
  case (Cons ns steps)
  have ns: "set ns \<subseteq> fmdom' (nbNames c)" using Cons.prems by auto
  note st = nb_Update_names[OF Cons.prems(1) ns]
  have "nb_run c (ns # steps) = nb_run (snd (nb_Update c (map VStr ns))) steps" by (simp add: nb_run_def)
  with Cons.IH[OF st(2)] Cons.prems st show ?case by auto
qed

text \<open>
  a barrier that starts empty becomes available exactly when every expected name has been
  written, over any sequence of updates with expected names; the consume that follows reports
  the release and empties it, and a consume before that changes nothing.
\<close>

theorem barrier_releases:
  assumes "set (concat steps) \<subseteq> set wait" and "c = nb_run (NewNamedBarrierValue typ wait) steps"
  shows "(nb_IsAvailable c \<longleftrightarrow> set wait = set (concat steps)) \<and>
    nb_Consume c = (if set wait = set (concat steps) \<and> wait \<noteq> []
                    then (True, c\<lparr>nbSeen := fmempty\<rparr>) else (False, c))"
proof -
  let ?n = "NewNamedBarrierValue typ wait"
  have n: "nbNames ?n = name_set wait" "nbSeen ?n = fmempty" by (simp_all add: NewNamedBarrierValue_def)
  from nb_run_seen[of ?n steps] assms have r:
    "nbNames c = name_set wait" "barrier_ok (name_set wait) (nbSeen c)"
    "seen_set (nbSeen c) = set (concat steps)"
    by (simp_all add: n name_set_dom barrier_ok_new)
  have avail: "nb_namesMatchSeen c \<longleftrightarrow> set wait = set (concat steps)"
    using names_match_iff[OF r(2)] r(1,3) by (auto simp: nb_namesMatchSeen_def name_set_dom)
  have "fmdom' (nbSeen c) = set (concat steps)"
    using r(2,3) seen_set_dom[of "nbSeen c"] by (simp add: barrier_ok_def)
  then have "flen (nbSeen c) > 0 \<longleftrightarrow> set (concat steps) \<noteq> {}"
    by (metis flen_def card_gt_0_iff finite_set)
  then have "flen (nbSeen c) > 0 \<longleftrightarrow> wait \<noteq> []" if "set wait = set (concat steps)"
    using that by (metis set_empty)
  then show ?thesis
    using avail by (auto simp: nb_IsAvailable_def nb_Consume_def)
qed

lemma barrier_releases_witness:
  "nb_IsAvailable (nb_run (NewNamedBarrierValue VNil [''a'', ''b'']) [[''b''], [''a'', ''b'']])"
  using barrier_releases[of "[[''b''], [''a'', ''b'']]" "[''a'', ''b'']" _ VNil] by auto

text \<open>
  an accumulating topic holds everything ever published, in order and with lists
  flattened; one that does not accumulate holds what the last update published.
\<close>

theorem topic_values:
  "tpValues (tp_run (NewTopic typ acc) steps) =
     (if acc then flatten (concat steps) else case rev steps of [] \<Rightarrow> [] | vs # _ \<Rightarrow> flatten vs)"
proof -
  have "tpValues (NewTopic typ a) = []" "tpAccumulate (NewTopic typ a) = a" for a
    by (simp_all add: NewTopic_def)
  with tp_run_values[of "NewTopic typ acc" steps] show ?thesis by (simp split: list.splits)
qed

text \<open>
  a reducer over a last-value channel folds the reducer over the current value, when there
  is one, and the new values in order, and stores the one result.
\<close>

theorem reducer_update:
  "ch_Update L (ChReducer (ChLastValue c) r) vs =
     (if vs = [] then (Inr False, ChReducer (ChLastValue c) r)
      else (Inr True, ChReducer (ChLastValue (c\<lparr>lvValue :=
        (if lvValue c = VMissing then foldl r (hd vs) (tl vs) else foldl r (lvValue c) vs)\<rparr>)) r))"
proof (cases vs)
  case Nil
  then show ?thesis by simp
next
  case (Cons v ws)
  then show ?thesis by (simp add: lv_Get_def lv_Update_def reduce_values_def on_snd_def)
qed

end
