(* ===== verification/Cache.thy ===== *)
theory Cache
  imports Values
begin

text \<open>
  The cache of node outputs (\<^verbatim>\<open>pregel/cache.go\<close>): \<open>MemoryCache\<close> with its eviction, \<open>NoopCache\<close>,
  and \<open>CachedExecutor\<close>, which relies on a cache only through its interface. The locale
  \<open>lossy_cache\<close> states what it relies on; both caches are shown to keep it.
\<close>

section \<open>MemoryCache\<close>

text \<open>Times are nanoseconds; \<open>0\<close> is the zero time.\<close>

record cache_entry =
  ceValue :: gval
  ceExpiration :: int
  ceLastAccess :: int
  ceHits :: int

datatype eviction_policy = EvictLRU | EvictLFU | EvictRandom | EvictOther int

record memory_cache =
  mcData :: "(string, cache_entry) fmap"
  mcMaxSize :: int
  mcEviction :: eviction_policy

definition NewMemoryCache :: "int \<Rightarrow> eviction_policy \<Rightarrow> memory_cache" where
  "NewMemoryCache n ev = \<lparr>mcData = fmempty, mcMaxSize = n, mcEviction = ev\<rparr>"

text \<open>\<open>now1\<close> and \<open>now2\<close> are the two readings of the clock.\<close>

definition mc_Get :: "int \<Rightarrow> int \<Rightarrow> memory_cache \<Rightarrow> string \<Rightarrow> gval option \<times> memory_cache" where
  "mc_Get now1 now2 c key = (case fmlookup (mcData c) key of
     None \<Rightarrow> (None, c)
   | Some e \<Rightarrow>
       (if ceExpiration e \<noteq> 0 \<and> now1 > ceExpiration e then (None, c)
        else (Some (ceValue e), c\<lparr>mcData := fmupd key (e\<lparr>ceHits := ceHits e + 1, ceLastAccess := now2\<rparr>) (mcData c)\<rparr>)))"

fun lru_loop :: "(string \<times> cache_entry) list \<Rightarrow> int \<Rightarrow> string \<Rightarrow> string" where
  "lru_loop [] oldest k = k"
| "lru_loop ((k', e) # es) oldest k =
     (if oldest = 0 \<or> ceLastAccess e < oldest then lru_loop es (ceLastAccess e) k' else lru_loop es oldest k)"

fun lfu_loop :: "(string \<times> cache_entry) list \<Rightarrow> int \<Rightarrow> string \<Rightarrow> string" where
  "lfu_loop [] minHits k = k"
| "lfu_loop ((k', e) # es) minHits k =
     (if minHits = -1 \<or> ceHits e < minHits then lfu_loop es (ceHits e) k' else lfu_loop es minHits k)"

text \<open>\<open>es\<close> is the order in which the map is visited.\<close>

definition victim :: "eviction_policy \<Rightarrow> (string \<times> cache_entry) list \<Rightarrow> string" where
  "victim ev es = (case ev of
     EvictLRU \<Rightarrow> lru_loop es 0 []
   | EvictLFU \<Rightarrow> lfu_loop es (-1) []
   | EvictRandom \<Rightarrow> (case es of [] \<Rightarrow> [] | (k, e) # _ \<Rightarrow> k)
   | EvictOther _ \<Rightarrow> [])"

definition evict :: "(string \<times> cache_entry) list \<Rightarrow> memory_cache \<Rightarrow> memory_cache" where
  "evict es c =
     (if flen (mcData c) = 0 then c
      else (let k = victim (mcEviction c) es in if k \<noteq> [] then c\<lparr>mcData := fmdrop k (mcData c)\<rparr> else c))"

definition mc_Set ::
  "(string \<times> cache_entry) list \<Rightarrow> int \<Rightarrow> int \<Rightarrow> memory_cache \<Rightarrow> string \<Rightarrow> gval \<Rightarrow> int \<Rightarrow> memory_cache"
where
  "mc_Set es now1 now2 c key v ttl =
     (let c1 = (if int (flen (mcData c)) \<ge> mcMaxSize c then evict es c else c);
          expiration = (if ttl > 0 then now1 + ttl else 0)
      in c1\<lparr>mcData := fmupd key \<lparr>ceValue = v, ceExpiration = expiration, ceLastAccess = now2, ceHits = 0\<rparr> (mcData c1)\<rparr>)"

definition mc_Delete :: "memory_cache \<Rightarrow> string \<Rightarrow> memory_cache" where
  "mc_Delete c key = c\<lparr>mcData := fmdrop key (mcData c)\<rparr>"

definition mc_Clear :: "memory_cache \<Rightarrow> memory_cache" where
  "mc_Clear c = c\<lparr>mcData := fmempty\<rparr>"

text \<open>\<open>hash\<close> is the printed SHA-256 digest.\<close>

definition GenerateCacheKey :: "golib \<Rightarrow> (string \<Rightarrow> string) \<Rightarrow> string \<Rightarrow> gval \<Rightarrow> string" where
  "GenerateCacheKey L hash nodeName input = (case json_text L input of
     None \<Rightarrow> nodeName @ CHR '':'' # type_name input
   | Some d \<Rightarrow> nodeName @ CHR '':'' # hash d)"

section \<open>CachedExecutor\<close>

record cache_policy =
  cpKeyFunc :: "(gval \<Rightarrow> string) option"
  cpTTL :: "int option"

text \<open>A cache as its interface: looking up and storing act on a state that includes the clock.\<close>

record 'c cache =
  caGet :: "'c \<Rightarrow> string \<Rightarrow> gval option \<times> 'c"
  caSet :: "'c \<Rightarrow> string \<Rightarrow> gval \<Rightarrow> int \<Rightarrow> 'c"

definition cache_key :: "golib \<Rightarrow> (string \<Rightarrow> string) \<Rightarrow> cache_policy option \<Rightarrow> string \<Rightarrow> gval \<Rightarrow> string" where
  "cache_key L hash pol nodeName input =
     (case Option.bind pol cpKeyFunc of Some f \<Rightarrow> f input | None \<Rightarrow> GenerateCacheKey L hash nodeName input)"

definition ce_Execute ::
  "golib \<Rightarrow> (string \<Rightarrow> string) \<Rightarrow> 'c cache \<Rightarrow> cache_policy option \<Rightarrow> string \<Rightarrow> gval
   \<Rightarrow> (gval \<Rightarrow> 'w \<Rightarrow> (gerr + gval) \<times> 'w) \<Rightarrow> 'c \<Rightarrow> 'w \<Rightarrow> (gerr + gval) \<times> 'c \<times> 'w"
where
  "ce_Execute L hash C pol nodeName input fn c w =
     (let key = cache_key L hash pol nodeName input in
      case caGet C c key of
        (Some v, c1) \<Rightarrow> (Inr v, c1, w)
      | (None, c1) \<Rightarrow>
          (case fn input w of
             (Inl e, w1) \<Rightarrow> (Inl e, c1, w1)
           | (Inr v, w1) \<Rightarrow>
               (let ttl = (case Option.bind pol cpTTL of Some t \<Rightarrow> t | None \<Rightarrow> 0)
                in (Inr v, caSet C c1 key v ttl, w1))))"

section \<open>The contract of a cache\<close>

text \<open>
  A cache may forget, but what it answers for a key is what was last stored for it:
  \<open>holds c k v\<close> says that \<open>c\<close> may answer \<open>v\<close> for \<open>k\<close>.
\<close>

locale lossy_cache =
  fixes C :: "'c cache" and holds :: "'c \<Rightarrow> string \<Rightarrow> gval \<Rightarrow> bool"
  assumes get_holds: "caGet C c k = (Some v, c') \<Longrightarrow> holds c k v"
    and get_keeps: "caGet C c k = (r, c') \<Longrightarrow> holds c' k' v \<Longrightarrow> holds c k' v"
    and set_holds: "holds (caSet C c k v ttl) k' v' \<Longrightarrow> (k' = k \<and> v' = v) \<or> (k' \<noteq> k \<and> holds c k' v')"
begin

text \<open>The results of \<open>f\<close>, stored under the keys of their inputs.\<close>

definition sound :: "(gval \<Rightarrow> string) \<Rightarrow> (gval \<Rightarrow> gerr + gval) \<Rightarrow> 'c \<Rightarrow> bool" where
  "sound key f c \<longleftrightarrow> (\<forall>x v. holds c (key x) v \<longrightarrow> f x = Inr v)"

lemma execute_transparent:
  assumes "sound (cache_key L hash pol n) f c"
    and "\<And>x y. cache_key L hash pol n x = cache_key L hash pol n y \<Longrightarrow> f x = f y"
    and "ce_Execute L hash C pol n x (\<lambda>x w. (f x, h x w)) c w = (res, c', w')"
  shows "res = f x \<and> sound (cache_key L hash pol n) f c'"
proof -
  obtain r c1 where g: "caGet C c (cache_key L hash pol n x) = (r, c1)" by fastforce
  have s1: "sound (cache_key L hash pol n) f c1"
    using assms(1) get_keeps[OF g] by (auto simp: sound_def)
  show ?thesis
  proof (cases r)
    case (Some v)
    with g have "f x = Inr v" using assms(1) get_holds by (auto simp: sound_def)
    with assms(3) g Some s1 show ?thesis by (simp add: ce_Execute_def Let_def)
  next
    case None
    show ?thesis
    proof (cases "f x")
      case (Inl e)
      with assms(3) g None s1 show ?thesis by (simp add: ce_Execute_def Let_def)
    next
      case (Inr v)
      let ?ttl = "case Option.bind pol cpTTL of Some t \<Rightarrow> t | None \<Rightarrow> 0"
      from assms(3) g None Inr have res: "res = Inr v" "c' = caSet C c1 (cache_key L hash pol n x) v ?ttl"
        by (simp_all add: ce_Execute_def Let_def)
      have "f y = Inr u" if "holds c' (cache_key L hash pol n y) u" for y u
        using set_holds[of c1 "cache_key L hash pol n x" v ?ttl "cache_key L hash pol n y" u]
          that res(2) s1 assms(2)[of y x] Inr by (auto simp: sound_def)
      with res(1) Inr show ?thesis by (simp add: sound_def)
    qed
  qed
qed

end

text \<open>The memory cache with a clock and an order of visiting, both drawn from its state.\<close>

definition memory_cache_of ::
  "('t \<Rightarrow> int \<times> 't) \<Rightarrow> (memory_cache \<Rightarrow> (string \<times> cache_entry) list) \<Rightarrow> (memory_cache \<times> 't) cache"
where
  "memory_cache_of tick ord = \<lparr>
     caGet = (\<lambda>(c, t) k. case tick t of (n1, t1) \<Rightarrow> (case tick t1 of (n2, t2) \<Rightarrow>
       (case mc_Get n1 n2 c k of (r, c') \<Rightarrow> (r, (c', t2))))),
     caSet = (\<lambda>(c, t) k v ttl. case tick t of (n1, t1) \<Rightarrow> (case tick t1 of (n2, t2) \<Rightarrow>
       (mc_Set (ord c) n1 n2 c k v ttl, t2)))\<rparr>"

definition mc_holds :: "memory_cache \<times> 't \<Rightarrow> string \<Rightarrow> gval \<Rightarrow> bool" where
  "mc_holds c k v = (map_option ceValue (fmlookup (mcData (fst c)) k) = Some v)"

lemma evict_lookup: "fmlookup (mcData (evict es c)) k = Some e \<Longrightarrow> fmlookup (mcData c) k = Some e"
  by (auto simp: evict_def Let_def split: if_splits)

lemma mc_Set_lookup:
  "fmlookup (mcData (mc_Set es n1 n2 c k v ttl)) k' = Some e \<Longrightarrow>
   (k' = k \<and> ceValue e = v) \<or> (k' \<noteq> k \<and> fmlookup (mcData c) k' = Some e)"
  by (auto simp: mc_Set_def Let_def dest!: evict_lookup split: if_splits)

lemma mc_Get_lookup:
  "mc_Get n1 n2 c k = (r, c') \<Longrightarrow>
   (\<forall>v. r = Some v \<longrightarrow> map_option ceValue (fmlookup (mcData c) k) = Some v) \<and>
   (\<forall>k'. map_option ceValue (fmlookup (mcData c') k') = map_option ceValue (fmlookup (mcData c) k'))"
  by (auto simp: mc_Get_def split: option.splits if_splits)

lemma mc_Get_holds:
  assumes "mc_Get n1 n2 c k = (r, c')"
  shows "r = Some v \<Longrightarrow> mc_holds (c, t) k v" and "mc_holds (c', t') k' v \<Longrightarrow> mc_holds (c, t) k' v"
  using mc_Get_lookup[OF assms] by (simp_all add: mc_holds_def)

lemma mc_Set_holds:
  "mc_holds (mc_Set es n1 n2 c k v ttl, t') k' v' \<Longrightarrow> (k' = k \<and> v' = v) \<or> (k' \<noteq> k \<and> mc_holds (c, t) k' v')"
  by (auto simp: mc_holds_def dest!: mc_Set_lookup)

interpretation memory_cache: lossy_cache "memory_cache_of tick ord" mc_holds for tick ord
proof
  fix c k v c' assume "caGet (memory_cache_of tick ord) c k = (Some v, c')"
  then show "mc_holds c k v"
    by (auto simp: memory_cache_of_def split: prod.splits intro: mc_Get_holds(1))
next
  fix c k r c' k' v assume "caGet (memory_cache_of tick ord) c k = (r, c')" "mc_holds c' k' v"
  then show "mc_holds c k' v"
    by (auto simp: memory_cache_of_def split: prod.splits intro: mc_Get_holds(2))
next
  fix c k v ttl k' v' assume "mc_holds (caSet (memory_cache_of tick ord) c k v ttl) k' v'"
  then show "(k' = k \<and> v' = v) \<or> (k' \<noteq> k \<and> mc_holds c k' v')"
    by (auto simp: memory_cache_of_def split: prod.splits dest: mc_Set_holds)
qed

text \<open>\<open>NoopCache\<close>.\<close>

definition noop_cache :: "unit cache" where
  "noop_cache = \<lparr>caGet = (\<lambda>c k. (None, c)), caSet = (\<lambda>c k v ttl. c)\<rparr>"

interpretation noop_cache: lossy_cache noop_cache "\<lambda>c k v. False"
  by unfold_locales (simp_all add: noop_cache_def)

section \<open>Runs over a cache\<close>

text \<open>A sequence of inputs executed one after the other; the node's world \<open>w\<close> is threaded through.\<close>

fun execute_all ::
  "golib \<Rightarrow> (string \<Rightarrow> string) \<Rightarrow> 'c cache \<Rightarrow> cache_policy option \<Rightarrow> string
   \<Rightarrow> (gval \<Rightarrow> 'w \<Rightarrow> (gerr + gval) \<times> 'w) \<Rightarrow> gval list \<Rightarrow> 'c \<Rightarrow> 'w \<Rightarrow> (gerr + gval) list \<times> 'c \<times> 'w"
where
  "execute_all L hash C pol n fn [] c w = ([], c, w)"
| "execute_all L hash C pol n fn (x # xs) c w =
     (case ce_Execute L hash C pol n x fn c w of (r, c1, w1) \<Rightarrow>
        (case execute_all L hash C pol n fn xs c1 w1 of (rs, c2, w2) \<Rightarrow> (r # rs, c2, w2)))"

context lossy_cache
begin

lemma execute_all_transparent:
  assumes "\<And>x y. cache_key L hash pol n x = cache_key L hash pol n y \<Longrightarrow> f x = f y"
  shows "sound (cache_key L hash pol n) f c \<Longrightarrow>
    fst (execute_all L hash C pol n (\<lambda>x w. (f x, h x w)) xs c w) = map f xs"
proof (induction xs arbitrary: c w)
  case (Cons x xs)
  obtain r c1 w1 where e: "ce_Execute L hash C pol n x (\<lambda>x w. (f x, h x w)) c w = (r, c1, w1)"
    by (metis prod_cases3)
  have "r = f x \<and> sound (cache_key L hash pol n) f c1"
    by (rule execute_transparent[OF Cons.prems assms e])
  then show ?case using Cons.IH[of c1 w1] by (simp add: e case_prod_unfold)
qed simp

end


definition demo_policy :: "cache_policy" where
  "demo_policy = \<lparr>cpKeyFunc = Some (\<lambda>x. case x of VBool b \<Rightarrow> show_bool b | _ \<Rightarrow> ''?''), cpTTL = Some 5\<rparr>"

definition demo_node :: "gval \<Rightarrow> gerr + gval" where
  "demo_node x = (case x of VBool b \<Rightarrow> Inr (VBool (\<not> b)) | _ \<Rightarrow> Inl (ErrorString ''not a bool''))"


text \<open>Inputs that JSON cannot encode and that have one type share one cache key (the fallback
  of \<open>GenerateCacheKey\<close>): the second one is answered with the result of the first, and the node
  is not called for it.\<close>

theorem unencodable_inputs_collide:
  assumes "json_text L x = None" "json_text L y = None" "type_name x = type_name y"
    and "f x = Inr v"
  shows "\<exists>c. execute_all L hash (memory_cache_of tick ord) None n (\<lambda>x w. (f x, w @ [x])) [x, y]
           (NewMemoryCache sz ev, t) [] = ([Inr v, Inr v], c, [x])"
proof -
  obtain t1 n1 t2 n2 t3 n3 t4 n4 t5 n5 t6 n6 where
    "tick t = (n1, t1)" "tick t1 = (n2, t2)" "tick t2 = (n3, t3)" "tick t3 = (n4, t4)"
    "tick t4 = (n5, t5)" "tick t5 = (n6, t6)"
    by (metis surj_pair)
  with assms show ?thesis
    by (simp add: ce_Execute_def cache_key_def GenerateCacheKey_def memory_cache_of_def mc_Get_def mc_Set_def
        evict_def NewMemoryCache_def Let_def)
qed

theorem unencodable_inputs_collide_witness:
  "\<exists>c. execute_all demo_lib id (memory_cache_of (\<lambda>t. (t, t + 1)) (\<lambda>c. sorted_list_of_fmap (mcData c))) None ''n''
     (\<lambda>x w. (case x of VOther _ i \<Rightarrow> Inr (VInt (of_nat i)) | _ \<Rightarrow> Inr VNil, w @ [x]))
     [VOther ''T'' 1, VOther ''T'' 2] (NewMemoryCache 10 EvictLRU, 1 :: int) []
   = ([Inr (VInt 1), Inr (VInt 1)], c, [VOther ''T'' 1])"
  by (rule unencodable_inputs_collide) (simp_all add: demo_lib_def)

section \<open>The size of a cache\<close>

text \<open>The calls of the interface, with the readings of the clock they make.\<close>

datatype cache_call =
    CallGet int int string
  | CallSet int int string gval int
  | CallDelete string
  | CallClear

definition mc_call ::
  "(memory_cache \<Rightarrow> (string \<times> cache_entry) list) \<Rightarrow> cache_call \<Rightarrow> memory_cache \<Rightarrow> memory_cache" where
  "mc_call ord call c = (case call of
     CallGet n1 n2 k \<Rightarrow> snd (mc_Get n1 n2 c k)
   | CallSet n1 n2 k v ttl \<Rightarrow> mc_Set (ord c) n1 n2 c k v ttl
   | CallDelete k \<Rightarrow> mc_Delete c k
   | CallClear \<Rightarrow> mc_Clear c)"

text \<open>\<open>bounded_cache\<close>: no empty key, and no more entries than the size, one at least.\<close>

definition bounded_cache :: "int \<Rightarrow> eviction_policy \<Rightarrow> memory_cache \<Rightarrow> bool" where
  "bounded_cache n ev c \<longleftrightarrow> mcMaxSize c = n \<and> mcEviction c = ev \<and> [] \<notin> fmdom' (mcData c) \<and>
     int (flen (mcData c)) \<le> max n 1"

lemma lru_loop_mem: "lru_loop es t k \<in> insert k (fst ` set es)"
  by (induction es t k rule: lru_loop.induct) auto

lemma lfu_loop_mem: "lfu_loop es t k \<in> insert k (fst ` set es)"
  by (induction es t k rule: lfu_loop.induct) auto

lemma loops_mem:
  assumes "es \<noteq> []"
  shows "lru_loop es 0 [] \<in> fst ` set es" and "lfu_loop es (-1) [] \<in> fst ` set es"
proof -
  obtain k e qs where es: "es = (k, e) # qs" using assms by (metis list.exhaust surj_pair)
  show "lru_loop es 0 [] \<in> fst ` set es" using lru_loop_mem[of qs "ceLastAccess e" k] by (simp add: es)
  show "lfu_loop es (-1) [] \<in> fst ` set es" using lfu_loop_mem[of qs "ceHits e" k] by (simp add: es)
qed

lemma victim_mem:
  "es \<noteq> [] \<Longrightarrow> ev \<in> {EvictLRU, EvictLFU, EvictRandom} \<Longrightarrow> victim ev es \<in> fst ` set es"
  using loops_mem[of es] by (cases es) (force simp: victim_def simp del: lru_loop.simps lfu_loop.simps)+

lemma flen_fmdrop: "k \<in> fmdom' m \<Longrightarrow> flen (fmdrop k m) = flen m - 1"
  by (simp add: flen_def)

lemma flen_pos: "k \<in> fmdom' m \<Longrightarrow> flen m > 0"
  by (metis flen_0_iff fmdom'_empty empty_iff neq0_conv)

lemma flen_fmdrop_le: "flen (fmdrop k m) \<le> flen m"
  by (simp add: flen_def card_mono)

text \<open>With no empty key and one of the three policies, \<open>evict\<close> removes one entry.\<close>

lemma evict_size:
  assumes "entries (mcData c) es" "[] \<notin> fmdom' (mcData c)" "mcEviction c \<in> {EvictLRU, EvictLFU, EvictRandom}"
  shows "flen (mcData (evict es c)) = flen (mcData c) - 1"
proof (cases "flen (mcData c) = 0")
  case False
  with assms(1) have "es \<noteq> []" by (auto simp: entries_def)
  then have "victim (mcEviction c) es \<in> fmdom' (mcData c)"
    using victim_mem[OF _ assms(3)] entries_keys[OF assms(1)] by blast
  with assms(2) False show ?thesis by (auto simp: evict_def Let_def flen_fmdrop)
qed (simp add: evict_def)

lemma bounded_call:
  assumes "\<And>c. entries (mcData c) (ord c)" "ev \<in> {EvictLRU, EvictLFU, EvictRandom}"
    and "\<And>n1 n2 v ttl. call \<noteq> CallSet n1 n2 [] v ttl" and "bounded_cache n ev c"
  shows "bounded_cache n ev (mc_call ord call c)"
proof (cases call)
  case (CallGet n1 n2 k)
  with assms(4) show ?thesis
    by (auto simp: mc_call_def mc_Get_def bounded_cache_def flen_upd fmlookup_dom'_iff split: option.splits)
next
  case (CallSet n1 n2 k v ttl)
  define c1 where "c1 = (if int (flen (mcData c)) \<ge> n then evict (ord c) c else c)"
  have ev: "flen (mcData (evict (ord c) c)) = flen (mcData c) - 1"
    using assms(2,4) by (intro evict_size[OF assms(1)]) (simp_all add: bounded_cache_def)
  have "int (flen (mcData c)) \<le> max n 1" using assms(4) by (simp add: bounded_cache_def)
  then have "flen (mcData c1) \<le> nat (max n 1) - 1"
    by (auto simp: c1_def ev simp del: flen_0_iff)
  moreover have "[] \<notin> fmdom' (mcData c1)" "mcMaxSize c1 = n" "mcEviction c1 = ev"
    using assms(4) by (auto simp: c1_def bounded_cache_def evict_def Let_def)
  moreover have "mc_call ord call c = c1\<lparr>mcData := fmupd k \<lparr>ceValue = v, ceExpiration = (if ttl > 0 then n1 + ttl else 0),
      ceLastAccess = n2, ceHits = 0\<rparr> (mcData c1)\<rparr>"
    using assms(4) CallSet by (simp add: mc_call_def mc_Set_def c1_def bounded_cache_def Let_def)
  moreover have "k \<noteq> []" using assms(3) CallSet by blast
  ultimately show ?thesis by (auto simp: bounded_cache_def flen_upd)
next
  case (CallDelete k)
  with assms(4) flen_fmdrop_le[of k "mcData c"] show ?thesis
    by (auto simp: mc_call_def mc_Delete_def bounded_cache_def)
next
  case CallClear
  with assms(4) show ?thesis by (simp add: mc_call_def mc_Clear_def bounded_cache_def)
qed

text \<open>Under one of the three policies and with no empty key, no sequence of calls makes a memory
  cache larger than its size (than one entry, when the size is zero or less).\<close>

theorem cache_bounded:
  assumes "\<And>c. entries (mcData c) (ord c)" "ev \<in> {EvictLRU, EvictLFU, EvictRandom}"
    and "\<forall>call \<in> set calls. \<forall>n1 n2 v ttl. call \<noteq> CallSet n1 n2 [] v ttl"
  shows "int (flen (mcData (fold (mc_call ord) calls (NewMemoryCache n ev)))) \<le> max n 1"
proof -
  have "bounded_cache n ev (fold (mc_call ord) calls (NewMemoryCache n ev))"
  proof (rule fold_invariant)
    show "bounded_cache n ev (NewMemoryCache n ev)" by (simp add: bounded_cache_def NewMemoryCache_def)
    fix call c assume "call \<in> set calls" "bounded_cache n ev c"
    with assms(3) show "bounded_cache n ev (mc_call ord call c)"
      by (intro bounded_call[OF assms(1,2)]) auto
  qed
  then show ?thesis by (simp add: bounded_cache_def)
qed

definition demo_calls :: "cache_call list" where
  "demo_calls = [CallSet 1 1 ''a'' VNil 0, CallSet 2 2 ''b'' VNil 0, CallGet 3 3 ''a'', CallSet 4 4 ''c'' VNil 0]"

theorem cache_bounded_witness:
  "int (flen (mcData (fold (mc_call (\<lambda>c. sorted_list_of_fmap (mcData c))) demo_calls (NewMemoryCache 2 EvictLRU)))) \<le> 2"
  using cache_bounded[of "\<lambda>c. sorted_list_of_fmap (mcData c)" EvictLRU demo_calls 2]
  by (simp add: entries_sorted demo_calls_def)

text \<open>
  Two behaviours the bound hides: storing again under a key that is present evicts an entry of a
  full cache although the size would not grow, and the empty key is never evicted, so that a
  cache in which it is the oldest entry grows past its size.
\<close>

lemma overwriting_evicts:
  assumes "entries (mcData c) es" "[] \<notin> fmdom' (mcData c)" "mcEviction c \<in> {EvictLRU, EvictLFU, EvictRandom}"
    and "int (flen (mcData c)) \<ge> mcMaxSize c" "k \<in> fmdom' (mcData c)" "victim (mcEviction c) es \<noteq> k"
  shows "flen (mcData (mc_Set es n1 n2 c k v ttl)) = flen (mcData c) - 1"
proof -
  have "flen (mcData c) > 0" using assms(5) by (rule flen_pos)
  then have "k \<in> fmdom' (mcData (evict es c))" using assms(5,6) by (auto simp: evict_def Let_def)
  then show ?thesis using assms(4) evict_size[OF assms(1-3)] by (simp add: mc_Set_def Let_def flen_upd)
qed

lemma empty_key_not_evicted:
  "victim (mcEviction c) es = [] \<Longrightarrow> k \<notin> fmdom' (mcData c) \<Longrightarrow>
   flen (mcData (mc_Set es n1 n2 c k v ttl)) = Suc (flen (mcData c))"
  by (simp add: mc_Set_def evict_def Let_def flen_upd)

end
