(* ===== verification/Channel_Read.thy ===== *)
theory Channel_Read
  imports Registry
begin

text \<open>
  Reading the state of a graph through selectors, transformers and triggers
  (\<^verbatim>\<open>pregel/read.go\<close>). The registry a reader points to is an argument and, since reading can
  empty a channel, also a result; all readers of one \<open>ReadContext\<close> read one registry. The
  orders in which maps are visited are the two functions of \<open>io_orders\<close>.
\<close>

record io_orders =
  ioReg :: "registry \<Rightarrow> (string \<times> channel) list"
  ioVals :: "gmap \<Rightarrow> (string \<times> gval) list"

definition io_ok :: "io_orders \<Rightarrow> bool" where
  "io_ok od \<longleftrightarrow> (\<forall>r. entries r (ioReg od r)) \<and> (\<forall>m. entries m (ioVals od m))"

section \<open>Selectors\<close>

datatype channel_selector =
    AllChannelsSelector
  | SpecificChannelsSelector "string list"
  | PrefixChannelsSelector string
  | AvailableChannelsSelector

definition rg_List :: "io_orders \<Rightarrow> registry \<Rightarrow> string list" where
  "rg_List od r = rg_Names (ioReg od r)"

fun sel_Select :: "io_orders \<Rightarrow> channel_selector \<Rightarrow> registry \<Rightarrow> string list" where
  "sel_Select od AllChannelsSelector r = rg_List od r"
| "sel_Select od (SpecificChannelsSelector ns) r = filter (\<lambda>n. rg_Get r n \<noteq> None) ns"
| "sel_Select od (PrefixChannelsSelector p) r =
     filter (\<lambda>n. length n \<ge> length p \<and> take (length p) n = p) (rg_List od r)"
| "sel_Select od AvailableChannelsSelector r =
     filter (\<lambda>n. case rg_Get r n of Some c \<Rightarrow> ch_IsAvailable c | None \<Rightarrow> False) (rg_List od r)"

section \<open>Transformers\<close>

datatype channel_transformer =
    IdentityTransformer
  | MappingTransformer "(string, string) fmap"
  | FilterTransformer "(string, bool) fmap"
  | DefaultTransformer gmap
  | MergingTransformer string "gval list \<Rightarrow> gerr + gval"

definition NewFilterTransformer :: "string list \<Rightarrow> channel_transformer" where
  "NewFilterTransformer keep = FilterTransformer (fold (\<lambda>n. fmupd n True) keep fmempty)"

definition mapped_name :: "(string, string) fmap \<Rightarrow> string \<Rightarrow> string" where
  "mapped_name ms n = (case fmlookup ms n of Some n' \<Rightarrow> n' | None \<Rightarrow> n)"

fun tr_Transform :: "io_orders \<Rightarrow> channel_transformer \<Rightarrow> gmap \<Rightarrow> gerr + gmap" where
  "tr_Transform od IdentityTransformer vals = Inr vals"
| "tr_Transform od (MappingTransformer ms) vals =
     Inr (fold (\<lambda>(n, v). fmupd (mapped_name ms n) v) (ioVals od vals) fmempty)"
| "tr_Transform od (FilterTransformer keep) vals =
     Inr (fold (\<lambda>(n, v) res. if fmlookup_default False keep n then fmupd n v res else res)
            (ioVals od vals) fmempty)"
| "tr_Transform od (DefaultTransformer defs) vals =
     (let res = fold (\<lambda>(n, d). case fmlookup vals n of Some v \<Rightarrow> fmupd n v | None \<Rightarrow> fmupd n d)
                  (ioVals od defs) fmempty
      in Inr (fold (\<lambda>(n, v) res. case fmlookup res n of Some _ \<Rightarrow> res | None \<Rightarrow> fmupd n v res) (ioVals od vals) res))"
| "tr_Transform od (MergingTransformer target merger) vals =
     (case merger (map snd (ioVals od vals)) of
        Inl e \<Rightarrow> Inl e
      | Inr merged \<Rightarrow> Inr (fmupd target merged fmempty))"

section \<open>Reading\<close>

record channel_read =
  crSelector :: channel_selector
  crTransformer :: "channel_transformer option"

definition NewChannelRead :: "(channel_read \<Rightarrow> channel_read) list \<Rightarrow> channel_read" where
  "NewChannelRead opts =
     foldl (\<lambda>cr opt. opt cr) \<lparr>crSelector = AllChannelsSelector, crTransformer = Some IdentityTransformer\<rparr> opts"

definition WithSelector :: "channel_selector \<Rightarrow> channel_read \<Rightarrow> channel_read" where
  "WithSelector s cr = cr\<lparr>crSelector := s\<rparr>"

definition WithTransformer :: "channel_transformer option \<Rightarrow> channel_read \<Rightarrow> channel_read" where
  "WithTransformer t cr = cr\<lparr>crTransformer := t\<rparr>"

fun read_loop :: "string list \<Rightarrow> registry \<Rightarrow> gmap \<Rightarrow> gmap \<times> registry" where
  "read_loop [] r vals = (vals, r)"
| "read_loop (n # ns) r vals =
     (case rg_Get r n of
        None \<Rightarrow> read_loop ns r vals
      | Some c \<Rightarrow>
          (case ch_Get c of
             (Inl e, c') \<Rightarrow> read_loop ns (fmupd n c' r) vals
           | (Inr v, c') \<Rightarrow> read_loop ns (fmupd n c' r) (fmupd n v vals)))"

definition cr_Read :: "io_orders \<Rightarrow> channel_read \<Rightarrow> registry \<Rightarrow> (gerr + gmap) \<times> registry" where
  "cr_Read od cr r =
     (case read_loop (sel_Select od (crSelector cr) r) r fmempty of (vals, r') \<Rightarrow>
        (case crTransformer cr of
           None \<Rightarrow> (Inr vals, r')
         | Some t \<Rightarrow>
             (case tr_Transform od t vals of
                Inl e \<Rightarrow> (Inl (WrapError ''channel transformation failed'' e), r')
              | Inr vals' \<Rightarrow> (Inr vals', r'))))"

definition cr_ReadChannel :: "registry \<Rightarrow> string \<Rightarrow> (gerr + gval) \<times> registry" where
  "cr_ReadChannel r n = (case rg_Get r n of
     Some c \<Rightarrow> (case ch_Get c of (res, c') \<Rightarrow> (res, fmupd n c' r))
   | None \<Rightarrow> (Inl (ErrorString (''channel not found: '' @ n)), r))"

definition cr_HasChannel :: "registry \<Rightarrow> string \<Rightarrow> bool" where
  "cr_HasChannel r n = (rg_Get r n \<noteq> None)"

definition cr_ListChannels :: "io_orders \<Rightarrow> registry \<Rightarrow> string list" where
  "cr_ListChannels od r = rg_List od r"

section \<open>Triggers\<close>

datatype trigger =
    AlwaysTrigger
  | AnyAvailableTrigger "string list"
  | AllAvailableTrigger "string list"
  | ChannelChangedTrigger string goint

definition NewChannelChangedTrigger :: "string \<Rightarrow> trigger" where
  "NewChannelChangedTrigger c = ChannelChangedTrigger c (- 1)"

definition available :: "registry \<Rightarrow> string \<Rightarrow> bool" where
  "available r n = (case rg_Get r n of Some c \<Rightarrow> ch_IsAvailable c | None \<Rightarrow> False)"

fun any_available :: "registry \<Rightarrow> string list \<Rightarrow> bool" where
  "any_available r [] = False"
| "any_available r (n # ns) = (if available r n then True else any_available r ns)"

fun all_available :: "registry \<Rightarrow> string list \<Rightarrow> bool" where
  "all_available r [] = True"
| "all_available r (n # ns) = (if \<not> available r n then False else all_available r ns)"

text \<open>\<open>ShouldTrigger\<close> gives the answer and the trigger afterwards.\<close>

fun ShouldTrigger :: "registry \<Rightarrow> trigger \<Rightarrow> bool \<times> trigger" where
  "ShouldTrigger r AlwaysTrigger = (True, AlwaysTrigger)"
| "ShouldTrigger r (AnyAvailableTrigger ns) = (any_available r ns, AnyAvailableTrigger ns)"
| "ShouldTrigger r (AllAvailableTrigger ns) = (all_available r ns, AllAvailableTrigger ns)"
| "ShouldTrigger r (ChannelChangedTrigger n lastv) =
     (case rg_Get r n of
        None \<Rightarrow> (False, ChannelChangedTrigger n lastv)
      | Some c \<Rightarrow>
          (let version = ch_GetVersion c in
           if 0 \<le>s version \<and> version \<noteq> lastv then (True, ChannelChangedTrigger n version)
           else (version <s 0 \<and> ch_IsAvailable c, ChannelChangedTrigger n lastv)))"

section \<open>Contexts\<close>

record read_context =
  rxNode :: string
  rxStep :: int
  rxTriggers :: "trigger list"
  rxReaders :: "(string, channel_read) fmap"

definition NewReadContext :: "string \<Rightarrow> int \<Rightarrow> read_context" where
  "NewReadContext node step = \<lparr>rxNode = node, rxStep = step, rxTriggers = [], rxReaders = fmempty\<rparr>"

definition AddReader :: "read_context \<Rightarrow> string \<Rightarrow> channel_read \<Rightarrow> read_context" where
  "AddReader rc n rd = rc\<lparr>rxReaders := fmupd n rd (rxReaders rc)\<rparr>"

definition GetReader :: "read_context \<Rightarrow> string \<Rightarrow> channel_read option" where
  "GetReader rc n = fmlookup (rxReaders rc) n"

fun trigger_loop :: "registry \<Rightarrow> trigger list \<Rightarrow> bool \<times> trigger list" where
  "trigger_loop r [] = (False, [])"
| "trigger_loop r (t # ts) =
     (case ShouldTrigger r t of
        (True, t') \<Rightarrow> (True, t' # ts)
      | (False, t') \<Rightarrow> (case trigger_loop r ts of (b, ts') \<Rightarrow> (b, t' # ts')))"

definition ShouldExecute :: "read_context \<Rightarrow> registry \<Rightarrow> bool \<times> read_context" where
  "ShouldExecute rc r =
     (if length (rxTriggers rc) = 0 then (True, rc)
      else (case trigger_loop r (rxTriggers rc) of (b, ts) \<Rightarrow> (b, rc\<lparr>rxTriggers := ts\<rparr>)))"

fun readers_loop ::
  "io_orders \<Rightarrow> (string \<times> channel_read) list \<Rightarrow> registry \<Rightarrow> gmap \<Rightarrow> (gerr + gmap) \<times> registry"
where
  "readers_loop od [] r combined = (Inr combined, r)"
| "readers_loop od ((n, rd) # rds) r combined =
     (case cr_Read od rd r of
        (Inl e, r') \<Rightarrow> (Inl (WrapError (''reader '' @ n @ '' failed'') e), r')
      | (Inr vals, r') \<Rightarrow>
          readers_loop od rds r' (fold (\<lambda>(k, v). fmupd (n @ ''.'' @ k) v) (ioVals od vals) combined))"

text \<open>\<open>rds\<close> is the order in which the readers are visited.\<close>

definition ReadAll ::
  "io_orders \<Rightarrow> (string \<times> channel_read) list \<Rightarrow> registry \<Rightarrow> (gerr + gmap) \<times> registry" where
  "ReadAll od rds r = readers_loop od rds r fmempty"

section \<open>Properties\<close>

lemma io_vals: "io_ok od \<Longrightarrow> entries m (ioVals od m)"
  and io_reg: "io_ok od \<Longrightarrow> entries r (ioReg od r)"
  by (simp_all add: io_ok_def)

text \<open>An order for witnesses: by key.\<close>

definition demo_io :: io_orders where
  "demo_io = \<lparr>ioReg = sorted_list_of_fmap, ioVals = sorted_list_of_fmap\<rparr>"

lemma demo_io_ok [simp]: "io_ok demo_io"
  by (simp add: io_ok_def demo_io_def entries_sorted)

lemma read_loop_values:
  "distinct (map fst es) \<Longrightarrow> \<forall>(n, c) \<in> set es. fmlookup r n = Some c \<Longrightarrow>
   values_loop r es vals = (case read_loop (map fst es) r vals of (vals', r') \<Rightarrow> (Inr vals', r'))"
proof (induction es arbitrary: r vals)
  case (Cons p es)
  obtain n c where p: "p = (n, c)" by (cases p)
  obtain g c' where g: "ch_Get c = (g, c')" by (cases "ch_Get c")
  have keep: "\<forall>(m, d) \<in> set es. fmlookup (fmupd n c' r) m = Some d"
  proof clarify
    fix m d assume "(m, d) \<in> set es"
    moreover from this Cons.prems(1) have "m \<noteq> n" by (force simp: p)
    ultimately show "fmlookup (fmupd n c' r) m = Some d" using Cons.prems(2) by auto
  qed
  have d: "distinct (map fst es)" using Cons.prems by simp
  show ?case
  proof (cases g)
    case (Inl e)
    with g chan.Get_error[of c e] have "IsEmptyChannelError (Some e)" by (simp add: IsEmptyChannelError_def)
    with Cons.prems Cons.IH[OF d keep] g Inl show ?thesis by (simp add: p rg_Get_def)
  next
    case (Inr v)
    with Cons.prems Cons.IH[OF d keep] g show ?thesis by (simp add: p rg_Get_def)
  qed
qed simp

text \<open>A reader with the default selector and transformer reads exactly what
  \<open>Registry.GetValues\<close> reads and leaves the registry as \<open>GetValues\<close> does.\<close>

theorem Read_default:
  assumes "io_ok od"
  shows "cr_Read od (NewChannelRead []) r = rg_GetValues r (ioReg od r)"
proof -
  have "\<forall>(n, c) \<in> set (ioReg od r). fmlookup r n = Some c"
    using entries_mem[OF io_reg[OF assms]] by blast
  from read_loop_values[OF entries_distinct[OF io_reg[OF assms]] this, of fmempty] show ?thesis
    by (simp add: cr_Read_def NewChannelRead_def rg_GetValues_def rg_List_def rg_Names_def split: prod.splits)
qed

theorem Read_default_witness:
  "cr_Read demo_io (NewChannelRead []) (fmupd ''x'' (ChLastValue (NewLastValue VNil)) fmempty)
   = rg_GetValues (fmupd ''x'' (ChLastValue (NewLastValue VNil)) fmempty)
       (ioReg demo_io (fmupd ''x'' (ChLastValue (NewLastValue VNil)) fmempty))"
  by (rule Read_default) simp

lemma fold_upd_lookup:
  "distinct (map fst es) \<Longrightarrow> fmlookup (fold (\<lambda>(k, v). fmupd k v) es m) k' =
     (case map_of es k' of Some v \<Rightarrow> Some v | None \<Rightarrow> fmlookup m k')"
  using fold_fmupd_lookup[of es "\<lambda>k v. v" m k'] by simp

lemma fold_filter_lookup:
  "distinct (map fst es) \<Longrightarrow>
   fmlookup (fold (\<lambda>(n, v) res. if P n then fmupd n v res else res) es m) k =
     (case map_of es k of Some v \<Rightarrow> (if P k then Some v else fmlookup m k) | None \<Rightarrow> fmlookup m k)"
proof (induction es arbitrary: m)
  case (Cons p es)
  obtain n v where p: "p = (n, v)" by (cases p)
  from Cons.prems have "map_of es n = None" "distinct (map fst es)" by (auto simp: p map_of_eq_None_iff)
  then show ?case by (auto simp: p Cons.IH split: option.splits)
qed simp

lemma fold_missing_lookup:
  "distinct (map fst es) \<Longrightarrow>
   fmlookup (fold (\<lambda>(n, v) res. case fmlookup res n of Some _ \<Rightarrow> res | None \<Rightarrow> fmupd n v res) es m) k =
     (case fmlookup m k of Some v \<Rightarrow> Some v | None \<Rightarrow> map_of es k)"
proof (induction es arbitrary: m)
  case (Cons p es)
  obtain n v where p: "p = (n, v)" by (cases p)
  from Cons.prems have "map_of es n = None" "distinct (map fst es)" by (auto simp: p map_of_eq_None_iff)
  then show ?case by (cases "fmlookup m n") (auto simp: p Cons.IH split: option.splits)
qed (simp split: option.splits)

lemma fold_renamed_lookup:
  "distinct (map fst es) \<Longrightarrow> inj_on f (fst ` set es) \<Longrightarrow> (k, v) \<in> set es \<Longrightarrow>
   fmlookup (fold (\<lambda>(n, v). fmupd (f n) v) es m) (f k) = Some v"
proof (induction es arbitrary: m)
  case (Cons p es)
  obtain n u where p: "p = (n, u)" by (cases p)
  have keep: "f k \<notin> f ` fst ` set es \<Longrightarrow>
      fmlookup (fold (\<lambda>(n, v). fmupd (f n) v) es m) (f k) = fmlookup m (f k)" for m
    by (induction es arbitrary: m) auto
  show ?case
  proof (cases "(k, v) \<in> set es")
    case True
    with Cons show ?thesis by (auto simp: p)
  next
    case False
    with Cons.prems have "n = k" "u = v" by (auto simp: p)
    moreover have "f k \<notin> f ` fst ` set es"
      using Cons.prems \<open>n = k\<close> by (auto simp: p inj_on_def)
    ultimately show ?thesis by (simp add: p keep)
  qed
qed simp

lemma entries_map_of: "entries m es \<Longrightarrow> map_of es k = fmlookup m k"
  by (auto simp: entries_def fmlookup_of_list)

text \<open>Whatever the order in which maps are visited, the filter keeps the named channels, the
  defaults fill in exactly what is missing, and a renaming that sends no two of the channels to
  one name keeps every value under its new name.\<close>

theorem transformers_meaning:
  assumes "io_ok od" and "inj_on (mapped_name ms) (fmdom' vals)"
  shows "tr_Transform od (FilterTransformer keep) vals = Inr (fmfilter (fmlookup_default False keep) vals) \<and>
    tr_Transform od (DefaultTransformer defs) vals = Inr (defs ++\<^sub>f vals) \<and>
    (\<exists>res. tr_Transform od (MappingTransformer ms) vals = Inr res \<and>
       (\<forall>n v. fmlookup vals n = Some v \<longrightarrow> fmlookup res (mapped_name ms n) = Some v))"
proof (intro conjI)
  note es = io_vals[OF assms(1), of vals] and ds = io_vals[OF assms(1), of defs]
  show "tr_Transform od (FilterTransformer keep) vals = Inr (fmfilter (fmlookup_default False keep) vals)"
    by (simp, rule fmap_ext)
      (simp add: fold_filter_lookup[OF entries_distinct[OF es]] entries_map_of[OF es] split: option.splits)
  have "fold (\<lambda>(n, d). case fmlookup vals n of Some v \<Rightarrow> fmupd n v | None \<Rightarrow> fmupd n d) (ioVals od defs) fmempty
      = fold (\<lambda>(n, d). fmupd n (case fmlookup vals n of Some v \<Rightarrow> v | None \<Rightarrow> d)) (ioVals od defs) fmempty"
    by (rule fold_cong) (auto split: option.splits)
  then show "tr_Transform od (DefaultTransformer defs) vals = Inr (defs ++\<^sub>f vals)"
    by (simp add: Let_def, intro fmap_ext)
      (auto simp: fold_missing_lookup[OF entries_distinct[OF es]] fold_fmupd_lookup[OF entries_distinct[OF ds]]
         entries_map_of[OF es] entries_map_of[OF ds] fmlookup_dom_iff split: option.splits)
  have "inj_on (mapped_name ms) (fst ` set (ioVals od vals))"
    using assms(2) entries_keys[OF es] by (auto simp: inj_on_def)
  from fold_renamed_lookup[OF entries_distinct[OF es] this, where m = fmempty]
  show "\<exists>res. tr_Transform od (MappingTransformer ms) vals = Inr res \<and>
       (\<forall>n v. fmlookup vals n = Some v \<longrightarrow> fmlookup res (mapped_name ms n) = Some v)"
    by (simp add: entries_mem[OF es])
qed

theorem transformers_meaning_witness:
  "tr_Transform demo_io (DefaultTransformer (fmupd ''a'' VNil fmempty)) (fmupd ''b'' (VBool True) fmempty)
   = Inr (fmupd ''a'' VNil fmempty ++\<^sub>f fmupd ''b'' (VBool True) fmempty)"
proof -
  have "inj_on (mapped_name fmempty) (fmdom' (fmupd ''b'' (VBool True) fmempty))" by simp
  from transformers_meaning[OF demo_io_ok this] show ?thesis by blast
qed

lemma any_available_iff: "any_available r ns \<longleftrightarrow> (\<exists>n \<in> set ns. available r n)"
  by (induction ns) auto

lemma all_available_iff: "all_available r ns \<longleftrightarrow> (\<forall>n \<in> set ns. available r n)"
  by (induction ns) auto

lemma trigger_loop_iff: "fst (trigger_loop r ts) \<longleftrightarrow> (\<exists>t \<in> set ts. fst (ShouldTrigger r t))"
  by (induction ts) (auto split: prod.splits bool.splits)

lemma ShouldExecute_iff:
  "fst (ShouldExecute rc r) \<longleftrightarrow> rxTriggers rc = [] \<or> (\<exists>t \<in> set (rxTriggers rc). fst (ShouldTrigger r t))"
  using trigger_loop_iff[of r "rxTriggers rc"] by (auto simp: ShouldExecute_def split: prod.splits)

text \<open>A trigger asked again and again while the registry changes.\<close>

fun answers :: "trigger \<Rightarrow> registry list \<Rightarrow> bool list" where
  "answers t [] = []"
| "answers t (r # rs) = (case ShouldTrigger r t of (b, t') \<Rightarrow> b # answers t' rs)"

lemma answers_changed:
  "\<forall>r \<in> set rs. \<exists>c. rg_Get r n = Some c \<and> 0 \<le>s ch_GetVersion c \<Longrightarrow>
   answers (ChannelChangedTrigger n v) rs =
     map2 (\<noteq>) (map (\<lambda>r. ch_GetVersion (the (rg_Get r n))) rs)
       (v # map (\<lambda>r. ch_GetVersion (the (rg_Get r n))) rs)"
proof (induction rs arbitrary: v)
  case (Cons r rs)
  then obtain c where "rg_Get r n = Some c" "0 \<le>s ch_GetVersion c" by auto
  with Cons show ?case
    by (cases "ch_GetVersion c = v")
      (auto simp: Let_def signed.not_less[symmetric])
qed simp

text \<open>A \<open>ChannelChangedTrigger\<close> on a channel with a version fires the first time it is asked,
  whether or not the channel was ever written, and later exactly when the version is not the one
  it saw the time before.\<close>

theorem changed_trigger:
  assumes "\<forall>r \<in> set rs. \<exists>c. rg_Get r n = Some c \<and> 0 \<le>s ch_GetVersion c"
  shows "answers (NewChannelChangedTrigger n) rs =
    map2 (\<noteq>) (map (\<lambda>r. ch_GetVersion (the (rg_Get r n))) rs)
      (- 1 # map (\<lambda>r. ch_GetVersion (the (rg_Get r n))) rs)"
  using answers_changed[OF assms, of "- 1"] by (simp add: NewChannelChangedTrigger_def)

definition demo_versions :: "registry list" where
  "demo_versions = map (\<lambda>v. fmupd ''x'' (ch_SetVersion (ChLastValue (NewLastValue VNil)) v) fmempty) [0, 0, 1]"

theorem changed_trigger_witness:
  "answers (NewChannelChangedTrigger ''x'') demo_versions = [True, False, True]"
  using changed_trigger[of demo_versions "''x''"]
  by (simp add: demo_versions_def rg_Get_def base_SetVersion_def base_GetVersion_def word_sle_eq del: answers.simps)

end
