(* ===== verification/Channel_Write.thy ===== *)
theory Channel_Write
  imports Channel_Read
begin

text \<open>
  Writing to channels through validators and transformers (\<^verbatim>\<open>pregel/write.go\<close>). The registry
  a writer points to is an argument and a result. Entries are shared by pointer: a transformer
  that changes the metadata of the entry it is given returns that entry too. Two entries that
  share one metadata map are not modelled.
\<close>

record write_entry =
  weChannel :: string
  weValue :: gval
  weOverwrite :: bool
  weNode :: string
  weMetadata :: "gmap option"

section \<open>Transformers\<close>

datatype write_transformer =
    IdentityWriteTransformer
  | MappingWriteTransformer "(string, string) fmap"
  | PrefixWriteTransformer string
  | MetadataWriteTransformer gmap
  | NodeWriteTransformer string
  | FilterWriteTransformer "(write_entry \<Rightarrow> bool) option"

text \<open>The transformed entry or the error, and the given entry afterwards.\<close>

fun wt_Transform :: "write_transformer \<Rightarrow> write_entry \<Rightarrow> (gerr + write_entry) \<times> write_entry" where
  "wt_Transform IdentityWriteTransformer e = (Inr e, e)"
| "wt_Transform (MappingWriteTransformer ms) e =
     (case fmlookup ms (weChannel e) of
        Some n \<Rightarrow> (Inr (e\<lparr>weChannel := n\<rparr>), e)
      | None \<Rightarrow> (Inr e, e))"
| "wt_Transform (PrefixWriteTransformer p) e = (Inr (e\<lparr>weChannel := p @ weChannel e\<rparr>), e)"
| "wt_Transform (MetadataWriteTransformer m) e =
     (case weMetadata e of
        None \<Rightarrow> (Inr (e\<lparr>weMetadata := Some m\<rparr>), e)
      | Some md \<Rightarrow> (let e' = e\<lparr>weMetadata := Some (md ++\<^sub>f m)\<rparr> in (Inr e', e')))"
| "wt_Transform (NodeWriteTransformer n) e =
     (if weNode e = [] then (Inr (e\<lparr>weNode := n\<rparr>), e) else (Inr e, e))"
| "wt_Transform (FilterWriteTransformer pred) e =
     (case pred of
        None \<Rightarrow> (Inr e, e)
      | Some p \<Rightarrow> (if \<not> p e then (Inl (WriteSkipError (weChannel e)), e) else (Inr e, e)))"

section \<open>Validators\<close>

datatype write_validator =
    NoOpValidator
  | TypeWriteValidator gmap
  | NonNullWriteValidator "string list"
  | LengthWriteValidator "(string, int) fmap" "(string, int) fmap"

definition value_length :: "gval \<Rightarrow> int option" where
  "value_length v = (case v of
     VList vs \<Rightarrow> Some (int (length vs))
   | VStr s \<Rightarrow> Some (int (length s))
   | VMap m \<Rightarrow> Some (int (flen m))
   | _ \<Rightarrow> None)"

fun wv_Validate :: "write_validator \<Rightarrow> write_entry \<Rightarrow> gerr option" where
  "wv_Validate NoOpValidator e = None"
| "wv_Validate (TypeWriteValidator types) e =
     (case fmlookup types (weChannel e) of
        Some ex \<Rightarrow>
          (if weValue e \<noteq> VNil \<and> type_name (weValue e) \<noteq> type_name ex
           then Some (WriteValidationError (weChannel e)
                  (''expected type '' @ type_name ex @ '', got '' @ type_name (weValue e)))
           else None)
      | None \<Rightarrow> None)"
| "wv_Validate (NonNullWriteValidator whitelist) e =
     (if weChannel e \<in> set whitelist then None
      else if weValue e = VNil then Some (WriteValidationError (weChannel e) ''value cannot be nil'')
      else None)"
| "wv_Validate (LengthWriteValidator mins maxs) e =
     (case value_length (weValue e) of
        None \<Rightarrow> None
      | Some l \<Rightarrow>
          (case (case fmlookup mins (weChannel e) of Some m \<Rightarrow> (if l < m then Some m else None) | None \<Rightarrow> None) of
             Some m \<Rightarrow> Some (WriteValidationError (weChannel e)
                  (''length '' @ show_int l @ '' is less than minimum '' @ show_int m))
           | None \<Rightarrow>
               (case (case fmlookup maxs (weChannel e) of Some m \<Rightarrow> (if l > m then Some m else None) | None \<Rightarrow> None) of
                  Some m \<Rightarrow> Some (WriteValidationError (weChannel e)
                      (''length '' @ show_int l @ '' exceeds maximum '' @ show_int m))
                | None \<Rightarrow> None)))"

definition IsWriteSkipError :: "gerr option \<Rightarrow> bool" where
  "IsWriteSkipError e = (case e of Some (WriteSkipError _) \<Rightarrow> True | _ \<Rightarrow> False)"

section \<open>ChannelWrite\<close>

record channel_write =
  cwEntries :: "write_entry list"
  cwTransformer :: "write_transformer option"
  cwValidator :: "write_validator option"

definition NewChannelWrite :: "(channel_write \<Rightarrow> channel_write) list \<Rightarrow> channel_write" where
  "NewChannelWrite opts = foldl (\<lambda>cw opt. opt cw)
     \<lparr>cwEntries = [], cwTransformer = Some IdentityWriteTransformer, cwValidator = Some NoOpValidator\<rparr> opts"

definition WithWriteTransformer :: "write_transformer option \<Rightarrow> channel_write \<Rightarrow> channel_write" where
  "WithWriteTransformer t cw = cw\<lparr>cwTransformer := t\<rparr>"

definition WithValidator :: "write_validator option \<Rightarrow> channel_write \<Rightarrow> channel_write" where
  "WithValidator v cw = cw\<lparr>cwValidator := v\<rparr>"

definition AddEntry :: "channel_write \<Rightarrow> write_entry \<Rightarrow> channel_write" where
  "AddEntry cw e = cw\<lparr>cwEntries := cwEntries cw @ [e]\<rparr>"

definition AddEntries :: "channel_write \<Rightarrow> write_entry list \<Rightarrow> channel_write" where
  "AddEntries cw es = cw\<lparr>cwEntries := cwEntries cw @ es\<rparr>"

definition cw_WriteTo :: "channel_write \<Rightarrow> string \<Rightarrow> gval \<Rightarrow> channel_write" where
  "cw_WriteTo cw c v =
     AddEntry cw \<lparr>weChannel = c, weValue = v, weOverwrite = False, weNode = [], weMetadata = None\<rparr>"

definition cw_Overwrite :: "channel_write \<Rightarrow> string \<Rightarrow> gval \<Rightarrow> channel_write" where
  "cw_Overwrite cw c v =
     AddEntry cw \<lparr>weChannel = c, weValue = v, weOverwrite = True, weNode = [], weMetadata = None\<rparr>"

definition WriteNode :: "channel_write \<Rightarrow> string \<Rightarrow> string \<Rightarrow> gval \<Rightarrow> channel_write" where
  "WriteNode cw n c v =
     AddEntry cw \<lparr>weChannel = c, weValue = v, weOverwrite = False, weNode = n, weMetadata = None\<rparr>"

definition written_value :: "write_entry \<Rightarrow> gval" where
  "written_value t = (if weOverwrite t then VOverwrite (weValue t) else weValue t)"

text \<open>One entry: the error or the channel if it was updated, the entry and the registry afterwards.\<close>

definition write_entry_step ::
  "golib \<Rightarrow> write_transformer option \<Rightarrow> write_validator option \<Rightarrow> write_entry \<Rightarrow> registry
   \<Rightarrow> (gerr + string option) \<times> write_entry \<times> registry"
where
  "write_entry_step L tf vd e r =
     (case (case vd of Some v \<Rightarrow> wv_Validate v e | None \<Rightarrow> None) of
        Some err \<Rightarrow> (Inl (WrapError (''validation failed for channel '' @ weChannel e) err), e, r)
      | None \<Rightarrow>
          (case (case tf of Some t \<Rightarrow> wt_Transform t e | None \<Rightarrow> (Inr e, e)) of
             (Inl err, e') \<Rightarrow> (Inl (WrapError (''transformation failed for channel '' @ weChannel e) err), e', r)
           | (Inr t, e') \<Rightarrow>
               (case rg_Get r (weChannel t) of
                  None \<Rightarrow> (Inl (ErrorString (''channel not found: '' @ weChannel t)), e', r)
                | Some c \<Rightarrow>
                    (case ch_Update L c [written_value t] of
                       (Inl err, c') \<Rightarrow>
                         (Inl (WrapError (''failed to update channel '' @ weChannel t) err), e', fmupd (weChannel t) c' r)
                     | (Inr b, c') \<Rightarrow>
                         (Inr (if b then Some (weChannel t) else None), e', fmupd (weChannel t) c' r)))))"

fun write_all ::
  "golib \<Rightarrow> write_transformer option \<Rightarrow> write_validator option \<Rightarrow> write_entry list \<Rightarrow> registry
   \<Rightarrow> (string, bool) fmap \<Rightarrow> (gerr + (string, bool) fmap) \<times> write_entry list \<times> registry"
where
  "write_all L tf vd [] r upd = (Inr upd, [], r)"
| "write_all L tf vd (e # es) r upd =
     (case write_entry_step L tf vd e r of
        (Inl err, e', r') \<Rightarrow> (Inl err, e' # es, r')
      | (Inr u, e', r') \<Rightarrow>
          (case write_all L tf vd es r' (case u of Some c \<Rightarrow> fmupd c True upd | None \<Rightarrow> upd) of
             (res, es', r'') \<Rightarrow> (res, e' # es', r'')))"

definition cw_Write ::
  "golib \<Rightarrow> channel_write \<Rightarrow> registry \<Rightarrow> (gerr + (string, bool) fmap) \<times> channel_write \<times> registry" where
  "cw_Write L cw r =
     (case write_all L (cwTransformer cw) (cwValidator cw) (cwEntries cw) r fmempty of
        (Inl err, es, r') \<Rightarrow> (Inl err, cw\<lparr>cwEntries := es\<rparr>, r')
      | (Inr upd, es, r') \<Rightarrow> (Inr upd, cw\<lparr>cwEntries := []\<rparr>, r'))"

definition cw_Clear :: "channel_write \<Rightarrow> channel_write" where
  "cw_Clear cw = cw\<lparr>cwEntries := []\<rparr>"

definition EntryCount :: "channel_write \<Rightarrow> nat" where
  "EntryCount cw = length (cwEntries cw)"

definition GetEntries :: "channel_write \<Rightarrow> write_entry list" where
  "GetEntries cw = cwEntries cw"

section \<open>Batches and contexts\<close>

type_synonym write_batch = "write_entry list"

definition NewWriteBatch :: write_batch where
  "NewWriteBatch = []"

definition wb_Add :: "write_batch \<Rightarrow> write_entry \<Rightarrow> write_batch" where
  "wb_Add b e = b @ [e]"

definition wb_WriteTo :: "write_batch \<Rightarrow> string \<Rightarrow> gval \<Rightarrow> write_batch" where
  "wb_WriteTo b c v =
     wb_Add b \<lparr>weChannel = c, weValue = v, weOverwrite = False, weNode = [], weMetadata = None\<rparr>"

definition wb_Overwrite :: "write_batch \<Rightarrow> string \<Rightarrow> gval \<Rightarrow> write_batch" where
  "wb_Overwrite b c v =
     wb_Add b \<lparr>weChannel = c, weValue = v, weOverwrite = True, weNode = [], weMetadata = None\<rparr>"

definition wb_Size :: "write_batch \<Rightarrow> nat" where
  "wb_Size b = length b"

definition wb_Clear :: "write_batch \<Rightarrow> write_batch" where
  "wb_Clear b = []"

record write_context =
  wxNode :: string
  wxStep :: int
  wxWriter :: channel_write
  wxBatches :: "(string, write_batch) fmap"

definition NewWriteContext :: "string \<Rightarrow> int \<Rightarrow> channel_write \<Rightarrow> write_context" where
  "NewWriteContext node step writer =
     \<lparr>wxNode = node, wxStep = step, wxWriter = writer, wxBatches = fmempty\<rparr>"

definition CreateBatch :: "write_context \<Rightarrow> string \<Rightarrow> write_context" where
  "CreateBatch wc n = wc\<lparr>wxBatches := fmupd n NewWriteBatch (wxBatches wc)\<rparr>"

definition GetBatch :: "write_context \<Rightarrow> string \<Rightarrow> write_batch option" where
  "GetBatch wc n = fmlookup (wxBatches wc) n"

text \<open>\<open>bs\<close> is the order in which the batches are visited.\<close>

definition wx_Flush ::
  "golib \<Rightarrow> (string \<times> write_batch) list \<Rightarrow> write_context \<Rightarrow> registry
   \<Rightarrow> (gerr + (string, bool) fmap) \<times> write_context \<times> registry"
where
  "wx_Flush L bs wc r =
     (let writer = fold (\<lambda>(n, b) w. AddEntries w b) bs (wxWriter wc) in
      case cw_Write L writer r of (res, writer', r') \<Rightarrow> (res, wc\<lparr>wxWriter := writer'\<rparr>, r'))"

section \<open>Lemmas\<close>

lemmas entry_step_simps = write_entry_step_def rg_Get_def

text \<open>What an entry finally writes, if it passes.\<close>

definition written_to ::
  "write_transformer option \<Rightarrow> write_validator option \<Rightarrow> write_entry \<Rightarrow> (string \<times> gval) option" where
  "written_to tf vd e =
     (case (case vd of Some v \<Rightarrow> wv_Validate v e | None \<Rightarrow> None) of
        Some err \<Rightarrow> None
      | None \<Rightarrow>
          (case fst (case tf of Some t \<Rightarrow> wt_Transform t e | None \<Rightarrow> (Inr e, e)) of
             Inl err \<Rightarrow> None
           | Inr t \<Rightarrow> Some (weChannel t, written_value t)))"

lemma entry_step_written:
  assumes "written_to tf vd e = Some (c, v)"
  shows "\<exists>res e'. write_entry_step L tf vd e r = (res, e', snd (rg_UpdateChannels L r [(c, [v])])) \<and>
    (isl res \<longleftrightarrow> fst (rg_UpdateChannels L r [(c, [v])]) \<noteq> None)"
  using assms
  by (auto simp: written_to_def entry_step_simps isl_def split: option.splits sum.splits prod.splits)

lemma entry_step_rejected:
  "written_to tf vd e = None \<Longrightarrow> \<exists>err e'. write_entry_step L tf vd e r = (Inl err, e', r)"
  by (auto simp: written_to_def entry_step_simps split: option.splits sum.splits prod.splits)

lemma UpdateChannels_Cons:
  "rg_UpdateChannels L r (w # ws) =
     (case rg_UpdateChannels L r [w] of (None, r') \<Rightarrow> rg_UpdateChannels L r' ws | (Some e, r') \<Rightarrow> (Some e, r'))"
  by (cases w) (auto split: option.splits prod.splits sum.splits)

lemma write_all_updates:
  "those (map (written_to tf vd) es) = Some ws \<Longrightarrow>
   \<exists>res es'. write_all L tf vd es r upd =
       (res, es', snd (rg_UpdateChannels L r (map (\<lambda>(c, v). (c, [v])) ws))) \<and>
     (isl res \<longleftrightarrow> fst (rg_UpdateChannels L r (map (\<lambda>(c, v). (c, [v])) ws)) \<noteq> None)"
proof (induction es arbitrary: r upd ws)
  case (Cons e es)
  then obtain c v vs where w: "written_to tf vd e = Some (c, v)" and ws: "ws = (c, v) # vs"
    and vs: "those (map (written_to tf vd) es) = Some vs"
    by (auto split: option.splits)
  obtain res e' where step: "write_entry_step L tf vd e r = (res, e', snd (rg_UpdateChannels L r [(c, [v])]))"
    and isl: "isl res \<longleftrightarrow> fst (rg_UpdateChannels L r [(c, [v])]) \<noteq> None"
    using entry_step_written[OF w] by blast
  obtain o1 r1 where u: "rg_UpdateChannels L r [(c, [v])] = (o1, r1)" by fastforce
  show ?case
  proof (cases res)
    case (Inl err)
    with isl u obtain x where "o1 = Some x" by auto
    then show ?thesis
      using step Inl u UpdateChannels_Cons[of L r "(c, [v])"] by (simp add: ws)
  next
    case (Inr x)
    with isl u have "o1 = None" by simp
    with Cons.IH[OF vs, of r1 "case x of Some c \<Rightarrow> fmupd c True upd | None \<Rightarrow> upd"] Inr step u show ?thesis
      using UpdateChannels_Cons[of L r "(c, [v])"] by (auto simp: ws)
  qed
qed simp

text \<open>When every entry passes the validator and the transformer, \<open>Write\<close> is the registry's own
  batch update of the transformed writes, one value at a time and in order: the same channels,
  the same success; it then has no pending entry.\<close>

theorem Write_updates:
  assumes "those (map (written_to (cwTransformer cw) (cwValidator cw)) (cwEntries cw)) = Some ws"
  shows "\<exists>res cw'. cw_Write L cw r = (res, cw', snd (rg_UpdateChannels L r (map (\<lambda>(c, v). (c, [v])) ws))) \<and>
    (isl res \<longleftrightarrow> fst (rg_UpdateChannels L r (map (\<lambda>(c, v). (c, [v])) ws)) \<noteq> None) \<and>
    (\<not> isl res \<longrightarrow> cwEntries cw' = [])"
  using write_all_updates[OF assms, of L r fmempty] by (auto simp: cw_Write_def split: sum.splits)

text \<open>What evaluates small examples.\<close>

lemmas demo_write_simps = cw_Write_def cw_WriteTo_def AddEntry_def NewChannelWrite_def written_value_def
  entry_step_simps tp_Update_def NewTopic_def on_snd_def Let_def

definition demo_topics :: registry where
  "demo_topics = fmupd ''t'' (ChTopic (NewTopic VNil True)) fmempty"

theorem Write_updates_witness:
  "\<exists>res cw'. cw_Write demo_lib (cw_WriteTo (cw_WriteTo (NewChannelWrite []) ''t'' VNil) ''t'' (VBool True)) demo_topics
     = (res, cw', snd (rg_UpdateChannels demo_lib demo_topics [(''t'', [VNil]), (''t'', [VBool True])])) \<and>
     \<not> isl res \<and> cwEntries cw' = []"
proof -
  let ?cw = "cw_WriteTo (cw_WriteTo (NewChannelWrite []) ''t'' VNil) ''t'' (VBool True)"
  have ws: "those (map (written_to (cwTransformer ?cw) (cwValidator ?cw)) (cwEntries ?cw))
      = Some [(''t'', VNil), (''t'', VBool True)]"
    by (simp add: demo_write_simps written_to_def)
  have "fst (rg_UpdateChannels demo_lib demo_topics [(''t'', [VNil]), (''t'', [VBool True])]) = None"
    by (simp add: demo_topics_def NewTopic_def tp_Update_def Let_def on_snd_def)
  with Write_updates[OF ws, of demo_lib demo_topics] show ?thesis by auto
qed

text \<open>The pending entries keep their number and, without the metadata transformer, are the same.\<close>

lemma wt_Transform_keeps: "(\<And>m. t \<noteq> MetadataWriteTransformer m) \<Longrightarrow> snd (wt_Transform t e) = e"
  by (cases t) (auto split: option.splits)

lemma entry_step_keeps:
  "(\<And>m. tf \<noteq> Some (MetadataWriteTransformer m)) \<Longrightarrow> write_entry_step L tf vd e r = (res, e', r') \<Longrightarrow> e' = e"
  using wt_Transform_keeps[of "the tf" e]
  by (cases tf) (auto simp: entry_step_simps split: option.splits sum.splits prod.splits)

lemma write_all_fails:
  assumes nm: "\<And>m. tf \<noteq> Some (MetadataWriteTransformer m)"
  shows "write_all L tf vd es r upd = (Inl err, es', r') \<Longrightarrow>
    es' = es \<and> (\<exists>i upd' ri. i < length es \<and>
      write_all L tf vd (take i es) r upd = (Inr upd', take i es, ri) \<and>
      write_entry_step L tf vd (es ! i) ri = (Inl err, es ! i, r'))"
proof (induction es arbitrary: r upd es')
  case (Cons e es)
  obtain res e1 r1 where s: "write_entry_step L tf vd e r = (res, e1, r1)" by (metis prod_cases3)
  note e1 = entry_step_keeps[OF nm s]
  show ?case
  proof (cases res)
    case (Inl x)
    with Cons.prems s e1 show ?thesis by (intro conjI exI[of _ 0]) auto
  next
    case (Inr u)
    let ?upd = "case u of Some c \<Rightarrow> fmupd c True upd | None \<Rightarrow> upd"
    from Cons.prems s Inr e1 obtain es1 where
      "write_all L tf vd es r1 ?upd = (Inl err, es1, r')" and es': "es' = e # es1"
      by (auto split: prod.splits)
    from Cons.IH[OF this(1)] obtain i upd' ri where "es1 = es" "i < length es"
      "write_all L tf vd (take i es) r1 ?upd = (Inr upd', take i es, ri)"
      "write_entry_step L tf vd (es ! i) ri = (Inl err, es ! i, r')" by blast
    with s Inr e1 es' show ?thesis
      by (intro conjI exI[of _ "Suc i"] exI[of _ upd'] exI[of _ ri]) auto
  qed
qed simp

text \<open>A \<open>Write\<close> that fails has applied the entries before the failing one and keeps all of them
  pending, so writing again applies them a second time.\<close>

theorem Write_failure:
  assumes "cw_Write L cw r = (Inl err, cw', r')"
    and "\<And>m. cwTransformer cw \<noteq> Some (MetadataWriteTransformer m)"
  shows "cw' = cw \<and> (\<exists>i < length (cwEntries cw). \<exists>upd ri.
    write_all L (cwTransformer cw) (cwValidator cw) (take i (cwEntries cw)) r fmempty
      = (Inr upd, take i (cwEntries cw), ri) \<and>
    write_entry_step L (cwTransformer cw) (cwValidator cw) (cwEntries cw ! i) ri = (Inl err, cwEntries cw ! i, r'))"
  using assms(1) write_all_fails[OF assms(2), where L = L and r = r and upd = fmempty and es = "cwEntries cw"]
  by (fastforce simp: cw_Write_def split: prod.splits sum.splits)

text \<open>The entry for \<open>''t''\<close> is written twice when the missing channel is registered in between.\<close>

theorem Write_failure_witness:
  "(case cw_Write demo_lib (cw_WriteTo (cw_WriteTo (NewChannelWrite []) ''t'' (VBool True)) ''u'' VNil) demo_topics of
     (res, cw, r) \<Rightarrow> isl res \<and> length (cwEntries cw) = 2 \<and>
       (case cw_Write demo_lib cw (rg_Register r ''u'' (ChLastValue (NewLastValue VNil))) of
          (res', cw', r') \<Rightarrow> \<not> isl res' \<and>
            map_option (fst \<circ> ch_Get) (fmlookup r' ''t'') = Some (Inr (VList [VBool True, VBool True]))))"
proof -
  let ?cw = "cw_WriteTo (cw_WriteTo (NewChannelWrite []) ''t'' (VBool True)) ''u'' VNil"
  obtain res cw r where w: "cw_Write demo_lib ?cw demo_topics = (res, cw, r)" by (metis prod_cases3)
  then have res: "res = Inl (ErrorString ''channel not found: u'')" 
    and r: "r = fmupd ''t'' (ChTopic ((NewTopic VNil True)\<lparr>tpValues := [VBool True]\<rparr>)) demo_topics"
    by (auto simp: demo_write_simps demo_topics_def)
  have "cw = ?cw"
    using Write_failure[OF w[unfolded res]] by (simp add: cw_WriteTo_def AddEntry_def NewChannelWrite_def)
  then show ?thesis
    by (simp add: w res r demo_write_simps demo_topics_def lv_Update_def NewLastValue_def rg_Register_def tp_Get_def)
qed

lemma entry_step_error:
  "write_entry_step L tf vd e r = (Inl err, e', r') \<Longrightarrow> \<not> IsWriteSkipError (Some err)"
  by (auto simp: entry_step_simps IsWriteSkipError_def split: option.splits sum.splits prod.splits)

lemma write_all_error:
  "write_all L tf vd es r upd = (Inl err, es', r') \<Longrightarrow> \<not> IsWriteSkipError (Some err)"
  by (induction L tf vd es r upd arbitrary: es' rule: write_all.induct)
    (auto split: prod.splits sum.splits dest: entry_step_error)

lemma write_all_rejects:
  "e \<in> set es \<Longrightarrow> written_to tf vd e = None \<Longrightarrow> isl (fst (write_all L tf vd es r upd))"
proof (induction es arbitrary: r upd)
  case (Cons x es)
  show ?case
  proof (cases "x = e")
    case True
    with entry_step_rejected[OF Cons.prems(2), of L r] show ?thesis by auto
  next
    case False
    with Cons show ?thesis by (auto split: prod.splits sum.splits) (metis fst_conv)
  qed
qed simp

text \<open>A \<open>FilterWriteTransformer\<close> does not leave entries out: if it rejects one entry the whole
  \<open>Write\<close> fails, and the error is not one that \<open>IsWriteSkipError\<close> recognises.\<close>

theorem filter_aborts:
  assumes "cwTransformer cw = Some (FilterWriteTransformer (Some p))" "e \<in> set (cwEntries cw)" "\<not> p e"
  shows "\<exists>err cw' r'. cw_Write L cw r = (Inl err, cw', r') \<and> \<not> IsWriteSkipError (Some err)"
proof -
  have "written_to (cwTransformer cw) (cwValidator cw) e = None"
    using assms(1,3) by (simp add: written_to_def split: option.splits)
  from write_all_rejects[OF assms(2) this, of L r fmempty] show ?thesis
    by (auto simp: cw_Write_def isl_def split: prod.splits sum.splits dest: write_all_error)
qed

theorem filter_aborts_witness:
  "\<exists>err cw' r'. cw_Write demo_lib
     (cw_WriteTo (NewChannelWrite [WithWriteTransformer (Some (FilterWriteTransformer (Some (\<lambda>e. weChannel e \<noteq> ''t''))))])
        ''t'' VNil) demo_topics = (Inl err, cw', r') \<and> \<not> IsWriteSkipError (Some err)"
  by (rule filter_aborts[where p = "\<lambda>e. weChannel e \<noteq> ''t''" and
        e = "\<lparr>weChannel = ''t'', weValue = VNil, weOverwrite = False, weNode = [], weMetadata = None\<rparr>"])
    (simp_all add: cw_WriteTo_def AddEntry_def NewChannelWrite_def WithWriteTransformer_def)

section \<open>Writing and triggers\<close>

text \<open>No update changes the version of a channel: only the engine sets it.\<close>

lemma ch_Get_version: "ch_GetVersion (snd (ch_Get c)) = ch_GetVersion c"
  by (induction c) (auto simp: on_snd_def ev_Get_def base_GetVersion_def)

lemma ch_Update_version: "ch_GetVersion (snd (ch_Update L c vs)) = ch_GetVersion c"
proof (induction L c vs rule: ch_Update.induct)
  case (10 L c r vs)
  obtain g c' where g: "ch_Get c = (g, c')" by (cases "ch_Get c")
  with 10 ch_Get_version[of c] show ?case by (auto simp: on_snd_def)
qed (auto simp: on_snd_def base_GetVersion_def chan_defs Let_def split: prod.splits)

lemma entry_step_versions:
  "write_entry_step L tf vd e r = (res, e', r') \<Longrightarrow>
   map_option ch_GetVersion (fmlookup r' n) = map_option ch_GetVersion (fmlookup r n)"
  using ch_Update_version[of L]
  by (auto simp: entry_step_simps split: option.splits sum.splits prod.splits) (metis snd_conv)+

lemma write_all_versions:
  "write_all L tf vd es r upd = (res, es', r') \<Longrightarrow>
   map_option ch_GetVersion (fmlookup r' n) = map_option ch_GetVersion (fmlookup r n)"
  by (induction L tf vd es r upd arbitrary: es' rule: write_all.induct)
    (auto split: prod.splits sum.splits dest: entry_step_versions[where n = n])

text \<open>Once a \<open>ChannelChangedTrigger\<close> has been asked about a channel with a version, no \<open>Write\<close>
  makes it fire again: writes through \<open>ChannelWrite\<close> are not changes to it.\<close>

theorem Write_not_noticed:
  assumes "ShouldTrigger r (ChannelChangedTrigger n lastv) = (b, t)"
    and "rg_Get r n = Some c" "0 \<le>s ch_GetVersion c"
    and "cw_Write L cw r = (res, cw', r')"
  shows "fst (ShouldTrigger r' t) = False"
proof -
  have "map_option ch_GetVersion (fmlookup r' n) = map_option ch_GetVersion (fmlookup r n)"
    using assms(4) by (auto simp: cw_Write_def split: prod.splits sum.splits dest: write_all_versions[where n = n])
  with assms(2) obtain c' where c': "fmlookup r' n = Some c'" "ch_GetVersion c' = ch_GetVersion c"
    by (auto simp: rg_Get_def)
  have "t = ChannelChangedTrigger n (ch_GetVersion c)"
    using assms(1-3) by (auto simp: Let_def split: if_splits)
  with c' assms(3) show ?thesis by (auto simp: rg_Get_def Let_def word_sless_alt word_sle_eq)
qed

theorem Write_not_noticed_witness:
  "case cw_Write demo_lib (cw_WriteTo (NewChannelWrite []) ''t'' (VBool True)) demo_topics of
     (res, cw, r) \<Rightarrow> fst (ShouldTrigger r (snd (ShouldTrigger demo_topics (NewChannelChangedTrigger ''t'')))) = False"
proof -
  obtain res cw r where w: "cw_Write demo_lib (cw_WriteTo (NewChannelWrite []) ''t'' (VBool True)) demo_topics = (res, cw, r)"
    by (metis prod_cases3)
  have s: "ShouldTrigger demo_topics (ChannelChangedTrigger ''t'' (- 1)) = (True, ChannelChangedTrigger ''t'' 0)"
    by (simp add: demo_topics_def NewTopic_def rg_Get_def base_GetVersion_def)
  have "fst (ShouldTrigger r (ChannelChangedTrigger ''t'' 0)) = False"
    by (rule Write_not_noticed[OF s _ _ w, where c = "ChTopic (NewTopic VNil True)"]) (simp_all add: demo_topics_def NewTopic_def rg_Get_def base_GetVersion_def)
  then show ?thesis by (simp add: w NewChannelChangedTrigger_def s del: ShouldTrigger.simps)
qed

section \<open>Batches\<close>

lemma fold_AddEntries:
  "fold (\<lambda>(n, b) w. AddEntries w b) bs w = w\<lparr>cwEntries := cwEntries w @ concat (map snd bs)\<rparr>"
  by (induction bs arbitrary: w) (auto simp: AddEntries_def)

text \<open>\<open>Flush\<close> does not empty the batches: after a successful one, flushing again writes all their
  entries once more.\<close>

theorem Flush_repeats:
  assumes "wx_Flush L bs wc r = (Inr upd, wc', r')"
  shows "wxBatches wc' = wxBatches wc \<and>
    wx_Flush L bs wc' r' =
      (case cw_Write L ((wxWriter wc)\<lparr>cwEntries := concat (map snd bs)\<rparr>) r' of
         (res, w, r'') \<Rightarrow> (res, wc'\<lparr>wxWriter := w\<rparr>, r''))"
proof -
  from assms have "wxWriter wc' = (wxWriter wc)\<lparr>cwEntries := []\<rparr>" "wxBatches wc' = wxBatches wc"
    by (auto simp: wx_Flush_def fold_AddEntries cw_Write_def Let_def split: prod.splits sum.splits)
  then show ?thesis by (simp add: wx_Flush_def fold_AddEntries Let_def)
qed

definition demo_context :: write_context where
  "demo_context = (NewWriteContext ''n'' 1 (NewChannelWrite []))\<lparr>wxBatches :=
     fmupd ''b'' (wb_WriteTo NewWriteBatch ''t'' (VBool True)) fmempty\<rparr>"

theorem Flush_repeats_witness:
  "\<exists>upd upd' wc1 wc2 r1 r2.
     wx_Flush demo_lib [(''b'', wb_WriteTo NewWriteBatch ''t'' (VBool True))] demo_context demo_topics = (Inr upd, wc1, r1) \<and>
     wx_Flush demo_lib [(''b'', wb_WriteTo NewWriteBatch ''t'' (VBool True))] wc1 r1 = (Inr upd', wc2, r2) \<and>
     map_option (fst \<circ> ch_Get) (fmlookup r2 ''t'') = Some (Inr (VList [VBool True, VBool True]))"
proof -
  let ?bs = "[(''b'', wb_WriteTo NewWriteBatch ''t'' (VBool True))]"
  note ev = demo_context_def NewWriteContext_def wb_WriteTo_def wb_Add_def NewWriteBatch_def demo_write_simps
    demo_topics_def AddEntries_def
  have "\<exists>upd wc1. wx_Flush demo_lib ?bs demo_context demo_topics =
      (Inr upd, wc1, fmupd ''t'' (ChTopic ((NewTopic VNil True)\<lparr>tpValues := [VBool True]\<rparr>)) demo_topics)"
    by (simp add: wx_Flush_def ev)
  then obtain upd wc1 where f1: "wx_Flush demo_lib ?bs demo_context demo_topics =
      (Inr upd, wc1, fmupd ''t'' (ChTopic ((NewTopic VNil True)\<lparr>tpValues := [VBool True]\<rparr>)) demo_topics)"
    by blast
  from Flush_repeats[OF f1] have f2: "wx_Flush demo_lib ?bs wc1 (fmupd ''t'' (ChTopic ((NewTopic VNil True)\<lparr>tpValues := [VBool True]\<rparr>)) demo_topics) =
      (case cw_Write demo_lib ((wxWriter demo_context)\<lparr>cwEntries := concat (map snd ?bs)\<rparr>)
        (fmupd ''t'' (ChTopic ((NewTopic VNil True)\<lparr>tpValues := [VBool True]\<rparr>)) demo_topics) of
         (res, w, r'') \<Rightarrow> (res, wc1\<lparr>wxWriter := w\<rparr>, r''))" by blast
  show ?thesis
    by (intro exI conjI, rule f1, subst f2) (simp add: ev, simp add: tp_Get_def)
qed

section \<open>Overwriting\<close>

text \<open>Overwriting through a \<open>ChannelWrite\<close> does not overwrite: the value is passed inside a
  \<open>*types.Overwrite\<close>, which a last-value channel stores as it is and an aggregate hands to its
  operator like any other value.\<close>

theorem Overwrite_wraps:
  assumes "cwTransformer cw = Some IdentityWriteTransformer" "cwValidator cw = Some NoOpValidator" "cwEntries cw = []"
    and "rg_Get r n = Some c" "cw_Write L (cw_Overwrite cw n v) r = (res, cw', r')"
  shows "(\<forall>lv. c = ChLastValue lv \<longrightarrow> fmlookup r' n = Some (ChLastValue (lv\<lparr>lvValue := VOverwrite v\<rparr>))) \<and>
    (\<forall>bo. c = ChBinop bo \<and> boValue bo \<noteq> VMissing \<longrightarrow>
       fmlookup r' n = Some (ChBinop (bo\<lparr>boValue := boOperator bo (boValue bo) (VOverwrite v)\<rparr>)))"
  using assms
  by (auto simp: cw_Write_def cw_Overwrite_def AddEntry_def written_value_def entry_step_simps on_snd_def lv_Update_def
      bo_Update_def isOverwrite_def overwriter_def Let_def)

definition demo_last :: last_value where
  "demo_last = (NewLastValue VNil)\<lparr>lvValue := VBool False\<rparr>"

theorem Overwrite_wraps_witness:
  "case cw_Write demo_lib (cw_Overwrite (NewChannelWrite []) ''x'' (VBool True)) (fmupd ''x'' (ChLastValue demo_last) fmempty) of
     (res, cw, r) \<Rightarrow> fmlookup r ''x'' = Some (ChLastValue (demo_last\<lparr>lvValue := VOverwrite (VBool True)\<rparr>))"
proof -
  obtain res cw r where
    w: "cw_Write demo_lib (cw_Overwrite (NewChannelWrite []) ''x'' (VBool True)) (fmupd ''x'' (ChLastValue demo_last) fmempty) = (res, cw, r)"
    by (metis prod_cases3)
  have "fmlookup r ''x'' = Some (ChLastValue (demo_last\<lparr>lvValue := VOverwrite (VBool True)\<rparr>))"
    using Overwrite_wraps[OF _ _ _ _ w, of "ChLastValue demo_last"] by (simp add: NewChannelWrite_def rg_Get_def)
  then show ?thesis by (simp add: w)
qed

end
