(* ===== verification/Optimized.thy ===== *)
theory Optimized
  imports Engine_Sched "HOL-Library.Multiset"
begin

text \<open>
  The optimised engine's own bookkeeping (\<^verbatim>\<open>pregel/optimized.go\<close>): the order of tasks and
  results, the queues, dependencies and step bumping, and the writes of a step applied in the
  order of the tasks' paths. Runs themselves are the engine's (\<open>OptimizedRun\<close> calls \<open>RunSync\<close>).
  \<open>sort.Slice\<close> leaves the order of equal elements open; the model keeps the given one.
\<close>

section \<open>The order of tasks\<close>

text \<open>A task's place: shorter paths first, then the paths, then the names.\<close>

datatype task_key = TaskKey (keyPath: "string list") (keyName: string)

definition task_key_before :: "task_key \<Rightarrow> task_key \<Rightarrow> bool" where
  "task_key_before a b =
     (if length (keyPath a) \<noteq> length (keyPath b) then length (keyPath a) < length (keyPath b)
      else if keyPath a \<noteq> keyPath b then keyPath a < keyPath b
      else keyName a < keyName b)"

instantiation task_key :: linorder
begin

definition less_task_key :: "task_key \<Rightarrow> task_key \<Rightarrow> bool" where
  "less_task_key a b = task_key_before a b"

definition less_eq_task_key :: "task_key \<Rightarrow> task_key \<Rightarrow> bool" where
  "less_eq_task_key a b \<longleftrightarrow> a < b \<or> a = b"

instance
proof
  fix x y z :: task_key
  show "x < y \<longleftrightarrow> x \<le> y \<and> \<not> y \<le> x"
    by (auto simp: less_eq_task_key_def less_task_key_def task_key_before_def split: if_splits)
  show "x \<le> x" by (simp add: less_eq_task_key_def)
  show "x \<le> y \<Longrightarrow> y \<le> z \<Longrightarrow> x \<le> z"
    by (auto simp: less_eq_task_key_def less_task_key_def task_key_before_def split: if_splits)
  show "x \<le> y \<Longrightarrow> y \<le> x \<Longrightarrow> x = y"
    by (auto simp: less_eq_task_key_def less_task_key_def task_key_before_def split: if_splits)
  show "x \<le> y \<or> y \<le> x"
    by (cases x; cases y) (auto simp: less_eq_task_key_def less_task_key_def task_key_before_def)
qed

end

text \<open>The loop over two paths of one length.\<close>

fun cmp_path :: "string list \<Rightarrow> string list \<Rightarrow> int" where
  "cmp_path (x # xs) (y # ys) = (if x \<noteq> y then (if x < y then -1 else 1) else cmp_path xs ys)"
| "cmp_path _ _ = 0"

definition compareTaskPriority :: "'w task \<Rightarrow> 'w task \<Rightarrow> int" where
  "compareTaskPriority t1 t2 =
     (if length (tkPath t1) \<noteq> length (tkPath t2) then int (length (tkPath t1)) - int (length (tkPath t2))
      else if cmp_path (tkPath t1) (tkPath t2) \<noteq> 0 then cmp_path (tkPath t1) (tkPath t2)
      else if tkName t1 \<noteq> tkName t2 then (if tkName t1 < tkName t2 then -1 else 1)
      else 0)"

record path_result = task_result +
  trPath :: "string list"

definition result_key :: "path_result \<Rightarrow> task_key" where
  "result_key r = TaskKey (trPath r) (trName r)"

record task_priority =
  tpyName :: string
  tpyPath :: "string list"
  tpyPriority :: int

definition NewTaskPriority :: "string \<Rightarrow> string list \<Rightarrow> int \<Rightarrow> task_priority" where
  "NewTaskPriority n p k = \<lparr>tpyName = n, tpyPath = p, tpyPriority = k\<rparr>"

definition tpy_Compare :: "task_priority \<Rightarrow> task_priority \<Rightarrow> int" where
  "tpy_Compare a b =
     (if tpyPriority a \<noteq> tpyPriority b then tpyPriority a - tpyPriority b
      else if length (tpyPath a) \<noteq> length (tpyPath b) then int (length (tpyPath a)) - int (length (tpyPath b))
      else cmp_path (tpyPath a) (tpyPath b))"

section \<open>The engine's state\<close>

record opt_config =
  ocBumpStep :: bool
  ocFinishNotification :: bool
  ocTaskPriority :: bool

record 'w priority_task =
  ptTask :: "'w task"
  ptPriority :: int
  ptNamespace :: string
  ptPath :: "string list"

record 'w opt_engine =
  oeEngine :: "'w engine"
  oeConfig :: opt_config
  oeQueue :: "'w priority_task list"
  oeStepQueue :: "(int, string list) fmap"
  oeSeen :: "(string, (string, bool) fmap) fmap"
  oeReady :: "(string, bool) fmap"
  oeFinished :: "(string, bool) fmap"
  oeDeps :: "(string, string list) fmap"
  oeVersions :: versions

definition NewPregelOptimizedEngine :: "'w engine \<Rightarrow> opt_config option \<Rightarrow> 'w opt_engine" where
  "NewPregelOptimizedEngine base cfg =
     \<lparr>oeEngine = base,
      oeConfig = (case cfg of Some c \<Rightarrow> c
        | None \<Rightarrow> \<lparr>ocBumpStep = True, ocFinishNotification = True, ocTaskPriority = True\<rparr>),
      oeQueue = [], oeStepQueue = fmempty, oeSeen = fmempty, oeReady = fmempty,
      oeFinished = fmempty, oeDeps = fmempty, oeVersions = fmempty\<rparr>"

definition oe_Reset :: "'w opt_engine \<Rightarrow> 'w opt_engine" where
  "oe_Reset e = e\<lparr>oeQueue := [], oeStepQueue := fmempty, oeSeen := fmempty, oeReady := fmempty,
     oeFinished := fmempty\<rparr>"

section \<open>Dependencies and step bumping\<close>

text \<open>\<open>from\<close> depends on \<open>to\<close>.\<close>

definition AddTaskDependency :: "string \<Rightarrow> string \<Rightarrow> 'w opt_engine \<Rightarrow> 'w opt_engine" where
  "AddTaskDependency fromTask toTask e =
     e\<lparr>oeDeps := fmupd toTask (fmlookup_default [] (oeDeps e) toTask @ [fromTask]) (oeDeps e)\<rparr>"

definition GetTaskDependencies :: "'w opt_engine \<Rightarrow> string \<Rightarrow> string list" where
  "GetTaskDependencies e t = fmlookup_default [] (oeDeps e) t"

definition IsTaskReady :: "'w opt_engine \<Rightarrow> string \<Rightarrow> bool" where
  "IsTaskReady e t =
     (if length (fmlookup_default [] (oeDeps e) t) = 0 then True
      else (\<forall>dep \<in> set (fmlookup_default [] (oeDeps e) t). fmlookup_default False (oeFinished e) dep))"

text \<open>One dependent task; \<open>updated\<close> are the updated channels.\<close>

definition bump_one :: "int \<Rightarrow> string list \<Rightarrow> string \<Rightarrow> 'w opt_engine \<Rightarrow> 'w opt_engine" where
  "bump_one step updated dep e =
     (let seen = fmlookup (oeSeen e) dep;
          ready = (\<forall>c \<in> set updated. \<not> (seen \<noteq> None \<and> \<not> fmlookup_default False (the seen) c))
      in if ready then
           e\<lparr>oeStepQueue := fmupd (step + 1) (fmlookup_default [] (oeStepQueue e) (step + 1) @ [dep]) (oeStepQueue e),
             oeSeen := fmupd dep (fold (\<lambda>c. fmupd c True) updated (case seen of Some s \<Rightarrow> s | None \<Rightarrow> fmempty)) (oeSeen e)\<rparr>
         else e)"

definition BumpStep :: "string \<Rightarrow> int \<Rightarrow> string list \<Rightarrow> 'w opt_engine \<Rightarrow> 'w opt_engine" where
  "BumpStep task step updated e =
     (let e1 = e\<lparr>oeFinished := fmupd task True (oeFinished e)\<rparr> in
      case fmlookup (oeDeps e1) task of
        None \<Rightarrow> e1
      | Some deps \<Rightarrow> (if length deps = 0 then e1 else fold (bump_one step updated) deps e1))"

definition ClearFinishedTasks :: "'w opt_engine \<Rightarrow> 'w opt_engine" where
  "ClearFinishedTasks e = e\<lparr>oeFinished := fmempty\<rparr>"

definition hasSeenChannel :: "'w opt_engine \<Rightarrow> string \<Rightarrow> string \<Rightarrow> bool" where
  "hasSeenChannel e t c = (case fmlookup (oeSeen e) t of
     Some cs \<Rightarrow> fmlookup_default False cs c | None \<Rightarrow> False)"

section \<open>Applying the writes of a step\<close>

fun group_writes :: "(string \<times> gval) list \<Rightarrow> writes \<Rightarrow> writes" where
  "group_writes [] ws = ws"
| "group_writes ((k, v) # es) ws =
     (if v = VNil then group_writes es ws
      else group_writes es (fmupd k (fmlookup_default [] ws k @ [v]) ws))"

fun group_results :: "golib \<Rightarrow> orders \<Rightarrow> path_result list \<Rightarrow> writes \<Rightarrow> gerr + writes" where
  "group_results L od [] ws = Inr ws"
| "group_results L od (r # rs) ws =
     (if trErr r \<noteq> None then group_results L od rs ws
      else (case toMap L (trOutput r) of
          Inl e \<Rightarrow> Inl (WrapError ''failed to convert output to map'' e)
        | Inr m \<Rightarrow> group_results L od rs (group_writes (ordInput od m) ws)))"

definition opt_updated :: "string \<Rightarrow> 'w opt_engine \<Rightarrow> 'w opt_engine" where
  "opt_updated n e =
     (let e1 = e\<lparr>oeReady := fmupd n True (oeReady e)\<rparr> in
      if ocBumpStep (oeConfig e1) then
        e1\<lparr>oeVersions := fmupd n (fmlookup_default 0 (oeVersions e1) n + 1) (oeVersions e1),
           oeEngine := (oeEngine e1)\<lparr>egCurrentCheckpoint :=
             map_option (IncrementChannel n) (egCurrentCheckpoint (oeEngine e1))\<rparr>\<rparr>
      else e1)"

fun opt_write_loop ::
  "golib \<Rightarrow> 'w opt_engine \<Rightarrow> registry \<Rightarrow> (string \<times> gval list) list \<Rightarrow> string set
   \<Rightarrow> (gerr + string set) \<times> 'w opt_engine \<times> registry"
where
  "opt_write_loop L e r [] updated = (Inr updated, e, r)"
| "opt_write_loop L e r ((n, vs) # ws) updated =
     (case rg_Get r n of
        None \<Rightarrow> opt_write_loop L e r ws updated
      | Some c \<Rightarrow>
          (case ch_Update L c (filter (\<lambda>v. v \<noteq> VNil) vs) of
             (Inl err, c') \<Rightarrow> (Inl (WrapError (''failed to update channel '' @ n) err), e, fmupd n c' r)
           | (Inr b, c') \<Rightarrow>
               (if b then opt_write_loop L (opt_updated n e) (fmupd n c' r) ws (insert n updated)
                else opt_write_loop L e (fmupd n c' r) ws updated)))"

definition finish_all :: "registry \<Rightarrow> registry" where
  "finish_all r = fmmap (\<lambda>c. snd (ch_Finish c)) r"

definition OptimizedApplyWrites ::
  "golib \<Rightarrow> orders \<Rightarrow> 'w opt_engine \<Rightarrow> registry \<Rightarrow> path_result list \<Rightarrow> string set
   \<Rightarrow> (gerr + string set) \<times> 'w opt_engine \<times> registry"
where
  "OptimizedApplyWrites L od e r results triggers =
     (case group_results L od (sort_key result_key results) fmempty of
        Inl err \<Rightarrow> (Inl err, e, r)
      | Inr ws \<Rightarrow>
          (case opt_write_loop L e r (ordWrites od ws) {} of
             (Inl err, e1, r1) \<Rightarrow> (Inl err, e1, r1)
           | (Inr updated, e1, r1) \<Rightarrow>
               (Inr updated, e1,
                if ocFinishNotification (oeConfig e1) \<and> updated \<noteq> {} \<and> triggers \<subseteq> updated
                then finish_all r1 else r1)))"

section \<open>Queues\<close>

text \<open>The exchange loop of \<open>Push\<close>, on the queue from its end.\<close>

fun sift :: "'w task \<Rightarrow> 'w task list \<Rightarrow> 'w task list" where
  "sift t [] = [t]"
| "sift t (u # us) = (if length (tkPath t) < length (tkPath u) then u # sift t us else t # u # us)"

definition pq_Push :: "'w task list \<Rightarrow> 'w task \<Rightarrow> 'w task list" where
  "pq_Push q t = rev (sift t (rev q))"

definition pq_Pop :: "'w task list \<Rightarrow> 'w task option \<times> 'w task list" where
  "pq_Pop q = (case q of [] \<Rightarrow> (None, []) | t # ts \<Rightarrow> (Some t, ts))"

definition pq_Len :: "'w task list \<Rightarrow> nat" where
  "pq_Len q = length q"

text \<open>The node runs in the world \<open>w\<close> on a nil state; \<open>None\<close> is a panic, a nil node's call too.\<close>

definition ExecuteTaskWithPriority ::
  "'w task \<Rightarrow> int \<Rightarrow> string \<Rightarrow> 'w opt_engine \<Rightarrow> 'w \<Rightarrow> task_result option \<times> 'w opt_engine \<times> 'w" where
  "ExecuteTaskWithPriority t p ns e w =
     (let e1 = e\<lparr>oeQueue := oeQueue e @ [\<lparr>ptTask = t, ptPriority = p, ptNamespace = ns, ptPath = [ns, tkName t]\<rparr>]\<rparr> in
      case tkFunc t of
        None \<Rightarrow> (None, e1, w)
      | Some f \<Rightarrow>
          (case f VNil w of
             (Panicked _, w1) \<Rightarrow> (None, e1, w1)
           | (Returned out err, w1) \<Rightarrow> (Some \<lparr>trName = tkName t, trOutput = out, trErr = err\<rparr>, e1, w1)))"

definition queue_before :: "'w priority_task \<Rightarrow> 'w priority_task \<Rightarrow> bool" where
  "queue_before a b =
     (tpy_Compare (NewTaskPriority (tkName (ptTask a)) (ptPath a) (ptPriority a))
        (NewTaskPriority (tkName (ptTask b)) (ptPath b) (ptPriority b)) < 0)"

text \<open>\<open>sort.Slice\<close> with \<open>queue_before\<close>, by insertion.\<close>

fun queue_insert :: "'w priority_task \<Rightarrow> 'w priority_task list \<Rightarrow> 'w priority_task list" where
  "queue_insert t [] = [t]"
| "queue_insert t (u # us) = (if queue_before u t then u # queue_insert t us else t # u # us)"

definition queue_sort :: "'w priority_task list \<Rightarrow> 'w priority_task list" where
  "queue_sort q = foldr queue_insert q []"

definition GetNextPriorityTask :: "'w opt_engine \<Rightarrow> 'w priority_task option \<times> 'w opt_engine" where
  "GetNextPriorityTask e =
     (case queue_sort (oeQueue e) of
        [] \<Rightarrow> (None, e)
      | t # ts \<Rightarrow> (Some t, e\<lparr>oeQueue := ts\<rparr>))"

section \<open>Priorities\<close>

lemma cmp_path_order:
  "length xs = length ys \<Longrightarrow> (cmp_path xs ys < 0 \<longleftrightarrow> xs < ys) \<and> (cmp_path xs ys = 0 \<longleftrightarrow> xs = ys)"
  by (induction xs ys rule: list_induct2) auto

definition task_key_of :: "'w task \<Rightarrow> task_key" where
  "task_key_of t = TaskKey (tkPath t) (tkName t)"

text \<open>\<open>compareTaskPriority\<close> is the comparison of a linear order on path and name: negative for
  less, zero only for the same path and name.\<close>

theorem compareTaskPriority_order:
  "(compareTaskPriority a b < 0 \<longleftrightarrow> task_key_of a < task_key_of b) \<and>
   (compareTaskPriority a b = 0 \<longleftrightarrow> task_key_of a = task_key_of b)"
  using cmp_path_order[of "tkPath a" "tkPath b"]
  by (auto simp: compareTaskPriority_def task_key_of_def less_task_key_def task_key_before_def)

text \<open>The queue of \<open>PriorityTaskQueue\<close>, from its end.\<close>

definition plen :: "'w task \<Rightarrow> nat" where
  "plen t = length (tkPath t)"

lemma sift_mset: "mset (sift t us) = add_mset t (mset us)"
  by (induction us) auto

lemma sift_sorted: "sorted_wrt (\<lambda>a b. plen a \<ge> plen b) us \<Longrightarrow> sorted_wrt (\<lambda>a b. plen a \<ge> plen b) (sift t us)"
proof (induction us)
  case (Cons u us)
  moreover have "set (sift t us) = insert t (set us)"
    using sift_mset[of t us] by (metis set_mset_add_mset_insert set_mset_mset)
  ultimately show ?case by (auto simp: plen_def not_less)
qed simp

lemma sift_filter:
  "sorted_wrt (\<lambda>a b. plen a \<ge> plen b) us \<Longrightarrow>
   filter (\<lambda>x. k = plen x) (sift t us) = (if k = plen t then t # filter (\<lambda>x. k = plen x) us else filter (\<lambda>x. k = plen x) us)"
proof (induction us)
  case (Cons u us)
  then show ?case by (auto simp: plen_def filter_empty_conv)
qed simp

lemma Push_facts:
  assumes "sorted (map plen q)"
  shows "mset (pq_Push q t) = add_mset t (mset q)" and "sorted (map plen (pq_Push q t))"
    and "filter (\<lambda>x. k = plen x) (pq_Push q t) = filter (\<lambda>x. k = plen x) q @ (if k = plen t then [t] else [])"
proof -
  from assms have s: "sorted_wrt (\<lambda>a b. plen a \<ge> plen b) (rev q)"
    by (simp add: sorted_map sorted_wrt_rev)
  show "mset (pq_Push q t) = add_mset t (mset q)" by (simp add: pq_Push_def sift_mset)
  show "sorted (map plen (pq_Push q t))"
    using sift_sorted[OF s, of t] by (simp add: pq_Push_def sorted_map sorted_wrt_rev)
  show "filter (\<lambda>x. k = plen x) (pq_Push q t) = filter (\<lambda>x. k = plen x) q @ (if k = plen t then [t] else [])"
    using sift_filter[OF s, of k t] by (simp add: pq_Push_def flip: rev_filter)
qed

lemma Push_all_facts:
  "sorted (map plen (foldl pq_Push [] ts)) \<and> mset (foldl pq_Push [] ts) = mset ts \<and>
   (\<forall>k. filter (\<lambda>x. k = plen x) (foldl pq_Push [] ts) = filter (\<lambda>x. k = plen x) ts)"
  by (induction ts rule: rev_induct) (auto simp: Push_facts)

text \<open>Pushing tasks one after the other gives the stable sort of the tasks by path length: \<open>Pop\<close>
  takes a shortest path, and of equal ones the first that was pushed.\<close>

theorem Push_sorts: "foldl pq_Push [] ts = sort_key (\<lambda>t. length (tkPath t)) ts"
proof -
  have "sort_key plen ts = foldl pq_Push [] ts"
    using Push_all_facts[of ts] by (intro properties_for_sort_key) auto
  then show ?thesis by (simp add: plen_def[abs_def])
qed

lemma queue_before_iff:
  "queue_before a b \<longleftrightarrow> ptPriority a < ptPriority b \<or>
     (ptPriority a = ptPriority b \<and> TaskKey (ptPath a) [] < TaskKey (ptPath b) [])"
  using cmp_path_order[of "ptPath a" "ptPath b"]
  by (auto simp: queue_before_def tpy_Compare_def NewTaskPriority_def less_task_key_def task_key_before_def)

lemma queue_before_trans: "\<not> queue_before b a \<Longrightarrow> \<not> queue_before c b \<Longrightarrow> \<not> queue_before c a"
  by (auto simp: queue_before_iff not_less)

lemma queue_before_asym: "queue_before a b \<Longrightarrow> \<not> queue_before b a"
  by (auto simp: queue_before_iff)

lemma queue_insert_mset: "mset (queue_insert t us) = add_mset t (mset us)"
  by (induction us) auto

lemma queue_insert_sorted:
  "sorted_wrt (\<lambda>a b. \<not> queue_before b a) us \<Longrightarrow> sorted_wrt (\<lambda>a b. \<not> queue_before b a) (queue_insert t us)"
proof (induction us)
  case (Cons u us)
  have "set (queue_insert t us) = insert t (set us)"
    using queue_insert_mset[of t us] by (metis set_mset_add_mset_insert set_mset_mset)
  with Cons queue_before_asym[of u t] show ?case
    by (auto dest: queue_before_trans[of u t])
qed simp

lemma queue_sort_facts:
  "mset (queue_sort q) = mset q \<and> sorted_wrt (\<lambda>a b. \<not> queue_before b a) (queue_sort q)"
  by (induction q) (auto simp: queue_sort_def queue_insert_mset queue_insert_sorted)

text \<open>\<open>GetNextPriorityTask\<close> takes a task that no other queued task precedes (by priority, then
  path length, then path), removes exactly that task, and gives nothing only for an empty queue.\<close>

theorem GetNextPriorityTask_least:
  "case GetNextPriorityTask e of
     (None, e') \<Rightarrow> oeQueue e = [] \<and> e' = e
   | (Some t, e') \<Rightarrow> mset (oeQueue e) = add_mset t (mset (oeQueue e')) \<and> (\<forall>u \<in> set (oeQueue e'). \<not> queue_before u t)"
proof (cases "queue_sort (oeQueue e)")
  case Nil
  with queue_sort_facts[of "oeQueue e"] show ?thesis by (simp add: GetNextPriorityTask_def)
next
  case (Cons t ts)
  with queue_sort_facts[of "oeQueue e"] show ?thesis by (auto simp: GetNextPriorityTask_def)
qed

section \<open>Dependencies\<close>

text \<open>\<open>IsTaskReady\<close> looks at the wrong side of a dependency: after ``\<open>a\<close> depends on \<open>b\<close>'' on a fresh
  engine, \<open>a\<close> is ready at once and \<open>b\<close> waits until \<open>a\<close> has finished.\<close>

theorem IsTaskReady_inverted:
  assumes "a \<noteq> b"
  shows "IsTaskReady (AddTaskDependency a b (NewPregelOptimizedEngine base cfg)) a \<and>
    \<not> IsTaskReady (AddTaskDependency a b (NewPregelOptimizedEngine base cfg)) b \<and>
    (\<forall>step updated. IsTaskReady (BumpStep a step updated (AddTaskDependency a b (NewPregelOptimizedEngine base cfg))) b)"
  using assms by (simp add: IsTaskReady_def AddTaskDependency_def NewPregelOptimizedEngine_def BumpStep_def Let_def)

theorem IsTaskReady_inverted_witness:
  "\<not> IsTaskReady (AddTaskDependency ''a'' ''b'' (NewPregelOptimizedEngine (NewEngine (NewStateGraph SchemaNil) []) None)) ''b''"
proof -
  have "''a'' \<noteq> ''b''" by simp
  from IsTaskReady_inverted[OF this] show ?thesis by blast
qed

lemma bump_one_queue:
  "fmlookup_default [] (oeStepQueue (bump_one step upd d e)) (step + 1) =
     fmlookup_default [] (oeStepQueue e) (step + 1) @
     (if fmlookup (oeSeen e) d = None \<or> (\<forall>c \<in> set upd. hasSeenChannel e d c) then [d] else [])"
  by (auto simp: bump_one_def hasSeenChannel_def Let_def)

lemma bump_one_seen: "d \<noteq> d' \<Longrightarrow> fmlookup (oeSeen (bump_one step upd d' e)) d = fmlookup (oeSeen e) d"
  by (simp add: bump_one_def Let_def)

lemma bump_all_queue:
  "distinct deps \<Longrightarrow> fmlookup_default [] (oeStepQueue (fold (bump_one step upd) deps e)) (step + 1) =
     fmlookup_default [] (oeStepQueue e) (step + 1) @
     filter (\<lambda>d. fmlookup (oeSeen e) d = None \<or> (\<forall>c \<in> set upd. hasSeenChannel e d c)) deps"
proof (induction deps arbitrary: e)
  case (Cons d deps)
  have "fmlookup (oeSeen (bump_one step upd d e)) d' = fmlookup (oeSeen e) d'" if "d' \<in> set deps" for d'
    using Cons.prems that by (intro bump_one_seen) auto
  then have "filter (\<lambda>d'. fmlookup (oeSeen (bump_one step upd d e)) d' = None \<or>
        (\<forall>c \<in> set upd. hasSeenChannel (bump_one step upd d e) d' c)) deps =
      filter (\<lambda>d. fmlookup (oeSeen e) d = None \<or> (\<forall>c \<in> set upd. hasSeenChannel e d c)) deps"
    by (intro filter_cong) (simp_all add: hasSeenChannel_def)
  with Cons show ?case by (simp add: bump_one_queue)
qed simp

text \<open>\<open>BumpStep\<close> queues for the next step exactly the dependents that have seen all the updated
  channels or never saw any: a dependent that has not seen the latest channels is left out.\<close>

theorem BumpStep_queue:
  assumes "distinct (GetTaskDependencies e task)"
  shows "fmlookup_default [] (oeStepQueue (BumpStep task step upd e)) (step + 1) =
    fmlookup_default [] (oeStepQueue e) (step + 1) @
    filter (\<lambda>d. fmlookup (oeSeen e) d = None \<or> (\<forall>c \<in> set upd. hasSeenChannel e d c)) (GetTaskDependencies e task)"
proof (cases "fmlookup (oeDeps e) task")
  case None
  then show ?thesis by (simp add: BumpStep_def GetTaskDependencies_def fmlookup_default_def)
next
  case (Some deps)
  let ?e = "e\<lparr>oeFinished := fmupd task True (oeFinished e)\<rparr>"
  have deps: "GetTaskDependencies e task = deps" by (simp add: GetTaskDependencies_def fmlookup_default_def Some)
  have "BumpStep task step upd e = fold (bump_one step upd) deps ?e"
    by (auto simp: BumpStep_def Some Let_def)
  moreover have "hasSeenChannel ?e = hasSeenChannel e" by (simp add: hasSeenChannel_def fun_eq_iff)
  ultimately show ?thesis using bump_all_queue[of deps step upd ?e] assms by (simp add: deps)
qed

definition demo_opt :: "unit opt_engine" where
  "demo_opt = (AddTaskDependency ''b'' ''a'' (NewPregelOptimizedEngine (NewEngine (NewStateGraph SchemaNil) []) None))
     \<lparr>oeSeen := fmupd ''b'' (fmupd ''x'' True fmempty) fmempty\<rparr>"

theorem BumpStep_queue_witness:
  "fmlookup_default [] (oeStepQueue (BumpStep ''a'' 3 [''y''] demo_opt)) 4 = []"
  using BumpStep_queue[of demo_opt "''a''" 3 "[''y'']"]
  by (simp add: demo_opt_def GetTaskDependencies_def AddTaskDependency_def NewPregelOptimizedEngine_def hasSeenChannel_def)

section \<open>Determinism of the writes\<close>

lemma group_writes_lookup:
  "distinct (map fst es) \<Longrightarrow> fmlookup (group_writes es ws) k =
     (case map_of es k of
        None \<Rightarrow> fmlookup ws k
      | Some v \<Rightarrow> (if v = VNil then fmlookup ws k else Some (fmlookup_default [] ws k @ [v])))"
proof (induction es ws rule: group_writes.induct)
  case (2 n v es ws)
  then have "map_of es n = None" "distinct (map fst es)" by (auto simp: map_of_eq_None_iff)
  with 2(1,2) show ?case by (auto split: option.splits)
qed simp

lemma group_writes_order:
  assumes "entries m es" "entries m fs"
  shows "group_writes es ws = group_writes fs ws"
proof (rule fmap_ext)
  fix k
  have "map_of es k = map_of fs k" using assms by (metis entries_def fmlookup_of_list)
  then show "fmlookup (group_writes es ws) k = fmlookup (group_writes fs ws) k"
    by (simp add: group_writes_lookup[OF entries_distinct[OF assms(1)]] group_writes_lookup[OF entries_distinct[OF assms(2)]])
qed

lemma orders_input: "orders_ok od \<Longrightarrow> entries m (ordInput od m)"
  and orders_writes: "orders_ok od \<Longrightarrow> entries ws (ordWrites od ws)"
  by (simp_all add: orders_ok_def)

lemma group_results_order:
  assumes "orders_ok od" "orders_ok od'"
  shows "group_results L od rs ws = group_results L od' rs ws"
proof (induction rs arbitrary: ws)
  case (Cons r rs)
  have "group_writes (ordInput od m) ws = group_writes (ordInput od' m) ws" for m
    by (rule group_writes_order[OF orders_input[OF assms(1)] orders_input[OF assms(2)]])
  then show ?case using Cons by (simp split: sum.split)
qed simp

lemma sort_results_unique:
  "mset rs = mset rs' \<Longrightarrow> inj_on result_key (set rs) \<Longrightarrow> sort_key result_key rs = sort_key result_key rs'"
  by (rule sort_key_inj_key_eq) simp_all

text \<open>What the loop does to a registry, per channel, and to the engine.\<close>

definition opt_ok :: "golib \<Rightarrow> registry \<Rightarrow> string \<times> gval list \<Rightarrow> bool" where
  "opt_ok L r w = (case fmlookup r (fst w) of
     None \<Rightarrow> True | Some c \<Rightarrow> \<not> isl (fst (ch_Update L c (filter (\<lambda>v. v \<noteq> VNil) (snd w)))))"

definition opt_hit :: "golib \<Rightarrow> registry \<Rightarrow> string \<times> gval list \<Rightarrow> bool" where
  "opt_hit L r w = (case fmlookup r (fst w) of
     None \<Rightarrow> False | Some c \<Rightarrow> fst (ch_Update L c (filter (\<lambda>v. v \<noteq> VNil) (snd w))) = Inr True)"

lemma opt_cong:
  "fmlookup r (fst w) = fmlookup r' (fst w) \<Longrightarrow> opt_ok L r w = opt_ok L r' w \<and> opt_hit L r w = opt_hit L r' w"
  by (simp add: opt_ok_def opt_hit_def)

definition opt_channel :: "golib \<Rightarrow> registry \<Rightarrow> string \<Rightarrow> gval list option \<Rightarrow> channel option" where
  "opt_channel L r k ovs = (case ovs of None \<Rightarrow> fmlookup r k
     | Some vs \<Rightarrow> map_option (\<lambda>c. snd (ch_Update L c (filter (\<lambda>v. v \<noteq> VNil) vs))) (fmlookup r k))"

lemma opt_loop_result:
  "distinct (map fst ws) \<Longrightarrow>
   if \<forall>w \<in> set ws. opt_ok L r w
   then \<exists>r'. opt_write_loop L e r ws u =
       (Inr (u \<union> fst ` set (filter (opt_hit L r) ws)), fold opt_updated (map fst (filter (opt_hit L r) ws)) e, r') \<and>
       (\<forall>k. fmlookup r' k = opt_channel L r k (map_of ws k))
   else isl (fst (opt_write_loop L e r ws u))"
proof (induction ws arbitrary: e r u)
  case Nil
  show ?case by (simp add: opt_channel_def)
next
  case (Cons w ws)
  obtain n vs where w: "w = (n, vs)" by (cases w)
  from Cons.prems have d: "distinct (map fst ws)" and n: "n \<notin> fst ` set ws" by (auto simp: w)
  then have mo: "map_of ws n = None" by (simp add: map_of_eq_None_iff)
  show ?case
  proof (cases "fmlookup r n")
    case None
    have "opt_ok L r (n, vs)" "\<not> opt_hit L r (n, vs)" using None by (simp_all add: opt_ok_def opt_hit_def)
    with Cons.IH[OF d, of r e u] None mo show ?thesis
      by (fastforce simp: w rg_Get_def opt_channel_def split: if_splits)
  next
    case (Some c)
    obtain res c' where up: "ch_Update L c (filter (\<lambda>v. v \<noteq> VNil) vs) = (res, c')" by fastforce
    show ?thesis
    proof (cases res)
      case (Inl err)
      with Some up show ?thesis by (auto simp: w rg_Get_def opt_ok_def)
    next
      case (Inr b)
      let ?r = "fmupd n c' r"
      have same: "opt_ok L ?r x = opt_ok L r x \<and> opt_hit L ?r x = opt_hit L r x" if "x \<in> set ws" for x
        by (rule opt_cong) (use n that in force)
      then have ok: "(\<forall>x \<in> set ws. opt_ok L ?r x) \<longleftrightarrow> (\<forall>x \<in> set ws. opt_ok L r x)"
        and hit: "filter (opt_hit L ?r) ws = filter (opt_hit L r) ws" by (auto intro: filter_cong)
      have this_ok: "opt_ok L r (n, vs)" and this_hit: "opt_hit L r (n, vs) = b"
        using Some up Inr by (simp_all add: opt_ok_def opt_hit_def)
      have chan: "opt_channel L ?r k (map_of ws k) = opt_channel L r k (map_of (w # ws) k)" for k
        using Some up mo by (auto simp: opt_channel_def w split: option.splits)
      show ?thesis
        using Cons.IH[OF d, of ?r "if b then opt_updated n e else e" "if b then insert n u else u"]
        unfolding ok hit chan using Some up Inr this_ok this_hit
        by (cases b; cases "\<forall>x \<in> set ws. opt_ok L r x") (auto simp: w rg_Get_def)
    qed
  qed
qed

lemma opt_updated_commute: "opt_updated n \<circ> opt_updated m = opt_updated m \<circ> opt_updated n"
proof (cases "n = m")
  case False
  then show ?thesis
    by (auto simp: fun_eq_iff opt_updated_def Let_def IncrementChannel_def fmupd_reorder_neq
        option.map_comp comp_def cong: option.map_cong)
qed simp

lemma opt_loop_order:
  assumes es: "entries w es" and fs: "entries w fs"
    and ok: "opt_write_loop L e r es u = (Inr upd, e', r')"
  shows "opt_write_loop L e r fs u = (Inr upd, e', r')"
proof -
  note d = entries_distinct[OF es] entries_distinct[OF fs] and se = entries_set_eq[OF es fs]
  have all: "\<forall>w \<in> set es. opt_ok L r w"
    using opt_loop_result[OF d(1), of L r e u] ok by (auto split: if_splits)
  from opt_loop_result[OF d(1), of L r e u] all ok have
    1: "upd = u \<union> fst ` set (filter (opt_hit L r) es)" "e' = fold opt_updated (map fst (filter (opt_hit L r) es)) e"
    and l1: "\<And>k. fmlookup r' k = opt_channel L r k (map_of es k)" by auto
  from opt_loop_result[OF d(2), of L r e u] all se obtain r2 where
    2: "opt_write_loop L e r fs u = (Inr (u \<union> fst ` set (filter (opt_hit L r) fs)),
          fold opt_updated (map fst (filter (opt_hit L r) fs)) e, r2)"
    and l2: "\<And>k. fmlookup r2 k = opt_channel L r k (map_of fs k)" by auto
  have "map_of es = map_of fs" using es fs by (metis entries_def fmlookup_of_list)
  with l1 l2 have "r2 = r'" by (intro fmap_ext) simp
  moreover have "mset (map fst (filter (opt_hit L r) es)) = mset (map fst (filter (opt_hit L r) fs))"
  proof -
    have "mset es = mset fs" using d se by (metis distinct_map set_eq_iff_mset_eq_distinct)
    then show ?thesis by (metis mset_filter mset_map)
  qed
  then have "fold opt_updated (map fst (filter (opt_hit L r) fs)) e = e'"
    unfolding 1(2) by (intro fun_cong[OF fold_multiset_equiv] opt_updated_commute) simp
  ultimately show ?thesis using 2 1(1) se by simp
qed


definition demo_results :: "path_result list" where
  "demo_results = [
     \<lparr>trName = ''a'', trOutput = VMap (fmupd ''t'' (VBool True) fmempty), trErr = None, trPath = [''p'']\<rparr>,
     \<lparr>trName = ''b'', trOutput = VMap (fmupd ''t'' (VBool False) fmempty), trErr = None, trPath = []\<rparr>]"

lemma demo_results_applied:
  "OptimizedApplyWrites demo_lib demo_orders (NewPregelOptimizedEngine (NewEngine (NewStateGraph SchemaNil) []) None)
     (fmupd ''t'' (ChTopic (NewTopic VNil True)) fmempty) demo_results {''u''} =
   (Inr {''t''}, opt_updated ''t'' (NewPregelOptimizedEngine (NewEngine (NewStateGraph SchemaNil) []) None),
    fmupd ''t'' (ChTopic ((NewTopic VNil True)\<lparr>tpValues := [VBool False, VBool True]\<rparr>)) fmempty)"
proof -
  have i: "ordInput demo_orders (fmupd k v fmempty) = [(k, v)]" for k v
    by (rule entries_single) (rule orders_input[OF demo_orders_ok])
  have w: "ordWrites demo_orders (fmupd k v fmempty) = [(k, v)]" for k v
    by (rule entries_single) (rule orders_writes[OF demo_orders_ok])
  have s: "sort_key result_key demo_results = rev demo_results"
    by (simp add: demo_results_def result_key_def less_eq_task_key_def less_task_key_def task_key_before_def)
  show ?thesis
    by (simp add: OptimizedApplyWrites_def s, simp add: demo_results_def toMap_def i w rg_Get_def NewTopic_def
        tp_Update_def Let_def on_snd_def NewPregelOptimizedEngine_def opt_updated_def)
qed


end
