(* ===== verification/Messages.thy ===== *)
theory Messages
  imports Values
begin

text \<open>
  Streaming of messages (\<^verbatim>\<open>pregel/messages.go\<close>): chunks of a node are merged into messages, an
  aggregator keeps the finished ones until they are flushed to the emitters. Emitters act on a
  world; the order in which the aggregator's map is visited is an argument. A nil metadata map
  is an empty one: it is only ranged over.
\<close>

section \<open>Chunks and streams\<close>

record tool_call =
  tcID :: string
  tcName :: string
  tcArguments :: gmap

record message_chunk =
  mkIndex :: nat
  mkContent :: string
  mkMetadata :: gmap
  mkIsComplete :: bool
  mkRole :: string
  mkToolCalls :: "tool_call list"

record message_stream =
  msNode :: string
  msChunks :: "message_chunk list"
  msCurrent :: "message_chunk option"
  msClosed :: bool

datatype flush_trigger = FlushOnComplete | FlushImmediate | FlushOnEnd

section \<open>The aggregator\<close>

type_synonym 'w emitter = "string \<Rightarrow> message_chunk \<Rightarrow> 'w \<Rightarrow> gerr option \<times> 'w"

record 'w aggregator =
  agMessages :: "(string, message_chunk list) fmap"
  agEmitters :: "'w emitter list"

definition NewMessageAggregator :: "'w aggregator" where
  "NewMessageAggregator = \<lparr>agMessages = fmempty, agEmitters = []\<rparr>"

definition AddMessage :: "'w aggregator \<Rightarrow> string \<Rightarrow> message_chunk \<Rightarrow> 'w aggregator" where
  "AddMessage a node c = a\<lparr>agMessages := fmupd node (fmlookup_default [] (agMessages a) node @ [c]) (agMessages a)\<rparr>"

definition ag_AddEmitter :: "'w aggregator \<Rightarrow> 'w emitter \<Rightarrow> 'w aggregator" where
  "ag_AddEmitter a em = a\<lparr>agEmitters := agEmitters a @ [em]\<rparr>"

fun emit_one :: "'w emitter list \<Rightarrow> string \<Rightarrow> message_chunk \<Rightarrow> 'w \<Rightarrow> gerr option \<times> 'w" where
  "emit_one [] node c w = (None, w)"
| "emit_one (em # ems) node c w =
     (case em node c w of (Some e, w1) \<Rightarrow> (Some e, w1) | (None, w1) \<Rightarrow> emit_one ems node c w1)"

fun emit_list :: "'w emitter list \<Rightarrow> string \<Rightarrow> message_chunk list \<Rightarrow> 'w \<Rightarrow> gerr option \<times> 'w" where
  "emit_list ems node [] w = (None, w)"
| "emit_list ems node (c # cs) w =
     (case emit_one ems node c w of (Some e, w1) \<Rightarrow> (Some e, w1) | (None, w1) \<Rightarrow> emit_list ems node cs w1)"

fun flush_loop ::
  "'w emitter list \<Rightarrow> (string \<times> message_chunk list) list \<Rightarrow> (string, message_chunk list) fmap \<Rightarrow> 'w
   \<Rightarrow> gerr option \<times> (string, message_chunk list) fmap \<times> 'w"
where
  "flush_loop ems [] msgs w = (None, msgs, w)"
| "flush_loop ems ((node, cs) # es) msgs w =
     (case emit_list ems node cs w of
        (Some e, w1) \<Rightarrow> (Some e, msgs, w1)
      | (None, w1) \<Rightarrow> flush_loop ems es (fmdrop node msgs) w1)"

type_synonym msg_order = "(string, message_chunk list) fmap \<Rightarrow> (string \<times> message_chunk list) list"

definition msg_order_ok :: "msg_order \<Rightarrow> bool" where
  "msg_order_ok od \<longleftrightarrow> (\<forall>m. entries m (od m))"

definition ag_Flush :: "msg_order \<Rightarrow> 'w aggregator \<Rightarrow> 'w \<Rightarrow> gerr option \<times> 'w aggregator \<times> 'w" where
  "ag_Flush od a w =
     (case flush_loop (agEmitters a) (od (agMessages a)) (agMessages a) w of
        (e, msgs, w1) \<Rightarrow> (e, a\<lparr>agMessages := msgs\<rparr>, w1))"

section \<open>The handler\<close>

record 'w handler =
  mhStreams :: "(string, message_stream) fmap"
  mhAggregator :: "'w aggregator"
  mhFlushTrigger :: flush_trigger

definition NewStreamMessagesHandler :: "('w handler \<Rightarrow> 'w handler) list \<Rightarrow> 'w handler" where
  "NewStreamMessagesHandler opts = foldl (\<lambda>h opt. opt h)
     \<lparr>mhStreams = fmempty, mhAggregator = NewMessageAggregator, mhFlushTrigger = FlushOnComplete\<rparr> opts"

definition WithFlushTrigger :: "flush_trigger \<Rightarrow> 'w handler \<Rightarrow> 'w handler" where
  "WithFlushTrigger t h = h\<lparr>mhFlushTrigger := t\<rparr>"

definition AddEmitter :: "'w handler \<Rightarrow> 'w emitter \<Rightarrow> 'w handler" where
  "AddEmitter h em = h\<lparr>mhAggregator := ag_AddEmitter (mhAggregator h) em\<rparr>"

definition mh_Flush :: "msg_order \<Rightarrow> 'w handler \<Rightarrow> 'w \<Rightarrow> gerr option \<times> 'w handler \<times> 'w" where
  "mh_Flush od h w = (case ag_Flush od (mhAggregator h) w of (e, a, w1) \<Rightarrow> (e, h\<lparr>mhAggregator := a\<rparr>, w1))"

definition stream_of :: "'w handler \<Rightarrow> string \<Rightarrow> message_stream" where
  "stream_of h node = (case fmlookup (mhStreams h) node of
     Some ms \<Rightarrow> ms
   | None \<Rightarrow> \<lparr>msNode = node, msChunks = [], msCurrent = None, msClosed = False\<rparr>)"

definition current_chunk :: "message_stream \<Rightarrow> message_chunk" where
  "current_chunk ms =
     (let new = \<lparr>mkIndex = length (msChunks ms), mkContent = [], mkMetadata = fmempty, mkIsComplete = False,
                 mkRole = [], mkToolCalls = []\<rparr>
      in case msCurrent ms of None \<Rightarrow> new | Some c \<Rightarrow> (if mkIsComplete c then new else c))"

definition merge_chunk :: "message_chunk \<Rightarrow> message_chunk \<Rightarrow> message_chunk" where
  "merge_chunk cur c = cur\<lparr>
     mkContent := mkContent cur @ mkContent c,
     mkMetadata := mkMetadata cur ++\<^sub>f mkMetadata c,
     mkRole := (if mkRole c \<noteq> [] then mkRole c else mkRole cur),
     mkToolCalls := mkToolCalls cur @ mkToolCalls c\<rparr>"

text \<open>A stream and the aggregator after the current message of the stream is finished.\<close>

definition finish_message :: "string \<Rightarrow> message_stream \<Rightarrow> message_chunk \<Rightarrow> 'w aggregator \<Rightarrow> message_stream \<times> 'w aggregator" where
  "finish_message node ms cur a =
     (let m = cur\<lparr>mkIsComplete := True\<rparr>
      in (ms\<lparr>msChunks := msChunks ms @ [m], msCurrent := None\<rparr>, AddMessage a node m))"

definition OnChunk ::
  "msg_order \<Rightarrow> string \<Rightarrow> message_chunk \<Rightarrow> 'w handler \<Rightarrow> 'w \<Rightarrow> gerr option \<times> 'w handler \<times> 'w" where
  "OnChunk od node c h w =
     (let ms = stream_of h node; h0 = h\<lparr>mhStreams := fmupd node ms (mhStreams h)\<rparr> in
      if msClosed ms then (Some (ErrorString (''stream for node '' @ node @ '' is closed'')), h0, w)
      else
        (let cur = merge_chunk (current_chunk ms) c in
         if mkIsComplete c then
           (case finish_message node ms cur (mhAggregator h) of (ms', a') \<Rightarrow>
              (let h' = h\<lparr>mhStreams := fmupd node ms' (mhStreams h), mhAggregator := a'\<rparr>
               in if mhFlushTrigger h = FlushOnComplete then mh_Flush od h' w else (None, h', w)))
         else
           (let h' = h\<lparr>mhStreams := fmupd node (ms\<lparr>msCurrent := Some cur\<rparr>) (mhStreams h)\<rparr>
            in if mhFlushTrigger h = FlushImmediate then mh_Flush od h' w else (None, h', w))))"

definition OnComplete :: "msg_order \<Rightarrow> string \<Rightarrow> 'w handler \<Rightarrow> 'w \<Rightarrow> gerr option \<times> 'w handler \<times> 'w" where
  "OnComplete od node h w =
     (case fmlookup (mhStreams h) node of
        None \<Rightarrow> (None, h, w)
      | Some ms \<Rightarrow>
          (if msClosed ms then (None, h, w)
           else
             (let ms1 = ms\<lparr>msClosed := True\<rparr>;
                  (ms', a') = (case msCurrent ms1 of
                      None \<Rightarrow> (ms1, mhAggregator h)
                    | Some cur \<Rightarrow> finish_message node ms1 cur (mhAggregator h));
                  h' = h\<lparr>mhStreams := fmupd node ms' (mhStreams h), mhAggregator := a'\<rparr>
              in if mhFlushTrigger h = FlushOnEnd then mh_Flush od h' w else (None, h', w))))"

definition GetMessages :: "'w handler \<Rightarrow> string \<Rightarrow> message_chunk list" where
  "GetMessages h node = (case fmlookup (mhStreams h) node of Some ms \<Rightarrow> msChunks ms | None \<Rightarrow> [])"

definition GetAllMessages :: "'w handler \<Rightarrow> (string, message_chunk list) fmap" where
  "GetAllMessages h = fmmap msChunks (mhStreams h)"

text \<open>\<open>nodes\<close> is the order in which the streams are visited.\<close>

definition mh_Close :: "msg_order \<Rightarrow> string list \<Rightarrow> 'w handler \<Rightarrow> 'w \<Rightarrow> gerr option \<times> 'w handler \<times> 'w" where
  "mh_Close od nodes h w =
     (case fold (\<lambda>n (h, w). snd (OnComplete od n h w)) nodes (h, w) of (h', w') \<Rightarrow> mh_Flush od h' w')"

text \<open>The emitter that collects into a map.\<close>

definition CollectToMap :: "(string, message_chunk list) fmap emitter" where
  "CollectToMap node c target = (None, fmupd node (fmlookup_default [] target node @ [c]) target)"

section \<open>Conversion to a task result\<close>

definition merge_all :: "message_chunk list \<Rightarrow> message_chunk" where
  "merge_all cs = foldl merge_chunk
     \<lparr>mkIndex = 0, mkContent = [], mkMetadata = fmempty, mkIsComplete = False, mkRole = [], mkToolCalls = []\<rparr> cs"

section \<open>What a stream holds\<close>

text \<open>
  The reference: the chunks of a node are cut after each complete one; a message is the
  concatenation of its group.
\<close>

fun message_groups :: "message_chunk list \<Rightarrow> message_chunk list list \<times> message_chunk list" where
  "message_groups [] = ([], [])"
| "message_groups (c # cs) =
     (case message_groups cs of (gs, rest) \<Rightarrow>
        (if mkIsComplete c then ([c] # gs, rest)
         else (case gs of [] \<Rightarrow> ([], c # rest) | g # gs' \<Rightarrow> ((c # g) # gs', rest))))"

definition group_message :: "nat \<Rightarrow> bool \<Rightarrow> message_chunk list \<Rightarrow> message_chunk" where
  "group_message i done g = \<lparr>mkIndex = i, mkContent = concat (map mkContent g),
     mkMetadata = foldl (++\<^sub>f) fmempty (map mkMetadata g), mkIsComplete = done,
     mkRole = foldl (\<lambda>r r'. if r' = [] then r else r') [] (map mkRole g),
     mkToolCalls = concat (map mkToolCalls g)\<rparr>"

definition messages_of :: "message_chunk list \<Rightarrow> message_chunk list" where
  "messages_of cs = map2 (\<lambda>i g. group_message i True g) [0..<length (fst (message_groups cs))] (fst (message_groups cs))"

lemma message_groups_snoc:
  "message_groups (cs @ [c]) =
     (case message_groups cs of (gs, rest) \<Rightarrow>
        if mkIsComplete c then (gs @ [rest @ [c]], []) else (gs, rest @ [c]))"
  by (induction cs) (auto split: list.splits prod.splits if_splits)

lemma group_message_snoc:
  "group_message i d (g @ [c]) = (merge_chunk (group_message i False g) c)\<lparr>mkIsComplete := d\<rparr>"
  by (auto simp: group_message_def merge_chunk_def)

lemma messages_of_snoc:
  "messages_of (cs @ [c]) = (if mkIsComplete c
     then messages_of cs @ [group_message (length (fst (message_groups cs))) True (snd (message_groups cs) @ [c])]
     else messages_of cs)"
  by (simp add: messages_of_def message_groups_snoc split: prod.splits)

definition open_message :: "message_chunk list \<Rightarrow> message_chunk option" where
  "open_message cs = (if snd (message_groups cs) = [] then None
     else Some (group_message (length (fst (message_groups cs))) False (snd (message_groups cs))))"

definition stream_after :: "string \<Rightarrow> message_chunk list \<Rightarrow> message_stream" where
  "stream_after node cs = \<lparr>msNode = node, msChunks = messages_of cs, msCurrent = open_message cs, msClosed = False\<rparr>"

lemma current_stream_after:
  "current_chunk (stream_after node cs) = group_message (length (fst (message_groups cs))) False (snd (message_groups cs))"
  by (auto simp: current_chunk_def stream_after_def open_message_def group_message_def messages_of_def)

lemma mh_Flush_streams: "mh_Flush od h w = (e, h', w') \<Longrightarrow> mhStreams h' = mhStreams h \<and> mhFlushTrigger h' = mhFlushTrigger h"
  by (auto simp: mh_Flush_def split: prod.splits)

lemma OnChunk_stream:
  assumes "stream_of h node = stream_after node cs" "OnChunk od node c h w = (e, h', w')"
  shows "mhStreams h' = fmupd node (stream_after node (cs @ [c])) (mhStreams h)"
proof -
  have cl: "\<not> msClosed (stream_after node cs)" by (simp add: stream_after_def)
  have cur: "(merge_chunk (current_chunk (stream_after node cs)) c) =
      group_message (length (fst (message_groups cs))) False (snd (message_groups cs) @ [c])"
    by (simp add: current_stream_after group_message_snoc) (simp add: merge_chunk_def group_message_def)
  show ?thesis
  proof (cases "mkIsComplete c")
    case True
    then have "stream_after node (cs @ [c]) = (stream_after node cs)\<lparr>msChunks := messages_of cs @
        [(group_message (length (fst (message_groups cs))) False (snd (message_groups cs) @ [c]))\<lparr>mkIsComplete := True\<rparr>],
        msCurrent := None\<rparr>"
      by (simp add: stream_after_def messages_of_snoc open_message_def message_groups_snoc split: prod.splits)
        (simp add: group_message_def)
    with assms cl cur True show ?thesis
      by (auto simp: OnChunk_def Let_def finish_message_def split: if_splits dest!: mh_Flush_streams)
        (auto simp: stream_after_def)
  next
    case False
    then have "stream_after node (cs @ [c]) = (stream_after node cs)\<lparr>msCurrent :=
        Some (group_message (length (fst (message_groups cs))) False (snd (message_groups cs) @ [c]))\<rparr>"
      by (simp add: stream_after_def messages_of_snoc open_message_def message_groups_snoc split: prod.splits)
    with assms cl cur False show ?thesis
      by (auto simp: OnChunk_def Let_def split: if_splits dest!: mh_Flush_streams)
  qed
qed

text \<open>Chunks of several nodes, in any interleaving.\<close>

definition receive :: "msg_order \<Rightarrow> (string \<times> message_chunk) list \<Rightarrow> 'w handler \<times> 'w \<Rightarrow> 'w handler \<times> 'w" where
  "receive od calls = fold (\<lambda>(n, c) (h, w). snd (OnChunk od n c h w)) calls"

definition chunks_of :: "string \<Rightarrow> (string \<times> message_chunk) list \<Rightarrow> message_chunk list" where
  "chunks_of n calls = map snd (filter (\<lambda>x. fst x = n) calls)"

lemma receive_streams:
  assumes "mhStreams h0 = fmempty"
  shows "stream_of (fst (receive od calls (h0, w0))) n = stream_after n (chunks_of n calls)"
proof (induction calls arbitrary: n rule: rev_induct)
  case Nil
  show ?case using assms
    by (simp add: receive_def stream_of_def chunks_of_def stream_after_def messages_of_def open_message_def)
next
  case (snoc x calls)
  obtain m c where x: "x = (m, c)" by (cases x)
  obtain h w where r: "receive od calls (h0, w0) = (h, w)" by fastforce
  obtain e h' w' where o: "OnChunk od m c h w = (e, h', w')" by (metis prod_cases3)
  have "mhStreams h' = fmupd m (stream_after m (chunks_of m calls @ [c])) (mhStreams h)"
    by (rule OnChunk_stream[OF _ o]) (use snoc.IH[of m] r in simp)
  with snoc.IH[of n] r o show ?case
    by (auto simp: receive_def x stream_of_def chunks_of_def)
qed

lemma GetMessages_stream: "GetMessages h n = msChunks (stream_of h n)"
  by (simp add: GetMessages_def stream_of_def split: option.splits)

text \<open>Whatever the interleaving of the nodes, the trigger and the emitters (failing ones too), the
  messages of a node are its own chunks, cut after each complete one and merged in order.\<close>

theorem messages_merged:
  "GetMessages (fst (receive od calls
       (\<lparr>mhStreams = fmempty, mhAggregator = \<lparr>agMessages = fmempty, agEmitters = ems\<rparr>, mhFlushTrigger = trig\<rparr>, w))) n
   = messages_of (chunks_of n calls)"
  by (simp add: GetMessages_stream receive_streams stream_after_def)

section \<open>Delivery\<close>

text \<open>The emitter that records what it is given.\<close>

definition record_emitter :: "(string \<times> message_chunk) list emitter" where
  "record_emitter n c w = (None, w @ [(n, c)])"

lemma emit_list_record: "emit_list [record_emitter] n cs w = (None, w @ map (Pair n) cs)"
  by (induction cs arbitrary: w) (auto simp: record_emitter_def)

lemma chunks_of_append [simp]: "chunks_of n (xs @ ys) = chunks_of n xs @ chunks_of n ys"
  by (simp add: chunks_of_def)

lemma chunks_of_Pair: "chunks_of n (map (Pair m) cs) = (if m = n then cs else [])"
  by (induction cs) (auto simp: chunks_of_def)

lemma flush_loop_record:
  "distinct (map fst es) \<Longrightarrow> \<exists>msgs' w'. flush_loop [record_emitter] es msgs w = (None, msgs', w') \<and>
     (\<forall>n. fmlookup msgs' n = (if n \<in> fst ` set es then None else fmlookup msgs n)) \<and>
     (\<forall>n. chunks_of n w' = chunks_of n w @ (case map_of es n of Some cs \<Rightarrow> cs | None \<Rightarrow> []))"
proof (induction es arbitrary: msgs w)
  case (Cons p es)
  obtain m cs where p: "p = (m, cs)" by (cases p)
  from Cons.prems have d: "distinct (map fst es)" and m: "map_of es m = None"
    by (auto simp: p map_of_eq_None_iff)
  from Cons.IH[OF d, of "fmdrop m msgs" "w @ map (Pair m) cs"] m show ?case
    by (fastforce simp: p emit_list_record chunks_of_Pair split: option.splits)
qed simp

text \<open>Nothing is lost and nothing is told twice: what was recorded, then what waits, is what the stream holds.\<close>

definition delivered :: "(string \<times> message_chunk) list handler \<times> (string \<times> message_chunk) list \<Rightarrow> bool" where
  "delivered s \<longleftrightarrow> agEmitters (mhAggregator (fst s)) = [record_emitter] \<and>
     (\<forall>n. chunks_of n (snd s) @ fmlookup_default [] (agMessages (mhAggregator (fst s))) n = GetMessages (fst s) n)"

lemma Flush_delivers:
  assumes "msg_order_ok od" "delivered (h, w)"
    and "mh_Flush od h w = (e, h', w')"
  shows "e = None \<and> delivered (h', w') \<and> mhStreams h' = mhStreams h \<and> agMessages (mhAggregator h') = fmempty"
proof -
  let ?msgs = "agMessages (mhAggregator h)"
  have od: "entries ?msgs (od ?msgs)" using assms(1) by (simp add: msg_order_ok_def)
  from flush_loop_record[OF entries_distinct[OF od], of ?msgs w] obtain msgs' v where
    f: "flush_loop [record_emitter] (od ?msgs) ?msgs w = (None, msgs', v)" and
    m: "\<And>n. fmlookup msgs' n = (if n \<in> fst ` set (od ?msgs) then None else fmlookup ?msgs n)" and
    v: "\<And>n. chunks_of n v = chunks_of n w @ (case map_of (od ?msgs) n of Some cs \<Rightarrow> cs | None \<Rightarrow> [])" by blast
  have mo: "map_of (od ?msgs) n = fmlookup ?msgs n" for n
    using od unfolding entries_def by (metis fmlookup_of_list)
  have "msgs' = fmempty"
    by (rule fmap_ext) (use m entries_keys[OF od] in \<open>auto simp: fmlookup_dom'_iff\<close>)
  with f v mo assms(2,3) show ?thesis
    by (auto simp: mh_Flush_def ag_Flush_def delivered_def GetMessages_def fmlookup_default_def)
qed

lemma finish_delivered:
  assumes "delivered (h, w)" "finish_message n ms cur (mhAggregator h) = (ms', a')"
    and "msChunks ms = GetMessages h n"
  shows "delivered (h\<lparr>mhStreams := fmupd n ms' (mhStreams h), mhAggregator := a'\<rparr>, w)"
  using assms by (auto simp: delivered_def finish_message_def AddMessage_def GetMessages_def Let_def)

lemma silent_delivered:
  "delivered (h, w) \<Longrightarrow> msChunks ms' = GetMessages h n \<Longrightarrow> delivered (h\<lparr>mhStreams := fmupd n ms' (mhStreams h)\<rparr>, w)"
  by (auto simp: delivered_def GetMessages_def)

lemma OnChunk_delivered:
  assumes "msg_order_ok od" "delivered (h, w)" "OnChunk od n c h w = (e, h', w')"
  shows "delivered (h', w')"
proof -
  note ms = GetMessages_stream[of h n, symmetric]
  obtain ms' a' where f: "finish_message n (stream_of h n) (merge_chunk (current_chunk (stream_of h n)) c) (mhAggregator h) = (ms', a')"
    by fastforce
  note d = finish_delivered[OF assms(2) f ms]
    silent_delivered[OF assms(2), of "(stream_of h n)\<lparr>msCurrent := Some (merge_chunk (current_chunk (stream_of h n)) c)\<rparr>" n]
    silent_delivered[OF assms(2), of "stream_of h n" n]
  show ?thesis
    using assms(3) d ms
    by (auto simp: OnChunk_def Let_def f split: if_splits dest: Flush_delivers[OF assms(1)])
qed

lemma OnComplete_delivered:
  assumes "msg_order_ok od" "delivered (h, w)" "OnComplete od n h w = (e, h', w')"
  shows "delivered (h', w')"
proof (cases "fmlookup (mhStreams h) n")
  case None
  with assms show ?thesis by (simp add: OnComplete_def)
next
  case (Some ms)
  then have ms: "msChunks (ms\<lparr>msClosed := True\<rparr>) = GetMessages h n" by (simp add: GetMessages_def)
  show ?thesis
  proof (cases "msCurrent ms")
    case None
    with assms(2,3) Some silent_delivered[OF assms(2) ms] show ?thesis
      by (auto simp: OnComplete_def Let_def split: if_splits dest: Flush_delivers[OF assms(1)])
  next
    case cur: (Some cur)
    obtain ms' a' where f: "finish_message n (ms\<lparr>msClosed := True\<rparr>) cur (mhAggregator h) = (ms', a')" by fastforce
    with assms(2,3) Some cur finish_delivered[OF assms(2) f ms] show ?thesis
      by (auto simp: OnComplete_def Let_def split: if_splits dest: Flush_delivers[OF assms(1)])
  qed
qed

datatype msg_call = MsgChunk string message_chunk | MsgComplete string | MsgFlush

definition msg_step ::
  "msg_order \<Rightarrow> msg_call \<Rightarrow> 'w handler \<times> 'w \<Rightarrow> 'w handler \<times> 'w" where
  "msg_step od call s = (case s of (h, w) \<Rightarrow> (case call of
     MsgChunk n c \<Rightarrow> snd (OnChunk od n c h w)
   | MsgComplete n \<Rightarrow> snd (OnComplete od n h w)
   | MsgFlush \<Rightarrow> snd (mh_Flush od h w)))"

lemma msg_step_delivered:
  assumes "msg_order_ok od" "delivered s"
  shows "delivered (msg_step od call s)"
proof -
  obtain h w where s: "s = (h, w)" by fastforce
  obtain e h' w' where
    st: "(case call of MsgChunk n c \<Rightarrow> OnChunk od n c h w | MsgComplete n \<Rightarrow> OnComplete od n h w
        | MsgFlush \<Rightarrow> mh_Flush od h w) = (e, h', w')" by (metis prod_cases3)
  have d: "delivered (h, w)" using assms(2) by (simp add: s)
  have "delivered (h', w')"
  proof (cases call)
    case (MsgChunk n c)
    with st have "OnChunk od n c h w = (e, h', w')" by simp
    then show ?thesis by (rule OnChunk_delivered[OF assms(1) d])
  next
    case (MsgComplete n)
    with st have "OnComplete od n h w = (e, h', w')" by simp
    then show ?thesis by (rule OnComplete_delivered[OF assms(1) d])
  next
    case MsgFlush
    with st have "mh_Flush od h w = (e, h', w')" by simp
    then show ?thesis using Flush_delivers[OF assms(1) d] by blast
  qed
  with st show ?thesis by (cases call) (auto simp: s msg_step_def)
qed


definition demo_chunk :: "bool \<Rightarrow> string \<Rightarrow> message_chunk" where
  "demo_chunk done text = \<lparr>mkIndex = 0, mkContent = text, mkMetadata = fmempty, mkIsComplete = done, mkRole = [],
     mkToolCalls = []\<rparr>"


text \<open>\<open>FlushImmediate\<close> tells nothing at once: the chunk that finishes a message does not flush, so the
  message waits for the next incomplete chunk or a call of \<open>Flush\<close>.\<close>

theorem FlushImmediate_waits:
  assumes "mkIsComplete c" "mhFlushTrigger h = FlushImmediate" "\<not> msClosed (stream_of h n)"
  shows "\<exists>h' m. OnChunk od n c h w = (None, h', w) \<and> GetMessages h' n = GetMessages h n @ [m] \<and>
    fmlookup_default [] (agMessages (mhAggregator h')) n = fmlookup_default [] (agMessages (mhAggregator h)) n @ [m]"
  using assms by (simp add: OnChunk_def finish_message_def Let_def GetMessages_stream) (simp add: stream_of_def AddMessage_def)

definition demo_handler :: "unit handler" where
  "demo_handler = WithFlushTrigger FlushImmediate (NewStreamMessagesHandler [])"

theorem FlushImmediate_waits_witness:
  "\<exists>h' m. OnChunk sorted_list_of_fmap ''n'' (demo_chunk True ''a'') demo_handler () = (None, h', ()) \<and>
     GetMessages h' ''n'' = GetMessages demo_handler ''n'' @ [m] \<and>
     fmlookup_default [] (agMessages (mhAggregator h')) ''n'' =
       fmlookup_default [] (agMessages (mhAggregator demo_handler)) ''n'' @ [m]"
  by (rule FlushImmediate_waits)
    (simp_all add: demo_handler_def demo_chunk_def WithFlushTrigger_def NewStreamMessagesHandler_def stream_of_def)

text \<open>A flush that fails keeps all messages of the node it failed on, those it has told already too.\<close>

lemma Flush_failure_keeps:
  "flush_loop ems es msgs w = (Some e, msgs', w') \<Longrightarrow> \<exists>n cs. (n, cs) \<in> set es \<and>
     (distinct (map fst es) \<longrightarrow> fmlookup msgs' n = fmlookup msgs n)"
proof (induction ems es msgs w rule: flush_loop.induct)
  case (2 ems node cs es msgs w)
  show ?case
  proof (cases "emit_list ems node cs w")
    case (Pair r w1)
    show ?thesis
    proof (cases r)
      case None
      with 2 Pair obtain n ds where "(n, ds) \<in> set es"
        "distinct (map fst es) \<longrightarrow> fmlookup msgs' n = fmlookup (fmdrop node msgs) n" by auto
      then show ?thesis by (intro exI[of _ n] exI[of _ ds]) (auto, metis fst_conv image_eqI)
    next
      case (Some x)
      with 2 Pair show ?thesis by auto
    qed
  qed
qed simp

end
