(* ===== verification/Store.thy ===== *)
theory Store
  imports Values
begin

text \<open>
  The in-memory store of \<^verbatim>\<open>store/memory.go\<close>: namespaced values with times to live, search, batches,
  namespace listing and the sweep of expired entries. Copies of values are the values; all
  readings of the clock in one operation are one argument. Embedding vectors, float arithmetic,
  regular expressions, Unicode lower case and the comparison of pointers are parameters;
  \<^verbatim>\<open>sort.Slice\<close> is taken as stable.
\<close>

section \<open>State and parameters\<close>

record store_lib =
  slFloats :: "gval \<Rightarrow> float64 list option"
  slLess :: "float64 \<Rightarrow> float64 \<Rightarrow> bool"
  slEq :: "float64 \<Rightarrow> float64 \<Rightarrow> bool"
  slDiv :: "float64 \<Rightarrow> float64 \<Rightarrow> float64"
  slSqrt :: "float64 \<Rightarrow> float64"
  slLess64 :: "gval \<Rightarrow> gval \<Rightarrow> bool"
  slEqOther :: "gval \<Rightarrow> gval \<Rightarrow> bool option"
  slRegex :: "string \<Rightarrow> string \<Rightarrow> bool option"
  slLower :: "string \<Rightarrow> string"

record index_config =
  icDims :: int
  icEmbed :: gval
  icFields :: "string list"

type_synonym ns_data = "(string, gmap) fmap"

record mem_store =
  stData :: "(string, ns_data) fmap"
  stTTL :: "(string, int) fmap"
  stIndexes :: "(string, (string, float64 list) fmap) fmap"
  stConfigs :: "(string, index_config) fmap"
  stClosed :: bool

text \<open>The orders in which maps are visited.\<close>

record store_orders =
  soData :: "ns_data \<Rightarrow> (string \<times> gmap) list"
  soVals :: "gmap \<Rightarrow> (string \<times> gval) list"
  soTTL :: "(string, int) fmap \<Rightarrow> (string \<times> int) list"
  soSpaces :: "string list set \<Rightarrow> string list list"
  soIndex :: "(string, float64 list) fmap \<Rightarrow> (string \<times> float64 list) list"

definition store_orders_ok :: "store_orders \<Rightarrow> bool" where
  "store_orders_ok od \<longleftrightarrow> (\<forall>m. entries m (soData od m)) \<and> (\<forall>m. entries m (soVals od m)) \<and>
     (\<forall>m. entries m (soTTL od m)) \<and> (\<forall>m. entries m (soIndex od m)) \<and>
     (\<forall>S. finite S \<longrightarrow> set (soSpaces od S) = S \<and> distinct (soSpaces od S))"

text \<open>What a call comes to: a result, an error, a panic, or it never returns.\<close>

datatype 'a outcome = Ok 'a | Err gerr | Panic | Blocked

definition closed_error :: gerr where
  "closed_error = StoreError ''store is closed'' []"

definition NewInMemoryStore :: mem_store where
  "NewInMemoryStore = \<lparr>stData = fmempty, stTTL = fmempty, stIndexes = fmempty, stConfigs = fmempty, stClosed = False\<rparr>"

definition nsKey :: "string list \<Rightarrow> string" where
  "nsKey ns = join_with CHR ''|'' ns"

definition fullKey :: "string \<Rightarrow> string \<Rightarrow> string" where
  "fullKey ns key = ns @ '':'' @ key"

definition checkTTL :: "int \<Rightarrow> mem_store \<Rightarrow> string \<Rightarrow> bool" where
  "checkTTL now s fk = (case fmlookup (stTTL s) fk of Some expiry \<Rightarrow> now < expiry | None \<Rightarrow> True)"

section \<open>Filters\<close>

fun str_contains :: "string \<Rightarrow> string \<Rightarrow> bool" where
  "str_contains s t \<longleftrightarrow> take (length t) s = t \<or> (case s of [] \<Rightarrow> False | c # cs \<Rightarrow> str_contains cs t)"

declare str_contains.simps [simp del]

fun query_loop :: "store_lib \<Rightarrow> (string \<times> gval) list \<Rightarrow> string \<Rightarrow> bool" where
  "query_loop S [] q = False"
| "query_loop S ((k, v) # es) q = (case v of
     VStr s \<Rightarrow> (if str_contains (slLower S s) (slLower S q) then True else query_loop S es q)
   | _ \<Rightarrow> query_loop S es q)"

definition matchQuery :: "store_lib \<Rightarrow> store_orders \<Rightarrow> gmap \<Rightarrow> string \<Rightarrow> bool" where
  "matchQuery S od v q = query_loop S (soVals od v) q"

text \<open>
  \<open>a == b\<close> on interface values: values of different types differ, two slices or two maps panic
  (\<open>None\<close>).
\<close>

definition st_equal :: "store_lib \<Rightarrow> gval \<Rightarrow> gval \<Rightarrow> bool option" where
  "st_equal S a b =
     (if type_name a \<noteq> type_name b then Some False
      else (case a of
         VNil \<Rightarrow> Some (b = VNil)
       | VMissing \<Rightarrow> Some (b = VMissing)
       | VBool x \<Rightarrow> Some (b = VBool x)
       | VInt x \<Rightarrow> Some (b = VInt x)
       | VStr x \<Rightarrow> Some (b = VStr x)
       | VFloat x \<Rightarrow> (case b of VFloat y \<Rightarrow> Some (slEq S x y) | _ \<Rightarrow> Some False)
       | VBytes _ \<Rightarrow> None
       | VList _ \<Rightarrow> None
       | VMap _ \<Rightarrow> None
       | VBoolMap _ \<Rightarrow> None
       | VIntMap _ \<Rightarrow> None
       | VIntMapMap _ \<Rightarrow> None
       | VMapList _ \<Rightarrow> None
       | _ \<Rightarrow> slEqOther S a b))"

definition greaterThan :: "store_lib \<Rightarrow> gval \<Rightarrow> gval \<Rightarrow> bool" where
  "greaterThan S a b = (case (a, b) of
     (VInt x, VInt y) \<Rightarrow> y <s x
   | (VFloat x, VFloat y) \<Rightarrow> slLess S y x
   | (VStr x, VStr y) \<Rightarrow> y < x
   | (VOther t n, VOther u m) \<Rightarrow> t = ''int64'' \<and> u = ''int64'' \<and> slLess64 S b a
   | _ \<Rightarrow> False)"

definition lessThan :: "store_lib \<Rightarrow> gval \<Rightarrow> gval \<Rightarrow> bool" where
  "lessThan S a b = (case (a, b) of
     (VInt x, VInt y) \<Rightarrow> x <s y
   | (VFloat x, VFloat y) \<Rightarrow> slLess S x y
   | (VStr x, VStr y) \<Rightarrow> x < y
   | (VOther t n, VOther u m) \<Rightarrow> t = ''int64'' \<and> u = ''int64'' \<and> slLess64 S a b
   | _ \<Rightarrow> False)"

fun in_loop :: "store_lib \<Rightarrow> gval \<Rightarrow> gval list \<Rightarrow> bool option" where
  "in_loop S v [] = Some False"
| "in_loop S v (x # xs) = (case st_equal S v x of None \<Rightarrow> None | Some True \<Rightarrow> Some True | Some False \<Rightarrow> in_loop S v xs)"

definition inArray :: "store_lib \<Rightarrow> gval \<Rightarrow> gval \<Rightarrow> bool option" where
  "inArray S v arr = (case arr of VList xs \<Rightarrow> in_loop S v xs | _ \<Rightarrow> Some False)"

definition regexMatch :: "store_lib \<Rightarrow> gval \<Rightarrow> gval \<Rightarrow> bool" where
  "regexMatch S v p = (case (v, p) of
     (VStr s, VStr pat) \<Rightarrow> (case slRegex S pat s of None \<Rightarrow> False | Some b \<Rightarrow> b)
   | _ \<Rightarrow> False)"

definition st_compare :: "store_lib \<Rightarrow> gval \<Rightarrow> string \<Rightarrow> gval \<Rightarrow> bool option" where
  "st_compare S v op x =
     (if op = ''$eq'' then st_equal S v x
      else if op = ''$ne'' then map_option Not (st_equal S v x)
      else if op = ''$gt'' then Some (greaterThan S v x)
      else if op = ''$gte'' then (if greaterThan S v x then Some True else st_equal S v x)
      else if op = ''$lt'' then Some (lessThan S v x)
      else if op = ''$lte'' then (if lessThan S v x then Some True else st_equal S v x)
      else if op = ''$in'' then inArray S v x
      else if op = ''$nin'' then map_option Not (inArray S v x)
      else if op = ''$regex'' then Some (regexMatch S v x)
      else Some False)"

fun ops_loop :: "store_lib \<Rightarrow> gval \<Rightarrow> (string \<times> gval) list \<Rightarrow> bool option" where
  "ops_loop S v [] = Some True"
| "ops_loop S v ((op, x) # es) = (case st_compare S v op x of
     None \<Rightarrow> None | Some False \<Rightarrow> Some False | Some True \<Rightarrow> ops_loop S v es)"

fun filter_loop :: "store_lib \<Rightarrow> store_orders \<Rightarrow> gmap \<Rightarrow> (string \<times> gval) list \<Rightarrow> bool option" where
  "filter_loop S od val [] = Some True"
| "filter_loop S od val ((field, cond) # es) =
     (case fmlookup val field of
        None \<Rightarrow> Some False
      | Some v \<Rightarrow>
          (case (case cond of VMap m \<Rightarrow> ops_loop S v (soVals od m) | _ \<Rightarrow> st_compare S v ''$eq'' cond) of
             None \<Rightarrow> None | Some False \<Rightarrow> Some False | Some True \<Rightarrow> filter_loop S od val es))"

definition matchFilter :: "store_lib \<Rightarrow> store_orders \<Rightarrow> gmap \<Rightarrow> gmap \<Rightarrow> bool option" where
  "matchFilter S od val flt = filter_loop S od val (soVals od flt)"

section \<open>Single operations\<close>

definition visible :: "int \<Rightarrow> mem_store \<Rightarrow> string \<Rightarrow> string \<Rightarrow> gmap option" where
  "visible now s ns key = (case fmlookup (stData s) ns of
     None \<Rightarrow> None
   | Some nd \<Rightarrow> (if \<not> checkTTL now s (fullKey ns key) then None else fmlookup nd key))"

definition st_Get :: "int \<Rightarrow> mem_store \<Rightarrow> string list \<Rightarrow> string \<Rightarrow> gmap option outcome" where
  "st_Get now s ns key = (if stClosed s then Err closed_error else Ok (visible now s (nsKey ns) key))"

definition put_data :: "string \<Rightarrow> string \<Rightarrow> gmap \<Rightarrow> mem_store \<Rightarrow> mem_store" where
  "put_data ns key v s =
     s\<lparr>stData := fmupd ns (fmupd key v (case fmlookup (stData s) ns of Some nd \<Rightarrow> nd | None \<Rightarrow> fmempty)) (stData s)\<rparr>"

definition st_Put :: "mem_store \<Rightarrow> string list \<Rightarrow> string \<Rightarrow> gmap \<Rightarrow> unit outcome \<times> mem_store" where
  "st_Put s ns key v = (if stClosed s then (Err closed_error, s) else (Ok (), put_data (nsKey ns) key v s))"

definition st_Delete :: "mem_store \<Rightarrow> string list \<Rightarrow> string \<Rightarrow> unit outcome \<times> mem_store" where
  "st_Delete s ns key =
     (if stClosed s then (Err closed_error, s)
      else (case fmlookup (stData s) (nsKey ns) of
         None \<Rightarrow> (Ok (), s)
       | Some nd \<Rightarrow> (Ok (), s\<lparr>stData := fmupd (nsKey ns) (fmdrop key nd) (stData s),
                             stTTL := fmdrop (fullKey (nsKey ns) key) (stTTL s)\<rparr>)))"

definition SetTTL :: "int \<Rightarrow> mem_store \<Rightarrow> string list \<Rightarrow> string \<Rightarrow> int \<Rightarrow> unit outcome \<times> mem_store" where
  "SetTTL now s ns key ttl =
     (if stClosed s then (Err closed_error, s)
      else if ttl \<le> 0 then (Ok (), s)
      else (Ok (), s\<lparr>stTTL := fmupd (fullKey (nsKey ns) key) (now + ttl) (stTTL s)\<rparr>))"

record item =
  itValue :: gmap
  itKey :: string
  itNamespace :: "string list"
  itCreatedAt :: int
  itUpdatedAt :: int
  itExpiresAt :: "int option"

definition make_item :: "int \<Rightarrow> mem_store \<Rightarrow> string list \<Rightarrow> string \<Rightarrow> gmap \<Rightarrow> item" where
  "make_item now s ns key v = \<lparr>itValue = v, itKey = key, itNamespace = ns, itCreatedAt = now, itUpdatedAt = now,
     itExpiresAt = fmlookup (stTTL s) (fullKey (nsKey ns) key)\<rparr>"

definition GetItem :: "int \<Rightarrow> mem_store \<Rightarrow> string list \<Rightarrow> string \<Rightarrow> item option outcome" where
  "GetItem now s ns key = (if stClosed s then Err closed_error
     else Ok (map_option (make_item now s ns key) (visible now s (nsKey ns) key)))"

datatype index_arg = IndexNil | IndexConf index_config | IndexFields "string list" | IndexBool bool | IndexOther

fun embedding_loop :: "store_lib \<Rightarrow> gmap \<Rightarrow> string list \<Rightarrow> float64 list option" where
  "embedding_loop S v [] = None"
| "embedding_loop S v (f # fs) = (case Option.bind (fmlookup v f) (slFloats S) of
     Some emb \<Rightarrow> Some emb | None \<Rightarrow> embedding_loop S v fs)"

definition put_index :: "store_lib \<Rightarrow> string \<Rightarrow> string \<Rightarrow> gmap \<Rightarrow> index_arg \<Rightarrow> mem_store \<Rightarrow> mem_store" where
  "put_index S ns key v index s = (case index of
     IndexConf cfg \<Rightarrow>
       (let s1 = s\<lparr>stConfigs := fmupd ns cfg (stConfigs s)\<rparr> in
        if icEmbed cfg \<noteq> VNil \<and> length (icFields cfg) > 0 then
          (case embedding_loop S v (icFields cfg) of
             None \<Rightarrow> s1
           | Some emb \<Rightarrow> s1\<lparr>stIndexes := fmupd ns (fmupd key emb
               (case fmlookup (stIndexes s1) ns of Some m \<Rightarrow> m | None \<Rightarrow> fmempty)) (stIndexes s1)\<rparr>)
        else s1)
   | IndexFields fs \<Rightarrow> (if length fs > 0
       then s\<lparr>stConfigs := fmupd ns \<lparr>icDims = 0, icEmbed = VNil, icFields = fs\<rparr> (stConfigs s)\<rparr> else s)
   | IndexBool b \<Rightarrow> (if b
       then s\<lparr>stConfigs := fmupd ns \<lparr>icDims = 0, icEmbed = VNil, icFields = [''embedding'']\<rparr> (stConfigs s)\<rparr> else s)
   | _ \<Rightarrow> s)"

definition put_ttl :: "int \<Rightarrow> string \<Rightarrow> int option \<Rightarrow> mem_store \<Rightarrow> mem_store" where
  "put_ttl now fk ttl s = (case ttl of None \<Rightarrow> s | Some t \<Rightarrow> s\<lparr>stTTL := fmupd fk (now + t) (stTTL s)\<rparr>)"

definition PutItem ::
  "store_lib \<Rightarrow> int \<Rightarrow> mem_store \<Rightarrow> string list \<Rightarrow> string \<Rightarrow> gmap \<Rightarrow> index_arg \<Rightarrow> int option \<Rightarrow> unit outcome \<times> mem_store"
where
  "PutItem S now s ns key v index ttl =
     (if stClosed s then (Err closed_error, s)
      else (Ok (), put_index S (nsKey ns) key v index
              (put_ttl now (fullKey (nsKey ns) key) ttl (put_data (nsKey ns) key v s))))"

section \<open>Searching\<close>

text \<open>
  The loops of \<open>Search\<close>, \<open>List\<close> and the others: entries that pass are collected until there are
  \<open>limit\<close> of them; \<open>None\<close> is a panic of the test.
\<close>

fun collect_loop :: "('a \<Rightarrow> bool option) \<Rightarrow> int \<Rightarrow> 'a list \<Rightarrow> 'a list \<Rightarrow> 'a list option" where
  "collect_loop P limit [] acc = Some acc"
| "collect_loop P limit (x # xs) acc = (case P x of
     None \<Rightarrow> None
   | Some False \<Rightarrow> collect_loop P limit xs acc
   | Some True \<Rightarrow> (if limit > 0 \<and> int (length (acc @ [x])) \<ge> limit then Some (acc @ [x])
                   else collect_loop P limit xs (acc @ [x])))"

definition apply_offset :: "int \<Rightarrow> 'a list \<Rightarrow> 'a list" where
  "apply_offset offset xs = (if offset > 0 \<and> offset < int (length xs) then drop (nat offset) xs else xs)"

definition st_Search ::
  "store_lib \<Rightarrow> store_orders \<Rightarrow> int \<Rightarrow> mem_store \<Rightarrow> string list \<Rightarrow> string \<Rightarrow> int \<Rightarrow> gmap list option outcome" where
  "st_Search S od now s ns q limit =
     (if stClosed s then Err closed_error
      else (case fmlookup (stData s) (nsKey ns) of
         None \<Rightarrow> Ok None
       | Some nd \<Rightarrow>
           (case collect_loop (\<lambda>(k, v). Some (checkTTL now s (fullKey (nsKey ns) k) \<and> (q = [] \<or> matchQuery S od v q)))
                   limit (soData od nd) [] of
              None \<Rightarrow> Panic | Some es \<Rightarrow> Ok (Some (map snd es)))))"

definition st_List :: "store_orders \<Rightarrow> int \<Rightarrow> mem_store \<Rightarrow> string list \<Rightarrow> int \<Rightarrow> string list option outcome" where
  "st_List od now s ns limit =
     (if stClosed s then Err closed_error
      else (case fmlookup (stData s) (nsKey ns) of
         None \<Rightarrow> Ok None
       | Some nd \<Rightarrow>
           (case collect_loop (\<lambda>(k, v). Some (checkTTL now s (fullKey (nsKey ns) k))) limit (soData od nd) [] of
              None \<Rightarrow> Panic | Some es \<Rightarrow> Ok (Some (map fst es)))))"

definition item_passes ::
  "store_lib \<Rightarrow> store_orders \<Rightarrow> int \<Rightarrow> mem_store \<Rightarrow> string \<Rightarrow> string option \<Rightarrow> gmap option \<Rightarrow> string \<times> gmap \<Rightarrow> bool option"
where
  "item_passes S od now s ns q flt e = (case e of (k, v) \<Rightarrow>
     if \<not> checkTTL now s (fullKey ns k) then Some False
     else if (case q of Some t \<Rightarrow> t \<noteq> [] \<and> \<not> matchQuery S od v t | None \<Rightarrow> False) then Some False
     else (case flt of None \<Rightarrow> Some True | Some f \<Rightarrow> matchFilter S od v f))"

fun dot_loop :: "golib \<Rightarrow> float64 list \<Rightarrow> float64 list \<Rightarrow> float64 \<times> float64 \<times> float64 \<Rightarrow> float64 \<times> float64 \<times> float64" where
  "dot_loop L (a # as) (b # bs) (d, na, nb) =
     dot_loop L as bs (fadd L d (fmul L a b), fadd L na (fmul L a a), fadd L nb (fmul L b b))"
| "dot_loop L _ _ acc = acc"

definition cosineSimilarity :: "golib \<Rightarrow> store_lib \<Rightarrow> float64 list \<Rightarrow> float64 list \<Rightarrow> float64" where
  "cosineSimilarity L S a b =
     (if length a \<noteq> length b \<or> length a = 0 then 0
      else (case dot_loop L a b (0, 0, 0) of (dot, na, nb) \<Rightarrow>
        if slEq S na 0 \<or> slEq S nb 0 then 0
        else slDiv S dot (fmul L (slSqrt S na) (slSqrt S nb))))"

record search_item =
  siItem :: item
  siScore :: "float64 option"

fun score_insert :: "store_lib \<Rightarrow> item \<times> float64 \<Rightarrow> (item \<times> float64) list \<Rightarrow> (item \<times> float64) list" where
  "score_insert S x [] = [x]"
| "score_insert S x (y # ys) = (if slLess S (snd x) (snd y) then y # score_insert S x ys else x # y # ys)"

fun score_loop ::
  "golib \<Rightarrow> store_lib \<Rightarrow> int \<Rightarrow> mem_store \<Rightarrow> string \<Rightarrow> float64 list \<Rightarrow> (string \<times> float64 list) list \<Rightarrow> (item \<times> float64) list"
where
  "score_loop L S now s ns q [] = []"
| "score_loop L S now s ns q ((k, emb) # es) = (case visible now s ns k of
     None \<Rightarrow> score_loop L S now s ns q es
   | Some v \<Rightarrow> (make_item now s (split_on CHR ''|'' ns) k v, cosineSimilarity L S q emb) # score_loop L S now s ns q es)"

definition searchByEmbedding ::
  "golib \<Rightarrow> store_lib \<Rightarrow> store_orders \<Rightarrow> int \<Rightarrow> mem_store \<Rightarrow> string \<Rightarrow> float64 list \<Rightarrow> int \<Rightarrow> search_item list option"
where
  "searchByEmbedding L S od now s ns q limit = (case fmlookup (stIndexes s) ns of
     None \<Rightarrow> None
   | Some idx \<Rightarrow>
       (let sorted = foldr (score_insert S) (score_loop L S now s ns q (soIndex od idx)) [];
            cut = (if limit > 0 \<and> limit < int (length sorted) then take (nat limit) sorted else sorted)
        in Some (map (\<lambda>(it, sc). \<lparr>siItem = it, siScore = Some sc\<rparr>) cut)))"

definition SearchItems ::
  "golib \<Rightarrow> store_lib \<Rightarrow> store_orders \<Rightarrow> int \<Rightarrow> mem_store \<Rightarrow> string list \<Rightarrow> string option \<Rightarrow> gmap option
   \<Rightarrow> int \<Rightarrow> int \<Rightarrow> search_item list option outcome"
where
  "SearchItems L S od now s ns q flt limit offset =
     (if stClosed s then Err closed_error
      else (case Option.bind (Option.bind flt (\<lambda>f. fmlookup f ''$embedding'')) (slFloats S) of
         Some emb \<Rightarrow> Ok (map_option (apply_offset offset) (searchByEmbedding L S od now s (nsKey ns) emb limit))
       | None \<Rightarrow>
           (case fmlookup (stData s) (nsKey ns) of
              None \<Rightarrow> Ok None
            | Some nd \<Rightarrow>
                (case collect_loop (item_passes S od now s (nsKey ns) q flt) limit (soData od nd) [] of
                   None \<Rightarrow> Panic
                 | Some es \<Rightarrow> Ok (Some (apply_offset offset
                     (map (\<lambda>(k, v). \<lparr>siItem = make_item now s ns k v, siScore = None\<rparr>) es)))))))"

section \<open>Namespaces\<close>

datatype match_type = MatchPrefix | MatchSuffix | MatchOther string

fun match_conditions :: "string list \<Rightarrow> (match_type \<times> string list) list \<Rightarrow> bool" where
  "match_conditions ns [] = False"
| "match_conditions ns ((t, path) # cs) = (case t of
     MatchPrefix \<Rightarrow> (if length ns < length path then False else take (length path) ns = path)
   | MatchSuffix \<Rightarrow> (if length ns < length path then False else drop (length ns - length path) ns = path)
   | MatchOther _ \<Rightarrow> match_conditions ns cs)"

definition matchNamespaceConditions :: "string list \<Rightarrow> (match_type \<times> string list) list \<Rightarrow> bool" where
  "matchNamespaceConditions ns cs = (if length cs = 0 then True else match_conditions ns cs)"

definition all_spaces :: "mem_store \<Rightarrow> string list set" where
  "all_spaces s = (\<Union>k \<in> fmdom' (stData s). (\<lambda>i. take i (split_on CHR ''|'' k)) ` {1..length (split_on CHR ''|'' k)})"

definition ListNamespaces ::
  "store_orders \<Rightarrow> mem_store \<Rightarrow> (match_type \<times> string list) list \<Rightarrow> int option \<Rightarrow> int \<Rightarrow> int \<Rightarrow> string list list outcome"
where
  "ListNamespaces od s cs maxDepth limit offset =
     (if stClosed s then Err closed_error
      else
        (let f1 = filter (\<lambda>ns. matchNamespaceConditions ns cs) (soSpaces od (all_spaces s));
             f2 = (case maxDepth of None \<Rightarrow> f1 | Some d \<Rightarrow> filter (\<lambda>ns. int (length ns) \<le> d) f1)
         in if offset > int (length f2) then Panic
            else (let f3 = (if offset > 0 then drop (nat offset) f2 else f2)
                  in Ok (if limit > 0 \<and> limit < int (length f3) then take (nat limit) f3 else f3))))"

section \<open>Batches\<close>

datatype store_op =
    GetOp "string list" string bool
  | PutOp "string list" string gmap "int option"
  | SearchOp "string list" "gmap option" int int "string option" bool
  | ListNamespacesOp "(match_type \<times> string list) list" "int option" int int
  | OtherOp

datatype op_value = RNil | RValue gmap | RList "gmap list"

text \<open>
  \<open>Batch\<close> holds the write lock; \<open>ListNamespaces\<close> then waits for the read lock for ever.
\<close>

fun batch_op ::
  "store_lib \<Rightarrow> store_orders \<Rightarrow> int \<Rightarrow> store_op \<Rightarrow> mem_store \<Rightarrow> (op_value \<times> gerr option) outcome \<times> mem_store" where
  "batch_op S od now (GetOp ns key rf) s =
     (Ok (case visible now s (nsKey ns) key of None \<Rightarrow> RNil | Some v \<Rightarrow> RValue v, None), s)"
| "batch_op S od now (PutOp ns key v ttl) s =
     (Ok (RNil, None), put_ttl now (fullKey (nsKey ns) key) ttl (put_data (nsKey ns) key v s))"
| "batch_op S od now (SearchOp ns flt limit offset q rf) s =
     (case fmlookup (stData s) (nsKey ns) of
        None \<Rightarrow> (Ok (RNil, None), s)
      | Some nd \<Rightarrow>
          (case collect_loop (item_passes S od now s (nsKey ns) q flt) limit (soData od nd) [] of
             None \<Rightarrow> (Panic, s)
           | Some es \<Rightarrow> (Ok (RList (apply_offset offset (map snd es)), None), s)))"
| "batch_op S od now (ListNamespacesOp cs d limit offset) s = (Blocked, s)"
| "batch_op S od now OtherOp s = (Ok (RNil, Some (StoreError ''unknown operation type'' [])), s)"

fun batch_loop ::
  "store_lib \<Rightarrow> store_orders \<Rightarrow> int \<Rightarrow> store_op list \<Rightarrow> mem_store \<Rightarrow> (op_value \<times> gerr option) list outcome \<times> mem_store" where
  "batch_loop S od now [] s = (Ok [], s)"
| "batch_loop S od now (p # ps) s =
     (case batch_op S od now p s of
        (Ok x, s1) \<Rightarrow> (case batch_loop S od now ps s1 of
            (Ok xs, s2) \<Rightarrow> (Ok (x # xs), s2) | (res, s2) \<Rightarrow> (res, s2))
      | (Err e, s1) \<Rightarrow> (Err e, s1)
      | (Panic, s1) \<Rightarrow> (Panic, s1)
      | (Blocked, s1) \<Rightarrow> (Blocked, s1))"

definition st_Batch ::
  "store_lib \<Rightarrow> store_orders \<Rightarrow> int \<Rightarrow> store_op list \<Rightarrow> mem_store \<Rightarrow> (op_value \<times> gerr option) list outcome \<times> mem_store" where
  "st_Batch S od now ops s = (if stClosed s then (Err closed_error, s) else batch_loop S od now ops s)"

definition BatchPut :: "(string list \<times> string \<times> gmap) list \<Rightarrow> mem_store \<Rightarrow> unit outcome \<times> mem_store" where
  "BatchPut ops s = (if stClosed s then (Err closed_error, s)
     else (Ok (), fold (\<lambda>(ns, key, v). put_data (nsKey ns) key v) ops s))"

section \<open>Clearing, closing, sweeping\<close>

definition st_Clear :: "mem_store \<Rightarrow> mem_store" where
  "st_Clear s = s\<lparr>stData := fmempty, stTTL := fmempty\<rparr>"

definition st_Close :: "mem_store \<Rightarrow> mem_store" where
  "st_Close s = s\<lparr>stClosed := True\<rparr>"

text \<open>One entry of the sweep.\<close>

definition drop_entry :: "string \<Rightarrow> mem_store \<Rightarrow> mem_store" where
  "drop_entry fk s = (case split_on CHR '':'' fk of
     [ns, key] \<Rightarrow>
       (case fmlookup (stData s) ns of
          None \<Rightarrow> s
        | Some nd \<Rightarrow> (let nd' = fmdrop key nd in
            s\<lparr>stData := (if flen nd' = 0 then fmdrop ns (stData s) else fmupd ns nd' (stData s))\<rparr>))
   | _ \<Rightarrow> s)"

definition clean_indexes :: "string \<Rightarrow> mem_store \<Rightarrow> mem_store" where
  "clean_indexes fk s = (let m = fmmap (fmdrop fk) (stIndexes s) in
     s\<lparr>stIndexes := fmfilter (\<lambda>ns. flen (fmlookup_default fmempty m ns) \<noteq> 0) m\<rparr>)"

fun sweep_loop :: "int \<Rightarrow> (string \<times> int) list \<Rightarrow> mem_store \<Rightarrow> mem_store" where
  "sweep_loop now [] s = s"
| "sweep_loop now ((fk, expiry) # es) s =
     (if now > expiry
      then sweep_loop now es (clean_indexes fk ((drop_entry fk s)\<lparr>stTTL := fmdrop fk (stTTL s)\<rparr>))
      else sweep_loop now es s)"

definition cleanupExpired :: "store_orders \<Rightarrow> int \<Rightarrow> mem_store \<Rightarrow> mem_store" where
  "cleanupExpired od now s = sweep_loop now (soTTL od (stTTL s)) s"

section \<open>Writing and reading\<close>

text \<open>What a store of entries promises the callers of its put: the last put of a live entry wins.\<close>

locale last_put =
  fixes look :: "'s \<Rightarrow> 'k \<Rightarrow> 'v option" and put :: "'k \<Rightarrow> 'v \<Rightarrow> 's \<Rightarrow> 's" and live :: "'s \<Rightarrow> 'k \<Rightarrow> bool"
  assumes look_put: "live s k \<Longrightarrow> look (put k' v s) k = (if k' = k then Some v else look s k)"
    and live_put: "live (put k' v s) k = live s k"
begin

lemma look_puts:
  "live s k \<Longrightarrow> look (fold (\<lambda>(k, v). put k v) kvs s) k =
     (case map_of (rev kvs) k of Some v \<Rightarrow> Some v | None \<Rightarrow> look s k)"
proof (induction kvs arbitrary: s)
  case (Cons p kvs)
  obtain k' v where p: "p = (k', v)" by (cases p)
  from Cons.prems have "live (put k' v s) k" by (simp add: live_put)
  from Cons.IH[OF this] Cons.prems show ?case
    by (auto simp: p look_put map_add_def split: option.splits)
qed simp

end

definition store_look :: "int \<Rightarrow> mem_store \<Rightarrow> string \<times> string \<Rightarrow> gmap option" where
  "store_look now s p = visible now s (fst p) (snd p)"

definition store_put :: "string \<times> string \<Rightarrow> gmap \<Rightarrow> mem_store \<Rightarrow> mem_store" where
  "store_put p v s = put_data (fst p) (snd p) v s"

definition store_live :: "int \<Rightarrow> mem_store \<Rightarrow> string \<times> string \<Rightarrow> bool" where
  "store_live now s p = checkTTL now s (fullKey (fst p) (snd p))"

lemma checkTTL_put [simp]: "checkTTL now (put_data ns k v s) fk = checkTTL now s fk"
  by (simp add: checkTTL_def put_data_def)

definition stored :: "mem_store \<Rightarrow> string \<Rightarrow> string \<Rightarrow> gmap option" where
  "stored s ns k = Option.bind (fmlookup (stData s) ns) (\<lambda>nd. fmlookup nd k)"

lemma visible_stored: "visible now s ns k = (if checkTTL now s (fullKey ns k) then stored s ns k else None)"
  by (auto simp: visible_def stored_def split: option.splits)

lemma stored_put: "stored (put_data ns k v s) ns' k' = (if ns' = ns \<and> k' = k then Some v else stored s ns' k')"
  by (auto simp: stored_def put_data_def split: option.splits)

lemma visible_put:
  "visible now (put_data ns k v s) ns' k' =
     (if ns' = ns \<and> k' = k then (if checkTTL now s (fullKey ns k) then Some v else None) else visible now s ns' k')"
  by (simp add: visible_stored stored_put)

lemma store_put_simps [simp]:
  "stTTL (store_put p v s) = stTTL s" "stClosed (store_put p v s) = stClosed s"
  by (simp_all add: store_put_def put_data_def)

interpretation store: last_put "store_look now" store_put "store_live now" for now
proof
  fix s k k' v
  assume "store_live now s k"
  then show "store_look now (store_put k' v s) k = (if k' = k then Some v else store_look now s k)"
    by (cases k; cases k') (auto simp: store_live_def store_look_def store_put_def visible_put)
next
  fix k' v s k
  show "store_live now (store_put k' v s) k = store_live now s k"
    by (simp add: store_live_def checkTTL_def)
qed

lemma nsKey_inj:
  assumes "ns \<noteq> []" "ns' \<noteq> []" "\<forall>p \<in> set ns. CHR ''|'' \<notin> set p" "\<forall>p \<in> set ns'. CHR ''|'' \<notin> set p"
  shows "nsKey ns = nsKey ns' \<longleftrightarrow> ns = ns'"
  using split_on_join[OF assms(1,3)] split_on_join[OF assms(2,4)] unfolding nsKey_def by metis

definition plain_space :: "string list \<Rightarrow> bool" where
  "plain_space ns \<longleftrightarrow> ns \<noteq> [] \<and> (\<forall>p \<in> set ns. CHR ''|'' \<notin> set p)"

lemma BatchPut_fold:
  "fold (\<lambda>(ns, key, v). put_data (nsKey ns) key v) ops s =
   fold (\<lambda>(p, v). store_put p v) (map (\<lambda>(ns, key, v). ((nsKey ns, key), v)) ops) s"
  by (induction ops arbitrary: s) (auto simp: store_put_def)

lemma map_of_rev_ops:
  assumes "\<forall>(ns, key, v) \<in> set ops. plain_space ns" "plain_space ns"
  shows "map_of (rev (map (\<lambda>(ns, key, v). ((nsKey ns, key), v)) ops)) (nsKey ns, key) =
    map_of (rev (map (\<lambda>(ns, key, v). ((ns, key), v)) ops)) (ns, key)"
  using assms
proof (induction ops)
  case (Cons p ops)
  obtain ns' k' v where p: "p = (ns', k', v)" by (metis prod_cases3)
  from Cons.prems have "nsKey ns' = nsKey ns \<longleftrightarrow> ns' = ns"
    by (intro nsKey_inj) (auto simp: p plain_space_def)
  with Cons show ?case by (auto simp: p map_add_def split: option.splits)
qed simp

text \<open>After a batch of puts, a key whose time to live is not over holds the last value the batch
  put under it, and every other key what it held; namespaces are plain (no empty one, no bar in a
  part). A key whose time to live is over stays invisible, although it was just written.\<close>

theorem puts_then_get:
  assumes "BatchPut ops s = (Ok (), s')" "\<forall>(ns, key, v) \<in> set ops. plain_space ns" "plain_space ns"
  shows "st_Get now s' ns key =
    (if checkTTL now s (fullKey (nsKey ns) key)
     then (case map_of (rev (map (\<lambda>(ns, key, v). ((ns, key), v)) ops)) (ns, key) of
        Some v \<Rightarrow> Ok (Some v) | None \<Rightarrow> st_Get now s ns key)
     else Ok None)"
proof -
  from assms(1) have s': "\<not> stClosed s" "s' = fold (\<lambda>(p, v). store_put p v) (map (\<lambda>(ns, key, v). ((nsKey ns, key), v)) ops) s"
    by (auto simp: BatchPut_def BatchPut_fold split: if_splits)
  have keep: "stTTL (fold (\<lambda>(p, v). store_put p v) xs s) = stTTL s \<and> stClosed (fold (\<lambda>(p, v). store_put p v) xs s) = stClosed s" for xs
    by (rule fold_invariant) auto
  show ?thesis
  proof (cases "checkTTL now s (fullKey (nsKey ns) key)")
    case True
    then have "store_live now s (nsKey ns, key)" by (simp add: store_live_def)
    from store.look_puts[OF this, of "map (\<lambda>(ns, key, v). ((nsKey ns, key), v)) ops"] True s' keep
    show ?thesis
      by (simp add: st_Get_def store_look_def map_of_rev_ops[OF assms(2,3)] split: option.splits)
  next
    case False
    then have "\<not> checkTTL now s' (fullKey (nsKey ns) key)" using keep by (simp add: s'(2) checkTTL_def)
    then show ?thesis using s' keep False by (simp add: st_Get_def visible_def split: option.splits)
  qed
qed

theorem puts_then_get_witness:
  "let s = (NewInMemoryStore\<lparr>stTTL := fmupd ''n:old'' 5 fmempty\<rparr>);
       s' = snd (BatchPut [([''n''], ''k'', fmempty), ([''n''], ''old'', fmempty), ([''n''], ''k'', fmupd ''x'' VNil fmempty)] s)
   in st_Get 7 s' [''n''] ''k'' = Ok (Some (fmupd ''x'' VNil fmempty)) \<and> st_Get 7 s' [''n''] ''old'' = Ok None"
proof -
  let ?s = "NewInMemoryStore\<lparr>stTTL := fmupd ''n:old'' 5 fmempty\<rparr>"
  let ?ops = "[([''n''], ''k'', fmempty), ([''n''], ''old'', fmempty), ([''n''], ''k'', fmupd ''x'' VNil fmempty)]"
  have b: "BatchPut ?ops ?s = (Ok (), snd (BatchPut ?ops ?s))" by (simp add: BatchPut_def NewInMemoryStore_def)
  show ?thesis
    using puts_then_get[OF b, of "[''n'']" 7 "''k''"] puts_then_get[OF b, of "[''n'']" 7 "''old''"]
    by (simp add: plain_space_def checkTTL_def fullKey_def nsKey_def Let_def del: fold.simps)
qed

section \<open>Sweeping\<close>

lemma drop_entry_stored:
  "stored (drop_entry fk s) ns k = (if split_on CHR '':'' fk = [ns, k] then None else stored s ns k)"
proof (cases "\<exists>a b. split_on CHR '':'' fk = [a, b]")
  case True
  then obtain a b where ab: "split_on CHR '':'' fk = [a, b]" by blast
  show ?thesis
  proof (cases "fmlookup (stData s) a")
    case None
    then show ?thesis by (auto simp: drop_entry_def ab stored_def)
  next
    case (Some nd)
    have "fmlookup nd k = None" if "fmdrop b nd = fmempty" "b \<noteq> k"
      using that by (metis fmempty_lookup fmlookup_drop)
    with Some show ?thesis by (cases "a = ns") (auto simp: drop_entry_def ab stored_def Let_def)
  qed
next
  case False
  then show ?thesis by (auto simp: drop_entry_def split: list.splits)
qed

lemma clean_indexes_simps [simp]:
  "stored (clean_indexes fk s) = stored s" "stTTL (clean_indexes fk s) = stTTL s"
  by (simp_all add: clean_indexes_def stored_def fun_eq_iff Let_def)

lemma drop_entry_TTL [simp]: "stTTL (drop_entry fk s) = stTTL s"
  by (auto simp: drop_entry_def Let_def split: list.splits option.splits)

lemma stored_TTL [simp]: "stored (s\<lparr>stTTL := t\<rparr>) = stored s"
  by (simp add: stored_def fun_eq_iff)

lemma sweep_loop_result:
  "stored (sweep_loop now es s) ns k =
     (if \<exists>fk x. (fk, x) \<in> set es \<and> now > x \<and> split_on CHR '':'' fk = [ns, k] then None else stored s ns k) \<and>
   fmlookup (stTTL (sweep_loop now es s)) g =
     (if \<exists>x. (g, x) \<in> set es \<and> now > x then None else fmlookup (stTTL s) g)"
  by (induction now es s rule: sweep_loop.induct) (auto simp: drop_entry_stored)

lemma split_fullKey:
  "CHR '':'' \<notin> set ns \<Longrightarrow> CHR '':'' \<notin> set k \<Longrightarrow> split_on CHR '':'' (fullKey ns k) = [ns, k]"
  by (simp add: fullKey_def split_on_append split_on_free)

lemma split_two: "split_on CHR '':'' fk = [ns, k] \<Longrightarrow> fk = fullKey ns k \<and> CHR '':'' \<notin> set ns \<and> CHR '':'' \<notin> set k"
  using join_split_on[of "CHR '':''" fk] split_on_parts_free[of _ "CHR '':''" fk] by (auto simp: fullKey_def)

lemma orders_ttl: "store_orders_ok od \<Longrightarrow> (fk, x) \<in> set (soTTL od t) \<longleftrightarrow> fmlookup t fk = Some x"
  by (simp add: store_orders_ok_def entries_mem)

lemma sweep_result:
  assumes "store_orders_ok od"
  shows "stored (cleanupExpired od now s) ns k =
      (if \<exists>x. fmlookup (stTTL s) (fullKey ns k) = Some x \<and> now > x \<and> CHR '':'' \<notin> set ns \<and> CHR '':'' \<notin> set k
       then None else stored s ns k)"
    and "fmlookup (stTTL (cleanupExpired od now s)) fk =
      (if \<exists>x. fmlookup (stTTL s) fk = Some x \<and> now > x then None else fmlookup (stTTL s) fk)"
proof -
  have "(\<exists>fk x. fmlookup (stTTL s) fk = Some x \<and> now > x \<and> split_on CHR '':'' fk = [ns, k]) \<longleftrightarrow>
      (\<exists>x. fmlookup (stTTL s) (fullKey ns k) = Some x \<and> now > x \<and> CHR '':'' \<notin> set ns \<and> CHR '':'' \<notin> set k)"
    using split_two split_fullKey by blast
  then show "stored (cleanupExpired od now s) ns k =
      (if \<exists>x. fmlookup (stTTL s) (fullKey ns k) = Some x \<and> now > x \<and> CHR '':'' \<notin> set ns \<and> CHR '':'' \<notin> set k
       then None else stored s ns k)"
    using sweep_loop_result[of now "soTTL od (stTTL s)" s ns k] by (simp add: cleanupExpired_def orders_ttl[OF assms])
  show "fmlookup (stTTL (cleanupExpired od now s)) fk =
      (if \<exists>x. fmlookup (stTTL s) fk = Some x \<and> now > x then None else fmlookup (stTTL s) fk)"
    using sweep_loop_result[of now "soTTL od (stTTL s)" s] by (simp add: cleanupExpired_def orders_ttl[OF assms])
qed

text \<open>The sweep does not change what a caller sees, then or later, under a namespace and a key
  without a colon.\<close>

theorem sweep_invisible:
  assumes "store_orders_ok od" "now \<le> later" "CHR '':'' \<notin> set (nsKey ns)" "CHR '':'' \<notin> set key"
  shows "st_Get later (cleanupExpired od now s) ns key = st_Get later s ns key"
proof -
  have "stClosed (cleanupExpired od now s) = stClosed s"
  proof -
    have "stClosed (sweep_loop now es s) = stClosed s" for es
      by (induction now es s rule: sweep_loop.induct)
        (auto simp: clean_indexes_def drop_entry_def Let_def split: list.splits option.splits)
    then show ?thesis by (simp add: cleanupExpired_def)
  qed
  with assms show ?thesis
    by (auto simp: st_Get_def visible_stored sweep_result[OF assms(1)] checkTTL_def split: option.splits)
qed

definition demo_store_orders :: store_orders where
  "demo_store_orders = \<lparr>soData = sorted_list_of_fmap, soVals = sorted_list_of_fmap, soTTL = sorted_list_of_fmap,
     soSpaces = sorted_list_of_set, soIndex = sorted_list_of_fmap\<rparr>"

lemma demo_store_orders_ok [simp]: "store_orders_ok demo_store_orders"
  by (simp add: store_orders_ok_def demo_store_orders_def entries_sorted)

definition demo_store :: mem_store where
  "demo_store = NewInMemoryStore\<lparr>stData := fmupd ''n'' (fmupd ''a:b'' fmempty (fmupd ''k'' fmempty fmempty)) fmempty,
     stTTL := fmupd ''n:a:b'' 5 (fmupd ''n:k'' 5 fmempty)\<rparr>"

theorem sweep_invisible_witness:
  "st_Get 8 (cleanupExpired demo_store_orders 7 demo_store) [''n''] ''k'' = Ok None"
  using sweep_invisible[of demo_store_orders 7 8 "[''n'']" "''k''" demo_store]
  by (simp add: nsKey_def) (simp add: st_Get_def visible_def demo_store_def NewInMemoryStore_def checkTTL_def fullKey_def nsKey_def)

text \<open>The sweep brings expired entries back: an entry whose key (or namespace) contains a colon
  loses its time to live but not its value, and is visible again.\<close>

theorem sweep_revives:
  assumes "store_orders_ok od" "fmlookup (stTTL s) (fullKey ns key) = Some x" "x < now"
    and "stored s ns key = Some v" "CHR '':'' \<in> set ns \<or> CHR '':'' \<in> set key"
  shows "visible now s ns key = None \<and> visible now (cleanupExpired od now s) ns key = Some v"
  using assms by (auto simp: visible_stored sweep_result[OF assms(1)] checkTTL_def)

theorem sweep_revives_witness:
  "visible 7 demo_store ''n'' ''a:b'' = None \<and>
   visible 7 (cleanupExpired demo_store_orders 7 demo_store) ''n'' ''a:b'' = Some fmempty"
  by (rule sweep_revives[where x = 5]) (simp_all add: demo_store_def NewInMemoryStore_def fullKey_def stored_def)

section \<open>Pages\<close>

lemma collect_loop_length:
  "limit > 0 \<Longrightarrow> collect_loop P limit xs acc = Some ys \<Longrightarrow> int (length acc) < limit \<Longrightarrow> int (length ys) \<le> limit"
  by (induction P limit xs acc rule: collect_loop.induct) (auto split: option.splits bool.splits if_splits)

lemma apply_offset_short: "int (length xs) \<le> offset \<Longrightarrow> apply_offset offset xs = xs"
  by (simp add: apply_offset_def)

lemma apply_offset_0 [simp]: "apply_offset 0 xs = xs"
  by (simp add: apply_offset_def)

lemma searchByEmbedding_length:
  "limit > 0 \<Longrightarrow> searchByEmbedding L S od now s ns q limit = Some xs \<Longrightarrow> int (length xs) \<le> limit"
  by (auto simp: searchByEmbedding_def Let_def split: option.splits)

text \<open>\<open>SearchItems\<close> cannot page: it stops at \<open>limit\<close> matches before it skips \<open>offset\<close> of them, and an
  offset that is not less than what it has found is ignored, so with an offset of at least the
  limit it returns the first page again.\<close>

theorem first_page_again:
  assumes "limit > 0" "offset \<ge> limit"
  shows "SearchItems L S od now s ns q flt limit offset = SearchItems L S od now s ns q flt limit 0"
proof -
  have "map_option (apply_offset offset) (searchByEmbedding L S od now s (nsKey ns) emb limit)
      = map_option (apply_offset 0) (searchByEmbedding L S od now s (nsKey ns) emb limit)" for emb
  proof (cases "searchByEmbedding L S od now s (nsKey ns) emb limit")
    case (Some xs)
    from searchByEmbedding_length[OF assms(1) this] assms(2) show ?thesis by (simp add: Some apply_offset_short)
  qed simp
  moreover have "apply_offset offset (map f es) = map f es"
    if "collect_loop P limit xs [] = Some es" for f :: "_ \<Rightarrow> search_item" and P xs es
    using collect_loop_length[OF assms(1) that] assms by (intro apply_offset_short) simp
  ultimately show ?thesis
    by (auto simp: SearchItems_def split: option.splits)
qed

definition demo_slib :: store_lib where
  "demo_slib = \<lparr>slFloats = (\<lambda>v. None), slLess = (<), slEq = (=), slDiv = (\<lambda>x y. x), slSqrt = (\<lambda>x. x),
     slLess64 = (\<lambda>a b. False), slEqOther = (\<lambda>a b. Some (a = b)), slRegex = (\<lambda>p s. None), slLower = (\<lambda>s. s)\<rparr>"

theorem first_page_again_witness:
  "SearchItems demo_lib demo_slib demo_store_orders 1 demo_store [''n''] None None 1 1 =
   SearchItems demo_lib demo_slib demo_store_orders 1 demo_store [''n''] None None 1 0"
  by (rule first_page_again) simp_all

section \<open>Batches and single operations\<close>

text \<open>A batch that lists namespaces never returns: \<open>Batch\<close> holds the write lock while
  \<open>ListNamespaces\<close> waits for the read lock (unless a search before it panics).\<close>

theorem batch_blocks:
  assumes "ListNamespacesOp cs d limit offset \<in> set ops" "\<not> stClosed s"
  shows "fst (st_Batch S od now ops s) \<in> {Blocked, Panic}"
proof -
  have "fst (batch_loop S od now ops s) \<in> {Blocked, Panic}" for s
    using assms(1)
  proof (induction ops arbitrary: s)
    case (Cons p ps)
    show ?case
    proof (cases "p = ListNamespacesOp cs d limit offset")
      case False
      with Cons have ps: "fst (batch_loop S od now ps s1) \<in> {Blocked, Panic}" for s1 by simp
      have "\<nexists>e. fst (batch_op S od now p s) = Err e"
        by (cases p) (auto split: option.splits)
      with ps show ?thesis
        by (auto split: outcome.splits prod.splits) (metis fst_conv outcome.distinct)+
    qed simp
  qed simp
  with assms(2) show ?thesis by (simp add: st_Batch_def)
qed

theorem batch_blocks_witness:
  "fst (st_Batch demo_slib demo_store_orders 1 [PutOp [''n''] ''k'' fmempty None, ListNamespacesOp [] None 0 0]
     NewInMemoryStore) \<in> {Blocked, Panic}"
  by (rule batch_blocks[where cs = "[]" and d = None and limit = 0 and offset = 0]) (simp_all add: NewInMemoryStore_def)

text \<open>The gets and puts of a batch, one by one through the single operations.\<close>

fun single_op :: "store_lib \<Rightarrow> int \<Rightarrow> store_op \<Rightarrow> mem_store \<Rightarrow> (op_value \<times> gerr option) \<times> mem_store" where
  "single_op S now (GetOp ns key rf) s =
     (case st_Get now s ns key of Ok (Some v) \<Rightarrow> ((RValue v, None), s) | _ \<Rightarrow> ((RNil, None), s))"
| "single_op S now (PutOp ns key v ttl) s = ((RNil, None), snd (PutItem S now s ns key v IndexNil ttl))"
| "single_op S now op s = ((RNil, None), s)"

fun single_ops :: "store_lib \<Rightarrow> int \<Rightarrow> store_op list \<Rightarrow> mem_store \<Rightarrow> (op_value \<times> gerr option) list \<times> mem_store" where
  "single_ops S now [] s = ([], s)"
| "single_ops S now (p # ps) s = (case single_op S now p s of (x, s1) \<Rightarrow>
     (case single_ops S now ps s1 of (xs, s2) \<Rightarrow> (x # xs, s2)))"

definition get_or_put :: "store_op \<Rightarrow> bool" where
  "get_or_put p = (case p of GetOp _ _ _ \<Rightarrow> True | PutOp _ _ _ _ \<Rightarrow> True | _ \<Rightarrow> False)"

text \<open>A batch of gets and puts on an open store gives the results of the single operations \<open>Get\<close> and
  \<open>PutItem\<close> (without an index), one after the other, and leaves the same store.\<close>

theorem batch_is_single_ops:
  assumes "\<not> stClosed s" "\<forall>p \<in> set ops. get_or_put p"
  shows "st_Batch S od now ops s = (case single_ops S now ops s of (xs, s') \<Rightarrow> (Ok xs, s'))"
proof -
  have "batch_loop S od now ops s = (case single_ops S now ops s of (xs, s') \<Rightarrow> (Ok xs, s'))"
    using assms
  proof (induction ops arbitrary: s)
    case (Cons p ps)
    have "batch_op S od now p s = (case single_op S now p s of (x, s1) \<Rightarrow> (Ok x, s1)) \<and>
        \<not> stClosed (snd (single_op S now p s))"
      using Cons.prems
      by (cases p) (auto simp: get_or_put_def st_Get_def PutItem_def put_index_def put_ttl_def put_data_def split: option.splits)
    with Cons show ?case by (auto split: prod.splits)
  qed simp
  with assms(1) show ?thesis by (simp add: st_Batch_def)
qed

theorem batch_is_single_ops_witness:
  "fst (st_Batch demo_slib demo_store_orders 1 [PutOp [''n''] ''k'' fmempty (Some 1), GetOp [''n''] ''k'' False] NewInMemoryStore)
   = Ok [(RNil, None), (RValue fmempty, None)]"
proof -
  have c: "\<not> stClosed NewInMemoryStore" by (simp add: NewInMemoryStore_def)
  have g: "\<forall>p \<in> set [PutOp [''n''] ''k'' fmempty (Some 1), GetOp [''n''] ''k'' False]. get_or_put p"
    by (simp add: get_or_put_def)
  show ?thesis
    by (subst batch_is_single_ops[OF c g])
      (simp add: st_Get_def PutItem_def put_index_def put_ttl_def visible_def put_data_def checkTTL_def NewInMemoryStore_def)
qed

end
