(* ===== verification/Message_Graph.thy ===== *)
theory Message_Graph
  imports Graph
begin

text \<open>
  Message graphs (\<^verbatim>\<open>graph/message.go\<close>): messages, the reducer that merges them by identifier,
  message states, filters, the OpenAI form, and the graph builder specialised to messages. A
  pointer to a message is the message (no nil pointers); slices are values.
\<close>

section \<open>Messages\<close>

record message =
  mID :: string
  mRole :: string
  mContent :: string
  mExtra :: gmap

definition NewMessage :: "string \<Rightarrow> string \<Rightarrow> message" where
  "NewMessage role content = \<lparr>mID = [], mRole = role, mContent = content, mExtra = fmempty\<rparr>"

definition NewMessageWithID :: "string \<Rightarrow> string \<Rightarrow> string \<Rightarrow> message" where
  "NewMessageWithID i role content = \<lparr>mID = i, mRole = role, mContent = content, mExtra = fmempty\<rparr>"

definition MessageRoleUser :: string where "MessageRoleUser = ''user''"
definition MessageRoleAssistant :: string where "MessageRoleAssistant = ''assistant''"
definition MessageRoleSystem :: string where "MessageRoleSystem = ''system''"
definition MessageRoleTool :: string where "MessageRoleTool = ''tool''"
definition MessageRoleFunction :: string where "MessageRoleFunction = ''function''"

definition HumanMessage :: "string \<Rightarrow> message" where
  "HumanMessage content = NewMessage MessageRoleUser content"

definition AIMessage :: "string \<Rightarrow> message" where
  "AIMessage content = NewMessage MessageRoleAssistant content"

definition SystemMessage :: "string \<Rightarrow> message" where
  "SystemMessage content = NewMessage MessageRoleSystem content"

definition ToolMessage :: "string \<Rightarrow> string \<Rightarrow> message" where
  "ToolMessage content toolCallID =
     (NewMessage MessageRoleTool content)\<lparr>mExtra := fmupd ''tool_call_id'' (VStr toolCallID) fmempty\<rparr>"

definition FunctionMessage :: "string \<Rightarrow> string \<Rightarrow> message" where
  "FunctionMessage content name =
     (NewMessage MessageRoleFunction content)\<lparr>mExtra := fmupd ''name'' (VStr name) fmempty\<rparr>"

text \<open>What the functions below find behind an \<open>interface{}\<close>; \<open>AnyOther\<close> is none of the others.\<close>

datatype list_elem = ElemMessage message | ElemOther gval

datatype message_any =
    AnyNil
  | AnyMessages "message list"
  | AnyMessage message
  | AnyList "list_elem list"
  | AnyOther gval

definition elem_type :: "list_elem \<Rightarrow> string" where
  "elem_type e = (case e of ElemMessage _ \<Rightarrow> ''*graph.Message'' | ElemOther v \<Rightarrow> type_name v)"

definition any_type :: "message_any \<Rightarrow> string" where
  "any_type a = (case a of
     AnyNil \<Rightarrow> ''<nil>''
   | AnyMessages _ \<Rightarrow> ''[]*graph.Message''
   | AnyMessage _ \<Rightarrow> ''*graph.Message''
   | AnyList _ \<Rightarrow> ''[]interface {}''
   | AnyOther v \<Rightarrow> type_name v)"

section \<open>The reducer\<close>

text \<open>The map of the existing messages by identifier.\<close>

fun existing_map :: "message list \<Rightarrow> (string, message) fmap \<Rightarrow> (string, message) fmap" where
  "existing_map [] m = m"
| "existing_map (x # xs) m = existing_map xs (if mID x \<noteq> [] then fmupd (mID x) x m else m)"

text \<open>The update of a message: the first one with its identifier.\<close>

fun find_update :: "string \<Rightarrow> message list \<Rightarrow> message option" where
  "find_update i [] = None"
| "find_update i (u # us) = (if mID u = i then Some u else find_update i us)"

text \<open>The loop over the existing messages; \<open>done\<close> is the set \<open>processedIDs\<close>.\<close>

fun update_loop :: "message list \<Rightarrow> message list \<Rightarrow> message list \<Rightarrow> string set \<Rightarrow> message list \<times> string set" where
  "update_loop us [] result processed = (result, processed)"
| "update_loop us (m # ms) result processed =
     (if mID m = [] then update_loop us ms (result @ [m]) processed
      else (case find_update (mID m) us of
          Some u \<Rightarrow> update_loop us ms (result @ [u]) (insert (mID m) processed)
        | None \<Rightarrow> update_loop us ms (result @ [m]) processed))"

text \<open>The loop that appends the new messages.\<close>

fun append_loop :: "(string, message) fmap \<Rightarrow> string set \<Rightarrow> message list \<Rightarrow> message list \<Rightarrow> message list" where
  "append_loop ex processed [] result = result"
| "append_loop ex processed (m # ms) result =
     (if mID m = [] then append_loop ex processed ms (result @ [m])
      else if mID m \<notin> processed \<and> fmlookup ex (mID m) = None then append_loop ex processed ms (result @ [m])
      else append_loop ex processed ms result)"

definition merge_messages :: "message list \<Rightarrow> message list \<Rightarrow> message list" where
  "merge_messages existing us =
     (case update_loop us existing [] {} of
        (result, processed) \<Rightarrow> append_loop (existing_map existing fmempty) processed us result)"

definition AddMessagesReducer :: "message_any \<Rightarrow> message_any \<Rightarrow> gerr + message list" where
  "AddMessagesReducer existing updates =
     (case (case updates of AnyMessages us \<Rightarrow> Some us | AnyMessage u \<Rightarrow> Some [u] | _ \<Rightarrow> None) of
        None \<Rightarrow> Inl (GraphError (''cannot add messages of type '' @ any_type updates) [])
      | Some us \<Rightarrow>
          (case existing of
             AnyNil \<Rightarrow> Inr us
           | AnyMessages ms \<Rightarrow> Inr (merge_messages ms us)
           | _ \<Rightarrow> Inl (GraphError (''existing messages is not []*Message, got '' @ any_type existing) [])))"

section \<open>Message states\<close>

record messages_state =
  msMessages :: "message list"
  msExtra :: gmap

definition ms_AddMessages :: "messages_state \<Rightarrow> message list \<Rightarrow> messages_state" where
  "ms_AddMessages s msgs = s\<lparr>msMessages := msMessages s @ msgs\<rparr>"

definition ms_GetMessages :: "messages_state \<Rightarrow> message list" where
  "ms_GetMessages s = msMessages s"

definition GetLastMessage :: "messages_state \<Rightarrow> message option" where
  "GetLastMessage s = (if length (msMessages s) = 0 then None else Some (msMessages s ! (length (msMessages s) - 1)))"

fun role_loop :: "(string \<Rightarrow> bool) \<Rightarrow> message list \<Rightarrow> message list \<Rightarrow> message list" where
  "role_loop P [] filtered = filtered"
| "role_loop P (m # ms) filtered = role_loop P ms (if P (mRole m) then filtered @ [m] else filtered)"

definition GetMessagesByRole :: "messages_state \<Rightarrow> string \<Rightarrow> message list" where
  "GetMessagesByRole s role = role_loop (\<lambda>r. r = role) (msMessages s) []"

text \<open>The loop over a list of interfaces, from index \<open>i\<close>.\<close>

fun elems_loop :: "nat \<Rightarrow> list_elem list \<Rightarrow> gerr + message list" where
  "elems_loop i [] = Inr []"
| "elems_loop i (e # es) = (case e of
     ElemOther v \<Rightarrow> Inl (GraphError (''message at index '' @ show_nat i @ '' is not *Message, got '' @ elem_type e) [])
   | ElemMessage m \<Rightarrow> map_sum id (\<lambda>ms. m # ms) (elems_loop (i + 1) es))"

definition GetMessagesFromState :: "(string, message_any) fmap \<Rightarrow> gerr + message list" where
  "GetMessagesFromState state = (case fmlookup state ''messages'' of
     None \<Rightarrow> Inr []
   | Some (AnyMessages ms) \<Rightarrow> Inr ms
   | Some (AnyList es) \<Rightarrow> elems_loop 0 es
   | Some a \<Rightarrow> Inl (GraphError (''messages is not []*Message, got '' @ any_type a) []))"

definition AddMessagesToState ::
  "(string, message_any) fmap \<Rightarrow> message list \<Rightarrow> gerr option \<times> (string, message_any) fmap" where
  "AddMessagesToState state msgs = (case GetMessagesFromState state of
     Inl e \<Rightarrow> (Some e, state)
   | Inr existing \<Rightarrow> (None, fmupd ''messages'' (AnyMessages (existing @ msgs)) state))"

section \<open>Lists of messages\<close>

definition FormatMessages :: "message list \<Rightarrow> string list" where
  "FormatMessages msgs = map (\<lambda>m. mRole m @ '': '' @ mContent m) msgs"

text \<open>The loop that runs backwards; \<open>n\<close> is \<open>i + 1\<close>.\<close>

fun last_with_role :: "string \<Rightarrow> message list \<Rightarrow> nat \<Rightarrow> message option" where
  "last_with_role role msgs 0 = None"
| "last_with_role role msgs (Suc i) =
     (if mRole (msgs ! i) = role then Some (msgs ! i) else last_with_role role msgs i)"

definition GetLastUserMessage :: "message list \<Rightarrow> message option" where
  "GetLastUserMessage msgs = last_with_role MessageRoleUser msgs (length msgs)"

definition GetLastAIMessage :: "message list \<Rightarrow> message option" where
  "GetLastAIMessage msgs = last_with_role MessageRoleAssistant msgs (length msgs)"

definition FilterMessagesByRole :: "message list \<Rightarrow> string list \<Rightarrow> message list" where
  "FilterMessagesByRole msgs roles = role_loop (\<lambda>r. r \<in> set roles) msgs []"

record messages_filter =
  mfRoles :: "string list"
  mfLimit :: int
  mfOffset :: int
  mfReverse :: bool
  mfPredicate :: "(message \<Rightarrow> bool) option"

definition NewMessagesFilter :: messages_filter where
  "NewMessagesFilter = \<lparr>mfRoles = [], mfLimit = 0, mfOffset = 0, mfReverse = False, mfPredicate = None\<rparr>"

definition WithRole :: "messages_filter \<Rightarrow> string list \<Rightarrow> messages_filter" where
  "WithRole f roles = f\<lparr>mfRoles := roles\<rparr>"

definition WithLimit :: "messages_filter \<Rightarrow> int \<Rightarrow> messages_filter" where
  "WithLimit f limit = f\<lparr>mfLimit := limit\<rparr>"

definition WithOffset :: "messages_filter \<Rightarrow> int \<Rightarrow> messages_filter" where
  "WithOffset f offset = f\<lparr>mfOffset := offset\<rparr>"

definition WithReverse :: "messages_filter \<Rightarrow> messages_filter" where
  "WithReverse f = f\<lparr>mfReverse := True\<rparr>"

definition WithPredicate :: "messages_filter \<Rightarrow> (message \<Rightarrow> bool) \<Rightarrow> messages_filter" where
  "WithPredicate f p = f\<lparr>mfPredicate := Some p\<rparr>"

definition passes_filter :: "messages_filter \<Rightarrow> message \<Rightarrow> bool" where
  "passes_filter f m \<longleftrightarrow>
     \<not> (length (mfRoles f) > 0 \<and> mRole m \<notin> set (mfRoles f)) \<and>
     \<not> (case mfPredicate f of None \<Rightarrow> False | Some p \<Rightarrow> \<not> p m)"

fun filter_messages :: "messages_filter \<Rightarrow> message list \<Rightarrow> message list \<Rightarrow> message list" where
  "filter_messages f [] result = result"
| "filter_messages f (m # ms) result = filter_messages f ms (if passes_filter f m then result @ [m] else result)"

text \<open>The swaps of the reversal, from the outside in.\<close>

function swap_loop :: "nat \<Rightarrow> nat \<Rightarrow> 'a list \<Rightarrow> 'a list" where
  "swap_loop i j xs = (if i < j then swap_loop (i + 1) (j - 1) (xs[i := xs ! j, j := xs ! i]) else xs)"
  by pat_completeness auto
termination
  by (relation "measure (\<lambda>(i, j, xs). j - i)") auto

declare swap_loop.simps [simp del]

definition mf_Filter :: "messages_filter \<Rightarrow> message list \<Rightarrow> message list" where
  "mf_Filter f msgs =
     (let r0 = filter_messages f msgs [];
          r1 = (if mfOffset f > 0 \<and> mfOffset f < int (length r0) then drop (nat (mfOffset f)) r0 else r0);
          r2 = (if mfLimit f > 0 \<and> mfLimit f < int (length r1) then take (nat (mfLimit f)) r1 else r1)
      in if mfReverse f then swap_loop 0 (length r2 - 1) r2 else r2)"

section \<open>The OpenAI form\<close>

record openai_message =
  oaRole :: string
  oaContent :: string
  oaName :: string

definition ToOpenAIChatMessage :: "message \<Rightarrow> openai_message" where
  "ToOpenAIChatMessage m = \<lparr>oaRole = mRole m, oaContent = mContent m, oaName = []\<rparr>"

definition MessagesToOpenAIFormat :: "message list \<Rightarrow> openai_message list" where
  "MessagesToOpenAIFormat msgs = map (\<lambda>m. \<lparr>oaRole = mRole m, oaContent = mContent m, oaName = []\<rparr>) msgs"

definition OpenAIFormatToMessages :: "openai_message list \<Rightarrow> message list" where
  "OpenAIFormatToMessages ms = map (\<lambda>m. \<lparr>mID = [], mRole = oaRole m, mContent = oaContent m,
     mExtra = (if oaName m \<noteq> [] then fmupd ''name'' (VStr (oaName m)) fmempty else fmempty)\<rparr>) ms"

section \<open>The graph\<close>

text \<open>\<open>msgs_of n\<close> is what the \<open>n\<close>-th value of the type \<open>[]*Message\<close> holds.\<close>

record 'w message_graph =
  mgGraph :: "'w sgraph"
  mgMessagesChannel :: string

definition NewMessageGraph :: "nat \<Rightarrow> 'w message_graph" where
  "NewMessageGraph n =
     \<lparr>mgGraph = AddChannel (NewStateGraph (SchemaMap True)) ''messages''
        (Some (ChLastValue (NewLastValue (VOther ''[]*graph.Message'' n)))),
      mgMessagesChannel = ''messages''\<rparr>"

definition on_graph :: "('w sgraph \<Rightarrow> 'a \<times> 'w sgraph) \<Rightarrow> 'w message_graph \<Rightarrow> 'a \<times> 'w message_graph" where
  "on_graph f g = (case f (mgGraph g) of (r, sg) \<Rightarrow> (r, g\<lparr>mgGraph := sg\<rparr>))"

definition mg_AddNode :: "'w message_graph \<Rightarrow> string \<Rightarrow> 'w node_func \<Rightarrow> 'w node \<times> 'w message_graph" where
  "mg_AddNode g name action = on_graph (\<lambda>sg. AddNode sg name action) g"

definition mg_AddEdge :: "'w message_graph \<Rightarrow> string \<Rightarrow> string \<Rightarrow> gerr option \<times> 'w message_graph" where
  "mg_AddEdge g startKey endKey = on_graph (\<lambda>sg. AddEdge sg startKey endKey) g"

definition mg_AddConditionalEdge ::
  "'w message_graph \<Rightarrow> string \<Rightarrow> 'w edge_func \<Rightarrow> (string, string) fmap \<Rightarrow> (string \<times> string) list
   \<Rightarrow> gerr option \<times> 'w message_graph" where
  "mg_AddConditionalEdge g source condition edgeMap ms =
     on_graph (\<lambda>sg. AddConditionalEdges sg source condition edgeMap ms) g"

definition mg_SetEntryPoint :: "'w message_graph \<Rightarrow> string \<Rightarrow> gerr option \<times> 'w message_graph" where
  "mg_SetEntryPoint g node = on_graph (\<lambda>sg. SetEntryPoint sg node) g"

definition mg_GetMessages :: "(nat \<Rightarrow> message list) \<Rightarrow> 'w message_graph \<Rightarrow> registry \<Rightarrow> message list \<times> registry" where
  "mg_GetMessages msgs_of g reg = (case rg_Get reg (mgMessagesChannel g) of
     None \<Rightarrow> ([], reg)
   | Some ch \<Rightarrow>
       (case ch_Get ch of
          (Inr (VOther t n), ch') \<Rightarrow>
            ((if t = ''[]*graph.Message'' then msgs_of n else []), fmupd (mgMessagesChannel g) ch' reg)
        | (_, ch') \<Rightarrow> ([], fmupd (mgMessagesChannel g) ch' reg)))"

definition mg_Build ::
  "golib \<Rightarrow> map_order \<Rightarrow> string list \<Rightarrow> ((string, field_info) fmap \<Rightarrow> (string \<times> field_info) list)
   \<Rightarrow> 'w message_graph \<Rightarrow> (gerr + ('w, 'c) compiled) \<times> 'w message_graph" where
  "mg_Build L ord ns fo g = on_graph (\<lambda>sg. Compile L ord ns fo sg []) g"

section \<open>What the reducer does\<close>

definition has_id :: "message list \<Rightarrow> string \<Rightarrow> bool" where
  "has_id ms i \<longleftrightarrow> (\<exists>m \<in> set ms. mID m = i)"

lemma existing_map_lookup:
  "fmlookup (existing_map ms m) i = None \<longleftrightarrow> fmlookup m i = None \<and> (i = [] \<or> \<not> has_id ms i)"
  by (induction ms m rule: existing_map.induct) (auto simp: has_id_def)

lemma find_update_None: "find_update i us = None \<longleftrightarrow> \<not> has_id us i"
  by (induction us) (auto simp: has_id_def)

lemma find_update_ID: "find_update i us = Some u \<Longrightarrow> mID u = i \<and> u \<in> set us"
  by (induction us) (auto split: if_splits)

definition replaced :: "message list \<Rightarrow> message \<Rightarrow> message" where
  "replaced us m = (if mID m = [] then m else case find_update (mID m) us of Some u \<Rightarrow> u | None \<Rightarrow> m)"

lemma replaced_ID [simp]: "mID (replaced us m) = mID m"
  by (auto simp: replaced_def dest: find_update_ID split: option.splits)

lemma update_loop_result:
  "update_loop us ms result processed =
     (result @ map (replaced us) ms, processed \<union> {i. i \<noteq> [] \<and> has_id ms i \<and> has_id us i})"
proof (induction us ms result processed rule: update_loop.induct)
  case (2 us m ms result processed)
  then show ?case
    using find_update_None[of "mID m" us] by (auto simp: replaced_def has_id_def split: option.splits)
qed (simp add: has_id_def)

lemma append_loop_result:
  "append_loop ex processed ms result =
     result @ filter (\<lambda>m. mID m = [] \<or> mID m \<notin> processed \<and> fmlookup ex (mID m) = None) ms"
  by (induction ex processed ms result rule: append_loop.induct) auto

lemma merge_messages_result:
  "merge_messages ms us = map (replaced us) ms @ filter (\<lambda>u. mID u = [] \<or> \<not> has_id ms (mID u)) us"
  by (auto simp: merge_messages_def update_loop_result append_loop_result existing_map_lookup intro!: filter_cong)

lemma AddMessagesReducer_result:
  "AddMessagesReducer (AnyMessages ms) (AnyMessages us) =
   Inr (map (\<lambda>m. if mID m = [] then m
                 else case List.find (\<lambda>u. mID u = mID m) us of Some u \<Rightarrow> u | None \<Rightarrow> m) ms @
        filter (\<lambda>u. mID u = [] \<or> mID u \<notin> mID ` set ms) us)"
proof -
  have f: "find_update i us = List.find (\<lambda>u. mID u = i) us" for i
    by (induction us) auto
  have "has_id ms i \<longleftrightarrow> i \<in> mID ` set ms" for i
    by (auto simp: has_id_def)
  then show ?thesis
    by (simp add: AddMessagesReducer_def merge_messages_result replaced_def f)
qed

text \<open>The reducer keeps the existing messages in place, each replaced by the first update with its
  identifier, and appends, in order, the updates without an identifier and those whose identifier
  no existing message has. Messages without an identifier are never replaced.\<close>

theorem AddMessagesReducer_merges:
  "AddMessagesReducer (AnyMessages ms) (AnyMessages us) =
   Inr (map (\<lambda>m. if mID m = [] then m
                 else case List.find (\<lambda>u. mID u = mID m) us of Some u \<Rightarrow> u | None \<Rightarrow> m) ms @
        filter (\<lambda>u. \<not> (mID u \<noteq> [] \<and> mID u \<in> mID ` set ms)) us)"
  unfolding AddMessagesReducer_result by (simp cong: conj_cong)

definition distinct_ids :: "message list \<Rightarrow> bool" where
  "distinct_ids ms \<longleftrightarrow> distinct (filter (\<lambda>i. i \<noteq> []) (map mID ms))"

lemma find_update_append: "find_update i (xs @ ys) = (case find_update i xs of Some m \<Rightarrow> Some m | None \<Rightarrow> find_update i ys)"
  by (induction xs) auto

lemma find_update_replaced:
  "i \<noteq> [] \<Longrightarrow> find_update i (map (replaced us) ms) =
     (if has_id ms i then (case find_update i us of Some u \<Rightarrow> Some u | None \<Rightarrow> find_update i ms) else None)"
proof (induction ms)
  case (Cons m ms)
  show ?case
  proof (cases "mID m = i")
    case True
    then have "find_update i (map (replaced us) (m # ms)) = Some (replaced us m)" by simp
    with True Cons.prems show ?thesis
      by (auto simp: has_id_def replaced_def dest: find_update_ID split: option.splits)
  next
    case False
    with Cons show ?thesis by (simp add: has_id_def split: option.splits)
  qed
qed (simp add: has_id_def)

lemma find_update_filter:
  "(\<And>m. mID m = i \<Longrightarrow> m \<in> set us \<Longrightarrow> P m) \<Longrightarrow> find_update i (filter P us) = find_update i us"
  by (induction us) auto

lemma find_update_filter_none: "(\<And>m. mID m = i \<Longrightarrow> \<not> P m) \<Longrightarrow> find_update i (filter P us) = None"
  by (induction us) auto

lemma find_merge:
  assumes "i \<noteq> []"
  shows "find_update i (merge_messages ms us) =
    (case find_update i us of Some u \<Rightarrow> Some u | None \<Rightarrow> find_update i ms)"
proof (cases "has_id ms i")
  case True
  with find_update_None[of i ms] show ?thesis
    by (auto simp: merge_messages_result find_update_append find_update_replaced assms split: option.splits)
next
  case False
  then have "find_update i (filter (\<lambda>u. mID u = [] \<or> \<not> has_id ms (mID u)) us) = find_update i us"
    by (intro find_update_filter) auto
  with False find_update_None[of i ms] show ?thesis
    by (auto simp: merge_messages_result find_update_append find_update_replaced assms split: option.splits)
qed

lemma distinct_ids_merge:
  assumes "distinct_ids ms" "distinct_ids us"
  shows "distinct_ids (merge_messages ms us)"
proof -
  have "map mID (map (replaced us) ms) = map mID ms" by simp
  moreover have "distinct (filter (\<lambda>i. i \<noteq> []) (map mID (filter P us)))" for P
    using distinct_map_filter[of mID "filter (\<lambda>u. mID u \<noteq> []) us" P] assms(2)
    by (simp add: distinct_ids_def filter_map comp_def conj_commute)
  ultimately show ?thesis
    using assms(1) by (auto simp: distinct_ids_def merge_messages_result has_id_def simp del: map_map)
qed

text \<open>C28: Over lists in which no identifier occurs twice the reducer is an update of a finite map: no
  identifier occurs twice in the result, the message under an identifier is the update's where there
  is one and the old one otherwise, and reducing once more with the same identified updates changes
  nothing.\<close>

theorem reducer_upserts:
  assumes "distinct_ids ms" "distinct_ids us" "AddMessagesReducer (AnyMessages ms) (AnyMessages us) = Inr r"
  shows "distinct_ids r \<and>
    (\<forall>i. i \<noteq> [] \<longrightarrow> List.find (\<lambda>m. mID m = i) r =
        (case List.find (\<lambda>m. mID m = i) us of Some u \<Rightarrow> Some u | None \<Rightarrow> List.find (\<lambda>m. mID m = i) ms)) \<and>
    ((\<forall>u \<in> set us. mID u \<noteq> []) \<longrightarrow> AddMessagesReducer (AnyMessages r) (AnyMessages us) = Inr r)"
proof -
  have f: "List.find (\<lambda>m. mID m = i) xs = find_update i xs" for i xs
    by (induction xs) auto
  from assms(3) have r: "r = merge_messages ms us"
    by (simp add: AddMessagesReducer_def)
  have "merge_messages r us = r" if "\<forall>u \<in> set us. mID u \<noteq> []"
  proof -
    have "has_id r (mID u)" if "u \<in> set us" for u
      using that \<open>\<forall>u \<in> set us. mID u \<noteq> []\<close> find_merge[of "mID u" ms us] find_update_None[of "mID u" us]
        find_update_None[of "mID u" r] r by (auto simp: has_id_def split: option.splits)
    moreover have "replaced us m = m" if "m \<in> set r" for m
    proof (cases "mID m = [] \<or> find_update (mID m) us = None")
      case False
      then obtain u where u: "find_update (mID m) us = Some u" by blast
      then have "find_update (mID m) r = Some u"
        using False by (simp add: r find_merge)
      moreover have "find_update (mID m) r = Some m"
        using that False distinct_ids_merge[OF assms(1,2)] unfolding r[symmetric] distinct_ids_def
        by (induction r) (auto split: if_splits)
      ultimately show ?thesis using u by (simp add: replaced_def)
    qed (auto simp: replaced_def)
    ultimately show ?thesis
      using that by (auto simp: merge_messages_result map_idI)
  qed
  then show ?thesis
    using distinct_ids_merge[OF assms(1,2)] by (auto simp: f r find_merge AddMessagesReducer_def split: option.splits)
qed

definition demo_msg :: "string \<Rightarrow> string \<Rightarrow> message" where
  "demo_msg i c = NewMessageWithID i MessageRoleUser c"

lemma demo_msg_simps [simp]: "mID (demo_msg i c) = i" "mContent (demo_msg i c) = c"
  by (simp_all add: demo_msg_def NewMessageWithID_def)

theorem reducer_upserts_witness:
  "distinct_ids [demo_msg ''a'' ''2'', demo_msg ''b'' ''3''] \<and>
   List.find (\<lambda>m. mID m = ''a'') [demo_msg ''a'' ''2'', demo_msg ''b'' ''3''] = Some (demo_msg ''a'' ''2'')"
  using reducer_upserts[of "[demo_msg ''a'' ''1'']" "[demo_msg ''a'' ''2'', demo_msg ''b'' ''3'']"
      "[demo_msg ''a'' ''2'', demo_msg ''b'' ''3'']"]
  by (simp add: AddMessagesReducer_result distinct_ids_def)

text \<open>Within one update the reducer does not deduplicate: of two updates of an existing message the
  first one wins, two new messages with one identifier are both appended, and with no existing
  messages (a nil state) the updates are returned as they are.\<close>

theorem reducer_duplicates_stay:
  assumes "mID a = mID b" "mID a \<noteq> []" "mID m = mID a"
  shows "AddMessagesReducer (AnyMessages [m]) (AnyMessages [a, b]) = Inr [a] \<and>
    AddMessagesReducer (AnyMessages []) (AnyMessages [a, b]) = Inr [a, b] \<and>
    AddMessagesReducer AnyNil (AnyMessages us) = Inr us"
  using assms by (simp add: AddMessagesReducer_result) (simp add: AddMessagesReducer_def)

theorem reducer_duplicates_stay_witness:
  "AddMessagesReducer (AnyMessages [demo_msg ''a'' ''0'']) (AnyMessages [demo_msg ''a'' ''1'', demo_msg ''a'' ''2'']) =
     Inr [demo_msg ''a'' ''1'']"
  using reducer_duplicates_stay[of "demo_msg ''a'' ''1''" "demo_msg ''a'' ''2''" "demo_msg ''a'' ''0''" "[]"] by simp

section \<open>Filters, forms, states\<close>

lemma filter_messages_result: "filter_messages f ms r = r @ filter (passes_filter f) ms"
  by (induction f ms r rule: filter_messages.induct) auto

lemma swap_loop_nth:
  "j < length xs \<Longrightarrow> length (swap_loop i j xs) = length xs \<and>
   (\<forall>k < length xs. swap_loop i j xs ! k = (if i \<le> k \<and> k \<le> j then xs ! (i + j - k) else xs ! k))"
proof (induction i j xs rule: swap_loop.induct)
  case (1 i j xs)
  show ?case
  proof (cases "i < j")
    case True
    let ?ys = "xs[i := xs ! j, j := xs ! i]"
    have IH: "length (swap_loop (i + 1) (j - 1) ?ys) = length xs \<and>
        (\<forall>k < length xs. swap_loop (i + 1) (j - 1) ?ys ! k =
           (if i + 1 \<le> k \<and> k \<le> j - 1 then ?ys ! (i + j - k) else ?ys ! k))"
      using "1.IH"[OF True] "1.prems" True by simp
    show ?thesis
    proof (intro conjI allI impI)
      show "length (swap_loop i j xs) = length xs" using IH True by (simp add: swap_loop.simps[of i j xs])
      fix k assume k: "k < length xs"
      have e: "swap_loop i j xs ! k = (if i + 1 \<le> k \<and> k \<le> j - 1 then ?ys ! (i + j - k) else ?ys ! k)"
        using IH True k by (simp add: swap_loop.simps[of i j xs])
      consider "k = i" | "k = j" | "i < k" "k < j" | "k < i \<or> j < k" by linarith
      then show "swap_loop i j xs ! k = (if i \<le> k \<and> k \<le> j then xs ! (i + j - k) else xs ! k)"
        using e True "1.prems" k by cases (auto simp: nth_list_update)
    qed
  next
    case False
    then show ?thesis by (auto simp: swap_loop.simps[of i j xs] intro: arg_cong[of _ _ "nth xs"])
  qed
qed

lemma swap_loop_rev: "swap_loop 0 (length xs - 1) xs = rev xs"
proof (cases xs)
  case Nil
  then show ?thesis by (simp add: swap_loop.simps)
next
  case Cons
  then have "length xs - 1 < length xs" by simp
  from swap_loop_nth[OF this, of 0] show ?thesis
    by (intro nth_equalityI) (auto simp: rev_nth)
qed

text \<open>\<open>Filter\<close> is the reference: the messages that pass, without the first \<open>offset\<close>, cut to \<open>limit\<close>,
  reversed on request. An offset of at least the number of matches is ignored instead of giving
  nothing, so the pages of a list begin again after the last one.\<close>

theorem Filter_pages:
  "mf_Filter f msgs =
     (let r = filter (passes_filter f) msgs;
          page = (if mfOffset f \<ge> int (length r) then r else drop (nat (mfOffset f)) r);
          cut = (if mfLimit f > 0 then take (nat (mfLimit f)) page else page)
      in if mfReverse f then rev cut else cut)"
proof -
  have "(if mfOffset f > 0 \<and> mfOffset f < int (length r) then drop (nat (mfOffset f)) r else r) =
      (if mfOffset f \<ge> int (length r) then r else drop (nat (mfOffset f)) r)" for r :: "message list"
    by auto
  moreover have "(if l > 0 \<and> l < int (length p) then take (nat l) p else p) =
      (if l > 0 then take (nat l) p else p)" for l and p :: "message list"
    by auto
  ultimately show ?thesis
    unfolding mf_Filter_def Let_def filter_messages_result swap_loop_rev by (simp only: append_Nil)
qed

lemma role_loop_result: "role_loop P ms r = r @ filter (\<lambda>m. P (mRole m)) ms"
  by (induction P ms r rule: role_loop.induct) auto

lemma last_with_role_result:
  "n \<le> length msgs \<Longrightarrow> last_with_role role msgs n = List.find (\<lambda>m. mRole m = role) (rev (take n msgs))"
  by (induction n) (auto simp: take_Suc_conv_app_nth)

lemma GetLastUserMessage_find:
  "GetLastUserMessage msgs = List.find (\<lambda>m. mRole m = MessageRoleUser) (rev msgs)"
  by (simp add: GetLastUserMessage_def last_with_role_result)

text \<open>What goes to the OpenAI form and back keeps role and content of every message, in order, and
  loses the identifiers and the extra fields; the other way round only the names are lost.\<close>

theorem openai_roundtrip:
  "OpenAIFormatToMessages (MessagesToOpenAIFormat msgs) = map (\<lambda>m. NewMessage (mRole m) (mContent m)) msgs \<and>
   MessagesToOpenAIFormat (OpenAIFormatToMessages os) = map (\<lambda>m. m\<lparr>oaName := []\<rparr>) os \<and>
   MessagesToOpenAIFormat msgs = map ToOpenAIChatMessage msgs"
  by (simp add: OpenAIFormatToMessages_def MessagesToOpenAIFormat_def NewMessage_def ToOpenAIChatMessage_def comp_def)

text \<open>Messages added to a state are read back from it after those that were there; a state whose
  messages cannot be read is left as it is and the error names the first bad element.\<close>

theorem state_messages:
  "(case GetMessagesFromState st of
      Inr ms \<Rightarrow> fst (AddMessagesToState st new) = None \<and>
        GetMessagesFromState (snd (AddMessagesToState st new)) = Inr (ms @ new)
    | Inl e \<Rightarrow> AddMessagesToState st new = (Some e, st)) \<and>
   (fmlookup st ''messages'' = Some (AnyList es) \<longrightarrow>
      GetMessagesFromState st =
        (case filter (\<lambda>i. \<forall>m. es ! i \<noteq> ElemMessage m) [0..<length es] of
           [] \<Rightarrow> Inr [m. ElemMessage m \<leftarrow> es]
         | i # _ \<Rightarrow> Inl (GraphError (''message at index '' @ show_nat i @ '' is not *Message, got '' @ elem_type (es ! i)) [])))"
proof -
  have loop: "elems_loop k es = (case filter (\<lambda>i. \<forall>m. es ! i \<noteq> ElemMessage m) [0..<length es] of
      [] \<Rightarrow> Inr [m. ElemMessage m \<leftarrow> es]
    | i # _ \<Rightarrow> Inl (GraphError (''message at index '' @ show_nat (k + i) @ '' is not *Message, got '' @ elem_type (es ! i)) []))" for k
  proof (induction es arbitrary: k)
    case (Cons e es)
    have "filter (\<lambda>i. \<forall>m. (e # es) ! i \<noteq> ElemMessage m) [0..<length (e # es)] =
        (case e of ElemMessage m \<Rightarrow> [] | ElemOther v \<Rightarrow> [0]) @
        map Suc (filter (\<lambda>i. \<forall>m. es ! i \<noteq> ElemMessage m) [0..<length es])"
      by (simp only: length_Cons upt_conv_Cons zero_less_Suc map_Suc_upt[symmetric] filter.simps)
        (auto simp: filter_map comp_def split: list_elem.splits)
    then show ?case
      by (cases e) (auto simp: Cons.IH split: list.splits)
  qed simp
  have "fmlookup st ''messages'' = Some (AnyList es) \<Longrightarrow> GetMessagesFromState st = elems_loop 0 es"
    by (simp add: GetMessagesFromState_def)
  moreover have "GetMessagesFromState (fmupd ''messages'' (AnyMessages ms) st) = Inr ms" for ms
    by (simp add: GetMessagesFromState_def)
  ultimately show ?thesis
    using loop[of 0, unfolded add_0] unfolding AddMessagesToState_def
    by (cases "GetMessagesFromState st") auto
qed

theorem state_messages_witness:
  "AddMessagesToState (fmupd ''messages'' (AnyList [ElemMessage m, ElemOther VNil]) fmempty) [m] =
     (Some (GraphError ''message at index 1 is not *Message, got <nil>'' []),
      fmupd ''messages'' (AnyList [ElemMessage m, ElemOther VNil]) fmempty)"
proof -
  let ?st = "fmupd ''messages'' (AnyList [ElemMessage m, ElemOther VNil]) fmempty"
  have "show_nat 1 = ''1''" by code_simp
  then have "GetMessagesFromState ?st = Inl (GraphError ''message at index 1 is not *Message, got <nil>'' [])"
    using state_messages[of ?st "[m]" "[ElemMessage m, ElemOther VNil]"] by (simp add: upt_rec elem_type_def)
  then show ?thesis
    using state_messages[of ?st "[m]" "[]"] by simp
qed

section \<open>The messages channel\<close>

text \<open>A message graph does not merge messages: its channel is a plain last-value channel without a
  reducer, so after an update with a list of messages \<open>GetMessages\<close> returns that list alone,
  whatever the channel held before.\<close>

theorem messages_channel_replaces:
  fixes g :: "'w message_graph"
  assumes "g = NewMessageGraph n" "rg_Get reg ''messages'' = Some (ChLastValue c)"
    and "ch_Update L (ChLastValue c) [VOther ''[]*graph.Message'' k] = (res, ch)"
  shows "sgReducers (mgGraph g) = fmempty \<and>
    (\<exists>c0. fmlookup (sgChannels (mgGraph g)) (mgMessagesChannel g) = Some (ChLastValue c0)) \<and>
    res = Inr True \<and> fst (mg_GetMessages msgs_of g (fmupd ''messages'' ch reg)) = msgs_of k"
  using assms
  by (auto simp: mg_GetMessages_def NewMessageGraph_def AddChannel_def NewStateGraph_def rg_Get_def chan_defs on_snd_def)

theorem messages_channel_replaces_witness:
  "let reg = sgChannels (mgGraph (NewMessageGraph 0 :: unit message_graph));
       ch1 = snd (ch_Update demo_lib (the (rg_Get reg ''messages'')) [VOther ''[]*graph.Message'' 1]);
       ch2 = snd (ch_Update demo_lib ch1 [VOther ''[]*graph.Message'' 2])
   in fst (mg_GetMessages (\<lambda>n. replicate n (HumanMessage ''hi'')) (NewMessageGraph 0 :: unit message_graph)
        (fmupd ''messages'' ch2 reg)) = [HumanMessage ''hi'', HumanMessage ''hi'']"
proof -
  define reg where "reg = sgChannels (mgGraph (NewMessageGraph 0 :: unit message_graph))"
  define ch1 where "ch1 = snd (ch_Update demo_lib (the (rg_Get reg ''messages'')) [VOther ''[]*graph.Message'' 1])"
  obtain c where c: "ch1 = ChLastValue c"
    by (auto simp: ch1_def reg_def NewMessageGraph_def AddChannel_def NewStateGraph_def rg_Get_def chan_defs on_snd_def)
  obtain r ch2 where u: "ch_Update demo_lib (ChLastValue c) [VOther ''[]*graph.Message'' 2] = (r, ch2)" by fastforce
  have g: "rg_Get (fmupd ''messages'' (ChLastValue c) reg) ''messages'' = Some (ChLastValue c)" by (simp add: rg_Get_def)
  show ?thesis
    using messages_channel_replaces[OF refl g u, of "0" "\<lambda>n. replicate n (HumanMessage ''hi'')", where 'w = unit]
    unfolding Let_def reg_def[symmetric] ch1_def[symmetric] c u by (simp add: numeral_2_eq_2)
qed

end
