(* ===== verification/Loop.thy ===== *)
theory Loop
  imports Interrupt Retry
begin

text \<open>
  Loop nodes (\<^verbatim>\<open>graph/loop.go\<close>): a node that runs a compiled sub-graph until a condition holds, at
  most a number of times, and that interrupts and resumes with the sub-graph. The sub-graph and
  the condition act on the interrupt state and a world; running the sub-graph is a function of the
  thread it is given and its input. The texts of JSON are parameters.
\<close>

section \<open>Parameters\<close>

text \<open>
  \<open>jnAny\<close> and \<open>jnLoop\<close> are \<^verbatim>\<open>json.Unmarshal\<close> into an \<^verbatim>\<open>interface{}\<close> (or the text of its error) and into
  the saved state, \<open>jnError\<close> the text of the error of \<^verbatim>\<open>json.Marshal\<close>, \<open>jnWrap\<close> the state as a value of
  type \<^verbatim>\<open>interface{}\<close>.
\<close>

record loop_state =
  lsIteration :: int
  lsCurrentInput :: "string option"
  lsUserFillUp :: "string option"

record loop_json =
  jnAny :: "string \<Rightarrow> string + gval"
  jnLoop :: "string \<Rightarrow> loop_state option"
  jnError :: "gval \<Rightarrow> string"
  jnWrap :: "loop_state \<Rightarrow> gval"

type_synonym 'w node_world = "istate \<times> 'w"
type_synonym 'w sub_graph = "string \<Rightarrow> gval \<Rightarrow> 'w node_world \<Rightarrow> called \<times> 'w node_world"
type_synonym 'w loop_condition = "int \<Rightarrow> gval \<Rightarrow> gval \<Rightarrow> 'w node_world \<Rightarrow> (gerr + bool) \<times> 'w node_world"

record loop_options =
  loMaxIterations :: int
  loCheckpointIDPrefix :: string

definition WithLoopMaxIterations :: "int \<Rightarrow> loop_options \<Rightarrow> loop_options" where
  "WithLoopMaxIterations n o1 = (if n \<ge> 0 then o1\<lparr>loMaxIterations := n\<rparr> else o1)"

definition WithLoopCheckpointIDPrefix :: "string \<Rightarrow> loop_options \<Rightarrow> loop_options" where
  "WithLoopCheckpointIDPrefix prefix o1 = (if prefix \<noteq> [] then o1\<lparr>loCheckpointIDPrefix := prefix\<rparr> else o1)"

definition getLoopOptions :: "(loop_options \<Rightarrow> loop_options) list \<Rightarrow> loop_options" where
  "getLoopOptions opts = fold (\<lambda>opt o1. opt o1) opts \<lparr>loMaxIterations = 1024, loCheckpointIDPrefix = []\<rparr>"

definition ErrLoopMaxIterationsExceeded :: gerr where
  "ErrLoopMaxIterationsExceeded = ErrorString ''graph: loop max iterations exceeded''"

definition ErrLoopResumeStateInvalid :: gerr where
  "ErrLoopResumeStateInvalid = ErrorString ''graph: loop resume state invalid''"

text \<open>What a node finds in its context: the parameters and the saved state of the sub-graph.\<close>

record loop_env =
  leLib :: golib
  leHash :: "string \<Rightarrow> string"
  leJSON :: loop_json
  leSubState :: "gval option"

section \<open>The saved state\<close>

definition valid_state :: "loop_env \<Rightarrow> string \<Rightarrow> loop_state option" where
  "valid_state E t = (case jnLoop (leJSON E) t of
     Some st \<Rightarrow> (if lsIteration st > 0 then Some st else None) | None \<Rightarrow> None)"

fun resume_loop :: "loop_env \<Rightarrow> gval list \<Rightarrow> loop_state option" where
  "resume_loop E [] = None"
| "resume_loop E (v # vs) =
     (case (case v of VBytes t \<Rightarrow> valid_state E t | VStr t \<Rightarrow> valid_state E t | _ \<Rightarrow> None) of
        Some st \<Rightarrow> Some st | None \<Rightarrow> resume_loop E vs)"

definition loadLoopSnapshot :: "loop_env \<Rightarrow> istate \<Rightarrow> loop_state option" where
  "loadLoopSnapshot E s =
     (case (case leSubState E of Some (VBytes t) \<Rightarrow> valid_state E t | _ \<Rightarrow> None) of
        Some st \<Rightarrow> Some st | None \<Rightarrow> resume_loop E (GetResumeValues s))"

section \<open>The loop\<close>

definition sub_checkpoint_id :: "loop_options \<Rightarrow> string \<Rightarrow> int \<Rightarrow> string" where
  "sub_checkpoint_id o1 key iteration =
     loCheckpointIDPrefix o1 @ '':loop:'' @ key @ '':iter:'' @ show_int iteration"

text \<open>What happens when the sub-graph interrupts.\<close>

definition loop_interrupt :: "loop_env \<Rightarrow> int \<Rightarrow> gval \<Rightarrow> gerr \<Rightarrow> 'w node_world \<Rightarrow> called \<times> 'w node_world" where
  "loop_interrupt E iteration current err w =
     (case json_text (leLib E) current of
        None \<Rightarrow> (Returned VNil (Some (WrapError ''graph: loop marshal state'' (ErrorString (jnError (leJSON E) current)))), w)
      | Some t \<Rightarrow>
          (let fill = (case GetInterruptValue (Some err) of
                 Some v \<Rightarrow> (if v \<noteq> VNil then json_text (leLib E) v else None) | None \<Rightarrow> None);
               st = \<lparr>lsIteration = iteration, lsCurrentInput = Some t, lsUserFillUp = fill\<rparr>
           in case Interrupt (leHash E) (leLib E) (jnWrap (leJSON E) st) (fst w) of
                (Inl e, s') \<Rightarrow> (Returned VNil (Some e), (s', snd w))
              | (Inr v, s') \<Rightarrow> (Returned VNil None, (s', snd w))))"

function loop_iterations ::
  "loop_env \<Rightarrow> string \<Rightarrow> 'w sub_graph \<Rightarrow> 'w loop_condition \<Rightarrow> loop_options \<Rightarrow> int \<Rightarrow> gval \<Rightarrow> 'w node_world
   \<Rightarrow> called \<times> 'w node_world"
where
  "loop_iterations E key sub shouldQuit o1 iteration current w =
     (case sub (sub_checkpoint_id o1 key iteration) current w of
        (Panicked r, w1) \<Rightarrow> (Panicked r, w1)
      | (Returned next (Some err), w1) \<Rightarrow>
          (if IsGraphInterrupt (Some err) then loop_interrupt E iteration current err w1
           else (Returned VNil (Some (WrapError (''graph: loop iteration '' @ show_int iteration) err)), w1))
      | (Returned next None, w1) \<Rightarrow>
          (case shouldQuit iteration current next w1 of
             (Inl err, w2) \<Rightarrow>
               (Returned VNil (Some (WrapError (''graph: loop condition iteration '' @ show_int iteration) err)), w2)
           | (Inr True, w2) \<Rightarrow> (Returned next None, w2)
           | (Inr False, w2) \<Rightarrow>
               (if iteration \<ge> loMaxIterations o1
                then (Returned VNil (Some (SuffixError ErrLoopMaxIterationsExceeded (show_int (loMaxIterations o1)))), w2)
                else loop_iterations E key sub shouldQuit o1 (iteration + 1) next w2)))"
  by pat_completeness auto
termination
  by (relation "measure (\<lambda>(E, key, sub, shouldQuit, o1, iteration, current, w). nat (loMaxIterations o1 - iteration))") auto

declare loop_iterations.simps [simp del]

definition runLoop ::
  "loop_env \<Rightarrow> string \<Rightarrow> 'w sub_graph \<Rightarrow> gval \<Rightarrow> 'w loop_condition \<Rightarrow> loop_options \<Rightarrow> 'w node_world
   \<Rightarrow> called \<times> 'w node_world"
where
  "runLoop E key sub input shouldQuit o1 w =
     (case (case loadLoopSnapshot E (fst w) of
              None \<Rightarrow> Inr (1, input)
            | Some snap \<Rightarrow>
                (case lsCurrentInput snap of
                   None \<Rightarrow> Inr (lsIteration snap, input)
                 | Some t \<Rightarrow>
                     (case jnAny (leJSON E) t of
                        Inl msg \<Rightarrow> Inl (SuffixError ErrLoopResumeStateInvalid (''decode current input: '' @ msg))
                      | Inr v \<Rightarrow> Inr (lsIteration snap, v)))) of
        Inl err \<Rightarrow> (Returned VNil (Some err), w)
      | Inr (start, current) \<Rightarrow>
          loop_iterations E key sub shouldQuit o1 start (if current = VNil then VMap fmempty else current) w)"

text \<open>\<open>None\<close> stands for a nil sub-graph or condition; the environment is what the context holds.\<close>

definition NewLoopNodeFunc ::
  "string \<Rightarrow> 'w sub_graph option \<Rightarrow> 'w loop_condition option \<Rightarrow> (loop_options \<Rightarrow> loop_options) list
   \<Rightarrow> gerr + (loop_env \<Rightarrow> gval \<Rightarrow> 'w node_world \<Rightarrow> called \<times> 'w node_world)"
where
  "NewLoopNodeFunc key sub shouldQuit opts =
     (if key = [] then Inl (ErrorString ''graph: loop key is empty'')
      else case sub of None \<Rightarrow> Inl (ErrorString ''graph: loop sub-graph is nil'')
        | Some g \<Rightarrow>
            (case shouldQuit of None \<Rightarrow> Inl (ErrorString ''graph: loop shouldQuit is nil'')
             | Some q \<Rightarrow>
                 (let o1 = getLoopOptions opts;
                      o2 = (if loCheckpointIDPrefix o1 = [] then o1\<lparr>loCheckpointIDPrefix := key\<rparr> else o1)
                  in Inr (\<lambda>E state w. runLoop E key g state q o2 w))))"

section \<open>Iterations\<close>

text \<open>A loop node calls its sub-graph at least once and at most as often as the limit says (once if
  the limit is zero), counted from the iteration it starts with; \<open>calls\<close> counts the calls.\<close>

theorem loop_calls:
  fixes calls :: "'w node_world \<Rightarrow> int"
  assumes "\<forall>t x w. calls (snd (sub t x w)) = calls w + 1"
    and "\<forall>i x y w. calls (snd (q i x y w)) = calls w"
    and "\<forall>s s' w. calls (s, w) = calls (s', w)"
  shows "calls w + 1 \<le> calls (snd (loop_iterations E key sub q o1 i current w)) \<and>
    calls (snd (loop_iterations E key sub q o1 i current w)) \<le> calls w + max 1 (loMaxIterations o1 - i + 1)"
  using assms
proof (induction E key sub q o1 i current w rule: loop_iterations.induct)
  case (1 E key sub q o1 i current w)
  obtain res w1 where sub: "sub (sub_checkpoint_id o1 key i) current w = (res, w1)" by (meson surj_pair)
  with "1.prems"(1) have w1: "calls w1 = calls w + 1" by (metis snd_conv)
  show ?case
  proof (cases res)
    case (Panicked r)
    then show ?thesis using sub w1 by (simp add: loop_iterations.simps[of E key])
  next
    case (Returned y eo)
    show ?thesis
    proof (cases eo)
      case (Some err)
      have "calls (snd (loop_interrupt E i current err w1)) = calls w1"
        using "1.prems"(3) by (cases w1) (auto simp: loop_interrupt_def Let_def split: option.splits sum.splits prod.splits)
      then show ?thesis using sub w1 Returned Some by (simp add: loop_iterations.simps[of E key])
    next
      case None
      obtain d w2 where q: "q i current y w1 = (d, w2)" by (meson surj_pair)
      with "1.prems"(2) have w2: "calls w2 = calls w1" by (metis snd_conv)
      show ?thesis
      proof (cases "d = Inr False \<and> i < loMaxIterations o1")
        case True
        then have "loop_iterations E key sub q o1 i current w = loop_iterations E key sub q o1 (i + 1) y w2"
          using sub q Returned None by (simp add: loop_iterations.simps[of E key sub q o1 i])
        with "1.IH"[OF sub[symmetric] Returned None q[symmetric], of False] True "1.prems" w1 w2 show ?thesis by simp
      next
        case False
        then show ?thesis using sub q w1 w2 Returned None
          by (auto simp: loop_iterations.simps[of E key sub q o1 i] split: sum.split bool.split)
      qed
    qed
  qed
qed

definition count_sub :: "int sub_graph" where
  "count_sub t x w = (Returned (VInt (word_of_int (snd w))) None, (fst w, snd w + 1))"

definition stop_at :: "nat \<Rightarrow> 'w loop_condition" where
  "stop_at n i x y w = (Inr (i = int n), w)"

definition demo_json :: loop_json where
  "demo_json = \<lparr>jnAny = (\<lambda>t. Inr (VStr t)), jnLoop = (\<lambda>t. Some \<lparr>lsIteration = int (length t), lsCurrentInput = Some t, lsUserFillUp = None\<rparr>),
     jnError = (\<lambda>v. ''no''), jnWrap = (\<lambda>st. VStr (case lsCurrentInput st of Some t \<Rightarrow> t | None \<Rightarrow> []))\<rparr>"

definition demo_env :: loop_env where
  "demo_env = \<lparr>leLib = demo_lib, leHash = (\<lambda>s. s), leJSON = demo_json, leSubState = None\<rparr>"

definition demo_istate :: istate where
  "demo_istate = \<lparr>isPer = None, isGlobal = new_interrupt_context, isCounter = 0\<rparr>"

theorem loop_calls_witness:
  "snd (snd (loop_iterations demo_env ''n'' count_sub (stop_at 9) \<lparr>loMaxIterations = 3, loCheckpointIDPrefix = ''n''\<rparr> 1
     VNil (demo_istate, 0))) \<in> {1..3}"
  using loop_calls[of snd count_sub "stop_at 9" "(demo_istate, 0)" demo_env "''n''" "\<lparr>loMaxIterations = 3, loCheckpointIDPrefix = ''n''\<rparr>" 1 VNil]
  by (simp add: count_sub_def stop_at_def)

lemma find_map_Suc: "List.find P (map Suc xs) = map_option Suc (List.find (\<lambda>k. P (Suc k)) xs)"
  by (induction xs) auto

text \<open>C23: A loop over a sub-graph and a condition that depend on their inputs only: the result is the first
  iterate of the sub-graph at which the condition holds, within the limit, and an error when there
  is none; a limit of zero allows one iteration.\<close>

theorem loop_iterates:
  assumes sub: "\<forall>t x w. sub t x w = (Returned (f x) None, w)"
    and quit: "\<forall>i x y w. q i x y w = (Inr (Q i x y), w)"
    and fresh: "loadLoopSnapshot E (fst w) = None" "input \<noteq> VNil"
  shows "runLoop E key sub input q o1 w =
    ((case List.find (\<lambda>k. Q (int k + 1) ((f ^^ k) input) ((f ^^ Suc k) input)) [0..<nat (max 1 (loMaxIterations o1))] of
        Some k \<Rightarrow> Returned ((f ^^ Suc k) input) None
      | None \<Rightarrow> Returned VNil (Some (SuffixError ErrLoopMaxIterationsExceeded (show_int (loMaxIterations o1))))), w)"
proof -
  have "loop_iterations E key sub q o1 i x w =
    ((case List.find (\<lambda>k. Q (i + int k) ((f ^^ k) x) ((f ^^ Suc k) x)) [0..<n] of
        Some k \<Rightarrow> Returned ((f ^^ Suc k) x) None
      | None \<Rightarrow> Returned VNil (Some (SuffixError ErrLoopMaxIterationsExceeded (show_int (loMaxIterations o1))))), w)"
    if "n = nat (max 1 (loMaxIterations o1 - i + 1))" for n i x
    using that
  proof (induction n arbitrary: i x)
    case (Suc n)
    have split: "List.find P [0..<Suc n] = (if P 0 then Some 0 else map_option Suc (List.find (\<lambda>k. P (Suc k)) [0..<n]))" for P
      by (simp add: upt_conv_Cons map_Suc_upt[symmetric] find_map_Suc del: upt_Suc)
    have step: "loop_iterations E key sub q o1 i x w =
        (if Q i x (f x) then (Returned (f x) None, w)
         else if i \<ge> loMaxIterations o1
           then (Returned VNil (Some (SuffixError ErrLoopMaxIterationsExceeded (show_int (loMaxIterations o1)))), w)
         else loop_iterations E key sub q o1 (i + 1) (f x) w)"
      using sub[rule_format, of "sub_checkpoint_id o1 key i" x w] quit[rule_format, of i x "f x" w]
      by (subst loop_iterations.simps) simp
    have one: "(f ^^ Suc 0) x = f x" by simp
    have fp: "(f ^^ k) (f x) = (f ^^ Suc k) x" for k by (simp add: funpow_swap1)
    show ?case
    proof (cases "Q i x (f x) \<or> i \<ge> loMaxIterations o1")
      case True
      with Suc.prems have "\<not> Q i x (f x) \<Longrightarrow> n = 0" by auto
      with True show ?thesis by (auto simp: step split simp del: upt_Suc)
    next
      case False
      with Suc.prems have "n = nat (max 1 (loMaxIterations o1 - (i + 1) + 1))" by simp
      from Suc.IH[OF this, of "f x"] False show ?thesis
        unfolding step split fp by (simp add: one add.assoc option.case_eq_if option.map_sel del: upt_Suc funpow.simps)
    qed
  qed simp
  with fresh show ?thesis by (simp add: runLoop_def add.commute)
qed

definition add_one :: "'w sub_graph" where
  "add_one t x w = (Returned (case x of VInt n \<Rightarrow> VInt (n + 1) | _ \<Rightarrow> VInt 0) None, w)"

theorem loop_iterates_witness:
  "fst (runLoop demo_env ''n'' add_one (VInt 5) (\<lambda>i x y w. (Inr (y = VInt 7), w))
     \<lparr>loMaxIterations = 4, loCheckpointIDPrefix = ''n''\<rparr> (demo_istate, ())) = Returned (VInt 7) None"
proof -
  have [simp]: "[0..<4] = [0, 1, 2, 3::nat]" by (simp add: upt_rec)
  show ?thesis
    by (subst loop_iterates[where f = "\<lambda>x. case x of VInt n \<Rightarrow> VInt (n + 1) | _ \<Rightarrow> VInt 0" and Q = "\<lambda>i x y. y = VInt 7"])
      (simp_all add: add_one_def loadLoopSnapshot_def demo_env_def demo_istate_def GetResumeValues_def is_current_def
        new_interrupt_context_def)
qed

section \<open>Interrupts\<close>

lemma interrupted_at:
  "loop_iterations E key sub q o1 i x w = (Returned r (Some (GraphInterrupt vs)), w1) \<Longrightarrow>
   \<exists>k c w0 y err w2. i \<le> k \<and> k \<le> max i (loMaxIterations o1) \<and>
     sub (sub_checkpoint_id o1 key k) c w0 = (Returned y (Some err), w2) \<and>
     IsGraphInterrupt (Some err) \<and> loop_interrupt E k c err w2 = (Returned r (Some (GraphInterrupt vs)), w1)"
proof (induction E key sub q o1 i x w rule: loop_iterations.induct)
  case (1 E key sub q o1 i current w)
  obtain res w2 where sub: "sub (sub_checkpoint_id o1 key i) current w = (res, w2)" by (meson surj_pair)
  from "1.prems" sub obtain y eo where res: "res = Returned y eo"
    by (cases res) (auto simp: loop_iterations.simps[of E key sub q o1 i])
  show ?case
  proof (cases eo)
    case (Some err)
    with "1.prems" sub res have "IsGraphInterrupt (Some err) \<and>
        loop_interrupt E i current err w2 = (Returned r (Some (GraphInterrupt vs)), w1)"
      by (auto simp: loop_iterations.simps[of E key sub q o1 i] split: if_splits)
    with sub res Some show ?thesis by fastforce
  next
    case None
    obtain d w3 where q: "q i current y w2 = (d, w3)" by (meson surj_pair)
    from "1.prems" sub res None q have d: "d = Inr False" and lt: "\<not> loMaxIterations o1 \<le> i"
      and rest: "loop_iterations E key sub q o1 (i + 1) y w3 = (Returned r (Some (GraphInterrupt vs)), w1)"
      by (auto simp: loop_iterations.simps[of E key sub q o1 i] split: sum.splits bool.splits if_splits)
    from "1.IH"[OF sub[symmetric] res None q[symmetric] d _ lt rest] obtain k c w0 y err w2 where
      "i + 1 \<le> k" "k \<le> max (i + 1) (loMaxIterations o1)"
      "sub (sub_checkpoint_id o1 key k) c w0 = (Returned y (Some err), w2) \<and>
       IsGraphInterrupt (Some err) \<and> loop_interrupt E k c err w2 = (Returned r (Some (GraphInterrupt vs)), w1)"
      by blast
    moreover from this(1,2) lt have "i \<le> k" "k \<le> max i (loMaxIterations o1)" by auto
    ultimately show ?thesis by blast
  qed
qed

text \<open>When the sub-graph interrupts and the interrupt context still has an answer, a value the client
  gave that no interrupt has taken or a null resume, the loop node takes it for its own interrupt
  and ends with no output and no error: the interrupt of the sub-graph is lost.\<close>

theorem loop_interrupt_swallowed:
  assumes "sub (sub_checkpoint_id o1 key i) current w = (Returned y (Some (GraphInterrupt vs)), w1)"
    and "json_text (leLib E) current = Some t"
    and "icIndex (is_current (fst w1)) < length (icResumeValues (is_current (fst w1))) \<or>
      icNullResume (is_current (fst w1)) \<noteq> VNil"
  shows "fst (loop_iterations E key sub q o1 i current w) = Returned VNil None"
  using assms
  by (subst loop_iterations.simps)
    (auto simp: IsGraphInterrupt_def loop_interrupt_def Let_def Interrupt_def consumeNextResumeValue_def)

definition text_lib :: golib where
  "text_lib = demo_lib\<lparr>json_text := (\<lambda>v. case v of VStr t \<Rightarrow> Some t | _ \<Rightarrow> Some ''1'')\<rparr>"

definition interrupting :: "'w sub_graph" where
  "interrupting t x w = (Returned VNil (Some (GraphInterrupt [VInterrupt (VStr ''?'') ''i''])), w)"

theorem loop_interrupt_swallowed_witness:
  "fst (loop_iterations (demo_env\<lparr>leLib := text_lib\<rparr>) ''n'' interrupting (stop_at 9)
     \<lparr>loMaxIterations = 3, loCheckpointIDPrefix = ''n''\<rparr> 1 VNil (SetResumeValues [VInt 1] demo_istate, ())) =
   Returned VNil None"
proof (rule loop_interrupt_swallowed)
  let ?s = "SetResumeValues [VInt 1] demo_istate"
  show "interrupting t VNil (?s, ()) = (Returned VNil (Some (GraphInterrupt [VInterrupt (VStr ''?'') ''i''])), (?s, ()))" for t
    by (simp add: interrupting_def)
  show "json_text (leLib (demo_env\<lparr>leLib := text_lib\<rparr>)) VNil = Some ''1''"
    by (simp add: text_lib_def)
  have "icResumeValues (is_current ?s) = [VInt 1]" "icIndex (is_current ?s) = 0"
    by (simp_all add: SetResumeValues_def setResumeValues_def demo_istate_def new_interrupt_context_def is_current_def is_put_def)
  then show "icIndex (is_current (fst (?s, ()))) < length (icResumeValues (is_current (fst (?s, ())))) \<or>
      icNullResume (is_current (fst (?s, ()))) \<noteq> VNil" by simp
qed

end
