(* ===== verification/Loop_Resume.thy ===== *)
theory Loop_Resume
  imports Loop Engine_Resume
begin

text \<open>
  How an interrupted loop node resumes: the state in its interrupt, what the engine saves of it
  (\<^verbatim>\<open>pregel/engine.go\<close>) and what the node finds in its context on the next run.
\<close>

text \<open>The laws of JSON that the loop relies on: a state and a value survive marshalling; the
  value comes back as \<open>rt\<close> says (numbers as floats and so on).\<close>

definition json_laws :: "golib \<Rightarrow> loop_json \<Rightarrow> (gval \<Rightarrow> gval) \<Rightarrow> bool" where
  "json_laws L J rt \<longleftrightarrow>
     (\<forall>st. jnWrap J st \<noteq> VNil) \<and>
     (\<forall>st t. json_text L (jnWrap J st) = Some t \<longrightarrow> jnLoop J t = Some st) \<and>
     (\<forall>v t. json_text L v = Some t \<longrightarrow> jnAny J t = Inr (rt v))"

lemma loop_interrupt_value:
  assumes "loop_interrupt E k c err w = (Returned r (Some (GraphInterrupt vs)), w1)"
  obtains t fill i where "json_text (leLib E) c = Some t"
    "vs = [VInterrupt (jnWrap (leJSON E) \<lparr>lsIteration = k, lsCurrentInput = Some t, lsUserFillUp = fill\<rparr>) i]"
proof -
  from assms obtain t where t: "json_text (leLib E) c = Some t"
    by (cases "json_text (leLib E) c") (auto simp: loop_interrupt_def)
  let ?f = "case GetInterruptValue (Some err) of Some v \<Rightarrow> if v \<noteq> VNil then json_text (leLib E) v else None | None \<Rightarrow> None"
  let ?v = "jnWrap (leJSON E) \<lparr>lsIteration = k, lsCurrentInput = Some t, lsUserFillUp = ?f\<rparr>"
  obtain x s' where x: "Interrupt (leHash E) (leLib E) ?v (fst w) = (x, s')" by (meson surj_pair)
  with assms t have "x = Inl (GraphInterrupt vs)"
    by (cases x) (auto simp: loop_interrupt_def Let_def)
  with x have "\<exists>i. vs = [VInterrupt ?v i]"
    by (auto simp: Interrupt_def generateInterruptID_def Let_def split: option.splits prod.splits if_splits)
  with t that show thesis by blast
qed

lemma runLoop_from:
  assumes "leSubState E = Some (VBytes b)" "valid_state E b = Some \<lparr>lsIteration = k, lsCurrentInput = Some t, lsUserFillUp = fl\<rparr>"
    and "jnAny (leJSON E) t = Inr v"
  shows "runLoop E key sub input q o1 w = loop_iterations E key sub q o1 k (if v = VNil then VMap fmempty else v) w"
  using assms by (simp add: runLoop_def loadLoopSnapshot_def)


definition resume_state :: loop_state where
  "resume_state = \<lparr>lsIteration = 1, lsCurrentInput = Some ''0'', lsUserFillUp = None\<rparr>"

definition resume_lib :: golib where
  "resume_lib = demo_lib\<lparr>json_text := (\<lambda>v. if v = VStr ''s'' then Some ''s'' else if v = VInt 0 then Some ''0'' else None),
     json_bytes := (\<lambda>t. CHR ''='' # t)\<rparr>"

definition resume_json :: loop_json where
  "resume_json = \<lparr>jnAny = (\<lambda>t. Inr (if t = ''s'' then VStr ''s'' else VInt 0)),
     jnLoop = (\<lambda>t. if t = ''s'' then Some resume_state else None), jnError = (\<lambda>v. ''no''),
     jnWrap = (\<lambda>st. if st = resume_state then VStr ''s'' else VBool True)\<rparr>"

definition resume_env :: loop_env where
  "resume_env = \<lparr>leLib = resume_lib, leHash = (\<lambda>s. s), leJSON = resume_json, leSubState = None\<rparr>"

definition asking :: "'w sub_graph" where
  "asking t x w = (Returned VNil (Some (GraphInterrupt [VInterrupt (VBool True) ''i''])), w)"

definition resume_options :: loop_options where
  "resume_options = \<lparr>loMaxIterations = 3, loCheckpointIDPrefix = ''n''\<rparr>"

lemma resume_laws: "json_laws resume_lib resume_json (\<lambda>v. v)"
  by (auto simp: json_laws_def resume_lib_def resume_json_def)

lemma asking_run:
  "runLoop resume_env ''n'' asking (VInt 0) (stop_at 9) resume_options (demo_istate, ()) =
     (Returned VNil (Some (GraphInterrupt [VInterrupt (VStr ''s'') ''s_1''])), (demo_istate\<lparr>isCounter := 1\<rparr>, ()))"
proof -
  have [simp]: "is_current demo_istate = new_interrupt_context" "isCounter demo_istate = 0"
    by (simp_all add: demo_istate_def is_current_def)
  have [simp]: "show_int 1 = ''1''" by code_simp
  have int: "Interrupt (\<lambda>s. s) resume_lib (VStr ''s'') demo_istate =
      (Inl (GraphInterrupt [VInterrupt (VStr ''s'') ''s_1'']), demo_istate\<lparr>isCounter := 1\<rparr>)"
    by (simp add: Interrupt_def consumeNextResumeValue_def new_interrupt_context_def generateInterruptID_def)
  have "loop_interrupt resume_env 1 (VInt 0) (GraphInterrupt [VInterrupt (VBool True) ''i'']) (demo_istate, ()) =
      (Returned VNil (Some (GraphInterrupt [VInterrupt (VStr ''s'') ''s_1''])), (demo_istate\<lparr>isCounter := 1\<rparr>, ()))"
    using int by (simp add: loop_interrupt_def resume_env_def resume_lib_def GetInterruptValue_def resume_json_def resume_state_def Let_def)
  moreover have "loadLoopSnapshot resume_env demo_istate = None"
    by (simp add: loadLoopSnapshot_def resume_env_def GetResumeValues_def new_interrupt_context_def)
  ultimately show ?thesis
    by (simp add: runLoop_def loop_iterations.simps asking_def IsGraphInterrupt_def)
qed


text \<open>Through the memory saver the loop forgets where it was: the saver copies checkpoints through
  JSON, so the bytes of the saved state come back as base64 text (\<open>json_bytes\<close>), the engine puts
  that text in the node's context, and unless it happens to be the text of a state the loop starts
  again at its first iteration with the input the node is given.\<close>

theorem loop_state_lost:
  assumes saver: "egCheckpointer (rnEngine s) = Some (memory_saver_of L uuid now)"
      "egCheckpointer e = Some (memory_saver_of L uuid now)" "requested_id e = None"
    and stop: "handle_interrupt L R s rs w = (err, w1)" "sub_state L rs = Some b"
    and utf8: "\<And>x. json_string L x = x"
    and env: "leSubState E = Some (VBytes (json_bytes L b))"
    and garbled: "jnLoop (leJSON E) (json_bytes L b) = None" "GetResumeValues (fst w2) = []"
  shows "\<exists>d. fetch_checkpoint L e (rnThread s) w1 = (Inr (Some d), w1) \<and>
    (\<forall>v. restore_sub R d v = rtSetSub R (json_bytes L b) v) \<and>
    runLoop E key sub input q o1 w2 =
      loop_iterations E key sub q o1 1 (if input = VNil then VMap fmempty else input) w2"
proof -
  let ?p = "interrupt_payload L (rg_CreateCheckpoint (ordReg (rtOrders R w) (rnRegistry s)))
    (rnCompleted s) (rnLastNode s) (rnStep s) (rnLastState s) rs"
  from put_then_fetch[OF saver, of "rnThread s" ?p w] stop(1)
  have "fetch_checkpoint L e (rnThread s) w1 = (Inr (Some (saver_copy L ?p)), w1)"
    by (auto simp: handle_interrupt_def Let_def)
  moreover have "fmlookup ?p ''__sub_state__'' = Some (VBytes b)"
    by (simp add: interrupt_payload_def Let_def stop(2))
  then have "restore_sub R (saver_copy L ?p) v = rtSetSub R (json_bytes L b) v" for v
    by (simp add: restore_sub_def saver_copy_lookup copy_str utf8 json_copy_def)
  moreover have "loadLoopSnapshot E (fst w2) = None"
    by (simp add: loadLoopSnapshot_def env valid_state_def garbled)
  ultimately show ?thesis by (auto simp: runLoop_def)
qed

definition resume_run :: "memory_saver run" where
  "resume_run = memory_run\<lparr>rnEngine := (rnEngine memory_run)\<lparr>egCheckpointer := Some (memory_saver_of resume_lib ''u'' 0)\<rparr>\<rparr>"

theorem loop_state_lost_witness:
  "\<exists>err w1 d. handle_interrupt resume_lib demo_runtime resume_run
      [\<lparr>trName = ''n'', trOutput = VNil, trErr = Some (GraphInterrupt [VInterrupt (VStr ''s'') ''i''])\<rparr>] NewMemorySaver = (err, w1) \<and>
     fetch_checkpoint resume_lib (rnEngine resume_run) (rnThread resume_run) w1 = (Inr (Some d), w1) \<and>
     runLoop (resume_env\<lparr>leSubState := Some (VBytes ''=s'')\<rparr>) ''n'' asking (VInt 0) (stop_at 9) resume_options (demo_istate, ()) =
     loop_iterations (resume_env\<lparr>leSubState := Some (VBytes ''=s'')\<rparr>) ''n'' asking (stop_at 9) resume_options 1 (VInt 0) (demo_istate, ())"
proof -
  let ?rs = "[\<lparr>trName = ''n'', trOutput = VNil, trErr = Some (GraphInterrupt [VInterrupt (VStr ''s'') ''i''])\<rparr>]"
  obtain err w1 where h: "handle_interrupt resume_lib demo_runtime resume_run ?rs NewMemorySaver = (err, w1)" by (meson surj_pair)
  have c: "egCheckpointer (rnEngine resume_run) = Some (memory_saver_of resume_lib ''u'' 0)" "requested_id (rnEngine resume_run) = None"
    by (simp_all add: resume_run_def memory_run_def requested_id_def)
  have b: "sub_state resume_lib ?rs = Some ''s''" by (simp add: sub_state_def resume_lib_def)
  from loop_state_lost[OF c(1) c(1) c(2) h b, of "resume_env\<lparr>leSubState := Some (VBytes ''=s'')\<rparr>" "(demo_istate, ())" "''n''" asking "VInt 0" "stop_at 9" resume_options]
  show ?thesis using h
    by (auto simp: resume_env_def resume_json_def resume_lib_def demo_lib_def GetResumeValues_def demo_istate_def
        is_current_def new_interrupt_context_def)
qed

end
