(* ===== verification/Parallel.thy ===== *)
theory Parallel
  imports Interrupt Retry
begin

text \<open>
  Parallel nodes (\<^verbatim>\<open>graph/parallel.go\<close>): a node that runs a compiled sub-graph on every item of a list,
  one after the other or concurrently, and that saves what is done when items interrupt. The
  sub-graph acts on the interrupt state and a world; every run of it is one step, and the order
  in which concurrent items run is an argument. The texts of JSON are parameters.
\<close>

section \<open>Parameters and state\<close>

record parallel_state =
  psInputs :: string
  psCompleted :: "(int, gval) fmap"
  psInterrupted :: "int list"
  psTotal :: int
  psItems :: "(string, string) fmap"

text \<open>
  \<open>peParse\<close> is \<^verbatim>\<open>json.Unmarshal\<close> into the saved state, \<open>peWrap\<close> the state as a value of type
  \<^verbatim>\<open>interface{}\<close>, \<open>peError\<close> the text of the error of \<^verbatim>\<open>json.Marshal\<close>.
\<close>

record parallel_env =
  peLib :: golib
  peHash :: "string \<Rightarrow> string"
  peParse :: "string \<Rightarrow> parallel_state option"
  peWrap :: "parallel_state \<Rightarrow> gval"
  peError :: "gval \<Rightarrow> string"

type_synonym 'w item_graph = "string \<Rightarrow> gval \<Rightarrow> istate \<times> 'w \<Rightarrow> called \<times> istate \<times> 'w"

record parallel_options =
  poMaxConcurrency :: int

definition WithParallelMaxConcurrency :: "int \<Rightarrow> parallel_options \<Rightarrow> parallel_options" where
  "WithParallelMaxConcurrency n o1 = (if n \<ge> 0 then o1\<lparr>poMaxConcurrency := n\<rparr> else o1)"

definition getParallelOptions :: "(parallel_options \<Rightarrow> parallel_options) list \<Rightarrow> parallel_options" where
  "getParallelOptions opts = fold (\<lambda>opt o1. opt o1) opts \<lparr>poMaxConcurrency = 0\<rparr>"

definition ErrParallelItemFailed :: gerr where
  "ErrParallelItemFailed = ErrorString ''graph: parallel item failed''"

section \<open>Checkpoints of items\<close>

definition newItemCheckpointStore :: "(string, string) fmap option \<Rightarrow> (string, string) fmap" where
  "newItemCheckpointStore data = (case data of None \<Rightarrow> fmempty | Some m \<Rightarrow> m)"

definition item_get :: "(string, string) fmap \<Rightarrow> string \<Rightarrow> string option" where
  "item_get s i = fmlookup s i"

definition item_set :: "string \<Rightarrow> string \<Rightarrow> (string, string) fmap \<Rightarrow> (string, string) fmap" where
  "item_set i payload s = fmupd i payload s"

definition item_snapshot :: "(string, string) fmap \<Rightarrow> (string, string) fmap" where
  "item_snapshot s = s"

fun snapshot_loop :: "parallel_env \<Rightarrow> gval list \<Rightarrow> parallel_state option" where
  "snapshot_loop E [] = None"
| "snapshot_loop E (v # vs) =
     (case (case v of VBytes t \<Rightarrow> peParse E t | VStr t \<Rightarrow> peParse E t | _ \<Rightarrow> None) of
        Some st \<Rightarrow> (if psTotal st > 0 then Some st else snapshot_loop E vs)
      | None \<Rightarrow> snapshot_loop E vs)"

definition loadParallelSnapshot :: "parallel_env \<Rightarrow> istate \<Rightarrow> parallel_state option" where
  "loadParallelSnapshot E s = snapshot_loop E (GetResumeValues s)"

section \<open>Running the items\<close>

type_synonym item_result = "int \<times> gval \<times> gerr option"

definition item_id :: "string \<Rightarrow> int \<Rightarrow> string" where
  "item_id key idx = ''parallel:'' @ key @ '':item:'' @ show_int idx"

definition run_one ::
  "parallel_env \<Rightarrow> string \<Rightarrow> 'w item_graph \<Rightarrow> gval list \<Rightarrow> int \<Rightarrow> istate \<times> 'w \<Rightarrow> item_result \<times> istate \<times> 'w"
where
  "run_one E key sub items idx w =
     (if idx < 0 \<or> idx \<ge> int (length items)
      then ((idx, VNil, Some (ErrorString (''parallel item index '' @ show_int idx @ '' out of bounds (len(items)='' @
              show_nat (length items) @ '')''))), w)
      else (case sub (item_id key idx) (items ! nat idx) w of
          (Panicked r, w1) \<Rightarrow>
            ((idx, VNil, Some (ErrorString (''parallel item '' @ show_int idx @ '' panic: '' @ fmt_v (peLib E) r))), w1)
        | (Returned out err, w1) \<Rightarrow> ((idx, out, err), w1)))"

fun run_items ::
  "parallel_env \<Rightarrow> string \<Rightarrow> 'w item_graph \<Rightarrow> gval list \<Rightarrow> int list \<Rightarrow> istate \<times> 'w \<Rightarrow> item_result list \<times> istate \<times> 'w"
where
  "run_items E key sub items [] w = ([], w)"
| "run_items E key sub items (i # is) w =
     (case run_one E key sub items i w of (r, w1) \<Rightarrow>
        (case run_items E key sub items is w1 of (rs, w2) \<Rightarrow> (r # rs, w2)))"

text \<open>The results in the order they arrive: the first item runs before the others are started.\<close>

definition run_order :: "parallel_options \<Rightarrow> (int list \<Rightarrow> int list) \<Rightarrow> int list \<Rightarrow> int list" where
  "run_order o1 sched indices =
     (if poMaxConcurrency o1 \<le> 1 then indices
      else (case indices of [] \<Rightarrow> [] | i # is \<Rightarrow> i # sched is))"

definition fanOutItems ::
  "parallel_env \<Rightarrow> (int list \<Rightarrow> int list) \<Rightarrow> string \<Rightarrow> 'w item_graph \<Rightarrow> gval list \<Rightarrow> int list \<Rightarrow> parallel_options
   \<Rightarrow> istate \<times> 'w \<Rightarrow> item_result list \<times> istate \<times> 'w"
where
  "fanOutItems E sched key sub items indices o1 w =
     (if length indices = 0 then ([], w) else run_items E key sub items (run_order o1 sched indices) w)"

section \<open>Collecting\<close>

record collected =
  coOutputs :: "gval list"
  coCompleted :: "(int, gval) fmap"
  coInterrupt :: bool
  coError :: "gerr option"

definition collect_one :: "golib \<Rightarrow> item_result \<Rightarrow> collected \<Rightarrow> collected" where
  "collect_one L r c = (case r of (idx, out, err) \<Rightarrow>
     (case err of
        None \<Rightarrow>
          c\<lparr>coOutputs := (if idx \<ge> 0 \<and> idx < int (length (coOutputs c)) then (coOutputs c)[nat idx := out] else coOutputs c),
            coCompleted := fmupd idx out (coCompleted c)\<rparr>
      | Some e \<Rightarrow>
          (if IsGraphInterrupt (Some e) then c\<lparr>coInterrupt := True\<rparr>
           else if coError c = None
             then c\<lparr>coError := Some (SuffixError ErrParallelItemFailed (''item '' @ show_int idx @ '': '' @ error_text L e))\<rparr>
           else c)))"

fun collect_item_results :: "golib \<Rightarrow> item_result list \<Rightarrow> collected \<Rightarrow> collected" where
  "collect_item_results L [] c = c"
| "collect_item_results L (r # rs) c = collect_item_results L rs (collect_one L r c)"

text \<open>The results that a saved state holds, at their places.\<close>

definition replay_outputs :: "parallel_state \<Rightarrow> gval list" where
  "replay_outputs st = map (\<lambda>i. case fmlookup (psCompleted st) (int i) of Some v \<Rightarrow> v | None \<Rightarrow> VNil) [0..<nat (psTotal st)]"

definition pending_items :: "int \<Rightarrow> (int, gval) fmap \<Rightarrow> int list" where
  "pending_items tot completed = filter (\<lambda>i. fmlookup completed i = None) (map int [0..<nat tot])"

text \<open>The plan of a run: outputs so far, indices to process, number of items, item checkpoints.\<close>

definition parallel_plan ::
  "parallel_state option \<Rightarrow> gval list \<Rightarrow> gval list \<times> int list \<times> int \<times> (string, string) fmap" where
  "parallel_plan prev items = (case prev of
     None \<Rightarrow> (replicate (length items) VNil, map int [0..<length items], int (length items), newItemCheckpointStore None)
   | Some st \<Rightarrow> (replay_outputs st, psInterrupted st, psTotal st, newItemCheckpointStore (Some (psItems st))))"

definition runParallel ::
  "parallel_env \<Rightarrow> (int list \<Rightarrow> int list) \<Rightarrow> string \<Rightarrow> 'w item_graph \<Rightarrow> gval list \<Rightarrow> parallel_options
   \<Rightarrow> istate \<times> 'w \<Rightarrow> called \<times> istate \<times> 'w"
where
  "runParallel E sched key sub items o1 w =
     (case parallel_plan (loadParallelSnapshot E (fst w)) items of (outputs, indices, tot, store) \<Rightarrow>
        if length indices = 0 then (Returned (VList outputs) None, w)
        else (case fanOutItems E sched key sub items indices o1 w of (rs, w1) \<Rightarrow>
          (let c = collect_item_results (peLib E) rs \<lparr>coOutputs = outputs, coCompleted = fmempty, coInterrupt = False, coError = None\<rparr>
           in if coError c \<noteq> None then (Returned VNil (coError c), w1)
              else if coInterrupt c then
                (case json_text (peLib E) (VList items) of
                   None \<Rightarrow> (Returned VNil (Some (WrapError ''graph: parallel marshal inputs''
                              (ErrorString (peError E (VList items))))), w1)
                 | Some t \<Rightarrow>
                     (case Interrupt (peHash E) (peLib E)
                             (peWrap E \<lparr>psInputs = t, psCompleted = coCompleted c, psInterrupted = pending_items tot (coCompleted c),
                                        psTotal = tot, psItems = item_snapshot store\<rparr>) (fst w1) of
                        (Inl e, s) \<Rightarrow> (Returned VNil (Some e), (s, snd w1))
                      | (Inr v, s) \<Rightarrow> (Returned VNil None, (s, snd w1))))
              else (Returned (VList (coOutputs c)) None, w1))))"

text \<open>The items in the state a node gets; \<open>None\<close> for the sub-graph is a nil pointer.\<close>

definition parallel_items :: "gval \<Rightarrow> gerr + gval list" where
  "parallel_items state = (case state of
     VList xs \<Rightarrow> Inr xs
   | VMap m \<Rightarrow>
       (let i1 = (case fmlookup m ''__input__'' of Some (VList xs) \<Rightarrow> Some xs | _ \<Rightarrow> None);
            i2 = (if i1 = None then (case fmlookup m ''items'' of Some (VList xs) \<Rightarrow> Some xs | _ \<Rightarrow> None) else i1)
        in case i2 of Some xs \<Rightarrow> Inr xs
         | None \<Rightarrow> Inl (ErrorString (''graph: parallel node cannot extract []interface{} from '' @ type_name state)))
   | _ \<Rightarrow> Inl (ErrorString (''graph: parallel node expects []interface{} input, got '' @ type_name state)))"

definition NewParallelNodeFunc ::
  "string \<Rightarrow> 'w item_graph option \<Rightarrow> (parallel_options \<Rightarrow> parallel_options) list
   \<Rightarrow> gerr + (parallel_env \<Rightarrow> (int list \<Rightarrow> int list) \<Rightarrow> gval \<Rightarrow> istate \<times> 'w \<Rightarrow> called \<times> istate \<times> 'w)"
where
  "NewParallelNodeFunc key sub opts =
     (if key = [] then Inl (ErrorString ''graph: parallel key is empty'')
      else (case sub of None \<Rightarrow> Inl (ErrorString ''graph: parallel sub-graph is nil'')
        | Some g \<Rightarrow> Inr (\<lambda>E sched state w.
            (case parallel_items state of
               Inl e \<Rightarrow> (Returned VNil (Some e), w)
             | Inr items \<Rightarrow> runParallel E sched key g items (getParallelOptions opts) w))))"

section \<open>Outcomes that do not depend on the order\<close>

text \<open>\<open>outcomes sub key items res\<close>: what the sub-graph does with an item does not depend on the
  state it runs in; \<open>res i\<close> is the result of item \<open>i\<close>.\<close>

definition outcomes ::
  "parallel_env \<Rightarrow> 'w item_graph \<Rightarrow> string \<Rightarrow> gval list \<Rightarrow> (int \<Rightarrow> gval \<times> gerr option) \<Rightarrow> bool" where
  "outcomes E sub key items res \<longleftrightarrow> (\<forall>i w. fst (run_one E key sub items i w) = (i, res i))"

definition done_item :: "(int \<Rightarrow> gval \<times> gerr option) \<Rightarrow> int \<Rightarrow> bool" where
  "done_item res i \<longleftrightarrow> snd (res i) = None"

definition failed_item :: "(int \<Rightarrow> gval \<times> gerr option) \<Rightarrow> int \<Rightarrow> bool" where
  "failed_item res i \<longleftrightarrow> snd (res i) \<noteq> None \<and> \<not> IsGraphInterrupt (snd (res i))"

lemma run_items_outcomes:
  assumes "outcomes E sub key items res"
  shows "fst (run_items E key sub items is w) = map (\<lambda>i. (i, res i)) is"
proof (induction "is" arbitrary: w)
  case (Cons i "is")
  obtain r w1 where r: "run_one E key sub items i w = (r, w1)" by (meson surj_pair)
  with assms have "r = (i, res i)" unfolding outcomes_def by (metis fst_conv)
  with r Cons[of w1] show ?case by (simp add: case_prod_unfold)
qed simp

lemma collect_outcomes:
  "coOutputs (collect_item_results L (map (\<lambda>i. (i, res i)) is) c) =
     map (\<lambda>k. if int k \<in> set is \<and> done_item res (int k) then fst (res (int k)) else coOutputs c ! k) [0..<length (coOutputs c)] \<and>
   (\<forall>i. fmlookup (coCompleted (collect_item_results L (map (\<lambda>i. (i, res i)) is) c)) i =
     (if i \<in> set is \<and> done_item res i then Some (fst (res i)) else fmlookup (coCompleted c) i)) \<and>
   (coInterrupt (collect_item_results L (map (\<lambda>i. (i, res i)) is) c) \<longleftrightarrow>
     coInterrupt c \<or> (\<exists>i \<in> set is. IsGraphInterrupt (snd (res i)))) \<and>
   coError (collect_item_results L (map (\<lambda>i. (i, res i)) is) c) =
     (case coError c of Some e \<Rightarrow> Some e
      | None \<Rightarrow> map_option (\<lambda>i. SuffixError ErrParallelItemFailed (''item '' @ show_int i @ '': '' @ error_text L (the (snd (res i)))))
          (List.find (failed_item res) is))"
proof (induction "is" arbitrary: c)
  case Nil
  show ?case by (auto simp: map_nth split: option.splits)
next
  case (Cons i "is")
  obtain out err where r: "res i = (out, err)" by (cases "res i")
  let ?c = "collect_one L (i, res i) c"
  have len: "length (coOutputs ?c) = length (coOutputs c)"
    by (auto simp: collect_one_def r split: option.splits)
  have out: "coOutputs ?c ! k = (if int k = i \<and> done_item res i then fst (res i) else coOutputs c ! k)"
    if "k < length (coOutputs c)" for k
    using that by (auto simp: collect_one_def r done_item_def nth_list_update split: option.splits)
  have comp: "fmlookup (coCompleted ?c) j = (if j = i \<and> done_item res i then Some (fst (res i)) else fmlookup (coCompleted c) j)" for j
    by (auto simp: collect_one_def r done_item_def split: option.splits)
  have int: "coInterrupt ?c \<longleftrightarrow> coInterrupt c \<or> IsGraphInterrupt (snd (res i))"
    by (auto simp: collect_one_def r IsGraphInterrupt_def split: option.splits)
  have err: "coError ?c = (case coError c of Some e \<Rightarrow> Some e | None \<Rightarrow>
      if failed_item res i then Some (SuffixError ErrParallelItemFailed (''item '' @ show_int i @ '': '' @ error_text L (the (snd (res i))))) else None)"
    by (auto simp: collect_one_def r failed_item_def split: option.splits)
  note IH = Cons.IH[of ?c]
  show ?case
  proof (intro conjI allI)
    show "coOutputs (collect_item_results L (map (\<lambda>i. (i, res i)) (i # is)) c) =
      map (\<lambda>k. if int k \<in> set (i # is) \<and> done_item res (int k) then fst (res (int k)) else coOutputs c ! k)
        [0..<length (coOutputs c)]"
      using conjunct1[OF IH] by (simp add: len) (auto simp: out)
    show "fmlookup (coCompleted (collect_item_results L (map (\<lambda>i. (i, res i)) (i # is)) c)) j =
      (if j \<in> set (i # is) \<and> done_item res j then Some (fst (res j)) else fmlookup (coCompleted c) j)" for j
      using conjunct1[OF conjunct2[OF IH]] by (auto simp: comp)
    show "coInterrupt (collect_item_results L (map (\<lambda>i. (i, res i)) (i # is)) c) \<longleftrightarrow>
      coInterrupt c \<or> (\<exists>i \<in> set (i # is). IsGraphInterrupt (snd (res i)))"
      using IH by (simp add: int disj_assoc)
    show "coError (collect_item_results L (map (\<lambda>i. (i, res i)) (i # is)) c) =
      (case coError c of Some e \<Rightarrow> Some e
       | None \<Rightarrow> map_option (\<lambda>i. SuffixError ErrParallelItemFailed (''item '' @ show_int i @ '': '' @ error_text L (the (snd (res i)))))
          (List.find (failed_item res) (i # is)))"
      using IH by (simp add: err split: option.split)
  qed
qed

lemma collect_outcomes_all:
  assumes "set is = set (map int [0..<n])" "length outs = n"
  shows "coOutputs (collect_item_results L (map (\<lambda>i. (i, res i)) is)
      \<lparr>coOutputs = outs, coCompleted = fmempty, coInterrupt = False, coError = None\<rparr>) =
    map (\<lambda>k. if done_item res (int k) then fst (res (int k)) else outs ! k) [0..<n]"
  using assms by (auto simp: collect_outcomes)

text \<open>A schedule starts every item once.\<close>

definition schedule_ok :: "(int list \<Rightarrow> int list) \<Rightarrow> bool" where
  "schedule_ok sched \<longleftrightarrow> (\<forall>is. set (sched is) = set is)"

lemma run_order_set: "schedule_ok sched \<Longrightarrow> set (run_order o1 sched is) = set is"
  by (cases "is") (auto simp: run_order_def schedule_ok_def)

lemma fanOut_outcomes:
  assumes "outcomes E sub key items res"
  shows "\<exists>w1. fanOutItems E sched key sub items is o1 w = (map (\<lambda>i. (i, res i)) (if is = [] then [] else run_order o1 sched is), w1)"
  using run_items_outcomes[OF assms, of "run_order o1 sched is" w]
  by (cases "run_items E key sub items (run_order o1 sched is) w") (auto simp: fanOutItems_def)

text \<open>No answer to an interrupt is left.\<close>

definition unanswered :: "istate \<Rightarrow> bool" where
  "unanswered s \<longleftrightarrow> icIndex (is_current s) \<ge> length (icResumeValues (is_current s)) \<and> icNullResume (is_current s) = VNil"

text \<open>A sub-graph that leaves the state alone, for concrete instances.\<close>

definition pure_result :: "parallel_env \<Rightarrow> (gval \<Rightarrow> called) \<Rightarrow> gval list \<Rightarrow> int \<Rightarrow> gval \<times> gerr option" where
  "pure_result E g items i = snd (fst (run_one E [] (\<lambda>t x w. (g x, w)) items i (\<lparr>isPer = None, isGlobal = new_interrupt_context, isCounter = 0\<rparr>, ())))"

definition pure_graph :: "(gval \<Rightarrow> called) \<Rightarrow> 'w item_graph" where
  "pure_graph g t x w = (g x, w)"

lemma pure_run_one: "run_one E key (pure_graph g) items i w = ((i, pure_result E g items i), w)"
  by (simp add: run_one_def pure_graph_def pure_result_def split: called.split)

lemma pure_outcomes: "outcomes E (pure_graph g) key items (pure_result E g items)"
  by (simp add: outcomes_def pure_run_one)

lemma pure_run_items: "snd (run_items E key (pure_graph g) items is w) = w"
  by (induction "is" arbitrary: w) (simp_all add: pure_run_one case_prod_unfold)

lemma pure_fanOut: "snd (fanOutItems E sched key (pure_graph g) items is o1 w) = w"
  by (simp add: fanOutItems_def pure_run_items)

definition demo_penv :: parallel_env where
  "demo_penv = \<lparr>peLib = demo_lib\<lparr>json_text := (\<lambda>v. Some ''[]'')\<rparr>, peHash = (\<lambda>s. s), peParse = (\<lambda>t. None),
     peWrap = (\<lambda>st. VInt (word_of_int (psTotal st))), peError = (\<lambda>v. ''no'')\<rparr>"

definition doubled :: "gval \<Rightarrow> called" where
  "doubled v = (case v of VInt n \<Rightarrow> Returned (VInt (n + n)) None
     | VStr s \<Rightarrow> Returned VNil (Some (GraphInterrupt [VInterrupt v ''i''])) | _ \<Rightarrow> Panicked (VStr ''no''))"

definition answered :: "gval \<Rightarrow> called" where
  "answered v = (case v of VStr s \<Rightarrow> Returned (VInt 0) None | _ \<Rightarrow> doubled v)"

definition idle_world :: "istate \<times> unit" where
  "idle_world = (\<lparr>isPer = None, isGlobal = new_interrupt_context, isCounter = 0\<rparr>, ())"

lemma idle_simps [simp]: "unanswered (fst idle_world)" "loadParallelSnapshot demo_penv (fst idle_world) = None"
  by (simp_all add: unanswered_def idle_world_def is_current_def new_interrupt_context_def loadParallelSnapshot_def GetResumeValues_def)

lemma schedule_rev: "schedule_ok rev"
  by (simp add: schedule_ok_def)

lemma pure_result_in:
  "0 \<le> i \<Longrightarrow> i < int (length items) \<Longrightarrow> pure_result E g items i =
     (case g (items ! nat i) of Returned v e \<Rightarrow> (v, e)
      | Panicked r \<Rightarrow> (VNil, Some (ErrorString (''parallel item '' @ show_int i @ '' panic: '' @ fmt_v (peLib E) r))))"
  by (simp add: pure_result_def run_one_def split: called.split)

text \<open>C24: A parallel node is a map: if no item fails or interrupts, the result is the list of the items'
  results in the order of the items, whatever the limit on concurrency and the order in which they
  run.\<close>

theorem parallel_maps:
  assumes "outcomes E sub key items res" "schedule_ok sched" "loadParallelSnapshot E (fst w) = None"
    and "\<forall>i. 0 \<le> i \<and> i < int (length items) \<longrightarrow> snd (res i) = None"
  shows "fst (runParallel E sched key sub items o1 w) = Returned (VList (map (\<lambda>k. fst (res (int k))) [0..<length items])) None"
proof (cases "items = []")
  case True
  with assms(3) show ?thesis by (simp add: runParallel_def parallel_plan_def)
next
  case False
  let ?is = "map int [0..<length items]"
  let ?js = "run_order o1 sched ?is"
  obtain w1 where fan: "fanOutItems E sched key sub items ?is o1 w = (map (\<lambda>i. (i, res i)) ?js, w1)"
    using fanOut_outcomes[OF assms(1), of sched ?is o1 w] False by auto
  have js: "set ?js = set ?is" by (rule run_order_set[OF assms(2)])
  then have ok: "snd (res i) = None" if "i \<in> set ?js" for i using that assms(4) by auto
  then have "List.find (failed_item res) ?js = None" "\<not> (\<exists>i \<in> set ?js. IsGraphInterrupt (snd (res i)))"
    by (auto simp: find_None_iff failed_item_def IsGraphInterrupt_def)
  moreover have "map (\<lambda>k. if done_item res (int k) then fst (res (int k)) else replicate (length items) VNil ! k) [0..<length items]
      = map (\<lambda>k. fst (res (int k))) [0..<length items]"
    using assms(4) by (simp add: done_item_def)
  ultimately show ?thesis
    using False assms(3) by (simp add: runParallel_def parallel_plan_def fan Let_def collect_outcomes_all[OF js]
        conjunct2[OF collect_outcomes[of _ res ?js]] del: set_map)
qed

theorem parallel_maps_witness:
  "fst (runParallel demo_penv rev ''p'' (pure_graph doubled) [VInt 1, VInt 2, VInt 3] \<lparr>poMaxConcurrency = 2\<rparr> idle_world) =
     Returned (VList [VInt 2, VInt 4, VInt 6]) None"
proof -
  have all: "snd (pure_result demo_penv doubled [VInt 1, VInt 2, VInt 3] i) = None" if "0 \<le> i \<and> i < int (length [VInt 1, VInt 2, VInt 3])" for i
  proof -
    from that have "i \<in> {0, 1, 2}" by auto
    then show ?thesis by (auto simp: pure_result_in doubled_def)
  qed
  show ?thesis
    by (subst parallel_maps[OF pure_outcomes schedule_rev])
      (use all in \<open>simp_all add: pure_result_in doubled_def upt_rec nat_add_distrib\<close>)
qed

text \<open>An item that fails, with an error or a panic, fails the node, with the error of a failing item:
  of the first one in the order of the items when they run one after the other. Interrupts of
  other items and all results are dropped.\<close>

theorem parallel_fails:
  assumes "outcomes E sub key items res" "schedule_ok sched" "loadParallelSnapshot E (fst w) = None"
    and "0 \<le> j" "j < int (length items)" "failed_item res j"
  shows "\<exists>i. 0 \<le> i \<and> i < int (length items) \<and> failed_item res i \<and>
    fst (runParallel E sched key sub items o1 w) =
      Returned VNil (Some (SuffixError ErrParallelItemFailed (''item '' @ show_int i @ '': '' @ error_text (peLib E) (the (snd (res i)))))) \<and>
    (poMaxConcurrency o1 \<le> 1 \<longrightarrow> (\<forall>k. 0 \<le> k \<and> k < i \<longrightarrow> \<not> failed_item res k))"
proof -
  let ?is = "map int [0..<length items]"
  let ?js = "run_order o1 sched ?is"
  from assms(4,5) have ne: "?is \<noteq> []" by auto
  obtain w1 where fan: "fanOutItems E sched key sub items ?is o1 w = (map (\<lambda>i. (i, res i)) ?js, w1)"
    using fanOut_outcomes[OF assms(1), of sched ?is o1 w] ne by auto
  have js: "set ?js = set ?is" by (rule run_order_set[OF assms(2)])
  have "j \<in> set ?is" using assms(4,5) by (auto intro!: image_eqI[of _ _ "nat j"])
  with js assms(6) obtain i where i: "List.find (failed_item res) ?js = Some i"
    using find_None_iff[of "failed_item res" ?js] by fastforce
  then obtain n where n: "n < length ?js" "failed_item res (?js ! n)" "i = ?js ! n" "\<forall>m < n. \<not> failed_item res (?js ! m)"
    by (auto simp: find_Some_iff)
  then have "i \<in> set ?is" using js nth_mem by metis
  then have "0 \<le> i" "i < int (length items)" by auto
  moreover have "\<not> failed_item res k" if "poMaxConcurrency o1 \<le> 1" "0 \<le> k" "k < i" for k
  proof -
    from that(1) have "?js = ?is" by (simp add: run_order_def)
    with n have "i = int n" "n < length items" by auto
    with that n(4) \<open>?js = ?is\<close> show ?thesis by (metis dual_order.strict_trans length_map nat_0_le nth_map nth_upt
      length_upt add_0 diff_zero zless_nat_eq_int_zless nat_int)
  qed
  moreover have "fst (runParallel E sched key sub items o1 w) =
      Returned VNil (Some (SuffixError ErrParallelItemFailed (''item '' @ show_int i @ '': '' @ error_text (peLib E) (the (snd (res i))))))"
    using ne assms(3) by (simp add: runParallel_def parallel_plan_def fan Let_def i conjunct2[OF collect_outcomes[of _ res ?js]] del: set_map)
  ultimately show ?thesis using n(2,3) by blast
qed

theorem parallel_fails_witness:
  "\<exists>i e. fst (runParallel demo_penv rev ''p'' (pure_graph doubled) [VInt 1, VNil] \<lparr>poMaxConcurrency = 2\<rparr> idle_world) =
     Returned VNil (Some (SuffixError ErrParallelItemFailed (''item '' @ show_int i @ '': '' @ e)))"
proof -
  have "failed_item (pure_result demo_penv doubled [VInt 1, VNil]) 1"
    by (simp add: failed_item_def pure_result_in doubled_def IsGraphInterrupt_def)
  from parallel_fails[OF pure_outcomes schedule_rev _ _ _ this, of idle_world "''p''" "\<lparr>poMaxConcurrency = 2\<rparr>"]
  show ?thesis by auto
qed

section \<open>Interrupts\<close>

lemma Interrupt_unanswered: "unanswered s \<Longrightarrow> \<exists>i s'. Interrupt hash L v s = (Inl (GraphInterrupt [VInterrupt v i]), s')"
  by (simp add: unanswered_def Interrupt_def consumeNextResumeValue_def generateInterruptID_def Let_def)

text \<open>What is saved when, of the items in \<open>is\<close>, some interrupt and none fails.\<close>

definition saved_state ::
  "string \<Rightarrow> int list \<Rightarrow> int \<Rightarrow> (string, string) fmap \<Rightarrow> (int \<Rightarrow> gval \<times> gerr option) \<Rightarrow> parallel_state" where
  "saved_state t is tot store res =
     \<lparr>psInputs = t,
      psCompleted = fmap_of_list (map (\<lambda>i. (i, fst (res i))) (filter (done_item res) is)),
      psInterrupted = filter (\<lambda>i. \<not> (i \<in> set is \<and> done_item res i)) (map int [0..<nat tot]),
      psTotal = tot, psItems = store\<rparr>"

lemma map_of_graph: "map_of (map (\<lambda>i. (i, f i)) xs) i = (if i \<in> set xs then Some (f i) else None)"
  by (induction xs) auto

lemma collect_saved:
  assumes "set js = set is"
  shows "coCompleted (collect_item_results L (map (\<lambda>i. (i, res i)) js)
      \<lparr>coOutputs = outs, coCompleted = fmempty, coInterrupt = False, coError = None\<rparr>) =
    psCompleted (saved_state t is tot store res)"
  by (rule fmap_ext) (auto simp: collect_outcomes saved_state_def fmlookup_of_list map_of_graph assms)

lemma runParallel_interrupts:
  assumes "outcomes E sub key items res" "schedule_ok sched"
    and plan: "parallel_plan (loadParallelSnapshot E (fst w)) items = (outputs, is, tot, store)"
    and some: "i \<in> set is" "IsGraphInterrupt (snd (res i))" and none: "\<forall>i \<in> set is. \<not> failed_item res i"
    and t: "json_text (peLib E) (VList items) = Some t"
    and quiet: "unanswered (fst (snd (fanOutItems E sched key sub items is o1 w)))"
  shows "\<exists>n w'. runParallel E sched key sub items o1 w =
    (Returned VNil (Some (GraphInterrupt [VInterrupt (peWrap E (saved_state t is tot store res)) n])), w')"
proof -
  let ?js = "run_order o1 sched is"
  from some have ne: "is \<noteq> []" by auto
  obtain w1 where fan: "fanOutItems E sched key sub items is o1 w = (map (\<lambda>i. (i, res i)) ?js, w1)"
    using fanOut_outcomes[OF assms(1), of sched "is" o1 w] ne by auto
  have js: "set ?js = set is" by (rule run_order_set[OF assms(2)])
  let ?c = "collect_item_results (peLib E) (map (\<lambda>i. (i, res i)) ?js)
    \<lparr>coOutputs = outputs, coCompleted = fmempty, coInterrupt = False, coError = None\<rparr>"
  have "List.find (failed_item res) ?js = None" using none js by (auto simp: find_None_iff)
  then have err: "coError ?c = None" by (simp add: collect_outcomes)
  have int: "coInterrupt ?c" using some js by (auto simp: collect_outcomes)
  have pend: "pending_items tot (coCompleted ?c) = psInterrupted (saved_state t is tot store res)"
    unfolding pending_items_def saved_state_def
    by (simp add: conjunct1[OF conjunct2[OF collect_outcomes]] js)
  have st: "\<lparr>psInputs = t, psCompleted = coCompleted ?c, psInterrupted = pending_items tot (coCompleted ?c),
      psTotal = tot, psItems = item_snapshot store\<rparr> = saved_state t is tot store res"
    using collect_saved[OF js, of "peLib E" res outputs t tot store] pend by (simp add: saved_state_def item_snapshot_def)
  from quiet fan obtain n s' where "Interrupt (peHash E) (peLib E) (peWrap E (saved_state t is tot store res)) (fst w1) =
      (Inl (GraphInterrupt [VInterrupt (peWrap E (saved_state t is tot store res)) n]), s')"
    using Interrupt_unanswered by (metis snd_conv)
  with ne show ?thesis
    by (simp add: runParallel_def plan fan Let_def err int t st)
qed



text \<open>A second interrupt forgets the first run: when a resumed node interrupts again, the state it saves
  holds the results of this run only, and the items that were done before are listed as interrupted
  and run again the next time.\<close>

theorem parallel_forgets:
  assumes "outcomes E sub key items res" "schedule_ok sched" "loadParallelSnapshot E (fst w) = Some prev"
    and "i \<in> set (psInterrupted prev)" "IsGraphInterrupt (snd (res i))" "\<forall>i \<in> set (psInterrupted prev). \<not> failed_item res i"
    and "json_text (peLib E) (VList items) = Some t"
    and "unanswered (fst (snd (fanOutItems E sched key sub items (psInterrupted prev) o1 w)))"
    and "fmlookup (psCompleted prev) d \<noteq> None" "d \<notin> set (psInterrupted prev)" "0 \<le> d" "d < psTotal prev"
  shows "\<exists>st n w1. runParallel E sched key sub items o1 w = (Returned VNil (Some (GraphInterrupt [VInterrupt (peWrap E st) n])), w1) \<and>
    fmlookup (psCompleted st) d = None \<and> d \<in> set (psInterrupted st)"
proof -
  have plan: "parallel_plan (loadParallelSnapshot E (fst w)) items =
      (replay_outputs prev, psInterrupted prev, psTotal prev, newItemCheckpointStore (Some (psItems prev)))"
    by (simp add: parallel_plan_def assms(3))
  let ?st = "saved_state t (psInterrupted prev) (psTotal prev) (newItemCheckpointStore (Some (psItems prev))) res"
  from runParallel_interrupts[OF assms(1,2) plan assms(4,5,6,7,8)] obtain n w1 where
    "runParallel E sched key sub items o1 w = (Returned VNil (Some (GraphInterrupt [VInterrupt (peWrap E ?st) n])), w1)"
    by blast
  moreover have "fmlookup (psCompleted ?st) d = None" "d \<in> set (psInterrupted ?st)"
    using assms(10-12) by (auto simp: saved_state_def fmlookup_of_list map_of_graph intro!: image_eqI[of _ _ "nat d"])
  ultimately show ?thesis by blast
qed

definition again_state :: parallel_state where
  "again_state = \<lparr>psInputs = ''[]'', psCompleted = fmap_of_list [(0, VInt 2)], psInterrupted = [1], psTotal = 2, psItems = fmempty\<rparr>"

definition again_env :: parallel_env where
  "again_env = demo_penv\<lparr>peParse := (\<lambda>t. if t = ''s'' then Some again_state else None)\<rparr>"

definition again_world :: "istate \<times> unit" where
  "again_world = (\<lparr>isPer = None, isGlobal = \<lparr>icResumeValues = [VStr ''s''], icIndex = 1, icNullResume = VNil\<rparr>, isCounter = 0\<rparr>, ())"

theorem parallel_forgets_witness:
  "\<exists>st n w1. runParallel again_env rev ''p'' (pure_graph doubled) [VInt 1, VStr ''?''] \<lparr>poMaxConcurrency = 0\<rparr> again_world =
       (Returned VNil (Some (GraphInterrupt [VInterrupt (peWrap again_env st) n])), w1) \<and>
     fmlookup (psCompleted st) 0 = None \<and> 0 \<in> set (psInterrupted st)"
proof (rule parallel_forgets[OF pure_outcomes schedule_rev, where i = 1 and prev = again_state])
  let ?items = "[VInt 1, VStr ''?'']"
  show "loadParallelSnapshot again_env (fst again_world) = Some again_state"
    by (simp add: loadParallelSnapshot_def GetResumeValues_def again_world_def is_current_def again_env_def demo_penv_def again_state_def)
  show "IsGraphInterrupt (snd (pure_result again_env doubled ?items 1))"
    by (simp add: pure_result_in doubled_def IsGraphInterrupt_def)
  then show "\<forall>i \<in> set (psInterrupted again_state). \<not> failed_item (pure_result again_env doubled ?items) i"
    by (simp add: again_state_def failed_item_def)
  show "unanswered (fst (snd (fanOutItems again_env rev ''p'' (pure_graph doubled) ?items (psInterrupted again_state)
      \<lparr>poMaxConcurrency = 0\<rparr> again_world)))"
    by (simp add: pure_fanOut unanswered_def again_world_def is_current_def)
qed (simp_all add: again_state_def again_env_def demo_penv_def)

end
