(* ===== verification/Scratchpad.thy ===== *)
theory Scratchpad
  imports Values
begin

text \<open>
  The scratchpad of a run (\<^verbatim>\<open>types/scratchpad.go\<close>): data, counters and metadata, stacks kept in the
  data, contexts of nodes, snapshots, merging and expiry. Stacks and node contexts are reached
  through pointers, so they live in a store of addresses; plain values are values. Every
  operation gets the time it reads from the clock.
\<close>

section \<open>Values and the store\<close>

datatype sp_val = SpVal gval | SpStack nat | SpNode nat | SpTime int | SpDuration int

type_synonym sp_map = "(string, sp_val) fmap"

record sp_store =
  ssStacks :: "(nat, sp_val list) fmap"
  ssNodes :: "(nat, sp_map) fmap"
  ssNext :: nat

definition empty_store :: sp_store where
  "empty_store = \<lparr>ssStacks = fmempty, ssNodes = fmempty, ssNext = 0\<rparr>"

record scratchpad =
  spData :: sp_map
  spCounters :: "(string, goint) fmap"
  spMetadata :: sp_map
  spCreatedAt :: int
  spLastAccess :: int
  spStep :: goint
  spStop :: bool
  spCallCounter :: goint
  spInterruptCounter :: goint
  spResume :: bool
  spSubgraphCounter :: goint

definition NewPregelScratchpad :: "int \<Rightarrow> scratchpad" where
  "NewPregelScratchpad now = \<lparr>spData = fmempty, spCounters = fmempty, spMetadata = fmempty, spCreatedAt = now,
     spLastAccess = now, spStep = 0, spStop = False, spCallCounter = 0, spInterruptCounter = 0, spResume = False,
     spSubgraphCounter = 0\<rparr>"

section \<open>Data, counters, metadata\<close>

definition sp_Get :: "int \<Rightarrow> string \<Rightarrow> scratchpad \<Rightarrow> sp_val option \<times> scratchpad" where
  "sp_Get now key p = (fmlookup (spData p) key, p\<lparr>spLastAccess := now\<rparr>)"

definition sp_Set :: "int \<Rightarrow> string \<Rightarrow> sp_val \<Rightarrow> scratchpad \<Rightarrow> scratchpad" where
  "sp_Set now key v p = p\<lparr>spData := fmupd key v (spData p), spLastAccess := now\<rparr>"

definition sp_Delete :: "int \<Rightarrow> string \<Rightarrow> scratchpad \<Rightarrow> scratchpad" where
  "sp_Delete now key p = p\<lparr>spData := fmdrop key (spData p), spLastAccess := now\<rparr>"

definition sp_Has :: "string \<Rightarrow> scratchpad \<Rightarrow> bool" where
  "sp_Has key p = (fmlookup (spData p) key \<noteq> None)"

definition sp_GetAll :: "scratchpad \<Rightarrow> sp_map" where
  "sp_GetAll p = spData p"

definition sp_Clear :: "int \<Rightarrow> scratchpad \<Rightarrow> scratchpad" where
  "sp_Clear now p = p\<lparr>spData := fmempty, spCounters := fmempty, spLastAccess := now\<rparr>"

definition IncrementCounter :: "int \<Rightarrow> string \<Rightarrow> scratchpad \<Rightarrow> goint \<times> scratchpad" where
  "IncrementCounter now key p =
     (let n = fmlookup_default 0 (spCounters p) key + 1
      in (n, p\<lparr>spCounters := fmupd key n (spCounters p), spLastAccess := now\<rparr>))"

definition DecrementCounter :: "int \<Rightarrow> string \<Rightarrow> scratchpad \<Rightarrow> goint \<times> scratchpad" where
  "DecrementCounter now key p =
     (let n = fmlookup_default 0 (spCounters p) key - 1
      in (n, p\<lparr>spCounters := fmupd key n (spCounters p), spLastAccess := now\<rparr>))"

definition GetCounter :: "string \<Rightarrow> scratchpad \<Rightarrow> goint" where
  "GetCounter key p = fmlookup_default 0 (spCounters p) key"

definition SetCounter :: "int \<Rightarrow> string \<Rightarrow> goint \<Rightarrow> scratchpad \<Rightarrow> scratchpad" where
  "SetCounter now key v p = p\<lparr>spCounters := fmupd key v (spCounters p), spLastAccess := now\<rparr>"

definition ResetCounter :: "int \<Rightarrow> string \<Rightarrow> scratchpad \<Rightarrow> scratchpad" where
  "ResetCounter now key p = p\<lparr>spCounters := fmdrop key (spCounters p), spLastAccess := now\<rparr>"

definition ListCounters :: "scratchpad \<Rightarrow> (string, goint) fmap" where
  "ListCounters p = spCounters p"

definition sp_SetMetadata :: "int \<Rightarrow> string \<Rightarrow> sp_val \<Rightarrow> scratchpad \<Rightarrow> scratchpad" where
  "sp_SetMetadata now key v p = p\<lparr>spMetadata := fmupd key v (spMetadata p), spLastAccess := now\<rparr>"

definition sp_GetMetadata :: "string \<Rightarrow> scratchpad \<Rightarrow> sp_val option" where
  "sp_GetMetadata key p = fmlookup (spMetadata p) key"

definition GetAllMetadata :: "scratchpad \<Rightarrow> sp_map" where
  "GetAllMetadata p = spMetadata p"

definition SetStep :: "int \<Rightarrow> goint \<Rightarrow> scratchpad \<Rightarrow> scratchpad" where
  "SetStep now n p = p\<lparr>spStep := n, spLastAccess := now\<rparr>"

definition SetStop :: "int \<Rightarrow> bool \<Rightarrow> scratchpad \<Rightarrow> scratchpad" where
  "SetStop now b p = p\<lparr>spStop := b, spLastAccess := now\<rparr>"

definition IncrementCallCounter :: "int \<Rightarrow> scratchpad \<Rightarrow> goint \<times> scratchpad" where
  "IncrementCallCounter now p =
     (spCallCounter p + 1, p\<lparr>spCallCounter := spCallCounter p + 1, spLastAccess := now\<rparr>)"

definition IncrementInterruptCounter :: "int \<Rightarrow> scratchpad \<Rightarrow> goint \<times> scratchpad" where
  "IncrementInterruptCounter now p =
     (spInterruptCounter p + 1, p\<lparr>spInterruptCounter := spInterruptCounter p + 1, spLastAccess := now\<rparr>)"

definition SetResume :: "int \<Rightarrow> bool \<Rightarrow> scratchpad \<Rightarrow> scratchpad" where
  "SetResume now b p = p\<lparr>spResume := b, spLastAccess := now\<rparr>"

definition IncrementSubgraphCounter :: "int \<Rightarrow> scratchpad \<Rightarrow> goint \<times> scratchpad" where
  "IncrementSubgraphCounter now p =
     (spSubgraphCounter p + 1, p\<lparr>spSubgraphCounter := spSubgraphCounter p + 1, spLastAccess := now\<rparr>)"

record scratchpad_stats =
  stDataSize :: nat
  stCountersCount :: nat
  stMetadataSize :: nat
  stNodeContexts :: nat
  stCreatedAt :: int
  stLastAccess :: int

definition sp_Stats :: "scratchpad \<Rightarrow> scratchpad_stats" where
  "sp_Stats p = \<lparr>stDataSize = flen (spData p), stCountersCount = flen (spCounters p),
     stMetadataSize = flen (spMetadata p), stNodeContexts = 0, stCreatedAt = spCreatedAt p, stLastAccess = spLastAccess p\<rparr>"

section \<open>Stacks\<close>

definition stack_Push :: "'a \<Rightarrow> 'a list \<Rightarrow> 'a list" where
  "stack_Push v s = s @ [v]"

definition stack_Pop :: "'a list \<Rightarrow> 'a option \<times> 'a list" where
  "stack_Pop s = (if length s = 0 then (None, s) else (Some (s ! (length s - 1)), take (length s - 1) s))"

definition stack_Peek :: "'a list \<Rightarrow> 'a option" where
  "stack_Peek s = (if length s = 0 then None else Some (s ! (length s - 1)))"

definition stack_IsEmpty :: "'a list \<Rightarrow> bool" where
  "stack_IsEmpty s = (length s = 0)"

definition stack_Clear :: "'a list \<Rightarrow> 'a list" where
  "stack_Clear s = []"

definition ToSlice :: "'a list \<Rightarrow> 'a list" where
  "ToSlice s = s"

text \<open>A stack kept in a scratchpad under a key: the state is the scratchpad and the store.\<close>

type_synonym sp_state = "scratchpad \<times> sp_store"

definition stack_at :: "sp_store \<Rightarrow> nat \<Rightarrow> sp_val list" where
  "stack_at h a = (case fmlookup (ssStacks h) a of None \<Rightarrow> [] | Some s \<Rightarrow> s)"

definition set_stack :: "nat \<Rightarrow> sp_val list \<Rightarrow> sp_store \<Rightarrow> sp_store" where
  "set_stack a s h = h\<lparr>ssStacks := fmupd a s (ssStacks h)\<rparr>"

definition NewStack :: "sp_store \<Rightarrow> nat \<times> sp_store" where
  "NewStack h = (ssNext h, set_stack (ssNext h) [] (h\<lparr>ssNext := ssNext h + 1\<rparr>))"

definition sk_Push :: "int \<Rightarrow> string \<Rightarrow> sp_val \<Rightarrow> sp_state \<Rightarrow> sp_state" where
  "sk_Push now key v s = (case s of (p, h) \<Rightarrow>
     (case sp_Get now key p of (r, p1) \<Rightarrow>
        (case (case r of Some (SpStack a) \<Rightarrow> (a, h) | _ \<Rightarrow> NewStack h) of (a, h1) \<Rightarrow>
           (sp_Set now key (SpStack a) p1, set_stack a (stack_Push v (stack_at h1 a)) h1))))"

definition sk_Pop :: "int \<Rightarrow> string \<Rightarrow> sp_state \<Rightarrow> sp_val option \<times> sp_state" where
  "sk_Pop now key s = (case s of (p, h) \<Rightarrow>
     (case sp_Get now key p of (r, p1) \<Rightarrow>
        (case r of
           Some (SpStack a) \<Rightarrow>
             (case stack_Pop (stack_at h a) of (v, st) \<Rightarrow>
                (let h1 = set_stack a st h
                 in if stack_IsEmpty st then (v, sp_Delete now key p1, h1) else (v, sp_Set now key (SpStack a) p1, h1)))
         | _ \<Rightarrow> (None, p1, h))))"

definition sk_Peek :: "int \<Rightarrow> string \<Rightarrow> sp_state \<Rightarrow> sp_val option \<times> sp_state" where
  "sk_Peek now key s = (case s of (p, h) \<Rightarrow>
     (case sp_Get now key p of (r, p1) \<Rightarrow>
        ((case r of Some (SpStack a) \<Rightarrow> stack_Peek (stack_at h a) | _ \<Rightarrow> None), p1, h)))"

definition sk_Size :: "int \<Rightarrow> string \<Rightarrow> sp_state \<Rightarrow> nat \<times> sp_state" where
  "sk_Size now key s = (case s of (p, h) \<Rightarrow>
     (case sp_Get now key p of (r, p1) \<Rightarrow>
        ((case r of Some (SpStack a) \<Rightarrow> length (stack_at h a) | _ \<Rightarrow> 0), p1, h)))"

definition sk_IsEmpty :: "int \<Rightarrow> string \<Rightarrow> sp_state \<Rightarrow> bool \<times> sp_state" where
  "sk_IsEmpty now key s = (case sk_Size now key s of (n, s1) \<Rightarrow> (n = 0, s1))"

definition sk_Clear :: "int \<Rightarrow> string \<Rightarrow> sp_state \<Rightarrow> sp_state" where
  "sk_Clear now key s = (case s of (p, h) \<Rightarrow> (sp_Delete now key p, h))"

section \<open>Node contexts\<close>

definition node_at :: "sp_store \<Rightarrow> nat \<Rightarrow> sp_map" where
  "node_at h a = (case fmlookup (ssNodes h) a of None \<Rightarrow> fmempty | Some m \<Rightarrow> m)"

definition set_node :: "nat \<Rightarrow> sp_map \<Rightarrow> sp_store \<Rightarrow> sp_store" where
  "set_node a m h = h\<lparr>ssNodes := fmupd a m (ssNodes h)\<rparr>"

definition NewNodeContext :: "sp_store \<Rightarrow> nat \<times> sp_store" where
  "NewNodeContext h = (ssNext h, set_node (ssNext h) fmempty (h\<lparr>ssNext := ssNext h + 1\<rparr>))"

definition nc_Get :: "nat \<Rightarrow> string \<Rightarrow> sp_store \<Rightarrow> sp_val option" where
  "nc_Get a key h = fmlookup (node_at h a) key"

definition nc_Set :: "nat \<Rightarrow> string \<Rightarrow> sp_val \<Rightarrow> sp_store \<Rightarrow> sp_store" where
  "nc_Set a key v h = set_node a (fmupd key v (node_at h a)) h"

definition nc_Delete :: "nat \<Rightarrow> string \<Rightarrow> sp_store \<Rightarrow> sp_store" where
  "nc_Delete a key h = set_node a (fmdrop key (node_at h a)) h"

definition nc_Clear :: "nat \<Rightarrow> sp_store \<Rightarrow> sp_store" where
  "nc_Clear a h = set_node a fmempty h"

definition nc_GetAll :: "nat \<Rightarrow> sp_store \<Rightarrow> sp_map" where
  "nc_GetAll a h = node_at h a"

definition node_key :: "string \<Rightarrow> string" where
  "node_key n = ''_node_ctx:'' @ n"

definition is_node_key :: "string \<Rightarrow> bool" where
  "is_node_key k \<longleftrightarrow> length k > 10 \<and> take 10 k = ''_node_ctx:''"

definition NodeContext :: "string \<Rightarrow> sp_state \<Rightarrow> nat \<times> sp_state" where
  "NodeContext nodeName s = (case s of (p, h) \<Rightarrow>
     (case fmlookup (spData p) (node_key nodeName) of
        Some (SpNode a) \<Rightarrow> (a, p, h)
      | _ \<Rightarrow> (case NewNodeContext h of (a, h1) \<Rightarrow>
               (a, p\<lparr>spData := fmupd (node_key nodeName) (SpNode a) (spData p)\<rparr>, h1))))"

definition ClearNodeContext :: "string \<Rightarrow> scratchpad \<Rightarrow> scratchpad" where
  "ClearNodeContext nodeName p = p\<lparr>spData := fmdrop (node_key nodeName) (spData p)\<rparr>"

definition ClearAllNodeContexts :: "scratchpad \<Rightarrow> scratchpad" where
  "ClearAllNodeContexts p = p\<lparr>spData := fmfilter (\<lambda>k. \<not> is_node_key k) (spData p)\<rparr>"

section \<open>Snapshots, merging, expiry\<close>

text \<open>
  \<open>deepCopyValue\<close> copies nested maps and lists, which are values here, and returns everything
  else, pointers included, as it is.
\<close>

definition deepCopyValue :: "sp_val \<Rightarrow> sp_val" where
  "deepCopyValue v = v"

record scratchpad_snapshot =
  snData :: sp_map
  snCounters :: "(string, goint) fmap"
  snMetadata :: sp_map
  snStep :: goint
  snCallCount :: goint
  snInterrupts :: goint
  snSubGraphs :: goint

definition Snapshot :: "scratchpad \<Rightarrow> scratchpad_snapshot" where
  "Snapshot p = \<lparr>snData = fmmap deepCopyValue (fmfilter (\<lambda>k. \<not> is_node_key k) (spData p)),
     snCounters = spCounters p, snMetadata = fmmap deepCopyValue (spMetadata p), snStep = spStep p,
     snCallCount = spCallCounter p, snInterrupts = spInterruptCounter p, snSubGraphs = spSubgraphCounter p\<rparr>"

definition Restore :: "scratchpad_snapshot option \<Rightarrow> scratchpad \<Rightarrow> scratchpad" where
  "Restore snap p = (case snap of None \<Rightarrow> p
     | Some s \<Rightarrow>
        (let nodeCtxs = fmfilter is_node_key (spData p)
         in p\<lparr>spData := fmmap deepCopyValue (snData s) ++\<^sub>f nodeCtxs, spCounters := snCounters s, spMetadata := snMetadata s,
              spStep := snStep s, spCallCounter := snCallCount s, spInterruptCounter := snInterrupts s,
              spSubgraphCounter := snSubGraphs s\<rparr>))"

text \<open>The loop that adds the counters, over the entries in any order.\<close>

definition add_counters :: "(string \<times> goint) list \<Rightarrow> (string, goint) fmap \<Rightarrow> (string, goint) fmap" where
  "add_counters es m = fold (\<lambda>(k, v) m. fmupd k (fmlookup_default 0 m k + v) m) es m"

definition MergeFrom :: "int \<Rightarrow> (string \<times> goint) list \<Rightarrow> scratchpad option \<Rightarrow> scratchpad \<Rightarrow> scratchpad" where
  "MergeFrom now es other p = (case other of None \<Rightarrow> p
     | Some q \<Rightarrow>
        (let otherData = fmmap deepCopyValue (fmfilter (\<lambda>k. \<not> is_node_key k) (spData q))
         in p\<lparr>spData := spData p ++\<^sub>f otherData, spCounters := add_counters es (spCounters p),
              spMetadata := spMetadata p ++\<^sub>f fmmap deepCopyValue (spMetadata q),
              spStep := (if spStep p <s spStep q then spStep q else spStep p),
              spCallCounter := spCallCounter p + spCallCounter q,
              spInterruptCounter := spInterruptCounter p + spInterruptCounter q,
              spSubgraphCounter := spSubgraphCounter p + spSubgraphCounter q, spLastAccess := now\<rparr>))"

definition SetTimeout :: "int \<Rightarrow> int \<Rightarrow> scratchpad \<Rightarrow> scratchpad" where
  "SetTimeout now d p = p\<lparr>spMetadata := fmupd ''_timeout_start'' (SpTime now) (fmupd ''_timeout_ttl'' (SpDuration d) (spMetadata p))\<rparr>"

definition IsExpired :: "int \<Rightarrow> scratchpad \<Rightarrow> bool" where
  "IsExpired now p = (case fmlookup (spMetadata p) ''_timeout_ttl'' of
     Some (SpDuration ttl) \<Rightarrow>
       (if ttl \<le> 0 then False
        else (case fmlookup (spMetadata p) ''_timeout_start'' of
          Some (SpTime start) \<Rightarrow> now - start > ttl | _ \<Rightarrow> False))
   | _ \<Rightarrow> False)"

text \<open>The clock is read twice: before the write lock is taken and after.\<close>

definition ClearExpired :: "int \<Rightarrow> int \<Rightarrow> scratchpad \<Rightarrow> bool \<times> scratchpad" where
  "ClearExpired now now1 p =
     (if \<not> IsExpired now p then (False, p)
      else if \<not> IsExpired now1 p then (False, p)
      else (True, p\<lparr>spData := fmempty, spCounters := fmempty,
             spMetadata := fmdrop ''_timeout_start'' (fmdrop ''_timeout_ttl'' (spMetadata p)), spLastAccess := now1\<rparr>))"

section \<open>Stacks are last in, first out\<close>

text \<open>The contract of a stack: what is on it, what is beside it, and a condition both rest on.\<close>

locale lifo =
  fixes push :: "'v \<Rightarrow> 's \<Rightarrow> 's" and pop :: "'s \<Rightarrow> 'v option \<times> 's"
    and items :: "'s \<Rightarrow> 'v list" and beside :: "'s \<Rightarrow> 'o" and inv :: "'s \<Rightarrow> bool"
  assumes items_push: "inv s \<Longrightarrow> items (push v s) = items s @ [v]"
    and fst_pop: "inv s \<Longrightarrow> fst (pop s) = (if items s = [] then None else Some (last (items s)))"
    and items_pop: "inv s \<Longrightarrow> items (snd (pop s)) = butlast (items s)"
    and beside_push: "inv s \<Longrightarrow> beside (push v s) = beside s"
    and beside_pop: "inv s \<Longrightarrow> beside (snd (pop s)) = beside s"
    and inv_push: "inv s \<Longrightarrow> inv (push v s)"
    and inv_pop: "inv s \<Longrightarrow> inv (snd (pop s))"
begin

lemma pushes: "inv s \<Longrightarrow> items (fold push vs s) = items s @ vs \<and> beside (fold push vs s) = beside s \<and> inv (fold push vs s)"
  by (induction vs arbitrary: s) (simp_all add: items_push beside_push inv_push)

fun pops :: "nat \<Rightarrow> 's \<Rightarrow> 'v option list \<times> 's" where
  "pops 0 s = ([], s)"
| "pops (Suc n) s = (case pop s of (r, s1) \<Rightarrow> (case pops n s1 of (rs, s2) \<Rightarrow> (r # rs, s2)))"

lemma pops_rev:
  "inv s \<Longrightarrow> items s = xs @ vs \<Longrightarrow>
   fst (pops (length vs) s) = map Some (rev vs) \<and> items (snd (pops (length vs) s)) = xs \<and>
   beside (snd (pops (length vs) s)) = beside s"
proof (induction vs arbitrary: s rule: rev_induct)
  case (snoc v vs)
  obtain r s1 where p: "pop s = (r, s1)" by (cases "pop s")
  with snoc.prems fst_pop[of s] items_pop[of s] beside_pop[of s] inv_pop[of s]
  have s1: "r = Some v" "items s1 = xs @ vs" "beside s1 = beside s" "inv s1"
    by (simp_all add: butlast_append)
  with snoc.IH[of s1] p show ?case by (simp add: case_prod_unfold)
qed simp

lemma push_pop:
  assumes "inv s"
  shows "fst (pops (length vs) (fold push vs s)) = map Some (rev vs) \<and>
    items (snd (pops (length vs) (fold push vs s))) = items s \<and>
    beside (snd (pops (length vs) (fold push vs s))) = beside s"
  using pushes[OF assms, of vs] pops_rev[of "fold push vs s" "items s" vs] by simp

end

interpretation plain: lifo stack_Push stack_Pop "\<lambda>s. s" "\<lambda>s. ()" "\<lambda>s. True"
  by unfold_locales (simp_all add: stack_Push_def stack_Pop_def last_conv_nth butlast_conv_take)

definition sk_items :: "string \<Rightarrow> sp_state \<Rightarrow> sp_val list" where
  "sk_items key s = (case fmlookup (spData (fst s)) key of Some (SpStack a) \<Rightarrow> stack_at (snd s) a | _ \<Rightarrow> [])"

definition sk_beside :: "string \<Rightarrow> sp_state \<Rightarrow> string \<Rightarrow> (sp_val option \<times> sp_val list) option" where
  "sk_beside key s k = (if k = key then None else Some (fmlookup (spData (fst s)) k, sk_items k s))"

text \<open>No other key holds the stack of \<open>key\<close>, and no key a pointer that is still to be given out.\<close>

definition own_stack :: "string \<Rightarrow> sp_state \<Rightarrow> bool" where
  "own_stack key s \<longleftrightarrow>
     (\<forall>k a. fmlookup (spData (fst s)) k = Some (SpStack a) \<longrightarrow> a < ssNext (snd s) \<and>
        (k \<noteq> key \<longrightarrow> fmlookup (spData (fst s)) key \<noteq> Some (SpStack a)))"

lemma stack_at_set [simp]: "stack_at (set_stack a s h) b = (if b = a then s else stack_at h b)"
  by (simp add: stack_at_def set_stack_def)

lemma set_stack_next [simp]: "ssNext (set_stack a s h) = ssNext h"
  by (simp add: set_stack_def)

lemma stack_at_next [simp]: "stack_at (h\<lparr>ssNext := n\<rparr>) a = stack_at h a"
  by (simp add: stack_at_def)

lemmas sk_defs = sk_items_def sk_beside_def own_stack_def sp_Get_def sp_Set_def sp_Delete_def NewStack_def
  stack_Push_def stack_IsEmpty_def

lemma sk_Push_cases:
  obtains (old) a where "fmlookup (spData p) key = Some (SpStack a)"
      "sk_Push now key v (p, h) = (p\<lparr>spData := fmupd key (SpStack a) (spData p), spLastAccess := now\<rparr>,
         set_stack a (stack_at h a @ [v]) h)"
    | (new) "\<nexists>a. fmlookup (spData p) key = Some (SpStack a)"
      "sk_Push now key v (p, h) = (p\<lparr>spData := fmupd key (SpStack (ssNext h)) (spData p), spLastAccess := now\<rparr>,
         set_stack (ssNext h) [v] (set_stack (ssNext h) [] (h\<lparr>ssNext := ssNext h + 1\<rparr>)))"
  by (cases "\<exists>a. fmlookup (spData p) key = Some (SpStack a)")
    (auto simp: sk_Push_def sk_defs split: option.splits sp_val.splits)

lemma sk_Pop_cases:
  obtains (stack) a where "fmlookup (spData p) key = Some (SpStack a)"
      "sk_Pop now key (p, h) = (fst (stack_Pop (stack_at h a)),
         (if snd (stack_Pop (stack_at h a)) = [] then p\<lparr>spData := fmdrop key (spData p), spLastAccess := now\<rparr>
          else p\<lparr>spData := fmupd key (SpStack a) (spData p), spLastAccess := now\<rparr>),
         set_stack a (snd (stack_Pop (stack_at h a))) h)"
    | (none) "\<nexists>a. fmlookup (spData p) key = Some (SpStack a)" "sk_Pop now key (p, h) = (None, p\<lparr>spLastAccess := now\<rparr>, h)"
  by (cases "\<exists>a. fmlookup (spData p) key = Some (SpStack a)")
    (auto simp: sk_Pop_def sk_defs Let_def case_prod_unfold split: option.splits sp_val.splits)

lemma sk_Push_laws:
  assumes inv: "own_stack key (p, h)"
  shows "sk_items key (sk_Push now key v (p, h)) = sk_items key (p, h) @ [v] \<and>
    sk_beside key (sk_Push now key v (p, h)) = sk_beside key (p, h) \<and> own_stack key (sk_Push now key v (p, h))"
proof (cases rule: sk_Push_cases[of p key now v h])
  case (old a)
  with inv show ?thesis
    by (auto simp: sk_items_def sk_beside_def own_stack_def fun_eq_iff split: option.splits sp_val.splits)
next
  case new
  have "a \<noteq> ssNext h" if "fmlookup (spData p) k = Some (SpStack a)" for k a
    using inv that by (auto simp: own_stack_def)
  moreover have "a < ssNext h" if "fmlookup (spData p) k = Some (SpStack a)" for k a
    using inv that by (auto simp: own_stack_def)
  ultimately show ?thesis using new
    by (auto simp: sk_items_def sk_beside_def own_stack_def fun_eq_iff less_SucI split: option.splits sp_val.splits)
qed

lemma sk_Pop_laws:
  assumes inv: "own_stack key (p, h)"
  shows "fst (sk_Pop now key (p, h)) = (if sk_items key (p, h) = [] then None else Some (last (sk_items key (p, h)))) \<and>
    sk_items key (snd (sk_Pop now key (p, h))) = butlast (sk_items key (p, h)) \<and>
    sk_beside key (snd (sk_Pop now key (p, h))) = sk_beside key (p, h) \<and> own_stack key (snd (sk_Pop now key (p, h)))"
proof (cases rule: sk_Pop_cases[of p key now h])
  case (stack a)
  have pop: "fst (stack_Pop xs) = (if xs = [] then None else Some (last xs))" "snd (stack_Pop xs) = butlast xs" for xs :: "sp_val list"
    using plain.fst_pop[of xs] plain.items_pop[of xs] by simp_all
  from stack inv show ?thesis
    by (auto simp: pop sk_items_def sk_beside_def own_stack_def fun_eq_iff split: option.splits sp_val.splits if_splits)
next
  case none
  with inv show ?thesis
    by (auto simp: sk_items_def sk_beside_def own_stack_def fun_eq_iff split: option.splits sp_val.splits)
qed

interpretation kept: lifo "sk_Push now key" "sk_Pop now key" "sk_items key" "sk_beside key" "own_stack key" for now key
proof
  fix s :: sp_state and v
  assume inv: "own_stack key s"
  obtain p h where s: "s = (p, h)" by (cases s)
  show "sk_items key (sk_Push now key v s) = sk_items key s @ [v]"
    "sk_beside key (sk_Push now key v s) = sk_beside key s" "own_stack key (sk_Push now key v s)"
    using sk_Push_laws inv unfolding s by blast+
  show "fst (sk_Pop now key s) = (if sk_items key s = [] then None else Some (last (sk_items key s)))"
    "sk_items key (snd (sk_Pop now key s)) = butlast (sk_items key s)"
    "sk_beside key (snd (sk_Pop now key s)) = sk_beside key s" "own_stack key (snd (sk_Pop now key s))"
    using sk_Pop_laws[of key p h now] inv unfolding s by blast+
qed

fun pop_times :: "int \<Rightarrow> string \<Rightarrow> nat \<Rightarrow> sp_state \<Rightarrow> sp_val option list \<times> sp_state" where
  "pop_times now key 0 s = ([], s)"
| "pop_times now key (Suc n) s = (case sk_Pop now key s of (r, s1) \<Rightarrow>
     (case pop_times now key n s1 of (rs, s2) \<Rightarrow> (r # rs, s2)))"

lemma pop_times_pops: "pop_times now key n s = kept.pops now key n s"
  by (induction n arbitrary: s) (simp_all add: case_prod_unfold)

text \<open>A stack in a scratchpad is last in, first out: what is pushed under a key is popped in reverse
  order, then the stack holds what it held before, and the data and stacks under all other keys
  have not changed (no other key may hold the same stack).\<close>

theorem stack_push_pop:
  assumes "own_stack key s" "pop_times now key (length vs) (fold (sk_Push now key) vs s) = (rs, s')"
  shows "rs = map Some (rev vs) \<and> sk_items key s' = sk_items key s \<and>
    (\<forall>k. k \<noteq> key \<longrightarrow> fmlookup (spData (fst s')) k = fmlookup (spData (fst s)) k \<and> sk_items k s' = sk_items k s)"
proof -
  from kept.push_pop[OF assms(1), of now vs] assms(2)
  have r: "rs = map Some (rev vs)" "sk_items key s' = sk_items key s" "sk_beside key s' = sk_beside key s"
    by (simp_all add: pop_times_pops)
  have "fmlookup (spData (fst s')) k = fmlookup (spData (fst s)) k \<and> sk_items k s' = sk_items k s" if "k \<noteq> key" for k
    using fun_cong[OF r(3), of k] that by (simp add: sk_beside_def)
  with r show ?thesis by blast
qed

definition demo_pad :: scratchpad where
  "demo_pad = (NewPregelScratchpad 0)\<lparr>spData := fmupd ''x'' (SpVal VNil) fmempty\<rparr>"

lemma demo_pad_own: "own_stack ''s'' (demo_pad, empty_store)"
  by (simp add: own_stack_def demo_pad_def NewPregelScratchpad_def)

theorem stack_push_pop_witness:
  "fst (pop_times 1 ''s'' 2 (fold (sk_Push 1 ''s'') [SpVal (VInt 1), SpVal (VInt 2)] (demo_pad, empty_store))) =
     [Some (SpVal (VInt 2)), Some (SpVal (VInt 1))]"
proof -
  let ?r = "pop_times 1 ''s'' 2 (fold (sk_Push 1 ''s'') [SpVal (VInt 1), SpVal (VInt 2)] (demo_pad, empty_store))"
  have "pop_times 1 ''s'' (length [SpVal (VInt 1), SpVal (VInt 2)]) (fold (sk_Push 1 ''s'') [SpVal (VInt 1), SpVal (VInt 2)]
      (demo_pad, empty_store)) = (fst ?r, snd ?r)" by (simp add: numeral_2_eq_2)
  from stack_push_pop[OF demo_pad_own this] show ?thesis by simp
qed

section \<open>Snapshots\<close>

lemma fmmap_deepCopy [simp]: "fmmap deepCopyValue m = m"
proof (rule fmap_ext)
  show "fmlookup (fmmap deepCopyValue m) x = fmlookup m x" for x
    by (cases "fmlookup m x") (simp_all add: deepCopyValue_def)
qed

lemma restored_pad:
  "let p' = Restore (Some (Snapshot q)) p
   in (\<forall>k. fmlookup (spData p') k = fmlookup (spData (if is_node_key k then p else q)) k) \<and>
      spCounters p' = spCounters q \<and> spMetadata p' = spMetadata q \<and> spStep p' = spStep q \<and>
      spCallCounter p' = spCallCounter q \<and> spStop p' = spStop p \<and> spResume p' = spResume p \<and>
      Snapshot p' = Snapshot q"
proof -
  define p' where "p' = Restore (Some (Snapshot q)) p"
  have look: "fmlookup (spData p') k = fmlookup (spData (if is_node_key k then p else q)) k" for k
    by (auto simp: p'_def Restore_def Snapshot_def Let_def fmlookup_add fmdom_filter fmlookup_dom_iff)
  have fields: "spCounters p' = spCounters q" "spMetadata p' = spMetadata q" "spStep p' = spStep q"
    "spCallCounter p' = spCallCounter q" "spInterruptCounter p' = spInterruptCounter q"
    "spSubgraphCounter p' = spSubgraphCounter q" "spStop p' = spStop p" "spResume p' = spResume p"
    by (simp_all add: p'_def Restore_def Snapshot_def Let_def)
  have "fmfilter (\<lambda>k. \<not> is_node_key k) (spData p') = fmfilter (\<lambda>k. \<not> is_node_key k) (spData q)"
    by (intro fmap_ext) (simp add: look)
  with look fields show ?thesis
    unfolding Let_def p'_def[symmetric] by (simp add: Snapshot_def)
qed

text \<open>Restoring a snapshot of \<open>q\<close> gives a scratchpad with the data, counters, metadata and counts of \<open>q\<close>,
  the node contexts of the scratchpad it is restored into, and that scratchpad's stop and resume
  flags; its own snapshot is the one restored.\<close>

theorem snapshot_restore:
  "let p' = Restore (Some (Snapshot q)) p
   in (\<forall>k. fmlookup (spData p') k = fmlookup (spData (if is_node_key k then p else q)) k) \<and>
      spCounters p' = spCounters q \<and> spMetadata p' = spMetadata q \<and> spStep p' = spStep q \<and>
      spCallCounter p' = spCallCounter q \<and> spStop p' = spStop p \<and> spResume p' = spResume p \<and>
      Snapshot p' = Snapshot q"
  by (rule restored_pad)

text \<open>A snapshot does not save the contents of stacks: it keeps the pointer, so what is pushed on a
  stack after the snapshot was taken is still there after it has been restored.\<close>

theorem snapshot_shares_stacks:
  assumes "fmlookup (spData p) key = Some (SpStack a)" "\<not> is_node_key key" "sk_Push now key v (p, h) = (p1, h1)"
  shows "sk_items key (Restore (Some (Snapshot p)) p1, h1) = sk_items key (p, h) @ [v]"
proof -
  have "fmlookup (spData (Restore (Some (Snapshot p)) p1)) key = Some (SpStack a)"
    using restored_pad[of p p1] assms(1,2) by (simp add: Let_def)
  moreover have "stack_at h1 a = stack_at h a @ [v]"
    using assms(1,3) by (auto simp: sk_Push_def sp_Get_def stack_Push_def)
  ultimately show ?thesis using assms(1) by (simp add: sk_items_def)
qed

theorem snapshot_shares_stacks_witness:
  "let s = sk_Push 1 ''s'' (SpVal (VInt 1)) (demo_pad, empty_store);
       s1 = sk_Push 2 ''s'' (SpVal (VInt 2)) s
   in sk_items ''s'' (Restore (Some (Snapshot (fst s))) (fst s1), snd s1) = sk_items ''s'' s @ [SpVal (VInt 2)]"
proof -
  obtain p h where s: "sk_Push 1 ''s'' (SpVal (VInt 1)) (demo_pad, empty_store) = (p, h)" by fastforce
  obtain p1 h1 where s1: "sk_Push 2 ''s'' (SpVal (VInt 2)) (p, h) = (p1, h1)" by fastforce
  from s have "\<exists>a. fmlookup (spData p) ''s'' = Some (SpStack a)"
    by (auto simp: sk_Push_def sp_Get_def sp_Set_def split: option.splits sp_val.splits prod.splits)
  then obtain a where "fmlookup (spData p) ''s'' = Some (SpStack a)" by blast
  from snapshot_shares_stacks[OF this _ s1] show ?thesis by (simp add: s s1 Let_def is_node_key_def)
qed

text \<open>The context of a node with an empty name is no node context for the rest of the scratchpad: it is
  saved in snapshots and survives the clearing of all node contexts; that of any other node is not
  and does not.\<close>

theorem empty_node_name:
  assumes "NodeContext n (p, h) = (a, p1, h1)"
  shows "fmlookup (spData (ClearAllNodeContexts p1)) (node_key n) = (if n = [] then Some (SpNode a) else None) \<and>
    fmlookup (snData (Snapshot p1)) (node_key n) = (if n = [] then Some (SpNode a) else None) \<and>
    fmlookup (spData (ClearNodeContext n p1)) (node_key n) = None"
proof -
  have "is_node_key (node_key n) \<longleftrightarrow> n \<noteq> []"
    by (simp add: is_node_key_def node_key_def)
  moreover from assms have "fmlookup (spData p1) (node_key n) = Some (SpNode a)"
    by (auto simp: NodeContext_def split: option.splits sp_val.splits prod.splits)
  ultimately show ?thesis
    by (auto simp: ClearAllNodeContexts_def Snapshot_def ClearNodeContext_def)
qed

theorem empty_node_name_witness:
  "fmlookup (spData (ClearAllNodeContexts (fst (snd (NodeContext [] (demo_pad, empty_store)))))) ''_node_ctx:'' \<noteq> None"
proof -
  obtain a p1 h1 where "NodeContext [] (demo_pad, empty_store) = (a, p1, h1)" by (metis prod_cases3)
  from empty_node_name[OF this] show ?thesis
    by (simp add: \<open>NodeContext [] (demo_pad, empty_store) = (a, p1, h1)\<close> node_key_def)
qed

section \<open>Merging and expiry\<close>

lemma add_counters_lookup:
  "distinct (map fst es) \<Longrightarrow> fmlookup (add_counters es m) k =
     (case map_of es k of Some v \<Rightarrow> Some (fmlookup_default 0 m k + v) | None \<Rightarrow> fmlookup m k)"
proof (induction es arbitrary: m)
  case (Cons e es)
  obtain j v where e: "e = (j, v)" by (cases e)
  from Cons.prems have d: "distinct (map fst es)" and j: "map_of es j = None"
    by (auto simp: e map_of_eq_None_iff)
  from Cons.IH[OF d, of "fmupd j (fmlookup_default 0 m j + v) m"] show ?case
    by (auto simp: e add_counters_def j split: option.splits)
qed (simp add: add_counters_def)

text \<open>Merging adds the counters (modulo \<open>2^64\<close>), whatever the order in which they are visited, takes the
  other scratchpad's data and metadata where keys collide, leaves the node contexts of both alone,
  and takes the larger step.\<close>

theorem merge_scratchpads:
  assumes "entries (spCounters q) es"
  shows "let p' = MergeFrom now es (Some q) p
    in (\<forall>k. GetCounter k p' = GetCounter k p + GetCounter k q) \<and>
       (\<forall>k. fmlookup (spData p') k =
          (if is_node_key k \<or> fmlookup (spData q) k = None then fmlookup (spData p) k else fmlookup (spData q) k)) \<and>
       (\<forall>k. fmlookup (spMetadata p') k =
          (if fmlookup (spMetadata q) k = None then fmlookup (spMetadata p) k else fmlookup (spMetadata q) k)) \<and>
       sint (spStep p') = max (sint (spStep p)) (sint (spStep q)) \<and>
       spCallCounter p' = spCallCounter p + spCallCounter q"
proof -
  have d: "distinct (map fst es)" using assms by (rule entries_distinct)
  have "map_of es k = fmlookup (spCounters q) k" for k
    using assms fmlookup_of_list[of es] by (simp add: entries_def)
  then have "GetCounter k (MergeFrom now es (Some q) p) = GetCounter k p + GetCounter k q" for k
    by (auto simp: GetCounter_def MergeFrom_def Let_def fmlookup_default_def add_counters_lookup[OF d] split: option.splits)
  moreover have "sint (spStep (MergeFrom now es (Some q) p)) = max (sint (spStep p)) (sint (spStep q))"
    by (simp add: MergeFrom_def Let_def word_sless_alt)
  moreover have "fmlookup (spData (MergeFrom now es (Some q) p)) k =
      (if is_node_key k \<or> fmlookup (spData q) k = None then fmlookup (spData p) k else fmlookup (spData q) k)" for k
    by (auto simp: MergeFrom_def Let_def fmlookup_add fmdom_filter fmlookup_dom_iff)
  moreover have "fmlookup (spMetadata (MergeFrom now es (Some q) p)) k =
      (if fmlookup (spMetadata q) k = None then fmlookup (spMetadata p) k else fmlookup (spMetadata q) k)" for k
    by (auto simp: MergeFrom_def Let_def fmlookup_add fmlookup_dom_iff)
  ultimately show ?thesis by (simp add: Let_def) (simp add: MergeFrom_def Let_def)
qed

theorem merge_scratchpads_witness:
  "GetCounter ''c'' (MergeFrom 1 [(''c'', 3)] (Some (SetCounter 0 ''c'' 3 (NewPregelScratchpad 0)))
     (SetCounter 0 ''c'' (-1) (NewPregelScratchpad 0))) = 2"
proof -
  let ?q = "SetCounter 0 ''c'' 3 (NewPregelScratchpad 0)"
  have "entries (spCounters ?q) [(''c'', 3)]"
    by (simp add: SetCounter_def NewPregelScratchpad_def entries_def)
  from merge_scratchpads[OF this, of 1 "SetCounter 0 ''c'' (-1) (NewPregelScratchpad 0)"] show ?thesis
    by (simp add: Let_def) (simp add: GetCounter_def SetCounter_def)
qed

text \<open>A timeout runs from the moment it is set, uses of the scratchpad do not extend it, and clearing
  after it has passed removes the data, the counters and the timeout, once; a timeout that is not
  positive never passes.\<close>

theorem timeout_expires:
  assumes "p1 = SetTimeout start d p"
  shows "(IsExpired now (sp_Set t key v p1) \<longleftrightarrow> d > 0 \<and> now > start + d) \<and>
    (fst (ClearExpired now now p1) \<longleftrightarrow> d > 0 \<and> now > start + d) \<and>
    (d > 0 \<and> now > start + d \<longrightarrow>
       (let p2 = snd (ClearExpired now now p1)
        in spData p2 = fmempty \<and> spCounters p2 = fmempty \<and> \<not> IsExpired later p2 \<and>
           (\<forall>k. k \<notin> {''_timeout_start'', ''_timeout_ttl''} \<longrightarrow> fmlookup (spMetadata p2) k = fmlookup (spMetadata p) k)))"
  by (auto simp: assms SetTimeout_def IsExpired_def ClearExpired_def sp_Set_def Let_def)

theorem timeout_expires_witness:
  "fst (ClearExpired 11 11 (SetTimeout 0 10 demo_pad)) \<and>
   spData (snd (ClearExpired 11 11 (SetTimeout 0 10 demo_pad))) = fmempty"
  using timeout_expires[OF refl, of 11 0 "''k''" "SpVal VNil" 0 10 demo_pad 0] by (simp add: Let_def)

end
