(* ===== verification/Managed.thy ===== *)
theory Managed
  imports Values
begin

text \<open>
  Managed values and the runtime of a node (\<^verbatim>\<open>managed/managed.go\<close>): values a node reads from the
  scratchpad, the runtime record with merging and overriding, the entries of a configuration, and
  checkpoint namespaces. The context, the store and the stream writer of a runtime are values
  nothing here looks into; a runtime inside a configuration is a value.
\<close>

section \<open>Managed values\<close>

text \<open>
  What stands behind the \<^verbatim>\<open>interface{}\<close> argument of \<open>Get\<close>: a plain map, a \<^verbatim>\<open>PregelScratchpad\<close> (a named map
  type, which a type assertion to the plain one rejects), nil, or anything else.
\<close>

datatype pad_any = PadNil | PadMap gmap | PadScratchpad gmap | PadOther

datatype managed_value =
    IsLastStep bool
  | CurrentStep goint
  | ConfigValue string gval
  | TaskID string
  | NodeName string

definition NewIsLastStep :: managed_value where "NewIsLastStep = IsLastStep False"
definition NewCurrentStep :: managed_value where "NewCurrentStep = CurrentStep 0"
definition NewConfigValue :: "string \<Rightarrow> gval \<Rightarrow> managed_value" where "NewConfigValue k d = ConfigValue k d"
definition NewTaskID :: managed_value where "NewTaskID = TaskID []"
definition NewNodeName :: managed_value where "NewNodeName = NodeName []"

definition pad_value :: "pad_any \<Rightarrow> string \<Rightarrow> gval option" where
  "pad_value pad key = (case pad of PadMap m \<Rightarrow> fmlookup m key | _ \<Rightarrow> None)"

text \<open>\<open>Get\<close> returns the value and remembers it.\<close>

definition ls_Get :: "bool \<Rightarrow> pad_any \<Rightarrow> gval \<times> managed_value" where
  "ls_Get b pad =
     (let b' = (case pad_value pad ''is_last_step'' of Some (VBool c) \<Rightarrow> c | _ \<Rightarrow> b) in (VBool b', IsLastStep b'))"

definition cs_Get :: "goint \<Rightarrow> pad_any \<Rightarrow> gval \<times> managed_value" where
  "cs_Get n pad =
     (let n' = (case pad_value pad ''current_step'' of Some (VInt i) \<Rightarrow> i | _ \<Rightarrow> n) in (VInt n', CurrentStep n'))"

definition cv_Get :: "string \<Rightarrow> gval \<Rightarrow> pad_any \<Rightarrow> gval \<times> managed_value" where
  "cv_Get k d pad =
     ((case pad_value pad ''configurable'' of
         Some (VMap m) \<Rightarrow> (case fmlookup m k of Some x \<Rightarrow> x | None \<Rightarrow> d) | _ \<Rightarrow> d), ConfigValue k d)"

definition ti_Get :: "string \<Rightarrow> pad_any \<Rightarrow> gval \<times> managed_value" where
  "ti_Get s pad =
     (let s' = (case pad_value pad ''task_id'' of Some (VStr t) \<Rightarrow> t | _ \<Rightarrow> s) in (VStr s', TaskID s'))"

definition nn_Get :: "string \<Rightarrow> pad_any \<Rightarrow> gval \<times> managed_value" where
  "nn_Get s pad =
     (let s' = (case pad_value pad ''node_name'' of Some (VStr t) \<Rightarrow> t | _ \<Rightarrow> s) in (VStr s', NodeName s'))"

definition mv_Get :: "managed_value \<Rightarrow> pad_any \<Rightarrow> gval \<times> managed_value" where
  "mv_Get v pad = (case v of IsLastStep b \<Rightarrow> ls_Get b pad | CurrentStep n \<Rightarrow> cs_Get n pad
     | ConfigValue k d \<Rightarrow> cv_Get k d pad | TaskID s \<Rightarrow> ti_Get s pad | NodeName s \<Rightarrow> nn_Get s pad)"

definition mv_Name :: "managed_value \<Rightarrow> string" where
  "mv_Name v = (case v of IsLastStep _ \<Rightarrow> ''IsLastStep'' | CurrentStep _ \<Rightarrow> ''CurrentStep''
     | ConfigValue k _ \<Rightarrow> ''ConfigValue['' @ k @ '']'' | TaskID _ \<Rightarrow> ''TaskID'' | NodeName _ \<Rightarrow> ''NodeName'')"

definition mv_Copy :: "managed_value \<Rightarrow> managed_value" where
  "mv_Copy v = v"

definition ls_Set :: "bool \<Rightarrow> managed_value \<Rightarrow> managed_value" where
  "ls_Set b v = (case v of IsLastStep _ \<Rightarrow> IsLastStep b | _ \<Rightarrow> v)"

definition cs_Set :: "goint \<Rightarrow> managed_value \<Rightarrow> managed_value" where
  "cs_Set n v = (case v of CurrentStep _ \<Rightarrow> CurrentStep n | _ \<Rightarrow> v)"

definition mv_Increment :: "managed_value \<Rightarrow> managed_value" where
  "mv_Increment v = (case v of CurrentStep n \<Rightarrow> CurrentStep (n + 1) | _ \<Rightarrow> v)"

record managed_spec =
  msName :: string
  msFactory :: "managed_value option"
  msDefault :: gval

text \<open>The factory makes the same value every time; \<open>None\<close> is a nil factory.\<close>

definition NewManagedValueSpec :: "string \<Rightarrow> managed_value option \<Rightarrow> gval \<Rightarrow> managed_spec" where
  "NewManagedValueSpec n f d = \<lparr>msName = n, msFactory = f, msDefault = d\<rparr>"

definition spec_Create :: "managed_spec \<Rightarrow> managed_value option" where
  "spec_Create s = msFactory s"

definition spec_GetValue :: "managed_spec \<Rightarrow> pad_any \<Rightarrow> gval" where
  "spec_GetValue s pad =
     (if pad \<noteq> PadNil then (case msFactory s of Some v \<Rightarrow> fst (mv_Get v pad) | None \<Rightarrow> msDefault s) else msDefault s)"

text \<open>What a value of interface type may be, as far as these tests can tell; the exported fields of a struct.\<close>

datatype managed_any = AnyNil | AnyManaged managed_value | AnySpec managed_spec | AnyStruct "managed_any list" | AnyOther

definition IsManagedValue :: "managed_any \<Rightarrow> bool" where
  "IsManagedValue v = (case v of AnyManaged _ \<Rightarrow> True | _ \<Rightarrow> False)"

definition IsManagedValueSpec :: "managed_any \<Rightarrow> bool" where
  "IsManagedValueSpec v = (case v of AnySpec _ \<Rightarrow> True | _ \<Rightarrow> False)"

definition IsValueManaged :: "managed_any \<Rightarrow> bool" where
  "IsValueManaged v = (if v = AnyNil then False else IsManagedValue v \<or> IsManagedValueSpec v)"

definition GetManagedValueName :: "managed_any \<Rightarrow> string" where
  "GetManagedValueName v = (case v of AnyManaged m \<Rightarrow> mv_Name m | AnySpec s \<Rightarrow> msName s | _ \<Rightarrow> [])"

fun managed_fields :: "managed_any list \<Rightarrow> managed_value list" where
  "managed_fields [] = []"
| "managed_fields (f # fs) = (case f of AnyManaged m \<Rightarrow> [m] | _ \<Rightarrow> []) @ managed_fields fs"

definition ExtractManagedValues :: "managed_any \<Rightarrow> managed_value list" where
  "ExtractManagedValues v = (case v of AnyStruct fs \<Rightarrow> managed_fields fs | _ \<Rightarrow> [])"

fun spec_fields :: "managed_any list \<Rightarrow> managed_spec list" where
  "spec_fields [] = []"
| "spec_fields (f # fs) = (case f of AnySpec s \<Rightarrow> [s] | _ \<Rightarrow> []) @ spec_fields fs"

definition ExtractManagedValueSpecs :: "managed_any \<Rightarrow> managed_spec list" where
  "ExtractManagedValueSpecs v = (case v of AnyStruct fs \<Rightarrow> spec_fields fs | _ \<Rightarrow> [])"

section \<open>The mapping of managed values\<close>

type_synonym managed_mapping = "(string, managed_value) fmap"

definition mm_Register :: "string \<Rightarrow> managed_value \<Rightarrow> managed_mapping \<Rightarrow> managed_mapping" where
  "mm_Register n v m = fmupd n v m"

definition mm_Get :: "string \<Rightarrow> managed_mapping \<Rightarrow> managed_value option" where
  "mm_Get n m = fmlookup m n"

definition mm_Names :: "managed_mapping \<Rightarrow> string fset" where
  "mm_Names m = fmdom m"

definition mm_Contains :: "string \<Rightarrow> managed_mapping \<Rightarrow> bool" where
  "mm_Contains n m = (fmlookup m n \<noteq> None)"

section \<open>Counters in the named scratchpad\<close>

definition pad_counter :: "string \<Rightarrow> gmap \<Rightarrow> goint" where
  "pad_counter key p = (case fmlookup p key of Some (VInt n) \<Rightarrow> n | _ \<Rightarrow> 0)"

definition pad_GetCallCounter :: "gmap \<Rightarrow> goint" where
  "pad_GetCallCounter p = pad_counter ''call_counter'' p"

definition pad_IncrementCallCounter :: "gmap \<Rightarrow> gmap" where
  "pad_IncrementCallCounter p = fmupd ''call_counter'' (VInt (pad_GetCallCounter p + 1)) p"

definition pad_SetCallCounter :: "goint \<Rightarrow> gmap \<Rightarrow> gmap" where
  "pad_SetCallCounter n p = fmupd ''call_counter'' (VInt n) p"

definition pad_GetInterruptCounter :: "gmap \<Rightarrow> goint" where
  "pad_GetInterruptCounter p = pad_counter ''interrupt_counter'' p"

definition pad_IncrementInterruptCounter :: "gmap \<Rightarrow> gmap" where
  "pad_IncrementInterruptCounter p = fmupd ''interrupt_counter'' (VInt (pad_GetInterruptCounter p + 1)) p"

definition pad_GetSubgraphCounter :: "gmap \<Rightarrow> goint" where
  "pad_GetSubgraphCounter p = pad_counter ''subgraph_counter'' p"

definition pad_IncrementSubgraphCounter :: "gmap \<Rightarrow> gmap" where
  "pad_IncrementSubgraphCounter p = fmupd ''subgraph_counter'' (VInt (pad_GetSubgraphCounter p + 1)) p"

definition pad_Get :: "string \<Rightarrow> gmap \<Rightarrow> gval option" where
  "pad_Get key p = fmlookup p key"

definition pad_Set :: "string \<Rightarrow> gval \<Rightarrow> gmap \<Rightarrow> gmap" where
  "pad_Set key v p = fmupd key v p"

definition pad_Delete :: "string \<Rightarrow> gmap \<Rightarrow> gmap" where
  "pad_Delete key p = fmdrop key p"

definition pad_Clear :: "gmap \<Rightarrow> gmap" where
  "pad_Clear p = fmdrop_fset (fmdom p) p"

definition pad_Clone :: "gmap \<Rightarrow> gmap" where
  "pad_Clone p = fmempty ++\<^sub>f p"

section \<open>The runtime\<close>

text \<open>A nil map is \<open>None\<close>; \<open>rtmWriter\<close> is the stream writer, \<open>None\<close> when nil.\<close>

record node_runtime =
  rtmTaskID :: string
  rtmNodeName :: string
  rtmStep :: goint
  rtmConfigurable :: "gmap option"
  rtmCheckpointNS :: string
  rtmContext :: gval
  rtmStore :: gval
  rtmWriter :: "nat option"
  rtmPrevious :: gval

definition NewRuntime :: node_runtime where
  "NewRuntime = \<lparr>rtmTaskID = [], rtmNodeName = [], rtmStep = 0, rtmConfigurable = Some fmempty, rtmCheckpointNS = [],
     rtmContext = VNil, rtmStore = VNil, rtmWriter = None, rtmPrevious = VNil\<rparr>"

definition DEFAULT_RUNTIME :: node_runtime where
  "DEFAULT_RUNTIME = \<lparr>rtmTaskID = [], rtmNodeName = [], rtmStep = 0, rtmConfigurable = None, rtmCheckpointNS = [],
     rtmContext = VNil, rtmStore = VNil, rtmWriter = None, rtmPrevious = VNil\<rparr>"

definition rtm_Clone :: "node_runtime \<Rightarrow> node_runtime" where
  "rtm_Clone r = r"

text \<open>Writing to a nil map panics (\<open>None\<close>).\<close>

definition write_all_entries :: "gmap option \<Rightarrow> gmap option \<Rightarrow> gmap option option" where
  "write_all_entries m es = (case es of
     None \<Rightarrow> Some m
   | Some e \<Rightarrow> (if e = fmempty then Some m else (case m of None \<Rightarrow> None | Some m' \<Rightarrow> Some (Some (m' ++\<^sub>f e)))))"

definition rtm_Merge :: "node_runtime \<Rightarrow> node_runtime option \<Rightarrow> node_runtime option" where
  "rtm_Merge r other = (case other of
     None \<Rightarrow> Some (rtm_Clone r)
   | Some q \<Rightarrow>
       (let m = rtm_Clone r;
            m1 = m\<lparr>rtmContext := (if rtmContext q \<noteq> VNil then rtmContext q else rtmContext m),
                   rtmStore := (if rtmStore q \<noteq> VNil then rtmStore q else rtmStore m),
                   rtmWriter := (if rtmWriter q \<noteq> None then rtmWriter q else rtmWriter m),
                   rtmPrevious := (if rtmPrevious q \<noteq> VNil then rtmPrevious q else rtmPrevious m),
                   rtmTaskID := (if rtmTaskID q \<noteq> [] then rtmTaskID q else rtmTaskID m),
                   rtmNodeName := (if rtmNodeName q \<noteq> [] then rtmNodeName q else rtmNodeName m),
                   rtmStep := (if rtmStep q \<noteq> 0 then rtmStep q else rtmStep m),
                   rtmCheckpointNS := (if rtmCheckpointNS q \<noteq> [] then rtmCheckpointNS q else rtmCheckpointNS m)\<rparr>
        in (case write_all_entries (rtmConfigurable m1) (rtmConfigurable q) of
              None \<Rightarrow> None | Some c \<Rightarrow> Some (m1\<lparr>rtmConfigurable := c\<rparr>))))"

definition rtm_Set :: "string \<Rightarrow> gval \<Rightarrow> node_runtime \<Rightarrow> node_runtime" where
  "rtm_Set key v r = r\<lparr>rtmConfigurable :=
     Some (fmupd key v (case rtmConfigurable r of None \<Rightarrow> fmempty | Some m \<Rightarrow> m))\<rparr>"

definition rtm_Get :: "string \<Rightarrow> node_runtime \<Rightarrow> gval option" where
  "rtm_Get key r = (case rtmConfigurable r of None \<Rightarrow> None | Some m \<Rightarrow> fmlookup m key)"

text \<open>\<open>writer_of\<close> tells whether a value is a stream writer, and which.\<close>

definition rtm_Override :: "(gval \<Rightarrow> nat option) \<Rightarrow> gmap \<Rightarrow> node_runtime \<Rightarrow> node_runtime" where
  "rtm_Override writer_of o1 r =
     (let n = rtm_Clone r
      in n\<lparr>rtmContext := (case fmlookup o1 ''context'' of Some v \<Rightarrow> v | None \<Rightarrow> rtmContext n),
           rtmStore := (case fmlookup o1 ''store'' of Some v \<Rightarrow> v | None \<Rightarrow> rtmStore n),
           rtmWriter := (case Option.bind (fmlookup o1 ''stream_writer'') writer_of of Some w \<Rightarrow> Some w | None \<Rightarrow> rtmWriter n),
           rtmPrevious := (case fmlookup o1 ''previous'' of Some v \<Rightarrow> v | None \<Rightarrow> rtmPrevious n),
           rtmTaskID := (case fmlookup o1 ''task_id'' of Some (VStr s) \<Rightarrow> s | _ \<Rightarrow> rtmTaskID n),
           rtmNodeName := (case fmlookup o1 ''node_name'' of Some (VStr s) \<Rightarrow> s | _ \<Rightarrow> rtmNodeName n),
           rtmStep := (case fmlookup o1 ''step'' of Some (VInt i) \<Rightarrow> i | _ \<Rightarrow> rtmStep n),
           rtmCheckpointNS := (case fmlookup o1 ''checkpoint_ns'' of Some (VStr s) \<Rightarrow> s | _ \<Rightarrow> rtmCheckpointNS n)\<rparr>)"

section \<open>Entries of a configuration\<close>

datatype cfg_val = CfgVal gval | CfgRuntime node_runtime | CfgMap "(string, cfg_val) fmap" | CfgSend nat

type_synonym cfg_map = "(string, cfg_val) fmap"

definition get_runtime :: "cfg_map option \<Rightarrow> node_runtime" where
  "get_runtime c = (case c of None \<Rightarrow> rtm_Clone DEFAULT_RUNTIME
     | Some m \<Rightarrow> (case fmlookup m ''__runtime__'' of Some (CfgRuntime r) \<Rightarrow> r | _ \<Rightarrow> rtm_Clone DEFAULT_RUNTIME))"

definition cfg_GetTaskID :: "cfg_map option \<Rightarrow> string" where
  "cfg_GetTaskID c = (case c of None \<Rightarrow> []
     | Some m \<Rightarrow> (case fmlookup m ''__task_id__'' of Some (CfgVal (VStr s)) \<Rightarrow> s | _ \<Rightarrow> []))"

definition GetRuntime :: "cfg_map option \<Rightarrow> node_runtime" where
  "GetRuntime c = (case c of None \<Rightarrow> NewRuntime
     | Some m \<Rightarrow> (case fmlookup m ''__runtime__'' of Some (CfgRuntime r) \<Rightarrow> r | _ \<Rightarrow> NewRuntime))"

definition cfg_put :: "string \<Rightarrow> cfg_val \<Rightarrow> cfg_map option \<Rightarrow> cfg_map option" where
  "cfg_put key v c = (case c of None \<Rightarrow> None | Some m \<Rightarrow> Some (fmupd key v m))"

definition cfg_any :: "string \<Rightarrow> cfg_map option \<Rightarrow> cfg_val" where
  "cfg_any key c = (case c of None \<Rightarrow> CfgVal VNil
     | Some m \<Rightarrow> (case fmlookup m key of Some v \<Rightarrow> v | None \<Rightarrow> CfgVal VNil))"

definition SetRuntime :: "node_runtime \<Rightarrow> cfg_map option \<Rightarrow> cfg_map option" where
  "SetRuntime r c = cfg_put ''__runtime__'' (CfgRuntime r) c"

definition rt_GetReader :: "cfg_map option \<Rightarrow> cfg_val" where
  "rt_GetReader c = cfg_any ''__read__'' c"

definition SetReader :: "cfg_val \<Rightarrow> cfg_map option \<Rightarrow> cfg_map option" where
  "SetReader v c = cfg_put ''__read__'' v c"

definition GetSend :: "cfg_map option \<Rightarrow> nat option" where
  "GetSend c = (case cfg_any ''__send__'' c of CfgSend n \<Rightarrow> Some n | _ \<Rightarrow> None)"

definition SetSend :: "nat \<Rightarrow> cfg_map option \<Rightarrow> cfg_map option" where
  "SetSend n c = cfg_put ''__send__'' (CfgSend n) c"

definition GetWriter :: "cfg_map option \<Rightarrow> cfg_val" where
  "GetWriter c = cfg_any ''__writer__'' c"

definition SetWriter :: "cfg_val \<Rightarrow> cfg_map option \<Rightarrow> cfg_map option" where
  "SetWriter v c = cfg_put ''__writer__'' v c"

definition mc_PatchConfig :: "cfg_map option \<Rightarrow> cfg_map option \<Rightarrow> cfg_map" where
  "mc_PatchConfig b u = (let base = (case b of None \<Rightarrow> fmempty | Some m \<Rightarrow> m)
     in case u of None \<Rightarrow> base | Some us \<Rightarrow> base ++\<^sub>f us)"

definition mc_PatchConfigurable :: "cfg_map option \<Rightarrow> cfg_map option \<Rightarrow> cfg_map" where
  "mc_PatchConfigurable b u = (let base = (case b of None \<Rightarrow> fmempty | Some m \<Rightarrow> m)
     in case u of None \<Rightarrow> base
      | Some us \<Rightarrow> fmupd ''__configurable__''
          (CfgMap ((case fmlookup base ''__configurable__'' of Some (CfgMap m) \<Rightarrow> m | _ \<Rightarrow> fmempty) ++\<^sub>f us)) base)"

definition mc_GetConfigurable :: "cfg_map option \<Rightarrow> cfg_map option" where
  "mc_GetConfigurable c = (case c of None \<Rightarrow> None
     | Some m \<Rightarrow> (case fmlookup m ''__configurable__'' of Some (CfgMap x) \<Rightarrow> Some x | _ \<Rightarrow> None))"

definition GetCheckpointNS :: "cfg_map option \<Rightarrow> string" where
  "GetCheckpointNS c = (case c of None \<Rightarrow> []
     | Some m \<Rightarrow> (case fmlookup m ''__checkpoint_ns__'' of Some (CfgVal (VStr s)) \<Rightarrow> s | _ \<Rightarrow> []))"

definition SetCheckpointNS :: "string \<Rightarrow> cfg_map option \<Rightarrow> cfg_map option" where
  "SetCheckpointNS ns c = cfg_put ''__checkpoint_ns__'' (CfgVal (VStr ns)) c"

section \<open>Checkpoint namespaces\<close>

definition splitCheckpointNS :: "string \<Rightarrow> string list" where
  "splitCheckpointNS ns = split_on CHR ''|'' ns"

fun join_ns :: "string \<Rightarrow> string list \<Rightarrow> string" where
  "join_ns result [] = result"
| "join_ns result (p # ps) = join_ns (result @ ''|'' @ p) ps"

definition joinCheckpointNS :: "string list \<Rightarrow> string" where
  "joinCheckpointNS parts = (case parts of [] \<Rightarrow> [] | p # ps \<Rightarrow> join_ns p ps)"

definition hex_char :: "char \<Rightarrow> bool" where
  "hex_char c \<longleftrightarrow> c \<in> set ''0123456789abcdef''"

text \<open>The regular expression \<^verbatim>\<open>^[0-9a-f]{8}-[0-9a-f]{4}-[0-9a-f]{4}-[0-9a-f]{4}-[0-9a-f]{12}$\<close>.\<close>

definition isTaskID :: "string \<Rightarrow> bool" where
  "isTaskID s \<longleftrightarrow> length s = 36 \<and>
     (\<forall>i < 36. if i \<in> {8, 13, 18, 23} then s ! i = CHR ''-'' else hex_char (s ! i))"

definition ParseCheckpointNS :: "string \<Rightarrow> string list" where
  "ParseCheckpointNS ns = (if ns = [] then [] else splitCheckpointNS ns)"

definition RecastCheckpointNS :: "string \<Rightarrow> string" where
  "RecastCheckpointNS ns =
     (let parts = splitCheckpointNS ns
      in if length parts = 0 then []
         else if isTaskID (parts ! (length parts - 1)) then joinCheckpointNS (take (length parts - 1) parts)
         else ns)"

section \<open>What holds\<close>

lemma join_ns_join: "join_ns r ps = (if ps = [] then r else r @ CHR ''|'' # join_with CHR ''|'' ps)"
  by (induction r ps rule: join_ns.induct) (auto simp: join_with_Cons)

lemma joinCheckpointNS_join: "joinCheckpointNS ps = join_with CHR ''|'' ps"
  by (cases ps) (auto simp: joinCheckpointNS_def join_ns_join join_with_Cons)

definition plain_parts :: "string list \<Rightarrow> bool" where
  "plain_parts ps \<longleftrightarrow> ps \<noteq> [] \<and> ps \<noteq> [[]] \<and> (\<forall>p \<in> set ps. CHR ''|'' \<notin> set p)"

text \<open>A checkpoint namespace built from the path of a node is parsed back into the path; recasting
  removes exactly a last part that is a task identifier, and nothing from any other namespace.\<close>

theorem namespace_roundtrip:
  assumes "plain_parts ps"
  shows "ParseCheckpointNS (joinCheckpointNS ps) = ps \<and>
    RecastCheckpointNS (joinCheckpointNS ps) = joinCheckpointNS (if isTaskID (last ps) then butlast ps else ps) \<and>
    joinCheckpointNS (ParseCheckpointNS ns) = ns"
proof -
  from assms have s: "split_on CHR ''|'' (join_with CHR ''|'' ps) = ps"
    by (intro split_on_join) (auto simp: plain_parts_def)
  moreover have "join_with CHR ''|'' ps \<noteq> []"
    using s assms by (auto simp: plain_parts_def)
  ultimately show ?thesis
    using assms by (auto simp: ParseCheckpointNS_def RecastCheckpointNS_def splitCheckpointNS_def joinCheckpointNS_join
        join_split_on Let_def plain_parts_def last_conv_nth butlast_conv_take)
qed

theorem namespace_roundtrip_witness:
  "RecastCheckpointNS (joinCheckpointNS [''agent'', ''01234567-89ab-cdef-0123-456789abcdef'']) = ''agent''"
proof -
  have "isTaskID ''01234567-89ab-cdef-0123-456789abcdef''" by code_simp
  with namespace_roundtrip[of "[''agent'', ''01234567-89ab-cdef-0123-456789abcdef'']"] show ?thesis
    by (simp add: plain_parts_def joinCheckpointNS_def)
qed

definition or_else :: "'a \<Rightarrow> 'a \<Rightarrow> 'a \<Rightarrow> 'a" where
  "or_else z x y = (if x \<noteq> z then x else y)"

lemma or_else_assoc: "or_else z x (or_else z y w) = or_else z (or_else z x y) w"
  by (simp add: or_else_def)

lemma or_else_if: "(if x \<noteq> z then x else y) = or_else z x y"
  by (simp add: or_else_def)

definition entries_of :: "gmap option \<Rightarrow> gmap" where
  "entries_of c = (case c of None \<Rightarrow> fmempty | Some m \<Rightarrow> m)"

lemma write_all_entries_Some: "write_all_entries (Some m) es = Some (Some (m ++\<^sub>f entries_of es))"
  by (simp add: write_all_entries_def entries_of_def split: option.split)

lemma rtm_Merge_Some:
  assumes "rtmConfigurable r = Some m"
  shows "rtm_Merge r (Some q) = Some
    \<lparr>rtmTaskID = or_else [] (rtmTaskID q) (rtmTaskID r), rtmNodeName = or_else [] (rtmNodeName q) (rtmNodeName r),
     rtmStep = or_else 0 (rtmStep q) (rtmStep r), rtmConfigurable = Some (m ++\<^sub>f entries_of (rtmConfigurable q)),
     rtmCheckpointNS = or_else [] (rtmCheckpointNS q) (rtmCheckpointNS r),
     rtmContext = or_else VNil (rtmContext q) (rtmContext r), rtmStore = or_else VNil (rtmStore q) (rtmStore r),
     rtmWriter = or_else None (rtmWriter q) (rtmWriter r), rtmPrevious = or_else VNil (rtmPrevious q) (rtmPrevious r)\<rparr>"
  unfolding rtm_Merge_def rtm_Clone_def Let_def or_else_if using assms
  by (simp add: write_all_entries_Some)

text \<open>Merging runtimes: the later one wins in every field it sets, entry by entry in the configurable
  part, so merging is associative where the runtimes have a configurable map.\<close>

theorem runtime_merge_assoc:
  assumes "rtmConfigurable a = Some ma" "rtmConfigurable b = Some mb"
  shows "Option.bind (rtm_Merge a (Some b)) (\<lambda>ab. rtm_Merge ab (Some c)) =
      Option.bind (rtm_Merge b (Some c)) (\<lambda>bc. rtm_Merge a (Some bc)) \<and>
    map_option (rtm_Get k) (rtm_Merge a (Some b)) = Some (case rtm_Get k b of Some v \<Rightarrow> Some v | None \<Rightarrow> rtm_Get k a)"
  using assms
  by (simp add: rtm_Merge_Some or_else_assoc entries_of_def rtm_Get_def fmlookup_dom_iff split: option.split)

definition demo_rtm :: "string \<Rightarrow> node_runtime" where
  "demo_rtm n = NewRuntime\<lparr>rtmNodeName := n, rtmConfigurable := Some (fmupd ''k'' (VStr n) fmempty)\<rparr>"

theorem runtime_merge_assoc_witness:
  "map_option (rtm_Get ''k'') (rtm_Merge (demo_rtm ''a'') (Some (demo_rtm ''b''))) = Some (Some (VStr ''b''))"
proof -
  have c: "rtmConfigurable (demo_rtm n) = Some (fmupd ''k'' (VStr n) fmempty)" for n
    by (simp add: demo_rtm_def)
  from conjunct2[OF runtime_merge_assoc[OF c[of "''a''"] c[of "''b''"], where k = "''k''"]] show ?thesis
    by (simp add: c rtm_Get_def)
qed

text \<open>The default runtime is not protected by its nil map the way its comment says: \<open>Set\<close> on it makes
  a map and writes the entry, while merging a runtime with entries into it panics, although \<open>Merge\<close>
  works on a clone; merging a fresh runtime into it does not.\<close>

theorem default_runtime_set_merge:
  assumes "rtmConfigurable q = Some m" "m \<noteq> fmempty"
  shows "rtm_Get key (rtm_Set key v DEFAULT_RUNTIME) = Some v \<and>
    rtm_Merge (rtm_Clone DEFAULT_RUNTIME) (Some q) = None \<and>
    rtm_Merge NewRuntime (Some q) \<noteq> None \<and> rtm_Merge DEFAULT_RUNTIME (Some NewRuntime) = Some DEFAULT_RUNTIME"
  using assms
  by (simp add: rtm_Get_def rtm_Set_def DEFAULT_RUNTIME_def rtm_Merge_def rtm_Clone_def write_all_entries_def NewRuntime_def
      Let_def)

theorem default_runtime_set_merge_witness:
  "rtm_Merge DEFAULT_RUNTIME (Some (demo_rtm ''a'')) = None"
  using default_runtime_set_merge[of "demo_rtm ''a''" "fmupd ''k'' (VStr ''a'') fmempty"]
  by (simp add: demo_rtm_def rtm_Clone_def)

text \<open>A managed value reads what a plain scratchpad map holds under its key when the type fits and keeps
  it for later reads; a \<^verbatim>\<open>PregelScratchpad\<close>, for which this package defines its counters, is never read.\<close>

theorem managed_value_sticks:
  assumes "fmlookup m ''current_step'' = Some (VInt i)" "fmlookup m ''task_id'' = Some (VStr t)"
    and "pad = PadNil \<or> pad = PadScratchpad p \<or> pad = PadMap fmempty"
  shows "fst (mv_Get (snd (mv_Get (CurrentStep n) (PadMap m))) pad) = VInt i \<and>
    fst (mv_Get (snd (mv_Get (TaskID s) (PadMap m))) pad) = VStr t \<and>
    snd (mv_Get v pad) = v \<and> mv_Get v (PadScratchpad m) = mv_Get v PadNil"
  using assms by (auto simp: mv_Get_def ls_Get_def cs_Get_def cv_Get_def ti_Get_def nn_Get_def pad_value_def Let_def split: managed_value.split)

theorem managed_value_sticks_witness:
  "fst (mv_Get (snd (mv_Get NewCurrentStep (PadMap (fmap_of_list [(''current_step'', VInt 3), (''task_id'', VStr ''t'')]))))
     (PadScratchpad (fmap_of_list [(''current_step'', VInt 4)]))) = VInt 3"
  using managed_value_sticks[of "fmap_of_list [(''current_step'', VInt 3), (''task_id'', VStr ''t'')]" 3 "''t''"
      "PadScratchpad (fmap_of_list [(''current_step'', VInt 4)])" "fmap_of_list [(''current_step'', VInt 4)]" 0 "[]" NewTaskID]
  by (simp add: NewCurrentStep_def fmlookup_of_list)

end
