(* ===== verification/State_Inspector.thy ===== *)
theory State_Inspector
  imports Checkpoint_Store Graph Config
begin

text \<open>
  Inspection of the saved state of a compiled graph (\<^verbatim>\<open>graph/state_inspector.go\<close>): reading a state and
  the history of states, updating a state by hand, forking a thread. The saver is the interface
  \<^verbatim>\<open>BaseCheckpointer\<close>, a record of its three operations on a state \<open>'s\<close>; the properties are about
  \<open>MemorySaver\<close>. The visiting orders of maps are arguments.
\<close>

section \<open>The saver of a compiled graph\<close>

record 's base_saver =
  bsGet :: "'s \<Rightarrow> gmap \<Rightarrow> gerr + gmap option"
  bsPut :: "'s \<Rightarrow> gmap \<Rightarrow> gmap \<Rightarrow> gerr option \<times> 's"
  bsList :: "'s \<Rightarrow> gmap \<Rightarrow> int \<Rightarrow> gerr + gmap list"

text \<open>The checkpointer of a compiled graph has type \<^verbatim>\<open>interface{}\<close>; another value has a type name.\<close>

datatype 's any_saver = IsSaver "'s base_saver" | NoSaver string

type_synonym ('w, 's) inspected = "('w, 's any_saver) compiled"

text \<open>\<open>uuid\<close> is the identifier \<open>Put\<close> draws, \<open>now\<close> the time.\<close>

definition memory_base :: "golib \<Rightarrow> (memory_saver \<Rightarrow> string) \<Rightarrow> int \<Rightarrow> memory_saver base_saver" where
  "memory_base L uuid now =
     \<lparr>bsGet = ms_Get L, bsPut = (\<lambda>s cfg cp. ms_Put L (uuid s) now s cfg cp), bsList = ms_List L\<rparr>"

definition getCheckpointer :: "('w, 's) inspected \<Rightarrow> gerr + 's base_saver" where
  "getCheckpointer cg = (case cgCheckpointer cg of
     Some (IsSaver cp) \<Rightarrow> Inr cp
   | Some (NoSaver t) \<Rightarrow> Inl (ErrorString (''checkpointer is not a BaseCheckpointer (got '' @ t @ '')''))
   | None \<Rightarrow> Inl (ErrorString ''checkpointer is not a BaseCheckpointer (got <nil>)''))"

definition buildCheckpointerConfig :: "runnable_config option \<Rightarrow> gmap" where
  "buildCheckpointerConfig config =
     (case Option.bind config cfConfigurable of
        None \<Rightarrow> fmempty
      | Some m \<Rightarrow> fmfilter (\<lambda>k. k \<in> {''thread_id'', ''checkpoint_id'', ''checkpoint_ns''}) m)"

definition extractMeta :: "gmap \<Rightarrow> gmap" where
  "extractMeta d =
     (let m1 = (case fmlookup d ''__step__'' of Some v \<Rightarrow> fmupd ''step'' v fmempty | None \<Rightarrow> fmempty)
      in case fmlookup d ''__last_completed_node__'' of Some v \<Rightarrow> fmupd ''last_completed_node'' v m1 | None \<Rightarrow> m1)"

definition determineNextFromCheckpoint :: "gmap \<Rightarrow> string list" where
  "determineNextFromCheckpoint d = []"

section \<open>Reading a state\<close>

text \<open>The parent, tasks and interrupts of a snapshot are never filled. \<open>None\<close> is a nil map of values.\<close>

record state_snapshot =
  snValues :: "gmap option"
  snNext :: "string list"
  snConfig :: "runnable_config option"
  snMetadata :: gmap
  snCreatedAt :: int

record inspect_orders =
  ioReg :: "registry \<Rightarrow> (string \<times> channel) list"
  ioMap :: "gmap \<Rightarrow> (string \<times> gval) list"

definition state_registry :: "golib \<Rightarrow> inspect_orders \<Rightarrow> registry \<Rightarrow> gmap \<Rightarrow> gerr option \<times> registry" where
  "state_registry L od chans d =
     (let r = fmmap (ch_Copy L) chans;
          filtered = fmfilter (\<lambda>k. rg_Get r k \<noteq> None) d
      in if flen filtered > 0 then rg_RestoreFromCheckpoint L r (ioMap od filtered) else (None, r))"

definition GetState ::
  "golib \<Rightarrow> inspect_orders \<Rightarrow> int \<Rightarrow> ('w, 's) inspected \<Rightarrow> runnable_config option \<Rightarrow> 's
   \<Rightarrow> gerr + state_snapshot option"
where
  "GetState L od now cg config s =
     (if cgCheckpointer cg = None
      then Inl (ErrorString ''checkpointer is required for GetState, configure with WithCheckpointer during Compile'')
      else case getCheckpointer cg of Inl e \<Rightarrow> Inl e
      | Inr cp \<Rightarrow> (case bsGet cp s (buildCheckpointerConfig config) of
          Inl e \<Rightarrow> Inl (WrapError ''failed to get checkpoint'' e)
        | Inr None \<Rightarrow> Inr None
        | Inr (Some d) \<Rightarrow>
            (case state_registry L od (sgChannels (cgGraph cg)) d of
               (Some e, r) \<Rightarrow> Inl (WrapError ''failed to restore from checkpoint'' e)
             | (None, r) \<Rightarrow>
                 Inr (Some \<lparr>snValues = (case fst (rg_GetValues r (ioReg od r)) of Inl _ \<Rightarrow> None | Inr vals \<Rightarrow> Some vals),
                            snNext = determineNextFromCheckpoint d, snConfig = config,
                            snMetadata = extractMeta d, snCreatedAt = now\<rparr>))))"

section \<open>The history of a thread\<close>

definition config_entries :: "runnable_config option \<Rightarrow> gmap" where
  "config_entries config = (case Option.bind config cfConfigurable of None \<Rightarrow> fmempty | Some m \<Rightarrow> m)"

definition history_config :: "runnable_config option \<Rightarrow> gmap \<Rightarrow> runnable_config" where
  "history_config config entry =
     (let cpID = (case get_str entry ''checkpoint_id'' of Some i \<Rightarrow> i | None \<Rightarrow> []);
          m = config_entries config
      in zero_config\<lparr>cfConfigurable := Some (if cpID \<noteq> [] then fmupd ''checkpoint_id'' (VStr cpID) m else m)\<rparr>)"

definition dated :: "gmap \<Rightarrow> state_snapshot \<Rightarrow> state_snapshot" where
  "dated entry snap =
     (let s1 = (case fmlookup entry ''created_at'' of
                  Some (VOther t n) \<Rightarrow> (if t = ''time.Time'' then snap\<lparr>snCreatedAt := int n\<rparr> else snap) | _ \<Rightarrow> snap)
      in case fmlookup entry ''metadata'' of Some (VMap m) \<Rightarrow> s1\<lparr>snMetadata := m\<rparr> | _ \<Rightarrow> s1)"

fun history_loop ::
  "golib \<Rightarrow> inspect_orders \<Rightarrow> int \<Rightarrow> ('w, 's) inspected \<Rightarrow> runnable_config option \<Rightarrow> 's \<Rightarrow> gmap list
   \<Rightarrow> state_snapshot list"
where
  "history_loop L od now cg config s [] = []"
| "history_loop L od now cg config s (e # es) =
     (case GetState L od now cg (Some (history_config config e)) s of
        Inr (Some snap) \<Rightarrow> dated e snap # history_loop L od now cg config s es
      | _ \<Rightarrow> history_loop L od now cg config s es)"

text \<open>The argument \<^verbatim>\<open>before\<close> is not used.\<close>

definition GetStateHistory ::
  "golib \<Rightarrow> inspect_orders \<Rightarrow> int \<Rightarrow> ('w, 's) inspected \<Rightarrow> runnable_config option \<Rightarrow> int \<Rightarrow> runnable_config option
   \<Rightarrow> 's \<Rightarrow> gerr + state_snapshot list"
where
  "GetStateHistory L od now cg config limit before s =
     (if cgCheckpointer cg = None then Inl (ErrorString ''checkpointer is required for GetStateHistory'')
      else case getCheckpointer cg of Inl e \<Rightarrow> Inl e
      | Inr cp \<Rightarrow> (case bsList cp s (buildCheckpointerConfig config) limit of
          Inl e \<Rightarrow> Inl (WrapError ''failed to list checkpoints'' e)
        | Inr es \<Rightarrow> Inr (history_loop L od now cg config s es)))"

section \<open>Updating a state and forking a thread\<close>

record state_update =
  suValues :: gmap
  suAsNode :: string
  suCheckID :: string
  suThreadID :: string

definition newest_id :: "gmap list \<Rightarrow> string" where
  "newest_id es = (case get_str (hd es) ''checkpoint_id'' of Some i \<Rightarrow> i | None \<Rightarrow> [])"

definition updated_config ::
  "'s base_saver \<Rightarrow> 's \<Rightarrow> runnable_config option \<Rightarrow> string \<Rightarrow> runnable_config option"
where
  "updated_config cp s config tid =
     (case bsList cp s (fmupd ''thread_id'' (VStr tid) fmempty) 1 of
        Inr (e # es) \<Rightarrow> Some (NewRunnableConfig\<lparr>cfConfigurable :=
          Some (fmupd ''thread_id'' (VStr tid) (fmupd ''checkpoint_id'' (VStr (newest_id (e # es))) (config_entries config)))\<rparr>)
      | _ \<Rightarrow> config)"

text \<open>The name of the node the update is made as is computed and not used.\<close>

definition update_target :: "runnable_config option \<Rightarrow> state_update \<Rightarrow> gmap" where
  "update_target config u =
     (let c = buildCheckpointerConfig config
      in if suCheckID u \<noteq> [] then fmupd ''checkpoint_id'' (VStr (suCheckID u)) c else c)"

definition update_thread :: "runnable_config option \<Rightarrow> state_update \<Rightarrow> string" where
  "update_thread config u =
     (if suThreadID u \<noteq> [] then suThreadID u
      else case get_str (update_target config u) ''thread_id'' of Some i \<Rightarrow> i | None \<Rightarrow> [])"

definition UpdateState ::
  "('w, 's) inspected \<Rightarrow> runnable_config option \<Rightarrow> state_update \<Rightarrow> 's \<Rightarrow> (gerr + runnable_config option) \<times> 's"
where
  "UpdateState cg config u s =
     (if cgCheckpointer cg = None then (Inl (ErrorString ''checkpointer is required for UpdateState''), s)
      else case getCheckpointer cg of Inl e \<Rightarrow> (Inl e, s)
      | Inr cp \<Rightarrow>
         (let c = update_target config u
          in case bsGet cp s c of
               Inl e \<Rightarrow> (Inl (WrapError ''failed to get checkpoint for update'' e), s)
             | Inr None \<Rightarrow> (Inl (ErrorString ''no checkpoint found for the given config''), s)
             | Inr (Some d) \<Rightarrow>
                (let d1 = d ++\<^sub>f suValues u;
                     tid = update_thread config u
                 in if tid = [] then (Inl (ErrorString ''thread_id is required for UpdateState''), s)
                    else
                      (let parent = (case get_str c ''checkpoint_id'' of Some i \<Rightarrow> i | None \<Rightarrow> []);
                           new = fmap_of_list [(''thread_id'', VStr tid), (''parent_checkpoint_id'', VStr parent),
                                   (''checkpoint_id'', VStr [])]
                       in case bsPut cp s new d1 of
                            (Some e, s1) \<Rightarrow> (Inl (WrapError ''failed to save updated checkpoint'' e), s1)
                          | (None, s1) \<Rightarrow> (Inr (updated_config cp s1 config tid), s1)))))"

definition fork_source :: "string \<Rightarrow> string \<Rightarrow> gmap" where
  "fork_source source cpID =
     (let c = fmupd ''thread_id'' (VStr source) fmempty
      in if cpID \<noteq> [] then fmupd ''checkpoint_id'' (VStr cpID) c else c)"

definition ForkThread ::
  "('w, 's) inspected \<Rightarrow> string \<Rightarrow> string \<Rightarrow> string \<Rightarrow> 's \<Rightarrow> (gerr + runnable_config) \<times> 's"
where
  "ForkThread cg source new sourceCheckpointID s =
     (if cgCheckpointer cg = None then (Inl (ErrorString ''checkpointer is required for ForkThread''), s)
      else case getCheckpointer cg of Inl e \<Rightarrow> (Inl e, s)
      | Inr cp \<Rightarrow>
         (case bsGet cp s (fork_source source sourceCheckpointID) of
               Inl e \<Rightarrow> (Inl (WrapError ''failed to get source checkpoint'' e), s)
             | Inr None \<Rightarrow> (Inl (ErrorString (''no checkpoint found for thread '' @ source)), s)
             | Inr (Some d) \<Rightarrow>
                (let newConfig = fmupd ''thread_id'' (VStr new) fmempty
                 in case bsPut cp s newConfig d of
                      (Some e, s1) \<Rightarrow> (Inl (WrapError ''failed to write forked checkpoint'' e), s1)
                    | (None, s1) \<Rightarrow>
                        (case bsList cp s1 newConfig 1 of
                           Inr (e # es) \<Rightarrow>
                             (let i = newest_id (e # es);
                                  m = fmupd ''thread_id'' (VStr new) fmempty
                              in (Inr (NewRunnableConfig\<lparr>cfConfigurable :=
                                   Some (if i \<noteq> [] then fmupd ''checkpoint_id'' (VStr i) m else m)\<rparr>), s1))
                         | _ \<Rightarrow> (Inr (zero_config\<lparr>cfConfigurable := Some newConfig\<rparr>), s1)))))"

section \<open>What a snapshot shows\<close>

definition inspect_orders_ok :: "inspect_orders \<Rightarrow> bool" where
  "inspect_orders_ok od \<longleftrightarrow> (\<forall>r. entries r (ioReg od r)) \<and> (\<forall>m. entries m (ioMap od m))"

text \<open>The value of a channel \<open>c\<close> of the graph when the checkpoint has \<open>v\<close> under its name.\<close>

definition shown :: "golib \<Rightarrow> channel \<Rightarrow> gval option \<Rightarrow> gval option" where
  "shown L c v = (case fst (ch_Get (case v of None \<Rightarrow> ch_Copy L c | Some x \<Rightarrow> ch_FromCheckpoint L (ch_Copy L c) x)) of
     Inl _ \<Rightarrow> None | Inr x \<Rightarrow> Some x)"

definition shown_values :: "golib \<Rightarrow> registry \<Rightarrow> gmap \<Rightarrow> gmap \<Rightarrow> bool" where
  "shown_values L chans d vals \<longleftrightarrow>
     (\<forall>k. fmlookup vals k = Option.bind (fmlookup chans k) (\<lambda>c. shown L c (fmlookup d k)))"

lemma shown_values_unique: "shown_values L chans d v1 \<Longrightarrow> shown_values L chans d v2 \<Longrightarrow> v1 = v2"
  by (rule fmap_ext) (simp add: shown_values_def)

lemma state_registry_lookup:
  assumes "inspect_orders_ok od"
  shows "\<exists>r. state_registry L od chans d = (None, r) \<and>
    (\<forall>k. fmlookup r k = map_option (\<lambda>c. case fmlookup d k of None \<Rightarrow> ch_Copy L c
       | Some x \<Rightarrow> ch_FromCheckpoint L (ch_Copy L c) x) (fmlookup chans k))"
proof -
  define r0 where "r0 = fmmap (ch_Copy L) chans"
  define f where "f = fmfilter (\<lambda>k. rg_Get r0 k \<noteq> None) d"
  have look: "fmlookup f k = (if fmlookup chans k = None then None else fmlookup d k)" for k
    by (simp add: f_def r0_def rg_Get_def)
  have es: "entries f (ioMap od f)" using assms by (simp add: inspect_orders_ok_def)
  have "fst ` set (ioMap od f) \<subseteq> fmdom' r0"
  proof
    fix k assume "k \<in> fst ` set (ioMap od f)"
    with entries_keys[OF es] have "k \<in> fmdom' f" by blast
    then show "k \<in> fmdom' r0" by (auto simp: r0_def look fmlookup_dom'_iff split: if_splits)
  qed
  from Restore_lookup[OF entries_distinct[OF es] this, of L] obtain r where
    r: "rg_RestoreFromCheckpoint L r0 (ioMap od f) = (None, r)" and
    rl: "\<And>k. fmlookup r k = (case map_of (ioMap od f) k of None \<Rightarrow> fmlookup r0 k
       | Some cp \<Rightarrow> map_option (\<lambda>c. ch_FromCheckpoint L c cp) (fmlookup r0 k))" by blast
  have mo: "map_of (ioMap od f) k = fmlookup f k" for k
    using es unfolding entries_def by (metis fmlookup_of_list)
  have rk: "fmlookup r k = map_option (\<lambda>c. case fmlookup d k of None \<Rightarrow> ch_Copy L c
       | Some x \<Rightarrow> ch_FromCheckpoint L (ch_Copy L c) x) (fmlookup chans k)" for k
    by (cases "fmlookup chans k"; cases "fmlookup d k") (simp_all add: rl mo look r0_def)
  show ?thesis
  proof (cases "flen f > 0")
    case True
    with r rk show ?thesis by (auto simp: state_registry_def Let_def f_def r0_def)
  next
    case False
    then have f: "f = fmempty" by simp
    then have "r = r0" by (intro fmap_ext) (simp add: rl mo[unfolded f] f)
    with False rk show ?thesis by (auto simp: state_registry_def Let_def f_def r0_def)
  qed
qed

lemma GetState_shows:
  assumes "inspect_orders_ok od" "cgCheckpointer cg = Some (IsSaver cp)"
    and "bsGet cp s (buildCheckpointerConfig config) = Inr (Some d)"
  shows "\<exists>vals. GetState L od now cg config s = Inr (Some \<lparr>snValues = Some vals, snNext = [], snConfig = config,
      snMetadata = extractMeta d, snCreatedAt = now\<rparr>) \<and> shown_values L (sgChannels (cgGraph cg)) d vals"
proof -
  from state_registry_lookup[OF assms(1), of L "sgChannels (cgGraph cg)" d] obtain r where
    r: "state_registry L od (sgChannels (cgGraph cg)) d = (None, r)" and
    rl: "\<And>k. fmlookup r k = map_option (\<lambda>c. case fmlookup d k of None \<Rightarrow> ch_Copy L c
       | Some x \<Rightarrow> ch_FromCheckpoint L (ch_Copy L c) x) (fmlookup (sgChannels (cgGraph cg)) k)" by blast
  have "entries r (ioReg od r)" using assms(1) by (simp add: inspect_orders_ok_def)
  from GetValues_lookup[OF this] obtain vals r' where
    v: "rg_GetValues r (ioReg od r) = (Inr vals, r')" and
    vl: "\<And>k. fmlookup vals k = (case fmlookup r k of None \<Rightarrow> None
         | Some c \<Rightarrow> (case fst (ch_Get c) of Inr v \<Rightarrow> Some v | Inl _ \<Rightarrow> None))" by blast
  have "fmlookup vals k = Option.bind (fmlookup (sgChannels (cgGraph cg)) k) (\<lambda>c. shown L c (fmlookup d k))" for k
    by (cases "fmlookup (sgChannels (cgGraph cg)) k"; cases "fmlookup d k") (auto simp: vl rl shown_def split: sum.splits)
  then have "shown_values L (sgChannels (cgGraph cg)) d vals" by (simp add: shown_values_def)
  with assms(2,3) r v show ?thesis
    by (simp add: GetState_def getCheckpointer_def determineNextFromCheckpoint_def)
qed

section \<open>With the memory saver\<close>

lemma get_str_upd: "get_str (fmupd k (VStr x) m) j = (if j = k then Some x else get_str m j)"
  by (simp add: get_str_def)

lemma build_lookup:
  "get_str (buildCheckpointerConfig c) k =
     (if k \<in> {''thread_id'', ''checkpoint_id'', ''checkpoint_ns''} then get_str (config_entries c) k else None)"
  by (auto simp: buildCheckpointerConfig_def config_entries_def get_str_def split: option.splits)

definition new_entry :: "golib \<Rightarrow> string \<Rightarrow> int \<Rightarrow> string \<Rightarrow> gmap \<Rightarrow> gmap \<Rightarrow> saver_entry" where
  "new_entry L uuid now t cfg cp =
     \<lparr>seID = (case get_str cfg ''checkpoint_id'' of Some i \<Rightarrow> i | None \<Rightarrow> uuid), seThreadID = t,
      seCheckpoint = deepCopyMap L cp, seMetadata = deepCopyMap L cfg, seCreatedAt = now,
      seParentID = (case get_str cfg ''parent_checkpoint_id'' of Some p \<Rightarrow> p | None \<Rightarrow> [])\<rparr>"

lemma put_versions:
  assumes "get_str cfg ''thread_id'' = Some t"
  shows "\<exists>s1. ms_Put L uuid now s cfg cp = (None, s1) \<and>
    (\<forall>t'. ms_versions s1 t' = (if t' = t then ms_versions s t @ [new_entry L uuid now t cfg cp] else ms_versions s t'))"
  using assms by (auto simp: ms_Put_def Let_def new_entry_def ms_versions_def fmlookup_default_def)

lemma list_newest:
  "ms_versions s t = es @ [e] \<Longrightarrow>
   \<exists>x xs. ms_List L s (fmupd ''thread_id'' (VStr t) fmempty) 1 = Inr (x # xs) \<and> newest_id (x # xs) = seID e"
  by (simp add: ms_List_def get_str_upd Let_def page_def newest_id_def)

lemma get_by_id:
  assumes "get_str q ''thread_id'' = Some t" "get_str q ''checkpoint_id'' = Some i"
    and "find (\<lambda>e. seID e = i) (ms_versions s t) = Some e"
  shows "ms_Get L s q = Inr (Some (deepCopyMap L (seCheckpoint e)))"
  using assms by (simp add: ms_Get_def)

lemma find_append: "find P (xs @ ys) = (case find P xs of Some x \<Rightarrow> Some x | None \<Rightarrow> find P ys)"
  by (induction xs) auto

lemma update_result:
  assumes "cgCheckpointer cg = Some (IsSaver (memory_base L uuid now))"
    and "ms_Get L s (update_target config u) = Inr (Some d)" "update_thread config u = t" "t \<noteq> []"
  shows "\<exists>cfg s1 e. UpdateState cg config u s = (Inr (Some cfg), s1) \<and>
    seID e = [] \<and> seCheckpoint e = deepCopyMap L (d ++\<^sub>f suValues u) \<and>
    (\<forall>t'. ms_versions s1 t' = (if t' = t then ms_versions s t @ [e] else ms_versions s t')) \<and>
    get_str (config_entries (Some cfg)) ''thread_id'' = Some t \<and>
    get_str (config_entries (Some cfg)) ''checkpoint_id'' = Some []"
proof -
  let ?parent = "case get_str (update_target config u) ''checkpoint_id'' of Some i \<Rightarrow> i | None \<Rightarrow> []"
  define cfg where "cfg = fmap_of_list [(''thread_id'', VStr t), (''parent_checkpoint_id'', VStr ?parent), (''checkpoint_id'', VStr [])]"
  let ?e = "new_entry L (uuid s) now t cfg (d ++\<^sub>f suValues u)"
  have "get_str cfg ''thread_id'' = Some t" and id: "get_str cfg ''checkpoint_id'' = Some []"
    by (simp_all add: cfg_def get_str_def fmlookup_of_list)
  from put_versions[OF this(1), of L "uuid s" now s "d ++\<^sub>f suValues u"] obtain s1 where
    put: "ms_Put L (uuid s) now s cfg (d ++\<^sub>f suValues u) = (None, s1)" and
    vs: "\<And>t'. ms_versions s1 t' = (if t' = t then ms_versions s t @ [?e] else ms_versions s t')" by blast
  from list_newest[of s1 t _ ?e L] vs obtain x xs where
    ls: "ms_List L s1 (fmupd ''thread_id'' (VStr t) fmempty) 1 = Inr (x # xs)" "newest_id (x # xs) = seID ?e" by force
  have e: "seID ?e = []" "seCheckpoint ?e = deepCopyMap L (d ++\<^sub>f suValues u)" by (simp_all add: new_entry_def id)
  have "UpdateState cg config u s = (Inr (updated_config (memory_base L uuid now) s1 config t), s1)"
    using assms put by (simp add: UpdateState_def getCheckpointer_def memory_base_def Let_def cfg_def)
  moreover have "updated_config (memory_base L uuid now) s1 config t = Some (NewRunnableConfig\<lparr>cfConfigurable :=
      Some (fmupd ''thread_id'' (VStr t) (fmupd ''checkpoint_id'' (VStr []) (config_entries config)))\<rparr>)"
    using ls e by (simp add: updated_config_def memory_base_def)
  ultimately show ?thesis using e vs
    by (intro exI[of _ "NewRunnableConfig\<lparr>cfConfigurable :=
      Some (fmupd ''thread_id'' (VStr t) (fmupd ''checkpoint_id'' (VStr []) (config_entries config)))\<rparr>"] exI[of _ s1] exI[of _ ?e])
      (simp add: config_entries_def get_str_upd)
qed

lemma GetState_memory:
  assumes "inspect_orders_ok od" "cgCheckpointer cg = Some (IsSaver (memory_base L uuid now))"
    and "get_str (config_entries (Some cfg)) ''thread_id'' = Some t"
    and "get_str (config_entries (Some cfg)) ''checkpoint_id'' = Some i"
    and "find (\<lambda>e. seID e = i) (ms_versions s t) = Some e"
  shows "\<exists>vals. GetState L od now' cg (Some cfg) s = Inr (Some \<lparr>snValues = Some vals, snNext = [], snConfig = Some cfg,
      snMetadata = extractMeta (deepCopyMap L (seCheckpoint e)), snCreatedAt = now'\<rparr>) \<and>
    shown_values L (sgChannels (cgGraph cg)) (deepCopyMap L (seCheckpoint e)) vals"
proof (rule GetState_shows[OF assms(1,2)])
  show "bsGet (memory_base L uuid now) s (buildCheckpointerConfig (Some cfg)) =
    Inr (Some (deepCopyMap L (seCheckpoint e)))"
    using assms(3,4) unfolding memory_base_def by (simp add: get_by_id[OF _ _ assms(5)] build_lookup)
qed

text \<open>Updating a state: the returned configuration shows the checkpoint the update was made at, with
  each updated value in place of the checkpoint of its channel (no channel is updated with it: an
  aggregate loses what it held), copied through JSON, and all other checkpoints, those of the same
  thread too, read as before. This holds while no checkpoint of the thread has an empty identifier,
  which is the case before its first update.\<close>

theorem state_updated:
  assumes "inspect_orders_ok od" "cgCheckpointer cg = Some (IsSaver (memory_base L uuid now))"
    and "ms_Get L s (update_target config u) = Inr (Some d)" "update_thread config u = t" "t \<noteq> []"
    and "\<forall>e \<in> set (ms_versions s t). seID e \<noteq> []"
  shows "\<exists>cfg s1 snap vals. UpdateState cg config u s = (Inr (Some cfg), s1) \<and>
    GetState L od now' cg (Some cfg) s1 = Inr (Some snap) \<and> snValues snap = Some vals \<and>
    shown_values L (sgChannels (cgGraph cg)) (saver_copy L (d ++\<^sub>f suValues u)) vals \<and>
    (\<forall>q t' i. get_str q ''thread_id'' = Some t' \<longrightarrow> t' \<noteq> t \<or> get_str q ''checkpoint_id'' = Some i \<and> i \<noteq> [] \<longrightarrow>
       ms_Get L s1 q = ms_Get L s q)"
proof -
  from update_result[OF assms(2-5)] obtain cfg s1 e where
    u: "UpdateState cg config u s = (Inr (Some cfg), s1)" and
    e: "seID e = []" "seCheckpoint e = deepCopyMap L (d ++\<^sub>f suValues u)" and
    vs: "\<And>t'. ms_versions s1 t' = (if t' = t then ms_versions s t @ [e] else ms_versions s t')" and
    c: "get_str (config_entries (Some cfg)) ''thread_id'' = Some t" "get_str (config_entries (Some cfg)) ''checkpoint_id'' = Some []"
    by blast
  have "find (\<lambda>e. seID e = []) (ms_versions s t) = None" using assms(6) by (simp add: find_None_iff)
  then have "find (\<lambda>e. seID e = []) (ms_versions s1 t) = Some e" by (simp add: vs find_append e)
  from GetState_memory[OF assms(1,2) c this, of now'] e(2)
  have "\<exists>snap vals. GetState L od now' cg (Some cfg) s1 = Inr (Some snap) \<and> snValues snap = Some vals \<and>
    shown_values L (sgChannels (cgGraph cg)) (saver_copy L (d ++\<^sub>f suValues u)) vals"
    by (auto simp: saver_copy_def)
  moreover have "ms_Get L s1 q = ms_Get L s q"
    if "get_str q ''thread_id'' = Some t'" "t' \<noteq> t \<or> get_str q ''checkpoint_id'' = Some i \<and> i \<noteq> []" for q t' i
    using that e(1) by (auto simp: ms_Get_def vs find_append split: option.splits)
  ultimately show ?thesis using u by blast
qed

text \<open>Every update of a thread is saved under the empty identifier, so a second one cannot be read: its
  returned configuration shows the state of the first, whatever the second update wrote.\<close>

theorem second_update_hidden:
  assumes "inspect_orders_ok od" "cgCheckpointer cg = Some (IsSaver (memory_base L uuid now))"
    and "ms_Get L s (update_target config u) = Inr (Some d)" "update_thread config u = t" "t \<noteq> []"
    and "\<forall>e \<in> set (ms_versions s t). seID e \<noteq> []"
    and "UpdateState cg config u s = (res, s1)"
    and "ms_Get L s1 (update_target config2 u2) = Inr (Some d2)" "update_thread config2 u2 = t"
  shows "\<exists>cfg s2 snap vals. UpdateState cg config2 u2 s1 = (Inr (Some cfg), s2) \<and>
    GetState L od now' cg (Some cfg) s2 = Inr (Some snap) \<and> snValues snap = Some vals \<and>
    shown_values L (sgChannels (cgGraph cg)) (saver_copy L (d ++\<^sub>f suValues u)) vals"
proof -
  from update_result[OF assms(2-5)] assms(7) obtain e where
    e: "seID e = []" "seCheckpoint e = deepCopyMap L (d ++\<^sub>f suValues u)" and
    vs: "\<And>t'. ms_versions s1 t' = (if t' = t then ms_versions s t @ [e] else ms_versions s t')" by auto
  from update_result[OF assms(2,8,9,5)] obtain cfg s2 e2 where
    u: "UpdateState cg config2 u2 s1 = (Inr (Some cfg), s2)" and
    vs2: "ms_versions s2 t = ms_versions s1 t @ [e2]" and
    c: "get_str (config_entries (Some cfg)) ''thread_id'' = Some t" "get_str (config_entries (Some cfg)) ''checkpoint_id'' = Some []"
    by auto
  have "find (\<lambda>e. seID e = []) (ms_versions s t) = None" using assms(6) by (simp add: find_None_iff)
  then have "find (\<lambda>e. seID e = []) (ms_versions s2 t) = Some e" by (simp add: vs vs2 find_append e)
  from GetState_memory[OF assms(1,2) c this, of now'] e(2) u show ?thesis
    by (auto simp: saver_copy_def)
qed

text \<open>A forked thread shows the state of its source, if JSON keeps the checkpoint, and its source is
  not changed; the identifier of its checkpoint must be fresh in the new thread.\<close>

theorem fork_shows_source:
  assumes "inspect_orders_ok od" "cgCheckpointer cg = Some (IsSaver (memory_base L uuid now))"
    and "ms_Get L s (fork_source source cpID) = Inr (Some d)" "saver_copy L d = d"
    and "uuid s \<noteq> []" "\<forall>e \<in> set (ms_versions s new). seID e \<noteq> uuid s"
    and "buildCheckpointerConfig (Some sc) = fork_source source cpID"
  shows "\<exists>cfg s1 snap. ForkThread cg source new cpID s = (Inr cfg, s1) \<and>
    GetState L od now' cg (Some sc) s = Inr (Some snap) \<and>
    GetState L od now' cg (Some cfg) s1 = Inr (Some (snap\<lparr>snConfig := Some cfg\<rparr>)) \<and>
    (\<forall>t. t \<noteq> new \<longrightarrow> ms_versions s1 t = ms_versions s t)"
proof -
  let ?new = "fmupd ''thread_id'' (VStr new) fmempty"
  let ?e = "new_entry L (uuid s) now new ?new d"
  let ?cfg = "NewRunnableConfig\<lparr>cfConfigurable := Some (fmupd ''checkpoint_id'' (VStr (uuid s)) ?new)\<rparr>"
  have n: "get_str ?new ''thread_id'' = Some new" "get_str ?new ''checkpoint_id'' = None"
    by (simp_all add: get_str_def)
  from put_versions[OF n(1), of L "uuid s" now s d] obtain s1 where
    put: "ms_Put L (uuid s) now s ?new d = (None, s1)" and
    vs: "\<And>t'. ms_versions s1 t' = (if t' = new then ms_versions s new @ [?e] else ms_versions s t')" by blast
  have e: "seID ?e = uuid s" "seCheckpoint ?e = deepCopyMap L d" by (simp_all add: new_entry_def n)
  from list_newest[of s1 new _ ?e L] vs obtain x xs where
    ls: "ms_List L s1 ?new 1 = Inr (x # xs)" "newest_id (x # xs) = uuid s" using e(1) by force
  have f: "ForkThread cg source new cpID s = (Inr ?cfg, s1)"
    using assms(2,3,5) put ls by (simp add: ForkThread_def getCheckpointer_def memory_base_def Let_def)
  have "find (\<lambda>e. seID e = uuid s) (ms_versions s new) = None" using assms(6) by (simp add: find_None_iff)
  then have fd: "find (\<lambda>e. seID e = uuid s) (ms_versions s1 new) = Some ?e" by (simp add: vs find_append e)
  have c: "get_str (config_entries (Some ?cfg)) ''thread_id'' = Some new" "get_str (config_entries (Some ?cfg)) ''checkpoint_id'' = Some (uuid s)"
    by (simp_all add: config_entries_def get_str_def)
  from GetState_memory[OF assms(1,2) c fd, of now'] e(2) assms(4) obtain v1 where
    g1: "GetState L od now' cg (Some ?cfg) s1 = Inr (Some \<lparr>snValues = Some v1, snNext = [], snConfig = Some ?cfg,
      snMetadata = extractMeta d, snCreatedAt = now'\<rparr>)" "shown_values L (sgChannels (cgGraph cg)) d v1"
    by (auto simp: saver_copy_def)
  have "bsGet (memory_base L uuid now) s (buildCheckpointerConfig (Some sc)) = Inr (Some d)"
    using assms(3,7) by (simp add: memory_base_def)
  from GetState_shows[OF assms(1,2) this, where L = L and now = now'] obtain v2 where
    g2: "GetState L od now' cg (Some sc) s = Inr (Some \<lparr>snValues = Some v2, snNext = [], snConfig = Some sc,
      snMetadata = extractMeta d, snCreatedAt = now'\<rparr>)" "shown_values L (sgChannels (cgGraph cg)) d v2" by blast
  have "v1 = v2" by (rule shown_values_unique[OF g1(2) g2(2)])
  with f g1(1) g2(1) vs show ?thesis by simp
qed

definition history_matches :: "golib \<Rightarrow> registry \<Rightarrow> saver_entry \<Rightarrow> state_snapshot \<Rightarrow> bool" where
  "history_matches L chans e snap \<longleftrightarrow>
     (\<exists>vals. snValues snap = Some vals \<and> shown_values L chans (deepCopyMap L (seCheckpoint e)) vals) \<and>
     snMetadata snap = deepCopyMap L (seMetadata e) \<and> snCreatedAt snap = int (nat (seCreatedAt e))"

definition entry_map :: "golib \<Rightarrow> saver_entry \<Rightarrow> gmap" where
  "entry_map L e = fmap_of_list [(''checkpoint_id'', VStr (seID e)), (''thread_id'', VStr (seThreadID e)),
     (''metadata'', VMap (deepCopyMap L (seMetadata e))), (''created_at'', VOther ''time.Time'' (nat (seCreatedAt e))),
     (''parent_id'', VStr (seParentID e))]"

lemma entry_map_lookup:
  "get_str (entry_map L e) ''checkpoint_id'' = Some (seID e)"
  "fmlookup (entry_map L e) ''created_at'' = Some (VOther ''time.Time'' (nat (seCreatedAt e)))"
  "fmlookup (entry_map L e) ''metadata'' = Some (VMap (deepCopyMap L (seMetadata e)))"
  by (simp_all add: entry_map_def get_str_def fmlookup_of_list)

lemma find_distinct: "distinct (map seID vs) \<Longrightarrow> e \<in> set vs \<Longrightarrow> find (\<lambda>x. seID x = seID e) vs = Some e"
  by (induction vs) auto

lemma history_loop_matches:
  assumes "inspect_orders_ok od" "cgCheckpointer cg = Some (IsSaver (memory_base L uuid now))"
    and "get_str (config_entries config) ''thread_id'' = Some t"
    and "distinct (map seID (ms_versions s t))"
  shows "set es \<subseteq> set (ms_versions s t) \<Longrightarrow> \<forall>e \<in> set es. seID e \<noteq> [] \<Longrightarrow>
    list_all2 (history_matches L (sgChannels (cgGraph cg))) es (history_loop L od now' cg config s (map (entry_map L) es))"
proof (induction es)
  case Nil
  show ?case by simp
next
  case (Cons e es)
  let ?cfg = "history_config config (entry_map L e)"
  have c: "get_str (config_entries (Some ?cfg)) ''thread_id'' = Some t" "get_str (config_entries (Some ?cfg)) ''checkpoint_id'' = Some (seID e)"
    using Cons.prems(2) assms(3) by (simp_all add: history_config_def entry_map_lookup config_entries_def get_str_upd Let_def)
  have "find (\<lambda>x. seID x = seID e) (ms_versions s t) = Some e"
    using find_distinct[OF assms(4)] Cons.prems(1) by simp
  from GetState_memory[OF assms(1,2) c this, where now' = now'] obtain vals where
    g: "GetState L od now' cg (Some ?cfg) s = Inr (Some \<lparr>snValues = Some vals, snNext = [], snConfig = Some ?cfg,
      snMetadata = extractMeta (deepCopyMap L (seCheckpoint e)), snCreatedAt = now'\<rparr>)"
    and v: "shown_values L (sgChannels (cgGraph cg)) (deepCopyMap L (seCheckpoint e)) vals" by blast
  have "history_matches L (sgChannels (cgGraph cg)) e (dated (entry_map L e) \<lparr>snValues = Some vals, snNext = [], snConfig = Some ?cfg,
      snMetadata = extractMeta (deepCopyMap L (seCheckpoint e)), snCreatedAt = now'\<rparr>)"
    using v by (simp add: history_matches_def dated_def entry_map_lookup Let_def)
  with g Cons show ?case by simp
qed

text \<open>The history of a thread lists its latest checkpoints, newest first, each with the values, the
  metadata and the time it was saved with, provided their identifiers are distinct and not empty
  (no checkpoint made by an update is among them); the argument \<open>before\<close> changes nothing.\<close>

theorem history_of_thread:
  assumes "inspect_orders_ok od" "cgCheckpointer cg = Some (IsSaver (memory_base L uuid now))"
    and "get_str (config_entries config) ''thread_id'' = Some t"
    and "distinct (map seID (ms_versions s t))" "\<forall>e \<in> set (ms_versions s t). seID e \<noteq> []"
  shows "\<exists>snaps. GetStateHistory L od now' cg config limit before s = Inr snaps \<and>
    list_all2 (history_matches L (sgChannels (cgGraph cg)))
      (take (page limit (length (ms_versions s t))) (rev (ms_versions s t))) snaps"
proof -
  let ?es = "take (page limit (length (ms_versions s t))) (rev (ms_versions s t))"
  have sub: "set ?es \<subseteq> set (ms_versions s t)" by (metis set_rev set_take_subset)
  have "ms_List L s (buildCheckpointerConfig config) limit = Inr (map (entry_map L) ?es)"
    using assms(3) by (simp add: ms_List_def build_lookup Let_def entry_map_def)
  then have "GetStateHistory L od now' cg config limit before s = Inr (history_loop L od now' cg config s (map (entry_map L) ?es))"
    using assms(2) by (simp add: GetStateHistory_def getCheckpointer_def memory_base_def)
  with history_loop_matches[OF assms(1-4) sub, where now' = now'] sub assms(5) show ?thesis by blast
qed

text \<open>\<open>GetState\<close> on a checkpoint of a run shows the values of the run's channels, for channels a checkpoint
  saves, whatever the saver, if it gives back what was saved.\<close>

theorem state_shows_run:
  assumes "inspect_orders_ok od" "cgCheckpointer cg = Some (IsSaver cp)"
    and "bsGet cp s (buildCheckpointerConfig config) = Inr (Some d)"
    and "entries r es" "fmpred (\<lambda>k c. ch_durable L c) r"
    and "fmmap (ch_Copy L) (sgChannels (cgGraph cg)) = fmmap (ch_blank L) r"
    and "fmfilter (\<lambda>k. k \<in> fmdom' r) d = rg_CreateCheckpoint es"
  shows "\<exists>snap. GetState L od now cg config s = Inr (Some snap) \<and>
    (case fst (rg_GetValues r es) of Inl _ \<Rightarrow> False | Inr vals \<Rightarrow> snValues snap = Some vals)"
proof -
  let ?chans = "sgChannels (cgGraph cg)"
  from GetState_shows[OF assms(1-3)] obtain vals where
    g: "GetState L od now cg config s = Inr (Some \<lparr>snValues = Some vals, snNext = [], snConfig = config,
      snMetadata = extractMeta d, snCreatedAt = now\<rparr>)" and v: "shown_values L ?chans d vals" by blast
  from GetValues_lookup[OF assms(4)] obtain vals2 r' where
    g2: "rg_GetValues r es = (Inr vals2, r')" and
    v2: "\<And>k. fmlookup vals2 k = (case fmlookup r k of None \<Rightarrow> None
         | Some c \<Rightarrow> (case fst (ch_Get c) of Inr v \<Rightarrow> Some v | Inl _ \<Rightarrow> None))" by blast
  have cop: "map_option (ch_Copy L) (fmlookup ?chans k) = map_option (ch_blank L) (fmlookup r k)" for k
    using arg_cong[OF assms(6), of "\<lambda>m. fmlookup m k"] by simp
  have "fmlookup vals k = fmlookup vals2 k" for k
  proof (cases "fmlookup r k")
    case None
    with cop[of k] have "fmlookup ?chans k = None" by simp
    with None v show ?thesis by (simp add: shown_values_def v2)
  next
    case (Some c)
    with cop[of k] obtain b where b: "fmlookup ?chans k = Some b" "ch_Copy L b = ch_blank L c" by auto
    have dur: "ch_durable L c" by (rule fmpredD[OF assms(5) Some])
    have "fmlookup d k = (if ch_Checkpoint c = VMissing then None else Some (ch_Checkpoint c))"
      using arg_cong[OF assms(7), of "\<lambda>m. fmlookup m k"] Some
      by (simp add: CreateCheckpoint_lookup[OF assms(4)] fmlookup_dom'_iff split: if_splits)
    then have "(case fmlookup d k of None \<Rightarrow> ch_Copy L b | Some x \<Rightarrow> ch_FromCheckpoint L (ch_Copy L b) x) = ch_reset c"
      by (simp add: b ch_blank_of_missing[OF dur] ch_FromCheckpoint_blank[OF dur] ch_restore[OF dur] ch_Copy_reset[OF dur])
    then have "shown L b (fmlookup d k) = (case fst (ch_Get c) of Inr v \<Rightarrow> Some v | Inl _ \<Rightarrow> None)"
      by (simp add: shown_def ch_Get_reset on_snd_def split: sum.split)
    with v b Some show ?thesis by (simp add: shown_values_def v2)
  qed
  then have "vals = vals2" by (rule fmap_ext)
  with g g2 show ?thesis by simp
qed

section \<open>An example\<close>

definition demo_cell :: channel where
  "demo_cell = ChLastValue (NewLastValue VNil)"

definition demo_inspected :: "(unit, memory_saver) inspected" where
  "demo_inspected = \<lparr>cgGraph = demo_graph\<lparr>sgChannels := fmupd ''x'' demo_cell fmempty\<rparr>,
     cgCheckpointer = Some (IsSaver (memory_base demo_lib (\<lambda>s. ''u'') 0)), cgInterrupts = {}, cgInterruptsAfter = {},
     cgRecursionLimit = 50, cgDebug = False, cgNodeTriggerMode = NodeTriggerAnyPredecessor\<rparr>"

definition demo_saved :: memory_saver where
  "demo_saved = \<lparr>msCheckpoints = fmempty, msVersions = fmupd ''t''
     [\<lparr>seID = ''c'', seThreadID = ''t'', seCheckpoint = fmupd ''x'' (VStr ''old'') fmempty, seMetadata = fmempty,
       seCreatedAt = 7, seParentID = []\<rparr>] fmempty\<rparr>"

definition demo_orders :: inspect_orders where
  "demo_orders = \<lparr>ioReg = sorted_list_of_fmap, ioMap = sorted_list_of_fmap\<rparr>"

definition demo_config :: runnable_config where
  "demo_config = cf_Set NewRunnableConfig ''thread_id'' (VStr ''t'')"

definition set_x :: "string \<Rightarrow> state_update" where
  "set_x v = \<lparr>suValues = fmupd ''x'' (VStr v) fmempty, suAsNode = [], suCheckID = [], suThreadID = []\<rparr>"

lemma demo_inspect [simp]:
  "inspect_orders_ok demo_orders" "cgCheckpointer demo_inspected = Some (IsSaver (memory_base demo_lib (\<lambda>s. ''u'') 0))"
  "sgChannels (cgGraph demo_inspected) = fmupd ''x'' demo_cell fmempty"
  by (simp_all add: inspect_orders_ok_def demo_orders_def entries_sorted demo_inspected_def)

lemma get_str_empty: "get_str fmempty k = None"
  by (simp add: get_str_def)

lemma demo_entries: "config_entries (Some demo_config) = fmupd ''thread_id'' (VStr ''t'') fmempty"
  by (simp add: config_entries_def demo_config_def cf_Set_def NewRunnableConfig_def)

lemma demo_thread:
  "get_str (update_target (Some demo_config) (set_x v)) ''thread_id'' = Some ''t''"
  "get_str (update_target (Some demo_config) (set_x v)) ''checkpoint_id'' = None"
  "update_thread (Some demo_config) (set_x v) = ''t''"
  by (simp_all add: update_thread_def update_target_def set_x_def build_lookup demo_entries get_str_upd get_str_empty)

lemma demo_saved_versions: "ms_versions demo_saved ''t'' =
    [\<lparr>seID = ''c'', seThreadID = ''t'', seCheckpoint = fmupd ''x'' (VStr ''old'') fmempty, seMetadata = fmempty,
       seCreatedAt = 7, seParentID = []\<rparr>]"
  by (simp add: demo_saved_def ms_versions_def)

lemma demo_copy: "deepCopyMap demo_lib (fmupd k (VStr v) fmempty) = fmupd k (VStr v) fmempty"
  by (rule fmap_ext) (simp add: deepCopyMap_def demo_lib_def)

lemma shown_demo: "shown demo_lib demo_cell (Some (VStr v)) = Some (VStr v)"
  by (simp add: shown_def demo_cell_def chan_defs)

lemma demo_get: "ms_Get demo_lib demo_saved (update_target (Some demo_config) (set_x v)) = Inr (Some (fmupd ''x'' (VStr ''old'') fmempty))"
  by (simp add: ms_Get_def demo_thread demo_saved_versions demo_copy)

theorem state_updated_witness:
  "\<exists>cfg s1 snap vals. UpdateState demo_inspected (Some demo_config) (set_x ''new'') demo_saved = (Inr (Some cfg), s1) \<and>
    GetState demo_lib demo_orders 9 demo_inspected (Some cfg) s1 = Inr (Some snap) \<and> snValues snap = Some vals \<and>
    fmlookup vals ''x'' = Some (VStr ''new'')"
proof -
  have "\<forall>e \<in> set (ms_versions demo_saved ''t''). seID e \<noteq> []" by (simp add: demo_saved_versions)
  from state_updated[OF demo_inspect(1,2) demo_get[of "''new''"] demo_thread(3) _ this, where now' = 9] obtain cfg s1 snap vals where
    u: "UpdateState demo_inspected (Some demo_config) (set_x ''new'') demo_saved = (Inr (Some cfg), s1)"
      "GetState demo_lib demo_orders 9 demo_inspected (Some cfg) s1 = Inr (Some snap)" "snValues snap = Some vals" and
    v: "shown_values demo_lib (sgChannels (cgGraph demo_inspected))
      (saver_copy demo_lib (fmupd ''x'' (VStr ''old'') fmempty ++\<^sub>f suValues (set_x ''new''))) vals" by auto
  have "fmupd ''x'' (VStr ''old'') fmempty ++\<^sub>f suValues (set_x ''new'') = fmupd ''x'' (VStr ''new'') fmempty"
    by (rule fmap_ext) (simp add: set_x_def)
  with v have "fmlookup vals ''x'' = Some (VStr ''new'')"
    by (simp add: shown_values_def saver_copy_def demo_copy shown_demo)
  with u show ?thesis by blast
qed

lemma upd_x: "fmupd ''x'' (VStr v) fmempty ++\<^sub>f suValues (set_x w) = fmupd ''x'' (VStr w) fmempty"
  by (rule fmap_ext) (simp add: set_x_def)

theorem second_update_hidden_witness:
  "\<exists>r1 s1 cfg s2 snap vals. UpdateState demo_inspected (Some demo_config) (set_x ''one'') demo_saved = (r1, s1) \<and>
    UpdateState demo_inspected (Some demo_config) (set_x ''two'') s1 = (Inr (Some cfg), s2) \<and>
    GetState demo_lib demo_orders 9 demo_inspected (Some cfg) s2 = Inr (Some snap) \<and> snValues snap = Some vals \<and>
    fmlookup vals ''x'' = Some (VStr ''one'')"
proof -
  have ids: "\<forall>e \<in> set (ms_versions demo_saved ''t''). seID e \<noteq> []" by (simp add: demo_saved_versions)
  obtain r1 s1 where u: "UpdateState demo_inspected (Some demo_config) (set_x ''one'') demo_saved = (r1, s1)" by fastforce
  from update_result[OF demo_inspect(2) demo_get[of "''one''"] demo_thread(3)] u obtain e where
    "ms_versions s1 ''t'' = ms_versions demo_saved ''t'' @ [e]" by auto
  then have "\<exists>d2. ms_Get demo_lib s1 (update_target (Some demo_config) (set_x ''two'')) = Inr (Some d2)"
    by (simp add: ms_Get_def demo_thread)
  then obtain d2 where g: "ms_Get demo_lib s1 (update_target (Some demo_config) (set_x ''two'')) = Inr (Some d2)" by blast
  from second_update_hidden[OF demo_inspect(1,2) demo_get demo_thread(3) _ ids u g demo_thread(3), where now' = 9]
  obtain cfg s2 snap vals where
    "UpdateState demo_inspected (Some demo_config) (set_x ''two'') s1 = (Inr (Some cfg), s2)"
    "GetState demo_lib demo_orders 9 demo_inspected (Some cfg) s2 = Inr (Some snap)" "snValues snap = Some vals"
    "shown_values demo_lib (fmupd ''x'' demo_cell fmempty) (fmupd ''x'' (VStr ''one'') fmempty) vals"
    by (auto simp: upd_x saver_copy_def demo_copy)
  with u show ?thesis by (fastforce simp: shown_values_def shown_demo)
qed

theorem fork_shows_source_witness:
  "\<exists>cfg s1 snap. ForkThread demo_inspected ''t'' ''fork'' [] demo_saved = (Inr cfg, s1) \<and>
    GetState demo_lib demo_orders 9 demo_inspected (Some cfg) s1 = Inr (Some (snap\<lparr>snConfig := Some cfg\<rparr>)) \<and>
    GetState demo_lib demo_orders 9 demo_inspected (Some demo_config) demo_saved = Inr (Some snap)"
proof -
  have src: "buildCheckpointerConfig (Some demo_config) = fork_source ''t'' []"
    by (rule fmap_ext) (simp add: buildCheckpointerConfig_def demo_config_def cf_Set_def NewRunnableConfig_def fork_source_def)
  have "fork_source ''t'' [] = fmupd ''thread_id'' (VStr ''t'') fmempty" by (simp add: fork_source_def)
  then have get: "ms_Get demo_lib demo_saved (fork_source ''t'' []) = Inr (Some (fmupd ''x'' (VStr ''old'') fmempty))"
    by (simp add: ms_Get_def get_str_upd get_str_empty demo_saved_versions demo_copy)
  have cp: "saver_copy demo_lib (fmupd ''x'' (VStr ''old'') fmempty) = fmupd ''x'' (VStr ''old'') fmempty"
    by (simp add: saver_copy_def demo_copy)
  have new: "\<forall>e \<in> set (ms_versions demo_saved ''fork''). seID e \<noteq> ''u''"
    by (simp add: ms_versions_def demo_saved_def)
  from fork_shows_source[OF demo_inspect(1,2) get cp _ new src, where now' = 9] show ?thesis by fastforce
qed

theorem history_of_thread_witness:
  "\<exists>snap. GetStateHistory demo_lib demo_orders 9 demo_inspected (Some demo_config) 5 None demo_saved = Inr [snap] \<and>
    snCreatedAt snap = 7"
proof -
  have "get_str (config_entries (Some demo_config)) ''thread_id'' = Some ''t''" by (simp add: demo_entries get_str_upd)
  moreover have "distinct (map seID (ms_versions demo_saved ''t''))" "\<forall>e \<in> set (ms_versions demo_saved ''t''). seID e \<noteq> []"
    by (simp_all add: demo_saved_versions)
  ultimately obtain snaps where
    s: "GetStateHistory demo_lib demo_orders 9 demo_inspected (Some demo_config) 5 None demo_saved = Inr snaps"
      "list_all2 (history_matches demo_lib (sgChannels (cgGraph demo_inspected)))
        (take (page 5 (length (ms_versions demo_saved ''t''))) (rev (ms_versions demo_saved ''t''))) snaps"
    using history_of_thread[OF demo_inspect(1,2), of "Some demo_config" "''t''" demo_saved 9 5 None] by blast
  from s(2) obtain snap where "snaps = [snap]" "snCreatedAt snap = 7"
    by (auto simp: demo_saved_versions page_def history_matches_def list_all2_Cons1)
  with s(1) show ?thesis by blast
qed

theorem state_shows_run_witness:
  "\<exists>snap. GetState demo_lib demo_orders 9 demo_inspected (Some demo_config) demo_saved = Inr (Some snap) \<and>
    snValues snap = Some (fmupd ''x'' (VStr ''old'') fmempty)"
proof -
  let ?c = "ChLastValue ((NewLastValue VNil)\<lparr>lvValue := VStr ''old''\<rparr>)"
  let ?r = "fmap_of_list [(''x'', ?c)]"
  have es: "entries ?r [(''x'', ?c)]" by (rule entries_of_list) simp
  have g: "bsGet (memory_base demo_lib (\<lambda>s. ''u'') 0) demo_saved (buildCheckpointerConfig (Some demo_config)) =
      Inr (Some (fmupd ''x'' (VStr ''old'') fmempty))"
    by (simp add: memory_base_def ms_Get_def build_lookup demo_entries get_str_upd get_str_empty demo_saved_versions demo_copy)
  have blank: "fmmap (ch_Copy demo_lib) (sgChannels (cgGraph demo_inspected)) = fmmap (ch_blank demo_lib) ?r"
    by (rule fmap_ext) (simp add: demo_cell_def ch_blank_def chan_defs)
  have cp: "fmfilter (\<lambda>k. k \<in> fmdom' ?r) (fmupd ''x'' (VStr ''old'') fmempty) = rg_CreateCheckpoint [(''x'', ?c)]"
    by (rule fmap_ext) (simp add: rg_CreateCheckpoint_def chan_defs)
  have "fmpred (\<lambda>k c. ch_durable demo_lib c) ?r" by (auto simp: fmpred_iff)
  from state_shows_run[OF demo_inspect(1,2) g es this blank cp, of 9] show ?thesis
    by (auto simp: rg_GetValues_def chan_defs)
qed

end
