(* ===== verification/Subgraph.thy ===== *)
theory Subgraph
  imports Engine_Data Managed
begin

text \<open>
  Sub-graphs (\<^verbatim>\<open>pregel/subgraph.go\<close>): the manager with its stack of namespaces, the bookkeeping of
  checkpoint migration, commands to the parent graph, and registries that share a base registry under a
  prefix. Nodes of a sub-graph may call the manager again, so the stack is part of the world nodes act on.
\<close>

section \<open>The manager\<close>

type_synonym 'v ns_world = "string list \<times> 'v"

record 'v subgraph_manager =
  smParent :: "'v ns_world engine"
  smSubgraphs :: "(string, 'v ns_world engine) fmap"
  smCheckpointNS :: "(string, string) fmap"

text \<open>The graph of a configuration has type \<^verbatim>\<open>interface{}\<close>: nil, a state graph or something else.\<close>

datatype 'v any_graph = NilGraph | StateGraph "'v ns_world sgraph" | OtherGraph

record 'v subgraph_config =
  scName :: string
  scGraph :: "'v any_graph"

definition NewSubgraphManager :: "'v ns_world engine \<Rightarrow> 'v subgraph_manager" where
  "NewSubgraphManager e = \<lparr>smParent = e, smSubgraphs = fmempty, smCheckpointNS = fmempty\<rparr>"

definition quoted :: "string \<Rightarrow> string" where
  "quoted s = CHR 0x27 # s @ [CHR 0x27]"

definition CreateSubgraph ::
  "'v subgraph_config \<Rightarrow> 'v subgraph_manager \<Rightarrow> (gerr + 'v ns_world engine) \<times> 'v subgraph_manager"
where
  "CreateSubgraph config m =
     (if fmlookup (smSubgraphs m) (scName config) \<noteq> None
      then (Inl (ErrorString (''subgraph '' @ quoted (scName config) @ '' already exists'')), m)
      else
        (let e = (case scGraph config of
               StateGraph sg \<Rightarrow> NewEngine sg
                 ((if egCheckpointer (smParent m) \<noteq> None then [eo_WithCheckpointer (egCheckpointer (smParent m))] else []) @
                  (if egConfig (smParent m) \<noteq> None then [eo_WithConfig (egConfig (smParent m))] else []))
             | _ \<Rightarrow> smParent m)
         in (Inr e, m\<lparr>smSubgraphs := fmupd (scName config) e (smSubgraphs m)\<rparr>)))"

definition GetSubgraph :: "string \<Rightarrow> 'v subgraph_manager \<Rightarrow> 'v ns_world engine option" where
  "GetSubgraph name m = fmlookup (smSubgraphs m) name"

section \<open>Namespaces\<close>

definition PushNamespace :: "string \<Rightarrow> 'v ns_world \<Rightarrow> 'v ns_world" where
  "PushNamespace ns w = (fst w @ [ns], snd w)"

definition PopNamespace :: "'v ns_world \<Rightarrow> 'v ns_world" where
  "PopNamespace w = (if length (fst w) > 0 then (take (length (fst w) - 1) (fst w), snd w) else w)"

definition CurrentNamespace :: "'v ns_world \<Rightarrow> string" where
  "CurrentNamespace w = (if length (fst w) > 0 then fst w ! (length (fst w) - 1) else [])"

definition BuildNamespacePath :: "'v ns_world \<Rightarrow> string" where
  "BuildNamespacePath w = (if length (fst w) = 0 then [] else join_with CHR ''|'' (fst w))"

text \<open>
  A node always has a function here; the test for a nil one is not modelled. The pop is deferred: it
  happens after a panic too.
\<close>

definition ExecuteInSubgraph ::
  "'v subgraph_manager \<Rightarrow> string \<Rightarrow> string \<Rightarrow> gval \<Rightarrow> 'v ns_world \<Rightarrow> called \<times> 'v ns_world"
where
  "ExecuteInSubgraph m name node input w =
     (case GetSubgraph name m of
        None \<Rightarrow> (Returned VNil (Some (ErrorString (''subgraph '' @ quoted name @ '' not found''))), w)
      | Some e \<Rightarrow>
          (let w1 = PushNamespace name w
           in case fmlookup (sgNodes (egGraph e)) node of
                None \<Rightarrow> (Returned VNil (Some (ErrorString (''node '' @ quoted node @ '' not found in subgraph '' @ quoted name))),
                         PopNamespace w1)
              | Some n \<Rightarrow> (case ndFunction n input w1 of (r, w2) \<Rightarrow> (r, PopNamespace w2))))"

definition ExecuteRecursive ::
  "int \<Rightarrow> 'v subgraph_manager \<Rightarrow> string \<Rightarrow> string \<Rightarrow> gval \<Rightarrow> int \<Rightarrow> 'v ns_world \<Rightarrow> called \<times> 'v ns_world"
where
  "ExecuteRecursive maxDepth m name node input depth w =
     (if depth > maxDepth
      then (Returned VNil (Some (ErrorString (''recursion depth limit exceeded: '' @ show_int depth @ '' > '' @ show_int maxDepth))), w)
      else ExecuteInSubgraph m name node input w)"

section \<open>Migration of checkpoints and commands to the parent\<close>

text \<open>\<open>uuid\<close> is the fresh identifier. The configuration built with it is thrown away.\<close>

definition MigrateToSubgraph ::
  "string \<Rightarrow> string \<Rightarrow> string \<Rightarrow> string \<Rightarrow> 'v ns_world \<Rightarrow> 'v subgraph_manager \<Rightarrow> string \<times> 'v subgraph_manager"
where
  "MigrateToSubgraph uuid threadID parentID name w m =
     (let ns = BuildNamespacePath w @ ''|'' @ name
      in (uuid, m\<lparr>smCheckpointNS := fmupd threadID ns (smCheckpointNS m)\<rparr>))"

text \<open>The namespace of the parent is computed and not used.\<close>

definition MigrateFromSubgraph :: "string \<Rightarrow> 'v subgraph_manager \<Rightarrow> 'v subgraph_manager" where
  "MigrateFromSubgraph threadID m = m\<lparr>smCheckpointNS := fmdrop threadID (smCheckpointNS m)\<rparr>"

record command =
  cmdGraph :: string
  cmdUpdate :: gval
  cmdResume :: gval
  cmdGoto :: gval

definition ParentGraph :: string where
  "ParentGraph = ''__parent__''"

definition ResolveParentCommand :: "command \<Rightarrow> 'v ns_world \<Rightarrow> gerr + command" where
  "ResolveParentCommand cmd w =
     (if length (fst w) = 0 then Inl (ErrorString ''no parent graph to resolve to'')
      else Inr \<lparr>cmdGraph = cmdGraph cmd, cmdUpdate = cmdUpdate cmd, cmdResume = cmdResume cmd, cmdGoto = VStr ParentGraph\<rparr>)"

section \<open>Registries with a prefix\<close>

record isolated_registry =
  irRegistry :: registry
  irNamespace :: string
  irPrefix :: string

definition NewNamespaceIsolatedRegistry :: "registry \<Rightarrow> string \<Rightarrow> isolated_registry" where
  "NewNamespaceIsolatedRegistry r ns =
     \<lparr>irRegistry = r, irNamespace = ns, irPrefix = (if ns \<noteq> [] then ns @ ''|'' else ns)\<rparr>"

definition ir_Get :: "isolated_registry \<Rightarrow> string \<Rightarrow> channel option" where
  "ir_Get r name = rg_Get (irRegistry r) (irPrefix r @ name)"

text \<open>\<open>None\<close> is a value that is no channel.\<close>

definition ir_Register :: "string \<Rightarrow> channel option \<Rightarrow> isolated_registry \<Rightarrow> isolated_registry" where
  "ir_Register name ch r = (case ch of
     Some c \<Rightarrow> r\<lparr>irRegistry := rg_Register (irRegistry r) (irPrefix r @ name) c\<rparr> | None \<Rightarrow> r)"

definition ir_CreateCheckpoint :: "(string \<times> channel) list \<Rightarrow> isolated_registry \<Rightarrow> gmap" where
  "ir_CreateCheckpoint es r =
     fmupd ''prefix'' (VStr (irPrefix r)) (fmupd ''namespace'' (VStr (irNamespace r)) (rg_CreateCheckpoint es))"

definition has_prefix :: "string \<Rightarrow> string \<Rightarrow> bool" where
  "has_prefix p s \<longleftrightarrow> take (length p) s = p"

fun prefix_loop :: "string \<Rightarrow> (string \<times> gval) list \<Rightarrow> gmap \<Rightarrow> gmap" where
  "prefix_loop p [] m = m"
| "prefix_loop p ((k, v) # es) m = prefix_loop p es (if has_prefix p k then fmupd (drop (length p) k) v m else m)"

text \<open>\<open>es\<close> are the channels and \<open>ord\<close> the order in which their values are visited.\<close>

definition ir_GetValues ::
  "(gmap \<Rightarrow> (string \<times> gval) list) \<Rightarrow> (string \<times> channel) list \<Rightarrow> isolated_registry \<Rightarrow> (gerr + gmap) \<times> isolated_registry"
where
  "ir_GetValues ord es r = (case rg_GetValues (irRegistry r) es of
     (Inl e, r1) \<Rightarrow> (Inl e, r\<lparr>irRegistry := r1\<rparr>)
   | (Inr vals, r1) \<Rightarrow> (Inr (prefix_loop (irPrefix r) (ord vals) fmempty), r\<lparr>irRegistry := r1\<rparr>))"

section \<open>The stack of namespaces\<close>

definition keeps_stack :: "'v ns_world node_func \<Rightarrow> bool" where
  "keeps_stack f \<longleftrightarrow> (\<forall>x w. fst (snd (f x w)) = fst w)"

lemma Pop_Push [simp]: "fst v = fst w @ [ns] \<Longrightarrow> fst (PopNamespace v) = fst w"
  by (simp add: PopNamespace_def)

lemma fst_Push [simp]: "fst (PushNamespace ns w) = fst w @ [ns]"
  by (simp add: PushNamespace_def)

lemma Execute_keeps:
  assumes "\<And>e n. fmlookup (smSubgraphs m) name = Some e \<Longrightarrow> fmlookup (sgNodes (egGraph e)) node = Some n \<Longrightarrow>
      keeps_stack (ndFunction n)"
  shows "fst (snd (ExecuteInSubgraph m name node x w)) = fst w"
proof (cases "fmlookup (smSubgraphs m) name")
  case None
  then show ?thesis by (simp add: ExecuteInSubgraph_def GetSubgraph_def)
next
  case (Some e)
  show ?thesis
  proof (cases "fmlookup (sgNodes (egGraph e)) node")
    case None
    with Some show ?thesis by (simp add: ExecuteInSubgraph_def GetSubgraph_def)
  next
    case n: (Some n)
    then have "fst (snd (ndFunction n x (PushNamespace name w))) = fst w @ [name]"
      using assms[OF Some n] unfolding keeps_stack_def by (metis fst_Push)
    with Some n show ?thesis
      by (cases "ndFunction n x (PushNamespace name w)") (simp add: ExecuteInSubgraph_def GetSubgraph_def)
  qed
qed

lemma path_push: "BuildNamespacePath (PushNamespace ns w) = (if fst w = [] then ns else BuildNamespacePath w @ ''|'' @ ns)"
proof -
  have "join_with CHR ''|'' (xs @ [y]) = (if xs = [] then y else join_with CHR ''|'' xs @ ''|'' @ y)" for xs y
    by (induction xs) (auto simp: join_with_Cons)
  then show ?thesis by (simp add: BuildNamespacePath_def PushNamespace_def)
qed

text \<open>A call of a sub-graph keeps the stack of namespaces, whether it succeeds, fails or panics, as long as
  the function of the node it calls does, so a node that calls sub-graphs does too; the node runs with
  the path of the caller extended by the name of the sub-graph, and the path parses back into the stack.\<close>

theorem subgraph_keeps_stack:
  assumes "\<And>e n. fmlookup (smSubgraphs m) name = Some e \<Longrightarrow> fmlookup (sgNodes (egGraph e)) node = Some n \<Longrightarrow>
      keeps_stack (ndFunction n)"
    and "GetSubgraph name m = Some e" "fmlookup (sgNodes (egGraph e)) node = Some n"
    and "\<forall>ns \<in> set (fst w @ [name]). CHR ''|'' \<notin> set ns" "fst w @ [name] \<noteq> [[]]"
  shows "keeps_stack (ExecuteInSubgraph m name node) \<and>
    keeps_stack (\<lambda>x. ExecuteRecursive maxDepth m name node x depth) \<and>
    fst (ExecuteInSubgraph m name node input w) = fst (ndFunction n input (PushNamespace name w)) \<and>
    CurrentNamespace (PushNamespace name w) = name \<and>
    ParseCheckpointNS (BuildNamespacePath (PushNamespace name w)) = fst w @ [name]"
proof -
  have "keeps_stack (ExecuteInSubgraph m name node)"
    using Execute_keeps[of m name node] assms(1) unfolding keeps_stack_def by blast
  moreover from this have "keeps_stack (\<lambda>x. ExecuteRecursive maxDepth m name node x depth)"
    by (simp add: keeps_stack_def ExecuteRecursive_def)
  moreover have "fst (ExecuteInSubgraph m name node input w) = fst (ndFunction n input (PushNamespace name w))"
    using assms(2,3) by (simp add: ExecuteInSubgraph_def split: prod.split)
  moreover have "CurrentNamespace (PushNamespace name w) = name" by (simp add: CurrentNamespace_def)
  moreover have "ParseCheckpointNS (join_with CHR ''|'' (fst w @ [name])) = fst w @ [name]"
  proof -
    have s: "split_on CHR ''|'' (join_with CHR ''|'' (fst w @ [name])) = fst w @ [name]"
      using assms(4) by (intro split_on_join) auto
    then have "join_with CHR ''|'' (fst w @ [name]) \<noteq> []" using assms(5) by auto
    with s show ?thesis by (simp add: ParseCheckpointNS_def splitCheckpointNS_def)
  qed
  then have "ParseCheckpointNS (BuildNamespacePath (PushNamespace name w)) = fst w @ [name]"
    by (simp add: BuildNamespacePath_def)
  ultimately show ?thesis by blast
qed

definition demo_sub_graph :: "unit ns_world sgraph" where
  "demo_sub_graph = snd (AddNode (NewStateGraph undefined) ''n'' (\<lambda>x w. (Returned (VStr (BuildNamespacePath w)) None, w)))"

definition demo_manager_of :: "unit subgraph_manager" where
  "demo_manager_of = snd (CreateSubgraph \<lparr>scName = ''s'', scGraph = StateGraph demo_sub_graph\<rparr>
     (NewSubgraphManager (NewEngine demo_sub_graph [])))"

theorem subgraph_keeps_stack_witness:
  "keeps_stack (ExecuteInSubgraph demo_manager_of ''s'' ''n'') \<and>
   fst (ExecuteInSubgraph demo_manager_of ''s'' ''n'' VNil ([''top''], ())) = Returned (VStr ''top|s'') None"
proof -
  let ?f = "\<lambda>(x :: gval) w. (Returned (VStr (BuildNamespacePath w)) None, w)"
  obtain e n where e: "GetSubgraph ''s'' demo_manager_of = Some e"
      "fmlookup (sgNodes (egGraph e)) ''n'' = Some n" "ndFunction n = ?f"
    by (simp add: GetSubgraph_def demo_manager_of_def CreateSubgraph_def NewSubgraphManager_def NewEngine_def
        demo_sub_graph_def AddNode_def NewStateGraph_def Let_def eo_WithConfig_def)
  have "keeps_stack (ndFunction n')" if "fmlookup (smSubgraphs demo_manager_of) ''s'' = Some e'"
      "fmlookup (sgNodes (egGraph e')) ''n'' = Some n'" for e' n'
    using that e by (auto simp: GetSubgraph_def keeps_stack_def)
  from subgraph_keeps_stack[OF this e(1,2), where w = "([''top''], ())"] e(3) show ?thesis
    by (simp add: path_push) (simp add: BuildNamespacePath_def)
qed

section \<open>Shared registries\<close>

lemma prefix_free: "x \<notin> set p \<Longrightarrow> x \<notin> set q \<Longrightarrow> p @ x # s = q @ x # t \<Longrightarrow> p = q"
proof (induction p arbitrary: q)
  case Nil
  then show ?case by (cases q) auto
next
  case (Cons c p)
  then show ?case by (cases q) auto
qed

lemma prefix_loop_lookup:
  "distinct (map fst es) \<Longrightarrow>
   fmlookup (prefix_loop p es m) k = (case map_of es (p @ k) of Some v \<Rightarrow> Some v | None \<Rightarrow> fmlookup m k)"
proof (induction p es m rule: prefix_loop.induct)
  case (2 p k' v es m)
  have "has_prefix p k' \<Longrightarrow> p @ drop (length p) k' = k'" by (metis append_take_drop_id has_prefix_def)
  moreover have "has_prefix p (p @ k)" by (simp add: has_prefix_def)
  moreover have "k' \<in> fst ` set es \<longrightarrow> False" using 2(2) by simp
  moreover from this have "map_of es k' = None" by (auto simp: map_of_eq_None_iff)
  ultimately show ?case using 2 by (auto split: option.split)
qed simp

text \<open>Registries over one base registry: under a namespace the values are those of the base registry under
  the prefixed names; what one registers under a namespace is found under it and not under another
  one, unless a namespace contains the separator or is empty: in \<open>a\<close>, the name \<open>b|x\<close> is \<open>x\<close> of \<open>a|b\<close>.\<close>

theorem isolated_registries:
  assumes "entries (irRegistry r) es" "\<And>m. entries m (ord m)"
    and "r = NewNamespaceIsolatedRegistry base a" "a \<noteq> []" "b \<noteq> []" "CHR ''|'' \<notin> set a" "CHR ''|'' \<notin> set b" "a \<noteq> b"
  shows "(\<exists>vals all r1. fst (ir_GetValues ord es r) = Inr vals \<and> rg_GetValues base es = (Inr all, r1) \<and>
      (\<forall>k. fmlookup vals k = fmlookup all (a @ ''|'' @ k))) \<and>
    ir_Get (ir_Register name (Some c) r) name = Some c \<and>
    ir_Get (NewNamespaceIsolatedRegistry (irRegistry (ir_Register name (Some c) r)) b) k =
      ir_Get (NewNamespaceIsolatedRegistry base b) k \<and>
    ir_Get r (b @ ''|'' @ k) = ir_Get (NewNamespaceIsolatedRegistry base (a @ ''|'' @ b)) k"
proof -
  have base: "irRegistry r = base" and pre: "irPrefix r = a @ ''|''" using assms(3,4) by (simp_all add: NewNamespaceIsolatedRegistry_def)
  from GetValues_lookup[OF assms(1)] obtain all r1 where g: "rg_GetValues base es = (Inr all, r1)" by (auto simp: base)
  have "map_of (ord all) k = fmlookup all k" for k
    using assms(2)[of all] unfolding entries_def by (metis fmlookup_of_list)
  then have "fmlookup (prefix_loop (irPrefix r) (ord all) fmempty) k = fmlookup all (a @ ''|'' @ k)" for k
    using prefix_loop_lookup[OF entries_distinct[OF assms(2)[of all]], of "irPrefix r" fmempty k]
    by (simp add: pre split: option.splits)
  moreover have "a @ CHR ''|'' # name \<noteq> b @ CHR ''|'' # k"
    using prefix_free[OF assms(6,7)] assms(8) by blast
  ultimately show ?thesis
    using assms(4,5) g by (simp add: ir_GetValues_def base pre ir_Get_def ir_Register_def rg_Get_def rg_Register_def
        NewNamespaceIsolatedRegistry_def)
qed

definition demo_base :: registry where
  "demo_base = fmupd ''a|x'' (ChLastValue ((NewLastValue VNil)\<lparr>lvValue := VStr ''v''\<rparr>)) fmempty"

theorem isolated_registries_witness:
  "\<not> isl (fst (ir_GetValues sorted_list_of_fmap (sorted_list_of_fmap demo_base) (NewNamespaceIsolatedRegistry demo_base ''a''))) \<and>
   ir_Get (NewNamespaceIsolatedRegistry demo_base ''a'') ''b|x'' = ir_Get (NewNamespaceIsolatedRegistry demo_base ''a|b'') ''x''"
proof -
  let ?r = "NewNamespaceIsolatedRegistry demo_base ''a''"
  have "entries (irRegistry ?r) (sorted_list_of_fmap demo_base)"
    by (simp add: NewNamespaceIsolatedRegistry_def entries_sorted)
  from isolated_registries[OF this entries_sorted refl, where b = "''b''" and k = "''x''" and name = "[]" and c = undefined]
  obtain vals where "fst (ir_GetValues sorted_list_of_fmap (sorted_list_of_fmap demo_base) ?r) = Inr vals"
    "ir_Get ?r ''b|x'' = ir_Get (NewNamespaceIsolatedRegistry demo_base ''a|b'') ''x''" by auto
  then show ?thesis by simp
qed

text \<open>The checkpoint of an isolated registry is no checkpoint of a registry: restoring it fails, unless
  there are channels called \<open>namespace\<close> and \<open>prefix\<close>, and it holds the channels of every namespace.\<close>

theorem isolated_checkpoint_fails:
  assumes "entries base es" "entries (ir_CreateCheckpoint es (NewNamespaceIsolatedRegistry base ns)) cps"
    and "fmlookup base ''namespace'' = None \<or> fmlookup base ''prefix'' = None"
  shows "fst (rg_RestoreFromCheckpoint L base cps) \<noteq> None \<and>
    (\<forall>k. k \<notin> {''namespace'', ''prefix''} \<longrightarrow>
       fmlookup (ir_CreateCheckpoint es (NewNamespaceIsolatedRegistry base ns)) k = fmlookup (rg_CreateCheckpoint es) k)"
proof -
  have "{''namespace'', ''prefix''} \<subseteq> fst ` set cps"
    using entries_keys[OF assms(2)] by (auto simp: ir_CreateCheckpoint_def)
  with assms(3) have "\<not> fst ` set cps \<subseteq> fmdom' base" by (auto simp: fmlookup_dom'_iff)
  with Restore_unregistered[of cps base L] show ?thesis by (auto simp: ir_CreateCheckpoint_def)
qed

theorem isolated_checkpoint_fails_witness:
  "fst (rg_RestoreFromCheckpoint demo_lib demo_base (sorted_list_of_fmap
     (ir_CreateCheckpoint (sorted_list_of_fmap demo_base) (NewNamespaceIsolatedRegistry demo_base ''a'')))) \<noteq> None"
proof -
  have "fmlookup demo_base ''namespace'' = None \<or> fmlookup demo_base ''prefix'' = None" by (simp add: demo_base_def)
  from isolated_checkpoint_fails[OF entries_sorted entries_sorted this] show ?thesis by blast
qed

section \<open>Migration\<close>

text \<open>Migrating into a sub-graph and back leaves the manager as it was for a thread that was in none; no
  checkpoint is copied. At the top the namespace has an empty first level. A command to the parent
  graph loses where it goes to and is still addressed to the graph it was addressed to.\<close>

theorem migration_there_and_back:
  assumes "fmlookup (smCheckpointNS m) t = None" "CHR ''|'' \<notin> set name"
  shows "MigrateFromSubgraph t (snd (MigrateToSubgraph uuid t p name w m)) = m \<and>
    ParseCheckpointNS (fmlookup_default [] (smCheckpointNS (snd (MigrateToSubgraph uuid t p name ([], v) m))) t) = [[], name] \<and>
    (\<forall>cmd. ResolveParentCommand cmd (PushNamespace ns w) = Inr (cmd\<lparr>cmdGoto := VStr ParentGraph\<rparr>))"
proof -
  have "fmdrop t (fmupd t x (smCheckpointNS m)) = smCheckpointNS m" for x
    using assms(1) by (intro fmap_ext) simp
  moreover have "ParseCheckpointNS (CHR ''|'' # name) = [[], name]"
    using assms(2) by (simp add: ParseCheckpointNS_def splitCheckpointNS_def split_on_free)
  ultimately show ?thesis
    by (simp add: MigrateFromSubgraph_def MigrateToSubgraph_def Let_def fmlookup_default_def BuildNamespacePath_def
        ResolveParentCommand_def)
qed

theorem migration_there_and_back_witness:
  "MigrateFromSubgraph ''t'' (snd (MigrateToSubgraph ''u'' ''t'' ''p'' ''s'' ([], ()) demo_manager_of)) = demo_manager_of"
proof -
  have "fmlookup (smCheckpointNS demo_manager_of) ''t'' = None"
    by (simp add: demo_manager_of_def CreateSubgraph_def NewSubgraphManager_def Let_def)
  from conjunct1[OF migration_there_and_back[OF this, where name = "''s''"]] show ?thesis by simp
qed

end
