(* ===== verification/Async.thy ===== *)
theory Async
  imports Values
begin

text \<open>
  Asynchronous execution (\<^verbatim>\<open>pregel/async.go\<close>): the executor with its pool of worker slots as a machine whose
  steps are those of its goroutines. A goroutine that panics ends the program; durations are left out.
\<close>

section \<open>The executor\<close>

record task_outcome =
  toID :: string
  toName :: string
  toOutput :: gval
  toErr :: "gerr option"

text \<open>
  Where the goroutine of a task is: before its slot, in the function, after sending the result, after
  giving the slot back (or ending without one), after the end. A task with retries has no slot and
  is unregistered before its result is sent.
\<close>

datatype async_phase =
    Waiting
  | Working
  | Sent task_outcome
  | Released task_outcome
  | Unregistered task_outcome
  | Ended task_outcome

text \<open>
  \<open>asFunc\<close> is the function of a task, told whether its context is done when it looks; \<open>asDone\<close>
  says that the context of the caller is done (with the error \<open>asCtxErr\<close>), \<open>asCancelled\<close> that the
  task's own is, \<open>asDerived\<close> that the own is derived from the caller's; \<open>asCancel\<close> that the task has a
  cancel function.
\<close>

record async_task =
  asID :: string
  asName :: string
  asFunc :: "bool \<Rightarrow> gval \<times> gerr option"
  asCtxErr :: gerr
  asDone :: bool
  asCancelled :: bool
  asDerived :: bool
  asCancel :: bool
  asSlotted :: bool
  asPhase :: async_phase

record async_executor =
  axMax :: nat
  axFree :: nat
  axActive :: "string set"
  axTasks :: "async_task list"

definition NewAsyncExecutor :: "int \<Rightarrow> async_executor" where
  "NewAsyncExecutor maxConcurrency =
     (let n = nat (if maxConcurrency \<le> 0 then 10 else maxConcurrency)
      in \<lparr>axMax = n, axFree = n, axActive = {}, axTasks = []\<rparr>)"

definition register :: "async_task \<Rightarrow> async_executor \<Rightarrow> async_executor" where
  "register t e = e\<lparr>axActive := insert (asID t) (axActive e), axTasks := axTasks e @ [t]\<rparr>"

definition ax_Execute ::
  "string \<Rightarrow> bool \<Rightarrow> gerr \<Rightarrow> string \<Rightarrow> (bool \<Rightarrow> gval \<times> gerr option) \<Rightarrow> async_executor \<Rightarrow> async_executor" where
  "ax_Execute uuid ctxDone err name fn e = register
     \<lparr>asID = uuid, asName = name, asFunc = fn, asCtxErr = err, asDone = ctxDone, asCancelled = ctxDone, asDerived = True,
      asCancel = True, asSlotted = True, asPhase = Waiting\<rparr> e"

text \<open>The tasks of a batch come with a context and perhaps a cancel function of their own.\<close>

record batch_task =
  btName :: string
  btFunc :: "bool \<Rightarrow> gval \<times> gerr option"
  btDone :: bool
  btCancel :: bool

fun ax_ExecuteBatch :: "string list \<Rightarrow> bool \<Rightarrow> gerr \<Rightarrow> batch_task list \<Rightarrow> async_executor \<Rightarrow> async_executor" where
  "ax_ExecuteBatch (u # us) ctxDone err (t # ts) e = ax_ExecuteBatch us ctxDone err ts (register
     \<lparr>asID = u, asName = btName t, asFunc = btFunc t, asCtxErr = err, asDone = ctxDone, asCancelled = btDone t, asDerived = False,
      asCancel = btCancel t, asSlotted = True, asPhase = Waiting\<rparr> e)"
| "ax_ExecuteBatch us ctxDone err ts e = e"

text \<open>\<open>fn\<close> is the function under the retry executor.\<close>

definition ax_ExecuteWithRetry ::
  "string \<Rightarrow> bool \<Rightarrow> gerr \<Rightarrow> string \<Rightarrow> (bool \<Rightarrow> gval \<times> gerr option) \<Rightarrow> async_executor \<Rightarrow> async_executor" where
  "ax_ExecuteWithRetry uuid ctxDone err name fn e = register
     \<lparr>asID = uuid, asName = name, asFunc = fn, asCtxErr = err, asDone = ctxDone, asCancelled = ctxDone, asDerived = True,
      asCancel = True, asSlotted = False, asPhase = Working\<rparr> e"

definition cancel_task :: "string set \<Rightarrow> async_task \<Rightarrow> async_task" where
  "cancel_task ids t = (if asID t \<in> ids \<and> asCancel t then t\<lparr>asCancelled := True\<rparr> else t)"

definition ax_Cancel :: "async_executor \<Rightarrow> async_executor" where
  "ax_Cancel e = e\<lparr>axActive := {}, axTasks := map (cancel_task (axActive e)) (axTasks e)\<rparr>"

definition GetActiveTaskCount :: "async_executor \<Rightarrow> nat" where
  "GetActiveTaskCount e = card (axActive e)"

text \<open>One turn of \<open>Wait\<close>: \<open>Some\<close> when it returns.\<close>

definition wait_turn :: "gerr option \<Rightarrow> async_executor \<Rightarrow> gerr option option" where
  "wait_turn ctxErr e = (case ctxErr of Some err \<Rightarrow> Some (Some err)
     | None \<Rightarrow> (if GetActiveTaskCount e = 0 then Some None else None))"

section \<open>The goroutines\<close>

definition outcome_of :: "async_task \<Rightarrow> task_outcome" where
  "outcome_of t = (case asFunc t (asCancelled t) of
     (out, err) \<Rightarrow> \<lparr>toID = asID t, toName = asName t, toOutput = out, toErr = err\<rparr>)"

definition abandoned :: "async_task \<Rightarrow> task_outcome" where
  "abandoned t = \<lparr>toID = asID t, toName = asName t, toOutput = VNil, toErr = Some (asCtxErr t)\<rparr>"

definition set_phase :: "nat \<Rightarrow> async_phase \<Rightarrow> async_executor \<Rightarrow> async_executor" where
  "set_phase i p e = e\<lparr>axTasks := (axTasks e)[i := (axTasks e ! i)\<lparr>asPhase := p\<rparr>]\<rparr>"

definition unregister :: "nat \<Rightarrow> async_executor \<Rightarrow> async_executor" where
  "unregister i e = e\<lparr>axActive := axActive e - {asID (axTasks e ! i)}\<rparr>"

inductive async_step :: "async_executor \<Rightarrow> async_executor \<Rightarrow> bool" where
  acquire: "i < length (axTasks e) \<Longrightarrow> asPhase (axTasks e ! i) = Waiting \<Longrightarrow> axFree e > 0 \<Longrightarrow>
    async_step e (set_phase i Working (e\<lparr>axFree := axFree e - 1\<rparr>))"
| abandon: "i < length (axTasks e) \<Longrightarrow> asPhase (axTasks e ! i) = Waiting \<Longrightarrow> asDone (axTasks e ! i) \<Longrightarrow>
    async_step e (set_phase i (Released (abandoned (axTasks e ! i))) e)"
| deliver: "i < length (axTasks e) \<Longrightarrow> asPhase (axTasks e ! i) = Working \<Longrightarrow> asSlotted (axTasks e ! i) \<Longrightarrow>
    async_step e (set_phase i (Sent (outcome_of (axTasks e ! i))) e)"
| release: "i < length (axTasks e) \<Longrightarrow> asPhase (axTasks e ! i) = Sent r \<Longrightarrow>
    async_step e (set_phase i (Released r) (e\<lparr>axFree := axFree e + 1\<rparr>))"
| finish: "i < length (axTasks e) \<Longrightarrow> asPhase (axTasks e ! i) = Released r \<Longrightarrow>
    async_step e (unregister i (set_phase i (Ended r) e))"
| retried: "i < length (axTasks e) \<Longrightarrow> asPhase (axTasks e ! i) = Working \<Longrightarrow> \<not> asSlotted (axTasks e ! i) \<Longrightarrow>
    async_step e (unregister i (set_phase i (Unregistered (outcome_of (axTasks e ! i))) e))"
| send: "i < length (axTasks e) \<Longrightarrow> asPhase (axTasks e ! i) = Unregistered r \<Longrightarrow>
    async_step e (set_phase i (Ended r) e)"

text \<open>What callers and contexts do between the steps; identifiers are fresh.\<close>

definition end_context :: "nat \<Rightarrow> async_executor \<Rightarrow> async_executor" where
  "end_context i e = e\<lparr>axTasks := (axTasks e)[i := 
     (axTasks e ! i)\<lparr>asDone := True, asCancelled := asCancelled (axTasks e ! i) \<or> asDerived (axTasks e ! i)\<rparr>]\<rparr>"

definition end_own :: "nat \<Rightarrow> async_executor \<Rightarrow> async_executor" where
  "end_own i e = e\<lparr>axTasks := (axTasks e)[i := (axTasks e ! i)\<lparr>asCancelled := True\<rparr>]\<rparr>"

definition fresh_ids :: "string list \<Rightarrow> async_executor \<Rightarrow> bool" where
  "fresh_ids us e \<longleftrightarrow> distinct us \<and> (\<forall>t \<in> set (axTasks e). asID t \<notin> set us)"

inductive async_reachable :: "int \<Rightarrow> async_executor \<Rightarrow> bool" for n where
  start: "async_reachable n (NewAsyncExecutor n)"
| step: "async_reachable n e \<Longrightarrow> async_step e e' \<Longrightarrow> async_reachable n e'"
| execute: "async_reachable n e \<Longrightarrow> fresh_ids [u] e \<Longrightarrow> async_reachable n (ax_Execute u d err name fn e)"
| batch: "async_reachable n e \<Longrightarrow> fresh_ids us e \<Longrightarrow> length us = length ts \<Longrightarrow>
    async_reachable n (ax_ExecuteBatch us d err ts e)"
| retry: "async_reachable n e \<Longrightarrow> fresh_ids [u] e \<Longrightarrow> async_reachable n (ax_ExecuteWithRetry u d err name fn e)"
| cancel: "async_reachable n e \<Longrightarrow> async_reachable n (ax_Cancel e)"
| ended: "async_reachable n e \<Longrightarrow> i < length (axTasks e) \<Longrightarrow> async_reachable n (end_context i e)"
| own: "async_reachable n e \<Longrightarrow> i < length (axTasks e) \<Longrightarrow> async_reachable n (end_own i e)"

inductive_cases async_stepE: "async_step e e'"

section \<open>The invariant\<close>

definition holds_slot :: "async_task \<Rightarrow> nat" where
  "holds_slot t = (case asPhase t of Working \<Rightarrow> of_bool (asSlotted t) | Sent r \<Rightarrow> 1 | _ \<Rightarrow> 0)"

definition outcome_ok :: "async_task \<Rightarrow> task_outcome \<Rightarrow> bool" where
  "outcome_ok t r \<longleftrightarrow> toID r = asID t \<and> toName r = asName t \<and>
     (r = abandoned t \<and> asSlotted t \<or> (\<exists>b. asFunc t b = (toOutput r, toErr r)))"

definition task_ok :: "async_task \<Rightarrow> bool" where
  "task_ok t \<longleftrightarrow> (case asPhase t of Waiting \<Rightarrow> asSlotted t | Working \<Rightarrow> True | Sent r \<Rightarrow> asSlotted t \<and> outcome_ok t r
     | Released r \<Rightarrow> outcome_ok t r | Unregistered r \<Rightarrow> outcome_ok t r | Ended r \<Rightarrow> outcome_ok t r)"

definition gone :: "async_task \<Rightarrow> bool" where
  "gone t \<longleftrightarrow> (case asPhase t of Unregistered r \<Rightarrow> True | Ended r \<Rightarrow> True | _ \<Rightarrow> False)"

definition async_inv :: "async_executor \<Rightarrow> bool" where
  "async_inv e \<longleftrightarrow> axFree e + sum_list (map holds_slot (axTasks e)) = axMax e \<and> axMax e > 0 \<and>
     distinct (map asID (axTasks e)) \<and> list_all task_ok (axTasks e) \<and>
     axActive e \<subseteq> asID ` {t \<in> set (axTasks e). \<not> gone t}"

lemma sum_list_upd:
  "i < length xs \<Longrightarrow> sum_list (map f (xs[i := x])) + f (xs ! i) = sum_list (map f xs) + (f x :: nat)"
proof (induction xs arbitrary: i)
  case (Cons y ys)
  then show ?case by (cases i) auto
qed simp

lemma register_inv:
  "async_inv e \<Longrightarrow> asID t \<notin> asID ` set (axTasks e) \<Longrightarrow> holds_slot t = 0 \<Longrightarrow> task_ok t \<Longrightarrow> \<not> gone t \<Longrightarrow> async_inv (register t e)"
  by (auto simp: async_inv_def register_def)

lemma batch_inv: "async_inv e \<Longrightarrow> fresh_ids us e \<Longrightarrow> async_inv (ax_ExecuteBatch us d err ts e)"
proof (induction us d err ts e rule: ax_ExecuteBatch.induct)
  case (1 u us d err t ts e)
  let ?e = "register \<lparr>asID = u, asName = btName t, asFunc = btFunc t, asCtxErr = err, asDone = d, asCancelled = btDone t, asDerived = False,
      asCancel = btCancel t, asSlotted = True, asPhase = Waiting\<rparr> e"
  have "async_inv ?e"
    using 1(2,3) by (intro register_inv) (auto simp: fresh_ids_def holds_slot_def task_ok_def gone_def)
  moreover have "fresh_ids us ?e" using 1(3) by (auto simp: fresh_ids_def register_def)
  ultimately show ?case using 1(1) by simp
qed simp_all

text \<open>A step that changes one task, the free slots and the active set.\<close>

lemma task_step_inv:
  assumes "async_inv e" "i < length (axTasks e)"
    and "axTasks e' = (axTasks e)[i := t]" "axMax e' = axMax e"
    and "axFree e' + holds_slot t = axFree e + holds_slot (axTasks e ! i)"
    and "asID t = asID (axTasks e ! i)" "task_ok t"
    and "axActive e' \<subseteq> axActive e" "gone t \<Longrightarrow> asID t \<notin> axActive e'"
  shows "async_inv e'"
proof -
  let ?ts = "axTasks e"
  have "sum_list (map holds_slot (?ts[i := t])) + holds_slot (?ts ! i) = sum_list (map holds_slot ?ts) + holds_slot t"
    by (rule sum_list_upd[OF assms(2)])
  then have "axFree e' + sum_list (map holds_slot (axTasks e')) = axMax e'"
    using assms(1,3,4,5) by (simp add: async_inv_def)
  moreover have ids: "map asID (axTasks e') = map asID ?ts"
    unfolding assms(3) map_update assms(6) using assms(2) by (metis list_update_id nth_map)
  moreover have "list_all task_ok (axTasks e')"
    unfolding assms(3) list_all_iff
    using assms(1,7) set_update_subset_insert[of ?ts i t] by (auto simp: async_inv_def list_all_iff)
  moreover have "x \<in> asID ` {t \<in> set (axTasks e'). \<not> gone t}" if x: "x \<in> axActive e'" for x
  proof -
    from x assms(1,8) obtain u where u: "u \<in> set ?ts" "asID u = x" "\<not> gone u" unfolding async_inv_def by blast
    then obtain j where j: "j < length ?ts" "?ts ! j = u" by (metis in_set_conv_nth)
    show ?thesis
    proof (cases "j = i")
      case True
      with j u assms(6) have t: "asID t = x" by simp
      with assms(9) x have "\<not> gone t" by blast
      moreover have "t \<in> set (axTasks e')" unfolding assms(3) using assms(2) by (rule set_update_memI)
      ultimately show ?thesis using t by blast
    next
      case False
      with j have "axTasks e' ! j = u" by (simp add: assms(3))
      moreover from j have "j < length (axTasks e')" by (simp add: assms(3))
      ultimately have "u \<in> set (axTasks e')" by (metis nth_mem)
      with u show ?thesis by blast
    qed
  qed
  ultimately show ?thesis using assms(1,4) unfolding async_inv_def by auto
qed

lemma phase_holds: "holds_slot (t\<lparr>asPhase := p\<rparr>) = (case p of Working \<Rightarrow> of_bool (asSlotted t) | Sent r \<Rightarrow> 1 | _ \<Rightarrow> 0)"
  by (simp add: holds_slot_def split: async_phase.split)

lemma outcome_ok_phase [simp]: "outcome_ok (t\<lparr>asPhase := p\<rparr>) = outcome_ok t"
  by (simp add: outcome_ok_def abandoned_def fun_eq_iff)

lemma outcome_of_ok [simp]: "outcome_ok t (outcome_of t)"
  by (auto simp: outcome_ok_def outcome_of_def split: prod.splits)

lemma abandoned_ok [simp]: "asSlotted t \<Longrightarrow> outcome_ok t (abandoned t)"
  by (simp add: outcome_ok_def abandoned_def)

lemma nth_task_ok: "async_inv e \<Longrightarrow> i < length (axTasks e) \<Longrightarrow> task_ok (axTasks e ! i)"
  by (simp add: async_inv_def list_all_length)

lemmas phase_defs = holds_slot_def task_ok_def gone_def set_phase_def unregister_def

lemma step_inv:
  assumes "async_step e e'" "async_inv e"
  shows "async_inv e'"
  using assms
proof (cases rule: async_step.cases)
  case (acquire i)
  with nth_task_ok[OF assms(2), of i] show ?thesis
    by (intro task_step_inv[OF assms(2), of i _ "(axTasks e ! i)\<lparr>asPhase := Working\<rparr>"]) (simp_all add: phase_defs)
next
  case (abandon i)
  with nth_task_ok[OF assms(2), of i] show ?thesis
    by (intro task_step_inv[OF assms(2), of i _ "(axTasks e ! i)\<lparr>asPhase := Released (abandoned (axTasks e ! i))\<rparr>"])
      (simp_all add: phase_defs)
next
  case (deliver i)
  with nth_task_ok[OF assms(2), of i] show ?thesis
    by (intro task_step_inv[OF assms(2), of i _ "(axTasks e ! i)\<lparr>asPhase := Sent (outcome_of (axTasks e ! i))\<rparr>"])
      (simp_all add: phase_defs)
next
  case (release i r)
  with nth_task_ok[OF assms(2), of i] show ?thesis
    by (intro task_step_inv[OF assms(2), of i _ "(axTasks e ! i)\<lparr>asPhase := Released r\<rparr>"]) (simp_all add: phase_defs)
next
  case (finish i r)
  with nth_task_ok[OF assms(2), of i] show ?thesis
    by (intro task_step_inv[OF assms(2), of i _ "(axTasks e ! i)\<lparr>asPhase := Ended r\<rparr>"]) (simp_all add: phase_defs)
next
  case (retried i)
  with nth_task_ok[OF assms(2), of i] show ?thesis
    by (intro task_step_inv[OF assms(2), of i _ "(axTasks e ! i)\<lparr>asPhase := Unregistered (outcome_of (axTasks e ! i))\<rparr>"])
      (simp_all add: phase_defs)
next
  case (send i r)
  have "asID (axTasks e ! i) \<notin> axActive e"
  proof
    assume a: "asID (axTasks e ! i) \<in> axActive e"
    have "axActive e \<subseteq> asID ` {t \<in> set (axTasks e). \<not> gone t}" using assms(2) by (simp add: async_inv_def)
    with a obtain t where t: "t \<in> set (axTasks e)" "asID t = asID (axTasks e ! i)" "\<not> gone t" by auto
    moreover have "axTasks e ! i \<in> set (axTasks e)" using send(2) by simp
    moreover have "inj_on asID (set (axTasks e))" using assms(2) by (simp add: async_inv_def distinct_map)
    ultimately have "t = axTasks e ! i" by (meson inj_onD)
    with t send show False by (simp add: gone_def)
  qed
  with send nth_task_ok[OF assms(2), of i] show ?thesis
    by (intro task_step_inv[OF assms(2), of i _ "(axTasks e ! i)\<lparr>asPhase := Ended r\<rparr>"]) (simp_all add: phase_defs)
qed

lemma map_inv:
  assumes "async_inv e" "axTasks e' = map g (axTasks e)" "axMax e' = axMax e" "axFree e' = axFree e"
    and "axActive e' \<subseteq> axActive e"
    and "\<And>t. asID (g t) = asID t \<and> holds_slot (g t) = holds_slot t \<and> (task_ok t \<longrightarrow> task_ok (g t)) \<and> gone (g t) = gone t"
  shows "async_inv e'"
proof -
  have "map holds_slot (axTasks e') = map holds_slot (axTasks e)" "map asID (axTasks e') = map asID (axTasks e)"
    using assms(2,6) by simp_all
  moreover have "asID ` {t \<in> set (axTasks e). \<not> gone t} \<subseteq> asID ` {t \<in> set (axTasks e'). \<not> gone t}"
  proof
    fix x assume "x \<in> asID ` {t \<in> set (axTasks e). \<not> gone t}"
    then obtain t where "t \<in> set (axTasks e)" "\<not> gone t" "x = asID t" by blast
    with assms(2,6) have "g t \<in> set (axTasks e')" "\<not> gone (g t)" "x = asID (g t)" by simp_all
    then show "x \<in> asID ` {t \<in> set (axTasks e'). \<not> gone t}" by blast
  qed
  moreover have "list_all task_ok (axTasks e')"
    using assms(1,2,6) by (auto simp: async_inv_def list_all_iff)
  ultimately show ?thesis
    using assms(1,3,4,5) unfolding async_inv_def by (metis subset_trans)
qed

lemma flags_ok:
  "asID (t\<lparr>asDone := d, asCancelled := c\<rparr>) = asID t \<and> holds_slot (t\<lparr>asDone := d, asCancelled := c\<rparr>) = holds_slot t \<and>
   (task_ok t \<longrightarrow> task_ok (t\<lparr>asDone := d, asCancelled := c\<rparr>)) \<and> gone (t\<lparr>asDone := d, asCancelled := c\<rparr>) = gone t"
  by (auto simp: holds_slot_def task_ok_def gone_def outcome_ok_def abandoned_def split: async_phase.splits)

lemma flags_inv:
  assumes "async_inv e" "i < length (axTasks e)"
    and "e' = e\<lparr>axTasks := (axTasks e)[i := (axTasks e ! i)\<lparr>asDone := d, asCancelled := c\<rparr>]\<rparr>"
  shows "async_inv e'"
proof (rule task_step_inv[OF assms(1,2)])
  let ?t = "(axTasks e ! i)\<lparr>asDone := d, asCancelled := c\<rparr>"
  show "axTasks e' = (axTasks e)[i := ?t]" using assms(3) by simp
  show "axMax e' = axMax e" "axActive e' \<subseteq> axActive e" using assms(3) by simp_all
  show "axFree e' + holds_slot ?t = axFree e + holds_slot (axTasks e ! i)" using assms(3) flags_ok by simp
  show "asID ?t = asID (axTasks e ! i)" by simp
  show "task_ok ?t" using nth_task_ok[OF assms(1,2)] flags_ok by blast
  assume "gone ?t"
  then have g: "gone (axTasks e ! i)" using flags_ok by blast
  show "asID ?t \<notin> axActive e'"
  proof
    assume a: "asID ?t \<in> axActive e'"
    have "axActive e \<subseteq> asID ` {t \<in> set (axTasks e). \<not> gone t}" using assms(1) by (simp add: async_inv_def)
    with a assms(3) obtain t where t: "t \<in> set (axTasks e)" "asID t = asID (axTasks e ! i)" "\<not> gone t" by auto
    moreover have "axTasks e ! i \<in> set (axTasks e)" using assms(2) by simp
    moreover have "inj_on asID (set (axTasks e))" using assms(1) by (simp add: async_inv_def distinct_map)
    ultimately have "t = axTasks e ! i" by (meson inj_onD)
    with t g show False by simp
  qed
qed

lemma reachable_inv: "async_reachable n e \<Longrightarrow> async_inv e"
proof (induction rule: async_reachable.induct)
  case start
  show ?case by (simp add: async_inv_def NewAsyncExecutor_def Let_def)
next
  case (step e e')
  then show ?case by (blast intro: step_inv)
next
  case (execute e u d err name fn)
  then show ?case unfolding ax_Execute_def
    by (intro register_inv) (auto simp: fresh_ids_def holds_slot_def task_ok_def gone_def)
next
  case (batch e us ts d err)
  then show ?case by (intro batch_inv)
next
  case (retry e u d err name fn)
  then show ?case unfolding ax_ExecuteWithRetry_def
    by (intro register_inv) (auto simp: fresh_ids_def holds_slot_def task_ok_def gone_def)
next
  case (cancel e)
  have "asID (cancel_task A t) = asID t \<and> holds_slot (cancel_task A t) = holds_slot t \<and>
      (task_ok t \<longrightarrow> task_ok (cancel_task A t)) \<and> gone (cancel_task A t) = gone t" for A t
    using flags_ok[where t = t and d = "asDone t" and c = True] by (simp add: cancel_task_def)
  then show ?case
    by (intro map_inv[OF cancel.IH, of _ "cancel_task (axActive e)"]) (simp_all add: ax_Cancel_def)
next
  case (ended e i)
  show ?case
    by (rule flags_inv[OF ended.IH ended.hyps(2), where d = True and
        c = "asCancelled (axTasks e ! i) \<or> asDerived (axTasks e ! i)"])
      (simp add: end_context_def)
next
  case (own e i)
  show ?case
    by (rule flags_inv[OF own.IH own.hyps(2), where d = "asDone (axTasks e ! i)" and c = True]) (simp add: end_own_def)
qed

section \<open>What holds\<close>

definition running :: "async_task \<Rightarrow> bool" where
  "running t \<longleftrightarrow> asPhase t = Working"

lemma slots_bound: "length (filter (\<lambda>t. running t \<and> asSlotted t) ts) \<le> sum_list (map holds_slot ts)"
  by (induction ts) (auto simp: running_def holds_slot_def)

definition phase_work :: "async_task \<Rightarrow> nat" where
  "phase_work t = (case asPhase t of Waiting \<Rightarrow> 4 | Working \<Rightarrow> 3 | Sent r \<Rightarrow> 2 | Released r \<Rightarrow> 1 | Unregistered r \<Rightarrow> 1 | Ended r \<Rightarrow> 0)"

definition async_work :: "async_executor \<Rightarrow> nat" where
  "async_work e = sum_list (map phase_work (axTasks e))"

lemma work_set_phase:
  "i < length (axTasks e) \<Longrightarrow> async_work (set_phase i p e) + phase_work (axTasks e ! i) =
     async_work e + phase_work ((axTasks e ! i)\<lparr>asPhase := p\<rparr>)"
  unfolding async_work_def set_phase_def by (simp add: sum_list_upd)

lemma work_frame [simp]: "async_work (unregister i e) = async_work e" "async_work (e\<lparr>axFree := n\<rparr>) = async_work e"
  by (simp_all add: async_work_def unregister_def)

lemma step_work: "async_step e e' \<Longrightarrow> async_work e' < async_work e"
proof (induction rule: async_step.induct)
  case (acquire i e)
  with work_set_phase[of i "e\<lparr>axFree := axFree e - 1\<rparr>" Working] show ?case by (simp add: phase_work_def)
next
  case (abandon i e)
  with work_set_phase[of i e "Released (abandoned (axTasks e ! i))"] show ?case by (simp add: phase_work_def)
next
  case (deliver i e)
  with work_set_phase[of i e "Sent (outcome_of (axTasks e ! i))"] show ?case by (simp add: phase_work_def)
next
  case (release i e r)
  with work_set_phase[of i "e\<lparr>axFree := axFree e + 1\<rparr>" "Released r"] show ?case by (simp add: phase_work_def)
next
  case (finish i e r)
  with work_set_phase[of i e "Ended r"] show ?case by (simp add: phase_work_def)
next
  case (retried i e)
  with work_set_phase[of i e "Unregistered (outcome_of (axTasks e ! i))"] show ?case by (simp add: phase_work_def)
next
  case (send i e r)
  with work_set_phase[of i e "Ended r"] show ?case by (simp add: phase_work_def)
qed

lemma steps_work: "(async_step ^^ k) e e' \<Longrightarrow> async_work e' + k \<le> async_work e"
proof (induction k arbitrary: e')
  case (Suc k)
  then obtain d where "(async_step ^^ k) e d" "async_step d e'" by auto
  with Suc.IH[of d] step_work[of d e'] show ?case by simp
qed simp

definition ended_task :: "async_task \<Rightarrow> bool" where
  "ended_task t \<longleftrightarrow> (\<exists>r. asPhase t = Ended r \<and> outcome_ok t r)"

lemma no_slot: "sum_list (map holds_slot ts) > 0 \<Longrightarrow> \<exists>i < length ts. holds_slot (ts ! i) > 0"
  by (metis gr0I in_set_conv_nth map_eq_conv sum_list_0 map_replicate_const sum_list_replicate mult_0_right)

lemma stuck_ended:
  assumes "async_inv e" "\<nexists>e'. async_step e e'"
  shows "list_all ended_task (axTasks e) \<and> axFree e = axMax e \<and> axActive e = {}"
proof -
  have phase: "(\<exists>r. asPhase (axTasks e ! i) = Ended r) \<or> asPhase (axTasks e ! i) = Waiting \<and> axFree e = 0" if "i < length (axTasks e)" for i
  proof (cases "asPhase (axTasks e ! i)")
    case Waiting
    then show ?thesis using that assms(2) async_step.acquire by blast
  next
    case Working
    then show ?thesis using that assms(2) async_step.deliver async_step.retried by blast
  next
    case (Sent r)
    then show ?thesis using that assms(2) async_step.release by blast
  next
    case (Released r)
    then show ?thesis using that assms(2) async_step.finish by blast
  next
    case (Unregistered r)
    then show ?thesis using that assms(2) async_step.send by blast
  qed blast
  have "holds_slot t = 0" if "t \<in> set (axTasks e)" for t
    using that phase by (auto simp: in_set_conv_nth holds_slot_def split: async_phase.splits) force+
  then have "sum_list (map holds_slot (axTasks e)) = 0" by (simp add: sum_list_eq_0_iff)
  with assms(1) have free: "axFree e = axMax e" "axFree e > 0" by (simp_all add: async_inv_def)
  then have ended: "\<exists>r. asPhase (axTasks e ! i) = Ended r" if "i < length (axTasks e)" for i
    using phase[OF that] by simp
  have all: "list_all ended_task (axTasks e)"
    unfolding list_all_length
  proof (intro allI impI)
    fix i assume "i < length (axTasks e)"
    with ended[OF this] nth_task_ok[OF assms(1) this] show "ended_task (axTasks e ! i)"
      by (auto simp: ended_task_def task_ok_def)
  qed
  then have "{t \<in> set (axTasks e). \<not> gone t} = {}" by (auto simp: list_all_iff ended_task_def gone_def)
  moreover have "axActive e \<subseteq> asID ` {t \<in> set (axTasks e). \<not> gone t}" using assms(1) by (simp add: async_inv_def)
  ultimately have "axActive e = {}" by (metis image_empty subset_empty)
  with all free show ?thesis by blast
qed


text \<open>C27: The executor drains: from every state it reaches, its goroutines can make at most four steps each,
  and when none can make another one, every task has delivered its outcome, all slots are free
  and no task is active.\<close>

theorem async_drains:
  assumes "async_reachable n e"
  shows "((async_step ^^ k) e e' \<longrightarrow> k \<le> 4 * length (axTasks e)) \<and>
    (async_step\<^sup>*\<^sup>* e e' \<longrightarrow> (\<exists>e''. async_step e' e'') \<or>
       list_all ended_task (axTasks e') \<and> axFree e' = axMax e' \<and> GetActiveTaskCount e' = 0)"
proof -
  have "phase_work t \<le> 4" for t by (simp add: phase_work_def split: async_phase.split)
  then have "sum_list (map phase_work ts) \<le> 4 * length ts" for ts
    by (induction ts) (simp_all add: add_mono)
  then have "async_work e \<le> 4 * length (axTasks e)" by (simp add: async_work_def)
  then have "(async_step ^^ k) e e' \<longrightarrow> k \<le> 4 * length (axTasks e)"
    using steps_work[of k e e'] by auto
  moreover have "async_reachable n e'" if "async_step\<^sup>*\<^sup>* e e'"
    using that assms by (induction rule: rtranclp_induct) (auto intro: async_reachable.step)
  ultimately show ?thesis
    using stuck_ended[OF reachable_inv, of n e'] by (auto simp: GetActiveTaskCount_def)
qed

text \<open>\<open>Cancel\<close> does not stop a task that waits for a slot: the task waits on the context of its caller,
  takes a slot when there is one and runs its function with the cancelled context; meanwhile no
  task counts as active, so \<open>Wait\<close> returns.\<close>

theorem cancelled_task_runs:
  assumes "i < length (axTasks e)" "asPhase (axTasks e ! i) = Waiting" "asSlotted (axTasks e ! i)" "axFree e > 0"
    and "asID (axTasks e ! i) \<in> axActive e" "asCancel (axTasks e ! i)"
  shows "\<exists>e1 e2 r. async_step (ax_Cancel e) e1 \<and> async_step e1 e2 \<and> asPhase (axTasks e2 ! i) = Sent r \<and>
    asFunc (axTasks e ! i) True = (toOutput r, toErr r) \<and>
    GetActiveTaskCount (ax_Cancel e) = 0 \<and> wait_turn None (ax_Cancel e) = Some None"
proof -
  let ?c = "ax_Cancel e"
  let ?e1 = "set_phase i Working (?c\<lparr>axFree := axFree ?c - 1\<rparr>)"
  have i: "i < length (axTasks ?c)" "axTasks ?c ! i = (axTasks e ! i)\<lparr>asCancelled := True\<rparr>" "axFree ?c = axFree e"
    using assms by (simp_all add: ax_Cancel_def cancel_task_def)
  then have 1: "async_step ?c ?e1" using assms(2,4) by (intro async_step.acquire) simp_all
  have t: "i < length (axTasks ?e1)" "axTasks ?e1 ! i = (axTasks e ! i)\<lparr>asCancelled := True, asPhase := Working\<rparr>"
    using i by (simp_all add: set_phase_def)
  with assms(3) have 2: "async_step ?e1 (set_phase i (Sent (outcome_of (axTasks ?e1 ! i))) ?e1)"
    by (intro async_step.deliver) simp_all
  have "asPhase (axTasks (set_phase i (Sent (outcome_of (axTasks ?e1 ! i))) ?e1) ! i) = Sent (outcome_of (axTasks ?e1 ! i))"
    using t(1) by (simp add: set_phase_def)
  moreover have "asFunc (axTasks e ! i) True = (toOutput (outcome_of (axTasks ?e1 ! i)), toErr (outcome_of (axTasks ?e1 ! i)))"
    unfolding t(2) outcome_of_def by (simp split: prod.split)
  moreover have "GetActiveTaskCount ?c = 0" by (simp add: GetActiveTaskCount_def ax_Cancel_def)
  ultimately show ?thesis using 1 2 by (auto simp: wait_turn_def)
qed

definition demo_async :: async_executor where
  "demo_async = ax_Execute ''t'' False (ErrorString ''canceled'') ''n'' (\<lambda>c. (VBool c, None)) (NewAsyncExecutor 1)"

lemma demo_async_reachable: "async_reachable 1 demo_async"
  unfolding demo_async_def
  by (intro async_reachable.execute async_reachable.start) (simp add: fresh_ids_def NewAsyncExecutor_def Let_def)


theorem async_drains_witness: "\<forall>e'. \<not> (async_step ^^ 5) demo_async e'"
proof
  fix e'
  show "\<not> (async_step ^^ 5) demo_async e'"
    using conjunct1[OF async_drains[OF demo_async_reachable, of 5 e']]
    by (simp add: demo_async_def ax_Execute_def register_def NewAsyncExecutor_def Let_def)
qed

theorem cancelled_task_runs_witness:
  "\<exists>e1 e2 r. async_step (ax_Cancel demo_async) e1 \<and> async_step e1 e2 \<and> asPhase (axTasks e2 ! 0) = Sent r \<and>
    toOutput r = VBool True"
proof -
  have "0 < length (axTasks demo_async)" "asPhase (axTasks demo_async ! 0) = Waiting" "asSlotted (axTasks demo_async ! 0)"
    "axFree demo_async > 0" "asID (axTasks demo_async ! 0) \<in> axActive demo_async" "asCancel (axTasks demo_async ! 0)"
    and f: "asFunc (axTasks demo_async ! 0) True = (VBool True, None)"
    by (simp_all add: demo_async_def ax_Execute_def register_def NewAsyncExecutor_def Let_def)
  from cancelled_task_runs[OF this(1-6)] f show ?thesis by fastforce
qed

text \<open>Tasks with retries take no slot: any number of them run at once, whatever the limit.\<close>

theorem retries_unlimited:
  assumes "distinct us"
  shows "async_reachable n (fold (\<lambda>u. ax_ExecuteWithRetry u False err name fn) us (NewAsyncExecutor n)) \<and>
    length (filter running (axTasks (fold (\<lambda>u. ax_ExecuteWithRetry u False err name fn) us (NewAsyncExecutor n)))) = length us"
  using assms
proof (induction us rule: rev_induct)
  case Nil
  show ?case using async_reachable.start by (simp add: NewAsyncExecutor_def Let_def)
next
  case (snoc u us)
  let ?e = "fold (\<lambda>u. ax_ExecuteWithRetry u False err name fn) us (NewAsyncExecutor n)"
  have ids: "map asID (axTasks ?e) = us"
    by (induction us rule: rev_induct) (simp_all add: NewAsyncExecutor_def Let_def ax_ExecuteWithRetry_def register_def)
  have "asID t \<in> set us" if "t \<in> set (axTasks ?e)" for t
    using that arg_cong[OF ids, of set] by auto
  with snoc.prems have "fresh_ids [u] ?e" by (auto simp: fresh_ids_def)
  moreover from snoc have "async_reachable n ?e" "length (filter running (axTasks ?e)) = length us" by simp_all
  ultimately have "async_reachable n (ax_ExecuteWithRetry u False err name fn ?e)"
    by (intro async_reachable.retry)
  moreover have "length (filter running (axTasks (ax_ExecuteWithRetry u False err name fn e))) =
      length (filter running (axTasks e)) + 1" for e
    by (simp add: ax_ExecuteWithRetry_def register_def running_def)
  ultimately show ?case using \<open>length (filter running (axTasks ?e)) = length us\<close> by simp
qed

theorem retries_unlimited_witness:
  "\<exists>e. async_reachable 1 e \<and> length (filter running (axTasks e)) = 3"
  using retries_unlimited[of "[''a'', ''b'', ''c'']" 1 "ErrorString []" "[]" "\<lambda>c. (VNil, None)"]
  by (intro exI[of _ "fold (\<lambda>u. ax_ExecuteWithRetry u False (ErrorString []) [] (\<lambda>c. (VNil, None))) [''a'', ''b'', ''c''] (NewAsyncExecutor 1)"]) simp

end
