(* ===== verification/Async_Limits.thy ===== *)
theory Async_Limits
  imports Async
begin

text \<open>
  The rest of \<^verbatim>\<open>pregel/async.go\<close>: limits on the concurrency of nodes, the priority executor and the
  pipeline that holds an executor and two buffered channels.
\<close>

section \<open>Limits per node\<close>

text \<open>A limit is a channel with a capacity that holds tokens.\<close>

record node_limit =
  nlCap :: nat
  nlTokens :: nat

type_synonym limiter = "(string, node_limit) fmap"

definition NewConcurrencyLimiter :: limiter where
  "NewConcurrencyLimiter = fmempty"

text \<open>\<open>None\<close>: a negative limit panics.\<close>

definition SetLimit :: "string \<Rightarrow> int \<Rightarrow> limiter \<Rightarrow> limiter option" where
  "SetLimit node limit l = (if limit < 0 then None
     else Some (fmupd node \<lparr>nlCap = nat limit, nlTokens = nat limit\<rparr> l))"

text \<open>
  \<open>None\<close>: the call blocks. \<open>ctxErr\<close> is the error of the context if it is done, \<open>pick\<close> the choice when the
  context is done and there is a token.
\<close>

definition lim_Acquire :: "gerr option \<Rightarrow> bool \<Rightarrow> string \<Rightarrow> limiter \<Rightarrow> (gerr option \<times> limiter) option" where
  "lim_Acquire ctxErr pick node l = (case fmlookup l node of
     None \<Rightarrow> Some (None, l)
   | Some c \<Rightarrow>
       (if nlTokens c > 0 \<and> (ctxErr = None \<or> pick)
        then Some (None, fmupd node (c\<lparr>nlTokens := nlTokens c - 1\<rparr>) l)
        else case ctxErr of Some e \<Rightarrow> Some (Some e, l) | None \<Rightarrow> None))"

definition lim_Release :: "string \<Rightarrow> limiter \<Rightarrow> limiter" where
  "lim_Release node l = (case fmlookup l node of
     None \<Rightarrow> l
   | Some c \<Rightarrow> (if nlTokens c < nlCap c then fmupd node (c\<lparr>nlTokens := nlTokens c + 1\<rparr>) l else l))"

text \<open>Callers that release what they hold: the list is what they do, the number how many hold a slot.\<close>

datatype slot_op = DoAcquire | DoRelease

fun slot_ops :: "string \<Rightarrow> slot_op list \<Rightarrow> nat \<Rightarrow> limiter \<Rightarrow> (nat \<times> limiter) option" where
  "slot_ops node [] held l = Some (held, l)"
| "slot_ops node (DoAcquire # ops) held l =
     (case lim_Acquire None False node l of Some (None, l1) \<Rightarrow> slot_ops node ops (held + 1) l1 | _ \<Rightarrow> None)"
| "slot_ops node (DoRelease # ops) held l =
     (if held > 0 then slot_ops node ops (held - 1) (lim_Release node l) else None)"

lemma slot_ops_tokens:
  "slot_ops node ops h l = Some (h', l') \<Longrightarrow> fmlookup l node = Some c \<Longrightarrow> nlTokens c + h = nlCap c \<Longrightarrow>
   \<exists>c'. fmlookup l' node = Some c' \<and> nlCap c' = nlCap c \<and> nlTokens c' + h' = nlCap c"
proof (induction node ops h l arbitrary: c rule: slot_ops.induct)
  case (2 node ops held l)
  from 2(2,3) have pos: "nlTokens c > 0" by (auto simp: lim_Acquire_def split: if_splits)
  with 2(3) have a: "lim_Acquire None False node l = Some (None, fmupd node (c\<lparr>nlTokens := nlTokens c - 1\<rparr>) l)"
    by (simp add: lim_Acquire_def)
  with 2(2) have "slot_ops node ops (held + 1) (fmupd node (c\<lparr>nlTokens := nlTokens c - 1\<rparr>) l) = Some (h', l')" by simp
  from 2(1)[OF a refl refl this, of "c\<lparr>nlTokens := nlTokens c - 1\<rparr>"] 2(4) pos show ?case by simp
next
  case (3 node ops held l)
  from 3(2) have pos: "held > 0" by (auto split: if_splits)
  with 3(3,4) have r: "lim_Release node l = fmupd node (c\<lparr>nlTokens := nlTokens c + 1\<rparr>) l" by (simp add: lim_Release_def)
  from 3(1)[OF pos, of "c\<lparr>nlTokens := nlTokens c + 1\<rparr>"] 3(2,4) pos r show ?case by simp
qed simp

lemma acquire_all:
  "fmlookup l node = Some c \<Longrightarrow> nlTokens c = m \<Longrightarrow> \<exists>l'. slot_ops node (replicate m DoAcquire) h l = Some (h + m, l')"
proof (induction m arbitrary: h l c)
  case (Suc m)
  let ?c = "c\<lparr>nlTokens := m\<rparr>"
  have a: "lim_Acquire None False node l = Some (None, fmupd node ?c l)" using Suc.prems by (simp add: lim_Acquire_def)
  from Suc.IH[of "fmupd node ?c l" ?c "h + 1"] a show ?case by simp
qed simp

text \<open>Under a limit that stays as it is at most as many callers hold a slot of the node as it allows; setting
  the limit again hands out as many slots as the new one allows to others while the old ones are
  still held, so there are more than either allows.\<close>

theorem limits_per_node:
  assumes "SetLimit node (int n) l = Some l0" "slot_ops node ops 0 l0 = Some (h, l1)"
  shows "h \<le> n \<and> (\<exists>l2 l3. SetLimit node (int m) l1 = Some l2 \<and>
    slot_ops node (replicate m DoAcquire) h l2 = Some (h + m, l3))"
proof -
  from assms(1) have "fmlookup l0 node = Some \<lparr>nlCap = n, nlTokens = n\<rparr>" by (auto simp: SetLimit_def)
  from slot_ops_tokens[OF assms(2) this] have "h \<le> n" by auto
  moreover obtain l2 where l2: "SetLimit node (int m) l1 = Some l2" "fmlookup l2 node = Some \<lparr>nlCap = m, nlTokens = m\<rparr>"
    by (auto simp: SetLimit_def)
  ultimately show ?thesis using acquire_all[OF l2(2), of m h] by auto
qed

theorem limits_per_node_witness:
  "\<exists>l2 l3. SetLimit ''n'' (int 2) (fmupd ''n'' \<lparr>nlCap = 1, nlTokens = 0\<rparr> fmempty) = Some l2 \<and>
     slot_ops ''n'' (replicate 2 DoAcquire) 1 l2 = Some (3, l3)"
proof -
  have "SetLimit ''n'' (int 1) NewConcurrencyLimiter = Some (fmupd ''n'' \<lparr>nlCap = 1, nlTokens = 1\<rparr> fmempty)"
    by (simp add: SetLimit_def NewConcurrencyLimiter_def)
  from limits_per_node[OF this, of "[DoAcquire]" 1 "fmupd ''n'' \<lparr>nlCap = 1, nlTokens = 0\<rparr> fmempty" 2] show ?thesis
    by (simp add: lim_Acquire_def numeral_3_eq_3)
qed

section \<open>The priority executor\<close>

record 'w queued_task =
  ptFunc :: "'w \<Rightarrow> (gval \<times> gerr option) \<times> 'w"
  ptPriority :: goint

record 'w priority_executor =
  peSize :: nat
  peTasks :: "'w queued_task list"

definition NewPriorityExecutor :: "nat \<Rightarrow> 'w priority_executor" where
  "NewPriorityExecutor n = \<lparr>peSize = n, peTasks = []\<rparr>"

text \<open>\<open>idle\<close>: the executing goroutine is waiting for a task.\<close>

definition pe_Submit :: "bool \<Rightarrow> 'w queued_task \<Rightarrow> 'w priority_executor \<Rightarrow> gerr option \<times> 'w priority_executor" where
  "pe_Submit idle t e = (if length (peTasks e) < peSize e \<or> idle \<and> peTasks e = []
     then (None, e\<lparr>peTasks := peTasks e @ [t]\<rparr>) else (Some (ErrorString ''task queue full''), e))"

record priority_result =
  prOutput :: gval
  prError :: "gerr option"
  prPriority :: goint

text \<open>The first \<open>k\<close> turns of the executing goroutine; when the queue is empty it waits.\<close>

fun pe_Execute :: "nat \<Rightarrow> 'w queued_task list \<Rightarrow> 'w \<Rightarrow> priority_result list \<times> 'w queued_task list \<times> 'w" where
  "pe_Execute (Suc k) (t # ts) w =
     (case ptFunc t w of ((out, err), w1) \<Rightarrow>
        (case pe_Execute k ts w1 of (rs, ts1, w2) \<Rightarrow>
          (\<lparr>prOutput = out, prError = err, prPriority = ptPriority t\<rparr> # rs, ts1, w2)))"
| "pe_Execute k ts w = ([], ts, w)"

fun pe_submit_all :: "'w queued_task list \<Rightarrow> 'w priority_executor \<Rightarrow> gerr option list \<times> 'w priority_executor" where
  "pe_submit_all [] e = ([], e)"
| "pe_submit_all (t # ts) e = (case pe_Submit False t e of (r, e1) \<Rightarrow>
     (case pe_submit_all ts e1 of (rs, e2) \<Rightarrow> (r # rs, e2)))"

lemma submit_all_result:
  "pe_submit_all ts e = (map (\<lambda>i. if i < peSize e - length (peTasks e) then None else Some (ErrorString ''task queue full'')) [0..<length ts],
     e\<lparr>peTasks := peTasks e @ take (peSize e - length (peTasks e)) ts\<rparr>)"
proof (induction ts arbitrary: e)
  case (Cons t ts)
  have shift: "map f [0..<Suc n] = f 0 # map (\<lambda>i. f (Suc i)) [0..<n]" for f :: "nat \<Rightarrow> gerr option" and n
    by (simp add: upt_conv_Cons map_Suc_upt[symmetric] del: upt_Suc)
  show ?case
  proof (cases "length (peTasks e) < peSize e")
    case True
    then have s: "pe_Submit False t e = (None, e\<lparr>peTasks := peTasks e @ [t]\<rparr>)" by (simp add: pe_Submit_def)
    from True obtain d where d: "peSize e - length (peTasks e) = Suc d" by (metis Suc_diff_Suc)
    then have "peSize e - Suc (length (peTasks e)) = d" by simp
    with Cons[of "e\<lparr>peTasks := peTasks e @ [t]\<rparr>"] s d show ?thesis by (simp add: shift del: upt_Suc)
  next
    case False
    then have s: "pe_Submit False t e = (Some (ErrorString ''task queue full''), e)" by (simp add: pe_Submit_def)
    with Cons[of e] False show ?thesis by (simp add: shift del: upt_Suc)
  qed
qed simp

lemma execute_order:
  "map prPriority (fst (pe_Execute k ts w)) = map ptPriority (take k ts) \<and> fst (snd (pe_Execute k ts w)) = drop k ts"
  by (induction k ts w rule: pe_Execute.induct) (auto split: prod.splits)

text \<open>The priority executor takes tasks in the order in which they were submitted, whatever their
  priorities; what does not fit into its buffer is refused.\<close>

theorem priorities_ignored:
  "case pe_submit_all ts (NewPriorityExecutor n) of (rs, e) \<Rightarrow>
     rs = map (\<lambda>i. if i < n then None else Some (ErrorString ''task queue full'')) [0..<length ts] \<and>
     map prPriority (fst (pe_Execute k (peTasks e) w)) = map ptPriority (take k (take n ts)) \<and>
     fst (snd (pe_Execute k (peTasks e) w)) = drop k (take n ts)"
  by (simp add: submit_all_result NewPriorityExecutor_def execute_order)

section \<open>The pipeline\<close>

text \<open>The buffers of the two channels, which hold at most 100 events and 10 errors.\<close>

record async_pipeline =
  apExecutor :: async_executor
  apEvents :: "gval list"
  apErrors :: "gerr list"
  apClosed :: bool
  apRunning :: bool

definition NewAsyncPipeline :: "int \<Rightarrow> async_pipeline" where
  "NewAsyncPipeline n = \<lparr>apExecutor = NewAsyncExecutor n, apEvents = [], apErrors = [], apClosed = False, apRunning = False\<rparr>"

definition pipe_Start :: "async_pipeline \<Rightarrow> async_pipeline" where
  "pipe_Start p = (if apRunning p then p else p\<lparr>apEvents := [], apErrors := [], apClosed := False, apRunning := True\<rparr>)"

definition pipe_Stop :: "async_pipeline \<Rightarrow> async_pipeline" where
  "pipe_Stop p = (if \<not> apRunning p then p
     else p\<lparr>apExecutor := ax_Cancel (apExecutor p), apClosed := True, apRunning := False\<rparr>)"

definition EmitEvent :: "gval \<Rightarrow> async_pipeline \<Rightarrow> async_pipeline" where
  "EmitEvent v p = (if apRunning p \<and> length (apEvents p) < 100 then p\<lparr>apEvents := apEvents p @ [v]\<rparr> else p)"

definition EmitError :: "gerr \<Rightarrow> async_pipeline \<Rightarrow> async_pipeline" where
  "EmitError e p = (if apRunning p \<and> length (apErrors p) < 10 then p\<lparr>apErrors := apErrors p @ [e]\<rparr> else p)"

text \<open>\<open>retried\<close>: the function under a retry executor, if there is a retry configuration.\<close>

definition ExecuteNode ::
  "string \<Rightarrow> bool \<Rightarrow> gerr \<Rightarrow> string \<Rightarrow> (bool \<Rightarrow> gval \<times> gerr option) \<Rightarrow> (bool \<Rightarrow> gval \<times> gerr option) option
   \<Rightarrow> async_pipeline \<Rightarrow> async_pipeline"
where
  "ExecuteNode uuid ctxDone err name fn retry p = p\<lparr>apExecutor := (case retry of
     Some f \<Rightarrow> ax_ExecuteWithRetry uuid ctxDone err name f (apExecutor p)
   | None \<Rightarrow> ax_Execute uuid ctxDone err name fn (apExecutor p))\<rparr>"

text \<open>A pipeline that nobody reads keeps the first 100 events in order and drops the others; stopping it
  keeps them readable and no event gets in any more; starting it again throws them away.\<close>

theorem pipeline_events:
  "let p = fold EmitEvent evs (pipe_Start (NewAsyncPipeline n))
   in apEvents p = take 100 evs \<and> apEvents (fold EmitEvent later (pipe_Stop p)) = take 100 evs \<and>
      apEvents (pipe_Start (pipe_Stop p)) = []"
proof -
  have run: "apRunning (fold EmitEvent vs p) = apRunning p" for vs p
    by (induction vs arbitrary: p) (simp_all add: EmitEvent_def)
  have stopped: "\<not> apRunning p \<Longrightarrow> fold EmitEvent vs p = p" for vs p
    by (induction vs arbitrary: p) (simp_all add: EmitEvent_def)
  have "apRunning p \<Longrightarrow> length (apEvents p) \<le> 100 \<Longrightarrow> apEvents (fold EmitEvent vs p) = take 100 (apEvents p @ vs)" for vs p
  proof (induction vs arbitrary: p)
    case (Cons v vs)
    show ?case
    proof (cases "length (apEvents p) < 100")
      case True
      then have d: "100 - length (apEvents p) = Suc (99 - length (apEvents p))" by simp
      with Cons True show ?thesis by (simp add: EmitEvent_def)
    qed (use Cons in \<open>simp add: EmitEvent_def\<close>)
  qed simp
  then show ?thesis
    by (simp add: Let_def pipe_Start_def pipe_Stop_def NewAsyncPipeline_def run stopped)
qed

end
