(* ===== verification/Engine_Types.thy ===== *)
theory Engine_Types
  imports Engine_Sched
begin

text \<open>
  Types of channels. The type of a channel is its empty channel (\<open>ch_blank\<close>: the struct with its key, type,
  operator, names and flags); a typing gives each declared channel its type. A registry conforms to
  a typing if its declared channels have their types and all others are last-value channels. Every
  operation of the engine keeps a registry conforming.
\<close>

section \<open>Conforming registries\<close>

definition is_last :: "channel \<Rightarrow> bool" where
  "is_last c = (case c of ChLastValue _ \<Rightarrow> True | _ \<Rightarrow> False)"

definition typing :: "golib \<Rightarrow> registry \<Rightarrow> registry" where
  "typing L r = fmmap (ch_blank L) r"

definition conforms :: "golib \<Rightarrow> registry \<Rightarrow> registry \<Rightarrow> bool" where
  "conforms L G r \<longleftrightarrow> (\<forall>k. case fmlookup G k of
      Some t \<Rightarrow> map_option (ch_blank L) (fmlookup r k) = Some t
    | None \<Rightarrow> pred_option is_last (fmlookup r k))"

lemma ch_blank_Copy: "ch_blank L (ch_Copy L c) = ch_blank L c"
  unfolding ch_blank_def by (induction c) (auto simp: chan_defs Let_def)

lemma ch_blank_FromCheckpoint: "ch_blank L (ch_FromCheckpoint L c v) = ch_blank L c"
  unfolding ch_blank_def by (induction c) (auto simp: chan_defs Let_def split: gval.splits option.splits)

lemma ch_blank_SetVersion: "ch_blank L (ch_SetVersion c v) = ch_blank L c"
  unfolding ch_blank_def by (induction c) (auto simp: chan_defs Let_def)

lemma is_last_blank: "ch_blank L c' = ch_blank L c \<Longrightarrow> is_last c' = is_last c"
  by (cases c; cases c') (auto simp: ch_blank_def is_last_def chan_defs Let_def)

lemma conforms_update:
  assumes "conforms L G r" "fmlookup r k = Some c" "ch_blank L c' = ch_blank L c"
  shows "conforms L G (fmupd k c' r)"
  unfolding conforms_def
proof
  fix j
  from assms(1) have "case fmlookup G j of Some t \<Rightarrow> map_option (ch_blank L) (fmlookup r j) = Some t
    | None \<Rightarrow> pred_option is_last (fmlookup r j)" by (simp add: conforms_def)
  with assms(2,3) is_last_blank[OF assms(3)]
  show "case fmlookup G j of Some t \<Rightarrow> map_option (ch_blank L) (fmlookup (fmupd k c' r) j) = Some t
    | None \<Rightarrow> pred_option is_last (fmlookup (fmupd k c' r) j)"
    by (cases "j = k") (auto split: option.splits)
qed

lemma conforms_register:
  assumes "conforms L G r" "fmlookup r k = None" "is_last c"
  shows "conforms L G (fmupd k c r)"
  unfolding conforms_def
proof
  fix j
  from assms(1) have "case fmlookup G j of Some t \<Rightarrow> map_option (ch_blank L) (fmlookup r j) = Some t
    | None \<Rightarrow> pred_option is_last (fmlookup r j)" by (simp add: conforms_def)
  with assms(2,3)
  show "case fmlookup G j of Some t \<Rightarrow> map_option (ch_blank L) (fmlookup (fmupd k c r) j) = Some t
    | None \<Rightarrow> pred_option is_last (fmlookup (fmupd k c r) j)"
    by (cases "j = k") (auto split: option.splits)
qed

lemma conforms_typing: "conforms L (typing L r) r"
  by (simp add: conforms_def typing_def split: option.splits)

lemma new_last [simp]: "is_last (ChLastValue c)"
  by (simp add: is_last_def)

section \<open>Operations of the registry\<close>

lemma Get_blank: "ch_Get c = (x, c') \<Longrightarrow> ch_blank L c' = ch_blank L c"
  using ch_blank_Get[of L c] by simp

lemma Update_blank: "ch_Update L c vs = (x, c') \<Longrightarrow> ch_blank L c' = ch_blank L c"
  using ch_blank_Update[of L c vs] by simp

lemma Restore_conforms: "conforms L G r \<Longrightarrow> conforms L G (snd (rg_RestoreFromCheckpoint L r cps))"
  by (induction L r cps rule: rg_RestoreFromCheckpoint.induct)
    (auto split: option.split intro: conforms_update ch_blank_FromCheckpoint)

lemma UpdateChannels_conforms: "conforms L G r \<Longrightarrow> conforms L G (snd (rg_UpdateChannels L r ws))"
proof (induction L r ws rule: rg_UpdateChannels.induct)
  case (2 L r n vs ws)
  show ?case
  proof (cases "fmlookup r n")
    case (Some c)
    obtain res c' where u: "ch_Update L c vs = (res, c')" by (cases "ch_Update L c vs")
    have "conforms L G (fmupd n c' r)" by (rule conforms_update[OF 2(2) Some Update_blank[OF u]])
    with 2(1)[OF Some u[symmetric]] Some u show ?thesis by (cases res) simp_all
  qed (use 2(2) in simp)
qed simp

lemma values_loop_conforms:
  "conforms L G r \<Longrightarrow> distinct (map fst es) \<Longrightarrow> \<forall>(n, c) \<in> set es. fmlookup r n = Some c \<Longrightarrow>
   conforms L G (snd (values_loop r es vals))"
proof (induction r es vals rule: values_loop.induct)
  case (2 r n c es vals)
  obtain g c' where g: "ch_Get c = (g, c')" by (cases "ch_Get c")
  from 2(4,5) have c: "fmlookup r n = Some c" and rest: "\<forall>(m, d) \<in> set es. fmlookup (fmupd n c' r) m = Some d"
    by force+
  have "conforms L G (fmupd n c' r)" by (rule conforms_update[OF 2(3) c Get_blank[OF g]])
  with 2(1,2)[OF g[symmetric]] 2(4) rest show ?case by (cases g) (auto simp: g)
qed simp

lemma GetValues_conforms: "conforms L G r \<Longrightarrow> entries r es \<Longrightarrow> conforms L G (snd (rg_GetValues r es))"
  unfolding rg_GetValues_def
  by (rule values_loop_conforms) (auto simp: entries_distinct entries_def fmlookup_of_list dest!: map_of_is_SomeI)

lemma copies_conform:
  "fmmap (ch_blank L) r' = typing L r \<Longrightarrow> conforms L (typing L r) r'"
  using conforms_typing[of L r'] by (simp add: typing_def)

section \<open>Operations of the engine\<close>

lemma input_loop_conforms: "conforms L G r \<Longrightarrow> conforms L G (fst (input_loop r m es))"
  by (induction r m es rule: input_loop.induct)
    (auto simp: Let_def rg_Get_def rg_Register_def conforms_register)

lemma applyInput_conforms:
  assumes "conforms L G r" "applyInput L od r input = (err, r', input')"
  shows "conforms L G r'"
proof (cases "toMap L input")
  case (Inl e)
  with assms show ?thesis by (simp add: applyInput_def)
next
  case (Inr m)
  obtain r1 m1 where il: "input_loop r m (ordInput od m) = (r1, m1)" by fastforce
  with input_loop_conforms[OF assms(1), of m "ordInput od m"] have r1: "conforms L G r1" by simp
  show ?thesis
    using assms(2) Inr il r1 UpdateChannels_conforms[OF r1, of "ordWrites od (fmmap (\<lambda>v. [v]) m1)"]
    by (auto simp: applyInput_def Let_def split: prod.splits if_splits)
qed

lemma read_channels_conforms: "conforms L G r \<Longrightarrow> conforms L G (snd (read_channels r ns vals))"
proof (induction r ns vals rule: read_channels.induct)
  case (2 r n ns vals)
  show ?case
  proof (cases "fmlookup r n")
    case None
    with 2 show ?thesis by (simp add: rg_Get_def)
  next
    case (Some c)
    obtain g c' where g: "ch_Get c = (g, c')" by (cases "ch_Get c")
    have "conforms L G (fmupd n c' r)" by (rule conforms_update[OF 2(4) Some Get_blank[OF g]])
    with 2(2,3) Some g show ?thesis by (cases g) (auto simp: rg_Get_def)
  qed
qed simp

lemma readTaskInput_conforms: "conforms L G r \<Longrightarrow> conforms L G (snd (readTaskInput r t))"
  using read_channels_conforms[of L G r "tkChannels t" fmempty]
  by (auto simp: readTaskInput_def split: prod.splits)

lemma read_inputs_conforms: "conforms L G r \<Longrightarrow> conforms L G (snd (read_inputs r ts is f))"
proof (induction r ts "is" f rule: read_inputs.induct)
  case (2 r ts i "is" f)
  from readTaskInput_conforms[OF 2(2), of "ts ! i"] 2(1) show ?case by (auto simp: fun_upd_def split: prod.splits)
qed simp

lemma executeTasksAsync_conforms:
  "conforms L G r \<Longrightarrow> executeTasksAsync L R e ts r w = (res, r', w') \<Longrightarrow> conforms L G r'"
  using read_inputs_conforms[of L G r ts "ordTasks (rtOrders R w) (length ts)" "\<lambda>_. Inr VNil"]
  by (auto simp: executeTasksAsync_def Let_def split: prod.splits sum.splits)

lemma write_loop_conforms: "conforms L G r \<Longrightarrow> conforms L G (snd (snd (write_loop L e r ws updated)))"
proof (induction L e r ws updated rule: write_loop.induct)
  case (2 L e r name vals ws updated)
  define c where "c = (case fmlookup r name of Some c \<Rightarrow> c | None \<Rightarrow> ChLastValue (NewLastValue VNil))"
  define r0 where "r0 = (case fmlookup r name of Some c \<Rightarrow> r | None \<Rightarrow> fmupd name c r)"
  have r0: "conforms L G r0" "fmlookup r0 name = Some c"
    using 2(3) conforms_register[OF 2(3), of name c] by (auto simp: r0_def c_def split: option.split)
  obtain res c' where u: "ch_Update L c (squash c (filter (\<lambda>v. v \<noteq> VNil) vals)) = (res, c')" by fastforce
  have upd: "conforms L G (fmupd name c' r0)" by (rule conforms_update[OF r0 Update_blank[OF u]])
  have ver: "conforms L G (fmupd name (ch_SetVersion c' v) r0)" for v
    by (rule conforms_update[OF r0]) (simp add: ch_blank_SetVersion Update_blank[OF u])
  have eq: "(case rg_Get r name of Some c \<Rightarrow> (c, r) | None \<Rightarrow> let c = ChLastValue (NewLastValue VNil) in (c, rg_Register r name c)) = (c, r0)"
    by (auto simp: r0_def c_def rg_Get_def rg_Register_def Let_def split: option.split)
  show ?case
    using 2(1,2)[OF eq[symmetric] refl refl] upd ver u by (cases res) (simp_all add: eq Let_def)
qed simp

lemma applyWrites_conforms:
  assumes "conforms L G r" "applyWrites L od e r rs tr = (res, e', r')"
  shows "conforms L G r'"
proof (cases "collect_results L od (egGraph e) (sort_key trName rs) fmempty fmempty")
  case (Inl f)
  with assms show ?thesis by (simp add: applyWrites_def)
next
  case (Inr wp)
  obtain ws ps where wp: "wp = (ws, ps)" by (cases wp)
  obtain out e1 r1 where wl: "write_loop L e r (ordWrites od ws) {} = (out, e1, r1)" by (metis prod_cases3)
  from write_loop_conforms[OF assms(1), of e "ordWrites od ws" "{}"] wl have "conforms L G r1" by simp
  with assms(2) Inr wp wl show ?thesis by (cases out) (auto simp: applyWrites_def Let_def)
qed

lemma buildOutput_conforms:
  "conforms L G r \<Longrightarrow> entries r es \<Longrightarrow> buildOutput r es st = (out, r') \<Longrightarrow> conforms L G r'"
  using GetValues_conforms[of L G r es] by (auto simp: buildOutput_def split: prod.splits sum.splits if_splits)

section \<open>Runs\<close>

lemma save_step_registry: "save_step R s w = (Inr s', w') \<Longrightarrow> rnRegistry s' = rnRegistry s"
  by (auto simp: save_step_def Let_def split: if_splits prod.splits option.splits)

lemma take_results_registry: "take_results s rs = (s', af, ns) \<Longrightarrow> rnRegistry s' = rnRegistry s"
  by (auto simp: take_results_def split: prod.splits)

lemma commit_step_conforms:
  assumes "orders_ok (rtOrders R w)" "conforms L G (rnRegistry s)" "commit_step L R s rs tr w = (p, w')"
  shows "conforms L G (rnRegistry (phase_run p))"
proof -
  obtain res e1 r1 where aw: "applyWrites L (rtOrders R w) (rnEngine s) (rnRegistry s) rs tr = (res, e1, r1)"
    by (metis prod_cases3)
  have r1: "conforms L G r1" by (rule applyWrites_conforms[OF assms(2) aw])
  then have r2: "conforms L G (snd (rg_GetValues r1 (ordReg (rtOrders R w) r1)))"
    using assms(1) by (intro GetValues_conforms) (auto simp: orders_ok_def)
  show ?thesis
  proof (cases res)
    case (Inl f)
    with assms(3) aw r1 show ?thesis by (cases f) (auto simp: commit_step_def Let_def)
  next
    case (Inr upd)
    with assms(3) aw r2 show ?thesis
      by (auto simp: commit_step_def Let_def split: sum.splits prod.splits if_splits dest!: save_step_registry)
  qed
qed

lemma execute_step_conforms:
  assumes "runtime_ok R" "conforms L G (rnRegistry s)" "execute_step L R s ts tr w = (p, w')"
  shows "conforms L G (rnRegistry (phase_run p))"
proof -
  obtain res r1 w1 where ex: "executeTasksAsync L R (rnEngine s) ts (rnRegistry s) w = (res, r1, w1)"
    by (metis prod_cases3)
  have r1: "conforms L G r1" by (rule executeTasksAsync_conforms[OF assms(2) ex])
  show ?thesis
  proof (cases res)
    case (Inl f)
    with assms(3) ex r1 show ?thesis by (auto simp: execute_step_def)
  next
    case (Inr rs)
    obtain s1 af ns where tr: "take_results (s\<lparr>rnRegistry := r1\<rparr>) rs = (s1, af, ns)" by (metis prod_cases3)
    with r1 have s1: "conforms L G (rnRegistry s1)" by (auto dest: take_results_registry)
    with assms(3) ex Inr tr show ?thesis
      by (auto simp: execute_step_def split: prod.splits if_splits
          intro: commit_step_conforms[OF runtime_okD[OF assms(1)] s1])
  qed
qed

lemma finish_run_conforms:
  assumes "orders_ok (rtOrders R w)" "conforms L G (rnRegistry s)" "finish_run R s w = (p, w')"
  shows "conforms L G (rnRegistry (phase_run p))"
proof -
  obtain out r1 where b: "buildOutput (rnRegistry s) (ordReg (rtOrders R w) (rnRegistry s)) (rnLastState s) = (out, r1)"
    by fastforce
  have "conforms L G r1" by (rule buildOutput_conforms[OF assms(2) _ b]) (use assms(1) in \<open>simp add: orders_ok_def\<close>)
  with assms(3) b show ?thesis
    by (auto simp: finish_run_def Let_def split: prod.splits option.splits if_splits)
qed

lemma superstep_conforms:
  assumes "runtime_ok R" "conforms L G (rnRegistry s)" "superstep L R s w = (p, w')"
  shows "conforms L G (rnRegistry (phase_run p))"
  using assms(2,3)
  by (auto simp: superstep_def Let_def split: option.splits prod.splits sum.splits if_splits
      intro: execute_step_conforms[OF assms(1,2)] finish_run_conforms[OF runtime_okD[OF assms(1)] assms(2)])

lemma run_step_conforms:
  assumes "runtime_ok R" "run_step L R q q'" "conforms L G (rnRegistry (phase_run (fst q)))"
  shows "conforms L G (rnRegistry (phase_run (fst q')))"
  using assms(2,3)
proof cases
  case (step s w)
  with assms(3) superstep_conforms[OF assms(1), of L G s w "fst q'" "snd q'"] show ?thesis by simp
next
  case (save i p w s' w')
  then have "rnRegistry s' = rnRegistry (phase_run p)" by (auto simp: async_save_def Let_def)
  with save assms(3) show ?thesis by simp
qed

lemma fold_register:
  "distinct (map fst es) \<Longrightarrow> fmlookup (fold (\<lambda>(n, c) r. rg_Register r n (f c)) es r) k =
     (case map_of es k of Some c \<Rightarrow> Some (f c) | None \<Rightarrow> fmlookup r k)"
proof (induction es arbitrary: r)
  case (Cons e es)
  obtain n c where e: "e = (n, c)" by (cases e)
  from Cons.prems have "map_of es n = None" by (auto simp: e map_of_eq_None_iff)
  with Cons show ?case by (auto simp: e rg_Register_def split: option.splits)
qed simp

lemma copy_channels_map: "entries r es \<Longrightarrow> copy_channels L es = fmmap (ch_Copy L) r"
  by (rule fmap_ext)
    (auto simp: copy_channels_def fold_register entries_distinct NewRegistry_def entries_def fmlookup_of_list split: option.splits)

lemma copy_channels_conform: "entries r es \<Longrightarrow> conforms L (typing L r) (copy_channels L es)"
  by (rule copies_conform) (rule fmap_ext, auto simp: copy_channels_map typing_def ch_blank_Copy option.map_comp comp_def)

lemma restore_channels_conforms:
  "conforms L G r \<Longrightarrow> restore_channels L od r d = (err, r') \<Longrightarrow> conforms L G r'"
  using Restore_conforms[of L G r "ordInput od (fmfilter (\<lambda>k. rg_Get r k \<noteq> None) d)"]
  by (auto simp: restore_channels_def Let_def split: if_splits)

lemma start_run_conforms:
  assumes "runtime_ok R" "start_run L R e input w = (Inr s, w1)"
  shows "conforms L (typing L (sgChannels (egGraph e))) (rnRegistry s)"
proof -
  let ?G = "typing L (sgChannels (egGraph e))"
  obtain t w0 where t: "getThreadID R e w = (t, w0)" by fastforce
  define od where "od = rtOrders R w0"
  define e0 where "e0 = reset_engine e"
  have g: "egGraph e0 = egGraph e" by (simp add: e0_def reset_engine_def)
  let ?r = "copy_channels L (ordReg od (sgChannels (egGraph e)))"
  have r: "conforms L ?G ?r"
    using runtime_okD[OF assms(1)] by (intro copy_channels_conform) (auto simp: od_def orders_ok_def)
  obtain err r1 in1 where ai: "applyInput L od ?r input = (err, r1, in1)" by (metis prod_cases3)
  have r1: "conforms L ?G r1" by (rule applyInput_conforms[OF r ai])
  obtain res w2 where f: "fetch_checkpoint L e0 t w0 = (res, w2)" by fastforce
  note st = assms(2)[unfolded start_run_def t prod.case Let_def, folded e0_def od_def, unfolded g ai prod.case]
  from st f consider d where "res = Inr (Some d)" "start_resumed L R e0 r1 t d w2 = (Inr s, w1)"
    | "res = Inr None" "start_fresh L R e0 r1 t in1 w2 = (Inr s, w1)"
    by (auto split: option.splits sum.splits)
  then show ?thesis
  proof cases
    case 1
    then show ?thesis
      by (auto simp: start_resumed_def Let_def split: option.splits prod.splits intro: restore_channels_conforms[OF r1])
  next
    case 2
    then show ?thesis
      by (auto simp: start_fresh_def split: option.splits prod.splits intro: applyInput_conforms[OF r1])
  qed
qed


definition typed_engine :: "unit engine" where
  "typed_engine = NewEngine ((NewStateGraph SchemaNil)\<lparr>
     sgChannels := fmupd ''n'' (ChBinop (NewBinaryOperatorAggregate demo_lib (VInt 0) (IntAdd demo_lib))) fmempty,
     sgNodes := fmupd ''a'' (demo_node ''a'') fmempty, sgEntryPoint := ''a''\<rparr>) []"


end
