(* ===== verification/Runnable.thy ===== *)
theory Runnable
  imports Retry
begin

text \<open>
  Runnables (\<^verbatim>\<open>runnable/runnable.go\<close>): functions, sequences, parallel maps and transformed runnables behind one
  interface, the builder, and functions of any signature turned into runnables. A runnable acts on a
  world; a panic of a goroutine, which ends the program, is the result \<open>Panicked\<close>.
\<close>

section \<open>The interface\<close>

type_synonym 'w call = "gval \<Rightarrow> 'w \<Rightarrow> called \<times> 'w"

text \<open>What a batch returns, or a panic: an output and an error for each input.\<close>

type_synonym batch_result = "gval + gval list \<times> gerr option list"

text \<open>What is sent on a stream: outputs, or an error wrapped in \<^verbatim>\<open>StreamError\<close>.\<close>

datatype stream_item = Item gval | StreamError gerr

type_synonym stream_result = "gval + stream_item list"

record runnable_schema =
  rsInput :: string
  rsOutput :: string
  rsName :: string
  rsDescription :: string

record 'w runnable =
  raInvoke :: "'w call"
  raBatch :: "gval list \<Rightarrow> 'w \<Rightarrow> batch_result \<times> 'w"
  raStream :: "gval \<Rightarrow> 'w \<Rightarrow> stream_result \<times> 'w"
  raSchema :: runnable_schema

section \<open>Functions\<close>

record 'w runnable_func =
  rfFn :: "'w call"
  rfSchema :: runnable_schema
  rfBatchFn :: "(gval list \<Rightarrow> 'w \<Rightarrow> batch_result \<times> 'w) option"
  rfStreamFn :: "(gval \<Rightarrow> 'w \<Rightarrow> stream_result \<times> 'w) option"

text \<open>\<open>tin\<close> and \<open>tout\<close> are the printed types of the zero values: \<open><nil>\<close> for interfaces.\<close>

definition NewRunnableFunc ::
  "string \<Rightarrow> string \<Rightarrow> 'w call \<Rightarrow> ('w runnable_func \<Rightarrow> 'w runnable_func) list \<Rightarrow> 'w runnable_func"
where
  "NewRunnableFunc tin tout fn opts = fold (\<lambda>opt r. opt r) opts
     \<lparr>rfFn = fn, rfSchema = \<lparr>rsInput = tin, rsOutput = tout, rsName = [], rsDescription = []\<rparr>,
      rfBatchFn = None, rfStreamFn = None\<rparr>"

definition ro_WithName :: "string \<Rightarrow> 'w runnable_func \<Rightarrow> 'w runnable_func" where
  "ro_WithName n r = r\<lparr>rfSchema := (rfSchema r)\<lparr>rsName := n\<rparr>\<rparr>"

definition ro_WithDescription :: "string \<Rightarrow> 'w runnable_func \<Rightarrow> 'w runnable_func" where
  "ro_WithDescription d r = r\<lparr>rfSchema := (rfSchema r)\<lparr>rsDescription := d\<rparr>\<rparr>"

definition ro_WithBatchFn ::
  "(gval list \<Rightarrow> 'w \<Rightarrow> batch_result \<times> 'w) option \<Rightarrow> 'w runnable_func \<Rightarrow> 'w runnable_func" where
  "ro_WithBatchFn f r = r\<lparr>rfBatchFn := f\<rparr>"

definition ro_WithStreamFn ::
  "(gval \<Rightarrow> 'w \<Rightarrow> stream_result \<times> 'w) option \<Rightarrow> 'w runnable_func \<Rightarrow> 'w runnable_func" where
  "ro_WithStreamFn f r = r\<lparr>rfStreamFn := f\<rparr>"

text \<open>The loop all batches run: one input after the other, errors kept beside the outputs.\<close>

fun batch_inputs :: "'w call \<Rightarrow> gval list \<Rightarrow> 'w \<Rightarrow> batch_result \<times> 'w" where
  "batch_inputs f [] w = (Inr ([], []), w)"
| "batch_inputs f (x # xs) w = (case f x w of
     (Panicked p, w1) \<Rightarrow> (Inl p, w1)
   | (Returned out err, w1) \<Rightarrow> (case batch_inputs f xs w1 of
       (Inl p, w2) \<Rightarrow> (Inl p, w2)
     | (Inr (outs, errs), w2) \<Rightarrow> (Inr (out # outs, err # errs), w2)))"

definition rf_Invoke :: "'w runnable_func \<Rightarrow> 'w call" where
  "rf_Invoke r input w = rfFn r input w"

definition rf_Batch :: "'w runnable_func \<Rightarrow> gval list \<Rightarrow> 'w \<Rightarrow> batch_result \<times> 'w" where
  "rf_Batch r inputs w = (case rfBatchFn r of Some f \<Rightarrow> f inputs w | None \<Rightarrow> batch_inputs (rf_Invoke r) inputs w)"

text \<open>Without a function of its own, a stream sends the output; an error is dropped.\<close>

definition rf_Stream :: "'w runnable_func \<Rightarrow> gval \<Rightarrow> 'w \<Rightarrow> stream_result \<times> 'w" where
  "rf_Stream r input w = (case rfStreamFn r of Some f \<Rightarrow> f input w
   | None \<Rightarrow> (case rf_Invoke r input w of
       (Panicked p, w1) \<Rightarrow> (Inl p, w1)
     | (Returned out err, w1) \<Rightarrow> (Inr (if err = None then [Item out] else []), w1)))"

definition func_runnable :: "'w runnable_func \<Rightarrow> 'w runnable" where
  "func_runnable r = \<lparr>raInvoke = rf_Invoke r, raBatch = rf_Batch r, raStream = rf_Stream r, raSchema = rfSchema r\<rparr>"

text \<open>The streams of the other kinds send the error.\<close>

definition stream_one :: "'w call \<Rightarrow> gval \<Rightarrow> 'w \<Rightarrow> stream_result \<times> 'w" where
  "stream_one f input w = (case f input w of
     (Panicked p, w1) \<Rightarrow> (Inl p, w1)
   | (Returned out (Some e), w1) \<Rightarrow> (Inr [StreamError e], w1)
   | (Returned out None, w1) \<Rightarrow> (Inr [Item out], w1))"

section \<open>Sequences\<close>

record 'w runnable_seq =
  sqRunnables :: "'w runnable list"
  sqSchema :: runnable_schema

fun seq_types :: "'w runnable list \<Rightarrow> gerr option" where
  "seq_types (r1 # r2 # rs) =
     (if rsOutput (raSchema r1) \<noteq> rsInput (raSchema r2)
      then Some (RunnableError (''type mismatch: '' @ rsOutput (raSchema r1) @ '' -> '' @ rsInput (raSchema r2)) [])
      else seq_types (r2 # rs))"
| "seq_types rs = None"

definition NewRunnableSeq :: "'w runnable list \<Rightarrow> gerr + 'w runnable_seq" where
  "NewRunnableSeq rs =
     (if length rs = 0 then Inl (RunnableError ''at least one runnable is required'' [])
      else case seq_types rs of Some e \<Rightarrow> Inl e
      | None \<Rightarrow> Inr \<lparr>sqRunnables = rs, sqSchema = \<lparr>rsInput = rsInput (raSchema (hd rs)),
          rsOutput = rsOutput (raSchema (last rs)), rsName = ''sequence'', rsDescription = []\<rparr>\<rparr>)"

fun seq_loop :: "'w runnable list \<Rightarrow> 'w call" where
  "seq_loop [] current w = (Returned current None, w)"
| "seq_loop (r # rs) current w = (case raInvoke r current w of
     (Panicked p, w1) \<Rightarrow> (Panicked p, w1)
   | (Returned out (Some e), w1) \<Rightarrow> (Returned VNil (Some e), w1)
   | (Returned out None, w1) \<Rightarrow> seq_loop rs out w1)"

definition sq_Invoke :: "'w runnable_seq \<Rightarrow> 'w call" where
  "sq_Invoke s input w = seq_loop (sqRunnables s) input w"

definition sq_Batch :: "'w runnable_seq \<Rightarrow> gval list \<Rightarrow> 'w \<Rightarrow> batch_result \<times> 'w" where
  "sq_Batch s inputs w = batch_inputs (sq_Invoke s) inputs w"

definition sq_Stream :: "'w runnable_seq \<Rightarrow> gval \<Rightarrow> 'w \<Rightarrow> stream_result \<times> 'w" where
  "sq_Stream s input w = stream_one (sq_Invoke s) input w"

definition seq_runnable :: "'w runnable_seq \<Rightarrow> 'w runnable" where
  "seq_runnable s = \<lparr>raInvoke = sq_Invoke s, raBatch = sq_Batch s, raStream = sq_Stream s, raSchema = sqSchema s\<rparr>"

section \<open>Parallel maps\<close>

record 'w runnable_parallel =
  paRunnables :: "(string, 'w runnable) fmap"
  paSchema :: runnable_schema

definition NewRunnableParallel :: "(string, 'w runnable) fmap \<Rightarrow> 'w runnable_parallel" where
  "NewRunnableParallel m = \<lparr>paRunnables = m, paSchema = \<lparr>rsInput = ''map'', rsOutput = ''map'', rsName = ''parallel'',
     rsDescription = []\<rparr>\<rparr>"

text \<open>
  The goroutines in the order in which they send their results. A call is one step; those that send
  after an error was received run on, in this model before the caller goes on.
\<close>

fun par_run :: "(string \<times> 'w runnable) list \<Rightarrow> gval \<Rightarrow> 'w \<Rightarrow> (gval + (string \<times> gval \<times> gerr option) list) \<times> 'w" where
  "par_run [] input w = (Inr [], w)"
| "par_run ((n, r) # rs) input w = (case raInvoke r input w of
     (Panicked p, w1) \<Rightarrow> (Inl p, w1)
   | (Returned out err, w1) \<Rightarrow> (case par_run rs input w1 of
       (Inl p, w2) \<Rightarrow> (Inl p, w2)
     | (Inr res, w2) \<Rightarrow> (Inr ((n, out, err) # res), w2)))"

fun par_collect :: "(string \<times> gval \<times> gerr option) list \<Rightarrow> gmap \<Rightarrow> gerr + gmap" where
  "par_collect [] outputs = Inr outputs"
| "par_collect ((n, out, err) # rs) outputs = (case err of
     Some e \<Rightarrow> Inl e
   | None \<Rightarrow> par_collect rs (fmupd n out outputs))"

text \<open>\<open>sched\<close> gives the order, which may depend on the world.\<close>

type_synonym 'w schedule = "(string, 'w runnable) fmap \<Rightarrow> 'w \<Rightarrow> (string \<times> 'w runnable) list"

definition pa_Invoke :: "'w schedule \<Rightarrow> 'w runnable_parallel \<Rightarrow> 'w call" where
  "pa_Invoke sched p input w = (case par_run (sched (paRunnables p) w) input w of
     (Inl v, w1) \<Rightarrow> (Panicked v, w1)
   | (Inr res, w1) \<Rightarrow> (case par_collect res fmempty of
       Inl e \<Rightarrow> (Returned VNil (Some e), w1)
     | Inr outputs \<Rightarrow> (Returned (VMap outputs) None, w1)))"

definition pa_Batch :: "'w schedule \<Rightarrow> 'w runnable_parallel \<Rightarrow> gval list \<Rightarrow> 'w \<Rightarrow> batch_result \<times> 'w" where
  "pa_Batch sched p inputs w = batch_inputs (pa_Invoke sched p) inputs w"

definition pa_Stream :: "'w schedule \<Rightarrow> 'w runnable_parallel \<Rightarrow> gval \<Rightarrow> 'w \<Rightarrow> stream_result \<times> 'w" where
  "pa_Stream sched p input w = stream_one (pa_Invoke sched p) input w"

definition parallel_runnable :: "'w schedule \<Rightarrow> 'w runnable_parallel \<Rightarrow> 'w runnable" where
  "parallel_runnable sched p = \<lparr>raInvoke = pa_Invoke sched p, raBatch = pa_Batch sched p, raStream = pa_Stream sched p,
     raSchema = paSchema p\<rparr>"

section \<open>Transformed runnables\<close>

record 'w runnable_map =
  rmInput :: "'w call option"
  rmOutput :: "'w call option"
  rmBase :: "'w runnable"
  rmSchema :: runnable_schema

definition NewRunnableMap :: "'w runnable \<Rightarrow> 'w call option \<Rightarrow> 'w call option \<Rightarrow> 'w runnable_map" where
  "NewRunnableMap base inp out = \<lparr>rmInput = inp, rmOutput = out, rmBase = base,
     rmSchema = \<lparr>rsInput = [], rsOutput = [], rsName = ''map'', rsDescription = []\<rparr>\<rparr>"

definition transformed :: "'w call option \<Rightarrow> 'w call" where
  "transformed f v w = (case f of None \<Rightarrow> (Returned v None, w)
   | Some g \<Rightarrow> (case g v w of
       (Panicked p, w1) \<Rightarrow> (Panicked p, w1)
     | (Returned out (Some e), w1) \<Rightarrow> (Returned VNil (Some e), w1)
     | (Returned out None, w1) \<Rightarrow> (Returned out None, w1)))"

definition rm_Invoke :: "'w runnable_map \<Rightarrow> 'w call" where
  "rm_Invoke m input w = (case transformed (rmInput m) input w of
     (Returned x None, w1) \<Rightarrow> (case raInvoke (rmBase m) x w1 of
         (Panicked p, w2) \<Rightarrow> (Panicked p, w2)
       | (Returned out (Some e), w2) \<Rightarrow> (Returned VNil (Some e), w2)
       | (Returned out None, w2) \<Rightarrow> transformed (rmOutput m) out w2)
   | (failed, w1) \<Rightarrow> (failed, w1))"

definition rm_Batch :: "'w runnable_map \<Rightarrow> gval list \<Rightarrow> 'w \<Rightarrow> batch_result \<times> 'w" where
  "rm_Batch m inputs w = batch_inputs (rm_Invoke m) inputs w"

definition rm_Stream :: "'w runnable_map \<Rightarrow> gval \<Rightarrow> 'w \<Rightarrow> stream_result \<times> 'w" where
  "rm_Stream m input w = stream_one (rm_Invoke m) input w"

definition map_runnable :: "'w runnable_map \<Rightarrow> 'w runnable" where
  "map_runnable m = \<lparr>raInvoke = rm_Invoke m, raBatch = rm_Batch m, raStream = rm_Stream m, raSchema = rmSchema m\<rparr>"

section \<open>Builder\<close>

record 'w runnable_builder =
  rbRunnable :: "'w runnable"

definition NewRunnableBuilder :: "'w runnable \<Rightarrow> 'w runnable_builder" where
  "NewRunnableBuilder r = \<lparr>rbRunnable = r\<rparr>"

definition rb_Then :: "'w runnable_builder \<Rightarrow> 'w runnable \<Rightarrow> gerr + 'w runnable_builder" where
  "rb_Then b r = (case NewRunnableSeq [rbRunnable b, r] of
     Inl e \<Rightarrow> Inl e | Inr s \<Rightarrow> Inr \<lparr>rbRunnable = seq_runnable s\<rparr>)"

definition rb_Map :: "'w runnable_builder \<Rightarrow> 'w call option \<Rightarrow> 'w call option \<Rightarrow> 'w runnable_builder" where
  "rb_Map b inp out = b\<lparr>rbRunnable := map_runnable (NewRunnableMap (rbRunnable b) inp out)\<rparr>"

definition rb_Build :: "'w runnable_builder \<Rightarrow> 'w runnable" where
  "rb_Build b = rbRunnable b"

definition Pipe :: "'w runnable list \<Rightarrow> gerr + 'w runnable" where
  "Pipe rs = map_sum id seq_runnable (NewRunnableSeq rs)"

definition MapValue :: "(gval \<Rightarrow> gval) \<Rightarrow> 'w call" where
  "MapValue f v w = (Returned (f v) None, w)"

definition InvokeCompat :: "'w runnable \<Rightarrow> 'w call" where
  "InvokeCompat r input w = raInvoke r input w"

section \<open>Values turned into runnables\<close>

text \<open>
  A function as reflection sees it: its parameters, the number of its results, and a call. A result is an
  error or any other value, a nil interface being \<open>VNil\<close>. Variadic functions are left out.
\<close>

datatype param = ParamCtx | ParamType string
datatype arg = ArgCtx | ArgVal gval
datatype go_result = ResVal gval | ResErr gerr

record 'w go_func =
  gfIn :: "param list"
  gfNumOut :: nat
  gfCall :: "arg list \<Rightarrow> 'w \<Rightarrow> (gval + go_result list) \<times> 'w"

datatype 'w coercible = CoRunnable "'w runnable" | CoFunc "'w go_func" | CoNil | CoOther gval

text \<open>An argument for the input: assigned, converted, or the zero value of its type.\<close>

definition input_arg :: "golib \<Rightarrow> string \<Rightarrow> gval \<Rightarrow> gval" where
  "input_arg L t input = (if input = VNil then field_zero L t
     else case field_convert L t input of Some v \<Rightarrow> v | None \<Rightarrow> field_zero L t)"

text \<open>A parameter of type context that is not the first one gets a zero value too.\<close>

fun zero_args :: "golib \<Rightarrow> param list \<Rightarrow> arg list" where
  "zero_args L [] = []"
| "zero_args L (ParamCtx # ps) = ArgVal VNil # zero_args L ps"
| "zero_args L (ParamType t # ps) = ArgVal (field_zero L t) # zero_args L ps"

definition after_context :: "golib \<Rightarrow> param list \<Rightarrow> gval \<Rightarrow> arg list" where
  "after_context L ps input = (case ps of [] \<Rightarrow> []
     | ParamType t # qs \<Rightarrow> ArgVal (input_arg L t input) # zero_args L qs
     | ParamCtx # qs \<Rightarrow> ArgVal VNil # zero_args L qs)"

definition coerced_args :: "golib \<Rightarrow> param list \<Rightarrow> gval \<Rightarrow> arg list" where
  "coerced_args L ps input = (case ps of
     ParamCtx # qs \<Rightarrow> ArgCtx # after_context L qs input
   | _ \<Rightarrow> after_context L ps input)"

definition result_value :: "go_result \<Rightarrow> gval" where
  "result_value r = (case r of ResVal v \<Rightarrow> v | ResErr e \<Rightarrow> VOther ''error'' 0)"

definition coerced_results :: "nat \<Rightarrow> go_result list \<Rightarrow> gval \<times> gerr option" where
  "coerced_results n rs =
     (if n = 0 then (VNil, None)
      else if n = 1 then (case rs ! 0 of ResErr e \<Rightarrow> (VNil, Some e) | ResVal v \<Rightarrow> (v, None))
      else if n = 2 then
        (case rs ! 1 of
           ResErr e \<Rightarrow> (result_value (rs ! 0), Some e)
         | ResVal v \<Rightarrow> (if v = VNil then (result_value (rs ! 0), None)
             else (VNil, Some (ErrorString (''expected error, got '' @ type_name v)))))
      else (VNil, Some (RunnableError (''unsupported number of return values: '' @ show_nat n) [])))"

definition coerceFuncToRunnable :: "golib \<Rightarrow> 'w go_func \<Rightarrow> 'w runnable" where
  "coerceFuncToRunnable L f = func_runnable (NewRunnableFunc ''<nil>'' ''<nil>''
     (\<lambda>input w. case gfCall f (coerced_args L (gfIn f) input) w of
        (Inl p, w1) \<Rightarrow> (Panicked p, w1)
      | (Inr rs, w1) \<Rightarrow> (case coerced_results (gfNumOut f) rs of (out, err) \<Rightarrow> (Returned out err, w1))) [])"

definition CoerceToRunnable :: "golib \<Rightarrow> 'w coercible \<Rightarrow> gerr + 'w runnable" where
  "CoerceToRunnable L v = (case v of
     CoRunnable r \<Rightarrow> Inr r
   | CoNil \<Rightarrow> Inl (RunnableError ''cannot coerce nil to Runnable'' [])
   | CoFunc f \<Rightarrow> Inr (coerceFuncToRunnable L f)
   | CoOther x \<Rightarrow> Inl (RunnableError (''cannot coerce '' @ type_name x @ '' to Runnable'') []))"

section \<open>The contract of runnables\<close>

text \<open>A batch is the calls one after the other, a stream the result of a call.\<close>

locale runnable_laws =
  fixes invoke :: "'w call"
    and batch :: "gval list \<Rightarrow> 'w \<Rightarrow> batch_result \<times> 'w"
    and stream :: "gval \<Rightarrow> 'w \<Rightarrow> stream_result \<times> 'w"
  assumes batch_none: "batch [] w = (Inr ([], []), w)"
    and batch_some: "batch (x # xs) w = (case invoke x w of
      (Panicked p, w1) \<Rightarrow> (Inl p, w1)
    | (Returned out err, w1) \<Rightarrow> (case batch xs w1 of
        (Inl p, w2) \<Rightarrow> (Inl p, w2)
      | (Inr (outs, errs), w2) \<Rightarrow> (Inr (out # outs, err # errs), w2)))"
    and stream_panic: "invoke x w = (Panicked p, w1) \<Longrightarrow> stream x w = (Inl p, w1)"
    and stream_output: "invoke x w = (Returned out None, w1) \<Longrightarrow> stream x w = (Inr [Item out], w1)"
begin

lemma batch_lengths: "batch xs w = (Inr (outs, errs), w1) \<Longrightarrow> length outs = length xs \<and> length errs = length xs"
proof (induction xs arbitrary: w outs errs w1)
  case Nil
  then show ?case by (simp add: batch_none)
next
  case (Cons x xs)
  from Cons.prems Cons.IH show ?case
    by (fastforce simp: batch_some split: prod.splits called.splits sum.splits)
qed

lemma batch_append:
  "batch (xs @ ys) w = (case batch xs w of
     (Inl p, w1) \<Rightarrow> (Inl p, w1)
   | (Inr (outs, errs), w1) \<Rightarrow> (case batch ys w1 of
       (Inl p, w2) \<Rightarrow> (Inl p, w2)
     | (Inr (outs', errs'), w2) \<Rightarrow> (Inr (outs @ outs', errs @ errs'), w2)))"
proof (induction xs arbitrary: w)
  case Nil
  show ?case by (auto simp: batch_none split: prod.splits sum.splits)
next
  case (Cons x xs)
  show ?case by (auto simp: batch_some Cons.IH split: prod.splits sum.splits called.splits)
qed

text \<open>If no call panics, the batch of inputs the world does not matter for is a map.\<close>

lemma batch_map:
  "(\<And>x w. x \<in> set xs \<Longrightarrow> invoke x w = (Returned (f x) (g x), w)) \<Longrightarrow> batch xs w = (Inr (map f xs, map g xs), w)"
  by (induction xs) (simp_all add: batch_none batch_some)

end

interpretation fn: runnable_laws "rf_Invoke (r\<lparr>rfBatchFn := None, rfStreamFn := None\<rparr>)"
    "rf_Batch (r\<lparr>rfBatchFn := None, rfStreamFn := None\<rparr>)" "rf_Stream (r\<lparr>rfBatchFn := None, rfStreamFn := None\<rparr>)" for r
  by unfold_locales (auto simp: rf_Batch_def rf_Stream_def split: prod.splits called.splits)

interpretation sequence: runnable_laws "sq_Invoke s" "sq_Batch s" "sq_Stream s" for s
  by (unfold_locales; unfold sq_Batch_def sq_Stream_def stream_one_def; simp)

interpretation parallel: runnable_laws "pa_Invoke sched p" "pa_Batch sched p" "pa_Stream sched p" for sched p
  by (unfold_locales; unfold pa_Batch_def pa_Stream_def stream_one_def; simp)

interpretation mapped: runnable_laws "rm_Invoke m" "rm_Batch m" "rm_Stream m" for m
  by (unfold_locales; unfold rm_Batch_def rm_Stream_def stream_one_def; simp)

section \<open>Composition\<close>

text \<open>One call after another, as a sequence makes them.\<close>

definition after_call :: "'w call \<Rightarrow> 'w call \<Rightarrow> 'w call" where
  "after_call f g x w = (case f x w of
     (Panicked p, w1) \<Rightarrow> (Panicked p, w1)
   | (Returned out (Some e), w1) \<Rightarrow> (Returned VNil (Some e), w1)
   | (Returned out None, w1) \<Rightarrow> g out w1)"

definition pass :: "'w call" where
  "pass x w = (Returned x None, w)"

lemma seq_loop_Cons: "seq_loop (r # rs) = after_call (raInvoke r) (seq_loop rs)"
  by (rule ext)+ (simp add: after_call_def)

lemma after_pass [simp]: "after_call pass f = f"
  by (rule ext)+ (simp add: after_call_def pass_def)

lemma after_assoc: "after_call (after_call f g) h = after_call f (after_call g h)"
  by (rule ext)+ (auto simp: after_call_def split: prod.splits called.splits option.splits)

lemma seq_loop_Nil: "seq_loop [] = pass"
  by (rule ext)+ (simp add: pass_def)

lemma seq_loop_append: "seq_loop (rs @ qs) = after_call (seq_loop rs) (seq_loop qs)"
  by (induction rs) (simp_all only: append.simps seq_loop_Nil seq_loop_Cons after_pass after_assoc)

lemma seq_loop_fold: "seq_loop rs = foldr after_call (map raInvoke rs) pass"
  by (induction rs) (simp_all only: seq_loop_Nil seq_loop_Cons list.map foldr.simps comp_apply id_apply)

lemma seq_types_iff:
  "seq_types rs = None \<longleftrightarrow> successively (\<lambda>r q. rsOutput (raSchema r) = rsInput (raSchema q)) rs"
  by (induction rs rule: seq_types.induct) auto

lemma NewRunnableSeq_Inr:
  "NewRunnableSeq rs = Inr s \<longleftrightarrow> rs \<noteq> [] \<and> seq_types rs = None \<and>
     s = \<lparr>sqRunnables = rs, sqSchema = \<lparr>rsInput = rsInput (raSchema (hd rs)),
       rsOutput = rsOutput (raSchema (last rs)), rsName = ''sequence'', rsDescription = []\<rparr>\<rparr>"
  by (auto simp: NewRunnableSeq_def split: option.splits)

lemma raInvoke_seq: "raInvoke (seq_runnable s) = seq_loop (sqRunnables s)"
  by (rule ext)+ (simp add: seq_runnable_def sq_Invoke_def)

text \<open>C29: A sequence is the composition of its runnables, which stops at the first error, and grouping does not
  matter: a sequence of two sequences can be built exactly when the sequence of all their runnables
  can, and makes the same calls, batches and streams.\<close>

theorem sequences_compose:
  assumes "NewRunnableSeq rs = Inr s" "NewRunnableSeq qs = Inr t"
  shows "raInvoke (seq_runnable s) = foldr after_call (map raInvoke rs) pass \<and>
    map_sum (\<lambda>_. ()) seq_runnable (NewRunnableSeq [seq_runnable s, seq_runnable t]) =
      map_sum (\<lambda>_. ()) seq_runnable (NewRunnableSeq (rs @ qs))"
proof
  show "raInvoke (seq_runnable s) = foldr after_call (map raInvoke rs) pass"
    using assms(1) by (simp add: NewRunnableSeq_Inr raInvoke_seq seq_loop_fold)
  from assms have ne: "rs \<noteq> []" "qs \<noteq> []" and ok: "seq_types rs = None" "seq_types qs = None"
    and sch: "rsInput (raSchema (seq_runnable s)) = rsInput (raSchema (hd rs))"
      "rsOutput (raSchema (seq_runnable s)) = rsOutput (raSchema (last rs))"
      "rsInput (raSchema (seq_runnable t)) = rsInput (raSchema (hd qs))"
      "rsOutput (raSchema (seq_runnable t)) = rsOutput (raSchema (last qs))"
      "sqRunnables s = rs" "sqRunnables t = qs"
    by (auto simp: NewRunnableSeq_Inr seq_runnable_def)
  have iff: "seq_types (rs @ qs) = None \<longleftrightarrow> rsOutput (raSchema (last rs)) = rsInput (raSchema (hd qs))"
    using ok ne by (simp add: seq_types_iff successively_append_iff)
  have inv: "seq_loop [seq_runnable s, seq_runnable t] = seq_loop (rs @ qs)"
    by (simp only: seq_loop_Cons seq_loop_Nil seq_loop_append raInvoke_seq sch)
      (simp only: seq_loop_Nil[symmetric] seq_loop_append[symmetric] append_Nil2)
  then have calls: "sq_Invoke \<lparr>sqRunnables = [seq_runnable s, seq_runnable t], sqSchema = c\<rparr> =
      sq_Invoke \<lparr>sqRunnables = rs @ qs, sqSchema = c\<rparr>" for c
    by (intro ext) (simp only: sq_Invoke_def runnable_seq.simps)
  have same: "seq_runnable \<lparr>sqRunnables = [seq_runnable s, seq_runnable t], sqSchema = c\<rparr> =
      seq_runnable \<lparr>sqRunnables = rs @ qs, sqSchema = c\<rparr>" for c
    unfolding seq_runnable_def[of "\<lparr>sqRunnables = rs @ qs, sqSchema = c\<rparr>"]
      seq_runnable_def[of "\<lparr>sqRunnables = [seq_runnable s, seq_runnable t], sqSchema = c\<rparr>"] sq_Batch_def sq_Stream_def calls
    by simp
  show "map_sum (\<lambda>_. ()) seq_runnable (NewRunnableSeq [seq_runnable s, seq_runnable t]) =
      map_sum (\<lambda>_. ()) seq_runnable (NewRunnableSeq (rs @ qs))"
  proof (cases "rsOutput (raSchema (last rs)) = rsInput (raSchema (hd qs))")
    case True
    with iff have "seq_types (rs @ qs) = None" by simp
    with True ne show ?thesis by (simp add: NewRunnableSeq_def sch same)
  next
    case False
    with iff obtain e where "seq_types (rs @ qs) = Some e" by auto
    with False ne show ?thesis by (simp add: NewRunnableSeq_def sch)
  qed
qed

definition demo_step :: "gval \<Rightarrow> unit runnable" where
  "demo_step v = func_runnable (NewRunnableFunc ''<nil>'' ''<nil>'' (MapValue (\<lambda>_. v)) [])"

lemma sequences_compose_witness:
  "\<exists>s t u. NewRunnableSeq [demo_step (VInt 1)] = Inr s \<and> NewRunnableSeq [demo_step (VInt 2)] = Inr t \<and>
     NewRunnableSeq [seq_runnable s, seq_runnable t] = Inr u \<and> raInvoke (seq_runnable u) VNil () = (Returned (VInt 2) None, ())"
proof -
  obtain s t where st: "NewRunnableSeq [demo_step (VInt 1)] = Inr s" "NewRunnableSeq [demo_step (VInt 2)] = Inr t"
    by (simp add: NewRunnableSeq_def)
  have "NewRunnableSeq ([demo_step (VInt 1)] @ [demo_step (VInt 2)]) \<noteq> Inl e" for e
    by (simp add: NewRunnableSeq_def demo_step_def func_runnable_def NewRunnableFunc_def)
  then obtain v where v: "NewRunnableSeq ([demo_step (VInt 1)] @ [demo_step (VInt 2)]) = Inr v"
    by (cases "NewRunnableSeq ([demo_step (VInt 1)] @ [demo_step (VInt 2)])") auto
  with sequences_compose[OF st] obtain u where u: "NewRunnableSeq [seq_runnable s, seq_runnable t] = Inr u"
    "seq_runnable u = seq_runnable v"
    by (cases "NewRunnableSeq [seq_runnable s, seq_runnable t]") auto
  have "raInvoke (seq_runnable v) VNil () = (Returned (VInt 2) None, ())"
    using v unfolding raInvoke_seq NewRunnableSeq_Inr
    by (auto simp: demo_step_def func_runnable_def NewRunnableFunc_def rf_Invoke_def MapValue_def)
  with st u show ?thesis by auto
qed

section \<open>Properties\<close>

text \<open>Runnables of different kinds cannot be put in sequence: a function announces the type \<open><nil>\<close>, a parallel
  map \<open>map\<close>, a transformed runnable nothing, and a sequence wants them equal, so after the builder's
  \<open>Map\<close> no function can follow.\<close>

theorem mixed_sequences_fail:
  assumes "kinds = [coerceFuncToRunnable L f, parallel_runnable sched (NewRunnableParallel m), map_runnable (NewRunnableMap b i1 o1)]"
    and "i < 3" "j < 3" "i \<noteq> j"
  shows "(\<exists>msg. NewRunnableSeq [kinds ! i, kinds ! j] = Inl (RunnableError msg [])) \<and>
    (\<exists>msg. rb_Then (rb_Map (NewRunnableBuilder r) i1 o1) (coerceFuncToRunnable L f) = Inl (RunnableError msg []))"
proof -
  have "i = 0 \<or> i = 1 \<or> i = 2" "j = 0 \<or> j = 1 \<or> j = 2" using assms(2,3) by linarith+
  with assms(4) show ?thesis
    by (auto simp: assms(1) NewRunnableSeq_def coerceFuncToRunnable_def func_runnable_def NewRunnableFunc_def
        parallel_runnable_def NewRunnableParallel_def map_runnable_def NewRunnableMap_def rb_Then_def rb_Map_def)
qed

definition demo_func :: "unit go_func" where
  "demo_func = \<lparr>gfIn = [ParamCtx, ParamType ''int''], gfNumOut = 2,
     gfCall = (\<lambda>as w. (Inr (case as of [ArgCtx, ArgVal v] \<Rightarrow> [ResVal v, ResVal VNil] | _ \<Rightarrow> [ResVal VNil, ResErr (ErrorString ''bad'')]), w))\<rparr>"

lemma mixed_sequences_fail_witness:
  "\<exists>msg. rb_Then (rb_Map (NewRunnableBuilder (coerceFuncToRunnable demo_lib demo_func)) None None)
     (coerceFuncToRunnable demo_lib demo_func) = Inl (RunnableError msg [])"
  using mixed_sequences_fail[OF refl, of 0 1 demo_lib demo_func "\<lambda>_ _. []" fmempty
      "coerceFuncToRunnable demo_lib demo_func" None None "coerceFuncToRunnable demo_lib demo_func"] by simp

lemma par_run_names: "par_run rs input w = (Inr res, w1) \<Longrightarrow> map fst res = map fst rs"
  by (induction rs input w arbitrary: res w1 rule: par_run.induct)
    (fastforce split: prod.splits called.splits sum.splits)+

lemma par_collect_ok:
  "\<forall>(n, out, err) \<in> set res. err = None \<Longrightarrow> distinct (map fst res) \<Longrightarrow>
   \<exists>m'. par_collect res m = Inr m' \<and> (\<forall>n. fmlookup m' n = (case map_of res n of Some (out, err) \<Rightarrow> Some out | None \<Rightarrow> fmlookup m n))"
proof (induction res arbitrary: m)
  case (Cons r rs)
  obtain n out err where r: "r = (n, out, err)" by (cases r) auto
  from Cons.prems have new: "map_of rs n = None" by (auto simp: r map_of_eq_None_iff)
  from Cons.prems have "\<forall>(n, out, err) \<in> set rs. err = None" "distinct (map fst rs)" by auto
  from Cons.IH[OF this, of "fmupd n out m"] obtain m' where m': "par_collect rs (fmupd n out m) = Inr m'"
    "\<And>k. fmlookup m' k = (case map_of rs k of Some (out, err) \<Rightarrow> Some out | None \<Rightarrow> fmlookup (fmupd n out m) k)"
    by blast
  have "fmlookup m' k = (case map_of (r # rs) k of Some (out, err) \<Rightarrow> Some out | None \<Rightarrow> fmlookup m k)" for k
    using new by (cases "k = n") (simp_all add: m'(2) r split: option.split)
  with m'(1) Cons.prems show ?case by (simp add: r)
qed simp

lemma par_collect_error:
  "par_collect (pre @ (n, out, Some e) # post) m = Inl e" if "\<forall>(n, out, err) \<in> set pre. err = None"
  using that by (induction pre arbitrary: m) (auto split: option.splits)

text \<open>A parallel map calls each of its runnables once with the same input, in any order. If none fails, its
  output holds the output of each under its name; otherwise it returns the error that arrives first,
  while the calls that have not answered are made all the same.\<close>

theorem parallel_calls_all:
  assumes "entries (paRunnables p) (sched (paRunnables p) w)"
    and "par_run (sched (paRunnables p) w) input w = (Inr res, w1)"
  shows "map fst res = map fst (sched (paRunnables p) w) \<and> set (map fst res) = fmdom' (paRunnables p) \<and>
    (\<exists>out err. raInvoke (parallel_runnable sched p) input w = (Returned out err, w1) \<and>
      (err = None \<longrightarrow> (\<exists>outs. out = VMap outs \<and> fmdom' outs = fmdom' (paRunnables p) \<and>
         (\<forall>n v. fmlookup outs n = Some v \<longleftrightarrow> (n, v, None) \<in> set res))) \<and>
      (\<forall>e. err = Some e \<longrightarrow> (\<exists>pre n v post. res = pre @ (n, v, Some e) # post \<and> (\<forall>(m, u, er) \<in> set pre. er = None))))"
proof -
  have names: "map fst res = map fst (sched (paRunnables p) w)" by (rule par_run_names[OF assms(2)])
  then have dist: "distinct (map fst res)" using assms(1) by (simp add: entries_distinct)
  have keys: "set (map fst res) = fmdom' (paRunnables p)"
    unfolding names using entries_keys[OF assms(1)] by (auto simp: set_eq_iff)
  have inv: "raInvoke (parallel_runnable sched p) input w = (case par_collect res fmempty of
      Inl e \<Rightarrow> (Returned VNil (Some e), w1) | Inr outputs \<Rightarrow> (Returned (VMap outputs) None, w1))"
    using assms(2) by (simp add: parallel_runnable_def pa_Invoke_def)
  show ?thesis
  proof (cases "\<forall>(n, out, err) \<in> set res. err = None")
    case True
    from par_collect_ok[OF this dist, of fmempty] obtain m where m: "par_collect res fmempty = Inr m"
      "\<And>n. fmlookup m n = (case map_of res n of Some (out, err) \<Rightarrow> Some out | None \<Rightarrow> None)"
      unfolding fmempty_lookup by blast
    have look: "fmlookup m n = Some v \<longleftrightarrow> (n, v, None) \<in> set res" for n v
    proof -
      have "map_of res n = Some (v, None) \<longleftrightarrow> (n, v, None) \<in> set res" using dist by (simp add: map_of_eq_Some_iff)
      moreover have "map_of res n = Some (a, b) \<Longrightarrow> b = None" for a b using True by (auto dest: map_of_SomeD)
      ultimately show ?thesis by (fastforce simp: m(2) split: option.splits)
    qed
    have "fmdom' m = set (map fst res)"
    proof -
      have "n \<in> fmdom' m \<longleftrightarrow> n \<in> fst ` set res" for n
        using True by (force simp: fmlookup_dom'_iff look)
      then show ?thesis by auto
    qed
    then show ?thesis using names keys look m(1) by (auto simp: inv)
  next
    case False
    then have "\<exists>x \<in> set res. snd (snd x) \<noteq> None" by fastforce
    from split_list_first_prop[OF this] obtain pre x post where res: "res = pre @ x # post" "snd (snd x) \<noteq> None"
      "\<forall>y \<in> set pre. \<not> snd (snd y) \<noteq> None" by blast
    obtain n v e where x: "x = (n, v, Some e)" using res(2) by (cases x) auto
    have pre: "\<forall>(m, u, er) \<in> set pre. er = None" using res(3) by auto
    have "par_collect res fmempty = Inl e" unfolding res(1) x by (rule par_collect_error[OF pre])
    with names keys pre res(1) x show ?thesis unfolding inv by auto
  qed
qed

definition demo_parallel :: "unit runnable_parallel" where
  "demo_parallel = NewRunnableParallel (fmupd ''a'' (demo_step (VInt 1)) fmempty)"

definition demo_schedule :: "unit schedule" where
  "demo_schedule m w = sorted_list_of_fmap m"

lemma parallel_calls_all_witness:
  "\<exists>outs. raInvoke (parallel_runnable demo_schedule demo_parallel) VNil () = (Returned (VMap outs) None, ()) \<and>
     fmlookup outs ''a'' = Some (VInt 1)"
proof -
  have ent: "entries (paRunnables demo_parallel) (demo_schedule (paRunnables demo_parallel) ())"
    by (simp add: demo_schedule_def entries_sorted)
  then have "demo_schedule (paRunnables demo_parallel) () = [(''a'', demo_step (VInt 1))]"
    by (intro entries_single) (simp add: demo_parallel_def NewRunnableParallel_def)
  then have run: "par_run (demo_schedule (paRunnables demo_parallel) ()) VNil () = (Inr [(''a'', VInt 1, None)], ())"
    by (simp add: demo_step_def func_runnable_def NewRunnableFunc_def rf_Invoke_def MapValue_def)
  from parallel_calls_all[where sched = demo_schedule, OF ent run] obtain out err where
    r: "raInvoke (parallel_runnable demo_schedule demo_parallel) VNil () = (Returned out err, ())"
    and ok: "err = None \<longrightarrow> (\<exists>outs. out = VMap outs \<and> (\<forall>n v. fmlookup outs n = Some v \<longleftrightarrow> (n, v, None) \<in> set [(''a'', VInt 1, None :: gerr option)]))"
    and bad: "\<forall>e. err = Some e \<longrightarrow> (\<exists>pre n v post. [(''a'', VInt 1, None)] = pre @ (n, v, Some e) # post)" by blast
  have "err = None"
  proof (cases err)
    case (Some e)
    with bad obtain pre n v post where "[(''a'', VInt 1, None)] = pre @ (n, v, Some e) # post" by blast
    then have "(n, v, Some e) \<in> set [(''a'', VInt 1, None)]" by (metis in_set_conv_decomp)
    then show ?thesis by simp
  qed simp
  with r ok show ?thesis by auto
qed

text \<open>A function that fails leaves its stream empty, where the stream of a sequence of it alone sends the
  error.\<close>

theorem failed_streams:
  assumes "rfStreamFn r = None" "rf_Invoke r x w = (Returned out (Some e), w1)" "NewRunnableSeq [func_runnable r] = Inr s"
  shows "raStream (func_runnable r) x w = (Inr [], w1) \<and> raStream (seq_runnable s) x w = (Inr [StreamError e], w1)"
  using assms by (auto simp: func_runnable_def rf_Stream_def seq_runnable_def sq_Stream_def stream_one_def sq_Invoke_def NewRunnableSeq_Inr)

lemma failed_streams_witness:
  "\<exists>s. raStream (func_runnable (NewRunnableFunc [] [] (\<lambda>x w. (Returned VNil (Some (ErrorString ''bad'')), w)) [])) VNil () = (Inr [], ()) \<and>
     raStream (seq_runnable s) VNil () = (Inr [StreamError (ErrorString ''bad'')], ())"
  using failed_streams[of "NewRunnableFunc [] [] (\<lambda>x w. (Returned VNil (Some (ErrorString ''bad'')), w)) []" VNil "()" VNil "ErrorString ''bad''" "()"]
  by (auto simp: NewRunnableFunc_def rf_Invoke_def NewRunnableSeq_def)

text \<open>A call as a Go function of a context and an empty interface, with an output and an error.\<close>

definition reflected :: "'w call \<Rightarrow> 'w go_func" where
  "reflected g = \<lparr>gfIn = [ParamCtx, ParamType ''interface {}''], gfNumOut = 2,
     gfCall = (\<lambda>as w. case as of
        [ArgCtx, ArgVal v] \<Rightarrow> (case g v w of
            (Panicked p, w1) \<Rightarrow> (Inl p, w1)
          | (Returned out err, w1) \<Rightarrow> (Inr [ResVal out, case err of None \<Rightarrow> ResVal VNil | Some e \<Rightarrow> ResErr e], w1))
      | _ \<Rightarrow> (Inl VNil, w))\<rparr>"

text \<open>A function from a context and any value to a value and an error, turned into a runnable, is called with
  the input and answers what it answers; the runnable is used as it is when it is coerced again, and
  its batch is the calls one after the other.\<close>

theorem coerced_function:
  assumes "\<And>v. v \<noteq> VNil \<Longrightarrow> field_convert L ''interface {}'' v = Some v" "field_zero L ''interface {}'' = VNil"
  shows "\<exists>r. CoerceToRunnable L (CoFunc (reflected g)) = Inr r \<and> raInvoke r = g \<and>
    CoerceToRunnable L (CoRunnable r) = Inr r \<and>
    raBatch r (xs @ [x]) w = (case raBatch r xs w of
       (Inl p, w1) \<Rightarrow> (Inl p, w1)
     | (Inr (outs, errs), w1) \<Rightarrow> (case g x w1 of
         (Panicked p, w2) \<Rightarrow> (Inl p, w2)
       | (Returned out err, w2) \<Rightarrow> (Inr (outs @ [out], errs @ [err]), w2)))"
proof -
  let ?r = "coerceFuncToRunnable L (reflected g)"
  have arg: "input_arg L ''interface {}'' v = v" for v
    using assms by (cases "v = VNil") (simp_all add: input_arg_def)
  have inv: "raInvoke ?r = g"
    by (rule ext)+ (auto simp: coerceFuncToRunnable_def func_runnable_def NewRunnableFunc_def rf_Invoke_def reflected_def
        coerced_args_def after_context_def arg coerced_results_def result_value_def split: prod.splits called.splits option.splits)
  have bat: "raBatch ?r = batch_inputs (raInvoke ?r)"
    by (rule ext)+ (simp add: coerceFuncToRunnable_def func_runnable_def NewRunnableFunc_def rf_Batch_def)
  have app: "batch_inputs h (xs @ [x]) w = (case batch_inputs h xs w of
       (Inl p, w1) \<Rightarrow> (Inl p, w1)
     | (Inr (outs, errs), w1) \<Rightarrow> (case h x w1 of
         (Panicked p, w2) \<Rightarrow> (Inl p, w2)
       | (Returned out err, w2) \<Rightarrow> (Inr (outs @ [out], errs @ [err]), w2)))" for h
    by (induction xs arbitrary: w) (auto split: prod.splits called.splits sum.splits)
  show ?thesis
    by (rule exI[of _ ?r]) (simp add: CoerceToRunnable_def inv bat app del: batch_inputs.simps)
qed

lemma coerced_function_witness:
  "\<exists>r. CoerceToRunnable (demo_lib\<lparr>field_zero := \<lambda>t. VNil\<rparr>) (CoFunc (reflected (MapValue (\<lambda>v. VList [v])))) = Inr r \<and>
     raInvoke r (VInt 1) () = (Returned (VList [VInt 1]) None, ())"
  using coerced_function[of "demo_lib\<lparr>field_zero := \<lambda>t. VNil\<rparr>" "MapValue (\<lambda>v. VList [v])" "[]" VNil "()"]
  by (auto simp: demo_lib_def MapValue_def)

end
