(* ===== verification/Inject.thy ===== *)
theory Inject
  imports Runnable Config
begin

text \<open>
  Runnables with injected dependencies and tracing (\<^verbatim>\<open>runnable/inject.go\<close>): which argument each parameter of
  a function gets, the callbacks around a call, and the tracer. Callbacks act on the world.
\<close>

section \<open>Contexts and callbacks\<close>

record 'w callback =
  cbOnStart :: "string \<Rightarrow> gval \<Rightarrow> 'w \<Rightarrow> 'w"
  cbOnEnd :: "string \<Rightarrow> gval \<Rightarrow> gerr option \<Rightarrow> 'w \<Rightarrow> 'w"
  cbOnError :: "string \<Rightarrow> gerr \<Rightarrow> 'w \<Rightarrow> 'w"

record 'w callback_func =
  cfOnStartFunc :: "(string \<Rightarrow> gval \<Rightarrow> 'w \<Rightarrow> 'w) option"
  cfOnEndFunc :: "(string \<Rightarrow> gval \<Rightarrow> gerr option \<Rightarrow> 'w \<Rightarrow> 'w) option"
  cfOnErrorFunc :: "(string \<Rightarrow> gerr \<Rightarrow> 'w \<Rightarrow> 'w) option"

definition cf_OnStart :: "'w callback_func \<Rightarrow> string \<Rightarrow> gval \<Rightarrow> 'w \<Rightarrow> 'w" where
  "cf_OnStart c name input w = (case cfOnStartFunc c of Some f \<Rightarrow> f name input w | None \<Rightarrow> w)"

definition cf_OnEnd :: "'w callback_func \<Rightarrow> string \<Rightarrow> gval \<Rightarrow> gerr option \<Rightarrow> 'w \<Rightarrow> 'w" where
  "cf_OnEnd c name out err w = (case cfOnEndFunc c of Some f \<Rightarrow> f name out err w | None \<Rightarrow> w)"

definition cf_OnError :: "'w callback_func \<Rightarrow> string \<Rightarrow> gerr \<Rightarrow> 'w \<Rightarrow> 'w" where
  "cf_OnError c name err w = (case cfOnErrorFunc c of Some f \<Rightarrow> f name err w | None \<Rightarrow> w)"

definition func_callback :: "'w callback_func \<Rightarrow> 'w callback" where
  "func_callback c = \<lparr>cbOnStart = cf_OnStart c, cbOnEnd = cf_OnEnd c, cbOnError = cf_OnError c\<rparr>"

record 'w injection_context =
  inConfig :: "runnable_config option"
  inPrevious :: gval
  inRuntime :: "gmap option"
  inTracingEnabled :: bool
  inCallbacks :: "'w callback list"

definition empty_injection :: "'w injection_context" where
  "empty_injection = \<lparr>inConfig = None, inPrevious = VNil, inRuntime = None, inTracingEnabled = False, inCallbacks = []\<rparr>"

section \<open>Functions as reflection sees them\<close>

text \<open>What a parameter gets: the context, the configuration (perhaps a nil pointer), or a value.\<close>

datatype injected = InjContext | InjConfig "runnable_config option" | InjValue gval

datatype inj_param = PContext | PConfig | PType string

primrec param_type :: "inj_param \<Rightarrow> string" where
  "param_type PContext = ''context.Context''"
| "param_type PConfig = ''*types.RunnableConfig''"
| "param_type (PType t) = t"

text \<open>
  \<open>ifSingleError\<close>: a single result is declared as an error; \<open>ifNillable\<close>: the second result is declared as an
  interface or a pointer.
\<close>

record 'w inj_func =
  ifIn :: "inj_param list"
  ifSingleError :: bool
  ifNillable :: bool
  ifCall :: "injected list \<Rightarrow> 'w \<Rightarrow> (gval + go_result list) \<times> 'w"

datatype 'w inj_target = TargetFunc "'w inj_func" | TargetNil | TargetOther gval

record 'w param_injector =
  piInjectors :: "(string, 'w injection_context \<Rightarrow> injected) fmap"

definition NewParamInjector :: "'w param_injector" where
  "NewParamInjector = \<lparr>piInjectors = fmempty\<rparr>"

definition AddInjector ::
  "string \<Rightarrow> ('w injection_context \<Rightarrow> injected) \<Rightarrow> 'w param_injector \<Rightarrow> 'w param_injector" where
  "AddInjector name f p = p\<lparr>piInjectors := fmupd name f (piInjectors p)\<rparr>"

definition pi_Inject :: "'w injection_context \<Rightarrow> string \<Rightarrow> 'w param_injector \<Rightarrow> injected" where
  "pi_Inject c name p = (case fmlookup (piInjectors p) name of Some f \<Rightarrow> f c | None \<Rightarrow> InjValue VNil)"

record 'w injectable =
  irName :: string
  irFn :: "'w inj_target"
  irContext :: "'w injection_context option"
  irInjector :: "'w param_injector"
  irSchema :: runnable_schema

definition NewInjectableRunnable :: "string \<Rightarrow> 'w inj_target \<Rightarrow> 'w injectable" where
  "NewInjectableRunnable name fn = \<lparr>irName = name, irFn = fn, irContext = None, irInjector = NewParamInjector,
     irSchema = \<lparr>rsInput = [], rsOutput = [], rsName = name, rsDescription = []\<rparr>\<rparr>"

definition SetInjectionContext :: "'w injection_context option \<Rightarrow> 'w injectable \<Rightarrow> 'w injectable" where
  "SetInjectionContext c r = r\<lparr>irContext := c\<rparr>"

definition WithConfigInjector :: "'w injectable \<Rightarrow> 'w injectable" where
  "WithConfigInjector r = r\<lparr>irInjector := AddInjector ''config'' (\<lambda>c. InjConfig (inConfig c)) (irInjector r)\<rparr>"

definition WithPreviousInjector :: "'w injectable \<Rightarrow> 'w injectable" where
  "WithPreviousInjector r = r\<lparr>irInjector := AddInjector ''previous'' (\<lambda>c. InjValue (inPrevious c)) (irInjector r)\<rparr>"

definition WithRuntimeInjector :: "string \<Rightarrow> 'w injectable \<Rightarrow> 'w injectable" where
  "WithRuntimeInjector key r = r\<lparr>irInjector := AddInjector key
     (\<lambda>c. InjValue (case inRuntime c of Some m \<Rightarrow> fmlookup_default VNil m key | None \<Rightarrow> VNil)) (irInjector r)\<rparr>"

definition WithCallback :: "'w callback \<Rightarrow> 'w injectable \<Rightarrow> 'w injectable" where
  "WithCallback cb r = (let c = (case irContext r of None \<Rightarrow> empty_injection | Some c \<Rightarrow> c)
     in r\<lparr>irContext := Some (c\<lparr>inCallbacks := inCallbacks c @ [cb]\<rparr>)\<rparr>)"

definition InjectDependencies ::
  "'w injectable \<Rightarrow> runnable_config option \<Rightarrow> gval \<Rightarrow> gmap option \<Rightarrow> 'w injectable" where
  "InjectDependencies r config previous runtime = SetInjectionContext
     (Some \<lparr>inConfig = config, inPrevious = previous, inRuntime = runtime, inTracingEnabled = False, inCallbacks = []\<rparr>) r"

section \<open>Arguments\<close>

text \<open>
  What reflection says of types is a parameter: \<open>rlAssign v t\<close>, a value can be assigned to a type;
  \<open>rlConvert v t\<close>, the value converted to it. \<open>rlOrder\<close> is the order in which a map is visited.
\<close>

record reflection =
  rlAssign :: "gval \<Rightarrow> string \<Rightarrow> bool"
  rlConvert :: "gval \<Rightarrow> string \<Rightarrow> gval option"
  rlZero :: "string \<Rightarrow> gval"
  rlOrder :: "gmap \<Rightarrow> (string \<times> gval) list"

fun runtime_loop :: "reflection \<Rightarrow> string \<Rightarrow> (string \<times> gval) list \<Rightarrow> gval option" where
  "runtime_loop E t [] = None"
| "runtime_loop E t ((k, v) # es) = (if v \<noteq> VNil \<and> rlAssign E v t then Some v else runtime_loop E t es)"

definition from_context :: "reflection \<Rightarrow> 'w injection_context option \<Rightarrow> inj_param \<Rightarrow> injected option" where
  "from_context E c p = (case c of None \<Rightarrow> None
     | Some c \<Rightarrow> (if p = PConfig then Some (InjConfig (inConfig c))
         else case inRuntime c of None \<Rightarrow> None
         | Some m \<Rightarrow> map_option InjValue (runtime_loop E (param_type p) (rlOrder E m))))"

text \<open>The type of a nil input is asked for unless it is assigned, which panics: \<open>None\<close>.\<close>

definition from_input :: "reflection \<Rightarrow> gval \<Rightarrow> inj_param \<Rightarrow> injected option" where
  "from_input E input p =
     (if input \<noteq> VNil \<and> rlAssign E input (param_type p) then Some (InjValue input)
      else if input = VNil then None
      else Some (InjValue (case rlConvert E input (param_type p) of Some v \<Rightarrow> v | None \<Rightarrow> rlZero E (param_type p))))"

definition one_argument ::
  "reflection \<Rightarrow> 'w injection_context option \<Rightarrow> gval \<Rightarrow> inj_param \<Rightarrow> injected option" where
  "one_argument E c input p = (case from_context E c p of Some a \<Rightarrow> Some a | None \<Rightarrow> from_input E input p)"

fun arguments ::
  "reflection \<Rightarrow> 'w injection_context option \<Rightarrow> gval \<Rightarrow> inj_param list \<Rightarrow> injected list option" where
  "arguments E c input [] = Some []"
| "arguments E c input (p # ps) = (case one_argument E c input p of None \<Rightarrow> None
     | Some a \<Rightarrow> map_option (Cons a) (arguments E c input ps))"

text \<open>\<open>None\<close> is a panic.\<close>

definition buildArguments :: "reflection \<Rightarrow> gval \<Rightarrow> 'w injectable \<Rightarrow> (gerr + injected list) option" where
  "buildArguments E input r = (case irFn r of
     TargetNil \<Rightarrow> None
   | TargetOther x \<Rightarrow> Some (Inl (ErrorString ''runnable must be a function''))
   | TargetFunc f \<Rightarrow> (case ifIn f of
       PContext # ps \<Rightarrow> map_option (\<lambda>as. Inr (InjContext # as)) (arguments E (irContext r) input ps)
     | ps \<Rightarrow> map_option Inr (arguments E (irContext r) input ps)))"

definition call_results :: "'w inj_func \<Rightarrow> go_result list \<Rightarrow> gval \<times> gerr option" where
  "call_results f rs = (case rs of
     [] \<Rightarrow> (VNil, None)
   | [r] \<Rightarrow> (if ifSingleError f
       then (case r of ResErr e \<Rightarrow> (VNil, Some e)
         | ResVal v \<Rightarrow> (VNil, if v = VNil then None else Some (ErrorString (''expected error, got '' @ type_name v))))
       else (result_value r, None))
   | r # e # _ \<Rightarrow> (result_value r,
       if ifNillable f then (case e of ResErr er \<Rightarrow> Some er
         | ResVal v \<Rightarrow> if v = VNil then None else Some (ErrorString (''expected error, got '' @ type_name v)))
       else None))"

definition executeWithArgs :: "'w inj_func \<Rightarrow> injected list \<Rightarrow> 'w \<Rightarrow> called \<times> 'w" where
  "executeWithArgs f as w = (case ifCall f as w of
     (Inl p, w1) \<Rightarrow> (Panicked p, w1)
   | (Inr rs, w1) \<Rightarrow> (case call_results f rs of (out, err) \<Rightarrow> (Returned out err, w1)))"

section \<open>Calls\<close>

definition callbacks_of :: "'w injectable \<Rightarrow> 'w callback list" where
  "callbacks_of r = (case irContext r of None \<Rightarrow> [] | Some c \<Rightarrow> inCallbacks c)"

definition notify_start :: "'w injectable \<Rightarrow> gval \<Rightarrow> 'w \<Rightarrow> 'w" where
  "notify_start r input w = fold (\<lambda>cb. cbOnStart cb (irName r) input) (callbacks_of r) w"

definition notify_end :: "'w injectable \<Rightarrow> gval \<Rightarrow> gerr option \<Rightarrow> 'w \<Rightarrow> 'w" where
  "notify_end r out err w = fold (\<lambda>cb w. cbOnEnd cb (irName r) out err
     (case err of Some e \<Rightarrow> cbOnError cb (irName r) e w | None \<Rightarrow> w)) (callbacks_of r) w"

text \<open>The value a panic of reflection carries.\<close>

definition reflect_panic :: gval where
  "reflect_panic = VOther ''*reflect.ValueError'' 0"

definition ij_Invoke :: "reflection \<Rightarrow> 'w injectable \<Rightarrow> 'w call" where
  "ij_Invoke E r input w =
     (let w1 = notify_start r input w in
      case buildArguments E input r of
        None \<Rightarrow> (Panicked reflect_panic, w1)
      | Some (Inl e) \<Rightarrow> (Returned VNil (Some e), notify_end r VNil (Some e) w1)
      | Some (Inr as) \<Rightarrow>
          (case irFn r of
             TargetFunc f \<Rightarrow>
               (case executeWithArgs f as w1 of
                  (Panicked p, w2) \<Rightarrow> (Panicked p, w2)
                | (Returned out err, w2) \<Rightarrow> (Returned out err, notify_end r out err w2))
           | _ \<Rightarrow> (Panicked reflect_panic, w1)))"

section \<open>Tracing\<close>

record span =
  spName :: string
  spInput :: gval
  spOutput :: gval
  spError :: "gerr option"

text \<open>A tracer with the input its callback has seen last; it is the first part of the world.\<close>

record tracer =
  tcSpans :: "span list"
  tcInput :: gval

definition NewTracer :: tracer where
  "NewTracer = \<lparr>tcSpans = [], tcInput = VNil\<rparr>"

definition TraceCallback :: "(tracer \<times> 'w) callback_func" where
  "TraceCallback = \<lparr>
     cfOnStartFunc = Some (\<lambda>name input (t, w). (t\<lparr>tcInput := input\<rparr>, w)),
     cfOnEndFunc = Some (\<lambda>name out err (t, w).
       (t\<lparr>tcSpans := tcSpans t @ [\<lparr>spName = name, spInput = tcInput t, spOutput = out, spError = err\<rparr>]\<rparr>, w)),
     cfOnErrorFunc = None\<rparr>"

definition GetSpans :: "tracer \<Rightarrow> span list" where
  "GetSpans t = tcSpans t"

definition tc_Clear :: "tracer \<Rightarrow> tracer" where
  "tc_Clear t = t\<lparr>tcSpans := []\<rparr>"

definition WithTracing :: "(tracer \<times> 'w) injectable \<Rightarrow> (tracer \<times> 'w) injectable" where
  "WithTracing r = WithCallback (func_callback TraceCallback) r"

section \<open>Coercion\<close>

datatype 'w inj_coercible = InInjectable "'w injectable" | InRunnable "'w runnable" | InTarget "'w inj_target"

text \<open>A runnable is wrapped in a function of a context and an empty interface.\<close>

definition wrapped_runnable :: "'w runnable \<Rightarrow> 'w inj_func" where
  "wrapped_runnable r = \<lparr>ifIn = [PContext, PType ''interface {}''], ifSingleError = False, ifNillable = True,
     ifCall = (\<lambda>as w. case as of
        [InjContext, InjValue v] \<Rightarrow> (case raInvoke r v w of
            (Panicked p, w1) \<Rightarrow> (Inl p, w1)
          | (Returned out err, w1) \<Rightarrow> (Inr [ResVal out, case err of None \<Rightarrow> ResVal VNil | Some e \<Rightarrow> ResErr e], w1))
      | _ \<Rightarrow> (Inl reflect_panic, w))\<rparr>"

definition CoerceToInjectableRunnable :: "'w inj_coercible \<Rightarrow> string \<Rightarrow> gerr + 'w injectable" where
  "CoerceToInjectableRunnable v name = (case v of
     InInjectable r \<Rightarrow> Inr r
   | InRunnable r \<Rightarrow> Inr (NewInjectableRunnable name (TargetFunc (wrapped_runnable r)))
   | InTarget TargetNil \<Rightarrow> Inl (ErrorString ''cannot coerce nil to InjectableRunnable'')
   | InTarget (TargetFunc f) \<Rightarrow> Inr (NewInjectableRunnable name (TargetFunc f))
   | InTarget (TargetOther x) \<Rightarrow> Inl (ErrorString (''cannot coerce '' @ type_name x @ '' to InjectableRunnable'')))"

section \<open>Properties\<close>

lemma ij_Invoke_cong:
  assumes "irFn r = irFn r'" "irName r = irName r'" "callbacks_of r = callbacks_of r'"
    and "\<And>ps. arguments E (irContext r) input ps = arguments E (irContext r') input ps"
  shows "ij_Invoke E r input w = ij_Invoke E r' input w"
  unfolding ij_Invoke_def buildArguments_def notify_start_def notify_end_def assms by (rule refl)

lemma runtime_loop_first:
  "runtime_loop E t (pre @ (k, v) # post) = Some v" if "\<forall>(k', v') \<in> set pre. v' = VNil" "v \<noteq> VNil" "rlAssign E v t"
  using that by (induction pre) auto

lemma runtime_loop_none: "\<forall>(k, v) \<in> set es. v = VNil \<Longrightarrow> runtime_loop E t es = None"
  by (induction es) auto

lemma wrapped_call: "executeWithArgs (wrapped_runnable r) [InjContext, InjValue v] w = raInvoke r v w"
  by (auto simp: executeWithArgs_def wrapped_runnable_def call_results_def result_value_def
      split: prod.splits called.splits option.splits)

text \<open>A runnable made injectable, with dependencies injected, is called with a runtime value and not with its
  input as soon as there is one that is not nil, the first in the order the map is visited; without
  one it is called with its input, and a nil input panics.\<close>

theorem runtime_shadows_input:
  assumes "CoerceToInjectableRunnable (InRunnable r0) name = Inr r" "\<And>v. rlAssign E v ''interface {}''"
  shows "(rlOrder E m = pre @ (k, v) # post \<and> (\<forall>(k', v') \<in> set pre. v' = VNil) \<and> v \<noteq> VNil \<longrightarrow>
       ij_Invoke E (InjectDependencies r cfg prev (Some m)) input w = raInvoke r0 v w) \<and>
    ((\<forall>(k', v') \<in> set (rlOrder E m). v' = VNil) \<longrightarrow>
       ij_Invoke E (InjectDependencies r cfg prev (Some m)) input w =
         (if input = VNil then (Panicked reflect_panic, w) else raInvoke r0 input w))"
proof -
  let ?r = "InjectDependencies r cfg prev (Some m)"
  have r: "r = NewInjectableRunnable name (TargetFunc (wrapped_runnable r0))"
    using assms(1) by (simp add: CoerceToInjectableRunnable_def)
  have fn: "irFn ?r = TargetFunc (wrapped_runnable r0)" "callbacks_of ?r = []" "irContext ?r = Some
      \<lparr>inConfig = cfg, inPrevious = prev, inRuntime = Some m, inTracingEnabled = False, inCallbacks = []\<rparr>"
    by (simp_all add: r InjectDependencies_def SetInjectionContext_def NewInjectableRunnable_def callbacks_of_def)
  have args: "buildArguments E input ?r = (case (case runtime_loop E ''interface {}'' (rlOrder E m) of
      Some v \<Rightarrow> Some (InjValue v) | None \<Rightarrow> from_input E input (PType ''interface {}'')) of
        None \<Rightarrow> None | Some a \<Rightarrow> Some (Inr [InjContext, a]))" for input
    by (simp add: buildArguments_def fn wrapped_runnable_def one_argument_def from_context_def split: option.split)
  have call: "ij_Invoke E ?r input w = (case buildArguments E input ?r of
      None \<Rightarrow> (Panicked reflect_panic, w) | Some (Inr as) \<Rightarrow> executeWithArgs (wrapped_runnable r0) as w
    | Some (Inl e) \<Rightarrow> (Returned VNil (Some e), w))"
    by (auto simp: ij_Invoke_def Let_def fn notify_start_def notify_end_def split: option.split sum.split prod.split called.split)
  show ?thesis
    using assms(2) by (auto simp: call args wrapped_call runtime_loop_first runtime_loop_none from_input_def)
qed

definition demo_reflection :: reflection where
  "demo_reflection = \<lparr>rlAssign = (\<lambda>v t. True), rlConvert = (\<lambda>v t. Some v), rlZero = (\<lambda>t. VNil), rlOrder = sorted_list_of_fmap\<rparr>"

lemma runtime_shadows_input_witness:
  "\<exists>r. CoerceToInjectableRunnable (InRunnable (coerceFuncToRunnable demo_lib (reflected (MapValue (\<lambda>v. VList [v]))))) ''n'' = Inr r \<and>
     ij_Invoke demo_reflection (InjectDependencies r None VNil (Some fmempty)) VNil () = (Panicked reflect_panic, ())"
proof -
  let ?r0 = "coerceFuncToRunnable demo_lib (reflected (MapValue (\<lambda>v. VList [v]))) :: unit runnable"
  obtain r where r: "CoerceToInjectableRunnable (InRunnable ?r0) ''n'' = Inr r"
    by (simp add: CoerceToInjectableRunnable_def)
  have "rlOrder demo_reflection fmempty = []" using entries_keys[OF entries_sorted[of "fmempty :: gmap"]]
    by (cases "sorted_list_of_fmap (fmempty :: gmap)") (auto simp: demo_reflection_def)
  with runtime_shadows_input[where E = demo_reflection and m = fmempty and w = "()" and input = VNil, OF r]
  have "ij_Invoke demo_reflection (InjectDependencies r None VNil (Some fmempty)) VNil () = (Panicked reflect_panic, ())"
    by (simp add: demo_reflection_def)
  with r show ?thesis by blast
qed

text \<open>The injectors of a runnable and the previous result are never used: with them it makes the same calls;
  injecting dependencies drops the callbacks that were added before.\<close>

theorem injectors_unused:
  "ij_Invoke E (WithConfigInjector (WithPreviousInjector (WithRuntimeInjector key r))) = ij_Invoke E r \<and>
   ij_Invoke E (InjectDependencies r config previous runtime) = ij_Invoke E (InjectDependencies r config VNil runtime) \<and>
   InjectDependencies (WithCallback cb r) config previous runtime = InjectDependencies r config previous runtime"
proof -
  have A: "ij_Invoke E (r\<lparr>irInjector := p\<rparr>) input w = ij_Invoke E r input w" for p input w
    by (rule ij_Invoke_cong) (simp_all add: callbacks_of_def)
  have B: "one_argument E (Some (c\<lparr>inPrevious := v\<rparr>)) input p = one_argument E (Some c) input p" for c v input p
    by (simp add: one_argument_def from_context_def)
  have C: "arguments E (Some (c\<lparr>inPrevious := v\<rparr>)) input ps = arguments E (Some c) input ps" for c v input ps
    by (induction ps) (simp_all add: B split: option.split)
  have D: "ij_Invoke E (r\<lparr>irContext := Some (c\<lparr>inPrevious := v\<rparr>)\<rparr>) input w = ij_Invoke E (r\<lparr>irContext := Some c\<rparr>) input w" for c v input w
    by (rule ij_Invoke_cong) (simp_all add: callbacks_of_def C)
  let ?c = "\<lparr>inConfig = config, inPrevious = VNil, inRuntime = runtime, inTracingEnabled = False, inCallbacks = []\<rparr>"
  have E1: "InjectDependencies r config previous runtime = r\<lparr>irContext := Some (?c\<lparr>inPrevious := previous\<rparr>)\<rparr>"
    "InjectDependencies r config VNil runtime = r\<lparr>irContext := Some ?c\<rparr>"
    by (simp_all add: InjectDependencies_def SetInjectionContext_def)
  have "ij_Invoke E (InjectDependencies r config previous runtime) = ij_Invoke E (InjectDependencies r config VNil runtime)"
    unfolding E1 by (rule ext)+ (rule D)
  moreover have "ij_Invoke E (WithConfigInjector (WithPreviousInjector (WithRuntimeInjector key r))) = ij_Invoke E r"
    unfolding WithConfigInjector_def WithPreviousInjector_def WithRuntimeInjector_def by (rule ext)+ (simp add: A)
  ultimately show ?thesis
    by (simp add: InjectDependencies_def SetInjectionContext_def WithCallback_def Let_def)
qed

text \<open>A function of the world, beside a tracer.\<close>

definition beside_tracer :: "'w inj_func \<Rightarrow> (tracer \<times> 'w) inj_func" where
  "beside_tracer f = \<lparr>ifIn = ifIn f, ifSingleError = ifSingleError f, ifNillable = ifNillable f,
     ifCall = (\<lambda>as (t, w). case ifCall f as w of (res, w1) \<Rightarrow> (res, (t, w1)))\<rparr>"

text \<open>Tracing observes: a traced runnable answers what it answers without a tracer, and a call that returns
  adds one span with its name, input, output and error; a call that panics adds none. A parameter for
  the configuration gets a nil pointer from the context that tracing creates, so there is none.\<close>

theorem tracing_observes:
  assumes "PConfig \<notin> set (ifIn f)"
  shows "ij_Invoke E (WithTracing (NewInjectableRunnable name (TargetFunc (beside_tracer f)))) input (t, w) =
     (case ij_Invoke E (NewInjectableRunnable name (TargetFunc f)) input w of
        (Returned out err, w1) \<Rightarrow> (Returned out err,
          \<lparr>tcSpans = GetSpans t @ [\<lparr>spName = name, spInput = input, spOutput = out, spError = err\<rparr>], tcInput = input\<rparr>, w1)
      | (Panicked p, w1) \<Rightarrow> (Panicked p, t\<lparr>tcInput := input\<rparr>, w1))"
proof -
  let ?r = "NewInjectableRunnable name (TargetFunc f)"
  let ?t = "WithTracing (NewInjectableRunnable name (TargetFunc (beside_tracer f)))"
  have fn: "irFn ?r = TargetFunc f" "irFn ?t = TargetFunc (beside_tracer f)" "irName ?t = name" "irName ?r = name"
    "callbacks_of ?r = []" "callbacks_of ?t = [func_callback TraceCallback]"
    by (simp_all add: NewInjectableRunnable_def WithTracing_def WithCallback_def callbacks_of_def empty_injection_def Let_def)
  have one: "one_argument E (irContext ?t) input p = one_argument E (irContext ?r) input p" if "p \<noteq> PConfig" for p
    using that by (simp add: one_argument_def from_context_def NewInjectableRunnable_def WithTracing_def WithCallback_def
        empty_injection_def Let_def)
  have args: "arguments E (irContext ?t) input ps = arguments E (irContext ?r) input ps" if "PConfig \<notin> set ps" for ps
    using that by (induction ps) (auto simp: one split: option.split)
  have bt: "ifIn (beside_tracer f) = ifIn f" by (simp add: beside_tracer_def)
  have build: "buildArguments E input ?t = buildArguments E input ?r"
  proof (cases "ifIn f")
    case Nil
    then show ?thesis by (simp add: buildArguments_def fn bt)
  next
    case (Cons p ps)
    with args[of ps] args[OF assms] assms show ?thesis
      by (cases p) (simp_all add: buildArguments_def fn bt del: arguments.simps)
  qed
  have bc: "ifCall (beside_tracer f) as (t', w) = (case ifCall f as w of (res, w1) \<Rightarrow> (res, (t', w1)))" for as t' w
    by (simp add: beside_tracer_def)
  have cr: "call_results (beside_tracer f) rs = call_results f rs" for rs
    unfolding call_results_def beside_tracer_def inj_func.simps by (rule refl)
  have exec: "executeWithArgs (beside_tracer f) as (t', w) = (case executeWithArgs f as w of (c, w1) \<Rightarrow> (c, (t', w1)))" for as t' w
    by (auto simp: executeWithArgs_def bc cr split: prod.splits sum.splits)
  have start: "notify_start ?t input (t, w) = (t\<lparr>tcInput := input\<rparr>, w)" "notify_start ?r input w = w"
    unfolding notify_start_def fn by (simp_all add: func_callback_def cf_OnStart_def TraceCallback_def)
  have stop: "notify_end ?t out err (t', w) =
      (t'\<lparr>tcSpans := tcSpans t' @ [\<lparr>spName = name, spInput = tcInput t', spOutput = out, spError = err\<rparr>]\<rparr>, w)"
    "notify_end ?r out err w = w" for out err t' w
    unfolding notify_end_def fn
    by (simp_all add: func_callback_def cf_OnEnd_def cf_OnError_def TraceCallback_def split: option.split)
  show ?thesis
    unfolding ij_Invoke_def build start Let_def fn
    by (auto simp: exec stop GetSpans_def split: option.split sum.split prod.split called.split)
qed

lemma tracing_observes_witness:
  "fst (ij_Invoke demo_reflection (WithTracing (NewInjectableRunnable ''n'' (TargetFunc (beside_tracer
      (wrapped_runnable (demo_step (VInt 1))))))) VNil (NewTracer, ())) =
   fst (ij_Invoke demo_reflection (NewInjectableRunnable ''n'' (TargetFunc (wrapped_runnable (demo_step (VInt 1))))) VNil ())"
  using tracing_observes[of "wrapped_runnable (demo_step (VInt 1))" demo_reflection "''n''" VNil NewTracer "()"]
  by (auto simp: wrapped_runnable_def split: prod.splits called.splits)

text \<open>The callback of a tracer keeps one input: of two calls that overlap, the span of the one that began
  first has the input of the other.\<close>

theorem overlapping_traces:
  "let cb = func_callback TraceCallback;
       w' = cbOnEnd cb n out err (cbOnStart cb n' input' (cbOnStart cb n input (t, w)))
   in GetSpans (fst w') = GetSpans t @ [\<lparr>spName = n, spInput = input', spOutput = out, spError = err\<rparr>]"
  by (simp add: func_callback_def cf_OnStart_def cf_OnEnd_def TraceCallback_def GetSpans_def)

end
