(* ===== verification/Task_Decorator.thy ===== *)
theory Task_Decorator
  imports Cache Retry
begin

text \<open>
  Task decorators (\<^verbatim>\<open>task/decorator.go\<close>, first part): a node function wrapped with retries and a cache. The cache
  belongs to the decorator and is shared by all calls of the wrapped function: it is the first part of
  the world. The clock, the wait between attempts and the random source act on the second part.
\<close>

section \<open>Decorators\<close>

text \<open>An entry: the value and the time it expires at (the zero time without a time to live).\<close>

type_synonym task_cache = "(string, gval \<times> int) fmap"

record decorator =
  tdName :: string
  tdRetry :: "retry_policy option"
  tdCache :: "cache_policy option"
  tdMetadata :: gmap

record 'w task_env =
  teLib :: golib
  teHash :: "string \<Rightarrow> string"
  teNow :: "'w \<Rightarrow> int \<times> 'w"
  teRetry :: "'w retry_env"
  tePow :: "float64 \<Rightarrow> float64 \<Rightarrow> float64"

text \<open>\<open>name\<close> is the fresh identifier a decorator is called by until an option names it.\<close>

definition NewDecorator :: "string \<Rightarrow> (decorator \<Rightarrow> decorator) list \<Rightarrow> decorator" where
  "NewDecorator name opts = fold (\<lambda>opt d. opt d) opts
     \<lparr>tdName = name, tdRetry = None, tdCache = None, tdMetadata = fmempty\<rparr>"

definition do_WithName :: "string \<Rightarrow> decorator \<Rightarrow> decorator" where
  "do_WithName n d = d\<lparr>tdName := n\<rparr>"

definition do_WithRetryPolicy :: "retry_policy option \<Rightarrow> decorator \<Rightarrow> decorator" where
  "do_WithRetryPolicy p d = d\<lparr>tdRetry := p\<rparr>"

definition do_WithCachePolicy :: "cache_policy option \<Rightarrow> decorator \<Rightarrow> decorator" where
  "do_WithCachePolicy p d = d\<lparr>tdCache := p\<rparr>"

definition do_WithMetadata :: "gmap \<Rightarrow> decorator \<Rightarrow> decorator" where
  "do_WithMetadata m d = d\<lparr>tdMetadata := m\<rparr>"

section \<open>The cache\<close>

definition cacheKey :: "'w task_env \<Rightarrow> gval \<Rightarrow> string" where
  "cacheKey E input = teHash E (fmt_v (teLib E) input)"

text \<open>The clock is read only under a time to live; an entry that is over is deleted.\<close>

definition getCached :: "'w task_env \<Rightarrow> cache_policy \<Rightarrow> gval \<Rightarrow> task_cache \<times> 'w \<Rightarrow> gval option \<times> task_cache \<times> 'w" where
  "getCached E p input = (\<lambda>(c, w). (case fmlookup c (cacheKey E input) of
     None \<Rightarrow> (None, c, w)
   | Some (v, expires) \<Rightarrow>
       (if cpTTL p = None then (Some v, c, w)
        else case teNow E w of (now, w1) \<Rightarrow>
          (if now < expires then (Some v, c, w1) else (None, fmdrop (cacheKey E input) c, w1)))))"

definition setCached :: "'w task_env \<Rightarrow> cache_policy \<Rightarrow> gval \<Rightarrow> gval \<Rightarrow> task_cache \<times> 'w \<Rightarrow> task_cache \<times> 'w" where
  "setCached E p input v = (\<lambda>(c, w). (case cpTTL p of
     None \<Rightarrow> (fmupd (cacheKey E input) (v, 0) c, w)
   | Some ttl \<Rightarrow> (case teNow E w of (now, w1) \<Rightarrow> (fmupd (cacheKey E input) (v, now + ttl) c, w1))))"

section \<open>Retries\<close>

text \<open>The literals 0.25 and -1.0.\<close>

definition f_quarter :: float64 where "f_quarter = 0x3FD0000000000000"
definition f_minus_one :: float64 where "f_minus_one = 0xBFF0000000000000"

definition addJitter :: "'w task_env \<Rightarrow> duration \<Rightarrow> 'w \<Rightarrow> duration \<times> 'w" where
  "addJitter E d w = (let L = teLib E; delta = fmul L (i2f L d) f_quarter in
     case reRand (teRetry E) w of (u, w1) \<Rightarrow>
       (d + f2i L (fmul L (fadd L (fmul L u f_two) f_minus_one) delta), w1))"

definition calculateBackoff :: "'w task_env \<Rightarrow> int \<Rightarrow> retry_policy \<Rightarrow> 'w \<Rightarrow> duration \<times> 'w" where
  "calculateBackoff E attempt p w =
     (let L = teLib E;
          raw = f2i L (fmul L (i2f L (rpInitialInterval p)) (tePow E (rpBackoffFactor p) (i2f L (word_of_int (attempt - 1)))));
          backoff = (if sint raw > sint (rpMaxInterval p) then rpMaxInterval p else raw)
      in if rpJitter p then addJitter E backoff w else (backoff, w))"

definition failed_after :: "string \<Rightarrow> int \<Rightarrow> gerr option \<Rightarrow> gerr" where
  "failed_after name n err = (let m = ''task '' @ name @ '' failed after '' @ show_int n @ '' attempts'' in
     case err of Some e \<Rightarrow> WrapError m e | None \<Rightarrow> ErrorString (m @ '': %!w(<nil>)''))"

function task_loop ::
  "'w task_env \<Rightarrow> retry_policy \<Rightarrow> string \<Rightarrow> ('w \<Rightarrow> called \<times> 'w) \<Rightarrow> int \<Rightarrow> gerr option \<Rightarrow> 'w \<Rightarrow> called \<times> 'w"
where
  "task_loop E p name fn attempt lastErr w =
     (if attempt \<le> rpMaxAttempts p then
        (case fn w of
           (Panicked r, w1) \<Rightarrow> (Panicked r, w1)
         | (Returned out None, w1) \<Rightarrow> (Returned out None, w1)
         | (Returned out (Some e), w1) \<Rightarrow>
             (if \<not> re_retryable p e then
                (Returned VNil (Some (WrapError (''task '' @ name @ '' failed with non-retryable error'') e)), w1)
              else if attempt \<ge> rpMaxAttempts p then
                (Returned VNil (Some (failed_after name (rpMaxAttempts p) (Some e))), w1)
              else
                (case calculateBackoff E attempt p w1 of (backoff, w2) \<Rightarrow>
                   (case reWait (teRetry E) backoff w2 of
                      (Some c, w3) \<Rightarrow> (Returned VNil (Some c), w3)
                    | (None, w3) \<Rightarrow> task_loop E p name fn (attempt + 1) (Some e) w3))))
      else (Returned VNil (Some (failed_after name (rpMaxAttempts p) lastErr)), w))"
  by pat_completeness auto
termination
  by (relation "measure (\<lambda>(E, p, name, fn, attempt, _). nat (rpMaxAttempts p - attempt + 1))") auto

declare task_loop.simps [simp del]

definition executeWithRetry ::
  "'w task_env \<Rightarrow> decorator \<Rightarrow> retry_policy \<Rightarrow> (gval \<Rightarrow> 'w \<Rightarrow> called \<times> 'w) \<Rightarrow> gval \<Rightarrow> 'w \<Rightarrow> called \<times> 'w"
where
  "executeWithRetry E d p fn input w = task_loop E p (tdName d) (fn input) 1 None w"

section \<open>The wrapped function\<close>

definition run_wrapped ::
  "'w task_env \<Rightarrow> decorator \<Rightarrow> (gval \<Rightarrow> 'w \<Rightarrow> called \<times> 'w) \<Rightarrow> gval \<Rightarrow> 'w \<Rightarrow> called \<times> 'w" where
  "run_wrapped E d fn input w = (case tdRetry d of Some p \<Rightarrow> executeWithRetry E d p fn input w | None \<Rightarrow> fn input w)"

definition Wrap ::
  "'w task_env \<Rightarrow> decorator \<Rightarrow> (gval \<Rightarrow> 'w \<Rightarrow> called \<times> 'w) \<Rightarrow> gval \<Rightarrow> task_cache \<times> 'w \<Rightarrow> called \<times> task_cache \<times> 'w"
where
  "Wrap E d fn input cw =
     (case (case tdCache d of Some p \<Rightarrow> getCached E p input cw | None \<Rightarrow> (None, cw)) of
        (Some v, cw1) \<Rightarrow> (Returned v None, cw1)
      | (None, (c, w)) \<Rightarrow>
          (case run_wrapped E d fn input w of
             (Returned out None, w1) \<Rightarrow>
               (Returned out None, (case tdCache d of Some p \<Rightarrow> setCached E p input out (c, w1) | None \<Rightarrow> (c, w1)))
           | (failed, w1) \<Rightarrow> (failed, (c, w1))))"

definition Task ::
  "'w task_env \<Rightarrow> string \<Rightarrow> (gval \<Rightarrow> 'w \<Rightarrow> called \<times> 'w) \<Rightarrow> (decorator \<Rightarrow> decorator) list
   \<Rightarrow> gval \<Rightarrow> task_cache \<times> 'w \<Rightarrow> called \<times> task_cache \<times> 'w"
where
  "Task E name fn opts = Wrap E (NewDecorator name opts) fn"

definition Retryable ::
  "'w task_env \<Rightarrow> string \<Rightarrow> (gval \<Rightarrow> 'w \<Rightarrow> called \<times> 'w) \<Rightarrow> int \<Rightarrow> float64
   \<Rightarrow> gval \<Rightarrow> task_cache \<times> 'w \<Rightarrow> called \<times> task_cache \<times> 'w"
where
  "Retryable E name fn n factor = Task E name fn
     [do_WithRetryPolicy (Some (DefaultRetryPolicy\<lparr>rpMaxAttempts := n, rpBackoffFactor := factor\<rparr>))]"

definition Cached ::
  "'w task_env \<Rightarrow> string \<Rightarrow> (gval \<Rightarrow> 'w \<Rightarrow> called \<times> 'w) \<Rightarrow> int
   \<Rightarrow> gval \<Rightarrow> task_cache \<times> 'w \<Rightarrow> called \<times> task_cache \<times> 'w"
where
  "Cached E name fn ttl = Task E name fn [do_WithCachePolicy (Some \<lparr>cpKeyFunc = None, cpTTL = Some ttl\<rparr>)]"

definition Named ::
  "'w task_env \<Rightarrow> string \<Rightarrow> string \<Rightarrow> (gval \<Rightarrow> 'w \<Rightarrow> called \<times> 'w)
   \<Rightarrow> gval \<Rightarrow> task_cache \<times> 'w \<Rightarrow> called \<times> task_cache \<times> 'w"
where
  "Named E fresh name fn = Task E fresh fn [do_WithName name]"

text \<open>The last decorator is applied first.\<close>

definition Compose :: "('f \<Rightarrow> 'f) list \<Rightarrow> 'f \<Rightarrow> 'f" where
  "Compose decorators fn = fold (\<lambda>i f. (decorators ! i) f) (rev [0..<length decorators]) fn"

section \<open>How often a task is called\<close>

lemma f_jitter_world: "\<forall>w. snd (reRand (teRetry E) w) = w \<Longrightarrow> snd (calculateBackoff E n p w) = w"
  by (auto simp: calculateBackoff_def addJitter_def Let_def split: prod.splits) (metis snd_conv)

text \<open>An outcome after which the task is called again, and what the task answers for any other.\<close>

definition task_retried :: "retry_policy \<Rightarrow> called \<Rightarrow> bool" where
  "task_retried p r = (case r of Returned out (Some e) \<Rightarrow> re_retryable p e | _ \<Rightarrow> False)"

definition task_verdict :: "string \<Rightarrow> called \<Rightarrow> called" where
  "task_verdict name r = (case r of
     Returned out (Some e) \<Rightarrow> Returned VNil (Some (WrapError (''task '' @ name @ '' failed with non-retryable error'') e))
   | _ \<Rightarrow> r)"

definition error_of :: "called \<Rightarrow> gerr option" where
  "error_of r = (case r of Returned out e \<Rightarrow> e | _ \<Rightarrow> None)"

lemma task_loop_decided:
  assumes "patient (teRetry E)" "list_all (task_retried p) pre" "int (length pre) < rpMaxAttempts p - a + 1" "\<not> task_retried p r"
  shows "task_loop E p name next_result a le (pre @ r # rest) = (task_verdict name r, rest)"
  using assms(2,3)
proof (induction pre arbitrary: a le)
  case Nil
  then show ?case
    using assms(4) by (auto simp: task_loop.simps[of E] task_retried_def task_verdict_def split: called.splits option.splits)
next
  case (Cons q pre)
  then obtain out e where q: "q = Returned out (Some e)" "re_retryable p e"
    by (auto simp: task_retried_def split: called.splits option.splits)
  obtain b where b: "calculateBackoff E a p (pre @ r # rest) = (b, pre @ r # rest)"
    using f_jitter_world[of E a p "pre @ r # rest"] assms(1) by (metis patient_def prod.collapse)
  have "task_loop E p name next_result (a + 1) (Some e) (pre @ r # rest) = (task_verdict name r, rest)"
    using Cons.prems by (intro Cons.IH) auto
  with q b Cons.prems assms(1) show ?case by (simp add: task_loop.simps[of E p name next_result a] patient_def)
qed

lemma task_loop_exhausted:
  assumes "patient (teRetry E)" "list_all (task_retried p) rs" "rs \<noteq> []" "int (length rs) = rpMaxAttempts p - a + 1"
  shows "task_loop E p name next_result a le (rs @ rest) =
    (Returned VNil (Some (failed_after name (rpMaxAttempts p) (error_of (last rs)))), rest)"
  using assms(2-)
proof (induction rs arbitrary: a le)
  case (Cons q rs)
  then obtain out e where q: "q = Returned out (Some e)" "re_retryable p e"
    by (auto simp: task_retried_def split: called.splits option.splits)
  show ?case
  proof (cases "rs = []")
    case True
    with q Cons.prems show ?thesis by (simp add: task_loop.simps[of E p name next_result a] error_of_def)
  next
    case False
    then have "int (length rs) > 0" by simp
    with Cons.prems have le: "a \<le> rpMaxAttempts p" "\<not> a \<ge> rpMaxAttempts p" by auto
    obtain b where b: "calculateBackoff E a p (rs @ rest) = (b, rs @ rest)"
      using f_jitter_world[of E a p "rs @ rest"] assms(1) by (metis patient_def prod.collapse)
    have "task_loop E p name next_result (a + 1) (Some e) (rs @ rest) =
        (Returned VNil (Some (failed_after name (rpMaxAttempts p) (error_of (last rs)))), rest)"
      using Cons.prems False by (intro Cons.IH) auto
    with q b le False assms(1) show ?thesis by (simp add: task_loop.simps[of E p name next_result a] patient_def)
  qed
qed simp

text \<open>A task with retries and no cache calls its function until an outcome is not to be retried, and at most
  as often as its policy says: the world, the outcomes of the calls in order, shows which were made.\<close>

theorem task_calls:
  assumes "patient (teRetry E)" "tdRetry d = Some p" "tdCache d = None" "list_all (task_retried p) pre" "1 \<le> rpMaxAttempts p"
    and "case r of None \<Rightarrow> int (length pre) = rpMaxAttempts p
      | Some q \<Rightarrow> int (length pre) < rpMaxAttempts p \<and> \<not> task_retried p q"
  shows "Wrap E d (\<lambda>_. next_result) input (c, pre @ (case r of None \<Rightarrow> rest | Some q \<Rightarrow> q # rest)) =
    (case r of None \<Rightarrow> Returned VNil (Some (failed_after (tdName d) (rpMaxAttempts p) (error_of (last pre))))
      | Some q \<Rightarrow> task_verdict (tdName d) q, c, rest)"
proof -
  have "executeWithRetry E d p (\<lambda>_. next_result) input (pre @ (case r of None \<Rightarrow> rest | Some q \<Rightarrow> q # rest)) =
    (case r of None \<Rightarrow> Returned VNil (Some (failed_after (tdName d) (rpMaxAttempts p) (error_of (last pre))))
      | Some q \<Rightarrow> task_verdict (tdName d) q, rest)"
  proof (cases r)
    case None
    with assms(5,6) have "pre \<noteq> []" by auto
    with task_loop_exhausted[OF assms(1,4)] None assms(6) show ?thesis by (simp add: executeWithRetry_def)
  next
    case (Some q)
    with task_loop_decided[OF assms(1,4)] assms(6) show ?thesis by (simp add: executeWithRetry_def)
  qed
  with assms(2,3) show ?thesis
    by (auto simp: Wrap_def run_wrapped_def split: option.splits called.splits)
qed

definition demo_task_env :: "'w task_env" where
  "demo_task_env = \<lparr>teLib = demo_lib, teHash = id, teNow = (\<lambda>w. (0, w)), teRetry = patient_env, tePow = (\<lambda>b e. b)\<rparr>"

lemma task_calls_witness:
  "Wrap demo_task_env (NewDecorator ''t'' [do_WithRetryPolicy (Some DefaultRetryPolicy)]) (\<lambda>_. next_result) VNil
     (fmempty, [Returned VNil (Some (ErrorString ''a'')), Returned (VInt 7) None, Panicked VNil]) =
   (Returned (VInt 7) None, fmempty, [Panicked VNil])"
  using task_calls[of demo_task_env "NewDecorator ''t'' [do_WithRetryPolicy (Some DefaultRetryPolicy)]" DefaultRetryPolicy
      "[Returned VNil (Some (ErrorString ''a''))]" "Some (Returned (VInt 7) None)" VNil fmempty "[Panicked VNil]"]
  by (simp add: demo_task_env_def NewDecorator_def do_WithRetryPolicy_def task_retried_def re_retryable_def DefaultRetryPolicy_def
      DefaultRetryOn_def task_verdict_def)



section \<open>The cache of a task keeps the contract\<close>

text \<open>The cache of a decorator behind the interface of \<open>Cache\<close>; keys are printed inputs.\<close>

definition task_cache_of :: "'w task_env \<Rightarrow> cache_policy \<Rightarrow> (task_cache \<times> 'w) cache" where
  "task_cache_of E p = \<lparr>
     caGet = (\<lambda>(c, w) k. case fmlookup c k of None \<Rightarrow> (None, c, w)
       | Some (v, expires) \<Rightarrow> (if cpTTL p = None then (Some v, c, w)
           else case teNow E w of (now, w1) \<Rightarrow> (if now < expires then (Some v, c, w1) else (None, fmdrop k c, w1)))),
     caSet = (\<lambda>(c, w) k v ttl. case cpTTL p of None \<Rightarrow> (fmupd k (v, 0) c, w)
       | Some t \<Rightarrow> (case teNow E w of (now, w1) \<Rightarrow> (fmupd k (v, now + t) c, w1)))\<rparr>"

definition task_holds :: "task_cache \<times> 'w \<Rightarrow> string \<Rightarrow> gval \<Rightarrow> bool" where
  "task_holds cw k v = (map_option fst (fmlookup (fst cw) k) = Some v)"

interpretation task_cache: lossy_cache "task_cache_of E p" task_holds for E p
  by unfold_locales
    (auto simp: task_cache_of_def task_holds_def split: option.splits prod.splits if_splits)

lemma getCached_get: "getCached E p input cw = caGet (task_cache_of E p) cw (cacheKey E input)"
  by (cases cw) (simp add: getCached_def task_cache_of_def)

lemma setCached_set: "setCached E p input v cw = caSet (task_cache_of E p) cw (cacheKey E input) v ttl"
  by (cases cw) (simp add: setCached_def task_cache_of_def)

text \<open>A function whose answer depends on its input only, beside what it does to the world.\<close>

definition pure_node :: "(gval \<Rightarrow> gerr + gval) \<Rightarrow> (gval \<Rightarrow> 'w \<Rightarrow> 'w) \<Rightarrow> gval \<Rightarrow> 'w \<Rightarrow> called \<times> 'w" where
  "pure_node f h x w = ((case f x of Inl e \<Rightarrow> Returned VNil (Some e) | Inr v \<Rightarrow> Returned v None), h x w)"

fun wrap_all ::
  "(gval \<Rightarrow> task_cache \<times> 'w \<Rightarrow> called \<times> task_cache \<times> 'w) \<Rightarrow> gval list \<Rightarrow> task_cache \<times> 'w \<Rightarrow> called list" where
  "wrap_all g [] cw = []"
| "wrap_all g (x # xs) cw = (case g x cw of (r, cw1) \<Rightarrow> r # wrap_all g xs cw1)"

lemma wrap_sound:
  assumes "tdRetry d = None" "tdCache d = Some p" "\<And>x y. cacheKey E x = cacheKey E y \<Longrightarrow> f x = f y"
    and "task_cache.sound (cacheKey E) f cw" "Wrap E d (pure_node f h) x cw = (r, cw')"
  shows "r = fst (pure_node f h x w) \<and> task_cache.sound (cacheKey E) f cw'"
proof -
  obtain g c1 w1 where g: "getCached E p x cw = (g, (c1, w1))" by (metis prod_cases3)
  have s1: "task_cache.sound (cacheKey E) f (c1, w1)"
    using assms(4) task_cache.get_keeps[OF g[unfolded getCached_get]] by (auto simp: task_cache.sound_def)
  show ?thesis
  proof (cases g)
    case (Some v)
    with g have "f x = Inr v" using assms(4) task_cache.get_holds by (fastforce simp: getCached_get task_cache.sound_def)
    with assms(1,2,5) g Some s1 show ?thesis by (auto simp: Wrap_def pure_node_def)
  next
    case None
    show ?thesis
    proof (cases "f x")
      case (Inl e)
      with assms(1,2,5) g None s1 show ?thesis by (auto simp: Wrap_def run_wrapped_def pure_node_def task_cache.sound_def task_holds_def)
    next
      case (Inr v)
      let ?cw = "setCached E p x v (c1, h x w1)"
      from assms(1,2,5) g None Inr have res: "r = Returned v None" "cw' = ?cw"
        by (auto simp: Wrap_def run_wrapped_def pure_node_def)
      have "task_holds (c1, h x w1) k u \<longleftrightarrow> task_holds (c1, w1) k u" for k u by (simp add: task_holds_def)
      with s1 have s2: "task_cache.sound (cacheKey E) f (c1, h x w1)" by (simp add: task_cache.sound_def)
      have "f y = Inr u" if "task_holds cw' (cacheKey E y) u" for y u
        using task_cache.set_holds[OF that[unfolded res(2) setCached_set[where ttl = 0]]] s2 assms(3)[of y x] Inr
        by (auto simp: task_cache.sound_def)
      with res Inr show ?thesis by (simp add: task_cache.sound_def pure_node_def)
    qed
  qed
qed



text \<open>C0: Inputs that print alike share an entry, the integer 1 and the text \<open>1\<close> for instance, whatever key function
  the policy has: within the time to live the second is answered with the result of the first and
  the function is not called; after it, it is.\<close>

theorem printed_alike_collide:
  assumes "tdRetry d = None" "tdCache d = Some p" "cpTTL p = Some ttl" "\<And>w. teNow E w = (clock w, w)"
    and "fmt_v (teLib E) x = fmt_v (teLib E) y" "fn x w = (Returned v None, w1)"
  shows "\<exists>c. Wrap E d fn x (fmempty, w) = (Returned v None, c, w1) \<and>
    (clock w2 < clock w1 + ttl \<longrightarrow> Wrap E d fn y (c, w2) = (Returned v None, c, w2)) \<and>
    (clock w2 \<ge> clock w1 + ttl \<longrightarrow> fst (Wrap E d fn y (c, w2)) = fst (fn y w2))"
  using assms
  by (intro exI[of _ "fmupd (cacheKey E x) (v, clock w1 + ttl) fmempty"])
    (auto simp: Wrap_def getCached_def setCached_def run_wrapped_def cacheKey_def split: prod.splits called.splits option.splits)

lemma printed_alike_collide_witness:
  "\<exists>c. Wrap demo_task_env (NewDecorator ''t'' [do_WithCachePolicy (Some \<lparr>cpKeyFunc = Some type_name, cpTTL = Some 5\<rparr>)])
     (\<lambda>x w. (Returned (VStr (type_name x)) None, w)) (VInt 1) (fmempty, ()) = (Returned (VStr ''int'') None, c, ()) \<and>
    Wrap demo_task_env (NewDecorator ''t'' [do_WithCachePolicy (Some \<lparr>cpKeyFunc = Some type_name, cpTTL = Some 5\<rparr>)])
     (\<lambda>x w. (Returned (VStr (type_name x)) None, w)) (VStr ''1'') (c, ()) = (Returned (VStr ''int'') None, c, ())"
proof -
  have one: "fmt_v demo_lib (VInt 1) = fmt_v demo_lib (VStr ''1'')" by code_simp
  show ?thesis
    using printed_alike_collide[of "NewDecorator ''t'' [do_WithCachePolicy (Some \<lparr>cpKeyFunc = Some type_name, cpTTL = Some 5\<rparr>)]"
        "\<lparr>cpKeyFunc = Some type_name, cpTTL = Some 5\<rparr>" 5 demo_task_env "\<lambda>_. 0" "VInt 1" "VStr ''1''"
        "\<lambda>x w. (Returned (VStr (type_name x)) None, w)" "()" "VStr ''int''" "()" "()"] one
    by (simp add: NewDecorator_def do_WithCachePolicy_def demo_task_env_def)
qed

text \<open>Composing decorators nests them, the first one outermost.\<close>

theorem Compose_nests: "Compose ds fn = foldr (\<lambda>d f. d f) ds fn"
proof -
  have "fold (\<lambda>i f. (ds ! i) f) (rev [0..<length ds]) fn = foldr (\<lambda>d f. d f) (map (\<lambda>i. ds ! i) [0..<length ds]) fn"
    by (simp add: foldr_conv_fold fold_map comp_def rev_map)
  then show ?thesis by (simp add: Compose_def map_nth)
qed

end
