(* ===== verification/Entrypoint.thy ===== *)
theory Entrypoint
  imports Task_Decorator Engine_Sched
begin

text \<open>
  Entry points (\<^verbatim>\<open>task/decorator.go\<close>, second part): a function or a graph behind one name, compiled once, with
  configurable values, and the execution context a function can look at. A node function gets the
  execution context of its context as its first argument.
\<close>

section \<open>Execution contexts and final values\<close>

record execution_context =
  ecConfig :: "runnable_config option"
  ecPrevious :: gval
  ecStore :: gval
  ecWriter :: gval
  ecRuntime :: gmap

type_synonym 'w context_func = "execution_context option \<Rightarrow> gval \<Rightarrow> 'w \<Rightarrow> called \<times> 'w"

definition task_InjectDependencies :: "'w context_func \<Rightarrow> execution_context \<Rightarrow> 'w context_func" where
  "task_InjectDependencies fn ec = (\<lambda>_. fn (Some ec))"

definition ec_GetConfig :: "execution_context option \<Rightarrow> runnable_config option" where
  "ec_GetConfig ctx = (case ctx of Some ec \<Rightarrow> ecConfig ec | None \<Rightarrow> None)"

definition ec_GetPrevious :: "execution_context option \<Rightarrow> gval" where
  "ec_GetPrevious ctx = (case ctx of Some ec \<Rightarrow> ecPrevious ec | None \<Rightarrow> VNil)"

definition ec_GetStore :: "execution_context option \<Rightarrow> gval" where
  "ec_GetStore ctx = (case ctx of Some ec \<Rightarrow> ecStore ec | None \<Rightarrow> VNil)"

definition ec_GetWriter :: "execution_context option \<Rightarrow> gval" where
  "ec_GetWriter ctx = (case ctx of Some ec \<Rightarrow> ecWriter ec | None \<Rightarrow> VNil)"

definition Final :: "gval \<Rightarrow> bool list \<Rightarrow> gval" where
  "Final v save = VPtr (VStruct ''task.EntrypointFinal''
     [(''Value'', True, v), (''Save'', True, VBool (case save of [] \<Rightarrow> True | b # _ \<Rightarrow> b))])"

definition IsFinal :: "gval \<Rightarrow> (gval \<times> bool) option" where
  "IsFinal v = (case v of
     VPtr (VStruct t [(f, ef, x), (g, eg, VBool b)]) \<Rightarrow> (if t = ''task.EntrypointFinal'' then Some (x, b) else None)
   | _ \<Rightarrow> None)"

definition GetFinalValue :: "gval \<Rightarrow> gval" where
  "GetFinalValue v = (case IsFinal v of Some (x, b) \<Rightarrow> x | None \<Rightarrow> v)"

section \<open>Entry points\<close>

record ('w, 'c) entrypoint =
  epName :: string
  epFn :: "'w context_func"
  epMetadata :: gmap
  epCheckpointer :: "'c option"
  epStore :: gval
  epConfigurable :: "gmap option"
  epGraph :: "'w sgraph option"
  epCompiledGraph :: "('w, 'c) compiled option"
  epCompiled :: bool
  epCompileErr :: "gerr option"

definition NewEntrypoint :: "string \<Rightarrow> 'w context_func \<Rightarrow> gmap option \<Rightarrow> ('w, 'c) entrypoint" where
  "NewEntrypoint name fn metadata = \<lparr>epName = name, epFn = fn,
     epMetadata = (case metadata of None \<Rightarrow> fmempty | Some m \<Rightarrow> m), epCheckpointer = None, epStore = VNil,
     epConfigurable = Some fmempty, epGraph = None, epCompiledGraph = None, epCompiled = False, epCompileErr = None\<rparr>"

definition WithEntrypointCheckpointer :: "'c option \<Rightarrow> ('w, 'c) entrypoint \<Rightarrow> ('w, 'c) entrypoint" where
  "WithEntrypointCheckpointer c e = e\<lparr>epCheckpointer := c\<rparr>"

definition WithEntrypointStore :: "gval \<Rightarrow> ('w, 'c) entrypoint \<Rightarrow> ('w, 'c) entrypoint" where
  "WithEntrypointStore s e = e\<lparr>epStore := s\<rparr>"

definition WithEntrypointConfigurable :: "gmap option \<Rightarrow> ('w, 'c) entrypoint \<Rightarrow> ('w, 'c) entrypoint" where
  "WithEntrypointConfigurable m e = e\<lparr>epConfigurable := m\<rparr>"

definition WithEntrypointGraph :: "'w sgraph option \<Rightarrow> ('w, 'c) entrypoint \<Rightarrow> ('w, 'c) entrypoint" where
  "WithEntrypointGraph g e = e\<lparr>epGraph := g\<rparr>"

definition NewEntrypointWithOptions ::
  "string \<Rightarrow> 'w context_func \<Rightarrow> gmap option \<Rightarrow> (('w, 'c) entrypoint \<Rightarrow> ('w, 'c) entrypoint) list \<Rightarrow> ('w, 'c) entrypoint"
where
  "NewEntrypointWithOptions name fn metadata opts = fold (\<lambda>opt e. opt e) opts (NewEntrypoint name fn metadata)"

text \<open>
  The surroundings: those of \<open>Compile\<close> (orders in which maps are visited), of a run, the test that a
  checkpointer is a saver, and the order in which the configurable values are visited.
\<close>

record ('w, 'c) entry_env =
  eeLib :: golib
  eeOrd :: map_order
  eeNames :: "string list"
  eeFields :: "(string, field_info) fmap \<Rightarrow> (string \<times> field_info) list"
  eeRuntime :: "'w runtime"
  eeSaver :: "'c \<Rightarrow> 'w saver option"
  eeConfig :: "gmap \<Rightarrow> (string \<times> gval) list"

definition ep_Execute :: "('w, 'c) entrypoint \<Rightarrow> execution_context option \<Rightarrow> gval \<Rightarrow> 'w \<Rightarrow> called \<times> 'w" where
  "ep_Execute e ctx input w = epFn e ctx input w"

definition compile_options :: "('w, 'c) entry_env \<Rightarrow> ('w, 'c) entrypoint \<Rightarrow> ('w, 'c) compile_option list" where
  "compile_options E e = (case epCheckpointer e of
     Some c \<Rightarrow> (if eeSaver E c \<noteq> None then [WithCheckpointer c] else []) | None \<Rightarrow> [])"

definition ep_Compile :: "('w, 'c) entry_env \<Rightarrow> ('w, 'c) entrypoint \<Rightarrow> gerr option \<times> ('w, 'c) entrypoint" where
  "ep_Compile E e =
     (if epCompiled e then (epCompileErr e, e)
      else (case epGraph e of
          None \<Rightarrow> (let err = Some (ErrorString ''no graph associated with entrypoint'') in
            (err, e\<lparr>epCompiled := True, epCompileErr := err\<rparr>))
        | Some g \<Rightarrow> (case Compile (eeLib E) (eeOrd E) (eeNames E) (eeFields E) g (compile_options E e) of
            (Inl err, g1) \<Rightarrow> (Some err, e\<lparr>epCompiled := True, epCompileErr := Some err, epGraph := Some g1\<rparr>)
          | (Inr cg, g1) \<Rightarrow> (epCompileErr e, e\<lparr>epCompiled := True, epCompiledGraph := Some cg, epGraph := Some g1\<rparr>))))"

text \<open>The configurable values are written into the configuration of the caller, or into a new one.\<close>

definition entry_config :: "('w, 'c) entry_env \<Rightarrow> ('w, 'c) entrypoint \<Rightarrow> runnable_config option \<Rightarrow> runnable_config" where
  "entry_config E e config = fold (\<lambda>(k, v) c. cf_Set c k v)
     (case epConfigurable e of None \<Rightarrow> [] | Some m \<Rightarrow> eeConfig E m) (EnsureConfig config)"

text \<open>What an invocation returns: the value, the failure, and the configuration as the caller sees it after.\<close>

type_synonym invoked = "gval \<times> fault option"

definition run_result :: "fault + gval \<Rightarrow> invoked" where
  "run_result r = (case r of Inl f \<Rightarrow> (VNil, Some f) | Inr v \<Rightarrow> (v, None))"

definition call_result :: "called \<Rightarrow> invoked" where
  "call_result r = (case r of Panicked p \<Rightarrow> (VNil, Some Crash) | Returned out err \<Rightarrow> (out, map_option Fail err))"

definition ep_Invoke ::
  "('w, 'c) entry_env \<Rightarrow> ('w, 'c) entrypoint \<Rightarrow> execution_context option \<Rightarrow> gval \<Rightarrow> runnable_config option \<Rightarrow> 'w
   \<Rightarrow> invoked \<times> runnable_config option \<times> ('w, 'c) entrypoint \<times> 'w"
where
  "ep_Invoke E e ctx input config w =
     (case ep_Compile E e of
        (Some err, e1) \<Rightarrow> ((VNil, Some (Fail err)), config, e1, w)
      | (None, e1) \<Rightarrow>
          (let c = entry_config E e1 config; seen = map_option (\<lambda>_. c) config in
           case epCompiledGraph e1 of
             Some cg \<Rightarrow> (case cg_Invoke (eeLib E) (eeRuntime E) (eeSaver E) cg input [Some c] w of
                 (r, ph, w1) \<Rightarrow> (run_result r, seen, e1, w1))
           | None \<Rightarrow> (case ep_Execute e1 ctx input w of (r, w1) \<Rightarrow> (call_result r, seen, e1, w1))))"

fun ep_batch_loop ::
  "('w, 'c) entry_env \<Rightarrow> ('w, 'c) entrypoint \<Rightarrow> execution_context option \<Rightarrow> nat \<Rightarrow> gval list \<Rightarrow> runnable_config option \<Rightarrow> 'w
   \<Rightarrow> (fault + gval list) \<times> ('w, 'c) entrypoint \<times> 'w"
where
  "ep_batch_loop E e ctx i [] config w = (Inr [], e, w)"
| "ep_batch_loop E e ctx i (x # xs) config w =
     (case ep_Invoke E e ctx x config w of
        ((out, Some f), config1, e1, w1) \<Rightarrow> (Inl (case f of Crash \<Rightarrow> Crash
          | Fail err \<Rightarrow> Fail (WrapError (''batch invocation failed at index '' @ show_nat i) err)), e1, w1)
      | ((out, None), config1, e1, w1) \<Rightarrow>
          (case ep_batch_loop E e1 ctx (Suc i) xs config1 w1 of
             (Inl f, e2, w2) \<Rightarrow> (Inl f, e2, w2)
           | (Inr outs, e2, w2) \<Rightarrow> (Inr (out # outs), e2, w2)))"

definition ep_Batch ::
  "('w, 'c) entry_env \<Rightarrow> ('w, 'c) entrypoint \<Rightarrow> execution_context option \<Rightarrow> gval list \<Rightarrow> runnable_config option \<Rightarrow> 'w
   \<Rightarrow> (fault + gval list) \<times> ('w, 'c) entrypoint \<times> 'w"
where
  "ep_Batch E e ctx inputs config w = ep_batch_loop E e ctx 0 inputs config w"

text \<open>Without a graph the function is called with an execution context; a final value is unwrapped.\<close>

definition InvokeWithDependencies ::
  "('w, 'c) entry_env \<Rightarrow> ('w, 'c) entrypoint \<Rightarrow> execution_context option \<Rightarrow> gval \<Rightarrow> runnable_config option \<Rightarrow> gval \<Rightarrow> gval \<Rightarrow> gval
   \<Rightarrow> 'w \<Rightarrow> invoked \<times> runnable_config option \<times> ('w, 'c) entrypoint \<times> 'w"
where
  "InvokeWithDependencies E e ctx input config previous store writer w =
     (if epGraph e \<noteq> None then ep_Invoke E e ctx input config w
      else (let ec = \<lparr>ecConfig = config, ecPrevious = previous, ecStore = (if store = VNil then epStore e else store),
                ecWriter = writer, ecRuntime = fmempty\<rparr>
        in case task_InjectDependencies (epFn e) ec ctx input w of
             (Panicked p, w1) \<Rightarrow> ((VNil, Some Crash), config, e, w1)
           | (Returned out (Some err), w1) \<Rightarrow> ((VNil, Some (Fail err)), config, e, w1)
           | (Returned out None, w1) \<Rightarrow> ((GetFinalValue out, None), config, e, w1)))"

definition EntrypointDecorator :: "string \<Rightarrow> gmap option \<Rightarrow> 'w context_func \<Rightarrow> 'w context_func" where
  "EntrypointDecorator name metadata fn = ep_Execute (NewEntrypoint name fn metadata :: ('w, unit) entrypoint)"

section \<open>Properties\<close>

lemma IsFinal_Final: "IsFinal (Final v bs) = Some (v, case bs of [] \<Rightarrow> True | b # _ \<Rightarrow> b)"
  by (simp add: IsFinal_def Final_def)

lemma ep_Compile_once: "ep_Compile E (snd (ep_Compile E e)) = (fst (ep_Compile E e), snd (ep_Compile E e))"
  by (auto simp: ep_Compile_def Let_def split: option.splits prod.splits sum.splits)

text \<open>The state every entry point that was made by the constructors and invoked is in.\<close>

definition entry_ok :: "('w, 'c) entrypoint \<Rightarrow> bool" where
  "entry_ok e \<longleftrightarrow> (if epCompiled e then epCompileErr e = None \<longleftrightarrow> epCompiledGraph e \<noteq> None
     else epCompileErr e = None \<and> epCompiledGraph e = None)"

lemma entry_ok_compile: "entry_ok e \<Longrightarrow> entry_ok (snd (ep_Compile E e)) \<and>
    (fst (ep_Compile E e) = None \<longleftrightarrow> epCompiledGraph (snd (ep_Compile E e)) \<noteq> None)"
  by (auto simp: entry_ok_def ep_Compile_def Let_def split: if_splits option.splits prod.splits sum.splits)

lemma entry_config_get:
  assumes "entries m es"
  shows "cf_Get (fold (\<lambda>(k, v) c. cf_Set c k v) es c0) k = (case fmlookup m k of Some v \<Rightarrow> Some v | None \<Rightarrow> cf_Get c0 k)"
proof -
  have "cf_Get (fold (\<lambda>(k, v) c. cf_Set c k v) es c0) k = (case map_of es k of Some v \<Rightarrow> Some v | None \<Rightarrow> cf_Get c0 k)"
    if "distinct (map fst es)" for es :: "(string \<times> gval) list" and c0
    using that
  proof (induction es arbitrary: c0)
    case (Cons e es)
    obtain n v where e: "e = (n, v)" by (cases e)
    from Cons.prems have "map_of es n = None" by (auto simp: e map_of_eq_None_iff)
    with Cons show ?case by (auto simp: e split: option.splits)
  qed simp
  from this[OF entries_distinct[OF assms]] show ?thesis
    using assms by (auto simp: entries_def fmlookup_of_list)
qed

text \<open>C32: An invocation of an entry point runs its graph, compiled at the first invocation and kept, and never its
  function; the configuration of the run, which the caller sees in its own, is that of the caller with
  the configurable values of the entry point written over it. If the graph cannot be compiled, this
  and all later invocations return that error.\<close>

theorem entrypoint_runs_graph:
  assumes "entry_ok e" "epConfigurable e = Some m" "entries m (eeConfig E m)"
  shows "case ep_Compile E e of
      (Some err, e1) \<Rightarrow> ep_Invoke E e ctx input config w = ((VNil, Some (Fail err)), config, e1, w) \<and> ep_Compile E e1 = (Some err, e1)
    | (None, e1) \<Rightarrow> (\<exists>cg c. epCompiledGraph e1 = Some cg \<and> ep_Compile E e1 = (None, e1) \<and>
        ep_Invoke E e ctx input config w = (case cg_Invoke (eeLib E) (eeRuntime E) (eeSaver E) cg input [Some c] w of
          (r, ph, w1) \<Rightarrow> (run_result r, map_option (\<lambda>_. c) config, e1, w1)) \<and>
        (\<forall>k. cf_Get c k = (case fmlookup m k of Some v \<Rightarrow> Some v | None \<Rightarrow> cf_Get (EnsureConfig config) k)))"
proof -
  obtain res e1 where c: "ep_Compile E e = (res, e1)" by fastforce
  have again: "ep_Compile E e1 = (res, e1)" using ep_Compile_once[of E e] c by simp
  have conf: "epConfigurable e1 = epConfigurable e"
    using c by (auto simp: ep_Compile_def Let_def split: if_splits option.splits prod.splits sum.splits)
  show ?thesis
  proof (cases res)
    case (Some err)
    with c again show ?thesis by (simp add: ep_Invoke_def)
  next
    case None
    with entry_ok_compile[OF assms(1), of E] c obtain cg where cg: "epCompiledGraph e1 = Some cg" by auto
    have "cf_Get (entry_config E e1 config) k = (case fmlookup m k of Some v \<Rightarrow> Some v | None \<Rightarrow> cf_Get (EnsureConfig config) k)" for k
      using entry_config_get[OF assms(3)] by (simp add: entry_config_def conf assms(2))
    with c None again cg show ?thesis
      by (auto simp: ep_Invoke_def Let_def intro!: exI[of _ "entry_config E e1 config"])
  qed
qed

definition demo_entry_env :: "(unit, unit) entry_env" where
  "demo_entry_env = \<lparr>eeLib = demo_lib, eeOrd = sorted_list_of_fmap, eeNames = [''a'', ''b''], eeFields = sorted_list_of_fmap,
     eeRuntime = demo_runtime, eeSaver = (\<lambda>_. None), eeConfig = sorted_list_of_fmap\<rparr>"

definition demo_entry :: "(unit, unit) entrypoint" where
  "demo_entry = NewEntrypointWithOptions ''e'' (\<lambda>ctx x w. (Returned x None, w)) None
     [WithEntrypointConfigurable (Some (fmupd ''user'' (VStr ''u'') fmempty))]"

lemma entrypoint_runs_graph_witness:
  "\<exists>e1. ep_Invoke demo_entry_env demo_entry None VNil None () =
     ((VNil, Some (Fail (ErrorString ''no graph associated with entrypoint''))), None, e1, ())"
proof -
  have ok: "entry_ok demo_entry" "epConfigurable demo_entry = Some (fmupd ''user'' (VStr ''u'') fmempty)"
    by (simp_all add: demo_entry_def NewEntrypointWithOptions_def NewEntrypoint_def WithEntrypointConfigurable_def entry_ok_def)
  have ent: "entries (fmupd ''user'' (VStr ''u'') fmempty) (eeConfig demo_entry_env (fmupd ''user'' (VStr ''u'') fmempty))"
    by (simp add: demo_entry_env_def entries_sorted)
  have "ep_Compile demo_entry_env demo_entry = (Some (ErrorString ''no graph associated with entrypoint''),
      demo_entry\<lparr>epCompiled := True, epCompileErr := Some (ErrorString ''no graph associated with entrypoint'')\<rparr>)"
    by (simp add: ep_Compile_def demo_entry_def NewEntrypointWithOptions_def NewEntrypoint_def WithEntrypointConfigurable_def Let_def)
  with entrypoint_runs_graph[OF ok ent, of None VNil None "()"] show ?thesis by auto
qed

text \<open>Without a graph every invocation and every batch of an entry point fails, also when it is given a graph
  after the first one, while the invocation with dependencies calls the function and unwraps a final
  value.\<close>

theorem entrypoint_needs_graph:
  assumes "epGraph e = None" "entry_ok e" "\<not> epCompiled e" "xs \<noteq> []"
  shows "\<exists>e1 err. ep_Invoke E e ctx input config w = ((VNil, Some (Fail err)), config, e1, w) \<and>
    ep_Invoke E (WithEntrypointGraph g e1) ctx input' config' w' = ((VNil, Some (Fail err)), config', WithEntrypointGraph g e1, w') \<and>
    ep_Batch E e ctx xs config w = (Inl (Fail (WrapError ''batch invocation failed at index 0'' err)), e1, w) \<and>
    (epFn e (Some \<lparr>ecConfig = config, ecPrevious = p, ecStore = epStore e, ecWriter = wr, ecRuntime = fmempty\<rparr>) input w =
       (Returned (Final v bs) None, w1) \<longrightarrow>
     InvokeWithDependencies E e ctx input config p VNil wr w = ((v, None), config, e, w1))"
proof -
  have zero: "show_nat 0 = ''0''" by code_simp
  obtain x ys where xs: "xs = x # ys" using assms(4) by (cases xs) auto
  show ?thesis
    using assms(1-3)
    by (auto simp: ep_Invoke_def ep_Compile_def Let_def WithEntrypointGraph_def InvokeWithDependencies_def
        task_InjectDependencies_def GetFinalValue_def IsFinal_Final ep_Batch_def xs zero)
qed

lemma entrypoint_needs_graph_witness:
  "\<exists>e1 err. ep_Invoke demo_entry_env demo_entry None VNil None () = ((VNil, Some (Fail err)), None, e1, ()) \<and>
    ep_Batch demo_entry_env demo_entry None [VNil] None () = (Inl (Fail (WrapError ''batch invocation failed at index 0'' err)), e1, ())"
proof -
  have e: "epGraph demo_entry = None" "entry_ok demo_entry" "\<not> epCompiled demo_entry"
    by (simp_all add: demo_entry_def NewEntrypointWithOptions_def NewEntrypoint_def WithEntrypointConfigurable_def entry_ok_def)
  have "[VNil] \<noteq> []" by simp
  from entrypoint_needs_graph[OF e this, of demo_entry_env None VNil None "()"] show ?thesis by blast
qed

end
