(* ===== verification/Graph_Tree.thy ===== *)
theory Graph_Tree
  imports Managed Engine_Sched
begin

text \<open>
  Compiled graphs with sub-graphs (\<^verbatim>\<open>graph/compiled.go\<close>). The graphs below one root form a tree that is
  reached through pointers to sub-graphs and parents; here it is a map from the path of names, from the
  root down, to what a graph holds, so the parent of a graph is the graph at the path without its last
  name.
\<close>

section \<open>The tree\<close>

record ('w, 'c) csg =
  csCompiled :: "('w, 'c) compiled"
  csNamespace :: string
  csCheckpointMap :: "(string, string) fmap"

type_synonym ('w, 'c) csg_tree = "(string list, ('w, 'c) csg) fmap"

definition NewCompiledStateGraph :: "('w, 'c) compiled \<Rightarrow> ('w, 'c) csg_tree" where
  "NewCompiledStateGraph cg = fmupd [] \<lparr>csCompiled = cg, csNamespace = [], csCheckpointMap = fmempty\<rparr> fmempty"

definition buildSubgraphNamespace :: "string \<Rightarrow> string \<Rightarrow> string" where
  "buildSubgraphNamespace parentNS name = (if parentNS = [] then name else parentNS @ ''|'' @ name)"

definition buildTaskPath :: "string \<Rightarrow> string \<Rightarrow> string" where
  "buildTaskPath namespace name = (if namespace = [] then name @ '':'' else namespace @ ''|'' @ name @ '':'')"

text \<open>\<open>compile\<close> is \<open>Compile\<close> without options; a graph of another type than the builder's is its type name.\<close>

definition AddSubgraph ::
  "('w sgraph \<Rightarrow> gerr + ('w, 'c) compiled) \<Rightarrow> string list \<Rightarrow> string \<Rightarrow> string + 'w sgraph \<Rightarrow> ('w, 'c) csg_tree
   \<Rightarrow> gerr option \<times> ('w, 'c) csg_tree"
where
  "AddSubgraph compile p name sg t =
     (if fmlookup t (p @ [name]) \<noteq> None
      then (Some (ErrorString (''subgraph '' @ [CHR 0x27] @ name @ [CHR 0x27] @ '' already exists'')), t)
      else case sg of
        Inl ty \<Rightarrow> (Some (ErrorString (''subgraph type '' @ ty @ '' does not support Compile'')), t)
      | Inr g \<Rightarrow> (case compile g of
          Inl e \<Rightarrow> (Some (WrapError (''failed to compile subgraph '' @ [CHR 0x27] @ name @ [CHR 0x27]) e), t)
        | Inr cg \<Rightarrow> (case fmlookup t p of
            None \<Rightarrow> (None, t)
          | Some c \<Rightarrow> (None, fmupd (p @ [name]) \<lparr>csCompiled = cg,
                csNamespace = buildSubgraphNamespace (csNamespace c) name, csCheckpointMap = fmempty\<rparr> t))))"

definition csg_GetSubgraph :: "string list \<Rightarrow> string \<Rightarrow> ('w, 'c) csg_tree \<Rightarrow> string list option" where
  "csg_GetSubgraph p name t = (if fmlookup t (p @ [name]) \<noteq> None then Some (p @ [name]) else None)"

definition csg_GetNamespace :: "string list \<Rightarrow> ('w, 'c) csg_tree \<Rightarrow> string" where
  "csg_GetNamespace p t = (case fmlookup t p of Some c \<Rightarrow> csNamespace c | None \<Rightarrow> [])"

definition csg_GetParent :: "string list \<Rightarrow> string list option" where
  "csg_GetParent p = (if p = [] then None else Some (butlast p))"

definition csg_IsRoot :: "string list \<Rightarrow> bool" where
  "csg_IsRoot p \<longleftrightarrow> csg_GetParent p = None"

definition csg_GetCheckpointMap :: "string list \<Rightarrow> ('w, 'c) csg_tree \<Rightarrow> (string, string) fmap" where
  "csg_GetCheckpointMap p t = (case fmlookup t p of Some c \<Rightarrow> csCheckpointMap c | None \<Rightarrow> fmempty)"

definition generateCheckpointID :: "string \<Rightarrow> string" where
  "generateCheckpointID uuid = ''ckp_'' @ uuid"

definition record_checkpoint :: "string list \<Rightarrow> string \<Rightarrow> string \<Rightarrow> ('w, 'c) csg_tree \<Rightarrow> ('w, 'c) csg_tree" where
  "record_checkpoint p k v t = (case fmlookup t p of
     None \<Rightarrow> t | Some c \<Rightarrow> fmupd p (c\<lparr>csCheckpointMap := fmupd k v (csCheckpointMap c)\<rparr>) t)"

definition MigrateCheckpoint ::
  "string \<Rightarrow> string list \<Rightarrow> string \<Rightarrow> string \<Rightarrow> ('w, 'c) csg_tree \<Rightarrow> (gerr + string) \<times> ('w, 'c) csg_tree"
where
  "MigrateCheckpoint uuid p cpID toSub t =
     (if toSub = [] then
        (if csg_GetParent p = None then (Inl (ErrorString ''no parent graph to migrate to''), t)
         else case fmlookup (csg_GetCheckpointMap p t) cpID of
             None \<Rightarrow> (Inl (ErrorString (''no parent checkpoint mapping found for '' @ cpID)), t)
           | Some i \<Rightarrow> (Inr i, t))
      else if fmlookup t (p @ [toSub]) = None
        then (Inl (ErrorString (''subgraph '' @ [CHR 0x27] @ toSub @ [CHR 0x27] @ '' not found'')), t)
        else (let i = generateCheckpointID uuid
          in (Inr i, record_checkpoint p cpID i (record_checkpoint (p @ [toSub]) i cpID t))))"

text \<open>The namespace is written into the configuration, which the caller sees; the base graph then runs.\<close>

definition csg_config :: "('w, 'c) csg \<Rightarrow> runnable_config option list \<Rightarrow> runnable_config" where
  "csg_config c cfgs = cf_Set (case cfgs of Some rc # _ \<Rightarrow> rc | _ \<Rightarrow> zero_config) ''checkpoint_ns'' (VStr (csNamespace c))"

definition csg_Invoke ::
  "golib \<Rightarrow> 'w runtime \<Rightarrow> ('c \<Rightarrow> 'w saver option) \<Rightarrow> string list \<Rightarrow> ('w, 'c) csg_tree \<Rightarrow> gval \<Rightarrow> runnable_config option list \<Rightarrow> 'w
   \<Rightarrow> ((fault + gval) \<times> 'w phase option \<times> 'w) option"
where
  "csg_Invoke L R asSaver p t input cfgs w = map_option
     (\<lambda>c. cg_Invoke L R asSaver (csCompiled c) input [Some (csg_config c cfgs)] w) (fmlookup t p)"

section \<open>Reachable trees\<close>

inductive tree_reachable :: "('w sgraph \<Rightarrow> gerr + ('w, 'c) compiled) \<Rightarrow> ('w, 'c) csg_tree \<Rightarrow> bool" for compile where
  root: "tree_reachable compile (NewCompiledStateGraph cg)"
| add: "tree_reachable compile t \<Longrightarrow> fmlookup t p \<noteq> None \<Longrightarrow> tree_reachable compile (snd (AddSubgraph compile p name sg t))"
| migrate: "tree_reachable compile t \<Longrightarrow> tree_reachable compile (snd (MigrateCheckpoint uuid p cpID toSub t))"

definition namespaces :: "('w, 'c) csg_tree \<Rightarrow> string list \<Rightarrow> string option" where
  "namespaces t p = map_option csNamespace (fmlookup t p)"

definition tree_ok :: "('w, 'c) csg_tree \<Rightarrow> bool" where
  "tree_ok t \<longleftrightarrow> namespaces t [] = Some [] \<and>
     (\<forall>p n s. namespaces t (p @ [n]) = Some s \<longrightarrow> (\<exists>d. namespaces t p = Some d \<and> s = buildSubgraphNamespace d n))"

lemma record_lookup:
  "fmlookup (record_checkpoint p k v t) q =
     map_option (\<lambda>c. if q = p then c\<lparr>csCheckpointMap := fmupd k v (csCheckpointMap c)\<rparr> else c) (fmlookup t q)"
  by (cases "q = p"; cases "fmlookup t q") (auto simp: record_checkpoint_def split: option.splits)

lemma record_ok: "tree_ok t \<Longrightarrow> tree_ok (record_checkpoint p k v t)"
proof -
  have "namespaces (record_checkpoint p k v t) = namespaces t"
    by (rule ext) (auto simp: namespaces_def record_lookup option.map_comp comp_def intro: option.map_cong)
  then show "tree_ok t \<Longrightarrow> tree_ok (record_checkpoint p k v t)" by (simp add: tree_ok_def)
qed

lemma add_ok:
  assumes "tree_ok t" "fmlookup t p = Some d"
  shows "tree_ok (snd (AddSubgraph compile p name sg t))"
proof (cases "snd (AddSubgraph compile p name sg t) = t")
  case False
  then obtain cg where new: "fmlookup t (p @ [name]) = None" and t': "snd (AddSubgraph compile p name sg t) =
      fmupd (p @ [name]) \<lparr>csCompiled = cg, csNamespace = buildSubgraphNamespace (csNamespace d) name, csCheckpointMap = fmempty\<rparr> t"
    by (auto simp: AddSubgraph_def assms(2) split: option.splits sum.splits if_splits)
  have upd: "namespaces (snd (AddSubgraph compile p name sg t)) q =
      (if q = p @ [name] then Some (buildSubgraphNamespace (csNamespace d) name) else namespaces t q)" for q
    by (simp add: t' namespaces_def)
  have none: "namespaces t ((p @ [name]) @ [n]) = None" for n
  proof (cases "namespaces t ((p @ [name]) @ [n])")
    case (Some s)
    with assms(1) new show ?thesis unfolding tree_ok_def by (metis namespaces_def option.simps(3) option.simps(8))
  qed
  have "\<exists>c. namespaces (snd (AddSubgraph compile p name sg t)) q = Some c \<and> s = buildSubgraphNamespace c n"
    if "namespaces (snd (AddSubgraph compile p name sg t)) (q @ [n]) = Some s" for q n s
  proof (cases "q @ [n] = p @ [name]")
    case True
    have "namespaces t p = Some (csNamespace d)" by (simp add: namespaces_def assms(2))
    with True that show ?thesis by (auto simp: upd)
  next
    case False
    with that have "namespaces t (q @ [n]) = Some s" by (auto simp: upd split: if_splits)
    with assms(1) none[of n] show ?thesis unfolding tree_ok_def upd by fastforce
  qed
  moreover have "namespaces (snd (AddSubgraph compile p name sg t)) [] = Some []"
    using assms(1) by (simp add: upd tree_ok_def)
  ultimately show ?thesis unfolding tree_ok_def by blast
qed (simp add: assms(1))

lemma reachable_ok: "tree_reachable compile t \<Longrightarrow> tree_ok t"
proof (induction rule: tree_reachable.induct)
  case (root cg)
  show ?case by (simp add: tree_ok_def namespaces_def NewCompiledStateGraph_def)
next
  case (add t p name sg)
  then show ?case using add_ok by blast
next
  case (migrate t uuid p cpID toSub)
  then show ?case
    by (auto simp: MigrateCheckpoint_def Let_def record_ok split: option.splits if_splits)
qed

lemma ok_namespace:
  assumes "tree_ok t"
  shows "namespaces t p = Some s \<Longrightarrow> [] \<notin> set p \<Longrightarrow> s = joinCheckpointNS p"
proof (induction p arbitrary: s rule: rev_induct)
  case Nil
  with assms show ?case by (auto simp: tree_ok_def joinCheckpointNS_def)
next
  case (snoc n p)
  from assms snoc.prems(1) obtain d where d: "namespaces t p = Some d" "s = buildSubgraphNamespace d n"
    unfolding tree_ok_def by blast
  with snoc.IH[OF d(1)] snoc.prems(2) have ns: "s = buildSubgraphNamespace (joinCheckpointNS p) n" by simp
  show ?case
  proof (cases p)
    case Nil
    then show ?thesis by (simp add: ns buildSubgraphNamespace_def joinCheckpointNS_def)
  next
    case (Cons m q)
    have "join_ns r (q @ [n]) = join_ns r q @ ''|'' @ n" for r q
      by (induction r q rule: join_ns.induct) simp_all
    moreover have "join_ns m q \<noteq> []" using snoc.prems(2) Cons by (auto simp: join_ns_join)
    ultimately show ?thesis by (simp add: ns Cons buildSubgraphNamespace_def joinCheckpointNS_def)
  qed
qed

lemma ParseCheckpointNS_join:
  assumes "[] \<notin> set p" "\<forall>n \<in> set p. CHR ''|'' \<notin> set n"
  shows "ParseCheckpointNS (joinCheckpointNS p) = p"
proof (cases p)
  case (Cons n q)
  then have "joinCheckpointNS p \<noteq> []" using assms(1) by (auto simp: joinCheckpointNS_def join_ns_join)
  with assms(2) Cons show ?thesis
    by (simp add: ParseCheckpointNS_def splitCheckpointNS_def joinCheckpointNS_join split_on_join del: join_with.simps)
qed (simp add: ParseCheckpointNS_def joinCheckpointNS_def)

section \<open>Properties\<close>

text \<open>In every tree that is built by adding sub-graphs and migrating checkpoints, the namespace of a graph is
  the path of names that leads to it, so it tells the graphs of the tree apart and parses back into
  the path, as long as names are not empty and do not contain the separator.\<close>

theorem tree_namespaces:
  assumes "tree_reachable compile t" "fmlookup t p = Some c" "\<forall>n \<in> set p. n \<noteq> [] \<and> CHR ''|'' \<notin> set n"
  shows "csNamespace c = joinCheckpointNS p \<and> csg_GetNamespace p t = csNamespace c \<and> ParseCheckpointNS (csNamespace c) = p \<and>
    (p \<noteq> [] \<longrightarrow> (\<exists>d. fmlookup t (butlast p) = Some d \<and> csNamespace c = buildSubgraphNamespace (csNamespace d) (last p)))"
proof -
  have ok: "tree_ok t" by (rule reachable_ok[OF assms(1)])
  have ne: "[] \<notin> set p" and sep: "\<forall>n \<in> set p. CHR ''|'' \<notin> set n" using assms(3) by auto
  have ns: "csNamespace c = joinCheckpointNS p"
    using ok_namespace[OF ok _ ne] assms(2) by (simp add: namespaces_def)
  have "\<exists>d. fmlookup t (butlast p) = Some d \<and> csNamespace c = buildSubgraphNamespace (csNamespace d) (last p)" if "p \<noteq> []"
  proof -
    have "namespaces t (butlast p @ [last p]) = Some (csNamespace c)" using that assms(2) by (simp add: namespaces_def)
    with ok show ?thesis unfolding tree_ok_def namespaces_def by fastforce
  qed
  with ns assms(2) ParseCheckpointNS_join[OF ne sep] show ?thesis by (simp add: csg_GetNamespace_def)
qed

definition demo_base_graph :: "(unit, unit) compiled" where
  "demo_base_graph = \<lparr>cgGraph = demo_graph, cgCheckpointer = None, cgInterrupts = {}, cgInterruptsAfter = {},
     cgRecursionLimit = 50, cgDebug = False, cgNodeTriggerMode = NodeTriggerAnyPredecessor\<rparr>"

definition demo_tree :: "(unit, unit) csg_tree" where
  "demo_tree = snd (AddSubgraph (\<lambda>g. Inr demo_base_graph) [''a''] ''b'' (Inr demo_graph)
     (snd (AddSubgraph (\<lambda>g. Inr demo_base_graph) [] ''a'' (Inr demo_graph) (NewCompiledStateGraph demo_base_graph))))"

lemma demo_tree_reachable: "tree_reachable (\<lambda>g. Inr demo_base_graph) demo_tree"
  unfolding demo_tree_def
  by (intro tree_reachable.add tree_reachable.root) (simp_all add: AddSubgraph_def NewCompiledStateGraph_def)

lemma demo_tree_lookup:
  "fmlookup demo_tree [''a'', ''b''] = Some \<lparr>csCompiled = demo_base_graph, csNamespace = ''a|b'', csCheckpointMap = fmempty\<rparr>"
  "fmlookup demo_tree [''a''] = Some \<lparr>csCompiled = demo_base_graph, csNamespace = ''a'', csCheckpointMap = fmempty\<rparr>"
  by (simp_all add: demo_tree_def AddSubgraph_def NewCompiledStateGraph_def buildSubgraphNamespace_def)

lemma tree_namespaces_witness:
  "csg_GetNamespace [''a'', ''b''] demo_tree = ''a|b'' \<and> ParseCheckpointNS ''a|b'' = [''a'', ''b'']"
proof -
  have "\<forall>n \<in> set [''a'', ''b'']. n \<noteq> [] \<and> CHR ''|'' \<notin> set n" by simp
  from tree_namespaces[OF demo_tree_reachable demo_tree_lookup(1) this, unfolded csg.simps] show ?thesis by blast
qed

text \<open>A checkpoint that is migrated into a sub-graph gets a new identifier, under which it is found again by
  migrating to the parent; but a graph records both directions in one map, so a graph that could
  migrate the checkpoint to its own parent finds the identifier of the sub-graph there afterwards.\<close>

theorem migrate_checkpoint_back:
  assumes "fmlookup t p = Some c" "fmlookup t (p @ [name]) = Some d" "name \<noteq> []"
  shows "\<exists>i t'. MigrateCheckpoint uuid p cpID name t = (Inr i, t') \<and>
    MigrateCheckpoint uuid' (p @ [name]) i [] t' = (Inr cpID, t') \<and>
    (p \<noteq> [] \<longrightarrow> MigrateCheckpoint uuid' p cpID [] t' = (Inr i, t'))"
  using assms
  by (auto simp: MigrateCheckpoint_def Let_def csg_GetParent_def csg_GetCheckpointMap_def record_lookup)

lemma migrate_checkpoint_back_witness:
  "\<exists>i t'. MigrateCheckpoint ''u'' [''a''] ''c'' ''b'' demo_tree = (Inr i, t') \<and>
    MigrateCheckpoint ''v'' [''a'', ''b''] i [] t' = (Inr ''c'', t') \<and> MigrateCheckpoint ''v'' [''a''] ''c'' [] t' = (Inr i, t')"
  using migrate_checkpoint_back[where t = demo_tree and p = "[''a'']" and name = "''b''" and uuid = "''u''" and uuid' = "''v''"
      and cpID = "''c''", OF demo_tree_lookup(2)] demo_tree_lookup(1) by simp

text \<open>Adding a sub-graph under a name that is taken, of a foreign type, or that does not compile leaves the tree
  as it is; otherwise exactly one graph is added, and an invocation of it runs the compiled graph
  with its namespace in the configuration.\<close>

theorem AddSubgraph_adds:
  assumes "fmlookup t p = Some c" "AddSubgraph compile p name sg t = (err, t')"
  shows "if csg_GetSubgraph p name t = None \<and> (\<exists>g cg. sg = Inr g \<and> compile g = Inr cg)
    then err = None \<and> csg_GetSubgraph p name t' = Some (p @ [name]) \<and> fmdrop (p @ [name]) t' = t \<and>
      (\<exists>cg. compile (projr sg) = Inr cg \<and> csg_Invoke L R asSaver (p @ [name]) t' input [Some rc] w =
         Some (cg_Invoke L R asSaver cg input
           [Some (cf_Set rc ''checkpoint_ns'' (VStr (buildSubgraphNamespace (csNamespace c) name)))] w))
    else err \<noteq> None \<and> t' = t"
proof -
  have drop: "fmdrop q (fmupd q x t) = t" if "fmlookup t q = None" for q x
    by (rule fmap_ext) (use that in auto)
  show ?thesis
    using assms
    by (cases sg; cases "compile (projr sg)")
      (auto simp: AddSubgraph_def csg_GetSubgraph_def csg_Invoke_def csg_config_def drop split: option.splits if_splits)
qed

lemma AddSubgraph_adds_witness:
  "fst (AddSubgraph (\<lambda>g. Inr demo_base_graph) [''a''] ''b'' (Inr demo_graph) demo_tree) \<noteq> None"
  using AddSubgraph_adds[where t = demo_tree and p = "[''a'']" and name = "''b''" and compile = "\<lambda>g. Inr demo_base_graph"
      and sg = "Inr demo_graph", OF demo_tree_lookup(2) prod.collapse[symmetric]]
  by (simp add: csg_GetSubgraph_def demo_tree_lookup)

end
