(* ===== verification/Priority_Heap.thy ===== *)
theory Priority_Heap
  imports Optimized
begin

text \<open>
  The priority queue of \<^verbatim>\<open>pregel/background.go\<close>, a binary heap in a slice, with the tasks it holds. The locale
  \<open>priority_queue\<close> is what a caller of a priority queue relies on; it is interpreted on the heap and on the
  queue of the optimised engine.
\<close>

section \<open>The contract\<close>

text \<open>\<open>drawn pop n q\<close> pops \<open>n\<close> times.\<close>

fun drawn :: "('q \<Rightarrow> 'a option \<times> 'q) \<Rightarrow> nat \<Rightarrow> 'q \<Rightarrow> 'a option list \<times> 'q" where
  "drawn pop 0 q = ([], q)"
| "drawn pop (Suc n) q = (case pop q of (x, q1) \<Rightarrow> (case drawn pop n q1 of (xs, q2) \<Rightarrow> (x # xs, q2)))"

locale priority_queue =
  fixes push :: "'q \<Rightarrow> 'a \<Rightarrow> 'q"
    and pop :: "'q \<Rightarrow> 'a option \<times> 'q"
    and contents :: "'q \<Rightarrow> 'a multiset"
    and wf :: "'q \<Rightarrow> bool"
    and rank :: "'a \<Rightarrow> int"
  assumes push_wf: "wf q \<Longrightarrow> wf (push q x)"
    and push_contents: "wf q \<Longrightarrow> contents (push q x) = add_mset x (contents q)"
    and pop_none: "wf q \<Longrightarrow> contents q = {#} \<Longrightarrow> pop q = (None, q)"
    and pop_some: "wf q \<Longrightarrow> contents q \<noteq> {#} \<Longrightarrow> \<exists>x q1. pop q = (Some x, q1) \<and> wf q1 \<and>
      contents q = add_mset x (contents q1) \<and> (\<forall>y \<in># contents q1. rank y \<le> rank x)"
begin

lemma pushes: "wf q \<Longrightarrow> wf (foldl push q xs) \<and> contents (foldl push q xs) = mset xs + contents q"
  by (induction xs arbitrary: q) (auto simp: push_wf push_contents)

text \<open>Popping everything is sorting by rank, highest first.\<close>

lemma pops_sorted: "wf q \<Longrightarrow> n = size (contents q) \<Longrightarrow>
  \<exists>ys q1. drawn pop n q = (map Some ys, q1) \<and> contents q1 = {#} \<and> wf q1 \<and>
    mset ys = contents q \<and> sorted_wrt (\<lambda>x y. rank y \<le> rank x) ys"
proof (induction n arbitrary: q)
  case 0
  then show ?case by simp
next
  case (Suc n)
  then have "contents q \<noteq> {#}" by auto
  then obtain x q1 where p: "pop q = (Some x, q1)" "wf q1" "contents q = add_mset x (contents q1)"
    "\<forall>y \<in># contents q1. rank y \<le> rank x" using pop_some Suc.prems(1) by blast
  then have "n = size (contents q1)" using Suc.prems(2) by simp
  then obtain ys q2 where "drawn pop n q1 = (map Some ys, q2)" "contents q2 = {#}" "wf q2"
    "mset ys = contents q1" "sorted_wrt (\<lambda>x y. rank y \<le> rank x) ys" using Suc.IH p(2) by blast
  then have "drawn pop (Suc n) q = (map Some (x # ys), q2) \<and> contents q2 = {#} \<and> wf q2 \<and> mset (x # ys) = contents q \<and>
      sorted_wrt (\<lambda>x y. rank y \<le> rank x) (x # ys)"
    using p by (auto simp flip: set_mset_mset)
  then show ?case by blast
qed

lemma sorts: "wf q \<Longrightarrow> contents q = {#} \<Longrightarrow>
  \<exists>ys q1. drawn pop (length xs) (foldl push q xs) = (map Some ys, q1) \<and> contents q1 = {#} \<and>
    mset ys = mset xs \<and> sorted_wrt (\<lambda>x y. rank y \<le> rank x) ys"
  using pops_sorted[of "foldl push q xs" "length xs"] pushes[of q xs] by auto

end

section \<open>Tasks\<close>

text \<open>Where a submitted task is, for its caller.\<close>

datatype submission =
    Submitting
  | Accepted
  | Refused gerr

record bg_result =
  brTaskID :: string
  brName :: string
  brOutput :: gval
  brErr :: "gerr option"

text \<open>
  \<open>bkFunc\<close> is told whether the context of the task is done. \<open>bkDone\<close> says that the context of the caller is
  done, with the error \<open>bkCtxErr\<close>, and \<open>bkCancelled\<close> that the one derived for the task is. \<open>bkResult\<close> is the
  buffer of one result.
\<close>

record bg_task =
  bkID :: string
  bkName :: string
  bkFunc :: "bool \<Rightarrow> gval \<times> gerr option"
  bkPriority :: int
  bkCtxErr :: gerr
  bkDone :: bool
  bkCancelled :: bool
  bkStatus :: submission
  bkResult :: "bg_result option"

section \<open>The heap\<close>

definition swapped :: "'a list \<Rightarrow> nat \<Rightarrow> nat \<Rightarrow> 'a list" where
  "swapped ts i j = ts[i := ts ! j, j := ts ! i]"

function heapifyUp :: "bg_task list \<Rightarrow> nat \<Rightarrow> bg_task list" where
  "heapifyUp ts index = (if index = 0 then ts
     else let parent = (index - 1) div 2 in
       if bkPriority (ts ! parent) \<ge> bkPriority (ts ! index) then ts
       else heapifyUp (swapped ts parent index) parent)"
  by auto
termination by (relation "measure snd") auto

definition largest_of :: "bg_task list \<Rightarrow> nat \<Rightarrow> nat" where
  "largest_of ts index =
     (let n = length ts; left = 2 * index + 1; right = 2 * index + 2;
          largest = (if left < n \<and> bkPriority (ts ! left) > bkPriority (ts ! index) then left else index)
      in if right < n \<and> bkPriority (ts ! right) > bkPriority (ts ! largest) then right else largest)"

lemma largest_of_less: "largest_of ts i \<noteq> i \<Longrightarrow> i < largest_of ts i \<and> largest_of ts i < length ts"
  by (auto simp: largest_of_def Let_def split: if_splits)

lemma length_swapped [simp]: "length (swapped ts i j) = length ts"
  by (simp add: swapped_def)

function heapifyDown :: "bg_task list \<Rightarrow> nat \<Rightarrow> bg_task list" where
  "heapifyDown ts index = (let largest = largest_of ts index in
     if largest = index then ts else heapifyDown (swapped ts index largest) largest)"
  by auto
termination
  by (relation "measure (\<lambda>(ts, i). length ts - i)") (auto dest!: largest_of_less)

definition hq_Push :: "bg_task list \<Rightarrow> bg_task \<Rightarrow> bg_task list" where
  "hq_Push ts task = heapifyUp (ts @ [task]) (length ts)"

definition hq_Pop :: "bg_task list \<Rightarrow> bg_task option \<times> bg_task list" where
  "hq_Pop ts = (if ts = [] then (None, ts)
     else let ts1 = butlast (ts[0 := ts ! (length ts - 1)]) in
       (Some (ts ! 0), if ts1 \<noteq> [] then heapifyDown ts1 0 else ts1))"

definition hq_Len :: "bg_task list \<Rightarrow> nat" where
  "hq_Len ts = length ts"

declare heapifyUp.simps [simp del] heapifyDown.simps [simp del]

section \<open>It is a priority queue\<close>

definition parent_of :: "nat \<Rightarrow> nat" where
  "parent_of i = (i - 1) div 2"

definition is_heap :: "bg_task list \<Rightarrow> bool" where
  "is_heap ts = (\<forall>j \<in> {1..<length ts}. bkPriority (ts ! parent_of j) \<ge> bkPriority (ts ! j))"

text \<open>
  A heap but for the edge above \<open>i\<close>, or for the edges below it. The children of \<open>i\<close> are bounded by its
  parent in both cases.
\<close>

definition below_parent :: "bg_task list \<Rightarrow> nat \<Rightarrow> bool" where
  "below_parent ts i = (i > 0 \<longrightarrow> (\<forall>j \<in> {1..<length ts}. parent_of j = i \<longrightarrow>
     bkPriority (ts ! parent_of i) \<ge> bkPriority (ts ! j)))"

definition heap_but_up :: "bg_task list \<Rightarrow> nat \<Rightarrow> bool" where
  "heap_but_up ts i = (below_parent ts i \<and>
     (\<forall>j \<in> {1..<length ts}. j \<noteq> i \<longrightarrow> bkPriority (ts ! parent_of j) \<ge> bkPriority (ts ! j)))"

definition heap_but_down :: "bg_task list \<Rightarrow> nat \<Rightarrow> bool" where
  "heap_but_down ts i = (below_parent ts i \<and>
     (\<forall>j \<in> {1..<length ts}. parent_of j \<noteq> i \<longrightarrow> bkPriority (ts ! parent_of j) \<ge> bkPriority (ts ! j)))"

lemma nth_swapped: "i < length ts \<Longrightarrow> j < length ts \<Longrightarrow>
  swapped ts i j ! k = (if k = i then ts ! j else if k = j then ts ! i else ts ! k)"
  by (auto simp: swapped_def nth_list_update)

lemma mset_swapped: "i < length ts \<Longrightarrow> j < length ts \<Longrightarrow> mset (swapped ts i j) = mset ts"
  by (simp add: swapped_def mset_swap)

lemma parent_less: "j > 0 \<Longrightarrow> parent_of j < j"
  by (auto simp: parent_of_def)

lemma heapifyUp_mset: "i < length ts \<Longrightarrow> mset (heapifyUp ts i) = mset ts"
proof (induction ts i rule: heapifyUp.induct)
  case (1 ts i)
  have "i > 0 \<Longrightarrow> (i - 1) div 2 < length ts" using 1(2) by auto
  then show ?case using 1 by (subst heapifyUp.simps) (simp add: Let_def mset_swapped)
qed

lemma heapifyDown_mset: "i < length ts \<Longrightarrow> mset (heapifyDown ts i) = mset ts"
proof (induction ts i rule: heapifyDown.induct)
  case (1 ts i)
  then show ?case using largest_of_less[of ts i]
    by (subst heapifyDown.simps) (simp add: Let_def mset_swapped)
qed

text \<open>The edges of a swapped list, each in terms of the list before.\<close>

lemma up_step:
  assumes h: "heap_but_up ts i" and i: "i < length ts" "i > 0" and less: "bkPriority (ts ! parent_of i) < bkPriority (ts ! i)"
  shows "heap_but_up (swapped ts (parent_of i) i) (parent_of i)"
proof -
  let ?p = "parent_of i" and ?f = "\<lambda>j. bkPriority (ts ! j)"
  have p: "?p < i" "?p < length ts" using i parent_less[of i] by auto
  have edge: "?f j \<le> ?f (parent_of j)" if "0 < j" "j < length ts" "j \<noteq> i" for j
    using h that by (simp add: heap_but_up_def Suc_le_eq)
  have below: "?f j \<le> ?f ?p" if "0 < j" "j < length ts" "parent_of j = i" for j
    using h that i by (simp add: heap_but_up_def below_parent_def Suc_le_eq)
  have sib: "?f j \<le> ?f ?p" if "0 < j" "j < length ts" "parent_of j = ?p" "j \<noteq> i" for j
    using edge[of j] that by simp
  have "bkPriority (swapped ts ?p i ! parent_of ?p) \<ge> bkPriority (swapped ts ?p i ! j)"
    if "?p > 0" "0 < j" "j < length ts" "parent_of j = ?p" for j
  proof -
    have ne: "parent_of ?p < ?p" "j \<noteq> ?p" using parent_less that by (auto dest: parent_less)
    then have "?f ?p \<le> ?f (parent_of ?p)" using edge[of ?p] that p by simp
    then show ?thesis using ne p i sib[of j] that by (auto simp: nth_swapped)
  qed
  then have "below_parent (swapped ts ?p i) ?p" by (simp add: below_parent_def Suc_le_eq)
  moreover have "bkPriority (swapped ts ?p i ! parent_of j) \<ge> bkPriority (swapped ts ?p i ! j)"
    if "0 < j" "j < length ts" "j \<noteq> ?p" for j
    using that p i less edge[of j] below[of j] sib[of j] parent_less[of j] by (auto simp: nth_swapped)
  ultimately show ?thesis
    unfolding heap_but_up_def by (auto simp: Suc_le_eq)
qed

lemma heapifyUp_heap: "i < length ts \<Longrightarrow> heap_but_up ts i \<Longrightarrow> is_heap (heapifyUp ts i)"
proof (induction ts i rule: heapifyUp.induct)
  case (1 ts i)
  show ?case
  proof (cases "i = 0 \<or> bkPriority (ts ! parent_of i) \<ge> bkPriority (ts ! i)")
    case True
    then have "is_heap ts" using 1(3) by (auto simp: is_heap_def heap_but_up_def)
    then show ?thesis using True by (subst heapifyUp.simps) (auto simp: Let_def parent_of_def)
  next
    case False
    then have "heap_but_up (swapped ts (parent_of i) i) (parent_of i)" using up_step 1 by simp
    then show ?thesis using False 1(1)[OF _ refl] 1(2) parent_less[of i]
      by (subst heapifyUp.simps) (auto simp: Let_def parent_of_def)
  qed
qed

text \<open>The children of \<open>i\<close> are \<open>2 i + 1\<close> and \<open>2 i + 2\<close>, and \<open>largest_of\<close> chooses the largest of the three.\<close>

lemma parent_of_iff: "0 < j \<Longrightarrow> parent_of j = i \<longleftrightarrow> j = 2 * i + 1 \<or> j = 2 * i + 2"
  by (auto simp: parent_of_def)

lemma largest_of_max:
  "bkPriority (ts ! i) \<le> bkPriority (ts ! largest_of ts i)"
  "0 < j \<Longrightarrow> j < length ts \<Longrightarrow> parent_of j = i \<Longrightarrow> bkPriority (ts ! j) \<le> bkPriority (ts ! largest_of ts i)"
  "largest_of ts i \<noteq> i \<Longrightarrow> parent_of (largest_of ts i) = i"
  by (auto simp: largest_of_def Let_def parent_of_iff)

lemma down_step:
  assumes h: "heap_but_down ts i" and i: "i < length ts" and ne: "largest_of ts i \<noteq> i"
  shows "heap_but_down (swapped ts i (largest_of ts i)) (largest_of ts i)"
proof -
  let ?l = "largest_of ts i" and ?f = "\<lambda>j. bkPriority (ts ! j)"
  have l: "i < ?l" "?l < length ts" "parent_of ?l = i" using largest_of_less[OF ne] largest_of_max(3)[OF ne] by auto
  have edge: "?f j \<le> ?f (parent_of j)" if "0 < j" "j < length ts" "parent_of j \<noteq> i" for j
    using h that by (simp add: heap_but_down_def Suc_le_eq)
  have below: "?f j \<le> ?f (parent_of i)" if "0 < j" "j < length ts" "parent_of j = i" "i > 0" for j
    using h that by (simp add: heap_but_down_def below_parent_def Suc_le_eq)
  have "bkPriority (swapped ts i ?l ! parent_of ?l) \<ge> bkPriority (swapped ts i ?l ! j)"
    if "0 < j" "j < length ts" "parent_of j = ?l" for j
  proof -
    have "j > ?l" using parent_less[of j] that by simp
    then show ?thesis using edge[of j] that l i by (simp add: nth_swapped)
  qed
  then have "below_parent (swapped ts i ?l) ?l" by (simp add: below_parent_def Suc_le_eq)
  moreover have "bkPriority (swapped ts i ?l ! parent_of j) \<ge> bkPriority (swapped ts i ?l ! j)"
    if "0 < j" "j < length ts" "parent_of j \<noteq> ?l" for j
    using that l i edge[of j] below[of j] below[of ?l] largest_of_max(1)[of ts i] largest_of_max(2)[of j ts i] parent_less[of j]
    by (auto simp: nth_swapped)
  ultimately show ?thesis
    unfolding heap_but_down_def by (auto simp: Suc_le_eq)
qed


lemma heapifyDown_heap: "i < length ts \<Longrightarrow> heap_but_down ts i \<Longrightarrow> is_heap (heapifyDown ts i)"
proof (induction ts i rule: heapifyDown.induct)
  case (1 ts i)
  show ?case
  proof (cases "largest_of ts i = i")
    case True
    then have "bkPriority (ts ! parent_of j) \<ge> bkPriority (ts ! j)" if "0 < j" "j < length ts" for j
      using 1(3) that largest_of_max(2)[of j ts i]
      by (cases "parent_of j = i") (auto simp: heap_but_down_def Suc_le_eq)
    then have "is_heap ts" by (simp add: is_heap_def Suc_le_eq)
    then show ?thesis using True by (subst heapifyDown.simps) (simp add: Let_def)
  next
    case False
    then show ?thesis using 1(1)[OF refl False] down_step[OF 1(3) 1(2) False] largest_of_less[OF False]
      by (subst heapifyDown.simps) (simp add: Let_def)
  qed
qed

lemma heap_top: "is_heap ts \<Longrightarrow> j < length ts \<Longrightarrow> bkPriority (ts ! j) \<le> bkPriority (ts ! 0)"
proof (induction j rule: less_induct)
  case (less j)
  show ?case
  proof (cases "j = 0")
    case False
    then have "bkPriority (ts ! j) \<le> bkPriority (ts ! parent_of j)" "parent_of j < j"
      using less.prems parent_less[of j] by (auto simp: is_heap_def Suc_le_eq)
    then show ?thesis using less.IH[of "parent_of j"] less.prems by simp
  qed simp
qed

lemma Push_heap: "is_heap ts \<Longrightarrow> is_heap (hq_Push ts t) \<and> mset (hq_Push ts t) = add_mset t (mset ts)"
proof -
  assume h: "is_heap ts"
  have "bkPriority ((ts @ [t]) ! parent_of j) \<ge> bkPriority ((ts @ [t]) ! j)" if "0 < j" "j < length ts" for j
    using h that parent_less[of j] by (auto simp: is_heap_def nth_append Suc_le_eq)
  moreover have "parent_of j \<noteq> length ts" if "0 < j" "j < length (ts @ [t])" for j
    using that parent_less[of j] by simp
  ultimately have "heap_but_up (ts @ [t]) (length ts)"
    unfolding heap_but_up_def below_parent_def by (auto simp: Suc_le_eq less_Suc_eq)
  then show ?thesis by (simp add: hq_Push_def heapifyUp_heap heapifyUp_mset)
qed

lemma Pop_heap:
  assumes h: "is_heap ts" and ne: "ts \<noteq> []"
  shows "\<exists>ts1. hq_Pop ts = (Some (ts ! 0), ts1) \<and> is_heap ts1 \<and> mset ts = add_mset (ts ! 0) (mset ts1)"
proof -
  let ?r = "butlast (ts[0 := ts ! (length ts - 1)])"
  obtain x xs where ts: "ts = x # xs" using ne by (cases ts) auto
  have mset: "mset ts = add_mset (ts ! 0) (mset ?r)"
  proof (cases xs rule: rev_cases)
    case (snoc ys y)
    then show ?thesis using ts by (simp add: butlast_append nth_append)
  qed (simp add: ts)
  have nth: "?r ! j = ts ! j" if "0 < j" "j < length ?r" for j
    using that by (simp add: nth_butlast)
  have edge: "bkPriority (?r ! j) \<le> bkPriority (?r ! parent_of j)" if "0 < j" "j < length ?r" "parent_of j \<noteq> 0" for j
    using that h parent_less[of j] nth[of j] nth[of "parent_of j"] by (auto simp: is_heap_def Suc_le_eq)
  then have "?r \<noteq> [] \<longrightarrow> is_heap (heapifyDown ?r 0)"
    by (auto simp: heap_but_down_def below_parent_def Suc_le_eq intro!: heapifyDown_heap)
  moreover have "?r \<noteq> [] \<longrightarrow> mset (heapifyDown ?r 0) = mset ?r" using heapifyDown_mset[of 0 ?r] by blast
  ultimately have "hq_Pop ts = (Some (ts ! 0), snd (hq_Pop ts)) \<and> is_heap (snd (hq_Pop ts)) \<and>
      mset ts = add_mset (ts ! 0) (mset (snd (hq_Pop ts)))"
    using ne mset by (cases "?r = []") (simp_all add: hq_Pop_def Let_def is_heap_def)
  then show ?thesis by blast
qed

interpretation heap_queue: priority_queue hq_Push hq_Pop mset is_heap bkPriority
proof unfold_locales
  fix q :: "bg_task list"
  assume "is_heap q" "mset q \<noteq> {#}"
  moreover from this obtain q1 where "hq_Pop q = (Some (q ! 0), q1)" "is_heap q1" "mset q = add_mset (q ! 0) (mset q1)"
    using Pop_heap[of q] by auto
  moreover from this have "set q1 \<subseteq> set q" by (metis set_mset_add_mset_insert set_mset_mset subset_insertI)
  ultimately show "\<exists>x q1. hq_Pop q = (Some x, q1) \<and> is_heap q1 \<and> mset q = add_mset x (mset q1) \<and>
      (\<forall>y \<in># mset q1. bkPriority y \<le> bkPriority x)"
    using heap_top by (metis in_set_conv_nth set_mset_mset subset_iff)
qed (auto simp: Push_heap, simp add: hq_Pop_def)

text \<open>The queue of the optimised engine keeps the same contract: its rank is the shorter path.\<close>

interpretation path_queue: priority_queue pq_Push pq_Pop mset "\<lambda>q. sorted (map plen q)" "\<lambda>t. - int (plen t)"
  by unfold_locales (auto simp: Push_facts pq_Pop_def split: list.split)

lemma is_heap_Nil: "is_heap []"
  by (simp add: is_heap_def)

text \<open>C35: Pushing tasks and popping as many of them sorts them by priority, highest first, and leaves the
  queue empty.\<close>

theorem heap_sorts:
  "\<exists>ys. drawn hq_Pop (length xs) (foldl hq_Push [] xs) = (map Some ys, []) \<and> mset ys = mset xs \<and>
     sorted_wrt (\<lambda>x y. bkPriority y \<le> bkPriority x) ys"
  using heap_queue.sorts[OF is_heap_Nil, of xs] by auto

text \<open>Any calls of the queue in any order.\<close>

datatype queue_call = CallPush bg_task | CallPop

fun queue_after :: "queue_call list \<Rightarrow> bg_task list \<Rightarrow> bg_task list" where
  "queue_after [] q = q"
| "queue_after (CallPush t # cs) q = queue_after cs (hq_Push q t)"
| "queue_after (CallPop # cs) q = queue_after cs (snd (hq_Pop q))"

lemma queue_after_heap: "is_heap q \<Longrightarrow> is_heap (queue_after cs q)"
proof (induction cs q rule: queue_after.induct)
  case (3 cs q)
  then show ?case using Pop_heap[of q] by (cases "q = []") (auto simp: hq_Pop_def)
qed (auto simp: Push_heap)

text \<open>After any calls, \<open>Pop\<close> takes a task of highest priority out of the queue and keeps all others; on
  an empty queue it says so. \<open>Push\<close> adds one task.\<close>

theorem Pop_highest:
  "hq_Pop [] = (None, []) \<and>
   (queue_after cs [] \<noteq> [] \<longrightarrow> (\<exists>t q1. hq_Pop (queue_after cs []) = (Some t, q1) \<and>
      mset (queue_after cs []) = add_mset t (mset q1) \<and> (\<forall>u \<in> set (queue_after cs []). bkPriority u \<le> bkPriority t))) \<and>
   mset (hq_Push (queue_after cs []) t) = add_mset t (mset (queue_after cs []))"
proof -
  have h: "is_heap (queue_after cs [])" using queue_after_heap is_heap_Nil by blast
  have "\<exists>t q1. hq_Pop (queue_after cs []) = (Some t, q1) \<and> mset (queue_after cs []) = add_mset t (mset q1) \<and>
      (\<forall>u \<in> set (queue_after cs []). bkPriority u \<le> bkPriority t)" if "queue_after cs [] \<noteq> []"
    using Pop_heap[OF h that] heap_top[OF h] by (metis in_set_conv_nth)
  moreover have "hq_Pop [] = (None, [])" by (simp add: hq_Pop_def)
  ultimately show ?thesis using Push_heap[OF h] by blast
qed

definition demo_bg_task :: "string \<Rightarrow> int \<Rightarrow> bg_task" where
  "demo_bg_task n p = \<lparr>bkID = n, bkName = n, bkFunc = (\<lambda>c. (VStr n, None)), bkPriority = p, bkCtxErr = ErrorString ''context canceled'',
     bkDone = False, bkCancelled = False, bkStatus = Accepted, bkResult = None\<rparr>"

theorem Pop_highest_witness:
  "\<exists>t q1. hq_Pop (queue_after [CallPush (demo_bg_task ''a'' 0), CallPush (demo_bg_task ''b'' 5), CallPop, CallPush (demo_bg_task ''c'' 20)] []) =
     (Some t, q1) \<and> bkPriority t = 20"
proof -
  let ?q = "queue_after [CallPush (demo_bg_task ''a'' 0), CallPush (demo_bg_task ''b'' 5), CallPop, CallPush (demo_bg_task ''c'' 20)] []"
  have q: "?q = [demo_bg_task ''c'' 20, demo_bg_task ''a'' 0]"
    by (simp add: hq_Push_def hq_Pop_def heapifyUp.simps heapifyDown.simps swapped_def largest_of_def demo_bg_task_def)
  then have "?q \<noteq> []" by simp
  then obtain t q1 where "hq_Pop ?q = (Some t, q1)" "\<forall>u \<in> set ?q. bkPriority u \<le> bkPriority t" "mset ?q = add_mset t (mset q1)"
    using Pop_highest[of "[CallPush (demo_bg_task ''a'' 0), CallPush (demo_bg_task ''b'' 5), CallPop, CallPush (demo_bg_task ''c'' 20)]"] by blast
  moreover from this have "t \<in> set ?q" by (metis set_mset_mset union_single_eq_member)
  ultimately show ?thesis using q by (auto simp: demo_bg_task_def)
qed

text \<open>The queue is not first in, first out among equals: of three tasks of one priority the third comes
  out before the second.\<close>

theorem equals_overtake:
  assumes "bkPriority b = bkPriority a" "bkPriority c = bkPriority a"
  shows "drawn hq_Pop 3 (hq_Push (hq_Push (hq_Push [] a) b) c) = ([Some a, Some c, Some b], [])"
  using assms
  by (simp add: eval_nat_numeral hq_Push_def hq_Pop_def heapifyUp.simps heapifyDown.simps swapped_def largest_of_def)

theorem equals_overtake_witness:
  "drawn hq_Pop 3 (hq_Push (hq_Push (hq_Push [] (demo_bg_task ''a'' 1)) (demo_bg_task ''b'' 1)) (demo_bg_task ''c'' 1)) =
     ([Some (demo_bg_task ''a'' 1), Some (demo_bg_task ''c'' 1), Some (demo_bg_task ''b'' 1)], [])"
  by (rule equals_overtake) (simp_all add: demo_bg_task_def)

end
