(* ===== verification/Background.thy ===== *)
theory Background
  imports Priority_Heap
begin

text \<open>
  The background executor (\<^verbatim>\<open>pregel/background.go\<close>) as a machine whose steps are those of its workers, of
  callers blocked in \<open>Submit\<close> and of \<open>Stop\<close>, between which callers start and stop it, submit and cancel tasks
  and read results. Durations are left out: the timer of a \<open>select\<close> fires only where its channel blocks, and
  \<open>Stop\<close>, which waits for the workers for a time, may close the channels at any point.
\<close>

section \<open>The executor\<close>

text \<open>
  A worker enters its loop, waits in \<open>select\<close> on the stop channel it has read (\<open>Selecting\<close>, channels are
  numbered), runs a task, delivers its result to the task, reports it to the executor, or has ended.
\<close>

datatype worker =
    Looping
  | Selecting nat
  | Busy nat
  | Delivering nat bg_result
  | Reporting bg_result
  | Exited

text \<open>
  \<open>bgQueue\<close> and \<open>bgResults\<close> are the buffers of the two channels, \<open>bgClosed\<close> says that they are closed;
  \<open>bgStops\<close> counts the calls of \<open>Stop\<close> that wait for the workers, \<open>bgGen\<close> is the stop channel in use.
  Tasks are referred to by their position in \<open>bgTasks\<close>.
\<close>

record bg_executor =
  bgMax :: nat
  bgCap :: nat
  bgQueue :: "nat list"
  bgResults :: "bg_result list"
  bgClosed :: bool
  bgRunning :: bool
  bgGen :: nat
  bgStops :: nat
  bgWorkers :: "worker list"
  bgActive :: "string set"
  bgTasks :: "bg_task list"
  bgCrashed :: bool

definition NewBackgroundExecutor :: "int \<Rightarrow> int \<Rightarrow> bg_executor" where
  "NewBackgroundExecutor maxWorkers queueSize =
     \<lparr>bgMax = nat (if maxWorkers \<le> 0 then 10 else maxWorkers), bgCap = nat (if queueSize \<le> 0 then 100 else queueSize),
      bgQueue = [], bgResults = [], bgClosed = False, bgRunning = False, bgGen = 0, bgStops = 0, bgWorkers = [],
      bgActive = {}, bgTasks = [], bgCrashed = False\<rparr>"

definition bg_Start :: "bg_executor \<Rightarrow> bg_executor" where
  "bg_Start e = (if bgRunning e then e
     else e\<lparr>bgRunning := True, bgGen := bgGen e + 1, bgWorkers := bgWorkers e @ replicate (bgMax e) Looping\<rparr>)"

text \<open>\<open>Stop\<close> up to the point where it waits for the workers, and its end.\<close>

definition bg_Stop :: "bg_executor \<Rightarrow> bg_executor" where
  "bg_Stop e = (if \<not> bgRunning e then e else e\<lparr>bgRunning := False, bgStops := bgStops e + 1\<rparr>)"

definition close_channels :: "bg_executor \<Rightarrow> bg_executor" where
  "close_channels e = (if bgClosed e then e\<lparr>bgCrashed := True\<rparr> else e\<lparr>bgClosed := True, bgStops := bgStops e - 1\<rparr>)"

text \<open>\<open>Submit\<close> up to the point where it waits for room in the queue.\<close>

definition bg_Submit ::
  "string \<Rightarrow> bool \<Rightarrow> gerr \<Rightarrow> string \<Rightarrow> (bool \<Rightarrow> gval \<times> gerr option) \<Rightarrow> int \<Rightarrow> bg_executor \<Rightarrow> gerr option \<times> bg_executor" where
  "bg_Submit uuid ctxDone err name fn priority e =
     (if \<not> bgRunning e then (Some (ErrorString ''executor not running''), e)
      else (None, e\<lparr>bgActive := insert uuid (bgActive e), bgTasks := bgTasks e @
        [\<lparr>bkID = uuid, bkName = name, bkFunc = fn, bkPriority = priority, bkCtxErr = err, bkDone = ctxDone,
          bkCancelled = ctxDone, bkStatus = Submitting, bkResult = None\<rparr>]\<rparr>))"

definition GetResult :: "bg_executor \<Rightarrow> bg_result list" where
  "GetResult e = bgResults e"

definition bg_cancel :: "string \<Rightarrow> bg_task \<Rightarrow> bg_task" where
  "bg_cancel u t = (if bkID t = u then t\<lparr>bkCancelled := True\<rparr> else t)"

definition CancelTask :: "string \<Rightarrow> bg_executor \<Rightarrow> bool \<times> bg_executor" where
  "CancelTask taskID e = (if taskID \<in> bgActive e then (True, e\<lparr>bgTasks := map (bg_cancel taskID) (bgTasks e)\<rparr>) else (False, e))"

definition GetActiveTasks :: "bg_executor \<Rightarrow> string set" where
  "GetActiveTasks e = bgActive e"

section \<open>Its steps\<close>

definition bg_outcome :: "bool \<Rightarrow> bg_task \<Rightarrow> bg_result" where
  "bg_outcome cancelled t = (case bkFunc t cancelled of
     (out, err) \<Rightarrow> \<lparr>brTaskID = bkID t, brName = bkName t, brOutput = out, brErr = err\<rparr>)"

definition set_task :: "nat \<Rightarrow> bg_task \<Rightarrow> bg_executor \<Rightarrow> bg_executor" where
  "set_task i t e = e\<lparr>bgTasks := (bgTasks e)[i := t]\<rparr>"

definition set_worker :: "nat \<Rightarrow> worker \<Rightarrow> bg_executor \<Rightarrow> bg_executor" where
  "set_worker k w e = e\<lparr>bgWorkers := (bgWorkers e)[k := w]\<rparr>"

definition accepted :: "nat \<Rightarrow> bg_executor \<Rightarrow> bg_executor" where
  "accepted i e = set_task i ((bgTasks e ! i)\<lparr>bkStatus := Accepted\<rparr>) (e\<lparr>bgQueue := bgQueue e @ [i]\<rparr>)"

definition refused :: "gerr \<Rightarrow> nat \<Rightarrow> bg_executor \<Rightarrow> bg_executor" where
  "refused err i e = set_task i ((bgTasks e ! i)\<lparr>bkStatus := Refused err, bkCancelled := True\<rparr>) e"

text \<open>The stop channel with number \<open>g\<close> is closed.\<close>

definition stop_closed :: "nat \<Rightarrow> bg_executor \<Rightarrow> bool" where
  "stop_closed g e \<longleftrightarrow> g < bgGen e \<or> \<not> bgRunning e"

definition unregistered :: "nat \<Rightarrow> bg_executor \<Rightarrow> bg_executor" where
  "unregistered i e = e\<lparr>bgActive := bgActive e - {bkID (bgTasks e ! i)}\<rparr>"

definition bg_delivered :: "nat \<Rightarrow> bg_result \<Rightarrow> bg_executor \<Rightarrow> bg_executor" where
  "bg_delivered i r e = (if bkResult (bgTasks e ! i) = None then set_task i ((bgTasks e ! i)\<lparr>bkResult := Some r\<rparr>) e else e)"

definition reported :: "bg_result \<Rightarrow> bg_executor \<Rightarrow> bg_executor" where
  "reported r e = (if bgClosed e then e\<lparr>bgCrashed := True\<rparr>
     else if length (bgResults e) < bgCap e then e\<lparr>bgResults := bgResults e @ [r]\<rparr> else e)"

text \<open>A caller in \<open>Submit\<close>: the task is queued, the context ends, the timer fires, or the queue is closed.\<close>

inductive submit_step :: "bg_executor \<Rightarrow> bg_executor \<Rightarrow> bool" where
  accept: "i < length (bgTasks e) \<Longrightarrow> bkStatus (bgTasks e ! i) = Submitting \<Longrightarrow> \<not> bgClosed e \<Longrightarrow>
    length (bgQueue e) < bgCap e \<Longrightarrow> submit_step e (accepted i e)"
| refuse_done: "i < length (bgTasks e) \<Longrightarrow> bkStatus (bgTasks e ! i) = Submitting \<Longrightarrow> bkDone (bgTasks e ! i) \<Longrightarrow>
    submit_step e (refused (bkCtxErr (bgTasks e ! i)) i e)"
| refuse_full: "i < length (bgTasks e) \<Longrightarrow> bkStatus (bgTasks e ! i) = Submitting \<Longrightarrow> \<not> bgClosed e \<Longrightarrow>
    length (bgQueue e) \<ge> bgCap e \<Longrightarrow> submit_step e (refused (ErrorString ''task queue full'') i e)"
| send_closed: "i < length (bgTasks e) \<Longrightarrow> bkStatus (bgTasks e ! i) = Submitting \<Longrightarrow> bgClosed e \<Longrightarrow>
    submit_step e (e\<lparr>bgCrashed := True\<rparr>)"

inductive worker_step :: "bg_executor \<Rightarrow> bg_executor \<Rightarrow> bool" where
  enter: "k < length (bgWorkers e) \<Longrightarrow> bgWorkers e ! k = Looping \<Longrightarrow>
    worker_step e (set_worker k (Selecting (bgGen e)) e)"
| stopped: "k < length (bgWorkers e) \<Longrightarrow> bgWorkers e ! k = Selecting g \<Longrightarrow> stop_closed g e \<Longrightarrow>
    worker_step e (set_worker k Exited e)"
| no_more: "k < length (bgWorkers e) \<Longrightarrow> bgWorkers e ! k = Selecting g \<Longrightarrow> bgQueue e = [] \<Longrightarrow> bgClosed e \<Longrightarrow>
    worker_step e (set_worker k Exited e)"
| take: "k < length (bgWorkers e) \<Longrightarrow> bgWorkers e ! k = Selecting g \<Longrightarrow> bgQueue e = i # q \<Longrightarrow>
    worker_step e (set_worker k (Busy i) (e\<lparr>bgQueue := q\<rparr>))"
| ran: "k < length (bgWorkers e) \<Longrightarrow> bgWorkers e ! k = Busy i \<Longrightarrow>
    worker_step e (set_worker k (Delivering i (bg_outcome (bkCancelled (bgTasks e ! i)) (bgTasks e ! i))) (unregistered i e))"
| deliver: "k < length (bgWorkers e) \<Longrightarrow> bgWorkers e ! k = Delivering i r \<Longrightarrow>
    worker_step e (set_worker k (Reporting r) (bg_delivered i r e))"
| report: "k < length (bgWorkers e) \<Longrightarrow> bgWorkers e ! k = Reporting r \<Longrightarrow>
    worker_step e (set_worker k Looping (reported r e))"

text \<open>Steps the program makes by itself; after a crash there are none.\<close>

inductive bg_step :: "bg_executor \<Rightarrow> bg_executor \<Rightarrow> bool" where
  submit: "\<not> bgCrashed e \<Longrightarrow> submit_step e e' \<Longrightarrow> bg_step e e'"
| work: "\<not> bgCrashed e \<Longrightarrow> worker_step e e' \<Longrightarrow> bg_step e e'"
| close: "\<not> bgCrashed e \<Longrightarrow> bgStops e > 0 \<Longrightarrow> bg_step e (close_channels e)"

text \<open>What callers do, and the end of their contexts.\<close>

definition bg_end_context :: "nat \<Rightarrow> bg_executor \<Rightarrow> bg_executor" where
  "bg_end_context i e = set_task i ((bgTasks e ! i)\<lparr>bkDone := True, bkCancelled := True\<rparr>) e"

definition fresh_id :: "string \<Rightarrow> bg_executor \<Rightarrow> bool" where
  "fresh_id u e \<longleftrightarrow> u \<notin> bkID ` set (bgTasks e)"

inductive bg_call :: "bg_executor \<Rightarrow> bg_executor \<Rightarrow> bool" where
  start: "\<not> bgCrashed e \<Longrightarrow> bg_call e (bg_Start e)"
| stop: "\<not> bgCrashed e \<Longrightarrow> bg_call e (bg_Stop e)"
| submit: "\<not> bgCrashed e \<Longrightarrow> fresh_id u e \<Longrightarrow> bg_call e (snd (bg_Submit u d err name fn p e))"
| cancel: "\<not> bgCrashed e \<Longrightarrow> bg_call e (snd (CancelTask u e))"
| ended: "\<not> bgCrashed e \<Longrightarrow> i < length (bgTasks e) \<Longrightarrow> bg_call e (bg_end_context i e)"
| read: "\<not> bgCrashed e \<Longrightarrow> GetResult e = r # rs \<Longrightarrow> bg_call e (e\<lparr>bgResults := rs\<rparr>)"

definition bg_next :: "bg_executor \<Rightarrow> bg_executor \<Rightarrow> bool" where
  "bg_next e e' \<longleftrightarrow> bg_step e e' \<or> bg_call e e'"

inductive bg_reachable :: "int \<Rightarrow> int \<Rightarrow> bg_executor \<Rightarrow> bool" for n q where
  new: "bg_reachable n q (NewBackgroundExecutor n q)"
| next_state: "bg_reachable n q e \<Longrightarrow> bg_next e e' \<Longrightarrow> bg_reachable n q e'"

inductive_cases submit_stepE: "submit_step e e'"
inductive_cases worker_stepE: "worker_step e e'"
inductive_cases bg_stepE: "bg_step e e'"
inductive_cases bg_callE: "bg_call e e'"

text \<open>The changes of a state, spelled out in one go.\<close>

lemmas bg_changes = set_task_def set_worker_def accepted_def refused_def unregistered_def bg_delivered_def
  bg_Start_def bg_Stop_def bg_Submit_def CancelTask_def bg_end_context_def GetResult_def

lemma reported_fields [simp]:
  "bgMax (reported r e) = bgMax e" "bgCap (reported r e) = bgCap e" "bgQueue (reported r e) = bgQueue e"
  "bgClosed (reported r e) = bgClosed e" "bgRunning (reported r e) = bgRunning e" "bgGen (reported r e) = bgGen e"
  "bgStops (reported r e) = bgStops e" "bgWorkers (reported r e) = bgWorkers e" "bgActive (reported r e) = bgActive e"
  "bgTasks (reported r e) = bgTasks e" "bgCrashed (reported r e) = (bgCrashed e \<or> bgClosed e)"
  "bgResults (reported r e) = (if \<not> bgClosed e \<and> length (bgResults e) < bgCap e then bgResults e @ [r] else bgResults e)"
  by (auto simp: reported_def)

lemma close_fields [simp]:
  "bgMax (close_channels e) = bgMax e" "bgCap (close_channels e) = bgCap e" "bgQueue (close_channels e) = bgQueue e"
  "bgClosed (close_channels e) = True" "bgRunning (close_channels e) = bgRunning e" "bgGen (close_channels e) = bgGen e"
  "bgStops (close_channels e) = (if bgClosed e then bgStops e else bgStops e - 1)"
  "bgWorkers (close_channels e) = bgWorkers e" "bgActive (close_channels e) = bgActive e"
  "bgTasks (close_channels e) = bgTasks e" "bgCrashed (close_channels e) = (bgCrashed e \<or> bgClosed e)"
  "bgResults (close_channels e) = bgResults e"
  by (auto simp: close_channels_def)

lemma bg_next_cases [consumes 1, case_names submitted worked closed called]:
  assumes "bg_next e e'"
    and "submit_step e e' \<Longrightarrow> P" and "worker_step e e' \<Longrightarrow> P"
    and "e' = close_channels e \<Longrightarrow> bgStops e > 0 \<Longrightarrow> P" and "bg_call e e' \<Longrightarrow> P"
  shows P
  using assms by (auto simp: bg_next_def elim: bg_stepE)

section \<open>Where tasks are\<close>

fun in_hand :: "worker \<Rightarrow> nat multiset" where
  "in_hand (Busy i) = {#i#}"
| "in_hand (Delivering i r) = {#i#}"
| "in_hand w = {#}"

definition held :: "bg_executor \<Rightarrow> nat multiset" where
  "held e = mset (bgQueue e) + sum_list (map in_hand (bgWorkers e))"

definition open_tasks :: "bg_task list \<Rightarrow> nat set" where
  "open_tasks ts = {i. i < length ts \<and> bkStatus (ts ! i) = Accepted \<and> bkResult (ts ! i) = None}"

definition places_inv :: "bg_executor \<Rightarrow> bool" where
  "places_inv e \<longleftrightarrow> held e = mset_set (open_tasks (bgTasks e)) \<and>
     (\<forall>t \<in> set (bgTasks e). bkStatus t \<noteq> Accepted \<longrightarrow> bkResult t = None)"

lemma finite_open [simp]: "finite (open_tasks ts)"
  by (simp add: open_tasks_def)

lemma sum_list_update_add:
  "k < length ws \<Longrightarrow> sum_list (map f (ws[k := w])) + f (ws ! k) = sum_list (map f ws) + (f w :: 'a :: comm_monoid_add)"
proof (induction ws arbitrary: k)
  case (Cons v vs)
  then show ?case by (cases k) (auto simp: ac_simps)
qed simp

lemma held_worker:
  "k < length (bgWorkers e) \<Longrightarrow> bgWorkers e' = (bgWorkers e)[k := w] \<Longrightarrow>
   held e' + in_hand (bgWorkers e ! k) + mset (bgQueue e) = held e + in_hand w + mset (bgQueue e')"
  using sum_list_update_add[of k "bgWorkers e" in_hand w] by (simp add: held_def ac_simps)

lemma open_same:
  "i < length ts \<Longrightarrow> bkStatus t = bkStatus (ts ! i) \<Longrightarrow> bkResult t = bkResult (ts ! i) \<Longrightarrow> open_tasks (ts[i := t]) = open_tasks ts"
  by (auto simp: open_tasks_def nth_list_update)

lemma open_append [simp]: "bkStatus t \<noteq> Accepted \<Longrightarrow> open_tasks (ts @ [t]) = open_tasks ts"
  by (auto simp: open_tasks_def nth_append less_Suc_eq)

lemma bg_cancel_fields [simp]:
  "bkID (bg_cancel u t) = bkID t" "bkName (bg_cancel u t) = bkName t" "bkFunc (bg_cancel u t) = bkFunc t"
  "bkStatus (bg_cancel u t) = bkStatus t" "bkResult (bg_cancel u t) = bkResult t"
  by (simp_all add: bg_cancel_def)

lemma open_cancel [simp]: "open_tasks (map (bg_cancel u) ts) = open_tasks ts"
  by (auto simp: open_tasks_def)

lemma open_accept:
  "i < length ts \<Longrightarrow> bkStatus t = Accepted \<Longrightarrow> bkResult t = None \<Longrightarrow> open_tasks (ts[i := t]) = insert i (open_tasks ts)"
  by (auto simp: open_tasks_def nth_list_update)

lemma open_deliver:
  "i < length ts \<Longrightarrow> bkResult t \<noteq> None \<Longrightarrow> open_tasks (ts[i := t]) = open_tasks ts - {i}"
  by (auto simp: open_tasks_def nth_list_update)

lemma held_open: "places_inv e \<Longrightarrow> i \<in># held e \<Longrightarrow> i \<in> open_tasks (bgTasks e)"
  by (simp add: places_inv_def)

lemma in_hand_held: "k < length (bgWorkers e) \<Longrightarrow> i \<in># in_hand (bgWorkers e ! k) \<Longrightarrow> i \<in># held e"
  using sum_list_update_add[of k "bgWorkers e" in_hand Exited] by (auto simp: held_def dest!: arg_cong[of _ _ "\<lambda>m. i \<in># m"])

lemma in_hand_open:
  "places_inv e \<Longrightarrow> k < length (bgWorkers e) \<Longrightarrow> i \<in># in_hand (bgWorkers e ! k) \<Longrightarrow>
   i < length (bgTasks e) \<and> bkStatus (bgTasks e ! i) = Accepted \<and> bkResult (bgTasks e ! i) = None"
  using held_open in_hand_held by (fastforce simp: open_tasks_def)

lemma places_worker:
  assumes "places_inv e" "k < length (bgWorkers e)" "bgWorkers e' = (bgWorkers e)[k := w]" "bgTasks e' = bgTasks e"
    and "in_hand (bgWorkers e ! k) + mset (bgQueue e) = in_hand w + mset (bgQueue e')"
  shows "places_inv e'"
  using held_worker[OF assms(2,3)] assms(1,4,5) by (simp add: places_inv_def add.assoc)

lemma places_submit: "places_inv e \<Longrightarrow> submit_step e e' \<Longrightarrow> places_inv e'"
proof (erule submit_stepE)
  fix i
  assume e: "places_inv e" "i < length (bgTasks e)" "bkStatus (bgTasks e ! i) = Submitting" and e': "e' = accepted i e"
  then have "bkResult (bgTasks e ! i) = None" by (simp add: places_inv_def)
  then have "open_tasks (bgTasks e') = insert i (open_tasks (bgTasks e))" "i \<notin> open_tasks (bgTasks e)"
    using e e' by (auto simp: bg_changes open_accept) (simp add: open_tasks_def)
  moreover have "held e' = add_mset i (held e)" using e' by (simp add: held_def bg_changes)
  moreover have "\<forall>t \<in> set (bgTasks e'). bkStatus t \<noteq> Accepted \<longrightarrow> bkResult t = None"
    using e e' by (auto simp: places_inv_def bg_changes dest!: set_update_subset_insert[THEN subsetD])
  ultimately show "places_inv e'" using e by (simp add: places_inv_def)
next
  fix i
  assume e: "places_inv e" "i < length (bgTasks e)" "bkStatus (bgTasks e ! i) = Submitting"
    and "e' = refused (bkCtxErr (bgTasks e ! i)) i e"
  then show "places_inv e'" 
    by (auto simp: places_inv_def held_def bg_changes open_tasks_def nth_list_update dest!: set_update_subset_insert[THEN subsetD]
      intro!: arg_cong[of _ _ mset_set])
qed (auto simp: places_inv_def held_def bg_changes open_tasks_def nth_list_update dest!: set_update_subset_insert[THEN subsetD]
      intro!: arg_cong[of _ _ mset_set])

lemma places_work: "places_inv e \<Longrightarrow> worker_step e e' \<Longrightarrow> places_inv e'"
proof (erule worker_stepE)
  fix k i r
  assume e: "places_inv e" "k < length (bgWorkers e)" "bgWorkers e ! k = Delivering i r"
    and e': "e' = set_worker k (Reporting r) (bg_delivered i r e)"
  then have i: "i < length (bgTasks e)" "bkStatus (bgTasks e ! i) = Accepted" "bkResult (bgTasks e ! i) = None"
    using in_hand_open[of e k i] by simp_all
  with e' have ts: "bgTasks e' = (bgTasks e)[i := (bgTasks e ! i)\<lparr>bkResult := Some r\<rparr>]" "bgQueue e' = bgQueue e"
    "bgWorkers e' = (bgWorkers e)[k := Reporting r]" by (simp_all add: bg_changes)
  have "i \<in> open_tasks (bgTasks e)" using i by (simp add: open_tasks_def)
  moreover have "add_mset i (held e') = held e" using held_worker[OF e(2) ts(3)] e(3) ts(2) by simp
  moreover have "open_tasks (bgTasks e') = open_tasks (bgTasks e) - {i}" using i ts(1) by (simp add: open_deliver)
  ultimately have "held e' = mset_set (open_tasks (bgTasks e'))"
    using e(1) by (simp add: places_inv_def mset_set.remove)
  moreover have "\<forall>t \<in> set (bgTasks e'). bkStatus t \<noteq> Accepted \<longrightarrow> bkResult t = None"
    using e(1) ts(1) i by (auto simp: places_inv_def dest!: set_update_subset_insert[THEN subsetD])
  ultimately show "places_inv e'" by (simp add: places_inv_def)
qed (erule places_worker, assumption, auto simp: bg_changes)+

lemma idle_hands [simp]: "sum_list (replicate n {#}) = ({#} :: nat multiset)"
  by (induction n) simp_all

lemma places_same:
  "places_inv e \<Longrightarrow> held e' = held e \<Longrightarrow> open_tasks (bgTasks e') = open_tasks (bgTasks e) \<Longrightarrow>
   (\<And>t. t \<in> set (bgTasks e') \<Longrightarrow> bkStatus t \<noteq> Accepted \<Longrightarrow> bkResult t = None) \<Longrightarrow> places_inv e'"
  by (simp add: places_inv_def)

lemma places_call: "places_inv e \<Longrightarrow> bg_call e e' \<Longrightarrow> places_inv e'"
  by (erule bg_callE; rule places_same)
    (auto simp: bg_changes held_def open_same places_inv_def split: if_splits
      dest!: set_update_subset_insert[THEN subsetD])

lemma places_close: "places_inv e \<Longrightarrow> places_inv (close_channels e)"
  by (rule places_same) (auto simp: bg_changes held_def places_inv_def split: if_splits)

lemma places_next: "places_inv e \<Longrightarrow> bg_next e e' \<Longrightarrow> places_inv e'"
  by (erule bg_next_cases) (auto intro: places_submit places_work places_call places_close)

lemma places_reachable: "bg_reachable n q e \<Longrightarrow> places_inv e"
proof (induction rule: bg_reachable.induct)
  case new
  show ?case by (simp add: places_inv_def held_def open_tasks_def NewBackgroundExecutor_def)
qed (rule places_next)

section \<open>Bounds\<close>

definition bounds_inv :: "int \<Rightarrow> int \<Rightarrow> bg_executor \<Rightarrow> bool" where
  "bounds_inv n q e \<longleftrightarrow> bgMax e = bgMax (NewBackgroundExecutor n q) \<and> bgCap e = bgCap (NewBackgroundExecutor n q) \<and>
     bgMax e > 0 \<and> bgCap e > 0 \<and> length (bgQueue e) \<le> bgCap e \<and> length (bgResults e) \<le> bgCap e \<and>
     length (bgWorkers e) = bgMax e * bgGen e"

lemma bounds_next: "bounds_inv n q e \<Longrightarrow> bg_next e e' \<Longrightarrow> bounds_inv n q e'"
  by (erule bg_next_cases; (erule submit_stepE worker_stepE bg_callE)?)
    (auto simp: bounds_inv_def bg_changes split: if_splits)

lemma bounds_reachable: "bg_reachable n q e \<Longrightarrow> bounds_inv n q e"
proof (induction rule: bg_reachable.induct)
  case new
  show ?case by (simp add: bounds_inv_def NewBackgroundExecutor_def)
qed (rule bounds_next)

section \<open>Results and identifiers\<close>

definition own_result :: "bg_task \<Rightarrow> bg_result \<Rightarrow> bool" where
  "own_result t r \<longleftrightarrow> (\<exists>c. r = bg_outcome c t)"

fun delivers :: "worker \<Rightarrow> nat set" where
  "delivers (Delivering i r) = {i}"
| "delivers w = {}"

definition delivering :: "bg_executor \<Rightarrow> nat set" where
  "delivering e = \<Union> (delivers ` set (bgWorkers e))"

text \<open>Tasks that are active: all but the accepted ones whose function has returned.\<close>

definition unsettled :: "bg_executor \<Rightarrow> nat set" where
  "unsettled e = {i. i < length (bgTasks e) \<and>
     (bkStatus (bgTasks e ! i) \<noteq> Accepted \<or> bkResult (bgTasks e ! i) = None \<and> i \<notin> delivering e)}"

definition active_inv :: "bg_executor \<Rightarrow> bool" where
  "active_inv e \<longleftrightarrow> distinct (map bkID (bgTasks e)) \<and> bgActive e = (!) (map bkID (bgTasks e)) ` unsettled e"

definition result_inv :: "bg_executor \<Rightarrow> bool" where
  "result_inv e \<longleftrightarrow> (\<forall>t \<in> set (bgTasks e). \<forall>r. bkResult t = Some r \<longrightarrow> own_result t r) \<and>
     (\<forall>i r. Delivering i r \<in> set (bgWorkers e) \<longrightarrow> i < length (bgTasks e) \<and> own_result (bgTasks e ! i) r)"

lemma own_result_same [simp]:
  "own_result (t\<lparr>bkStatus := s\<rparr>) = own_result t" "own_result (t\<lparr>bkStatus := s, bkCancelled := c\<rparr>) = own_result t"
  "own_result (t\<lparr>bkResult := x\<rparr>) = own_result t" "own_result (t\<lparr>bkDone := d, bkCancelled := c\<rparr>) = own_result t"
  "own_result (bg_cancel u t) = own_result t"
  by (auto simp: fun_eq_iff own_result_def bg_outcome_def bg_cancel_def split: prod.splits)

lemma own_outcome [simp]: "own_result t (bg_outcome c t)"
  by (auto simp: own_result_def)

text \<open>A change of one task that keeps what it does.\<close>

lemma result_task:
  assumes "result_inv e" "i < length (bgTasks e)" "bgTasks e' = (bgTasks e)[i := t]" "own_result t = own_result (bgTasks e ! i)"
    and "\<And>r. bkResult t = Some r \<Longrightarrow> own_result t r"
    and "\<And>j r. Delivering j r \<in> set (bgWorkers e') \<Longrightarrow> Delivering j r \<in> set (bgWorkers e)"
  shows "result_inv e'"
proof -
  have "\<forall>i r. Delivering i r \<in> set (bgWorkers e') \<longrightarrow> i < length (bgTasks e') \<and> own_result (bgTasks e' ! i) r"
    using assms(1-4,6) unfolding result_inv_def by (metis length_list_update nth_list_update)
  moreover have "\<forall>t \<in> set (bgTasks e'). \<forall>r. bkResult t = Some r \<longrightarrow> own_result t r"
    using assms(1,3,5) unfolding result_inv_def by (auto dest!: set_update_subset_insert[THEN subsetD])
  ultimately show ?thesis by (simp add: result_inv_def)
qed

lemma result_same:
  "result_inv e \<Longrightarrow> bgTasks e' = bgTasks e \<Longrightarrow>
   (\<And>j r. Delivering j r \<in> set (bgWorkers e') \<Longrightarrow> Delivering j r \<in> set (bgWorkers e) \<or> j < length (bgTasks e) \<and> own_result (bgTasks e ! j) r) \<Longrightarrow>
   result_inv e'"
  unfolding result_inv_def by metis

lemma result_submit: "result_inv e \<Longrightarrow> submit_step e e' \<Longrightarrow> result_inv e'"
proof (erule submit_stepE)
  fix i
  assume "result_inv e" "i < length (bgTasks e)" "e' = accepted i e"
  then show "result_inv e'"
    by (intro result_task[of e i e' "(bgTasks e ! i)\<lparr>bkStatus := Accepted\<rparr>"]) (auto simp: bg_changes result_inv_def)
next
  fix i
  assume "result_inv e" "i < length (bgTasks e)" "e' = refused (bkCtxErr (bgTasks e ! i)) i e"
  then show "result_inv e'"
    by (intro result_task[of e i e' "(bgTasks e ! i)\<lparr>bkStatus := Refused (bkCtxErr (bgTasks e ! i)), bkCancelled := True\<rparr>"])
      (auto simp: bg_changes result_inv_def)
next
  fix i
  assume "result_inv e" "i < length (bgTasks e)" "e' = refused (ErrorString ''task queue full'') i e"
  then show "result_inv e'"
    by (intro result_task[of e i e' "(bgTasks e ! i)\<lparr>bkStatus := Refused (ErrorString ''task queue full''), bkCancelled := True\<rparr>"])
      (auto simp: bg_changes result_inv_def)
qed (auto simp: result_inv_def)

lemma delivering_update:
  "Delivering j r \<in> set (ws[k := w]) \<Longrightarrow> Delivering j r \<in> set ws \<or> w = Delivering j r"
  by (auto dest!: set_update_subset_insert[THEN subsetD])

lemma result_work: "places_inv e \<Longrightarrow> result_inv e \<Longrightarrow> worker_step e e' \<Longrightarrow> result_inv e'"
proof (erule worker_stepE)
  fix k i r
  assume e: "places_inv e" "result_inv e" "k < length (bgWorkers e)" "bgWorkers e ! k = Delivering i r"
    and e': "e' = set_worker k (Reporting r) (bg_delivered i r e)"
  then have "i < length (bgTasks e)" "bkResult (bgTasks e ! i) = None" using in_hand_open[of e k i] by simp_all
  moreover have "Delivering i r \<in> set (bgWorkers e)" using e(3,4) by (metis nth_mem)
  then have "own_result (bgTasks e ! i) r" using e(2) by (simp add: result_inv_def)
  ultimately show "result_inv e'" using e e'
    by (intro result_task[of e i e' "(bgTasks e ! i)\<lparr>bkResult := Some r\<rparr>"])
      (auto simp: bg_changes dest: delivering_update)
next
  fix k i
  assume e: "places_inv e" "result_inv e" "k < length (bgWorkers e)" "bgWorkers e ! k = Busy i"
    and e': "e' = set_worker k (Delivering i (bg_outcome (bkCancelled (bgTasks e ! i)) (bgTasks e ! i))) (unregistered i e)"
  then have "i < length (bgTasks e)" using in_hand_open[of e k i] by simp
  then show "result_inv e'" using e(2) e' by (elim result_same) (auto simp: bg_changes dest: delivering_update)
qed (erule result_same; auto simp: bg_changes dest: delivering_update)+

lemma result_call: "result_inv e \<Longrightarrow> bg_call e e' \<Longrightarrow> result_inv e'"
proof (erule bg_callE)
  fix i
  assume "result_inv e" "i < length (bgTasks e)" "e' = bg_end_context i e"
  then show "result_inv e'"
    by (intro result_task[of e i e' "(bgTasks e ! i)\<lparr>bkDone := True, bkCancelled := True\<rparr>"]) (auto simp: bg_changes result_inv_def)
qed (auto simp: bg_changes result_inv_def nth_append less_SucI split: if_splits)

lemma result_next: "places_inv e \<Longrightarrow> result_inv e \<Longrightarrow> bg_next e e' \<Longrightarrow> result_inv e'"
  by (erule bg_next_cases) (auto intro: result_submit result_work result_call, auto simp: result_inv_def bg_changes split: if_splits)

lemma result_reachable: "bg_reachable n q e \<Longrightarrow> result_inv e"
proof (induction rule: bg_reachable.induct)
  case new
  show ?case by (simp add: result_inv_def NewBackgroundExecutor_def)
next
  case (next_state e e')
  then show ?case using result_next places_reachable by blast
qed

lemma delivering_nth: "j \<in> delivering e \<longleftrightarrow> (\<exists>l < length (bgWorkers e). j \<in> delivers (bgWorkers e ! l))"
  unfolding delivering_def by (metis UN_iff in_set_conv_nth)

lemma delivering_worker:
  assumes "k < length (bgWorkers e)" "bgWorkers e' = (bgWorkers e)[k := w]" "j \<notin> delivers (bgWorkers e ! k)"
  shows "j \<in> delivering e' \<longleftrightarrow> j \<in> delivering e \<or> j \<in> delivers w"
proof -
  have "(\<exists>l < length (bgWorkers e). j \<in> delivers ((bgWorkers e)[k := w] ! l)) \<longleftrightarrow>
      j \<in> delivers w \<or> (\<exists>l < length (bgWorkers e). j \<in> delivers (bgWorkers e ! l))"
    using assms(1,3) by (metis nth_list_update)
  then show ?thesis using assms(2) by (auto simp: delivering_nth)
qed

lemma active_same:
  "active_inv e \<Longrightarrow> map bkID (bgTasks e') = map bkID (bgTasks e) \<Longrightarrow> unsettled e' = unsettled e \<Longrightarrow> bgActive e' = bgActive e \<Longrightarrow>
   active_inv e'"
  by (simp add: active_inv_def)

lemma ids_update: "i < length ts \<Longrightarrow> bkID t = bkID (ts ! i) \<Longrightarrow> map bkID (ts[i := t]) = map bkID ts"
  by (simp add: map_update list_update_same_conv)

lemma delivers_in_hand: "i \<in> delivers w \<Longrightarrow> i \<in># in_hand w"
  by (cases w) auto

lemma places_submitting:
  "places_inv e \<Longrightarrow> i < length (bgTasks e) \<Longrightarrow> bkStatus (bgTasks e ! i) = Submitting \<Longrightarrow> bkResult (bgTasks e ! i) = None"
  by (simp add: places_inv_def)

lemma not_delivering: "places_inv e \<Longrightarrow> i < length (bgTasks e) \<Longrightarrow> bkStatus (bgTasks e ! i) \<noteq> Accepted \<Longrightarrow> i \<notin> delivering e"
  using in_hand_open[of e _ i] by (auto simp: delivering_nth dest: delivers_in_hand)

lemma active_submit: "places_inv e \<Longrightarrow> active_inv e \<Longrightarrow> submit_step e e' \<Longrightarrow> active_inv e'"
  by (erule submit_stepE; erule active_same)
    (auto simp: bg_changes ids_update unsettled_def delivering_def nth_list_update places_submitting dest: not_delivering[unfolded delivering_def])

lemma unsettled_worker:
  assumes "k < length (bgWorkers e)" "bgWorkers e' = (bgWorkers e)[k := w]" "delivers (bgWorkers e ! k) = {}"
    and "bgTasks e' = bgTasks e"
  shows "unsettled e' = unsettled e - {i \<in> delivers w. bkStatus (bgTasks e ! i) = Accepted}"
  using delivering_worker[OF assms(1,2)] assms(3,4) by (auto simp: unsettled_def)

lemma active_worker:
  "active_inv e \<Longrightarrow> k < length (bgWorkers e) \<Longrightarrow> bgWorkers e' = (bgWorkers e)[k := w] \<Longrightarrow> delivers (bgWorkers e ! k) = {} \<Longrightarrow>
   delivers w = {} \<Longrightarrow> bgTasks e' = bgTasks e \<Longrightarrow> bgActive e' = bgActive e \<Longrightarrow> active_inv e'"
  by (erule active_same) (simp_all add: unsettled_worker)

lemma active_work: "places_inv e \<Longrightarrow> active_inv e \<Longrightarrow> worker_step e e' \<Longrightarrow> active_inv e'"
proof (erule worker_stepE)
  fix k i
  assume e: "places_inv e" "active_inv e" "k < length (bgWorkers e)" "bgWorkers e ! k = Busy i"
    and e': "e' = set_worker k (Delivering i (bg_outcome (bkCancelled (bgTasks e ! i)) (bgTasks e ! i))) (unregistered i e)"
  then have i: "i < length (bgTasks e)" "bkStatus (bgTasks e ! i) = Accepted" using in_hand_open[of e k i] by simp_all
  then have u: "unsettled e' = unsettled e - {i}"
    using e' e(3,4) by (subst unsettled_worker[of k e e' "Delivering i (bg_outcome (bkCancelled (bgTasks e ! i)) (bgTasks e ! i))"])
      (auto simp: bg_changes)
  have inj: "inj_on ((!) (map bkID (bgTasks e))) (insert i (unsettled e))"
    using e(2) i(1) by (intro inj_on_nth) (auto simp: active_inv_def unsettled_def)
  have "bgActive e' = (!) (map bkID (bgTasks e)) ` unsettled e - (!) (map bkID (bgTasks e)) ` {i}"
    using e(2) e' i(1) by (auto simp: active_inv_def bg_changes)
  also have "\<dots> = (!) (map bkID (bgTasks e)) ` (unsettled e - {i})"
    using inj by (subst inj_on_image_set_diff[OF inj]) auto
  finally show "active_inv e'" using u e(2) e' by (simp add: active_inv_def bg_changes)
next
  fix k i r
  assume e: "places_inv e" "active_inv e" "k < length (bgWorkers e)" "bgWorkers e ! k = Delivering i r"
    and e': "e' = set_worker k (Reporting r) (bg_delivered i r e)"
  then have i: "i < length (bgTasks e)" "bkStatus (bgTasks e ! i) = Accepted" "bkResult (bgTasks e ! i) = None"
    using in_hand_open[of e k i] by simp_all
  have "i \<in> delivering e" using e(3,4) unfolding delivering_def by (metis UN_I delivers.simps(1) insertI1 nth_mem)
  moreover have "j \<in> delivering e' \<longleftrightarrow> j \<in> delivering e" if "j \<noteq> i" for j
    using that e e' i delivering_worker[of k e e' "Reporting r" j] by (simp add: bg_changes)
  ultimately have "unsettled e' = unsettled e"
    using i e' by (auto simp: unsettled_def bg_changes nth_list_update split: if_splits)
  then show "active_inv e'" using e(2) e' i by (elim active_same) (auto simp: bg_changes ids_update)
qed (erule active_worker, assumption, auto simp: bg_changes)+

lemma active_call: "places_inv e \<Longrightarrow> active_inv e \<Longrightarrow> bg_call e e' \<Longrightarrow> active_inv e'"
proof (erule bg_callE)
  fix u d err name fn p
  assume e: "active_inv e" "places_inv e" "fresh_id u e" and e': "e' = snd (bg_Submit u d err name fn p e)"
  show "active_inv e'"
  proof (cases "bgRunning e")
    case True
    have d: "i \<notin> delivering e" if "\<not> i < length (bgTasks e)" for i
      using that in_hand_open[OF e(2)] by (meson delivering_nth delivers_in_hand)
    have "unsettled e' = insert (length (bgTasks e)) (unsettled e)"
      using True e' by (auto simp: unsettled_def bg_changes nth_append delivering_def less_Suc_eq)
    moreover have "(!) (map bkID (bgTasks e')) ` unsettled e = (!) (map bkID (bgTasks e)) ` unsettled e"
      using True e' by (auto simp: unsettled_def bg_changes nth_append)
    ultimately show ?thesis
      using True e e' by (auto simp: active_inv_def bg_changes fresh_id_def nth_append)
  next
    case False
    then show ?thesis using e e' by (simp add: bg_changes)
  qed
qed (erule active_same; auto simp: bg_changes unsettled_def delivering_def nth_list_update ids_update split: if_splits)+

lemma active_next: "places_inv e \<Longrightarrow> active_inv e \<Longrightarrow> bg_next e e' \<Longrightarrow> active_inv e'"
  by (erule bg_next_cases)
    (auto intro: active_submit active_work active_call, auto simp: active_inv_def unsettled_def delivering_def)

lemma active_reachable: "bg_reachable n q e \<Longrightarrow> active_inv e"
proof (induction rule: bg_reachable.induct)
  case new
  show ?case by (simp add: active_inv_def unsettled_def NewBackgroundExecutor_def)
next
  case (next_state e e')
  then show ?case using active_next places_reachable by blast
qed

section \<open>Every accepted task runs once\<close>

text \<open>C33: In every state a run of the executor reaches, each accepted task without a result is in one place,
  once: the queue or the hands of one worker. A task with a result has its own one and is nowhere else, so
  no function runs twice. A task that was not accepted never ran. The buffers keep their bounds, and every
  start adds as many workers as were asked for.\<close>

theorem background_runs_once:
  assumes "bg_reachable n q e"
  shows "(\<forall>i < length (bgTasks e). case bkStatus (bgTasks e ! i) of
        Accepted \<Rightarrow> (bkResult (bgTasks e ! i) = None \<and> count (held e) i = 1) \<or>
          ((\<exists>c. bkResult (bgTasks e ! i) = Some (bg_outcome c (bgTasks e ! i))) \<and> count (held e) i = 0)
      | _ \<Rightarrow> bkResult (bgTasks e ! i) = None \<and> count (held e) i = 0) \<and>
    (\<forall>i \<in># held e. i < length (bgTasks e)) \<and>
    length (bgQueue e) \<le> bgCap e \<and> length (bgResults e) \<le> bgCap e \<and> length (bgWorkers e) = bgMax e * bgGen e"
proof -
  have p: "held e = mset_set (open_tasks (bgTasks e))" and r: "result_inv e" and b: "bounds_inv n q e"
    and s: "\<forall>t \<in> set (bgTasks e). bkStatus t \<noteq> Accepted \<longrightarrow> bkResult t = None"
    using places_reachable[OF assms] result_reachable[OF assms] bounds_reachable[OF assms] by (auto simp: places_inv_def)
  have c: "count (held e) i = of_bool (i \<in> open_tasks (bgTasks e))" for i
    using p by simp
  have "\<exists>c. bkResult (bgTasks e ! i) = Some (bg_outcome c (bgTasks e ! i))"
    if "i < length (bgTasks e)" "bkResult (bgTasks e ! i) \<noteq> None" for i
    using r that by (auto simp: result_inv_def own_result_def)
  then show ?thesis
    using b c s p by (auto simp: bounds_inv_def open_tasks_def split: submission.split)
qed

section \<open>Progress\<close>

fun worker_work :: "worker \<Rightarrow> nat" where
  "worker_work Looping = 2"
| "worker_work (Selecting g) = 1"
| "worker_work (Busy i) = 6"
| "worker_work (Delivering i r) = 5"
| "worker_work (Reporting r) = 4"
| "worker_work Exited = 0"

definition task_work :: "bg_task \<Rightarrow> nat" where
  "task_work t = (if bkStatus t = Submitting then 10 else 0)"

definition bg_work :: "bg_executor \<Rightarrow> nat" where
  "bg_work e = sum_list (map task_work (bgTasks e)) + 8 * length (bgQueue e) + sum_list (map worker_work (bgWorkers e)) +
     bgStops e + of_bool (\<not> bgCrashed e)"

lemma work_task:
  "i < length (bgTasks e) \<Longrightarrow>
   sum_list (map task_work ((bgTasks e)[i := t])) + task_work (bgTasks e ! i) = sum_list (map task_work (bgTasks e)) + task_work t"
  by (rule sum_list_update_add)

lemma work_worker:
  "k < length (bgWorkers e) \<Longrightarrow> sum_list (map worker_work ((bgWorkers e)[k := w])) + worker_work (bgWorkers e ! k) =
   sum_list (map worker_work (bgWorkers e)) + worker_work w"
  by (rule sum_list_update_add)

lemma submit_work: "\<not> bgCrashed e \<Longrightarrow> submit_step e e' \<Longrightarrow> bg_work e' < bg_work e"
proof (erule submit_stepE)
  fix i
  assume "i < length (bgTasks e)" "bkStatus (bgTasks e ! i) = Submitting" "e' = accepted i e"
  then show "bg_work e' < bg_work e"
    using work_task[of i e "(bgTasks e ! i)\<lparr>bkStatus := Accepted\<rparr>"] by (simp add: bg_work_def bg_changes task_work_def)
next
  fix i
  assume "i < length (bgTasks e)" "bkStatus (bgTasks e ! i) = Submitting" "e' = refused (bkCtxErr (bgTasks e ! i)) i e"
  then show "bg_work e' < bg_work e"
    using work_task[of i e "(bgTasks e ! i)\<lparr>bkStatus := Refused (bkCtxErr (bgTasks e ! i)), bkCancelled := True\<rparr>"]
    by (simp add: bg_work_def bg_changes task_work_def)
next
  fix i
  assume "i < length (bgTasks e)" "bkStatus (bgTasks e ! i) = Submitting" "e' = refused (ErrorString ''task queue full'') i e"
  then show "bg_work e' < bg_work e"
    using work_task[of i e "(bgTasks e ! i)\<lparr>bkStatus := Refused (ErrorString ''task queue full''), bkCancelled := True\<rparr>"]
    by (simp add: bg_work_def bg_changes task_work_def)
qed (simp add: bg_work_def)

lemma worker_bg_work:
  assumes "k < length (bgWorkers e)" "bgWorkers e' = (bgWorkers e)[k := w]" "map task_work (bgTasks e') = map task_work (bgTasks e)"
    and "worker_work w + 8 * length (bgQueue e') < worker_work (bgWorkers e ! k) + 8 * length (bgQueue e)"
    and "bgStops e' = bgStops e" "bgCrashed e \<longrightarrow> bgCrashed e'"
  shows "bg_work e' < bg_work e"
  using work_worker[OF assms(1), of w] assms by (simp add: bg_work_def)

lemma work_same: "bkStatus t = bkStatus (ts ! i) \<Longrightarrow> i < length ts \<Longrightarrow> map task_work (ts[i := t]) = map task_work ts"
  by (simp add: map_update list_update_same_conv task_work_def)

lemma work_work: "places_inv e \<Longrightarrow> worker_step e e' \<Longrightarrow> bg_work e' < bg_work e"
proof (erule worker_stepE)
  fix k i r
  assume e: "places_inv e" "k < length (bgWorkers e)" "bgWorkers e ! k = Delivering i r"
    and e': "e' = set_worker k (Reporting r) (bg_delivered i r e)"
  then have "i < length (bgTasks e)" using in_hand_open[of e k i] by simp
  then show "bg_work e' < bg_work e"
    using e e' by (intro worker_bg_work[of k e e' "Reporting r"]) (auto simp: bg_changes work_same)
qed (rule worker_bg_work, assumption, auto simp: bg_changes)+

lemma bg_step_work: "places_inv e \<Longrightarrow> bg_step e e' \<Longrightarrow> bg_work e' < bg_work e"
proof (erule bg_stepE)
  assume "\<not> bgCrashed e" "bgStops e > 0" "e' = close_channels e"
  then show "bg_work e' < bg_work e" by (cases "bgClosed e") (simp_all add: bg_work_def)
qed (auto intro: submit_work work_work)

lemma bg_steps_work: "places_inv e \<Longrightarrow> (bg_step ^^ m) e e' \<Longrightarrow> m + bg_work e' \<le> bg_work e \<and> places_inv e'"
proof (induction m arbitrary: e')
  case (Suc m)
  then obtain e1 where "(bg_step ^^ m) e e1" "bg_step e1 e'" by auto
  moreover from this have "m + bg_work e1 \<le> bg_work e \<and> places_inv e1" using Suc by blast
  ultimately show ?case using bg_step_work[of e1 e'] places_next[of e1 e'] by (simp add: bg_next_def)
qed simp

text \<open>While the executor runs and has something to do, some worker is there to do it.\<close>

definition live_worker :: "bg_executor \<Rightarrow> worker \<Rightarrow> bool" where
  "live_worker e w \<longleftrightarrow> w \<noteq> Exited \<and> (\<forall>g. w = Selecting g \<longrightarrow> g = bgGen e)"

definition live_inv :: "bg_executor \<Rightarrow> bool" where
  "live_inv e \<longleftrightarrow> (\<forall>g. Selecting g \<in> set (bgWorkers e) \<longrightarrow> g \<le> bgGen e) \<and>
     (bgRunning e \<and> (\<not> bgClosed e \<or> bgQueue e \<noteq> []) \<longrightarrow> (\<exists>w \<in> set (bgWorkers e). live_worker e w))"

lemma selecting_update: "Selecting g \<in> set (ws[k := w]) \<Longrightarrow> Selecting g \<in> set ws \<or> w = Selecting g"
  by (auto dest!: set_update_subset_insert[THEN subsetD])

lemma live_same:
  "live_inv e \<Longrightarrow> bgWorkers e' = bgWorkers e \<Longrightarrow> bgGen e' = bgGen e \<Longrightarrow>
   (bgRunning e' \<and> (\<not> bgClosed e' \<or> bgQueue e' \<noteq> []) \<Longrightarrow> bgRunning e \<and> (\<not> bgClosed e \<or> bgQueue e \<noteq> [])) \<Longrightarrow> live_inv e'"
  by (auto simp: live_inv_def live_worker_def)

lemma live_worker_change:
  assumes "live_inv e" "k < length (bgWorkers e)" "bgWorkers e' = (bgWorkers e)[k := w]" "bgGen e' = bgGen e" "bgRunning e' = bgRunning e"
    and "\<And>g. w = Selecting g \<Longrightarrow> g = bgGen e"
    and "bgRunning e' \<and> (\<not> bgClosed e' \<or> bgQueue e' \<noteq> []) \<Longrightarrow> \<not> bgClosed e \<or> bgQueue e \<noteq> []"
    and "bgRunning e' \<and> (\<not> bgClosed e' \<or> bgQueue e' \<noteq> []) \<Longrightarrow> live_worker e (bgWorkers e ! k) \<Longrightarrow> w \<noteq> Exited"
  shows "live_inv e'"
proof -
  have "\<exists>v \<in> set (bgWorkers e'). live_worker e' v" if go: "bgRunning e' \<and> (\<not> bgClosed e' \<or> bgQueue e' \<noteq> [])"
  proof -
    obtain l where l: "l < length (bgWorkers e)" "live_worker e (bgWorkers e ! l)"
      using assms(1,5,7) go by (metis in_set_conv_nth live_inv_def)
    show ?thesis
    proof (cases "l = k")
      case True
      then have "live_worker e' w" using assms(4,6,8) go l by (auto simp: live_worker_def)
      then show ?thesis using assms(2,3) by (metis set_update_memI)
    next
      case False
      then have "bgWorkers e' ! l = bgWorkers e ! l" "l < length (bgWorkers e')" using assms(3) l by simp_all
      then show ?thesis using l assms(4) by (metis live_worker_def nth_mem)
    qed
  qed
  moreover have "g \<le> bgGen e'" if "Selecting g \<in> set (bgWorkers e')" for g
    using that assms(1,3,4,6) by (auto simp: live_inv_def dest!: selecting_update)
  ultimately show ?thesis by (simp add: live_inv_def)
qed

lemma live_next: "bounds_inv n q e \<Longrightarrow> live_inv e \<Longrightarrow> bg_next e e' \<Longrightarrow> live_inv e'"
proof (erule bg_next_cases)
  assume "live_inv e" "submit_step e e'"
  then show "live_inv e'" by (elim submit_stepE) (erule live_same; simp add: bg_changes)+
next
  assume "live_inv e" "worker_step e e'"
  then show "live_inv e'"
    by (elim worker_stepE) (erule live_worker_change, assumption, auto simp: bg_changes live_worker_def stop_closed_def)+
next
  assume "live_inv e" "e' = close_channels e"
  then show "live_inv e'" by (elim live_same) auto
next
  assume e: "bounds_inv n q e" "live_inv e" "bg_call e e'"
  from e(3) show "live_inv e'"
  proof (cases rule: bg_call.cases)
    case start
    then show ?thesis
      using e(1,2) by (auto simp: live_inv_def bg_changes live_worker_def bounds_inv_def)
  qed (rule live_same[OF e(2)]; simp add: bg_changes split: if_splits)+
qed

lemma live_reachable: "bg_reachable n q e \<Longrightarrow> live_inv e"
proof (induction rule: bg_reachable.induct)
  case new
  show ?case by (simp add: live_inv_def NewBackgroundExecutor_def)
next
  case (next_state e e')
  then show ?case using live_next bounds_reachable by blast
qed

lemma step_next: "bg_step e e' \<Longrightarrow> bg_next e e'"
  by (simp add: bg_next_def)

lemma steps_reachable: "bg_reachable n q e \<Longrightarrow> bg_step\<^sup>*\<^sup>* e e' \<Longrightarrow> bg_reachable n q e'"
  by (rotate_tac 1, induction rule: rtranclp_induct) (auto intro: bg_reachable.next_state step_next)

text \<open>When no step is possible, nobody waits in \<open>Submit\<close>, no worker has work, and while the executor runs
  the queue is empty.\<close>

lemma at_rest:
  assumes "bg_reachable n q e" "\<nexists>e'. bg_step e e'" "\<not> bgCrashed e"
  shows "\<forall>t \<in> set (bgTasks e). bkStatus t \<noteq> Submitting"
    and "\<forall>w \<in> set (bgWorkers e). w = Exited \<or> (\<exists>g. w = Selecting g)"
    and "bgRunning e \<Longrightarrow> bgQueue e = []"
proof -
  have submit: "\<not> submit_step e e'" and work: "\<not> worker_step e e'" for e'
    using assms(2,3) by (auto intro: bg_step.intros)
  show "\<forall>t \<in> set (bgTasks e). bkStatus t \<noteq> Submitting"
  proof
    fix t assume "t \<in> set (bgTasks e)"
    then obtain i where i: "i < length (bgTasks e)" "t = bgTasks e ! i" by (metis in_set_conv_nth)
    show "bkStatus t \<noteq> Submitting"
      using i submit submit_step.accept[of i e] submit_step.refuse_full[of i e] submit_step.send_closed[of i e] by force
  qed
  show idle: "\<forall>w \<in> set (bgWorkers e). w = Exited \<or> (\<exists>g. w = Selecting g)"
  proof
    fix w assume "w \<in> set (bgWorkers e)"
    then obtain k where k: "k < length (bgWorkers e)" "w = bgWorkers e ! k" by (metis in_set_conv_nth)
    then show "w = Exited \<or> (\<exists>g. w = Selecting g)"
      using work worker_step.enter[of k e] worker_step.ran[of k e] worker_step.deliver[of k e] worker_step.report[of k e]
      by (cases w) force+
  qed
  show "bgQueue e = []" if run: "bgRunning e"
  proof (rule ccontr)
    assume q: "bgQueue e \<noteq> []"
    then obtain w where w: "w \<in> set (bgWorkers e)" "live_worker e w"
      using live_reachable[OF assms(1)] run by (auto simp: live_inv_def)
    with idle obtain g where "w = Selecting g" by (auto simp: live_worker_def)
    with w(1) obtain k where "k < length (bgWorkers e)" "bgWorkers e ! k = Selecting g" by (metis in_set_conv_nth)
    with q work show False by (cases "bgQueue e") (auto dest: worker_step.take)
  qed
qed

text \<open>Without a call of \<open>Stop\<close> the steps of the program keep the executor running and do not crash it.\<close>

lemma quiet_steps:
  "bg_step\<^sup>*\<^sup>* e e' \<Longrightarrow> bgRunning e \<and> bgStops e = 0 \<and> \<not> bgClosed e \<and> \<not> bgCrashed e \<Longrightarrow>
   bgRunning e' \<and> bgStops e' = 0 \<and> \<not> bgClosed e' \<and> \<not> bgCrashed e'"
proof (induction rule: rtranclp_induct)
  case (step e1 e2)
  then show ?case by (auto elim!: bg_stepE submit_stepE worker_stepE simp: bg_changes split: if_splits)
qed

text \<open>C34: A running executor that is not stopped works off what it has accepted. Its own steps are bounded
  (\<open>bg_work\<close>), whatever the order of goroutines; when none is left, nobody waits in \<open>Submit\<close>, every
  accepted task has its own result, and the tasks still listed as active are those that were refused.\<close>

theorem background_drains:
  assumes "bg_reachable n q e" "bgRunning e" "bgStops e = 0" "\<not> bgClosed e" "\<not> bgCrashed e"
  shows "(\<forall>m e'. (bg_step ^^ m) e e' \<longrightarrow> m \<le> bg_work e) \<and>
    (\<forall>e'. bg_step\<^sup>*\<^sup>* e e' \<and> (\<nexists>e''. bg_step e' e'') \<longrightarrow> bgQueue e' = [] \<and>
       (\<forall>i < length (bgTasks e'). case bkStatus (bgTasks e' ! i) of
          Accepted \<Rightarrow> (\<exists>c. bkResult (bgTasks e' ! i) = Some (bg_outcome c (bgTasks e' ! i))) \<and>
            bkID (bgTasks e' ! i) \<notin> GetActiveTasks e'
        | Refused err \<Rightarrow> bkID (bgTasks e' ! i) \<in> GetActiveTasks e'
        | Submitting \<Rightarrow> False))"
proof (intro conjI allI impI)
  fix m e' assume "(bg_step ^^ m) e e'"
  then show "m \<le> bg_work e" using bg_steps_work[OF places_reachable[OF assms(1)]] by fastforce
next
  fix e' assume e': "bg_step\<^sup>*\<^sup>* e e' \<and> (\<nexists>e''. bg_step e' e'')"
  then have r: "bg_reachable n q e'" using steps_reachable assms(1) by blast
  have run: "bgRunning e'" "\<not> bgCrashed e'" using quiet_steps[of e e'] e' assms(2-5) by auto
  show q: "bgQueue e' = []" using at_rest(3)[OF r] e' run by blast
  have idle: "\<forall>w \<in> set (bgWorkers e'). in_hand w = {#} \<and> delivers w = {}" using at_rest(2)[OF r] e' run by fastforce
  then have "sum_list (map in_hand (bgWorkers e')) = {#}" by (metis idle_hands map_eq_conv map_replicate_const)
  then have none: "held e' = {#}" using q by (simp add: held_def)
  fix i assume i: "i < length (bgTasks e')"
  have act: "distinct (map bkID (bgTasks e'))" "bgActive e' = (!) (map bkID (bgTasks e')) ` unsettled e'"
    using active_reachable[OF r] by (auto simp: active_inv_def)
  have inj: "inj_on ((!) (map bkID (bgTasks e'))) {j. j < length (bgTasks e')}" using act(1) by (intro inj_on_nth) auto
  then have active: "bkID (bgTasks e' ! i) \<in> GetActiveTasks e' \<longleftrightarrow> i \<in> unsettled e'"
    using i act(2) by (auto simp: GetActiveTasks_def inj_on_def unsettled_def)
  show "case bkStatus (bgTasks e' ! i) of
      Accepted \<Rightarrow> (\<exists>c. bkResult (bgTasks e' ! i) = Some (bg_outcome c (bgTasks e' ! i))) \<and> bkID (bgTasks e' ! i) \<notin> GetActiveTasks e'
    | Refused err \<Rightarrow> bkID (bgTasks e' ! i) \<in> GetActiveTasks e' | Submitting \<Rightarrow> False"
  proof (cases "bkStatus (bgTasks e' ! i)")
    case Accepted
    then have "\<exists>c. bkResult (bgTasks e' ! i) = Some (bg_outcome c (bgTasks e' ! i))"
      using background_runs_once[OF r] i none by (auto split: submission.splits)
    then show ?thesis using Accepted active i by (auto simp: unsettled_def)
  next
    case (Refused err)
    then show ?thesis using active i by (simp add: unsettled_def)
  next
    case Submitting
    then show ?thesis using at_rest(1)[OF r] e' run i by auto
  qed
qed

section \<open>Refused tasks, stopping and starting again\<close>

text \<open>What no step and no call undoes.\<close>

definition continues :: "bg_executor \<Rightarrow> bg_executor \<Rightarrow> bool" where
  "continues e e' \<longleftrightarrow> length (bgTasks e) \<le> length (bgTasks e') \<and>
     (\<forall>i < length (bgTasks e). bkID (bgTasks e' ! i) = bkID (bgTasks e ! i) \<and>
        (bkStatus (bgTasks e ! i) \<noteq> Submitting \<longrightarrow> bkStatus (bgTasks e' ! i) = bkStatus (bgTasks e ! i))) \<and>
     (bgClosed e \<longrightarrow> bgClosed e' \<and> (\<exists>rs. bgResults e = rs @ bgResults e') \<and>
        (\<forall>i < length (bgTasks e'). bkStatus (bgTasks e' ! i) = Accepted \<longrightarrow> i < length (bgTasks e) \<and> bkStatus (bgTasks e ! i) = Accepted))"

lemma continues_refl: "continues e e"
  by (simp add: continues_def)

lemma continues_trans:
  assumes a: "continues e e1" and b: "continues e1 e2"
  shows "continues e e2"
proof -
  have "bgClosed e2 \<and> (\<exists>rs. bgResults e = rs @ bgResults e2)" if "bgClosed e"
  proof -
    have "bgClosed e1" "\<exists>rs. bgResults e = rs @ bgResults e1" using a that by (simp_all add: continues_def)
    moreover from this have "bgClosed e2" "\<exists>rs. bgResults e1 = rs @ bgResults e2" using b by (simp_all add: continues_def)
    ultimately show ?thesis by (metis append.assoc)
  qed
  moreover have "i < length (bgTasks e) \<and> bkStatus (bgTasks e ! i) = Accepted"
    if c: "bgClosed e" and i: "i < length (bgTasks e2)" "bkStatus (bgTasks e2 ! i) = Accepted" for i
  proof -
    have "bgClosed e1" using a c by (simp add: continues_def)
    then have "i < length (bgTasks e1) \<and> bkStatus (bgTasks e1 ! i) = Accepted" using b i by (simp add: continues_def)
    then show ?thesis using a c by (simp add: continues_def)
  qed
  moreover have "bkID (bgTasks e2 ! i) = bkID (bgTasks e ! i) \<and>
      (bkStatus (bgTasks e ! i) \<noteq> Submitting \<longrightarrow> bkStatus (bgTasks e2 ! i) = bkStatus (bgTasks e ! i))"
    if i: "i < length (bgTasks e)" for i
  proof -
    have "i < length (bgTasks e1)" using a i by (simp add: continues_def)
    then show ?thesis using a b i by (simp add: continues_def)
  qed
  moreover have "length (bgTasks e) \<le> length (bgTasks e2)" using a b by (simp add: continues_def)
  ultimately show ?thesis unfolding continues_def by blast
qed

lemma continues_tasks:
  "bgTasks e' = bgTasks e \<Longrightarrow> bgClosed e \<longrightarrow> bgClosed e' \<and> (\<exists>rs. bgResults e = rs @ bgResults e') \<Longrightarrow> continues e e'"
  by (simp add: continues_def)

lemma continues_task:
  "bgTasks e' = (bgTasks e)[i := t] \<Longrightarrow> bgClosed e' = bgClosed e \<Longrightarrow> bgResults e' = bgResults e \<Longrightarrow> i < length (bgTasks e) \<Longrightarrow>
   bkID t = bkID (bgTasks e ! i) \<Longrightarrow>
   bkStatus t = bkStatus (bgTasks e ! i) \<or> bkStatus (bgTasks e ! i) = Submitting \<and> (bgClosed e \<longrightarrow> bkStatus t \<noteq> Accepted) \<Longrightarrow>
   continues e e'"
  by (auto simp: continues_def nth_list_update)

lemma continues_next: "places_inv e \<Longrightarrow> bg_next e e' \<Longrightarrow> continues e e'"
proof (erule bg_next_cases)
  assume "submit_step e e'"
  then show "continues e e'"
  proof (cases rule: submit_step.cases)
    case (accept i)
    then show ?thesis by (intro continues_task[of e' e i "(bgTasks e ! i)\<lparr>bkStatus := Accepted\<rparr>"]) (simp_all add: bg_changes)
  next
    case (refuse_done i)
    then show ?thesis
      by (intro continues_task[of e' e i "(bgTasks e ! i)\<lparr>bkStatus := Refused (bkCtxErr (bgTasks e ! i)), bkCancelled := True\<rparr>"])
        (simp_all add: bg_changes)
  next
    case (refuse_full i)
    then show ?thesis
      by (intro continues_task[of e' e i "(bgTasks e ! i)\<lparr>bkStatus := Refused (ErrorString ''task queue full''), bkCancelled := True\<rparr>"])
        (simp_all add: bg_changes)
  qed (simp add: continues_def)
next
  assume e: "places_inv e" "worker_step e e'"
  from e(2) show "continues e e'"
  proof (cases rule: worker_step.cases)
    case (deliver k i r)
    then have "i < length (bgTasks e)" "bkResult (bgTasks e ! i) = None" using in_hand_open[OF e(1), of k i] by simp_all
    then show ?thesis
      using deliver by (intro continues_task[of e' e i "(bgTasks e ! i)\<lparr>bkResult := Some r\<rparr>"]) (simp_all add: bg_changes)
  qed (auto intro!: continues_tasks simp: bg_changes)
next
  assume "e' = close_channels e"
  then show "continues e e'" by (auto intro!: continues_tasks)
next
  assume "bg_call e e'"
  then show "continues e e'"
  proof (cases rule: bg_call.cases)
    case (ended i)
    then show ?thesis
      by (intro continues_task[of e' e i "(bgTasks e ! i)\<lparr>bkDone := True, bkCancelled := True\<rparr>"]) (simp_all add: bg_changes)
  qed (auto simp: continues_def bg_changes nth_append less_Suc_eq)
qed

lemma later_continues: "bg_reachable n q e \<Longrightarrow> bg_next\<^sup>*\<^sup>* e e' \<Longrightarrow> continues e e' \<and> bg_reachable n q e'"
proof (rotate_tac 1, induction rule: rtranclp_induct)
  case base
  then show ?case by (simp add: continues_refl)
next
  case (step e1 e2)
  then have "continues e1 e2" using continues_next places_reachable by blast
  then show ?case using step continues_trans bg_reachable.next_state by blast
qed

lemma active_iff: "bg_reachable n q e \<Longrightarrow> i < length (bgTasks e) \<Longrightarrow> bkID (bgTasks e ! i) \<in> bgActive e \<longleftrightarrow> i \<in> unsettled e"
proof -
  assume r: "bg_reachable n q e" and i: "i < length (bgTasks e)"
  then have act: "distinct (map bkID (bgTasks e))" "bgActive e = (!) (map bkID (bgTasks e)) ` unsettled e"
    using active_reachable[OF r] by (auto simp: active_inv_def)
  have "inj_on ((!) (map bkID (bgTasks e))) {j. j < length (bgTasks e)}" using act(1) by (intro inj_on_nth) auto
  then show ?thesis using i act(2) by (auto simp: inj_on_def unsettled_def)
qed

text \<open>A task that \<open>Submit\<close> has refused stays in the list of active tasks for ever, and can be cancelled
  for ever, though nothing will run it.\<close>

theorem refused_stays_active:
  assumes "bg_reachable n q e" "i < length (bgTasks e)" "bkStatus (bgTasks e ! i) = Refused err" "bg_next\<^sup>*\<^sup>* e e'"
  shows "bkStatus (bgTasks e' ! i) = Refused err \<and> bkResult (bgTasks e' ! i) = None \<and>
    bkID (bgTasks e ! i) \<in> GetActiveTasks e' \<and> fst (CancelTask (bkID (bgTasks e ! i)) e')"
proof -
  have c: "continues e e'" and r: "bg_reachable n q e'" using later_continues assms(1,4) by blast+
  then have i: "i < length (bgTasks e')" "bkStatus (bgTasks e' ! i) = Refused err" "bkID (bgTasks e' ! i) = bkID (bgTasks e ! i)"
    using assms(2,3) by (auto simp: continues_def)
  then have "bkID (bgTasks e ! i) \<in> bgActive e'" using active_iff[OF r i(1)] by (simp add: unsettled_def)
  moreover have "bkResult (bgTasks e' ! i) = None" using places_reachable[OF r] i(1,2) by (simp add: places_inv_def)
  ultimately show ?thesis using i by (simp add: GetActiveTasks_def CancelTask_def)
qed

text \<open>Once \<open>Stop\<close> has closed the queue, the executor never accepts a task and never reports a result
  again, even after another \<open>Start\<close>: \<open>Start\<close> makes a new stop channel but no new queue.\<close>

theorem closed_for_good:
  assumes "bg_reachable n q e" "bgClosed e" "bg_next\<^sup>*\<^sup>* e e'"
  shows "bgClosed e' \<and> (\<exists>rs. GetResult e = rs @ GetResult e') \<and>
    (\<forall>i < length (bgTasks e'). bkStatus (bgTasks e' ! i) = Accepted \<longrightarrow>
       i < length (bgTasks e) \<and> bkStatus (bgTasks e ! i) = Accepted)"
  using later_continues[OF assms(1,3)] assms(2) by (auto simp: continues_def GetResult_def)

text \<open>A worker that has taken a task and not yet reported it.\<close>

fun occupied :: "worker \<Rightarrow> bool" where
  "occupied (Busy i) = True"
| "occupied (Delivering i r) = True"
| "occupied (Reporting r) = True"
| "occupied w = False"

definition doomed :: "bg_executor \<Rightarrow> bool" where
  "doomed e \<longleftrightarrow> bgRunning e \<and> bgClosed e \<and> (bgCrashed e \<or> bgQueue e \<noteq> [] \<or> (\<exists>k < length (bgWorkers e). occupied (bgWorkers e ! k)))"

lemma doomed_worker:
  "doomed e \<Longrightarrow> \<not> bgCrashed e \<Longrightarrow> k < length (bgWorkers e) \<Longrightarrow> bgWorkers e' = (bgWorkers e)[k := w] \<Longrightarrow>
   bgRunning e' = bgRunning e \<Longrightarrow> bgClosed e' = bgClosed e \<Longrightarrow>
   occupied w \<or> bgCrashed e' \<or> bgQueue e' = bgQueue e \<and> \<not> occupied (bgWorkers e ! k) \<Longrightarrow> doomed e'"
  unfolding doomed_def by (auto simp: nth_list_update intro: exI[of _ k])

lemma doomed_step: "doomed e \<Longrightarrow> bg_step e e' \<Longrightarrow> doomed e'"
proof (erule bg_stepE)
  assume "doomed e" "submit_step e e'"
  then show "doomed e'" by (elim submit_stepE) (auto simp: doomed_def bg_changes)
next
  assume e: "doomed e" "\<not> bgCrashed e" "worker_step e e'"
  then have "bgClosed e" by (simp add: doomed_def)
  with e(3) show "doomed e'"
    by (elim worker_stepE) (rule doomed_worker[OF e(1,2)], assumption, auto simp: bg_changes)+
qed (simp add: doomed_def)

text \<open>When the executor is started again with tasks left in the queue that \<open>Stop\<close> has closed, its
  workers run them and report into a closed channel: no run of the program comes to rest without a
  crash.\<close>

theorem restart_crashes:
  assumes "bg_reachable n q e" "bgRunning e" "bgClosed e" "bgQueue e \<noteq> []"
    and "bg_step\<^sup>*\<^sup>* e e'" "\<nexists>e''. bg_step e' e''"
  shows "bgCrashed e'"
proof (rule ccontr)
  assume c: "\<not> bgCrashed e'"
  have "doomed e'" using assms(5)
  proof (induction rule: rtranclp_induct)
    case base
    then show ?case using assms(2-4) by (simp add: doomed_def)
  qed (rule doomed_step)
  then have d: "bgRunning e'" "bgQueue e' \<noteq> [] \<or> (\<exists>k < length (bgWorkers e'). occupied (bgWorkers e' ! k))"
    using c by (auto simp: doomed_def)
  note rest = at_rest[OF steps_reachable[OF assms(1,5)] assms(6) c]
  then show False using d by (metis nth_mem occupied.simps(5,6))
qed

text \<open>A stopped executor whose workers have ended forgets what is in its queue: until it is started
  again the accepted tasks stay there, without a result and active.\<close>

theorem stop_forgets_queue:
  assumes "bg_reachable n q e" "\<forall>w \<in> set (bgWorkers e). w = Exited" "i \<in> set (bgQueue e)" "bg_step\<^sup>*\<^sup>* e e'"
  shows "i \<in> set (bgQueue e') \<and> bkStatus (bgTasks e' ! i) = Accepted \<and> bkResult (bgTasks e' ! i) = None \<and>
    bkID (bgTasks e' ! i) \<in> GetActiveTasks e'"
proof -
  have k: "bgWorkers e' = bgWorkers e \<and> i \<in> set (bgQueue e')" using assms(4)
  proof (induction rule: rtranclp_induct)
    case (step e1 e2)
    have "\<not> worker_step e1 e2"
      using step.IH assms(2) by (auto elim!: worker_stepE) (metis nth_mem worker.distinct)+
    then have "submit_step e1 e2 \<or> e2 = close_channels e1" using step(2) by (auto elim: bg_stepE)
    then show ?case using step.IH by (auto elim!: submit_stepE simp: bg_changes)
  qed (use assms(3) in simp)
  have r: "bg_reachable n q e'" using steps_reachable assms(1,4) by blast
  from k have i: "i \<in># held e'" "\<forall>w \<in> set (bgWorkers e'). w = Exited" using assms(2) by (auto simp: held_def)
  have o: "i \<in> open_tasks (bgTasks e')" using i(1) held_open places_reachable r by blast
  moreover have "i \<notin> delivering e'" using i(2) by (auto simp: delivering_def)
  ultimately have "i \<in> unsettled e'" by (simp add: open_tasks_def unsettled_def)
  then show ?thesis
    using o k active_iff[OF r, of i] by (simp add: open_tasks_def GetActiveTasks_def)
qed

section \<open>A run\<close>

text \<open>One worker and room for one task: the task \<open>t1\<close> is queued, then \<open>t2\<close> finds the queue full.\<close>

definition demo_queued :: bg_executor where
  "demo_queued = accepted 0 (snd (bg_Submit ''t1'' False (ErrorString ''context canceled'') ''n'' (\<lambda>c. (VBool c, None)) 0
     (bg_Start (NewBackgroundExecutor 1 1))))"

definition demo_full :: bg_executor where
  "demo_full = refused (ErrorString ''task queue full'') 1
     (snd (bg_Submit ''t2'' False (ErrorString ''context canceled'') ''n'' (\<lambda>c. (VBool c, None)) 0 demo_queued))"

text \<open>After \<open>demo_queued\<close> the executor is stopped before its worker has taken the task, and started again.\<close>

definition demo_stopped :: bg_executor where
  "demo_stopped = set_worker 0 Exited (set_worker 0 (Selecting 1) (bg_Stop demo_queued))"

definition demo_restarted :: bg_executor where
  "demo_restarted = bg_Start (close_channels demo_stopped)"

definition demo_reports :: bg_executor where
  "demo_reports = (let e1 = set_worker 1 (Busy 0) ((set_worker 1 (Selecting 2) demo_restarted)\<lparr>bgQueue := []\<rparr>);
       r = bg_outcome False (bgTasks e1 ! 0)
     in set_worker 1 (Reporting r) (bg_delivered 0 r (set_worker 1 (Delivering 0 r) (unregistered 0 e1))))"

lemmas demo_bg = demo_queued_def demo_full_def demo_stopped_def demo_restarted_def demo_reports_def bg_changes
  NewBackgroundExecutor_def fresh_id_def stop_closed_def bg_outcome_def close_channels_def

lemma bg_reach_step: "bg_reachable n q e \<Longrightarrow> bg_step e e' \<Longrightarrow> bg_reachable n q e'"
  by (auto intro: bg_reachable.next_state step_next)

lemma reach_call: "bg_reachable n q e \<Longrightarrow> bg_call e e' \<Longrightarrow> bg_reachable n q e'"
  by (auto intro: bg_reachable.next_state simp: bg_next_def)

lemma demo_queued_reachable: "bg_reachable 1 1 demo_queued"
proof -
  let ?s = "bg_Start (NewBackgroundExecutor 1 1)"
  have "bg_reachable 1 1 ?s" by (rule reach_call[OF bg_reachable.new bg_call.start]) (simp add: demo_bg)
  then have "bg_reachable 1 1 (snd (bg_Submit ''t1'' False (ErrorString ''context canceled'') ''n'' (\<lambda>c. (VBool c, None)) 0 ?s))"
    by (rule reach_call[OF _ bg_call.submit]) (simp_all add: demo_bg)
  then show ?thesis
    unfolding demo_queued_def by (rule bg_reach_step[OF _ bg_step.submit[OF _ submit_step.accept]]) (simp_all add: demo_bg)
qed

lemma demo_full_reachable: "bg_reachable 1 1 demo_full"
proof -
  have "bg_reachable 1 1 (snd (bg_Submit ''t2'' False (ErrorString ''context canceled'') ''n'' (\<lambda>c. (VBool c, None)) 0 demo_queued))"
    by (rule reach_call[OF demo_queued_reachable bg_call.submit]) (simp_all add: demo_bg)
  then show ?thesis
    unfolding demo_full_def by (rule bg_reach_step[OF _ bg_step.submit[OF _ submit_step.refuse_full]]) (simp_all add: demo_bg)
qed

lemma demo_stopped_reachable: "bg_reachable 1 1 demo_stopped"
proof -
  have s: "bg_reachable 1 1 (bg_Stop demo_queued)"
    by (rule reach_call[OF demo_queued_reachable bg_call.stop]) (simp add: demo_bg)
  have "worker_step (bg_Stop demo_queued) (set_worker 0 (Selecting 1) (bg_Stop demo_queued))"
    using worker_step.enter[of 0 "bg_Stop demo_queued"] by (simp add: demo_bg)
  then have "bg_reachable 1 1 (set_worker 0 (Selecting 1) (bg_Stop demo_queued))"
    by (intro bg_reach_step[OF s bg_step.work]) (simp_all add: demo_bg)
  then show ?thesis
    unfolding demo_stopped_def by (rule bg_reach_step[OF _ bg_step.work[OF _ worker_step.stopped]]) (simp_all add: demo_bg)
qed

lemma demo_closed_reachable: "bg_reachable 1 1 (close_channels demo_stopped)"
  by (rule bg_reach_step[OF demo_stopped_reachable bg_step.close]) (simp_all add: demo_bg)

lemma demo_restarted_reachable: "bg_reachable 1 1 demo_restarted"
  unfolding demo_restarted_def by (rule reach_call[OF demo_closed_reachable bg_call.start]) (simp add: demo_bg)

theorem background_runs_once_witness:
  "bkStatus (bgTasks demo_queued ! 0) = Accepted \<and> count (held demo_queued) 0 = 1 \<and> length (bgWorkers demo_queued) = 1"
proof -
  have "bkStatus (bgTasks demo_queued ! 0) = Accepted" "0 < length (bgTasks demo_queued)" "bkResult (bgTasks demo_queued ! 0) = None"
    "bgMax demo_queued * bgGen demo_queued = 1" by (simp_all add: demo_bg)
  then show ?thesis using background_runs_once[OF demo_queued_reachable] by (auto split: submission.splits)
qed

theorem background_drains_witness: "\<forall>e'. \<not> (bg_step ^^ 12) demo_queued e'"
proof
  fix e'
  have "bg_work demo_queued = 11" by (simp add: bg_work_def task_work_def demo_bg)
  moreover have "bgRunning demo_queued" "bgStops demo_queued = 0" "\<not> bgClosed demo_queued" "\<not> bgCrashed demo_queued"
    by (simp_all add: demo_bg)
  ultimately show "\<not> (bg_step ^^ 12) demo_queued e'"
    using conjunct1[OF background_drains[OF demo_queued_reachable]] by fastforce
qed

theorem refused_stays_active_witness: "''t2'' \<in> GetActiveTasks (bg_Stop demo_full)"
proof -
  have "bg_call demo_full (bg_Stop demo_full)" by (rule bg_call.stop) (simp add: demo_bg)
  then have "bg_next\<^sup>*\<^sup>* demo_full (bg_Stop demo_full)" by (simp add: bg_next_def r_into_rtranclp)
  moreover have "1 < length (bgTasks demo_full)" "bkID (bgTasks demo_full ! 1) = ''t2''"
    "bkStatus (bgTasks demo_full ! 1) = Refused (ErrorString ''task queue full'')" by (simp_all add: demo_bg)
  ultimately show ?thesis using refused_stays_active[OF demo_full_reachable] by metis
qed

theorem closed_for_good_witness: "bgClosed demo_restarted"
proof -
  have "bg_call (close_channels demo_stopped) demo_restarted"
    unfolding demo_restarted_def by (rule bg_call.start) (simp add: demo_bg)
  then have "bg_next\<^sup>*\<^sup>* (close_channels demo_stopped) demo_restarted" by (simp add: bg_next_def r_into_rtranclp)
  then show ?thesis using closed_for_good[OF demo_closed_reachable] by simp
qed

theorem restart_crashes_witness: "\<exists>e. bg_reachable 1 1 e \<and> bgCrashed e"
proof -
  let ?e1 = "set_worker 1 (Selecting 2) demo_restarted"
  let ?e2 = "set_worker 1 (Busy 0) (?e1\<lparr>bgQueue := []\<rparr>)"
  let ?r = "bg_outcome False (bgTasks ?e2 ! 0)"
  let ?e3 = "set_worker 1 (Delivering 0 ?r) (unregistered 0 ?e2)"
  let ?e5 = "set_worker 1 Looping (reported ?r demo_reports)"
  have "worker_step demo_restarted ?e1"
    using worker_step.enter[of 1 demo_restarted] by (simp add: demo_bg eval_nat_numeral)
  then have 1: "bg_step demo_restarted ?e1" by (intro bg_step.work) (simp_all add: demo_bg)
  have 2: "bg_step ?e1 ?e2"
    by (rule bg_step.work[OF _ worker_step.take[where g = 2]]) (simp_all add: demo_bg)
  have "worker_step ?e2 ?e3"
    using worker_step.ran[of 1 ?e2 0] by (simp add: demo_bg)
  then have 3: "bg_step ?e2 ?e3" by (intro bg_step.work) (simp_all add: demo_bg)
  have 4: "bg_step ?e3 demo_reports"
    unfolding demo_reports_def Let_def by (rule bg_step.work[OF _ worker_step.deliver]) (simp_all add: demo_bg)
  have 5: "bg_step demo_reports ?e5"
    by (rule bg_step.work[OF _ worker_step.report]) (simp_all add: demo_bg Let_def)
  have steps: "bg_step\<^sup>*\<^sup>* demo_restarted ?e5"
    using 1 2 3 4 5 by (meson converse_rtranclp_into_rtranclp r_into_rtranclp)
  have "bgCrashed ?e5" by (simp add: demo_bg Let_def)
  then have stop: "\<nexists>e''. bg_step ?e5 e''" by (auto elim: bg_stepE)
  have "bgCrashed ?e5"
    by (rule restart_crashes[OF demo_restarted_reachable _ _ _ steps stop]) (simp_all add: demo_bg)
  then show ?thesis using steps_reachable[OF demo_restarted_reachable steps] by blast
qed

theorem stop_forgets_queue_witness: "bkResult (bgTasks (close_channels demo_stopped) ! 0) = None \<and> ''t1'' \<in> GetActiveTasks (close_channels demo_stopped)"
proof -
  have "bg_step\<^sup>*\<^sup>* demo_stopped (close_channels demo_stopped)"
    by (rule r_into_rtranclp, rule bg_step.close) (simp_all add: demo_bg)
  moreover have "\<forall>w \<in> set (bgWorkers demo_stopped). w = Exited" "0 \<in> set (bgQueue demo_stopped)"
    "bkID (bgTasks (close_channels demo_stopped) ! 0) = ''t1''" by (simp_all add: demo_bg)
  ultimately show ?thesis using stop_forgets_queue[OF demo_stopped_reachable] by metis
qed

end
