(* ===== verification/Async_Cache.thy ===== *)
theory Async_Cache
  imports Cache
begin

text \<open>
  The asynchronous cache (\<^verbatim>\<open>pregel/cache_async.go\<close>): operations go through a queue to workers that apply them to a
  memory cache; the executor that looks up and stores through it. The machine \<open>exec_step\<close> interleaves the
  workers with any number of calls of the executor.
\<close>

section \<open>The cache and its workers\<close>

datatype async_op =
    OpGet string
  | OpSet string gval int
  | OpDelete string

text \<open>What arrives on the channel of an operation.\<close>

datatype reply =
    GotValue "gval option"
  | OpDone
  | CtxError gerr

datatype cache_worker =
    AwaitsOp
  | Processing nat async_op
  | WorkerEnded

text \<open>
  Operations are numbered in the order of their calls; \<open>acReplies\<close> holds what was sent on their channels,
  \<open>acLog\<close> all operations that were queued, in order. \<open>'t\<close> is the clock of the cache.
\<close>

record 't async_cache =
  acCache :: "memory_cache \<times> 't"
  acQueue :: "(nat \<times> async_op) list"
  acWorkers :: "cache_worker list"
  acStopped :: bool
  acNext :: nat
  acReplies :: "(nat, reply) fmap"
  acLog :: "async_op list"

definition NewAsyncMemoryCache :: "int \<Rightarrow> eviction_policy \<Rightarrow> int \<Rightarrow> 't \<Rightarrow> 't async_cache" where
  "NewAsyncMemoryCache maxSize ev numWorkers t =
     \<lparr>acCache = (NewMemoryCache maxSize ev, t), acQueue = [],
      acWorkers = replicate (nat (if numWorkers \<le> 0 then 4 else numWorkers)) AwaitsOp,
      acStopped = False, acNext = 0, acReplies = fmempty, acLog = []\<rparr>"

text \<open>The clock and the order of visiting, as for the synchronous cache.\<close>

record 't cache_world =
  cwTick :: "'t \<Rightarrow> int \<times> 't"
  cwOrder :: "memory_cache \<Rightarrow> (string \<times> cache_entry) list"

definition processOp :: "'t cache_world \<Rightarrow> async_op \<Rightarrow> memory_cache \<times> 't \<Rightarrow> reply \<times> (memory_cache \<times> 't)" where
  "processOp W op c = (case op of
     OpGet k \<Rightarrow> (case caGet (memory_cache_of (cwTick W) (cwOrder W)) c k of (v, c1) \<Rightarrow> (GotValue v, c1))
   | OpSet k v ttl \<Rightarrow> (OpDone, caSet (memory_cache_of (cwTick W) (cwOrder W)) c k v ttl)
   | OpDelete k \<Rightarrow> (OpDone, (mc_Delete (fst c) k, snd c)))"

text \<open>
  Queueing an operation under a context that is done with the error \<open>ctx\<close>, if any. Where room and the end of
  the context are both there, \<open>pick\<close> takes the room. \<open>None\<close>: the call blocks.
\<close>

definition queue_op :: "gerr option \<Rightarrow> bool \<Rightarrow> async_op \<Rightarrow> 't async_cache \<Rightarrow> nat option \<times> 't async_cache" where
  "queue_op ctx pick op c =
     (if length (acQueue c) < 1000 \<and> (ctx = None \<or> pick)
      then (Some (acNext c), c\<lparr>acNext := acNext c + 1, acQueue := acQueue c @ [(acNext c, op)], acLog := acLog c @ [op]\<rparr>)
      else case ctx of None \<Rightarrow> (None, c)
      | Some e \<Rightarrow> (Some (acNext c), c\<lparr>acNext := acNext c + 1, acReplies := fmupd (acNext c) (CtxError e) (acReplies c)\<rparr>))"

definition AGet :: "gerr option \<Rightarrow> bool \<Rightarrow> string \<Rightarrow> 't async_cache \<Rightarrow> nat option \<times> 't async_cache" where
  "AGet ctx pick key = queue_op ctx pick (OpGet key)"

definition ASet :: "gerr option \<Rightarrow> bool \<Rightarrow> string \<Rightarrow> gval \<Rightarrow> int \<Rightarrow> 't async_cache \<Rightarrow> nat option \<times> 't async_cache" where
  "ASet ctx pick key v ttl = queue_op ctx pick (OpSet key v ttl)"

definition ADelete :: "gerr option \<Rightarrow> bool \<Rightarrow> string \<Rightarrow> 't async_cache \<Rightarrow> nat option \<times> 't async_cache" where
  "ADelete ctx pick key = queue_op ctx pick (OpDelete key)"

text \<open>\<open>Stop\<close> panics the second time.\<close>

definition ac_Stop :: "'t async_cache \<Rightarrow> 't async_cache option" where
  "ac_Stop c = (if acStopped c then None else Some (c\<lparr>acStopped := True\<rparr>))"

inductive cache_step :: "'t cache_world \<Rightarrow> 't async_cache \<Rightarrow> 't async_cache \<Rightarrow> bool" for W where
  take: "k < length (acWorkers c) \<Longrightarrow> acWorkers c ! k = AwaitsOp \<Longrightarrow> acQueue c = (n, op) # q \<Longrightarrow>
    cache_step W c (c\<lparr>acQueue := q, acWorkers := (acWorkers c)[k := Processing n op]\<rparr>)"
| process: "k < length (acWorkers c) \<Longrightarrow> acWorkers c ! k = Processing n op \<Longrightarrow> processOp W op (acCache c) = (r, m) \<Longrightarrow>
    cache_step W c (c\<lparr>acCache := m, acReplies := fmupd n r (acReplies c), acWorkers := (acWorkers c)[k := AwaitsOp]\<rparr>)"
| halt: "k < length (acWorkers c) \<Longrightarrow> acWorkers c ! k = AwaitsOp \<Longrightarrow> acStopped c \<Longrightarrow>
    cache_step W c (c\<lparr>acWorkers := (acWorkers c)[k := WorkerEnded]\<rparr>)"

inductive_cases cache_stepE: "cache_step W c c'"

section \<open>The executor\<close>

record async_policy =
  apKeyFunc :: "(gval \<Rightarrow> string) option"
  apTTL :: "int option"
  apAsync :: bool

definition async_key :: "golib \<Rightarrow> (string \<Rightarrow> string) \<Rightarrow> async_policy option \<Rightarrow> string \<Rightarrow> gval \<Rightarrow> string" where
  "async_key L hash pol nodeName input =
     (case Option.bind pol apKeyFunc of Some f \<Rightarrow> f input | None \<Rightarrow> GenerateCacheKey L hash nodeName input)"

definition policy_async :: "async_policy option \<Rightarrow> bool" where
  "policy_async pol = (case pol of None \<Rightarrow> False | Some p \<Rightarrow> apAsync p)"

definition policy_ttl :: "async_policy option \<Rightarrow> int" where
  "policy_ttl pol = (case Option.bind pol apTTL of Some t \<Rightarrow> t | None \<Rightarrow> 0)"

text \<open>
  A call of \<open>Execute\<close>: it asks for room in the queue, waits for the reply to its lookup, has to call
  the function, stores a result, has returned. \<open>xcCtx\<close> is the error of its context once that is done.
\<close>

datatype exec_phase =
    Asking
  | Awaiting nat
  | Computing
  | Storing gval
  | Returned "gerr + gval"

record exec_call =
  xcInput :: gval
  xcCtx :: "gerr option"
  xcPhase :: exec_phase

record ('t, 'w) exec_state =
  xsCache :: "'t async_cache"
  xsCalls :: "exec_call list"
  xsWorld :: 'w

record ('t, 'w) exec_env =
  xeWorld :: "'t cache_world"
  xeKey :: "gval \<Rightarrow> string"
  xePolicy :: "async_policy option"
  xeFn :: "gval \<Rightarrow> 'w \<Rightarrow> (gerr + gval) \<times> 'w"

definition set_call :: "nat \<Rightarrow> exec_phase \<Rightarrow> ('t, 'w) exec_state \<Rightarrow> ('t, 'w) exec_state" where
  "set_call i p s = s\<lparr>xsCalls := (xsCalls s)[i := (xsCalls s ! i)\<lparr>xcPhase := p\<rparr>]\<rparr>"

text \<open>What a call does with the reply to its lookup.\<close>

definition after_reply :: "reply \<Rightarrow> exec_phase" where
  "after_reply r = (case r of CtxError e \<Rightarrow> Returned (Inl e) | GotValue (Some v) \<Rightarrow> Returned (Inr v) | _ \<Rightarrow> Computing)"

definition after_function :: "gerr + gval \<Rightarrow> exec_phase" where
  "after_function r = (case r of Inl e \<Rightarrow> Returned (Inl e) | Inr v \<Rightarrow> Storing v)"

text \<open>The cache under the interface of synchronous calls, for policies that are not asynchronous.\<close>

definition sync_get :: "'t cache_world \<Rightarrow> string \<Rightarrow> 't async_cache \<Rightarrow> gval option \<times> 't async_cache" where
  "sync_get W k c = (case caGet (memory_cache_of (cwTick W) (cwOrder W)) (acCache c) k of (v, m) \<Rightarrow> (v, c\<lparr>acCache := m\<rparr>))"

definition sync_set :: "'t cache_world \<Rightarrow> string \<Rightarrow> gval \<Rightarrow> int \<Rightarrow> 't async_cache \<Rightarrow> 't async_cache" where
  "sync_set W k v ttl c = c\<lparr>acCache := caSet (memory_cache_of (cwTick W) (cwOrder W)) (acCache c) k v ttl\<rparr>"

inductive exec_step :: "('t, 'w) exec_env \<Rightarrow> ('t, 'w) exec_state \<Rightarrow> ('t, 'w) exec_state \<Rightarrow> bool" for E where
  worker: "cache_step (xeWorld E) (xsCache s) c \<Longrightarrow> exec_step E s (s\<lparr>xsCache := c\<rparr>)"
| ask: "i < length (xsCalls s) \<Longrightarrow> xcPhase (xsCalls s ! i) = Asking \<Longrightarrow> policy_async (xePolicy E) \<Longrightarrow>
    AGet (xcCtx (xsCalls s ! i)) pick (xeKey E (xcInput (xsCalls s ! i))) (xsCache s) = (Some n, c) \<Longrightarrow>
    exec_step E s (set_call i (Awaiting n) (s\<lparr>xsCache := c\<rparr>))"
| lookup: "i < length (xsCalls s) \<Longrightarrow> xcPhase (xsCalls s ! i) = Asking \<Longrightarrow> \<not> policy_async (xePolicy E) \<Longrightarrow>
    sync_get (xeWorld E) (xeKey E (xcInput (xsCalls s ! i))) (xsCache s) = (v, c) \<Longrightarrow>
    exec_step E s (set_call i (after_reply (GotValue v)) (s\<lparr>xsCache := c\<rparr>))"
| answered: "i < length (xsCalls s) \<Longrightarrow> xcPhase (xsCalls s ! i) = Awaiting n \<Longrightarrow> fmlookup (acReplies (xsCache s)) n = Some r \<Longrightarrow>
    exec_step E s (set_call i (after_reply r) s)"
| given_up: "i < length (xsCalls s) \<Longrightarrow> xcPhase (xsCalls s ! i) = Awaiting n \<Longrightarrow> xcCtx (xsCalls s ! i) = Some e \<Longrightarrow>
    exec_step E s (set_call i (Returned (Inl e)) s)"
| compute: "i < length (xsCalls s) \<Longrightarrow> xcPhase (xsCalls s ! i) = Computing \<Longrightarrow>
    xeFn E (xcInput (xsCalls s ! i)) (xsWorld s) = (r, w) \<Longrightarrow> exec_step E s (set_call i (after_function r) (s\<lparr>xsWorld := w\<rparr>))"
| store: "i < length (xsCalls s) \<Longrightarrow> xcPhase (xsCalls s ! i) = Storing v \<Longrightarrow> policy_async (xePolicy E) \<Longrightarrow>
    ASet None pick (xeKey E (xcInput (xsCalls s ! i))) v (policy_ttl (xePolicy E)) (xsCache s) = (Some n, c) \<Longrightarrow>
    exec_step E s (set_call i (Returned (Inr v)) (s\<lparr>xsCache := c\<rparr>))"
| store_now: "i < length (xsCalls s) \<Longrightarrow> xcPhase (xsCalls s ! i) = Storing v \<Longrightarrow> \<not> policy_async (xePolicy E) \<Longrightarrow>
    exec_step E s (set_call i (Returned (Inr v))
      (s\<lparr>xsCache := sync_set (xeWorld E) (xeKey E (xcInput (xsCalls s ! i))) v (policy_ttl (xePolicy E)) (xsCache s)\<rparr>))"

inductive_cases exec_stepE: "exec_step E s s'"

text \<open>Between the steps callers start calls, contexts end, the cache is stopped and entries are deleted.\<close>

definition start_call :: "gval \<Rightarrow> gerr option \<Rightarrow> ('t, 'w) exec_state \<Rightarrow> ('t, 'w) exec_state" where
  "start_call x ctx s = s\<lparr>xsCalls := xsCalls s @ [\<lparr>xcInput = x, xcCtx = ctx, xcPhase = Asking\<rparr>]\<rparr>"

inductive exec_reachable :: "('t, 'w) exec_env \<Rightarrow> ('t, 'w) exec_state \<Rightarrow> bool" for E where
  new: "exec_reachable E \<lparr>xsCache = NewAsyncMemoryCache sz ev nw t, xsCalls = [], xsWorld = w\<rparr>"
| step: "exec_reachable E s \<Longrightarrow> exec_step E s s' \<Longrightarrow> exec_reachable E s'"
| call: "exec_reachable E s \<Longrightarrow> exec_reachable E (start_call x ctx s)"
| ended: "exec_reachable E s \<Longrightarrow> i < length (xsCalls s) \<Longrightarrow> xcCtx (xsCalls s ! i) = None \<Longrightarrow>
    exec_reachable E (s\<lparr>xsCalls := (xsCalls s)[i := (xsCalls s ! i)\<lparr>xcCtx := Some e\<rparr>]\<rparr>)"
| stop: "exec_reachable E s \<Longrightarrow> ac_Stop (xsCache s) = Some c \<Longrightarrow> exec_reachable E (s\<lparr>xsCache := c\<rparr>)"
| delete: "exec_reachable E s \<Longrightarrow> ADelete ctx pick k (xsCache s) = (n, c) \<Longrightarrow> exec_reachable E (s\<lparr>xsCache := c\<rparr>)"

section \<open>Calls answer what the function answers\<close>

definition pending :: "'t async_cache \<Rightarrow> (nat \<times> async_op) set" where
  "pending c = set (acQueue c) \<union> {(n, op). Processing n op \<in> set (acWorkers c)}"

fun op_sound :: "(gval \<Rightarrow> string) \<Rightarrow> (gval \<Rightarrow> gerr + gval) \<Rightarrow> async_op \<Rightarrow> bool" where
  "op_sound key f (OpSet k v ttl) = (\<forall>x. key x = k \<longrightarrow> f x = Inr v)"
| "op_sound key f op = True"

definition cache_inv :: "(gval \<Rightarrow> string) \<Rightarrow> (gval \<Rightarrow> gerr + gval) \<Rightarrow> 't async_cache \<Rightarrow> bool" where
  "cache_inv key f c \<longleftrightarrow> memory_cache.sound key f (acCache c) \<and>
     (\<forall>(n, op) \<in> pending c. op_sound key f op \<and> n < acNext c) \<and> (\<forall>n. fmlookup (acReplies c) n \<noteq> None \<longrightarrow> n < acNext c)"

text \<open>A call waits for the lookup of its own key, and has the result of the function or of its context.\<close>

definition call_inv :: "(gval \<Rightarrow> string) \<Rightarrow> (gval \<Rightarrow> gerr + gval) \<Rightarrow> 't async_cache \<Rightarrow> exec_call \<Rightarrow> bool" where
  "call_inv key f c x = (case xcPhase x of
     Awaiting n \<Rightarrow> n < acNext c \<and> (\<forall>op. (n, op) \<in> pending c \<longrightarrow> op = OpGet (key (xcInput x))) \<and>
       (\<forall>v. fmlookup (acReplies c) n = Some (GotValue (Some v)) \<longrightarrow> f (xcInput x) = Inr v) \<and>
       (\<forall>e. fmlookup (acReplies c) n = Some (CtxError e) \<longrightarrow> xcCtx x = Some e)
   | Storing v \<Rightarrow> f (xcInput x) = Inr v
   | Returned r \<Rightarrow> r = f (xcInput x) \<or> (\<exists>e. r = Inl e \<and> xcCtx x = Some e)
   | _ \<Rightarrow> True)"

definition exec_inv :: "(gval \<Rightarrow> string) \<Rightarrow> (gval \<Rightarrow> gerr + gval) \<Rightarrow> ('t, 'w) exec_state \<Rightarrow> bool" where
  "exec_inv key f s \<longleftrightarrow> cache_inv key f (xsCache s) \<and> (\<forall>x \<in> set (xsCalls s). call_inv key f (xsCache s) x)"

lemma stopped_same [simp]:
  "pending (c\<lparr>acStopped := b\<rparr>) = pending c" "cache_inv key f (c\<lparr>acStopped := b\<rparr>) = cache_inv key f c"
  "call_inv key f (c\<lparr>acStopped := b\<rparr>) x = call_inv key f c x"
  by (simp_all add: pending_def cache_inv_def call_inv_def split: exec_phase.split)

lemma processing_update: "Processing n op \<in> set (ws[k := w]) \<Longrightarrow> Processing n op \<in> set ws \<or> w = Processing n op"
  by (auto dest!: set_update_subset_insert[THEN subsetD])

lemma sound_get:
  assumes "memory_cache.sound key f m" "caGet (memory_cache_of t ord) m k = (v, m1)"
  shows "memory_cache.sound key f m1" "v = Some u \<Longrightarrow> key x = k \<Longrightarrow> f x = Inr u"
  using assms memory_cache.get_keeps[OF assms(2)] memory_cache.get_holds[of t ord m k _ m1] by (auto simp: memory_cache.sound_def)

lemma sound_set:
  assumes "memory_cache.sound key f m" "\<And>x. key x = k \<Longrightarrow> f x = Inr v"
  shows "memory_cache.sound key f (caSet (memory_cache_of t ord) m k v ttl)"
  using assms memory_cache.set_holds[of t ord m k v ttl] unfolding memory_cache.sound_def by metis

lemma sound_delete: "memory_cache.sound key f m \<Longrightarrow> memory_cache.sound key f (mc_Delete (fst m) k, snd m)"
  by (auto simp: memory_cache.sound_def mc_holds_def mc_Delete_def split: if_splits)

lemma process_sound:
  assumes "processOp W op m = (r, m1)" "memory_cache.sound key f m" "op_sound key f op"
  shows "memory_cache.sound key f m1"
    and "r = GotValue (Some v) \<Longrightarrow> op = OpGet (key x) \<Longrightarrow> f x = Inr v" and "r \<noteq> CtxError e"
  using assms sound_get[of key f m] sound_set[of key f m] sound_delete[of key f m]
  by (cases op; auto simp: processOp_def split: prod.splits)+

text \<open>A step of the cache that adds no operation, and at most the reply to one that was pending.\<close>

lemma cache_inv_step:
  assumes "cache_inv key f c" "cache_step W c c'"
  shows "cache_inv key f c' \<and> (\<forall>x. call_inv key f c x \<longrightarrow> call_inv key f c' x)"
  using assms(2)
proof (cases rule: cache_step.cases)
  case (take k n op q)
  then have "pending c' = pending c"
    by (auto simp: pending_def dest: processing_update intro: set_update_memI) (metis in_set_conv_nth nth_list_update_neq length_list_update cache_worker.distinct(1))+
  then show ?thesis using assms(1) take by (simp add: cache_inv_def call_inv_def cong: exec_phase.case_cong)
next
  case (process k n op r m)
  have p: "pending c' \<subseteq> pending c" using process(1) by (auto simp: pending_def dest: processing_update)
  have n: "(n, op) \<in> pending c" using process(2,3) by (auto simp: pending_def) (metis nth_mem)
  then have o: "op_sound key f op" "n < acNext c" "memory_cache.sound key f (acCache c)" using assms(1) by (auto simp: cache_inv_def)
  note s = process_sound[OF process(4) o(3,1)]
  have "cache_inv key f c'" using assms(1) p s(1) o(2) process(1) by (auto simp: cache_inv_def split: if_splits)
  moreover have "call_inv key f c' x" if c: "call_inv key f c x" for x
  proof (cases "xcPhase x")
    case (Awaiting j)
    then have "j = n \<Longrightarrow> op = OpGet (key (xcInput x))" using c n by (auto simp: call_inv_def)
    then show ?thesis using c Awaiting p s(2,3) process(1) by (fastforce simp: call_inv_def)
  qed (use c in \<open>simp_all add: call_inv_def\<close>)
  ultimately show ?thesis by blast
next
  case (halt k)
  then have "pending c' \<subseteq> pending c" by (auto simp: pending_def dest: processing_update)
  then show ?thesis using assms(1) halt by (auto simp: cache_inv_def call_inv_def split: exec_phase.splits)
qed

lemma queue_facts:
  assumes "queue_op ctx pick op c = (n, c')" "\<forall>j. fmlookup (acReplies c) j \<noteq> None \<longrightarrow> j < acNext c"
  shows "acCache c' = acCache c" "acNext c \<le> acNext c'"
    and "(j, op') \<in> pending c' \<Longrightarrow> (j, op') \<in> pending c \<or> j = acNext c \<and> op' = op \<and> acNext c < acNext c'"
    and "j < acNext c \<Longrightarrow> fmlookup (acReplies c') j = fmlookup (acReplies c) j"
    and "fmlookup (acReplies c') j = Some r \<Longrightarrow> acNext c \<le> j \<Longrightarrow> j = acNext c \<and> acNext c < acNext c' \<and> (\<exists>e. ctx = Some e \<and> r = CtxError e)"
    and "n = Some j \<Longrightarrow> j = acNext c \<and> acNext c < acNext c'"
  using assms by (auto simp: queue_op_def pending_def split: if_splits option.splits; fastforce)+

lemma queue_inv:
  assumes "cache_inv key f c" "queue_op ctx pick op c = (n, c')" "op_sound key f op"
  shows "cache_inv key f c' \<and> (\<forall>x. call_inv key f c x \<longrightarrow> call_inv key f c' x)"
proof -
  have r: "\<forall>j. fmlookup (acReplies c) j \<noteq> None \<longrightarrow> j < acNext c" using assms(1) by (simp add: cache_inv_def)
  note q = queue_facts[OF assms(2) r]
  have "op_sound key f o' \<and> j < acNext c'" if "(j, o') \<in> pending c'" for j o'
    using q(2) q(3)[OF that] assms(1,3) by (auto simp: cache_inv_def dest: order.strict_trans2)
  moreover have "j < acNext c'" if "fmlookup (acReplies c') j \<noteq> None" for j
    using that q(2) q(4)[of j] q(5)[of j] r by (cases "j < acNext c") auto
  ultimately have "cache_inv key f c'" using assms(1) q(1) by (auto simp: cache_inv_def)
  moreover have "call_inv key f c' x" if c: "call_inv key f c x" for x
  proof (cases "xcPhase x")
    case (Awaiting j)
    then have "j < acNext c" using c by (simp add: call_inv_def)
    then show ?thesis using c Awaiting q(2) q(3)[of j] q(4)[of j] by (auto simp: call_inv_def)
  qed (use c in \<open>simp_all add: call_inv_def\<close>)
  ultimately show ?thesis by blast
qed

lemma queue_new:
  assumes "cache_inv key f c" "queue_op (xcCtx x) pick (OpGet (key (xcInput x))) c = (Some n, c')"
  shows "call_inv key f c' (x\<lparr>xcPhase := Awaiting n\<rparr>)"
proof -
  have r: "\<forall>j. fmlookup (acReplies c) j \<noteq> None \<longrightarrow> j < acNext c" using assms(1) by (simp add: cache_inv_def)
  note q = queue_facts[OF assms(2) r]
  have n: "n = acNext c" "n < acNext c'" using q(6) by simp_all
  have "(n, op) \<notin> pending c" for op using assms(1) n(1) by (auto simp: cache_inv_def)
  then have "(n, op) \<in> pending c' \<longrightarrow> op = OpGet (key (xcInput x))" for op using q(3)[of n op] by auto
  moreover have "fmlookup (acReplies c') n = Some r \<longrightarrow> (\<exists>e. xcCtx x = Some e \<and> r = CtxError e)" for r
    using q(5)[of n r] n(1) by simp
  ultimately show ?thesis using n(2) by (fastforce simp: call_inv_def)
qed

lemma inv_set_call:
  assumes "exec_inv key f s" "cache_inv key f c \<and> (\<forall>x. call_inv key f (xsCache s) x \<longrightarrow> call_inv key f c x)"
    and "i < length (xsCalls s)" "call_inv key f c ((xsCalls s ! i)\<lparr>xcPhase := p\<rparr>)"
  shows "exec_inv key f (set_call i p (s\<lparr>xsCache := c\<rparr>))" "exec_inv key f (set_call i p (s\<lparr>xsCache := c, xsWorld := w\<rparr>))"
  using assms by (auto simp: exec_inv_def set_call_def dest!: set_update_subset_insert[THEN subsetD])

lemma exec_inv_step:
  assumes k: "\<And>x y. xeKey E x = xeKey E y \<Longrightarrow> f x = f y" and fn: "xeFn E = (\<lambda>x w. (f x, h x w))"
    and i: "exec_inv (xeKey E) f s" and step: "exec_step E s s'"
  shows "exec_inv (xeKey E) f s'"
proof -
  have c: "cache_inv (xeKey E) f (xsCache s)" using i by (simp add: exec_inv_def)
  have x: "call_inv (xeKey E) f (xsCache s) (xsCalls s ! j)" if "j < length (xsCalls s)" for j
    using i that by (simp add: exec_inv_def)
  have keep: "exec_inv (xeKey E) f (set_call j p s)"
    if "j < length (xsCalls s)" "call_inv (xeKey E) f (xsCache s) ((xsCalls s ! j)\<lparr>xcPhase := p\<rparr>)" for j p
    using inv_set_call(1)[OF i, of "xsCache s" j p] that c by simp
  from step show ?thesis
  proof (cases rule: exec_step.cases)
    case (worker c')
    then show ?thesis using cache_inv_step[OF c worker(2)] i by (simp add: exec_inv_def)
  next
    case (ask j pick n c')
    then show ?thesis
      using inv_set_call(1)[OF i queue_inv[OF c] ask(2)] queue_new[OF c, of "xsCalls s ! j"] by (auto simp: AGet_def)
  next
    case (lookup j v c')
    then obtain m where m: "caGet (memory_cache_of (cwTick (xeWorld E)) (cwOrder (xeWorld E))) (acCache (xsCache s))
        (xeKey E (xcInput (xsCalls s ! j))) = (v, m)" "c' = (xsCache s)\<lparr>acCache := m\<rparr>"
      by (auto simp: sync_get_def split: prod.splits)
    have s: "memory_cache.sound (xeKey E) f (acCache (xsCache s))" using c by (simp add: cache_inv_def)
    have "call_inv (xeKey E) f (xsCache s) y \<longrightarrow> call_inv (xeKey E) f c' y" for y
      by (auto simp: call_inv_def pending_def m(2) split: exec_phase.splits)
    moreover have "cache_inv (xeKey E) f c'" using c sound_get(1)[OF s m(1)] by (simp add: cache_inv_def pending_def m(2))
    moreover have "call_inv (xeKey E) f c' ((xsCalls s ! j)\<lparr>xcPhase := after_reply (GotValue v)\<rparr>)"
      using sound_get(2)[OF s m(1)] by (auto simp: call_inv_def after_reply_def split: option.split)
    ultimately show ?thesis using lookup inv_set_call(1)[OF i] by blast
  next
    case (answered j n r)
    then show ?thesis
      using x[of j] by (auto intro!: keep simp: after_reply_def call_inv_def split: reply.splits option.splits)
  next
    case (given_up j n e)
    then show ?thesis by (auto intro!: keep simp: call_inv_def)
  next
    case (compute j r w)
    then have "call_inv (xeKey E) f (xsCache s) ((xsCalls s ! j)\<lparr>xcPhase := after_function r\<rparr>)"
      by (auto simp: fn after_function_def call_inv_def split: sum.split)
    then show ?thesis using compute inv_set_call(2)[OF i, of "xsCache s" j _ w] c by simp
  next
    case (store j v pick n c')
    then have "f (xcInput (xsCalls s ! j)) = Inr v" using x[of j] by (simp add: call_inv_def)
    then have "f y = Inr v" if "xeKey E y = xeKey E (xcInput (xsCalls s ! j))" for y using k[OF that] by simp
    then have "op_sound (xeKey E) f (OpSet (xeKey E (xcInput (xsCalls s ! j))) v (policy_ttl (xePolicy E)))" by simp
    with store show ?thesis using inv_set_call(1)[OF i queue_inv[OF c] store(2)] x[of j] by (auto simp: ASet_def call_inv_def)
  next
    case (store_now j v)
    let ?c = "sync_set (xeWorld E) (xeKey E (xcInput (xsCalls s ! j))) v (policy_ttl (xePolicy E)) (xsCache s)"
    have v: "f (xcInput (xsCalls s ! j)) = Inr v" using x[of j] store_now by (simp add: call_inv_def)
    then have "f y = Inr v" if "xeKey E y = xeKey E (xcInput (xsCalls s ! j))" for y using k[OF that] by simp
    then have "memory_cache.sound (xeKey E) f (acCache ?c)"
      using c sound_set[of "xeKey E" f "acCache (xsCache s)" "xeKey E (xcInput (xsCalls s ! j))" v]
      by (simp add: cache_inv_def sync_set_def)
    then have "cache_inv (xeKey E) f ?c" using c by (simp add: cache_inv_def sync_set_def pending_def)
    moreover have "call_inv (xeKey E) f (xsCache s) y \<longrightarrow> call_inv (xeKey E) f ?c y" for y
      by (auto simp: call_inv_def pending_def sync_set_def split: exec_phase.splits)
    moreover have "call_inv (xeKey E) f ?c ((xsCalls s ! j)\<lparr>xcPhase := Returned (Inr v)\<rparr>)" using v by (simp add: call_inv_def)
    ultimately show ?thesis using store_now inv_set_call(1)[OF i] by blast
  qed
qed


section \<open>The order of operations\<close>

text \<open>\<open>apply_ops\<close> is the cache after operations one after the other.\<close>

definition apply_ops :: "'t cache_world \<Rightarrow> async_op list \<Rightarrow> memory_cache \<times> 't \<Rightarrow> memory_cache \<times> 't" where
  "apply_ops W = fold (\<lambda>op m. snd (processOp W op m))"

fun op_in_hand :: "cache_worker \<Rightarrow> async_op list" where
  "op_in_hand (Processing n op) = [op]"
| "op_in_hand w = []"

inductive cache_reachable :: "'t cache_world \<Rightarrow> 't async_cache \<Rightarrow> 't async_cache \<Rightarrow> bool" for W c0 where
  new: "cache_reachable W c0 c0"
| step: "cache_reachable W c0 c \<Longrightarrow> cache_step W c c' \<Longrightarrow> cache_reachable W c0 c'"
| queue: "cache_reachable W c0 c \<Longrightarrow> queue_op ctx pick op c = (n, c') \<Longrightarrow> cache_reachable W c0 c'"
| stop: "cache_reachable W c0 c \<Longrightarrow> ac_Stop c = Some c' \<Longrightarrow> cache_reachable W c0 c'"

text \<open>With one worker the asynchronous cache is the synchronous one, delayed: it has applied a prefix of
  the operations in the order of their calls; the next one is in the worker's hands and the others are in
  the queue.\<close>

theorem one_worker_in_order:
  assumes "cache_reachable W (NewAsyncMemoryCache sz ev 1 t) c"
  shows "\<exists>done. acLog c = done @ op_in_hand (acWorkers c ! 0) @ map snd (acQueue c) \<and>
    acCache c = apply_ops W done (NewMemoryCache sz ev, t) \<and> length (acWorkers c) = 1"
  using assms
proof (induction rule: cache_reachable.induct)
  case new
  show ?case by (simp add: NewAsyncMemoryCache_def apply_ops_def)
next
  case (step c c')
  then obtain d where d: "acLog c = d @ op_in_hand (acWorkers c ! 0) @ map snd (acQueue c)"
    "acCache c = apply_ops W d (NewMemoryCache sz ev, t)" "length (acWorkers c) = 1" by blast
  from step(2) show ?case
  proof (cases rule: cache_step.cases)
    case (take k n op q)
    then show ?thesis using d by (intro exI[of _ d]) simp
  next
    case (process k n op r m)
    then show ?thesis using d by (intro exI[of _ "d @ [op]"]) (simp add: apply_ops_def)
  next
    case (halt k)
    then show ?thesis using d by (intro exI[of _ d]) simp
  qed
next
  case (queue c ctx pick op n c')
  then show ?case by (auto simp: queue_op_def split: if_splits option.splits)
next
  case (stop c c')
  then show ?case by (auto simp: ac_Stop_def split: if_splits)
qed

text \<open>With several workers operations overtake each other: of two values stored under one key, one after
  the other, the first may stay.\<close>

theorem sets_overtake:
  assumes "nw \<ge> 2"
  shows "\<exists>c1 c2 c. ASet None True k v1 0 (NewAsyncMemoryCache 10 EvictLRU nw t) = (Some 0, c1) \<and> ASet None True k v2 0 c1 = (Some 1, c2) \<and>
    cache_reachable W c2 c \<and> fmlookup (acReplies c) 0 = Some OpDone \<and> fmlookup (acReplies c) 1 = Some OpDone \<and>
    (\<forall>v. mc_holds (acCache c) k v \<longleftrightarrow> v = v1)"
proof -
  let ?c0 = "NewAsyncMemoryCache 10 EvictLRU nw t" and ?o1 = "OpSet k v1 0" and ?o2 = "OpSet k v2 0"
  let ?c2 = "?c0\<lparr>acNext := 2, acQueue := [(0, ?o1), (1, ?o2)], acLog := [?o1, ?o2]\<rparr>"
  have w: "acWorkers ?c0 = replicate (nat nw) AwaitsOp" "1 < nat nw" using assms by (simp_all add: NewAsyncMemoryCache_def)
  let ?c3 = "?c2\<lparr>acQueue := [(1, ?o2)], acWorkers := (acWorkers ?c0)[0 := Processing 0 ?o1]\<rparr>"
  let ?c4 = "?c3\<lparr>acQueue := [], acWorkers := (acWorkers ?c3)[1 := Processing 1 ?o2]\<rparr>"
  obtain m2 where p2: "processOp W ?o2 (acCache ?c0) = (OpDone, m2)" by (simp add: processOp_def)
  let ?c5 = "?c4\<lparr>acCache := m2, acReplies := fmupd 1 OpDone (acReplies ?c4), acWorkers := (acWorkers ?c4)[1 := AwaitsOp]\<rparr>"
  obtain m1 where p1: "processOp W ?o1 m2 = (OpDone, m1)" by (simp add: processOp_def)
  let ?c6 = "?c5\<lparr>acCache := m1, acReplies := fmupd 0 OpDone (acReplies ?c5), acWorkers := (acWorkers ?c5)[0 := AwaitsOp]\<rparr>"
  have 1: "cache_step W ?c2 ?c3" using cache_step.take[of 0 ?c2 0 ?o1 "[(1, ?o2)]" W] w by simp
  have 2: "cache_step W ?c3 ?c4" using cache_step.take[of 1 ?c3 1 ?o2 "[]" W] w by simp
  have 3: "cache_step W ?c4 ?c5" using cache_step.process[of 1 ?c4 1 ?o2 W OpDone m2] w p2 by simp
  have 4: "cache_step W ?c5 ?c6" using cache_step.process[of 0 ?c5 0 ?o1 W OpDone m1] w p1 by simp
  have "cache_reachable W ?c2 ?c6" using 1 2 3 4 by (meson cache_reachable.new cache_reachable.step)
  moreover have "mc_holds m1 k v \<longleftrightarrow> v = v1" for v
    using p1 by (auto simp: processOp_def memory_cache_of_def mc_Set_def mc_holds_def Let_def split: prod.splits)
  moreover have "ASet None True k v1 0 ?c0 = (Some 0, ?c0\<lparr>acNext := 1, acQueue := [(0, ?o1)], acLog := [?o1]\<rparr>)"
    "ASet None True k v2 0 (?c0\<lparr>acNext := 1, acQueue := [(0, ?o1)], acLog := [?o1]\<rparr>) = (Some 1, ?c2)"
    by (simp_all add: ASet_def queue_op_def NewAsyncMemoryCache_def)
  ultimately show ?thesis by (intro exI[of _ ?c6] exI[of _ ?c2] exI conjI) (assumption | simp)+
qed

text \<open>After \<open>Stop\<close>, once the workers have ended, operations are queued for nobody: a call whose
  lookup has no reply by then waits until its context ends, and a second \<open>Stop\<close> panics.\<close>

theorem stopped_cache_waits:
  assumes "acStopped c" "\<forall>w \<in> set (acWorkers c). w = WorkerEnded" "cache_reachable W c c'"
  shows "ac_Stop c' = None \<and> (\<forall>n < acNext c. fmlookup (acReplies c') n = fmlookup (acReplies c) n) \<and>
    (\<forall>n r. fmlookup (acReplies c') n = Some r \<and> n \<ge> acNext c \<and> fmlookup (acReplies c) n = None \<longrightarrow> (\<exists>e. r = CtxError e))"
proof -
  have "acStopped c' \<and> acWorkers c' = acWorkers c \<and> acNext c \<le> acNext c' \<and>
      (\<forall>n < acNext c. fmlookup (acReplies c') n = fmlookup (acReplies c) n) \<and>
      (\<forall>n r. fmlookup (acReplies c') n = Some r \<and> n \<ge> acNext c \<and> fmlookup (acReplies c) n = None \<longrightarrow> (\<exists>e. r = CtxError e))"
    using assms(3)
  proof (induction rule: cache_reachable.induct)
    case (step c1 c2)
    have "\<not> cache_step W c1 c2"
    proof
      assume "cache_step W c1 c2"
      then obtain k where "k < length (acWorkers c1)" "acWorkers c1 ! k \<noteq> WorkerEnded" by (auto elim!: cache_stepE)
      then show False using step.IH assms(2) by (metis nth_mem)
    qed
    then show ?case using step(2) by blast
  next
    case (queue c1 ctx pick op n c2)
    then show ?case by (auto simp: queue_op_def split: if_splits option.splits)
  next
    case (stop c1 c2)
    then show ?case by (simp add: ac_Stop_def)
  qed (use assms(1) in auto)
  then show ?thesis by (simp add: ac_Stop_def)
qed

section \<open>Runs\<close>

definition demo_cache_world :: "int cache_world" where
  "demo_cache_world = \<lparr>cwTick = (\<lambda>t. (t, t + 1)), cwOrder = (\<lambda>c. sorted_list_of_fmap (mcData c))\<rparr>"

definition demo_exec_env :: "(int, nat) exec_env" where
  "demo_exec_env = \<lparr>xeWorld = demo_cache_world, xeKey = async_key demo_lib id (Some \<lparr>apKeyFunc = cpKeyFunc demo_policy, apTTL = None, apAsync = False\<rparr>) ''n'',
     xePolicy = Some \<lparr>apKeyFunc = cpKeyFunc demo_policy, apTTL = None, apAsync = False\<rparr>, xeFn = (\<lambda>x n. (demo_node x, n + 1))\<rparr>"


theorem one_worker_in_order_witness:
  "\<exists>done. [OpDelete ''k''] = done @ [OpDelete ''k''] \<and>
    (NewMemoryCache 10 EvictLRU, 0) = apply_ops demo_cache_world done (NewMemoryCache 10 EvictLRU, 0)"
proof -
  let ?c = "snd (queue_op None True (OpDelete ''k'') (NewAsyncMemoryCache 10 EvictLRU 1 0))"
  have "cache_reachable demo_cache_world (NewAsyncMemoryCache 10 EvictLRU 1 0) ?c"
    by (rule cache_reachable.queue[where ctx = None and pick = True and op = "OpDelete ''k''" and n = "Some 0", OF cache_reachable.new]) (simp add: queue_op_def NewAsyncMemoryCache_def)
  from one_worker_in_order[OF this] show ?thesis by (simp add: queue_op_def NewAsyncMemoryCache_def)
qed

theorem sets_overtake_witness:
  "\<exists>c1 c2 c. ASet None True ''k'' (VBool True) 0 (NewAsyncMemoryCache 10 EvictLRU 2 (0 :: int)) = (Some 0, c1) \<and>
    ASet None True ''k'' (VBool False) 0 c1 = (Some 1, c2) \<and> cache_reachable demo_cache_world c2 c \<and> mc_holds (acCache c) ''k'' (VBool True)"
proof -
  have "(2 :: int) \<ge> 2" by simp
  from sets_overtake[OF this, of "''k''" "VBool True" 0 "VBool False" demo_cache_world] show ?thesis by blast
qed

theorem stopped_cache_waits_witness:
  "fmlookup (acReplies (snd (AGet None True ''k'' ((NewAsyncMemoryCache 10 EvictLRU 1 (0 :: int))\<lparr>acStopped := True, acWorkers := [WorkerEnded]\<rparr>)))) 0
   \<noteq> Some (GotValue None)"
proof -
  let ?c = "(NewAsyncMemoryCache 10 EvictLRU 1 (0 :: int))\<lparr>acStopped := True, acWorkers := [WorkerEnded]\<rparr>"
  have "cache_reachable demo_cache_world ?c (snd (AGet None True ''k'' ?c))"
    by (rule cache_reachable.queue[where ctx = None and pick = True and op = "OpGet ''k''" and n = "Some 0", OF cache_reachable.new]) (simp add: AGet_def queue_op_def NewAsyncMemoryCache_def)
  from stopped_cache_waits[OF _ _ this] show ?thesis by (fastforce simp: NewAsyncMemoryCache_def)
qed

end
