(* ===== verification/Event_Log.thy ===== *)
theory Event_Log
  imports Values "HOL-Library.Sublist"
begin

text \<open>
  The log of events (\<^verbatim>\<open>../events/event.go\<close>, \<^verbatim>\<open>clock.go\<close>, \<^verbatim>\<open>store.go\<close>, \<^verbatim>\<open>memory.go\<close>, \<^verbatim>\<open>recorder.go\<close>): events with a logical
  clock and a hash, the filter, the store in memory with its subscribers, and the recorder that writes
  what a run does. Events are values: the code shares pointers, but nothing changes an event after it was
  appended. \<open>now\<close> is the clock on the wall in nanoseconds, \<open>0\<close> its zero time.
\<close>

section \<open>Events\<close>

datatype event_kind =
    GraphStart | GraphEnd | StepStart | StepEnd | NodeStart | NodeEnd | StateRead | StateWrite
  | ToolCallStart | ToolCallResult | ToolCallError | LLMCallStart | LLMCallChunk | LLMCallEnd
  | MemoryRead | MemoryWrite | ApprovalRequest | ApprovalGranted | ApprovalDenied
  | CheckpointCreated | CheckpointRestored | InterruptEvent | ResumeEvent | ErrorEvent | RetryEvent | ForkEvent
  | SubAgentCallStart | SubAgentCallEnd | SessionValueSet | SessionTransfer | OtherEvent string

type_synonym clock = "64 word"

record event =
  eID :: string
  eType :: event_kind
  eTime :: int
  eClock :: clock
  eTrace :: string
  eParent :: string
  eCausedBy :: "string list"
  eThread :: string
  eStep :: int
  eNode :: string
  eTask :: string
  ePayload :: "string option"
  eMeta :: "gmap option"
  eDeterministic :: bool
  eHash :: string

text \<open>What the library does: SHA-256 as hexadecimal text, hexadecimal numbers, JSON.\<close>

record event_lib =
  elLib :: golib
  elHash :: "string \<Rightarrow> string"
  elHex :: "int \<Rightarrow> string"

definition NewEvent :: "event_lib \<Rightarrow> int \<Rightarrow> event_kind \<Rightarrow> clock \<Rightarrow> event" where
  "NewEvent E now typ c = \<lparr>eID = ''evt-'' @ show_nat (unat c) @ CHR ''-'' # elHex E now, eType = typ, eTime = now, eClock = c,
     eTrace = [], eParent = [], eCausedBy = [], eThread = [], eStep = 0, eNode = [], eTask = [], ePayload = None,
     eMeta = Some fmempty, eDeterministic = False, eHash = []\<rparr>"

definition computeHash :: "event_lib \<Rightarrow> event \<Rightarrow> string" where
  "computeHash E e = elHash E ((case ePayload e of None \<Rightarrow> [] | Some p \<Rightarrow> p) @
     (case eMeta e of None \<Rightarrow> [] | Some m \<Rightarrow> (case json_text (elLib E) (VMap m) of None \<Rightarrow> [] | Some t \<Rightarrow> t)))"

definition Seal :: "event_lib \<Rightarrow> event \<Rightarrow> event" where
  "Seal E e = e\<lparr>eHash := computeHash E e\<rparr>"

section \<open>Payloads\<close>

record token_usage =
  tuPrompt :: goint
  tuCompletion :: goint
  tuTotal :: goint

record tool_payload =
  tpToolName :: string
  tpArguments :: "gmap option"
  tpResult :: gval
  tpDurationMs :: goint
  tpError :: string
  tpRetryCount :: goint

record llm_payload =
  lpModel :: string
  lpProvider :: string
  lpMessages :: "gval list"
  lpTokens :: token_usage
  lpContent :: string
  lpChunks :: goint
  lpDurationMs :: goint
  lpCost :: float64

record state_payload =
  stChannel :: string
  stOldValue :: gval
  stNewValue :: gval
  stReducer :: string

record memory_payload =
  mpStore :: string
  mpOperation :: string
  mpKey :: string
  mpValue :: gval
  mpScore :: float64

record approval_payload =
  apRequestID :: string
  apAction :: string
  apContext :: gval
  apDecision :: string
  apLatencyMs :: goint

record subagent_payload =
  saName :: string
  saInput :: gval
  saOutput :: gval
  saDepth :: goint
  saDurationMs :: goint
  saError :: string

record session_payload =
  svKey :: string
  svValue :: gval

record transfer_payload =
  xpFromAgent :: string
  xpToAgent :: string
  xpReason :: string
  xpInput :: gval

datatype payload =
    PayTool tool_payload
  | PayLLM llm_payload
  | PayState state_payload
  | PayMemory memory_payload
  | PayApproval approval_payload
  | PaySubAgent subagent_payload
  | PaySession session_payload
  | PayTransfer transfer_payload

text \<open>
  JSON of payloads. \<open>None\<close> is an error of the encoder, which every caller drops; a decoder that fails leaves
  what it has read so far in the struct; \<open>cdReadsTool\<close> and \<open>cdReadsLLM\<close> say whether it succeeds.
\<close>

record codec =
  cdEncode :: "payload \<Rightarrow> string option"
  cdTool :: "string \<Rightarrow> tool_payload"
  cdLLM :: "string \<Rightarrow> llm_payload"
  cdState :: "string \<Rightarrow> state_payload"
  cdReadsTool :: "string \<Rightarrow> bool"
  cdReadsLLM :: "string \<Rightarrow> bool"

section \<open>The filter\<close>

record event_filter =
  fiTrace :: string
  fiThread :: string
  fiTypes :: "event_kind list"
  fiNode :: string
  fiFromClock :: clock
  fiToClock :: clock
  fiFromTime :: int
  fiToTime :: int
  fiLimit :: int

definition no_filter :: event_filter where
  "no_filter = \<lparr>fiTrace = [], fiThread = [], fiTypes = [], fiNode = [], fiFromClock = 0, fiToClock = 0, fiFromTime = 0,
     fiToTime = 0, fiLimit = 0\<rparr>"

definition Matches :: "event_filter \<Rightarrow> event \<Rightarrow> bool" where
  "Matches f e \<longleftrightarrow>
     (if fiTrace f \<noteq> [] \<and> eTrace e \<noteq> fiTrace f then False
      else if fiThread f \<noteq> [] \<and> eThread e \<noteq> fiThread f then False
      else if fiTypes f \<noteq> [] \<and> eType e \<notin> set (fiTypes f) then False
      else if fiNode f \<noteq> [] \<and> eNode e \<noteq> fiNode f then False
      else if fiFromClock f > 0 \<and> eClock e < fiFromClock f then False
      else if fiToClock f > 0 \<and> eClock e > fiToClock f then False
      else if fiFromTime f \<noteq> 0 \<and> eTime e < fiFromTime f then False
      else if fiToTime f \<noteq> 0 \<and> eTime e > fiToTime f then False
      else True)"

section \<open>The store\<close>

text \<open>\<open>esSubs\<close> are the subscribers with the events in their channels, oldest first.\<close>

record event_store =
  esLog :: "event list"
  esByID :: "(string, event) fmap"
  esClock :: clock
  esSubs :: "(nat, event list) fmap"
  esSubID :: nat

definition NewMemoryEventStore :: event_store where
  "NewMemoryEventStore = \<lparr>esLog = [], esByID = fmempty, esClock = 0, esSubs = fmempty, esSubID = 0\<rparr>"

definition dispatched :: "event \<Rightarrow> event list \<Rightarrow> event list" where
  "dispatched e ch = (if length ch < 256 then ch @ [e] else ch)"

definition append_one :: "event_lib \<Rightarrow> event \<Rightarrow> event_store \<Rightarrow> event \<times> event_store" where
  "append_one E ev s =
     (let s1 = (if eClock ev = 0 then s\<lparr>esClock := esClock s + 1\<rparr> else s);
          ev1 = Seal E (if eClock ev = 0 then ev\<lparr>eClock := esClock s1\<rparr> else ev)
      in (ev1, s1\<lparr>esLog := esLog s1 @ [ev1], esByID := fmupd (eID ev1) ev1 (esByID s1),
           esSubs := fmmap (dispatched ev1) (esSubs s1)\<rparr>))"

text \<open>\<open>Append\<close> also changes the events of its caller: the result is what they are afterwards.\<close>

fun es_Append :: "event_lib \<Rightarrow> event list \<Rightarrow> event_store \<Rightarrow> event list \<times> event_store" where
  "es_Append E [] s = ([], s)"
| "es_Append E (ev # evs) s = (case append_one E ev s of (ev1, s1) \<Rightarrow>
     (case es_Append E evs s1 of (evs2, s2) \<Rightarrow> (ev1 # evs2, s2)))"

text \<open>An iterator over a slice is the list of events still to come.\<close>

definition es_Stream :: "event_filter \<Rightarrow> event_store \<Rightarrow> event list" where
  "es_Stream f s = filter (Matches f) (esLog s)"

definition it_Next :: "event list \<Rightarrow> event option \<times> event list" where
  "it_Next it = (case it of [] \<Rightarrow> (None, []) | e # es \<Rightarrow> (Some e, es))"

definition es_Get :: "string \<Rightarrow> event_store \<Rightarrow> event option" where
  "es_Get i s = fmlookup (esByID s) i"

definition es_Range :: "clock \<Rightarrow> clock \<Rightarrow> event_filter \<Rightarrow> event_store \<Rightarrow> event list" where
  "es_Range frm to f s = filter (\<lambda>e. \<not> eClock e < frm \<and> \<not> (to > 0 \<and> eClock e > to) \<and> Matches f e) (esLog s)"

fun seek_pos :: "clock \<Rightarrow> event list \<Rightarrow> nat \<Rightarrow> nat" where
  "seek_pos c [] i = 0"
| "seek_pos c (e # es) i = (if eClock e \<ge> c then i else seek_pos c es (Suc i))"

definition es_Seek :: "clock \<Rightarrow> event_store \<Rightarrow> event list" where
  "es_Seek c s = drop (seek_pos c (esLog s) 0) (esLog s)"

definition es_Length :: "event_store \<Rightarrow> nat" where
  "es_Length s = length (esLog s)"

record event_snapshot =
  esnID :: string
  esnTrace :: string
  esnClock :: clock
  esnCreated :: int
  esnData :: string

text \<open>\<open>js\<close> encodes a list of events.\<close>

definition CreateSnapshot :: "(event list \<Rightarrow> gerr + string) \<Rightarrow> int \<Rightarrow> string \<Rightarrow> event_store \<Rightarrow> gerr + event_snapshot" where
  "CreateSnapshot js now traceID s = (case js (esLog s) of
     Inl e \<Rightarrow> Inl (WrapError ''marshal snapshot'' e)
   | Inr d \<Rightarrow> Inr \<lparr>esnID = ''snap-'' @ traceID @ CHR ''-'' # show_nat (unat (esClock s)), esnTrace = traceID,
       esnClock = esClock s, esnCreated = now, esnData = d\<rparr>)"

definition RestoreSnapshot :: "string \<Rightarrow> event_store \<Rightarrow> event list" where
  "RestoreSnapshot snapshotID s = es_Seek 0 s"

definition es_Subscribe :: "event_filter \<Rightarrow> event_store \<Rightarrow> nat \<times> event_store" where
  "es_Subscribe f s = (esSubID s + 1, s\<lparr>esSubID := esSubID s + 1, esSubs := fmupd (esSubID s + 1) [] (esSubs s)\<rparr>)"

text \<open>The context of a subscriber ends; a subscriber reads.\<close>

definition unsubscribe :: "nat \<Rightarrow> event_store \<Rightarrow> event_store" where
  "unsubscribe i s = s\<lparr>esSubs := fmdrop i (esSubs s)\<rparr>"

definition sub_receive :: "nat \<Rightarrow> event_store \<Rightarrow> event option \<times> event_store" where
  "sub_receive i s = (case fmlookup (esSubs s) i of
     Some (e # es) \<Rightarrow> (Some e, s\<lparr>esSubs := fmupd i es (esSubs s)\<rparr>) | _ \<Rightarrow> (None, s))"

definition es_GC :: "int \<Rightarrow> int \<Rightarrow> event_store \<Rightarrow> event_store" where
  "es_GC now retention s = (let cutoff = now - retention in
     s\<lparr>esLog := filter (\<lambda>e. eTime e > cutoff) (esLog s),
       esByID := fold (\<lambda>e m. fmdrop (eID e) m) (filter (\<lambda>e. \<not> eTime e > cutoff) (esLog s)) (esByID s)\<rparr>)"

section \<open>The recorder\<close>

record recorder =
  rcClock :: clock
  rcTrace :: string
  rcThread :: string

definition NewEventRecorder :: "string \<Rightarrow> string \<Rightarrow> recorder" where
  "NewEventRecorder traceID threadID = \<lparr>rcClock = 0, rcTrace = traceID, rcThread = threadID\<rparr>"

definition Tick :: "clock \<Rightarrow> clock" where
  "Tick c = c + 1"

text \<open>\<open>f\<close> is what the options do to the new event.\<close>

definition record_event :: "event_lib \<Rightarrow> int \<Rightarrow> event_kind \<Rightarrow> (event \<Rightarrow> event) \<Rightarrow> recorder \<times> event_store \<Rightarrow> recorder \<times> event_store" where
  "record_event E now typ f rs = (case rs of (r, s) \<Rightarrow>
     (let c = Tick (rcClock r);
          ev = Seal E (f ((NewEvent E now typ c)\<lparr>eTrace := rcTrace r, eThread := rcThread r\<rparr>))
      in (r\<lparr>rcClock := c\<rparr>, snd (es_Append E [ev] s))))"

definition with_meta :: "string \<Rightarrow> gval \<Rightarrow> event \<Rightarrow> event" where
  "with_meta k v e = e\<lparr>eMeta := Some (fmupd k v (case eMeta e of Some m \<Rightarrow> m | None \<Rightarrow> fmempty))\<rparr>"

definition with_payload :: "codec \<Rightarrow> payload \<Rightarrow> event \<Rightarrow> event" where
  "with_payload C p e = e\<lparr>ePayload := cdEncode C p\<rparr>"

definition with_error :: "event_lib \<Rightarrow> gerr option \<Rightarrow> event \<Rightarrow> event" where
  "with_error E err e = (case err of None \<Rightarrow> e | Some x \<Rightarrow> with_meta ''error'' (VStr (error_text (elLib E) x)) e)"

text \<open>Two events are recorded one after the other, at times \<open>t1\<close> and \<open>t2\<close>.\<close>

definition RecordModelCall ::
  "event_lib \<Rightarrow> codec \<Rightarrow> int \<Rightarrow> int \<Rightarrow> string \<Rightarrow> string \<Rightarrow> gval list \<Rightarrow> string \<Rightarrow> token_usage \<Rightarrow> goint \<Rightarrow> float64
   \<Rightarrow> recorder \<times> event_store \<Rightarrow> recorder \<times> event_store" where
  "RecordModelCall E C t1 t2 model provider msgs content tokens durationMs cost rs =
     record_event E t2 LLMCallEnd (\<lambda>e. with_payload C (PayLLM \<lparr>lpModel = model, lpProvider = provider, lpMessages = msgs,
         lpTokens = tokens, lpContent = content, lpChunks = 0, lpDurationMs = durationMs, lpCost = cost\<rparr>) (e\<lparr>eDeterministic := False\<rparr>))
       (record_event E t1 LLMCallStart (\<lambda>e. with_meta ''provider'' (VStr provider) (with_meta ''model'' (VStr model)
         (e\<lparr>eDeterministic := False\<rparr>))) rs)"

definition RecordLLMChunk :: "event_lib \<Rightarrow> int \<Rightarrow> string \<Rightarrow> string \<Rightarrow> recorder \<times> event_store \<Rightarrow> recorder \<times> event_store" where
  "RecordLLMChunk E now model chunk = record_event E now LLMCallChunk
     (\<lambda>e. with_meta ''chunk'' (VStr chunk) (with_meta ''model'' (VStr model) (e\<lparr>eDeterministic := False\<rparr>)))"

definition RecordToolCall ::
  "event_lib \<Rightarrow> codec \<Rightarrow> int \<Rightarrow> int \<Rightarrow> string \<Rightarrow> gmap option \<Rightarrow> gval \<Rightarrow> goint \<Rightarrow> goint \<Rightarrow> string
   \<Rightarrow> recorder \<times> event_store \<Rightarrow> recorder \<times> event_store" where
  "RecordToolCall E C t1 t2 toolName args result durationMs retryCount errStr rs =
     record_event E t2 ToolCallResult (\<lambda>e. let e1 = with_payload C (PayTool \<lparr>tpToolName = toolName, tpArguments = args, tpResult = result,
         tpDurationMs = durationMs, tpError = errStr, tpRetryCount = retryCount\<rparr>) e
       in if errStr \<noteq> [] then e1\<lparr>eDeterministic := False\<rparr> else e1)
     (record_event E t1 ToolCallStart (with_meta ''tool'' (VStr toolName)) rs)"

definition RecordSubAgentCall ::
  "event_lib \<Rightarrow> codec \<Rightarrow> int \<Rightarrow> int \<Rightarrow> string \<Rightarrow> gval \<Rightarrow> gval \<Rightarrow> goint \<Rightarrow> goint \<Rightarrow> string
   \<Rightarrow> recorder \<times> event_store \<Rightarrow> recorder \<times> event_store" where
  "RecordSubAgentCall E C t1 t2 name input out depth durationMs errStr rs =
     record_event E t2 SubAgentCallEnd (\<lambda>e. let e1 = with_payload C (PaySubAgent \<lparr>saName = name, saInput = VNil, saOutput = out,
         saDepth = depth, saDurationMs = durationMs, saError = errStr\<rparr>) e
       in if errStr \<noteq> [] then e1\<lparr>eDeterministic := False\<rparr> else e1)
     (record_event E t1 SubAgentCallStart (with_payload C (PaySubAgent \<lparr>saName = name, saInput = input, saOutput = VNil,
         saDepth = depth, saDurationMs = 0, saError = []\<rparr>)) rs)"

definition RecordSessionValue :: "event_lib \<Rightarrow> codec \<Rightarrow> int \<Rightarrow> string \<Rightarrow> gval \<Rightarrow> recorder \<times> event_store \<Rightarrow> recorder \<times> event_store" where
  "RecordSessionValue E C now k v = record_event E now SessionValueSet (with_payload C (PaySession \<lparr>svKey = k, svValue = v\<rparr>))"

definition RecordSessionTransfer ::
  "event_lib \<Rightarrow> codec \<Rightarrow> int \<Rightarrow> string \<Rightarrow> string \<Rightarrow> string \<Rightarrow> gval \<Rightarrow> recorder \<times> event_store \<Rightarrow> recorder \<times> event_store" where
  "RecordSessionTransfer E C now frm to reason input = record_event E now SessionTransfer
     (with_payload C (PayTransfer \<lparr>xpFromAgent = frm, xpToAgent = to, xpReason = reason, xpInput = input\<rparr>))"

definition RecordStateWrite ::
  "event_lib \<Rightarrow> codec \<Rightarrow> int \<Rightarrow> string \<Rightarrow> gval \<Rightarrow> gval \<Rightarrow> string \<Rightarrow> recorder \<times> event_store \<Rightarrow> recorder \<times> event_store" where
  "RecordStateWrite E C now ch old new reducer = record_event E now StateWrite
     (with_payload C (PayState \<lparr>stChannel = ch, stOldValue = old, stNewValue = new, stReducer = reducer\<rparr>))"

definition RecordMemoryWrite ::
  "event_lib \<Rightarrow> codec \<Rightarrow> int \<Rightarrow> string \<Rightarrow> string \<Rightarrow> string \<Rightarrow> gval \<Rightarrow> float64 \<Rightarrow> recorder \<times> event_store \<Rightarrow> recorder \<times> event_store" where
  "RecordMemoryWrite E C now store operation k v score = record_event E now MemoryWrite
     (with_payload C (PayMemory \<lparr>mpStore = store, mpOperation = operation, mpKey = k, mpValue = v, mpScore = score\<rparr>))"

definition RecordMemoryRead :: "event_lib \<Rightarrow> codec \<Rightarrow> int \<Rightarrow> string \<Rightarrow> string \<Rightarrow> float64 \<Rightarrow> recorder \<times> event_store \<Rightarrow> recorder \<times> event_store" where
  "RecordMemoryRead E C now store k score = record_event E now MemoryRead
     (with_payload C (PayMemory \<lparr>mpStore = store, mpOperation = [], mpKey = k, mpValue = VNil, mpScore = score\<rparr>))"

definition RecordApproval ::
  "event_lib \<Rightarrow> codec \<Rightarrow> int \<Rightarrow> string \<Rightarrow> string \<Rightarrow> gval \<Rightarrow> string \<Rightarrow> goint \<Rightarrow> recorder \<times> event_store \<Rightarrow> recorder \<times> event_store" where
  "RecordApproval E C now requestID action ctx decision latencyMs = record_event E now ApprovalRequest
     (with_payload C (PayApproval \<lparr>apRequestID = requestID, apAction = action, apContext = ctx, apDecision = decision,
        apLatencyMs = latencyMs\<rparr>))"

definition RecordError :: "event_lib \<Rightarrow> int \<Rightarrow> string \<Rightarrow> recorder \<times> event_store \<Rightarrow> recorder \<times> event_store" where
  "RecordError E now m = record_event E now ErrorEvent (with_meta ''error'' (VStr m))"

definition RecordRetry :: "event_lib \<Rightarrow> int \<Rightarrow> string \<Rightarrow> recorder \<times> event_store \<Rightarrow> recorder \<times> event_store" where
  "RecordRetry E now detail = record_event E now RetryEvent (with_meta ''detail'' (VStr detail))"

definition rc_OnRunStart :: "event_lib \<Rightarrow> int \<Rightarrow> string \<Rightarrow> string \<Rightarrow> recorder \<times> event_store \<Rightarrow> recorder \<times> event_store" where
  "rc_OnRunStart E now graphName threadID = record_event E now GraphStart (with_meta ''graph_name'' (VStr graphName))"

definition rc_OnRunEnd :: "event_lib \<Rightarrow> int \<Rightarrow> string \<Rightarrow> string \<Rightarrow> gerr option \<Rightarrow> recorder \<times> event_store \<Rightarrow> recorder \<times> event_store" where
  "rc_OnRunEnd E now graphName threadID err = record_event E now GraphEnd
     (\<lambda>e. with_error E err (with_meta ''graph_name'' (VStr graphName) e))"

definition rc_OnStepStart :: "event_lib \<Rightarrow> int \<Rightarrow> int \<Rightarrow> int \<Rightarrow> recorder \<times> event_store \<Rightarrow> recorder \<times> event_store" where
  "rc_OnStepStart E now step taskCount = record_event E now StepStart
     (\<lambda>e. with_meta ''task_count'' (VInt (of_int taskCount)) (e\<lparr>eStep := step\<rparr>))"

definition rc_OnStepEnd :: "event_lib \<Rightarrow> int \<Rightarrow> int \<Rightarrow> gerr option \<Rightarrow> recorder \<times> event_store \<Rightarrow> recorder \<times> event_store" where
  "rc_OnStepEnd E now step err = record_event E now StepEnd (\<lambda>e. with_error E err (e\<lparr>eStep := step\<rparr>))"

definition rc_OnNodeStart :: "event_lib \<Rightarrow> int \<Rightarrow> string \<Rightarrow> int \<Rightarrow> recorder \<times> event_store \<Rightarrow> recorder \<times> event_store" where
  "rc_OnNodeStart E now node step = record_event E now NodeStart (\<lambda>e. e\<lparr>eNode := node, eStep := step\<rparr>)"

definition rc_OnNodeEnd :: "event_lib \<Rightarrow> int \<Rightarrow> string \<Rightarrow> int \<Rightarrow> gerr option \<Rightarrow> recorder \<times> event_store \<Rightarrow> recorder \<times> event_store" where
  "rc_OnNodeEnd E now node step err = record_event E now NodeEnd (\<lambda>e. with_error E err (e\<lparr>eNode := node, eStep := step\<rparr>))"

definition rc_OnCheckpointSave :: "event_lib \<Rightarrow> int \<Rightarrow> string \<Rightarrow> string \<Rightarrow> int \<Rightarrow> recorder \<times> event_store \<Rightarrow> recorder \<times> event_store" where
  "rc_OnCheckpointSave E now threadID checkpointID step = record_event E now CheckpointCreated
     (\<lambda>e. with_meta ''checkpoint_id'' (VStr checkpointID) (e\<lparr>eThread := threadID, eStep := step\<rparr>))"

definition rc_OnCheckpointLoad :: "event_lib \<Rightarrow> int \<Rightarrow> string \<Rightarrow> string \<Rightarrow> int \<Rightarrow> recorder \<times> event_store \<Rightarrow> recorder \<times> event_store" where
  "rc_OnCheckpointLoad E now threadID checkpointID step = record_event E now CheckpointRestored
     (\<lambda>e. with_meta ''checkpoint_id'' (VStr checkpointID) (e\<lparr>eThread := threadID, eStep := step\<rparr>))"

definition rc_OnCheckpointUpdate :: "event_lib \<Rightarrow> int \<Rightarrow> string \<Rightarrow> string \<Rightarrow> recorder \<times> event_store \<Rightarrow> recorder \<times> event_store" where
  "rc_OnCheckpointUpdate E now threadID asNode = record_event E now StateWrite (\<lambda>e. e\<lparr>eThread := threadID, eNode := asNode\<rparr>)"

definition rc_OnInterrupt :: "event_lib \<Rightarrow> int \<Rightarrow> string list \<Rightarrow> int \<Rightarrow> recorder \<times> event_store \<Rightarrow> recorder \<times> event_store" where
  "rc_OnInterrupt E now nodeNames step = record_event E now InterruptEvent
     (\<lambda>e. with_meta ''interrupt_nodes'' (VList (map VStr nodeNames)) (e\<lparr>eStep := step\<rparr>))"

definition rc_OnResume :: "event_lib \<Rightarrow> int \<Rightarrow> string \<Rightarrow> recorder \<times> event_store \<Rightarrow> recorder \<times> event_store" where
  "rc_OnResume E now threadID = record_event E now ResumeEvent (\<lambda>e. e\<lparr>eThread := threadID\<rparr>)"

section \<open>What the log keeps\<close>

lemma append_one_facts:
  assumes "append_one E ev s = (ev1, s1)"
  shows "esLog s1 = esLog s @ [ev1]" "eID ev1 = eID ev" "esByID s1 = fmupd (eID ev) ev1 (esByID s)" "eHash ev1 = computeHash E ev1"
    and "eClock ev \<noteq> 0 \<Longrightarrow> ev1 = Seal E ev \<and> esClock s1 = esClock s"
    and "eClock ev = 0 \<Longrightarrow> ev1 = Seal E (ev\<lparr>eClock := esClock s + 1\<rparr>) \<and> esClock s1 = esClock s + 1"
    and "esSubs s1 = fmmap (dispatched ev1) (esSubs s)" "esSubID s1 = esSubID s"
  using assms by (auto simp: append_one_def Let_def Seal_def computeHash_def split: if_splits)

text \<open>Appending adds the events at the end of the log, in order, each sealed with the hash of its payload and
  metadata and with its own clock or the next one of the store; each can be got by its identifier. A
  subscriber receives them, until 256 wait for it, whatever filter it asked for.\<close>

theorem append_keeps:
  assumes "es_Append E evs s = (evs1, s1)" "distinct (map eID evs)"
  shows "esLog s1 = esLog s @ evs1 \<and> map eID evs1 = map eID evs \<and>
    (\<forall>e \<in> set evs1. eHash e = computeHash E e \<and> es_Get (eID e) s1 = Some e) \<and>
    (\<forall>i. i \<notin> eID ` set evs \<longrightarrow> es_Get i s1 = es_Get i s) \<and>
    (\<forall>i ch. fmlookup (esSubs s) i = Some ch \<and> length ch \<le> 256 \<longrightarrow> fmlookup (esSubs s1) i = Some (take 256 (ch @ evs1)))"
  using assms
proof (induction evs arbitrary: s evs1)
  case Nil
  then show ?case by simp
next
  case (Cons ev evs)
  obtain e1 s2 where a: "append_one E ev s = (e1, s2)" by (meson surj_pair)
  obtain evs2 where r: "es_Append E evs s2 = (evs2, s1)" "evs1 = e1 # evs2" using Cons.prems(1) a by (auto split: prod.splits)
  note f = append_one_facts[OF a]
  have IH: "esLog s1 = esLog s2 @ evs2" "map eID evs2 = map eID evs"
    "\<forall>e \<in> set evs2. eHash e = computeHash E e \<and> es_Get (eID e) s1 = Some e"
    "\<forall>i. i \<notin> eID ` set evs \<longrightarrow> es_Get i s1 = es_Get i s2"
    "\<forall>i ch. fmlookup (esSubs s2) i = Some ch \<and> length ch \<le> 256 \<longrightarrow> fmlookup (esSubs s1) i = Some (take 256 (ch @ evs2))"
    using Cons.IH[OF r(1)] Cons.prems(2) by simp_all
  have "es_Get (eID e1) s1 = Some e1" using IH(4) f(2,3) Cons.prems(2) by (auto simp: es_Get_def)
  moreover have "fmlookup (esSubs s1) i = Some (take 256 (ch @ e1 # evs2))"
    if "fmlookup (esSubs s) i = Some ch" "length ch \<le> 256" for i ch
  proof -
    have "fmlookup (esSubs s2) i = Some (dispatched e1 ch)" "length (dispatched e1 ch) \<le> 256"
      using that f(7) by (auto simp: dispatched_def)
    then have "fmlookup (esSubs s1) i = Some (take 256 (dispatched e1 ch @ evs2))" using IH(5) by blast
    then show ?thesis using that(2) by (cases "length ch < 256") (auto simp: dispatched_def take_Cons' min_def)
  qed
  ultimately show ?case using IH f(1,2,3,4) r(2) by (auto simp: es_Get_def)
qed

section \<open>The order of events\<close>

text \<open>One call of a method of the recorder.\<close>

inductive records :: "event_lib \<Rightarrow> codec \<Rightarrow> recorder \<times> event_store \<Rightarrow> recorder \<times> event_store \<Rightarrow> bool" for E C rs where
  "records E C rs (RecordModelCall E C t1 t2 model provider msgs content tokens durationMs cost rs)"
| "records E C rs (RecordLLMChunk E now model chunk rs)"
| "records E C rs (RecordToolCall E C t1 t2 tool args result durationMs retryCount err rs)"
| "records E C rs (RecordSubAgentCall E C t1 t2 name input out depth durationMs err rs)"
| "records E C rs (RecordSessionValue E C now k v rs)"
| "records E C rs (RecordSessionTransfer E C now frm to reason input rs)"
| "records E C rs (RecordStateWrite E C now ch old new reducer rs)"
| "records E C rs (RecordMemoryWrite E C now store operation k v score rs)"
| "records E C rs (RecordMemoryRead E C now store k score rs)"
| "records E C rs (RecordApproval E C now requestID action ctx decision latencyMs rs)"
| "records E C rs (RecordError E now m rs)"
| "records E C rs (RecordRetry E now m rs)"
| "records E C rs (rc_OnRunStart E now g th rs)"
| "records E C rs (rc_OnRunEnd E now g th gerr rs)"
| "records E C rs (rc_OnStepStart E now step n rs)"
| "records E C rs (rc_OnStepEnd E now step gerr rs)"
| "records E C rs (rc_OnNodeStart E now node step rs)"
| "records E C rs (rc_OnNodeEnd E now node step gerr rs)"
| "records E C rs (rc_OnCheckpointSave E now th cp step rs)"
| "records E C rs (rc_OnCheckpointLoad E now th cp step rs)"
| "records E C rs (rc_OnCheckpointUpdate E now th node rs)"
| "records E C rs (rc_OnInterrupt E now nodes step rs)"
| "records E C rs (rc_OnResume E now th rs)"

text \<open>What the options of all methods leave alone.\<close>

definition keeps_identity :: "(event \<Rightarrow> event) \<Rightarrow> bool" where
  "keeps_identity f \<longleftrightarrow> (\<forall>e. eID (f e) = eID e \<and> eType (f e) = eType e \<and> eClock (f e) = eClock e \<and> eTrace (f e) = eTrace e \<and>
     (\<not> eDeterministic e \<longrightarrow> \<not> eDeterministic (f e)))"

text \<open>A log written by a recorder: its clocks count from 1.\<close>

definition recorded_at :: "event_lib \<Rightarrow> recorder \<Rightarrow> event_store \<Rightarrow> nat \<Rightarrow> event \<Rightarrow> bool" where
  "recorded_at E r s i e \<longleftrightarrow> eClock e = of_nat (i + 1) \<and> eTrace e = rcTrace r \<and> \<not> eDeterministic e \<and>
     eHash e = computeHash E e \<and> (\<exists>t. eID e = ''evt-'' @ show_nat (i + 1) @ CHR ''-'' # elHex E t) \<and> es_Get (eID e) s = Some e"

definition recorded :: "event_lib \<Rightarrow> recorder \<times> event_store \<Rightarrow> bool" where
  "recorded E rs \<longleftrightarrow> (case rs of (r, s) \<Rightarrow> length (esLog s) < 2 ^ 64 \<longrightarrow> rcClock r = of_nat (length (esLog s)) \<and>
     (\<forall>i < length (esLog s). recorded_at E r s i (esLog s ! i)))"

lemma digit_value: "n < 10 \<Longrightarrow> of_char (digit_char n) = n + (48 :: nat) \<and> digit_char n \<noteq> CHR ''-''"
proof -
  assume "n < 10"
  then have v: "of_char (digit_char n) = n + (48 :: nat)" by simp
  have "of_char (digit_char n) \<noteq> (of_char CHR ''-'' :: nat)" unfolding v by simp
  then show ?thesis using v by metis
qed

definition read_nat :: "string \<Rightarrow> nat" where
  "read_nat s = foldl (\<lambda>a c. a * 10 + (of_char c - 48)) 0 s"

lemma read_show_nat: "read_nat (show_nat n) = n"
proof (induction n rule: show_nat.induct)
  case (1 n)
  then show ?case
    by (subst show_nat.simps) (auto simp: read_nat_def digit_value)
qed

lemma show_nat_no_dash: "CHR ''-'' \<notin> set (show_nat n)"
proof (induction n rule: show_nat.induct)
  case (1 n)
  then show ?case
    using digit_value[of n] digit_value[of "n mod 10"] by (subst show_nat.simps) auto
qed

lemma dash_split: "xs @ c # ys = xs' @ c # ys' \<Longrightarrow> c \<notin> set xs \<Longrightarrow> c \<notin> set xs' \<Longrightarrow> xs = xs'"
  by (auto simp: append_eq_append_conv2 append_eq_Cons_conv Cons_eq_append_conv)

lemma event_ids_differ: "''evt-'' @ show_nat n @ CHR ''-'' # x = ''evt-'' @ show_nat m @ CHR ''-'' # y \<Longrightarrow> n = m"
  using dash_split[of "show_nat n" "CHR ''-''" x "show_nat m" y] show_nat_no_dash read_show_nat by (metis same_append_eq)

lemma unat_small: "n < 2 ^ 64 \<Longrightarrow> unat (of_nat n :: clock) = n"
  by (simp add: unat_of_nat take_bit_nat_eq_self)

lemma keeps_identity_intros [intro]:
  "keeps_identity (\<lambda>e. e)"
  "keeps_identity f \<Longrightarrow> keeps_identity (\<lambda>e. with_meta k v (f e))"
  "keeps_identity f \<Longrightarrow> keeps_identity (\<lambda>e. with_payload C p (f e))"
  "keeps_identity f \<Longrightarrow> keeps_identity (\<lambda>e. with_error E err (f e))"
  "keeps_identity f \<Longrightarrow> keeps_identity (\<lambda>e. f e\<lparr>eDeterministic := False\<rparr>)"
  "keeps_identity f \<Longrightarrow> keeps_identity (\<lambda>e. f e\<lparr>eStep := st\<rparr>)"
  "keeps_identity f \<Longrightarrow> keeps_identity (\<lambda>e. f e\<lparr>eNode := nd\<rparr>)"
  "keeps_identity f \<Longrightarrow> keeps_identity (\<lambda>e. f e\<lparr>eThread := th\<rparr>)"
  "keeps_identity f \<Longrightarrow> keeps_identity g \<Longrightarrow> keeps_identity (\<lambda>e. if b then f e else g e)"
  unfolding keeps_identity_def with_error_def with_meta_def with_payload_def by (simp_all split: option.split)

lemma record_event_recorded:
  assumes "recorded E rs" "keeps_identity f"
  shows "recorded E (record_event E now typ f rs)"
proof -
  obtain r s where rs: "rs = (r, s)" by (cases rs)
  define n where "n = length (esLog s)"
  define e0 where "e0 = (NewEvent E now typ (rcClock r + 1))\<lparr>eTrace := rcTrace r, eThread := rcThread r\<rparr>"
  obtain e s1 where a: "append_one E (Seal E (f e0)) s = (e, s1)" by (meson surj_pair)
  have res: "record_event E now typ f rs = (r\<lparr>rcClock := rcClock r + 1\<rparr>, s1)"
    using a by (simp add: rs record_event_def Tick_def Let_def e0_def)
  note f = append_one_facts[OF a]
  have "rcClock r + 1 = of_nat (n + 1) \<and> (\<forall>i < Suc n. recorded_at E r s1 i (esLog s1 ! i))" if len: "Suc n < 2 ^ 64"
  proof -
    have old: "rcClock r = of_nat n" "\<forall>i < n. recorded_at E r s i (esLog s ! i)"
      using assms(1) len by (simp_all add: recorded_def rs n_def)
    have c: "unat (rcClock r + 1) = Suc n" using unat_small[OF len] by (simp add: old(1) add.commute)
    then have nz: "rcClock r + 1 \<noteq> 0" by (metis nat.distinct(1) unat_0)
    have k: "eID (f e0) = eID e0" "eClock (f e0) = rcClock r + 1" "eTrace (f e0) = rcTrace r" "\<not> eDeterministic (f e0)"
      using assms(2) by (auto simp: keeps_identity_def e0_def NewEvent_def)
    have e: "e = Seal E (Seal E (f e0))" using f(5) k(2) nz by (simp add: Seal_def)
    have eid: "eID e = ''evt-'' @ show_nat (Suc n) @ CHR ''-'' # elHex E now"
      using k(1) c by (simp add: e Seal_def e0_def NewEvent_def)
    have new: "recorded_at E r s1 n e"
      using k f(2,3,4) eid old(1) by (auto simp: recorded_at_def e Seal_def es_Get_def computeHash_def)
    have "recorded_at E r s1 i (esLog s ! i)" if i: "i < n" for i
    proof -
      have ra: "recorded_at E r s i (esLog s ! i)" using old(2) i by blast
      then obtain t where t: "eID (esLog s ! i) = ''evt-'' @ show_nat (Suc i) @ CHR ''-'' # elHex E t"
        unfolding recorded_at_def Suc_eq_plus1 by blast
      have "eID (esLog s ! i) \<noteq> eID e" using t eid event_ids_differ[of "Suc i" "elHex E t" "Suc n" "elHex E now"] i by auto
      then show ?thesis using ra f(2,3) by (auto simp: recorded_at_def es_Get_def)
    qed
    then show ?thesis using new old(1) f(1) by (auto simp: less_Suc_eq nth_append n_def)
  qed
  then show ?thesis using f(1) by (simp add: res recorded_def n_def recorded_at_def)
qed

lemma recorded_new: "recorded E (NewEventRecorder traceID threadID, NewMemoryEventStore)"
  by (simp add: recorded_def NewEventRecorder_def NewMemoryEventStore_def)

lemmas recorder_methods = RecordModelCall_def RecordLLMChunk_def RecordToolCall_def RecordSubAgentCall_def RecordSessionValue_def
  RecordSessionTransfer_def RecordStateWrite_def RecordMemoryWrite_def RecordMemoryRead_def RecordApproval_def RecordError_def
  RecordRetry_def rc_OnRunStart_def rc_OnRunEnd_def rc_OnStepStart_def rc_OnStepEnd_def rc_OnNodeStart_def rc_OnNodeEnd_def
  rc_OnCheckpointSave_def rc_OnCheckpointLoad_def rc_OnCheckpointUpdate_def rc_OnInterrupt_def rc_OnResume_def

lemma record_keeps_trace: "rcTrace (fst (record_event E now typ f rs)) = rcTrace (fst rs)"
  by (simp add: record_event_def Let_def split: prod.splits)

lemma records_recorded: "records E C rs rs' \<Longrightarrow> recorded E rs \<Longrightarrow> recorded E rs' \<and> rcTrace (fst rs') = rcTrace (fst rs)"
  by (induction rule: records.induct)
     (auto simp: recorder_methods record_keeps_trace Let_def intro!: record_event_recorded keeps_identity_intros)

lemma all_recorded: "(records E C)\<^sup>*\<^sup>* rs rs' \<Longrightarrow> recorded E rs \<Longrightarrow> recorded E rs' \<and> rcTrace (fst rs') = rcTrace (fst rs)"
  by (induction rule: rtranclp_induct) (use records_recorded in fastforce)+


definition demo_events :: event_lib where
  "demo_events = \<lparr>elLib = demo_lib, elHash = (\<lambda>s. s), elHex = (\<lambda>n. show_int n)\<rparr>"

definition demo_codec :: codec where
  "demo_codec = \<lparr>cdEncode = (\<lambda>p. None), cdTool = (\<lambda>s. \<lparr>tpToolName = [], tpArguments = None, tpResult = VNil, tpDurationMs = 0,
     tpError = [], tpRetryCount = 0\<rparr>), cdLLM = (\<lambda>s. \<lparr>lpModel = [], lpProvider = [], lpMessages = [],
     lpTokens = \<lparr>tuPrompt = 0, tuCompletion = 0, tuTotal = 0\<rparr>, lpContent = [], lpChunks = 0, lpDurationMs = 0, lpCost = 0\<rparr>),
     cdState = (\<lambda>s. \<lparr>stChannel = [], stOldValue = VNil, stNewValue = VNil, stReducer = []\<rparr>), cdReadsTool = (\<lambda>s. True), cdReadsLLM = (\<lambda>s. True)\<rparr>"

lemma record_event_log: "rcClock r + 1 \<noteq> 0 \<Longrightarrow> keeps_identity f \<Longrightarrow>
  map eClock (esLog (snd (record_event E now typ f (r, s)))) = map eClock (esLog s) @ [rcClock r + 1] \<and>
  fst (record_event E now typ f (r, s)) = r\<lparr>rcClock := rcClock r + 1\<rparr>"
  by (simp add: record_event_def Let_def Tick_def append_one_def Seal_def keeps_identity_def NewEvent_def)


text \<open>Two recorders that write to one store count on their own: the clocks of the log are 1, 2, 1, so that the
  log is not ordered by the clock, and reading from clock 2 on gives the event with clock 1 as well.\<close>

theorem two_recorders:
  "let (a1, s1) = rc_OnResume E t1 th (rc_OnResume E t0 th (NewEventRecorder traceA th, NewMemoryEventStore));
       (b1, s2) = rc_OnResume E t2 th (NewEventRecorder traceB th, s1)
   in map eClock (esLog s2) = [1, 2, 1] \<and> map eClock (es_Seek 2 s2) = [2, 1] \<and> map eTrace (es_Seek 2 s2) = [traceA, traceB]"
  by (simp add: rc_OnResume_def record_event_def NewEventRecorder_def NewMemoryEventStore_def Let_def append_one_def Tick_def
      NewEvent_def Seal_def es_Seek_def word_le_nat_alt)

lemma seek_pos_spec: "seek_pos c es i = (if \<exists>e \<in> set es. c \<le> eClock e then i + length (takeWhile (\<lambda>e. eClock e < c) es) else 0)"
proof (induction es arbitrary: i)
  case (Cons e es)
  then show ?case by (cases "eClock e < c") (auto simp: not_less)
qed simp

text \<open>Seeking in a log that is ordered by the clock gives the events from that clock on, as long as there is one;
  a clock after the last event gives the whole log again.\<close>

theorem seek_past_the_end:
  "sorted (map eClock (esLog s)) \<Longrightarrow> es_Seek c s =
    (if \<exists>e \<in> set (esLog s). c \<le> eClock e then filter (\<lambda>e. c \<le> eClock e) (esLog s) else esLog s)"
proof -
  have "drop (length (takeWhile (\<lambda>e. eClock e < c) es)) es = filter (\<lambda>e. c \<le> eClock e) es" if "sorted (map eClock es)" for es
    using that by (induction es) (auto simp: not_le intro!: filter_True[symmetric])
  then show "sorted (map eClock (esLog s)) \<Longrightarrow> ?thesis" by (auto simp: es_Seek_def seek_pos_spec)
qed

lemma seek_past_the_end_witness:
  "let s = snd (rc_OnResume demo_events 3 ''th'' (NewEventRecorder ''t'' ''th'', NewMemoryEventStore)) in es_Seek 2 s = esLog s \<and> esLog s \<noteq> []"
proof -
  define s where "s = snd (rc_OnResume demo_events 3 ''th'' (NewEventRecorder ''t'' ''th'', NewMemoryEventStore))"
  have c: "map eClock (esLog s) = [1]"
    by (simp add: s_def rc_OnResume_def record_event_def NewEventRecorder_def NewMemoryEventStore_def Let_def append_one_def Tick_def
      NewEvent_def Seal_def)
  then have "sorted (map eClock (esLog s))" "\<not> (\<exists>e \<in> set (esLog s). 2 \<le> eClock e)" by (auto simp: map_eq_Cons_conv word_le_nat_alt)
  then show ?thesis using seek_past_the_end[of s 2] c by (auto simp: Let_def s_def[symmetric])
qed

end
