(* ===== verification/Event_Stream.thy ===== *)
theory Event_Stream
  imports Values "HOL-Library.Sublist"
begin

text \<open>
  Streams of events (\<^verbatim>\<open>pregel/stream.go\<close>): the manager that filters the events of a run by mode into a
  buffered channel, the writer nodes are given, cancellable streams and the processor that reads one.
  \<open>now\<close> is what the clock says. Nothing is ever sent on the error channels of managers.
\<close>

section \<open>Events and the manager\<close>

datatype stream_mode =
    ModeValues
  | ModeUpdates
  | ModeCustom
  | ModeMessages
  | ModeCheckpoints
  | ModeTasks
  | ModeDebug
  | ModeOther string

datatype event_type =
    TypeCheckpoint
  | TypeTaskStart
  | TypeTaskEnd
  | TypeUpdate
  | TypeValues
  | TypeInterrupt
  | TypeError
  | TypeFinal
  | TypeDebug

record stream_event =
  evType :: event_type
  evTimestamp :: int
  evStep :: int
  evNode :: string
  evTaskID :: string
  evData :: gval
  evError :: "gerr option"

definition NewStreamEvent :: "int \<Rightarrow> event_type \<Rightarrow> int \<Rightarrow> stream_event" where
  "NewStreamEvent now eventType step = \<lparr>evType = eventType, evTimestamp = now, evStep = step, evNode = [], evTaskID = [],
     evData = VMap fmempty, evError = None\<rparr>"

record stream_manager =
  smMode :: stream_mode
  smCap :: nat
  smInclude :: "event_type set"
  smEvents :: "stream_event list"
  smClosed :: bool

definition setupIncludeFilter :: "stream_mode \<Rightarrow> event_type set" where
  "setupIncludeFilter mode = (case mode of
     ModeValues \<Rightarrow> {TypeValues, TypeFinal}
   | ModeUpdates \<Rightarrow> {TypeUpdate, TypeFinal}
   | ModeTasks \<Rightarrow> {TypeTaskStart, TypeTaskEnd, TypeError, TypeFinal}
   | ModeCheckpoints \<Rightarrow> {TypeCheckpoint, TypeFinal}
   | ModeDebug \<Rightarrow> {TypeCheckpoint, TypeTaskStart, TypeTaskEnd, TypeUpdate, TypeValues, TypeInterrupt, TypeError,
       TypeDebug, TypeFinal}
   | _ \<Rightarrow> {TypeValues, TypeFinal})"

definition NewStreamManager :: "stream_mode \<Rightarrow> int \<Rightarrow> stream_manager" where
  "NewStreamManager mode bufferSize = \<lparr>smMode = mode, smCap = nat (if bufferSize \<le> 0 then 100 else bufferSize),
     smInclude = setupIncludeFilter mode, smEvents = [], smClosed = False\<rparr>"

definition shouldEmit :: "stream_manager \<Rightarrow> event_type \<Rightarrow> bool" where
  "shouldEmit sm t \<longleftrightarrow> t \<in> smInclude sm"

definition sm_emit :: "stream_manager \<Rightarrow> stream_event \<Rightarrow> stream_manager" where
  "sm_emit sm e = (if smClosed sm then sm
     else if length (smEvents sm) < smCap sm then sm\<lparr>smEvents := smEvents sm @ [e]\<rparr> else sm)"

definition data_map :: "(string \<times> gval) list \<Rightarrow> gval" where
  "data_map kvs = VMap (fmap_of_list kvs)"

definition EmitCheckpoint :: "int \<Rightarrow> stream_manager \<Rightarrow> int \<Rightarrow> gmap \<Rightarrow> stream_manager" where
  "EmitCheckpoint now sm step cp = (if \<not> shouldEmit sm TypeCheckpoint then sm
     else sm_emit sm ((NewStreamEvent now TypeCheckpoint step)\<lparr>evData := data_map [(''checkpoint'', VMap cp)]\<rparr>))"

definition EmitTaskStart :: "int \<Rightarrow> stream_manager \<Rightarrow> int \<Rightarrow> string \<Rightarrow> string \<Rightarrow> stream_manager" where
  "EmitTaskStart now sm step node taskID = (if \<not> shouldEmit sm TypeTaskStart then sm
     else sm_emit sm ((NewStreamEvent now TypeTaskStart step)\<lparr>evNode := node, evTaskID := taskID,
       evData := data_map [(''node'', VStr node), (''task_id'', VStr taskID)]\<rparr>))"

text \<open>\<open>duration\<close> is printed by the library.\<close>

definition EmitTaskEnd ::
  "int \<Rightarrow> stream_manager \<Rightarrow> int \<Rightarrow> string \<Rightarrow> string \<Rightarrow> gval \<Rightarrow> string \<Rightarrow> gerr option \<Rightarrow> stream_manager" where
  "EmitTaskEnd now sm step node taskID out duration err = (if \<not> shouldEmit sm TypeTaskEnd then sm
     else sm_emit sm ((NewStreamEvent now TypeTaskEnd step)\<lparr>evNode := node, evTaskID := taskID,
       evData := data_map [(''node'', VStr node), (''task_id'', VStr taskID), (''output'', out), (''duration'', VStr duration)],
       evError := err\<rparr>))"

definition EmitUpdate :: "int \<Rightarrow> stream_manager \<Rightarrow> int \<Rightarrow> string \<Rightarrow> gval \<Rightarrow> stream_manager" where
  "EmitUpdate now sm step node out = (if \<not> shouldEmit sm TypeUpdate then sm
     else sm_emit sm ((NewStreamEvent now TypeUpdate step)\<lparr>evNode := node,
       evData := data_map [(''node'', VStr node), (''output'', out)]\<rparr>))"

definition EmitValues :: "int \<Rightarrow> stream_manager \<Rightarrow> int \<Rightarrow> gmap \<Rightarrow> stream_manager" where
  "EmitValues now sm step vals = (if \<not> shouldEmit sm TypeValues then sm
     else sm_emit sm ((NewStreamEvent now TypeValues step)\<lparr>evData := data_map [(''values'', VMap vals)]\<rparr>))"

definition EmitInterrupt :: "int \<Rightarrow> stream_manager \<Rightarrow> int \<Rightarrow> string list \<Rightarrow> stream_manager" where
  "EmitInterrupt now sm step interrupts = (if \<not> shouldEmit sm TypeInterrupt then sm
     else sm_emit sm ((NewStreamEvent now TypeInterrupt step)\<lparr>evData := data_map [(''interrupts'', VList (map VStr interrupts))]\<rparr>))"

definition sm_EmitError :: "golib \<Rightarrow> int \<Rightarrow> stream_manager \<Rightarrow> int \<Rightarrow> gerr \<Rightarrow> string \<Rightarrow> stream_manager" where
  "sm_EmitError L now sm step err node = (if \<not> shouldEmit sm TypeError then sm
     else sm_emit sm ((NewStreamEvent now TypeError step)\<lparr>evNode := node,
       evData := data_map [(''node'', VStr node), (''error'', VStr (error_text L err))], evError := Some err\<rparr>))"

definition EmitDebug :: "int \<Rightarrow> stream_manager \<Rightarrow> int \<Rightarrow> string \<Rightarrow> gval \<Rightarrow> stream_manager" where
  "EmitDebug now sm step m d = (if \<not> shouldEmit sm TypeDebug then sm
     else sm_emit sm ((NewStreamEvent now TypeDebug step)\<lparr>evData := data_map [(''message'', VStr m), (''data'', d)]\<rparr>))"

text \<open>Sending on a channel without a \<open>default\<close>: it may block, and it panics on a closed channel.\<close>

datatype send_result = Done | Blocks | Panics

definition EmitFinal :: "int \<Rightarrow> stream_manager \<Rightarrow> int \<Rightarrow> gval \<Rightarrow> send_result \<times> stream_manager" where
  "EmitFinal now sm step state = (if \<not> shouldEmit sm TypeFinal then (Done, sm)
     else let e = (NewStreamEvent now TypeFinal step)\<lparr>evData := data_map [(''state'', state)]\<rparr> in
       if smClosed sm then (Panics, sm)
       else if length (smEvents sm) < smCap sm then (Done, sm\<lparr>smEvents := smEvents sm @ [e]\<rparr>) else (Blocks, sm))"

definition sm_Close :: "stream_manager \<Rightarrow> stream_manager" where
  "sm_Close sm = (if \<not> smClosed sm then sm\<lparr>smClosed := True\<rparr> else sm)"

text \<open>A reader of \<open>Events()\<close> takes the next event.\<close>

definition sm_receive :: "stream_manager \<Rightarrow> stream_event option \<times> stream_manager" where
  "sm_receive sm = (case smEvents sm of [] \<Rightarrow> (None, sm) | e # es \<Rightarrow> (Some e, sm\<lparr>smEvents := es\<rparr>))"

section \<open>The writer of a node\<close>

record stream_writer =
  swStep :: int
  swNode :: string

definition NewStreamWriter :: "int \<Rightarrow> string \<Rightarrow> stream_writer" where
  "NewStreamWriter step node = \<lparr>swStep = step, swNode = node\<rparr>"

definition sw_Write :: "int \<Rightarrow> stream_writer \<Rightarrow> gval \<Rightarrow> stream_manager \<Rightarrow> gerr option \<times> stream_manager" where
  "sw_Write now w d sm = (None, EmitDebug now sm (swStep w) (''custom output from node '' @ swNode w) d)"

text \<open>\<open>jerr\<close> is the error of the JSON encoder.\<close>

definition WriteJSON :: "golib \<Rightarrow> gerr \<Rightarrow> int \<Rightarrow> stream_writer \<Rightarrow> gval \<Rightarrow> stream_manager \<Rightarrow> gerr option \<times> stream_manager" where
  "WriteJSON L jerr now w d sm = (case json_text L d of None \<Rightarrow> (Some jerr, sm) | Some t \<Rightarrow> sw_Write now w (VBytes t) sm)"

section \<open>Event streams\<close>

text \<open>\<open>esDone\<close> says that the context of the stream is done.\<close>

record event_stream =
  esEvents :: "stream_event list"
  esErrors :: "gerr list"
  esClosed :: bool
  esDone :: bool

definition NewEventStream :: "bool \<Rightarrow> event_stream" where
  "NewEventStream ctxDone = \<lparr>esEvents = [], esErrors = [], esClosed = False, esDone = ctxDone\<rparr>"

definition es_Cancel :: "event_stream \<Rightarrow> send_result \<times> event_stream" where
  "es_Cancel es = (if esClosed es then (Panics, es) else (Done, es\<lparr>esDone := True, esClosed := True\<rparr>))"

text \<open>Where both cases of a \<open>select\<close> are ready, \<open>pick\<close> says which one is taken; sending is ready on a closed
  channel.\<close>

definition es_Emit :: "bool \<Rightarrow> event_stream \<Rightarrow> stream_event \<Rightarrow> send_result \<times> event_stream" where
  "es_Emit pick es e =
     (if (esClosed es \<or> length (esEvents es) < 100) \<and> (\<not> esDone es \<or> pick)
      then (if esClosed es then (Panics, es) else (Done, es\<lparr>esEvents := esEvents es @ [e]\<rparr>))
      else if esDone es then (Done, es) else (Blocks, es))"

definition es_EmitError :: "bool \<Rightarrow> event_stream \<Rightarrow> gerr \<Rightarrow> send_result \<times> event_stream" where
  "es_EmitError pick es e =
     (if (esClosed es \<or> length (esErrors es) < 10) \<and> (\<not> esDone es \<or> pick)
      then (if esClosed es then (Panics, es) else (Done, es\<lparr>esErrors := esErrors es @ [e]\<rparr>))
      else if esDone es then (Done, es) else (Blocks, es))"

section \<open>The processor\<close>

text \<open>Its functions act on a world.\<close>

record 'w stream_processor =
  spFilter :: "stream_event \<Rightarrow> 'w \<Rightarrow> bool \<times> 'w"
  spTransform :: "stream_event \<Rightarrow> 'w \<Rightarrow> (gerr + stream_event) \<times> 'w"
  spHandler :: "stream_event \<Rightarrow> 'w \<Rightarrow> 'w"

definition NewStreamProcessor :: "'w stream_processor" where
  "NewStreamProcessor = \<lparr>spFilter = (\<lambda>e w. (True, w)), spTransform = (\<lambda>e w. (Inr e, w)), spHandler = (\<lambda>e w. w)\<rparr>"

definition WithFilter :: "(stream_event \<Rightarrow> 'w \<Rightarrow> bool \<times> 'w) \<Rightarrow> 'w stream_processor \<Rightarrow> 'w stream_processor" where
  "WithFilter f sp = sp\<lparr>spFilter := f\<rparr>"

definition WithTransform :: "(stream_event \<Rightarrow> 'w \<Rightarrow> (gerr + stream_event) \<times> 'w) \<Rightarrow> 'w stream_processor \<Rightarrow> 'w stream_processor" where
  "WithTransform f sp = sp\<lparr>spTransform := f\<rparr>"

definition WithHandler :: "(stream_event \<Rightarrow> 'w \<Rightarrow> 'w) \<Rightarrow> 'w stream_processor \<Rightarrow> 'w stream_processor" where
  "WithHandler f sp = sp\<lparr>spHandler := f\<rparr>"

definition sp_Process :: "'w stream_processor \<Rightarrow> stream_event \<Rightarrow> 'w \<Rightarrow> gerr option \<times> 'w" where
  "sp_Process sp e w = (case spFilter sp e w of
     (False, w1) \<Rightarrow> (None, w1)
   | (True, w1) \<Rightarrow> (case spTransform sp e w1 of
       (Inl err, w2) \<Rightarrow> (Some err, w2)
     | (Inr e1, w2) \<Rightarrow> (None, spHandler sp e1 w2)))"

text \<open>
  The loop over a channel that delivers \<open>es\<close> and is then closed; \<open>ends i = Some err\<close> when the \<open>i\<close>-th
  \<open>select\<close> finds the context done, with \<open>err\<close>, and takes that case.
\<close>

fun ProcessStream :: "'w stream_processor \<Rightarrow> (nat \<Rightarrow> gerr option) \<Rightarrow> nat \<Rightarrow> stream_event list \<Rightarrow> 'w \<Rightarrow> gerr option \<times> 'w" where
  "ProcessStream sp ends i [] w = (ends i, w)"
| "ProcessStream sp ends i (e # es) w = (case ends i of
     Some err \<Rightarrow> (Some err, w)
   | None \<Rightarrow> (case sp_Process sp e w of
       (Some err, w1) \<Rightarrow> (Some err, w1)
     | (None, w1) \<Rightarrow> ProcessStream sp ends (Suc i) es w1))"

section \<open>What a reader gets\<close>

text \<open>The calls of a run on its manager, other than \<open>EmitFinal\<close>, with those of a reader.\<close>

datatype stream_call =
    CallCheckpoint int int gmap
  | CallTaskStart int int string string
  | CallTaskEnd int int string string gval string "gerr option"
  | CallUpdate int int string gval
  | CallValues int int gmap
  | CallInterrupt int int "string list"
  | CallError int int gerr string
  | CallDebug int int string gval
  | CallReceive
  | CallClose

fun call_stream :: "golib \<Rightarrow> stream_call \<Rightarrow> stream_manager \<Rightarrow> stream_manager" where
  "call_stream L (CallCheckpoint now step cp) sm = EmitCheckpoint now sm step cp"
| "call_stream L (CallTaskStart now step n t) sm = EmitTaskStart now sm step n t"
| "call_stream L (CallTaskEnd now step n t out d err) sm = EmitTaskEnd now sm step n t out d err"
| "call_stream L (CallUpdate now step n out) sm = EmitUpdate now sm step n out"
| "call_stream L (CallValues now step m) sm = EmitValues now sm step m"
| "call_stream L (CallInterrupt now step is) sm = EmitInterrupt now sm step is"
| "call_stream L (CallError now step e n) sm = sm_EmitError L now sm step e n"
| "call_stream L (CallDebug now step m d) sm = EmitDebug now sm step m d"
| "call_stream L CallReceive sm = snd (sm_receive sm)"
| "call_stream L CallClose sm = sm_Close sm"

text \<open>The event a call would emit, whatever the mode.\<close>

fun emitted :: "golib \<Rightarrow> stream_call \<Rightarrow> stream_event list" where
  "emitted L (CallCheckpoint now step cp) = [(NewStreamEvent now TypeCheckpoint step)\<lparr>evData := data_map [(''checkpoint'', VMap cp)]\<rparr>]"
| "emitted L (CallTaskStart now step n t) = [(NewStreamEvent now TypeTaskStart step)\<lparr>evNode := n, evTaskID := t,
     evData := data_map [(''node'', VStr n), (''task_id'', VStr t)]\<rparr>]"
| "emitted L (CallTaskEnd now step n t out d err) = [(NewStreamEvent now TypeTaskEnd step)\<lparr>evNode := n, evTaskID := t,
     evData := data_map [(''node'', VStr n), (''task_id'', VStr t), (''output'', out), (''duration'', VStr d)], evError := err\<rparr>]"
| "emitted L (CallUpdate now step n out) = [(NewStreamEvent now TypeUpdate step)\<lparr>evNode := n,
     evData := data_map [(''node'', VStr n), (''output'', out)]\<rparr>]"
| "emitted L (CallValues now step m) = [(NewStreamEvent now TypeValues step)\<lparr>evData := data_map [(''values'', VMap m)]\<rparr>]"
| "emitted L (CallInterrupt now step is) = [(NewStreamEvent now TypeInterrupt step)\<lparr>evData := data_map [(''interrupts'', VList (map VStr is))]\<rparr>]"
| "emitted L (CallError now step e n) = [(NewStreamEvent now TypeError step)\<lparr>evNode := n,
     evData := data_map [(''node'', VStr n), (''error'', VStr (error_text L e))], evError := Some e\<rparr>]"
| "emitted L (CallDebug now step m d) = [(NewStreamEvent now TypeDebug step)\<lparr>evData := data_map [(''message'', VStr m), (''data'', d)]\<rparr>]"
| "emitted L c = []"

text \<open>A series of calls: the manager and what the reader has received.\<close>

fun run_stream :: "golib \<Rightarrow> stream_call list \<Rightarrow> stream_manager \<Rightarrow> stream_event list \<times> stream_manager" where
  "run_stream L [] sm = ([], sm)"
| "run_stream L (c # cs) sm = (case run_stream L cs (call_stream L c sm) of (got, sm1) \<Rightarrow>
     ((if c = CallReceive then (case sm_receive sm of (Some e, _) \<Rightarrow> [e] | (None, _) \<Rightarrow> []) else []) @ got, sm1))"

text \<open>The events of the mode that the calls before \<open>Close\<close> emit.\<close>

definition included :: "golib \<Rightarrow> event_type set \<Rightarrow> stream_call list \<Rightarrow> stream_event list" where
  "included L ts cs = filter (\<lambda>e. evType e \<in> ts) (concat (map (emitted L) (takeWhile (\<lambda>c. c \<noteq> CallClose) cs)))"

lemma call_emits: "c \<noteq> CallReceive \<Longrightarrow> c \<noteq> CallClose \<Longrightarrow> \<exists>e. emitted L c = [e] \<and>
  call_stream L c sm = (if evType e \<in> smInclude sm then sm_emit sm e else sm)"
  by (cases c) (simp_all add: EmitCheckpoint_def EmitTaskStart_def EmitTaskEnd_def EmitUpdate_def EmitValues_def EmitInterrupt_def
    sm_EmitError_def EmitDebug_def shouldEmit_def NewStreamEvent_def)

text \<open>After \<open>Close\<close> the buffer is only read.\<close>

lemma closed_stream:
  "smClosed sm \<Longrightarrow> run_stream L cs sm = (got, sm1) \<Longrightarrow> got @ smEvents sm1 = smEvents sm \<and> smCap sm1 = smCap sm"
proof (induction cs arbitrary: sm got)
  case (Cons c cs)
  obtain g1 where g: "run_stream L cs (call_stream L c sm) = (g1, sm1)" using Cons.prems(2) by (auto split: prod.splits)
  consider "c = CallReceive" | "c = CallClose" | "c \<noteq> CallReceive" "c \<noteq> CallClose" by blast
  then show ?case
  proof cases
    case 1
    then show ?thesis using Cons.prems g Cons.IH[of "snd (sm_receive sm)" g1] by (cases "smEvents sm") (auto simp: sm_receive_def)
  next
    case 2
    then show ?thesis using Cons g by (auto simp: sm_Close_def)
  next
    case 3
    then show ?thesis using Cons g call_emits[OF 3, of L sm] by (auto simp: sm_emit_def split: if_splits)
  qed
qed simp

lemma open_stream:
  "run_stream L cs sm = (got, sm1) \<Longrightarrow> \<not> smClosed sm \<Longrightarrow> length (smEvents sm) \<le> smCap sm \<Longrightarrow>
   \<exists>ks. got @ smEvents sm1 = smEvents sm @ ks \<and> subseq ks (included L (smInclude sm) cs) \<and> length (smEvents sm1) \<le> smCap sm \<and>
     (length (smEvents sm) + length (included L (smInclude sm) cs) \<le> smCap sm \<longrightarrow> ks = included L (smInclude sm) cs)"
proof (induction cs arbitrary: sm got)
  case Nil
  then show ?case by (simp add: included_def)
next
  case (Cons c cs)
  obtain g1 where g: "run_stream L cs (call_stream L c sm) = (g1, sm1)"
    and got: "got = (if c = CallReceive then (case sm_receive sm of (Some e, _) \<Rightarrow> [e] | (None, _) \<Rightarrow> []) else []) @ g1"
    using Cons.prems(1) by (auto split: prod.splits)
  consider "c = CallReceive" | "c = CallClose" | "c \<noteq> CallReceive" "c \<noteq> CallClose" by blast
  then show ?case
  proof cases
    case 1
    then have i: "included L (smInclude sm) (c # cs) = included L (smInclude sm) cs" by (simp add: included_def)
    show ?thesis
    proof (cases "smEvents sm")
      case Nil
      then show ?thesis using 1 g got i Cons.IH[of sm g1] Cons.prems(2,3) by (auto simp: sm_receive_def)
    next
      case (Cons e es)
      then show ?thesis using 1 g got i Cons.IH[of "sm\<lparr>smEvents := es\<rparr>" g1] Cons.prems(2,3) by (fastforce simp: sm_receive_def)
    qed
  next
    case 2
    then have "g1 @ smEvents sm1 = smEvents sm \<and> smCap sm1 = smCap sm" using g closed_stream[of "sm\<lparr>smClosed := True\<rparr>" L cs g1 sm1] Cons.prems(2)
      by (simp add: sm_Close_def)
    moreover from this have "length (smEvents sm1) \<le> length (smEvents sm)" by (metis length_append le_add2)
    ultimately show ?thesis using 2 got Cons.prems(3) by (auto simp: included_def)
  next
    case 3
    then obtain e where e: "emitted L c = [e]" "call_stream L c sm = (if evType e \<in> smInclude sm then sm_emit sm e else sm)"
      using call_emits by blast
    have i: "included L (smInclude sm) (c # cs) = (if evType e \<in> smInclude sm then e # included L (smInclude sm) cs else included L (smInclude sm) cs)"
      using 3 e(1) by (simp add: included_def)
    show ?thesis
    proof (cases "evType e \<in> smInclude sm \<and> length (smEvents sm) < smCap sm")
      case True
      then have "run_stream L cs (sm\<lparr>smEvents := smEvents sm @ [e]\<rparr>) = (g1, sm1)" using g e Cons.prems(2) by (simp add: sm_emit_def)
      from Cons.IH[OF this] obtain ks where ks: "g1 @ smEvents sm1 = (smEvents sm @ [e]) @ ks"
        "subseq ks (included L (smInclude sm) cs)" "length (smEvents sm1) \<le> smCap sm"
        "length (smEvents sm @ [e]) + length (included L (smInclude sm) cs) \<le> smCap sm \<longrightarrow> ks = included L (smInclude sm) cs"
        using True Cons.prems(2) by auto
      then have "got @ smEvents sm1 = smEvents sm @ (e # ks)" using got 3 by simp
      moreover have "subseq (e # ks) (included L (smInclude sm) (c # cs))" using ks(2) i True by simp
      ultimately show ?thesis using ks(3,4) i True by (intro exI[of _ "e # ks"]) simp
    next
      case False
      then have "call_stream L c sm = sm" using e by (simp add: sm_emit_def)
      with g obtain ks where "g1 @ smEvents sm1 = smEvents sm @ ks" "subseq ks (included L (smInclude sm) cs)"
        "length (smEvents sm1) \<le> smCap sm"
        "length (smEvents sm) + length (included L (smInclude sm) cs) \<le> smCap sm \<longrightarrow> ks = included L (smInclude sm) cs"
        using Cons.IH[of sm g1] Cons.prems(2,3) by auto
      then show ?thesis using False got 3 i Cons.prems(3) by (intro exI[of _ ks]) (auto simp: subseq_Cons')
    qed
  qed
qed



text \<open>The final event belongs to every mode. On an open stream it is never dropped: it waits for room,
  which one receive makes. On a closed one it panics, where the other events are dropped.\<close>

theorem final_waits:
  assumes "smInclude sm = setupIncludeFilter mode" "smCap sm > 0"
  shows "(smClosed sm \<longrightarrow> EmitFinal now sm step st = (Panics, sm) \<and> call_stream L (CallValues now step m) sm = sm) \<and>
    (\<not> smClosed sm \<and> length (smEvents sm) < smCap sm \<longrightarrow> (\<exists>e. evType e = TypeFinal \<and>
       EmitFinal now sm step st = (Done, sm\<lparr>smEvents := smEvents sm @ [e]\<rparr>))) \<and>
    (\<not> smClosed sm \<and> length (smEvents sm) = smCap sm \<longrightarrow> EmitFinal now sm step st = (Blocks, sm) \<and>
       fst (EmitFinal now (snd (sm_receive sm)) step st) = Done)"
proof -
  have f: "TypeFinal \<in> smInclude sm" using assms(1) by (simp add: setupIncludeFilter_def split: stream_mode.split)
  have "EmitValues now sm step m = sm" if "smClosed sm" using that by (simp add: EmitValues_def sm_emit_def)
  moreover have "fst (EmitFinal now (snd (sm_receive sm)) step st) = Done"
    if "\<not> smClosed sm" "length (smEvents sm) = smCap sm"
    using that f assms(2) by (cases "smEvents sm") (simp_all add: EmitFinal_def shouldEmit_def sm_receive_def Let_def)
  moreover have "evType ((NewStreamEvent now TypeFinal step)\<lparr>evData := data_map [(''state'', st)]\<rparr>) = TypeFinal"
    by (simp add: NewStreamEvent_def)
  then have "\<exists>e. evType e = TypeFinal \<and> EmitFinal now sm step st = (Done, sm\<lparr>smEvents := smEvents sm @ [e]\<rparr>)"
    if "\<not> smClosed sm" "length (smEvents sm) < smCap sm"
    using that f by (intro exI[of _ "(NewStreamEvent now TypeFinal step)\<lparr>evData := data_map [(''state'', st)]\<rparr>"])
      (simp add: EmitFinal_def shouldEmit_def Let_def)
  ultimately show ?thesis using f by (auto simp: EmitFinal_def shouldEmit_def Let_def)
qed

theorem final_waits_witness:
  "EmitFinal 1 (sm_Close (NewStreamManager ModeValues 1)) 0 VNil = (Panics, sm_Close (NewStreamManager ModeValues 1))"
  using final_waits[of "sm_Close (NewStreamManager ModeValues 1)" ModeValues 1 0 VNil demo_lib fmempty]
  by (simp add: NewStreamManager_def sm_Close_def)

text \<open>What a node writes to its stream is a debug event, so it is lost in every mode but debug, the mode
  for custom output too, and the node is told that all is well.\<close>

theorem custom_output_lost:
  assumes "smInclude sm = setupIncludeFilter mode" "mode \<noteq> ModeDebug"
  shows "sw_Write now w d sm = (None, sm)"
  using assms by (auto simp: sw_Write_def EmitDebug_def shouldEmit_def setupIncludeFilter_def split: stream_mode.splits)

theorem custom_output_lost_witness:
  "smEvents (snd (sw_Write 1 (NewStreamWriter 0 ''n'') (VBool True) (NewStreamManager ModeCustom 10))) = [] \<and>
   smEvents (snd (sw_Write 1 (NewStreamWriter 0 ''n'') (VBool True) (NewStreamManager ModeDebug 10))) \<noteq> []"
  using custom_output_lost[of "NewStreamManager ModeCustom 10" ModeCustom 1 "NewStreamWriter 0 ''n''" "VBool True"]
  by (simp add: NewStreamManager_def sw_Write_def EmitDebug_def shouldEmit_def setupIncludeFilter_def sm_emit_def NewStreamWriter_def)

text \<open>An event stream can be cancelled once: the second time panics. After it, an emitter either returns
  or panics, whichever case its \<open>select\<close> takes; before it, events are kept in order until 100 are unread.\<close>

theorem event_stream_cancel:
  "es_Cancel (snd (es_Cancel es)) = (Panics, snd (es_Cancel es)) \<and>
   es_Emit pick (snd (es_Cancel (NewEventStream d))) e = (if pick then Panics else Done, snd (es_Cancel (NewEventStream d))) \<and>
   (let es1 = foldl (\<lambda>es e. snd (es_Emit pick es e)) (NewEventStream False) xs in
     esEvents es1 = take 100 xs \<and> fst (es_Emit pick es1 e) = (if length xs < 100 then Done else Blocks))"
proof -
  have "esEvents (foldl (\<lambda>es e. snd (es_Emit pick es e)) (NewEventStream False) xs) = take 100 xs \<and>
      \<not> esClosed (foldl (\<lambda>es e. snd (es_Emit pick es e)) (NewEventStream False) xs) \<and>
      \<not> esDone (foldl (\<lambda>es e. snd (es_Emit pick es e)) (NewEventStream False) xs)"
    by (induction xs rule: rev_induct) (auto simp: NewEventStream_def es_Emit_def)
  then show ?thesis by (auto simp: es_Cancel_def NewEventStream_def es_Emit_def Let_def)
qed

section \<open>What a processor does\<close>

text \<open>A processor whose filter and transformation are functions of the event.\<close>

definition pure_processor :: "(stream_event \<Rightarrow> bool) \<Rightarrow> (stream_event \<Rightarrow> gerr + stream_event) \<Rightarrow> (stream_event \<Rightarrow> 'w \<Rightarrow> 'w) \<Rightarrow> 'w stream_processor" where
  "pure_processor p f h = WithHandler h (WithTransform (\<lambda>e w. (f e, w)) (WithFilter (\<lambda>e w. (p e, w)) NewStreamProcessor))"

text \<open>The events up to the first whose transformation fails, and its error.\<close>

fun until_error :: "(gerr + stream_event) list \<Rightarrow> stream_event list \<times> gerr option" where
  "until_error [] = ([], None)"
| "until_error (Inl e # rs) = ([], Some e)"
| "until_error (Inr x # rs) = (case until_error rs of (xs, err) \<Rightarrow> (x # xs, err))"

lemma process_all:
  "(\<And>j. i \<le> j \<Longrightarrow> j < i + length es \<Longrightarrow> ends j = None) \<Longrightarrow>
   ProcessStream (pure_processor p f h) ends i (es @ rest) w =
     (case until_error (map f (filter p es)) of
        (xs, Some err) \<Rightarrow> (Some err, fold h xs w)
      | (xs, None) \<Rightarrow> ProcessStream (pure_processor p f h) ends (i + length es) rest (fold h xs w))"
proof (induction es arbitrary: i w)
  case (Cons e es)
  have "ends i = None" using Cons.prems[of i] by simp
  moreover have "ends j = None" if "Suc i \<le> j" "j < Suc i + length es" for j using Cons.prems[of j] that by simp
  ultimately show ?case
    using Cons.IH[of "Suc i"]
    by (cases "f e") (auto simp: sp_Process_def pure_processor_def WithFilter_def WithTransform_def WithHandler_def NewStreamProcessor_def
      split: prod.split option.split)
qed simp

text \<open>A processor hands the transformed events that pass its filter to its handler, in order, up to the
  first transformation that fails, whose error it returns. When its context ends before the event \<open>k\<close> it
  returns the error of the context, having handled the events before \<open>k\<close> only.\<close>

theorem processor_handles:
  assumes "\<And>j. j < k \<Longrightarrow> ends j = None" "k \<le> length es" "k < length es \<longrightarrow> ends k \<noteq> None"
  shows "ProcessStream (pure_processor p f h) ends 0 es w =
    (case until_error (map f (filter p (take k es))) of
       (xs, Some err) \<Rightarrow> (Some err, fold h xs w)
     | (xs, None) \<Rightarrow> (ends k, fold h xs w))"
proof -
  have "ProcessStream (pure_processor p f h) ends k (drop k es) v = (ends k, v)" for v
    using assms(2,3) by (cases "drop k es") (auto split: option.splits)
  then show ?thesis
    using process_all[of 0 "take k es" ends p f h "drop k es" w] assms(1,2) by (simp split: prod.split option.split)
qed

theorem processor_handles_witness:
  "ProcessStream (pure_processor (\<lambda>e. evStep e > 0) Inr (\<lambda>e n. n + evStep e)) (\<lambda>i. None) 0
     [NewStreamEvent 0 TypeValues 0, NewStreamEvent 0 TypeValues 1, NewStreamEvent 0 TypeValues 2] 0 = (None, 3)"
  using processor_handles[of 3 "\<lambda>i. None" "[NewStreamEvent 0 TypeValues 0, NewStreamEvent 0 TypeValues 1, NewStreamEvent 0 TypeValues 2]"
      "\<lambda>e. evStep e > 0" Inr "\<lambda>e n. n + evStep e" 0]
  by (simp add: NewStreamEvent_def)

end
