(* ===== verification/Replay.thy ===== *)
theory Replay
  imports Event_Log Event_Stream Engine_Data "HOL-Library.Multiset"
begin

text \<open>
  Replay of recorded runs (\<^verbatim>\<open>../replay/replay.go\<close>, \<^verbatim>\<open>injector.go\<close>, \<^verbatim>\<open>diff.go\<close>, \<^verbatim>\<open>checkpoint.go\<close>, \<^verbatim>\<open>fork.go\<close>) over the store in memory
  of \<open>Event_Log\<close>. The overrides are functions of the caller that act on a world. Events that are changed
  are copies; a divergence shows them as they are before they are written to the output store.
\<close>

section \<open>Payloads of events\<close>

definition zero_tool :: tool_payload where
  "zero_tool = \<lparr>tpToolName = [], tpArguments = None, tpResult = VNil, tpDurationMs = 0, tpError = [], tpRetryCount = 0\<rparr>"

definition zero_llm :: llm_payload where
  "zero_llm = \<lparr>lpModel = [], lpProvider = [], lpMessages = [], lpTokens = \<lparr>tuPrompt = 0, tuCompletion = 0, tuTotal = 0\<rparr>,
     lpContent = [], lpChunks = 0, lpDurationMs = 0, lpCost = 0\<rparr>"

definition zero_state :: state_payload where
  "zero_state = \<lparr>stChannel = [], stOldValue = VNil, stNewValue = VNil, stReducer = []\<rparr>"

text \<open>\<open>parsePayload\<close> into the three types; what is left of a payload that cannot be read is the codec's.\<close>

definition parse_tool :: "codec \<Rightarrow> event \<Rightarrow> tool_payload" where
  "parse_tool C e = (case ePayload e of None \<Rightarrow> zero_tool | Some p \<Rightarrow> cdTool C p)"

definition parse_llm :: "codec \<Rightarrow> event \<Rightarrow> llm_payload" where
  "parse_llm C e = (case ePayload e of None \<Rightarrow> zero_llm | Some p \<Rightarrow> cdLLM C p)"

definition parse_state :: "codec \<Rightarrow> event \<Rightarrow> state_payload" where
  "parse_state C e = (case ePayload e of None \<Rightarrow> zero_state | Some p \<Rightarrow> cdState C p)"

section \<open>Overrides\<close>

type_synonym 'w model_override = "gval list \<Rightarrow> string \<Rightarrow> 'w \<Rightarrow> (gerr + string option) \<times> 'w"
type_synonym 'w tool_override = "string \<Rightarrow> gmap option \<Rightarrow> gval \<Rightarrow> 'w \<Rightarrow> (gerr + gval) \<times> 'w"
type_synonym 'w state_override = "gmap \<Rightarrow> 'w \<Rightarrow> (gerr + gmap option) \<times> 'w"

definition ReplayExactTools :: "'w tool_override" where
  "ReplayExactTools toolName args recordedResult w = (Inr recordedResult, w)"

definition ReplayLiveTools :: "'w tool_override" where
  "ReplayLiveTools toolName args recordedResult w = (Inr VNil, w)"

definition ReplaySubstituteModel :: "(string \<Rightarrow> 'w \<Rightarrow> string \<times> 'w) \<Rightarrow> 'w model_override" where
  "ReplaySubstituteModel fn messages recordedResponse w = (case fn recordedResponse w of (s, w1) \<Rightarrow> (Inr (Some s), w1))"

text \<open>The overrides when none is configured.\<close>

definition recorded_model :: "'w model_override" where
  "recorded_model messages content w = (Inr (Some content), w)"

definition recorded_tool :: "'w tool_override" where
  "recorded_tool toolName args result w = (Inr result, w)"

record 'w replay_config =
  rpStore :: "event_store option"
  rpTrace :: string
  rpStart :: clock
  rpEnd :: clock
  rpModel :: "'w model_override option"
  rpTool :: "'w tool_override option"
  rpState :: "'w state_override option"
  rpDiff :: bool

section \<open>Replay\<close>

fun apply_state :: "event_lib \<Rightarrow> codec \<Rightarrow> 'w state_override \<Rightarrow> event list \<Rightarrow> 'w \<Rightarrow> (gerr + event list) \<times> 'w" where
  "apply_state E C f [] w = (Inr [], w)"
| "apply_state E C f (ev # evs) w =
     (if eType ev = StateWrite then
        (let st = parse_state C ev in
         case f (fmupd (stChannel st) (stNewValue st) fmempty) w of
           (Inl err, w1) \<Rightarrow> (Inl err, w1)
         | (Inr None, w1) \<Rightarrow> (Inr (ev # evs), w1)
         | (Inr (Some modified), w1) \<Rightarrow> (case fmlookup modified (stChannel st) of
             None \<Rightarrow> (Inr (ev # evs), w1)
           | Some v \<Rightarrow> (Inr (Seal E (with_payload C (PayState (st\<lparr>stNewValue := v\<rparr>)) ev) # evs), w1)))
      else (case apply_state E C f evs w of
          (Inl err, w1) \<Rightarrow> (Inl err, w1)
        | (Inr evs1, w1) \<Rightarrow> (Inr (ev # evs1), w1)))"

definition replay_one :: "event_lib \<Rightarrow> codec \<Rightarrow> 'w model_override \<Rightarrow> 'w tool_override \<Rightarrow> event \<Rightarrow> 'w \<Rightarrow> (gerr + event) \<times> 'w" where
  "replay_one E C mo tool ev w =
     (if eType ev = LLMCallEnd then
        (let p = parse_llm C ev in
         case mo (lpMessages p) (lpContent p) w of
           (Inl err, w1) \<Rightarrow> (Inl err, w1)
         | (Inr None, w1) \<Rightarrow> (Inr ev, w1)
         | (Inr (Some s), w1) \<Rightarrow> (Inr (Seal E (with_payload C (PayLLM (p\<lparr>lpContent := s\<rparr>)) ev)), w1))
      else if eType ev = ToolCallResult then
        (let p = parse_tool C ev in
         case tool (tpToolName p) (tpArguments p) (tpResult p) w of
           (Inl err, w1) \<Rightarrow> (Inl err, w1)
         | (Inr v, w1) \<Rightarrow> (Inr (if v \<noteq> VNil then Seal E (with_payload C (PayTool (p\<lparr>tpResult := v\<rparr>)) ev) else ev), w1))
      else (Inr ev, w))"

fun replay_events :: "event_lib \<Rightarrow> codec \<Rightarrow> 'w model_override \<Rightarrow> 'w tool_override \<Rightarrow> event list \<Rightarrow> 'w \<Rightarrow> (gerr + event list) \<times> 'w" where
  "replay_events E C mo tool [] w = (Inr [], w)"
| "replay_events E C mo tool (ev # evs) w = (case replay_one E C mo tool ev w of
     (Inl err, w1) \<Rightarrow> (Inl err, w1)
   | (Inr ev1, w1) \<Rightarrow> (case replay_events E C mo tool evs w1 of
       (Inl err, w2) \<Rightarrow> (Inl err, w2)
     | (Inr evs1, w2) \<Rightarrow> (Inr (ev1 # evs1), w2)))"

datatype divergence_type = DivergenceMissing | DivergenceExtra | DivergenceMismatch

record divergence =
  dvClock :: clock
  dvOriginal :: "event option"
  dvReplay :: "event option"
  dvType :: divergence_type
  dvDescription :: string

fun diffEventLists :: "event list \<Rightarrow> event list \<Rightarrow> divergence list" where
  "diffEventLists [] [] = []"
| "diffEventLists [] (r # rs) = \<lparr>dvClock = eClock r, dvOriginal = None, dvReplay = Some r, dvType = DivergenceExtra,
     dvDescription = ''replay produced extra event''\<rparr> # diffEventLists [] rs"
| "diffEventLists (e # es) [] = \<lparr>dvClock = eClock e, dvOriginal = Some e, dvReplay = None, dvType = DivergenceMissing,
     dvDescription = ''original event missing in replay''\<rparr> # diffEventLists es []"
| "diffEventLists (e # es) (r # rs) =
     (if eType e \<noteq> eType r then [\<lparr>dvClock = eClock e, dvOriginal = Some e, dvReplay = Some r, dvType = DivergenceMismatch,
        dvDescription = ''event type mismatch''\<rparr>] else []) @
     (if eHash e \<noteq> eHash r then [\<lparr>dvClock = eClock e, dvOriginal = Some e, dvReplay = Some r, dvType = DivergenceMismatch,
        dvDescription = ''payload mismatch (hash differs)''\<rparr>] else []) @
     diffEventLists es rs"

record replay_result =
  rrEvents :: "event list"
  rrOriginalLen :: nat
  rrReplayLen :: nat
  rrDivergences :: "divergence list"
  rrTotal :: int
  rrDivergenceCount :: int
  rrMatchCount :: int

definition replay_filter :: "'w replay_config \<Rightarrow> event_filter" where
  "replay_filter cfg = no_filter\<lparr>fiTrace := rpTrace cfg, fiFromClock := rpStart cfg, fiToClock := rpEnd cfg\<rparr>"

text \<open>\<open>s\<close> is the store of the replay engine, \<open>out\<close> the output store if there is one. Appending in memory never fails.\<close>

definition replay_run ::
  "event_lib \<Rightarrow> codec \<Rightarrow> event_store \<Rightarrow> 'w replay_config \<Rightarrow> event_store option \<Rightarrow> 'w \<Rightarrow> (gerr + replay_result) \<times> event_store option \<times> 'w" where
  "replay_run E C s cfg out w =
     (let mo = (case rpModel cfg of None \<Rightarrow> recorded_model | Some f \<Rightarrow> f);
          tool = (case rpTool cfg of None \<Rightarrow> recorded_tool | Some f \<Rightarrow> f);
          store = (case rpStore cfg of None \<Rightarrow> s | Some s1 \<Rightarrow> s1);
          originals = es_Stream (replay_filter cfg) store
      in case (case rpState cfg of None \<Rightarrow> (Inr originals, w) | Some f \<Rightarrow> apply_state E C f originals w) of
        (Inl err, w1) \<Rightarrow> (Inl err, out, w1)
      | (Inr originals1, w1) \<Rightarrow> (case replay_events E C mo tool originals1 w1 of
          (Inl err, w2) \<Rightarrow> (Inl err, out, w2)
        | (Inr reps, w2) \<Rightarrow>
            (let divs = (if rpDiff cfg then diffEventLists originals1 reps else []);
                 res = \<lparr>rrEvents = [], rrOriginalLen = length originals, rrReplayLen = length reps, rrDivergences = divs,
                   rrTotal = int (length reps), rrDivergenceCount = int (length divs),
                   rrMatchCount = int (length reps) - int (length divs)\<rparr>
             in case out of
               None \<Rightarrow> (Inr res, None, w2)
             | Some so \<Rightarrow> (case es_Append E reps so of (reps1, so1) \<Rightarrow> (Inr (res\<lparr>rrEvents := reps1\<rparr>), Some so1, w2)))))"

section \<open>Events of a type\<close>

definition FindEventsOfType :: "event list \<Rightarrow> event_kind \<Rightarrow> event list" where
  "FindEventsOfType evts typ = filter (\<lambda>e. eType e = typ) evts"

definition EventsContains :: "event list \<Rightarrow> event_kind \<Rightarrow> bool" where
  "EventsContains evts typ \<longleftrightarrow> (\<exists>e \<in> set evts. eType e = typ)"

definition EventCount :: "event list \<Rightarrow> event_kind \<Rightarrow> nat" where
  "EventCount evts typ = foldl (\<lambda>n e. if eType e = typ then n + 1 else n) 0 evts"

section \<open>What a replay does\<close>

lemma replay_one_keeps:
  "replay_one E C mo tool ev w = (Inr ev1, w1) \<Longrightarrow> eID ev1 = eID ev \<and> eType ev1 = eType ev \<and> eClock ev1 = eClock ev \<and> eTrace ev1 = eTrace ev"
  by (auto simp: replay_one_def Let_def Seal_def with_payload_def split: if_splits sum.splits option.splits prod.splits)

lemma replay_events_keeps:
  "replay_events E C mo tool evs w = (Inr reps, w1) \<Longrightarrow>
   list_all2 (\<lambda>e r. eID r = eID e \<and> eType r = eType e \<and> eClock r = eClock e \<and> eTrace r = eTrace e) evs reps"
proof (induction evs arbitrary: w reps)
  case (Cons ev evs)
  then show ?case by (fastforce split: sum.splits prod.splits dest: replay_one_keeps)
qed simp

lemma apply_state_keeps: "apply_state E C f evs w = (Inr evs1, w1) \<Longrightarrow> length evs1 = length evs"
  by (induction evs arbitrary: evs1)
     (auto simp: Let_def split: if_splits sum.splits option.splits prod.splits)

lemma diff_hashes:
  "list_all2 (\<lambda>e r. eType r = eType e) es rs \<Longrightarrow>
   diffEventLists es rs = map (\<lambda>(e, r). \<lparr>dvClock = eClock e, dvOriginal = Some e, dvReplay = Some r, dvType = DivergenceMismatch,
        dvDescription = ''payload mismatch (hash differs)''\<rparr>) (filter (\<lambda>(e, r). eHash e \<noteq> eHash r) (zip es rs))"
  by (induction rule: list_all2_induct) auto

lemma replay_run_result:
  assumes "replay_run E C s cfg out w = (Inr res, out1, w2)"
  obtains originals1 reps w1 where
    "(case rpState cfg of None \<Rightarrow> (Inr (es_Stream (replay_filter cfg) (case rpStore cfg of None \<Rightarrow> s | Some s1 \<Rightarrow> s1)), w)
      | Some f \<Rightarrow> apply_state E C f (es_Stream (replay_filter cfg) (case rpStore cfg of None \<Rightarrow> s | Some s1 \<Rightarrow> s1)) w) = (Inr originals1, w1)"
    "replay_events E C (case rpModel cfg of None \<Rightarrow> recorded_model | Some f \<Rightarrow> f)
      (case rpTool cfg of None \<Rightarrow> recorded_tool | Some f \<Rightarrow> f) originals1 w1 = (Inr reps, w2)"
    "rrDivergences res = (if rpDiff cfg then diffEventLists originals1 reps else [])"
    "rrOriginalLen res = length (es_Stream (replay_filter cfg) (case rpStore cfg of None \<Rightarrow> s | Some s1 \<Rightarrow> s1))"
    "rrReplayLen res = length reps" "rrTotal res = int (length reps)"
    "rrDivergenceCount res = int (length (rrDivergences res))" "rrMatchCount res = int (length reps) - int (length (rrDivergences res))"
    "case out of None \<Rightarrow> out1 = None \<and> rrEvents res = []
       | Some so \<Rightarrow> (case es_Append E reps so of (reps1, so1) \<Rightarrow> out1 = Some so1 \<and> rrEvents res = reps1)"
  using assms unfolding replay_run_def Let_def
  by (cases out) (force split: sum.splits prod.splits)+

text \<open>A replay that does not fail has as many events as the original trace; every divergence is a hash that
  differs, there is at most one for each event, and matches and divergences add up to the events.\<close>

theorem replay_accounts:
  assumes "replay_run E C s cfg out w = (Inr res, out1, w1)"
  shows "rrReplayLen res = rrOriginalLen res \<and> rrTotal res = int (rrReplayLen res) \<and>
    rrMatchCount res + rrDivergenceCount res = rrTotal res \<and> 0 \<le> rrMatchCount res \<and>
    (\<forall>d \<in> set (rrDivergences res). dvType d = DivergenceMismatch \<and>
      (\<exists>e r. dvOriginal d = Some e \<and> dvReplay d = Some r \<and> eType r = eType e \<and> eHash r \<noteq> eHash e))"
proof -
  from assms obtain originals1 reps w2 where
    o: "(case rpState cfg of None \<Rightarrow> (Inr (es_Stream (replay_filter cfg) (case rpStore cfg of None \<Rightarrow> s | Some s1 \<Rightarrow> s1)), w)
      | Some f \<Rightarrow> apply_state E C f (es_Stream (replay_filter cfg) (case rpStore cfg of None \<Rightarrow> s | Some s1 \<Rightarrow> s1)) w) = (Inr originals1, w2)"
    and r: "replay_events E C (case rpModel cfg of None \<Rightarrow> recorded_model | Some f \<Rightarrow> f)
      (case rpTool cfg of None \<Rightarrow> recorded_tool | Some f \<Rightarrow> f) originals1 w2 = (Inr reps, w1)"
    and d: "rrDivergences res = (if rpDiff cfg then diffEventLists originals1 reps else [])"
    and m: "rrOriginalLen res = length (es_Stream (replay_filter cfg) (case rpStore cfg of None \<Rightarrow> s | Some s1 \<Rightarrow> s1))"
      "rrReplayLen res = length reps" "rrTotal res = int (length reps)"
      "rrDivergenceCount res = int (length (rrDivergences res))" "rrMatchCount res = int (length reps) - int (length (rrDivergences res))"
    by (rule replay_run_result)
  have k: "list_all2 (\<lambda>e r. eType r = eType e) originals1 reps"
    using replay_events_keeps[OF r] by (rule list_all2_mono) simp
  note dv = diff_hashes[OF k]
  have len: "length originals1 = length reps" using k by (rule list_all2_lengthD)
  have "length (diffEventLists originals1 reps) \<le> length reps"
    unfolding dv using length_filter_le[of _ "zip originals1 reps"] by (simp add: len le_trans)
  moreover have "length originals1 = rrOriginalLen res" using o m(1) by (cases "rpState cfg") (auto dest: apply_state_keeps)
  moreover have "\<forall>x \<in> set (diffEventLists originals1 reps). dvType x = DivergenceMismatch \<and>
      (\<exists>e r. dvOriginal x = Some e \<and> dvReplay x = Some r \<and> eType r = eType e \<and> eHash r \<noteq> eHash e)"
    unfolding dv using k by (auto simp: set_zip list_all2_conv_all_nth)
  ultimately show ?thesis using d m len by auto
qed

section \<open>Exact replay\<close>

text \<open>What the default overrides make of a payload.\<close>

definition re_encoded :: "codec \<Rightarrow> event \<Rightarrow> string option" where
  "re_encoded C e = (if eType e = LLMCallEnd then cdEncode C (PayLLM (parse_llm C e))
     else if eType e = ToolCallResult \<and> tpResult (parse_tool C e) \<noteq> VNil then cdEncode C (PayTool (parse_tool C e)) else ePayload e)"

text \<open>An event with the hash of what it holds.\<close>

definition sealed :: "event_lib \<Rightarrow> event \<Rightarrow> bool" where
  "sealed E e \<longleftrightarrow> eHash e = computeHash E e"

lemma sealed_Seal: "sealed E e \<Longrightarrow> Seal E e = e"
  by (simp add: sealed_def Seal_def)

lemma replay_one_exact:
  assumes "sealed E e" "re_encoded C e = ePayload e"
  shows "replay_one E C recorded_model recorded_tool e w = (Inr e, w)"
proof -
  have [simp]: "e\<lparr>ePayload := ePayload e\<rparr> = e" by simp
  show ?thesis
    using assms by (auto simp: replay_one_def Let_def recorded_model_def recorded_tool_def re_encoded_def with_payload_def sealed_Seal)
qed

lemma replay_events_exact:
  "(\<And>e. e \<in> set evs \<Longrightarrow> sealed E e \<and> re_encoded C e = ePayload e) \<Longrightarrow>
   replay_events E C recorded_model recorded_tool evs w = (Inr evs, w)"
  by (induction evs) (simp_all add: replay_one_exact)

lemma append_sealed:
  assumes "\<And>e. e \<in> set evs \<Longrightarrow> sealed E e \<and> eClock e \<noteq> 0"
  shows "fst (es_Append E evs s) = evs \<and> esLog (snd (es_Append E evs s)) = esLog s @ evs"
  using assms
proof (induction evs arbitrary: s)
  case (Cons e evs)
  obtain e1 s1 where a: "append_one E e s = (e1, s1)" by (meson surj_pair)
  have "e1 = e" using append_one_facts(5)[OF a] Cons.prems[of e] sealed_Seal by auto
  moreover obtain evs2 s2 where r: "es_Append E evs s1 = (evs2, s2)" by (meson surj_pair)
  ultimately show ?case using Cons.IH[of s1] Cons.prems append_one_facts(1)[OF a] by (auto simp: a)
qed simp

lemma recorded_sealed:
  assumes "(records E C)\<^sup>*\<^sup>* (NewEventRecorder traceID threadID, NewMemoryEventStore) (r, s)" "length (esLog s) < 2 ^ 64"
    and "e \<in> set (esLog s)"
  shows "sealed E e \<and> eClock e \<noteq> 0 \<and> eTrace e = traceID"
proof -
  obtain i where i: "i < length (esLog s)" "e = esLog s ! i" using assms(3) by (auto simp: in_set_conv_nth)
  have "recorded E (r, s) \<and> rcTrace r = traceID"
    using all_recorded[OF assms(1) recorded_new] by (simp add: NewEventRecorder_def)
  then have ra: "recorded_at E r s i e" "rcTrace r = traceID" using i assms(2) by (simp_all add: recorded_def)
  have "unat (of_nat (i + 1) :: clock) = i + 1" using unat_small[of "i + 1"] i(1) assms(2) by simp
  then have "(of_nat (i + 1) :: clock) \<noteq> 0" by (metis add_is_0 one_neq_zero unat_0)
  then show ?thesis using ra by (simp add: recorded_at_def sealed_def)
qed

lemma exact_replay_run:
  assumes "(records E C)\<^sup>*\<^sup>* (NewEventRecorder traceID threadID, NewMemoryEventStore) (r, s)" "length (esLog s) < 2 ^ 64"
    and "\<forall>e \<in> set (esLog s). re_encoded C e = ePayload e"
    and "rpStore cfg = None" "rpModel cfg = None" "rpTool cfg = None" "rpState cfg = None"
  shows "\<exists>res so. replay_run E C s cfg (Some NewMemoryEventStore) w = (Inr res, Some so, w) \<and>
    rrEvents res = es_Stream (replay_filter cfg) s \<and> esLog so = es_Stream (replay_filter cfg) s \<and>
    rrDivergences res = [] \<and> rrMatchCount res = rrTotal res"
proof -
  let ?es = "es_Stream (replay_filter cfg) s"
  have e: "sealed E e \<and> eClock e \<noteq> 0 \<and> re_encoded C e = ePayload e" if "e \<in> set ?es" for e
    using recorded_sealed[OF assms(1,2), of e] assms(3) that by (auto simp: es_Stream_def)
  have "replay_events E C recorded_model recorded_tool ?es w = (Inr ?es, w)" using e by (intro replay_events_exact) blast
  moreover have "diffEventLists ?es ?es = []"
    using diff_hashes[of ?es ?es] by (auto simp: list_all2_same filter_empty_conv set_zip)
  moreover have "fst (es_Append E ?es NewMemoryEventStore) = ?es \<and> esLog (snd (es_Append E ?es NewMemoryEventStore)) = ?es"
    using append_sealed[of ?es E NewMemoryEventStore] e by (simp add: NewMemoryEventStore_def)
  ultimately show ?thesis using assms(4-7) by (auto simp: replay_run_def Let_def split: prod.splits)
qed


section \<open>Overrides\<close>

text \<open>A trace as replayed under a model that answers \<open>g\<close>.\<close>

definition with_model :: "event_lib \<Rightarrow> codec \<Rightarrow> (gval list \<Rightarrow> string \<Rightarrow> string) \<Rightarrow> event \<Rightarrow> event" where
  "with_model E C g e = (if eType e = LLMCallEnd
     then Seal E (with_payload C (PayLLM (parse_llm C e\<lparr>lpContent := g (lpMessages (parse_llm C e)) (lpContent (parse_llm C e))\<rparr>)) e)
     else e)"

lemma replay_events_model:
  "(\<And>e. e \<in> set evs \<Longrightarrow> eType e = ToolCallResult \<Longrightarrow> sealed E e \<and> re_encoded C e = ePayload e) \<Longrightarrow>
   replay_events E C (\<lambda>ms c w. (Inr (Some (g ms c)), w)) recorded_tool evs w = (Inr (map (with_model E C g) evs), w)"
proof (induction evs)
  case (Cons e evs)
  have "replay_one E C (\<lambda>ms c w. (Inr (Some (g ms c)), w)) recorded_tool e w = (Inr (with_model E C g e), w)"
  proof (cases "eType e = ToolCallResult")
    case True
    then show ?thesis using Cons.prems[of e] replay_one_exact[of E e C w]
      by (simp add: replay_one_def with_model_def)
  next
    case False
    then show ?thesis by (simp add: replay_one_def with_model_def Let_def)
  qed
  then show ?case using Cons by simp
qed simp

text \<open>Replacing the model replaces the content of the model's answers and nothing else: tool results, states
  and the order of events are those of the original, and the divergences are the answers whose hash changed.\<close>

theorem model_override_replay:
  assumes "(records E C)\<^sup>*\<^sup>* (NewEventRecorder traceID threadID, NewMemoryEventStore) (r, s)" "length (esLog s) < 2 ^ 64"
    and "\<forall>e \<in> set (esLog s). eType e = ToolCallResult \<longrightarrow> re_encoded C e = ePayload e"
    and "rpStore cfg = None" "rpModel cfg = Some (\<lambda>ms c w. (Inr (Some (g ms c)), w))" "rpTool cfg = None" "rpState cfg = None" "rpDiff cfg"
  shows "\<exists>res so. replay_run E C s cfg (Some NewMemoryEventStore) w = (Inr res, Some so, w) \<and>
    rrEvents res = map (with_model E C g) (es_Stream (replay_filter cfg) s) \<and> esLog so = rrEvents res \<and>
    map dvOriginal (rrDivergences res) = map Some (filter (\<lambda>e. eType e = LLMCallEnd \<and> eHash (with_model E C g e) \<noteq> eHash e)
      (es_Stream (replay_filter cfg) s))"
proof -
  let ?es = "es_Stream (replay_filter cfg) s" and ?m = "with_model E C g"
  have e: "sealed E e \<and> eClock e \<noteq> 0 \<and> (eType e = ToolCallResult \<longrightarrow> re_encoded C e = ePayload e)" if "e \<in> set ?es" for e
    using recorded_sealed[OF assms(1,2), of e] assms(3) that by (auto simp: es_Stream_def)
  then have rep: "replay_events E C (\<lambda>ms c w. (Inr (Some (g ms c)), w)) recorded_tool ?es w = (Inr (map ?m ?es), w)"
    by (intro replay_events_model) blast
  have t: "eType (?m x) = eType x" for x by (simp add: with_model_def Seal_def with_payload_def)
  have same: "eHash x \<noteq> eHash (?m x) \<Longrightarrow> eType x = LLMCallEnd" for x by (auto simp: with_model_def split: if_splits)
  have d: "map dvOriginal (diffEventLists es (map ?m es)) = map Some (filter (\<lambda>e. eType e = LLMCallEnd \<and> eHash (?m e) \<noteq> eHash e) es)" for es
    by (induction es) (auto simp: t dest: same)
  have "sealed E (?m x) \<and> eClock (?m x) \<noteq> 0" if "x \<in> set ?es" for x
    using e[OF that] by (auto simp: with_model_def sealed_def Seal_def with_payload_def computeHash_def)
  then have "fst (es_Append E (map ?m ?es) NewMemoryEventStore) = map ?m ?es \<and>
     esLog (snd (es_Append E (map ?m ?es) NewMemoryEventStore)) = map ?m ?es"
    using append_sealed[of "map ?m ?es" E NewMemoryEventStore] by (auto simp: NewMemoryEventStore_def)
  then show ?thesis using rep d assms(4-8) by (auto simp: replay_run_def Let_def split: prod.splits)
qed

lemma live_tools_keep:
  "replay_events E C mo ReplayLiveTools evs w = (Inr reps, w1) \<Longrightarrow> list_all2 (\<lambda>e r. eType r = eType e \<and> (eType e = ToolCallResult \<longrightarrow> r = e)) evs reps"
proof (induction evs arbitrary: w reps)
  case (Cons e evs)
  obtain r w2 rs where r: "replay_one E C mo ReplayLiveTools e w = (Inr r, w2)" "replay_events E C mo ReplayLiveTools evs w2 = (Inr rs, w1)" "reps = r # rs"
    using Cons.prems by (auto split: sum.splits prod.splits)
  have "eType e = ToolCallResult \<longrightarrow> r = e" using r(1) by (auto simp: replay_one_def ReplayLiveTools_def Let_def)
  then show ?case using Cons.IH[OF r(2)] replay_one_keeps[OF r(1)] r(3) by simp
qed simp

text \<open>The override for live tools runs no tool: the replay keeps every recorded tool result, so that no
  divergence ever concerns one.\<close>

theorem live_tools_recorded:
  assumes "replay_run E C s cfg out w = (Inr res, out1, w1)" "rpTool cfg = Some ReplayLiveTools" "d \<in> set (rrDivergences res)"
  shows "\<exists>e. dvOriginal d = Some e \<and> eType e \<noteq> ToolCallResult"
proof -
  from assms(1) obtain originals1 reps w2 where
    r: "replay_events E C (case rpModel cfg of None \<Rightarrow> recorded_model | Some f \<Rightarrow> f)
      (case rpTool cfg of None \<Rightarrow> recorded_tool | Some f \<Rightarrow> f) originals1 w2 = (Inr reps, w1)"
    and d: "rrDivergences res = (if rpDiff cfg then diffEventLists originals1 reps else [])"
    by (rule replay_run_result)
  have k: "list_all2 (\<lambda>e r. eType r = eType e \<and> (eType e = ToolCallResult \<longrightarrow> r = e)) originals1 reps"
    using live_tools_keep r assms(2) by fastforce
  then have "list_all2 (\<lambda>e r. eType r = eType e) originals1 reps" by (rule list_all2_mono) simp
  from diff_hashes[OF this] d assms(3) k show ?thesis
    by (auto simp: set_zip list_all2_conv_all_nth split: if_splits)
qed

lemma apply_state_exact:
  "apply_state E C f evs w = (Inr evs1, w1) \<Longrightarrow> \<forall>e \<in> set evs. sealed E e \<and> re_encoded C e = ePayload e \<Longrightarrow>
   \<forall>e \<in> set evs1. sealed E e \<and> re_encoded C e = ePayload e"
proof (induction evs arbitrary: evs1)
  case (Cons e evs)
  have "sealed E (Seal E (with_payload C p e)) \<and> re_encoded C (Seal E (with_payload C p e)) = ePayload (Seal E (with_payload C p e))"
    if "eType e = StateWrite" for p
    using that by (simp add: sealed_def Seal_def computeHash_def re_encoded_def with_payload_def)
  then show ?case using Cons by (auto simp: Let_def split: if_splits sum.splits option.splits prod.splits)
qed simp

text \<open>An override of the initial state changes the list that is compared with as well: whatever state it gives,
  no divergence is reported.\<close>

theorem state_override_unseen:
  assumes "(records E C)\<^sup>*\<^sup>* (NewEventRecorder traceID threadID, NewMemoryEventStore) (r, s)" "length (esLog s) < 2 ^ 64"
    and "\<forall>e \<in> set (esLog s). re_encoded C e = ePayload e"
    and "rpStore cfg = None" "rpModel cfg = None" "rpTool cfg = None" "rpState cfg = Some f"
    and "replay_run E C s cfg out w = (Inr res, out1, w1)"
  shows "rrDivergences res = []"
proof -
  from assms(8) obtain originals1 reps w2 where
    o: "(case rpState cfg of None \<Rightarrow> (Inr (es_Stream (replay_filter cfg) (case rpStore cfg of None \<Rightarrow> s | Some s1 \<Rightarrow> s1)), w)
      | Some f \<Rightarrow> apply_state E C f (es_Stream (replay_filter cfg) (case rpStore cfg of None \<Rightarrow> s | Some s1 \<Rightarrow> s1)) w) = (Inr originals1, w2)"
    and r: "replay_events E C (case rpModel cfg of None \<Rightarrow> recorded_model | Some f \<Rightarrow> f)
      (case rpTool cfg of None \<Rightarrow> recorded_tool | Some f \<Rightarrow> f) originals1 w2 = (Inr reps, w1)"
    and d: "rrDivergences res = (if rpDiff cfg then diffEventLists originals1 reps else [])"
    by (rule replay_run_result)
  have "\<forall>e \<in> set (es_Stream (replay_filter cfg) s). sealed E e \<and> re_encoded C e = ePayload e"
    using recorded_sealed[OF assms(1,2)] assms(3) by (auto simp: es_Stream_def)
  then have "\<forall>e \<in> set originals1. sealed E e \<and> re_encoded C e = ePayload e"
    using apply_state_exact[OF o[unfolded assms(4,7), simplified]] by blast
  then have "reps = originals1" using replay_events_exact[of originals1 E C w2] r assms(5,6) by auto
  then show ?thesis using d diff_hashes[of originals1 originals1] by (auto simp: list_all2_same filter_empty_conv set_zip)
qed

section \<open>A recorded model call\<close>

definition text_codec :: codec where
  "text_codec = \<lparr>cdEncode = (\<lambda>p. case p of PayTool t \<Rightarrow> Some (tpToolName t) | PayLLM l \<Rightarrow> Some (lpContent l) | PayState st \<Rightarrow> Some (stChannel st) | _ \<Rightarrow> None),
     cdTool = (\<lambda>s. zero_tool\<lparr>tpToolName := s\<rparr>), cdLLM = (\<lambda>s. zero_llm\<lparr>lpContent := s\<rparr>), cdState = (\<lambda>s. zero_state\<lparr>stChannel := s\<rparr>),
     cdReadsTool = (\<lambda>s. True), cdReadsLLM = (\<lambda>s. True)\<rparr>"

definition demo_trace :: "recorder \<times> event_store" where
  "demo_trace = RecordStateWrite demo_events text_codec 3 ''x'' VNil (VInt 1) [] (RecordModelCall demo_events text_codec 1 2 ''m'' ''p'' [] ''hello''
     \<lparr>tuPrompt = 0, tuCompletion = 0, tuTotal = 0\<rparr> 3 0 (NewEventRecorder ''t'' ''th'', NewMemoryEventStore))"

definition demo_replay :: "nat replay_config" where
  "demo_replay = \<lparr>rpStore = None, rpTrace = ''t'', rpStart = 0, rpEnd = 0, rpModel = None, rpTool = None, rpState = None, rpDiff = True\<rparr>"

lemma demo_trace_recorded:
  "(records demo_events text_codec)\<^sup>*\<^sup>* (NewEventRecorder ''t'' ''th'', NewMemoryEventStore) (fst demo_trace, snd demo_trace)"
  unfolding prod.collapse demo_trace_def by (rule converse_rtranclp_into_rtranclp[OF _ r_into_rtranclp]; rule records.intros)

lemma demo_trace_log:
  "map eType (esLog (snd demo_trace)) = [LLMCallStart, LLMCallEnd, StateWrite] \<and>
   map ePayload (esLog (snd demo_trace)) = [None, Some ''hello'', Some ''x''] \<and> map eTrace (esLog (snd demo_trace)) = [''t'', ''t'', ''t'']"
  by (simp add: demo_trace_def RecordModelCall_def RecordStateWrite_def record_event_def NewEventRecorder_def NewMemoryEventStore_def Let_def
      append_one_def Tick_def NewEvent_def Seal_def with_meta_def with_payload_def text_codec_def)

lemma demo_trace_facts:
  "length (esLog (snd demo_trace)) < 2 ^ 64" "\<forall>e \<in> set (esLog (snd demo_trace)). re_encoded text_codec e = ePayload e"
  "es_Stream (replay_filter (demo_replay\<lparr>rpModel := mo, rpTool := tv, rpState := st\<rparr>)) (snd demo_trace) = esLog (snd demo_trace)"
proof -
  obtain a b c where l: "esLog (snd demo_trace) = [a, b, c]" using demo_trace_log by (auto simp: map_eq_Cons_conv)
  show "length (esLog (snd demo_trace)) < 2 ^ 64" by (simp add: l)
  show "\<forall>e \<in> set (esLog (snd demo_trace)). re_encoded text_codec e = ePayload e"
    using demo_trace_log by (simp add: l re_encoded_def parse_llm_def text_codec_def)
  show "es_Stream (replay_filter (demo_replay\<lparr>rpModel := mo, rpTool := tv, rpState := st\<rparr>)) (snd demo_trace) = esLog (snd demo_trace)"
    using demo_trace_log by (simp add: l es_Stream_def replay_filter_def Matches_def no_filter_def demo_replay_def)
qed


lemma model_override_replay_witness:
  "\<exists>res. fst (replay_run demo_events text_codec (snd demo_trace) (demo_replay\<lparr>rpModel := Some (\<lambda>ms c w. (Inr (Some ''bye''), w))\<rparr>)
     (Some NewMemoryEventStore) 0) = Inr res \<and> map ePayload (rrEvents res) = [None, Some ''bye'', Some ''x'']"
proof -
  let ?cfg = "demo_replay\<lparr>rpModel := Some (\<lambda>ms c w. (Inr (Some ''bye''), w))\<rparr>"
  obtain a b c where l: "esLog (snd demo_trace) = [a, b, c]" using demo_trace_log by (auto simp: map_eq_Cons_conv)
  have st: "es_Stream (replay_filter ?cfg) (snd demo_trace) = [a, b, c]"
    using demo_trace_facts(3)[where mo = "Some (\<lambda>ms c w. (Inr (Some ''bye''), w))" and tv = None and st = None] l by (simp add: demo_replay_def)
  have "\<exists>res so. replay_run demo_events text_codec (snd demo_trace) ?cfg (Some NewMemoryEventStore) 0 = (Inr res, Some so, 0) \<and>
    rrEvents res = map (with_model demo_events text_codec (\<lambda>ms c. ''bye'')) (es_Stream (replay_filter ?cfg) (snd demo_trace))"
    using model_override_replay[OF demo_trace_recorded demo_trace_facts(1), where cfg = ?cfg and g = "\<lambda>ms c. ''bye''" and w = 0] demo_trace_facts(2)
    by (auto simp: demo_replay_def)
  then show ?thesis using demo_trace_log by (auto simp: st l with_model_def Seal_def with_payload_def text_codec_def)
qed

lemma replay_accounts_witness:
  "\<exists>res. fst (replay_run demo_events text_codec (snd demo_trace) demo_replay (Some NewMemoryEventStore) 0) = Inr res \<and>
    rrReplayLen res = rrOriginalLen res \<and> 0 \<le> rrMatchCount res"
proof -
  obtain res so where "replay_run demo_events text_codec (snd demo_trace) demo_replay (Some NewMemoryEventStore) 0 = (Inr res, Some so, 0)"
    using exact_replay_run[OF demo_trace_recorded demo_trace_facts(1,2), of demo_replay 0] by (auto simp: demo_replay_def)
  with replay_accounts[OF this] show ?thesis by simp
qed

lemma demo_trace_events:
  obtains a b c where "esLog (snd demo_trace) = [a, b, c]" "eType a = LLMCallStart" "eType b = LLMCallEnd" "eType c = StateWrite"
    "ePayload b = Some ''hello''" "ePayload c = Some ''x''" "eHash b = ''hello''"
proof -
  obtain a b c where l: "esLog (snd demo_trace) = [a, b, c]" using demo_trace_log by (auto simp: map_eq_Cons_conv)
  have "eHash (esLog (snd demo_trace) ! 1) = ''hello''"
    by (simp add: demo_trace_def RecordModelCall_def RecordStateWrite_def record_event_def NewEventRecorder_def NewMemoryEventStore_def Let_def
      append_one_def Tick_def NewEvent_def Seal_def with_meta_def with_payload_def text_codec_def computeHash_def demo_events_def demo_lib_def)
  then show ?thesis using that demo_trace_log l by simp
qed

lemma live_tools_recorded_witness:
  "\<exists>res d. fst (replay_run demo_events text_codec (snd demo_trace)
     (demo_replay\<lparr>rpModel := Some (\<lambda>ms c w. (Inr (Some ''bye''), w)), rpTool := Some ReplayLiveTools\<rparr>) None 0) = Inr res \<and>
     rrDivergences res = [d] \<and> (\<exists>e. dvOriginal d = Some e \<and> eType e \<noteq> ToolCallResult)"
proof -
  let ?cfg = "demo_replay\<lparr>rpModel := Some (\<lambda>ms c w. (Inr (Some ''bye''), w)), rpTool := Some ReplayLiveTools\<rparr>"
  obtain a b c where l: "esLog (snd demo_trace) = [a, b, c]" "eType a = LLMCallStart" "eType b = LLMCallEnd" "eType c = StateWrite"
    "ePayload b = Some ''hello''" "ePayload c = Some ''x''" "eHash b = ''hello''"
    by (rule demo_trace_events)
  have st: "es_Stream (replay_filter ?cfg) (snd demo_trace) = [a, b, c]"
    using demo_trace_facts(3)[where mo = "Some (\<lambda>ms c w. (Inr (Some ''bye''), w))" and tv = "Some ReplayLiveTools" and st = None] l(1)
    by (simp add: demo_replay_def)
  have h: "eHash (Seal demo_events (with_payload text_codec (PayLLM (p\<lparr>lpContent := ''bye''\<rparr>)) b)) \<noteq> ''hello''" for p
    by (simp add: Seal_def with_payload_def text_codec_def computeHash_def demo_events_def)
  have t: "eType (Seal demo_events (with_payload text_codec p b)) = LLMCallEnd" for p using l(3) by (simp add: Seal_def with_payload_def)
  obtain res d where r: "replay_run demo_events text_codec (snd demo_trace) ?cfg None 0 = (Inr res, None, 0)" "rrDivergences res = [d]"
    using st h h[symmetric] t l by (auto simp: replay_run_def Let_def replay_one_def demo_replay_def)
  with live_tools_recorded[OF r(1)] show ?thesis by (auto simp: demo_replay_def)
qed

lemma state_override_unseen_witness:
  "\<exists>res. fst (replay_run demo_events text_codec (snd demo_trace)
     (demo_replay\<lparr>rpState := Some (\<lambda>m w. (Inr (Some (fmupd ''x'' (VInt 9) m)), w))\<rparr>) None 0) = Inr res \<and> rrDivergences res = []"
proof -
  let ?f = "\<lambda>m w :: nat. (Inr (Some (fmupd ''x'' (VInt 9) m)) :: gerr + gmap option, w)"
  let ?cfg = "demo_replay\<lparr>rpState := Some ?f\<rparr>"
  obtain a b c where l: "esLog (snd demo_trace) = [a, b, c]" "eType a = LLMCallStart" "eType b = LLMCallEnd" "eType c = StateWrite"
    "ePayload b = Some ''hello''" "ePayload c = Some ''x''" "eHash b = ''hello''"
    by (rule demo_trace_events)
  have st: "es_Stream (replay_filter ?cfg) (snd demo_trace) = [a, b, c]"
    using demo_trace_facts(3)[where mo = None and tv = None and st = "Some ?f"] l(1) by (simp add: demo_replay_def)
  obtain res where r: "replay_run demo_events text_codec (snd demo_trace) ?cfg None 0 = (Inr res, None, 0)"
    using st l by (auto simp: replay_run_def Let_def replay_one_def demo_replay_def recorded_model_def Seal_def with_payload_def
      parse_state_def text_codec_def zero_state_def)
  have "rrDivergences res = []"
    by (rule state_override_unseen[OF demo_trace_recorded demo_trace_facts(1,2) _ _ _ _ r]) (simp_all add: demo_replay_def)
  with r show ?thesis by simp
qed

section \<open>Comparing two traces\<close>

primrec kind_text :: "event_kind \<Rightarrow> string" where
  "kind_text GraphStart = ''graph.start''"
| "kind_text GraphEnd = ''graph.end''"
| "kind_text StepStart = ''step.start''"
| "kind_text StepEnd = ''step.end''"
| "kind_text NodeStart = ''node.start''"
| "kind_text NodeEnd = ''node.end''"
| "kind_text StateRead = ''state.read''"
| "kind_text StateWrite = ''state.write''"
| "kind_text ToolCallStart = ''tool.call.start''"
| "kind_text ToolCallResult = ''tool.call.result''"
| "kind_text ToolCallError = ''tool.call.error''"
| "kind_text LLMCallStart = ''llm.call.start''"
| "kind_text LLMCallChunk = ''llm.call.chunk''"
| "kind_text LLMCallEnd = ''llm.call.end''"
| "kind_text MemoryRead = ''memory.read''"
| "kind_text MemoryWrite = ''memory.write''"
| "kind_text ApprovalRequest = ''approval.request''"
| "kind_text ApprovalGranted = ''approval.granted''"
| "kind_text ApprovalDenied = ''approval.denied''"
| "kind_text CheckpointCreated = ''checkpoint.created''"
| "kind_text CheckpointRestored = ''checkpoint.restored''"
| "kind_text InterruptEvent = ''interrupt''"
| "kind_text ResumeEvent = ''resume''"
| "kind_text ErrorEvent = ''error''"
| "kind_text RetryEvent = ''retry''"
| "kind_text ForkEvent = ''fork''"
| "kind_text SubAgentCallStart = ''subagent.call.start''"
| "kind_text SubAgentCallEnd = ''subagent.call.end''"
| "kind_text SessionValueSet = ''session.value.set''"
| "kind_text SessionTransfer = ''session.transfer''"
| "kind_text (OtherEvent s) = s"

record event_mismatch =
  mmClock :: clock
  mmLeft :: event
  mmRight :: event
  mmField :: string
  mmLeftValue :: string
  mmRightValue :: string

record state_diff =
  sdClock :: clock
  sdKey :: string

record tool_call_diff =
  tdIndex :: nat
  tdToolName :: string

record llm_response_diff =
  ldIndex :: nat
  ldLeft :: string
  ldRight :: string

record diff_result =
  dfLeftTrace :: string
  dfRightTrace :: string
  dfMissingInRight :: "event list"
  dfMissingInLeft :: "event list"
  dfMismatched :: "event_mismatch list"
  dfState :: "(string, state_diff) fmap"
  dfTool :: "tool_call_diff list"
  dfLLM :: "llm_response_diff list"

definition extractContent :: "codec \<Rightarrow> event \<Rightarrow> string" where
  "extractContent C ev = (case ePayload ev of None \<Rightarrow> []
   | Some p \<Rightarrow> if \<not> cdReadsLLM C p then [] else lpContent (cdLLM C p))"

definition extractToolName :: "codec \<Rightarrow> event \<Rightarrow> string" where
  "extractToolName C ev = (case ePayload ev of None \<Rightarrow> []
   | Some p \<Rightarrow> if \<not> cdReadsTool C p then [] else tpToolName (cdTool C p))"

definition readAllEvents :: "event_store \<Rightarrow> string \<Rightarrow> event list" where
  "readAllEvents s traceID = es_Stream (no_filter\<lparr>fiTrace := traceID\<rparr>) s"

definition by_clock :: "event list \<Rightarrow> (clock, event) fmap" where
  "by_clock evs = foldl (\<lambda>m e. fmupd (eClock e) e m) fmempty evs"

definition mismatches :: "clock \<Rightarrow> event \<Rightarrow> event \<Rightarrow> event_mismatch list" where
  "mismatches c l r =
     (if eType l \<noteq> eType r then [\<lparr>mmClock = c, mmLeft = l, mmRight = r, mmField = ''type'',
        mmLeftValue = kind_text (eType l), mmRightValue = kind_text (eType r)\<rparr>] else []) @
     (if eHash l \<noteq> eHash r then [\<lparr>mmClock = c, mmLeft = l, mmRight = r, mmField = ''payload'',
        mmLeftValue = take 16 (eHash l), mmRightValue = take 16 (eHash r)\<rparr>] else [])"

text \<open>One clock; \<open>None\<close>: hashes that differ are cut to 16 bytes, which panics when one is shorter.\<close>

definition diff_clock :: "codec \<Rightarrow> (clock, event) fmap \<Rightarrow> (clock, event) fmap \<Rightarrow> clock \<Rightarrow> diff_result \<Rightarrow> diff_result option" where
  "diff_clock C lm rm c d = (case (fmlookup lm c, fmlookup rm c) of
     (Some l, None) \<Rightarrow> Some (d\<lparr>dfMissingInRight := dfMissingInRight d @ [l]\<rparr>)
   | (None, Some r) \<Rightarrow> Some (d\<lparr>dfMissingInLeft := dfMissingInLeft d @ [r]\<rparr>)
   | (None, None) \<Rightarrow> Some d
   | (Some l, Some r) \<Rightarrow>
       if eHash l \<noteq> eHash r \<and> (length (eHash l) < 16 \<or> length (eHash r) < 16) then None
       else let d1 = d\<lparr>dfMismatched := dfMismatched d @ mismatches c l r\<rparr> in
         Some (if eType l = LLMCallEnd then d1\<lparr>dfLLM := dfLLM d1 @
               [\<lparr>ldIndex = length (dfLLM d1), ldLeft = extractContent C l, ldRight = extractContent C r\<rparr>]\<rparr>
           else if eType l = ToolCallResult then d1\<lparr>dfTool := dfTool d1 @
               [\<lparr>tdIndex = length (dfTool d1), tdToolName = extractToolName C l\<rparr>]\<rparr>
           else if eType l = StateWrite \<and> eNode l \<noteq> [] then
             d1\<lparr>dfState := fmupd (eNode l) \<lparr>sdClock = c, sdKey = eNode l\<rparr> (dfState d1)\<rparr>
           else d1))"

fun diff_clocks :: "codec \<Rightarrow> (clock, event) fmap \<Rightarrow> (clock, event) fmap \<Rightarrow> clock list \<Rightarrow> diff_result \<Rightarrow> diff_result option" where
  "diff_clocks C lm rm [] d = Some d"
| "diff_clocks C lm rm (c # cs) d = (case diff_clock C lm rm c d of None \<Rightarrow> None | Some d1 \<Rightarrow> diff_clocks C lm rm cs d1)"

definition new_diff :: "string \<Rightarrow> string \<Rightarrow> diff_result" where
  "new_diff lt rt = \<lparr>dfLeftTrace = lt, dfRightTrace = rt, dfMissingInRight = [], dfMissingInLeft = [], dfMismatched = [],
     dfState = fmempty, dfTool = [], dfLLM = []\<rparr>"

text \<open>\<open>order\<close> is the order in which the map of all clocks is visited.\<close>

definition trace_diff :: "codec \<Rightarrow> clock list \<Rightarrow> event_store \<Rightarrow> event_store \<Rightarrow> string \<Rightarrow> string \<Rightarrow> diff_result option" where
  "trace_diff C order left right lt rt =
     diff_clocks C (by_clock (readAllEvents left lt)) (by_clock (readAllEvents right rt)) order (new_diff lt rt)"

definition all_clocks :: "event list \<Rightarrow> event list \<Rightarrow> clock list \<Rightarrow> bool" where
  "all_clocks ls rs order \<longleftrightarrow> distinct order \<and> set order = eClock ` set ls \<union> eClock ` set rs"

lemma by_clock_snoc: "by_clock (evs @ [e]) = fmupd (eClock e) e (by_clock evs)"
  by (simp add: by_clock_def)

lemma by_clock_lookup:
  "distinct (map eClock evs) \<Longrightarrow> fmlookup (by_clock evs) c = Some e \<longleftrightarrow> e \<in> set evs \<and> eClock e = c"
proof (induction evs arbitrary: e rule: rev_induct)
  case Nil
  then show ?case by (simp add: by_clock_def)
next
  case (snoc x evs)
  then show ?case by (auto simp: by_clock_snoc image_iff)
qed

lemma by_clock_none: "fmlookup (by_clock evs) c = None \<longleftrightarrow> c \<notin> eClock ` set evs"
  by (induction evs rule: rev_induct) (auto simp: by_clock_snoc, simp add: by_clock_def)

text \<open>What the clocks of \<open>cs\<close> add to a result.\<close>

lemma diff_clock_adds:
  assumes "diff_clock C lm rm c d = Some d1"
  shows "dfMissingInRight d1 = dfMissingInRight d @ (case (fmlookup lm c, fmlookup rm c) of (Some l, None) \<Rightarrow> [l] | _ \<Rightarrow> [])"
    "dfMissingInLeft d1 = dfMissingInLeft d @ (case (fmlookup lm c, fmlookup rm c) of (None, Some r) \<Rightarrow> [r] | _ \<Rightarrow> [])"
    "dfMismatched d1 = dfMismatched d @ (case (fmlookup lm c, fmlookup rm c) of (Some l, Some r) \<Rightarrow> mismatches c l r | _ \<Rightarrow> [])"
    "length (dfLLM d1) = length (dfLLM d) + (case (fmlookup lm c, fmlookup rm c) of (Some l, Some r) \<Rightarrow> of_bool (eType l = LLMCallEnd) | _ \<Rightarrow> 0)"
  using assms unfolding diff_clock_def Let_def by (auto split: option.splits if_splits)

lemma diff_clocks_adds:
  "diff_clocks C lm rm cs d = Some d1 \<Longrightarrow>
   set (dfMissingInRight d1) = set (dfMissingInRight d) \<union> {l. \<exists>c \<in> set cs. fmlookup lm c = Some l \<and> fmlookup rm c = None} \<and>
   set (dfMissingInLeft d1) = set (dfMissingInLeft d) \<union> {r. \<exists>c \<in> set cs. fmlookup rm c = Some r \<and> fmlookup lm c = None} \<and>
   set (dfMismatched d1) = set (dfMismatched d) \<union> {m. \<exists>c \<in> set cs. \<exists>l r. fmlookup lm c = Some l \<and> fmlookup rm c = Some r \<and> m \<in> set (mismatches c l r)}"
proof (induction cs arbitrary: d)
  case (Cons c cs)
  obtain d2 where s: "diff_clock C lm rm c d = Some d2" and r: "diff_clocks C lm rm cs d2 = Some d1"
    using Cons.prems by (auto split: option.splits)
  note f = diff_clock_adds[OF s]
  note ih = Cons.IH[OF r, unfolded f]
  show ?case
    using ih by (cases "fmlookup lm c"; cases "fmlookup rm c") auto
qed simp

text \<open>Whatever the order of clocks, the comparison of two traces without repeated clocks lists exactly the
  events whose clock the other trace lacks, and for clocks of both the types and the hashes that differ.\<close>

theorem Diff_lists:
  assumes "trace_diff C order left right lt rt = Some d" "all_clocks (readAllEvents left lt) (readAllEvents right rt) order"
    and "distinct (map eClock (readAllEvents left lt))" "distinct (map eClock (readAllEvents right rt))"
  shows "set (dfMissingInRight d) = {l \<in> set (readAllEvents left lt). eClock l \<notin> eClock ` set (readAllEvents right rt)} \<and>
    set (dfMissingInLeft d) = {r \<in> set (readAllEvents right rt). eClock r \<notin> eClock ` set (readAllEvents left lt)} \<and>
    set (dfMismatched d) = (\<Union>l \<in> set (readAllEvents left lt). \<Union>r \<in> {r \<in> set (readAllEvents right rt). eClock r = eClock l}.
      set (mismatches (eClock l) l r))"
proof -
  let ?ls = "readAllEvents left lt" and ?rs = "readAllEvents right rt"
  have o: "set order = eClock ` set ?ls \<union> eClock ` set ?rs" using assms(2) by (simp add: all_clocks_def)
  note L = by_clock_lookup[OF assms(3)] and R = by_clock_lookup[OF assms(4)]
  have "set (dfMissingInRight d) = {l. \<exists>c \<in> set order. fmlookup (by_clock ?ls) c = Some l \<and> fmlookup (by_clock ?rs) c = None}"
    "set (dfMissingInLeft d) = {r. \<exists>c \<in> set order. fmlookup (by_clock ?rs) c = Some r \<and> fmlookup (by_clock ?ls) c = None}"
    "set (dfMismatched d) = {m. \<exists>c \<in> set order. \<exists>l r. fmlookup (by_clock ?ls) c = Some l \<and> fmlookup (by_clock ?rs) c = Some r \<and> m \<in> set (mismatches c l r)}"
    using diff_clocks_adds[OF assms(1)[unfolded trace_diff_def]] by (simp_all add: new_diff_def)
  then show ?thesis unfolding L R by_clock_none o by auto
qed

lemma mismatches_same: "mismatches c e e = []"
  by (simp add: mismatches_def)

lemma diff_clocks_same:
  "\<exists>d1. diff_clocks C m m cs d = Some d1 \<and> dfMissingInRight d1 = dfMissingInRight d \<and> dfMissingInLeft d1 = dfMissingInLeft d \<and>
     dfMismatched d1 = dfMismatched d \<and>
     length (dfLLM d1) = length (dfLLM d) + length (filter (\<lambda>c. \<exists>e. fmlookup m c = Some e \<and> eType e = LLMCallEnd) cs) \<and>
     length (dfTool d1) = length (dfTool d) + length (filter (\<lambda>c. \<exists>e. fmlookup m c = Some e \<and> eType e = ToolCallResult) cs)"
proof (induction cs arbitrary: d)
  case (Cons c cs)
  obtain d1 where s: "diff_clock C m m c d = Some d1"
    by (cases "fmlookup m c") (auto simp: diff_clock_def Let_def)
  have l: "dfMissingInRight d1 = dfMissingInRight d" "dfMissingInLeft d1 = dfMissingInLeft d" "dfMismatched d1 = dfMismatched d"
    "length (dfLLM d1) = length (dfLLM d) + of_bool (\<exists>e. fmlookup m c = Some e \<and> eType e = LLMCallEnd)"
    "length (dfTool d1) = length (dfTool d) + of_bool (\<exists>e. fmlookup m c = Some e \<and> eType e = ToolCallResult)"
    using s by (auto simp: diff_clock_def Let_def mismatches_same split: option.splits if_splits)
  obtain d2 where "diff_clocks C m m cs d1 = Some d2" "dfMissingInRight d2 = dfMissingInRight d1" "dfMissingInLeft d2 = dfMissingInLeft d1"
     "dfMismatched d2 = dfMismatched d1"
     "length (dfLLM d2) = length (dfLLM d1) + length (filter (\<lambda>c. \<exists>e. fmlookup m c = Some e \<and> eType e = LLMCallEnd) cs)"
     "length (dfTool d2) = length (dfTool d1) + length (filter (\<lambda>c. \<exists>e. fmlookup m c = Some e \<and> eType e = ToolCallResult) cs)"
    using Cons.IH[of d1] by blast
  then show ?case using s l by (intro exI[of _ d2]) auto
qed simp

lemma EventCount_filter: "EventCount evts typ = length (filter (\<lambda>e. eType e = typ) evts)"
proof -
  have "foldl (\<lambda>n e. if eType e = typ then n + 1 else n) k evts = k + length (filter (\<lambda>e. eType e = typ) evts)" for k :: nat
    by (induction evts arbitrary: k) auto
  then show ?thesis by (simp add: EventCount_def)
qed

lemma count_by_clock:
  assumes "all_clocks evs evs order" "distinct (map eClock evs)"
  shows "length (filter (\<lambda>c. \<exists>e. fmlookup (by_clock evs) c = Some e \<and> eType e = typ) order) = EventCount evs typ"
proof -
  have "mset order = mset (map eClock evs)"
    using assms set_eq_iff_mset_eq_distinct[of order "map eClock evs"] by (simp add: all_clocks_def)
  then have "length (filter P order) = length (filter P (map eClock evs))" for P
    by (metis mset_filter size_mset)
  moreover have "(\<exists>e'. fmlookup (by_clock evs) (eClock e) = Some e' \<and> eType e' = typ) \<longleftrightarrow> eType e = typ" if "e \<in> set evs" for e
    using by_clock_lookup[OF assms(2), of "eClock e"] that by (metis option.inject)
  ultimately show ?thesis by (simp add: EventCount_filter filter_map o_def cong: filter_cong)
qed

text \<open>Two traces with the same events have no missing event and no mismatch; all answers of the model and all
  tool results are nevertheless listed as differences.\<close>

theorem equal_traces_differ:
  assumes "readAllEvents right rt = readAllEvents left lt" "distinct (map eClock (readAllEvents left lt))"
    and "all_clocks (readAllEvents left lt) (readAllEvents left lt) order"
  shows "\<exists>d. trace_diff C order left right lt rt = Some d \<and> dfMissingInRight d = [] \<and> dfMissingInLeft d = [] \<and> dfMismatched d = [] \<and>
    length (dfLLM d) = EventCount (readAllEvents left lt) LLMCallEnd \<and> length (dfTool d) = EventCount (readAllEvents left lt) ToolCallResult"
  using diff_clocks_same[of C "by_clock (readAllEvents left lt)" order "new_diff lt rt"] count_by_clock[OF assms(3,2)]
  by (auto simp: trace_diff_def assms(1) new_diff_def)

section \<open>A checkpoint from events\<close>

definition cp_event :: "codec \<Rightarrow> gmap \<times> string list \<times> string \<times> int \<Rightarrow> event \<Rightarrow> gmap \<times> string list \<times> string \<times> int" where
  "cp_event C acc ev = (case acc of (cp, completedTasks, lastNode, lastStep) \<Rightarrow>
     (case eType ev of
        StateWrite \<Rightarrow> let st = parse_state C ev in
          (if stChannel st \<noteq> [] then fmupd (stChannel st) (stNewValue st) cp else cp, completedTasks, lastNode, lastStep)
      | NodeEnd \<Rightarrow> (cp, completedTasks @ [eNode ev], eNode ev, lastStep)
      | StepEnd \<Rightarrow> (cp, completedTasks, lastNode, if eStep ev > lastStep then eStep ev else lastStep)
      | _ \<Rightarrow> acc))"

text \<open>The three entries every such checkpoint starts with, and what is added at the end.\<close>

definition cp_base :: "string \<Rightarrow> string \<Rightarrow> gmap" where
  "cp_base threadID cpID = fmupd ''__pregel_checkpoint_id'' (VStr cpID) (fmupd ''checkpoint_id'' (VStr cpID)
     (fmupd ''thread_id'' (VStr threadID) fmempty))"

definition with_last_state :: "golib \<Rightarrow> gmap \<Rightarrow> gmap" where
  "with_last_state L cp =
     (if fcard (fmdom cp) > 2 then
        (case json_text L (VMap (fmdrop ''thread_id'' (fmdrop ''checkpoint_id'' (fmdrop ''__pregel_checkpoint_id'' cp)))) of
           Some ls \<Rightarrow> fmupd ''__last_state__'' (VStr ls) cp | None \<Rightarrow> cp)
      else cp)"

definition BuildCheckpoint :: "golib \<Rightarrow> codec \<Rightarrow> int \<Rightarrow> event list \<Rightarrow> string \<Rightarrow> gmap \<times> string" where
  "BuildCheckpoint L C now originalEvents threadID =
     (let cpID = ''fork-cp-'' @ threadID @ CHR ''-'' # show_int now in
      case foldl (cp_event C) (cp_base threadID cpID, [], [], 0) originalEvents of (cp, completedTasks, lastNode, lastStep) \<Rightarrow>
        (let cp1 = with_last_state L cp;
             cp2 = (if completedTasks \<noteq> [] then fmupd ''__completed_tasks__'' (VStr (join_with CHR 0x00 completedTasks)) cp1 else cp1);
             cp3 = (if lastNode \<noteq> [] then fmupd ''__last_completed_node__'' (VStr lastNode) cp2 else cp2)
         in (fmupd ''__step__'' (VFloat (i2f L (of_int lastStep))) cp3, cpID)))"

text \<open>What the events say: the last value written to a channel, the nodes that ended, the last step that ended.\<close>

definition last_write :: "codec \<Rightarrow> event list \<Rightarrow> string \<Rightarrow> gval option" where
  "last_write C evs k = (let ws = filter (\<lambda>e. eType e = StateWrite \<and> stChannel (parse_state C e) = k) evs in
     if ws = [] then None else Some (stNewValue (parse_state C (List.last ws))))"

definition ended_nodes :: "event list \<Rightarrow> string list" where
  "ended_nodes evs = map eNode (filter (\<lambda>e. eType e = NodeEnd) evs)"

definition last_step :: "event list \<Rightarrow> int" where
  "last_step evs = Max (insert 0 (eStep ` {e \<in> set evs. eType e = StepEnd}))"

lemma last_step_snoc: "last_step (evs @ [e]) = (if eType e = StepEnd then max (last_step evs) (eStep e) else last_step evs)"
proof -
  have "{x \<in> set (evs @ [e]). eType x = StepEnd} = (if eType e = StepEnd then insert e {x \<in> set evs. eType x = StepEnd} else {x \<in> set evs. eType x = StepEnd})"
    by auto
  then show ?thesis unfolding last_step_def by (simp add: insert_commute[of 0] max.commute)
qed

definition reserved_keys :: "string set" where
  "reserved_keys = {''thread_id'', ''checkpoint_id'', ''__pregel_checkpoint_id'', ''__last_state__'', ''__completed_tasks__'',
     ''__last_completed_node__'', ''__step__''}"

lemma cp_events:
  "case foldl (cp_event C) (cp_base th cpID, [], [], 0) evs of (cp, tasks, lastNode, lastStep) \<Rightarrow>
     (\<forall>k. k \<notin> reserved_keys \<and> k \<noteq> [] \<longrightarrow> fmlookup cp k = last_write C evs k) \<and> tasks = ended_nodes evs \<and>
     lastNode = (if ended_nodes evs = [] then [] else List.last (ended_nodes evs)) \<and>
     lastStep = last_step evs \<and>
     {|''thread_id'', ''checkpoint_id'', ''__pregel_checkpoint_id''|} |\<subseteq>| fmdom cp"
proof (induction evs rule: rev_induct)
  case Nil
  then show ?case by (auto simp: last_write_def Let_def ended_nodes_def last_step_def cp_base_def reserved_keys_def)
next
  case (snoc e evs)
  obtain cp tasks ln ls where f: "foldl (cp_event C) (cp_base th cpID, [], [], 0) evs = (cp, tasks, ln, ls)" by (metis prod_cases4)
  note ih = snoc[unfolded f prod.case]
  have lw: "last_write C (evs @ [e]) k = (if eType e = StateWrite \<and> stChannel (parse_state C e) = k
      then Some (stNewValue (parse_state C e)) else last_write C evs k)" for k
    by (simp add: last_write_def Let_def)
  have ev: "foldl (cp_event C) (cp_base th cpID, [], [], 0) (evs @ [e]) =
      (if eType e = StateWrite then (if stChannel (parse_state C e) \<noteq> [] then fmupd (stChannel (parse_state C e)) (stNewValue (parse_state C e)) cp
           else cp, tasks, ln, ls)
       else if eType e = NodeEnd then (cp, tasks @ [eNode e], eNode e, ls)
       else if eType e = StepEnd then (cp, tasks, ln, if eStep e > ls then eStep e else ls) else (cp, tasks, ln, ls))"
    by (simp add: f cp_event_def Let_def split: event_kind.split)
  consider (wrote) "eType e = StateWrite" | (node) "eType e = NodeEnd" | (step) "eType e = StepEnd"
    | (other) "eType e \<noteq> StateWrite" "eType e \<noteq> NodeEnd" "eType e \<noteq> StepEnd" by blast
  then show ?case
  proof cases
    case wrote
    then show ?thesis using ih unfolding ev by (auto simp: lw ended_nodes_def last_step_snoc)
  next
    case node
    then show ?thesis using ih unfolding ev by (simp add: lw ended_nodes_def last_step_snoc)
  next
    case step
    then show ?thesis using ih unfolding ev by (simp add: lw ended_nodes_def last_step_snoc max_def)
  next
    case other
    then show ?thesis using ih unfolding ev by (simp add: lw ended_nodes_def last_step_snoc)
  qed
qed

text \<open>A checkpoint rebuilt from events holds, for each channel whose name is not one of its own entries, the value
  last written; the engine reads from it exactly the nodes that ended; it has the last step that ended,
  and its state text whenever that can be encoded, even without a single write.\<close>

theorem checkpoint_rebuilt:
  assumes "BuildCheckpoint L C now evs threadID = (cp, cpID)" "\<forall>n \<in> set (ended_nodes evs). n \<noteq> [] \<and> CHR 0x00 \<notin> set n"
  shows "(\<forall>k. k \<notin> reserved_keys \<and> k \<noteq> [] \<longrightarrow> fmlookup cp k = last_write C evs k) \<and>
    (ended_nodes evs \<noteq> [] \<longrightarrow> (\<exists>t. fmlookup cp ''__completed_tasks__'' = Some (VStr t) \<and> deserializeStringSet t = Some (set (ended_nodes evs))) \<and>
       fmlookup cp ''__last_completed_node__'' = Some (VStr (List.last (ended_nodes evs)))) \<and>
    fmlookup cp ''__step__'' = Some (VFloat (i2f L (of_int (last_step evs)))) \<and>
    ((\<forall>m. json_text L (VMap m) \<noteq> None) \<longrightarrow> (\<exists>t. fmlookup cp ''__last_state__'' = Some (VStr t)))"
proof -
  obtain cp0 tasks ln ls where f: "foldl (cp_event C) (cp_base threadID cpID, [], [], 0) evs = (cp0, tasks, ln, ls)" by (metis prod_cases4)
  have i: "cpID = ''fork-cp-'' @ threadID @ CHR ''-'' # show_int now" using assms(1) by (auto simp: BuildCheckpoint_def Let_def split: prod.splits)
  note inv = cp_events[where C = C and th = threadID and cpID = cpID and evs = evs, unfolded f prod.case]
  have tasks: "tasks = ended_nodes evs" and ln: "ln = (if ended_nodes evs = [] then [] else List.last (ended_nodes evs))" and ls: "ls = last_step evs"
    using inv by simp_all
  have "fcard {|''thread_id'', ''checkpoint_id'', ''__pregel_checkpoint_id''|} \<le> fcard (fmdom cp0)"
    using inv by (intro fcard_mono) simp
  moreover have "fcard {|''thread_id'', ''checkpoint_id'', ''__pregel_checkpoint_id''|} = 3" by (simp add: fcard_finsert_if)
  ultimately have big: "fcard (fmdom cp0) > 2" by simp
  define cp1 where "cp1 = with_last_state L cp0"
  have same: "k \<noteq> ''__last_state__'' \<Longrightarrow> fmlookup cp1 k = fmlookup cp0 k" for k
    by (simp add: cp1_def with_last_state_def split: option.split)
  have state: "(\<forall>m. json_text L (VMap m) \<noteq> None) \<longrightarrow> (\<exists>t. fmlookup cp1 ''__last_state__'' = Some (VStr t))"
  proof
    assume "\<forall>m. json_text L (VMap m) \<noteq> None"
    then obtain t where "json_text L (VMap (fmdrop ''thread_id'' (fmdrop ''checkpoint_id'' (fmdrop ''__pregel_checkpoint_id'' cp0)))) = Some t"
      by blast
    then show "\<exists>t. fmlookup cp1 ''__last_state__'' = Some (VStr t)" using big by (simp add: cp1_def with_last_state_def)
  qed
  have res: "cp = fmupd ''__step__'' (VFloat (i2f L (of_int ls)))
     (let cp2 = (if tasks \<noteq> [] then fmupd ''__completed_tasks__'' (VStr (join_with CHR 0x00 tasks)) cp1 else cp1)
      in if ln \<noteq> [] then fmupd ''__last_completed_node__'' (VStr ln) cp2 else cp2)"
    using assms(1) f unfolding i by (auto simp: BuildCheckpoint_def Let_def cp1_def)
  have "deserializeStringSet (join_with CHR 0x00 (ended_nodes evs)) = Some (set (ended_nodes evs))" if "ended_nodes evs \<noteq> []"
  proof -
    have "join_with CHR 0x00 (ended_nodes evs) \<noteq> []" using that assms(2) by (cases "ended_nodes evs"; cases "tl (ended_nodes evs)") auto
    moreover have "split_on CHR 0x00 (join_with CHR 0x00 (ended_nodes evs)) = ended_nodes evs"
      using that assms(2) by (intro split_on_join) auto
    ultimately show ?thesis by (simp add: deserializeStringSet_def)
  qed
  moreover have "ended_nodes evs \<noteq> [] \<Longrightarrow> List.last (ended_nodes evs) \<noteq> []" using assms(2) by simp
  ultimately show ?thesis
    using inv same state by (auto simp: res tasks ln ls Let_def reserved_keys_def)
qed

section \<open>Forks\<close>

text \<open>
  The engine of a fork gets its items from a run over the world of the caller, which also holds the saver
  the checkpoint is put into; items that are no stream events are \<open>None\<close>.
\<close>

record 'w fork_engine =
  fePut :: "gmap \<Rightarrow> gmap \<Rightarrow> 'w \<Rightarrow> gerr option \<times> 'w"
  feRun :: "'w \<Rightarrow> (stream_event option list \<times> gerr option) \<times> 'w"

record 'w fork_config =
  fkStore :: "event_store option"
  fkTrace :: string
  fkPoint :: string
  fkEngine :: "'w fork_engine option"

record fork_result =
  frForkTrace :: string
  frEvents :: "event list"
  frParent :: string
  frPoint :: string
  frFinal :: gval

definition errEventNotFound :: "string \<Rightarrow> gerr" where
  "errEventNotFound i = ErrorString (''event not found: '' @ i)"

definition fork_trace :: "'w fork_config \<Rightarrow> string" where
  "fork_trace cfg = fkTrace cfg @ ''_fork_'' @ fkPoint cfg"

definition fork_marker :: "event_lib \<Rightarrow> int \<Rightarrow> 'w fork_config \<Rightarrow> event" where
  "fork_marker E now cfg = Seal E (with_meta ''parent_trace'' (VStr (fkTrace cfg))
     ((NewEvent E now ForkEvent 0)\<lparr>eTrace := fork_trace cfg, eParent := fkPoint cfg, eCausedBy := [fkPoint cfg]\<rparr>))"

text \<open>The state of the last final event.\<close>

definition final_state :: "stream_event option list \<Rightarrow> gval" where
  "final_state items = foldl (\<lambda>st item. case item of
       Some se \<Rightarrow> if evType se = TypeFinal then (case evData se of VMap m \<Rightarrow> (case fmlookup m ''state'' of Some v \<Rightarrow> v | None \<Rightarrow> st) | _ \<Rightarrow> st) else st
     | None \<Rightarrow> st) VNil items"

definition resumeFromCheckpoint ::
  "event_lib \<Rightarrow> codec \<Rightarrow> int \<Rightarrow> int \<Rightarrow> 'w fork_config \<Rightarrow> 'w fork_engine \<Rightarrow> event list \<Rightarrow> event_store option \<Rightarrow> 'w
   \<Rightarrow> (gerr + gval) \<times> event_store option \<times> 'w" where
  "resumeFromCheckpoint E C now1 now2 cfg eng preForkEvents out w =
     (let threadID = (if fkTrace cfg = [] then ''fork-'' @ fkPoint cfg else fkTrace cfg) in
      case BuildCheckpoint (elLib E) C now1 preForkEvents threadID of (cp, cpID) \<Rightarrow>
      (case fePut eng (fmupd ''checkpoint_id'' (VStr cpID) (fmupd ''thread_id'' (VStr threadID) fmempty)) cp w of
         (Some err, w1) \<Rightarrow> (Inl (WrapError ''save fork checkpoint'' err), out, w1)
       | (None, w1) \<Rightarrow> (case feRun eng w1 of
           ((items, Some err), w2) \<Rightarrow> (Inl err, out, w2)
         | ((items, None), w2) \<Rightarrow>
             (Inr (final_state items),
              map_option (\<lambda>so. snd (es_Append E [Seal E (with_meta ''fork_replay'' (VBool True)
                 ((NewEvent E now2 GraphEnd 0)\<lparr>eTrace := fork_trace cfg\<rparr>))] so)) out, w2))))"

definition fork_run ::
  "event_lib \<Rightarrow> codec \<Rightarrow> int \<Rightarrow> int \<Rightarrow> int \<Rightarrow> event_store \<Rightarrow> 'w fork_config \<Rightarrow> event_store option \<Rightarrow> 'w
   \<Rightarrow> (gerr + fork_result) \<times> event_store option \<times> 'w" where
  "fork_run E C now now1 now2 s cfg out w =
     (let store = (case fkStore cfg of None \<Rightarrow> s | Some s1 \<Rightarrow> s1) in
      case es_Get (fkPoint cfg) store of
        None \<Rightarrow> (Inl (errEventNotFound (fkPoint cfg)), out, w)
      | Some forkEvent \<Rightarrow>
          (let pre = es_Stream (no_filter\<lparr>fiTrace := fkTrace cfg, fiToClock := eClock forkEvent - 1\<rparr>) store;
               evs = pre @ [fork_marker E now cfg]
           in case (case out of None \<Rightarrow> (evs, None) | Some so \<Rightarrow> (case es_Append E evs so of (evs1, so1) \<Rightarrow> (evs1, Some so1))) of
                (evs1, out1) \<Rightarrow>
                  (let res = \<lparr>frForkTrace = fork_trace cfg, frEvents = evs1, frParent = fkTrace cfg, frPoint = fkPoint cfg, frFinal = VNil\<rparr> in
                   case fkEngine cfg of
                     None \<Rightarrow> (Inr res, out1, w)
                   | Some eng \<Rightarrow> (case resumeFromCheckpoint E C now1 now2 cfg eng pre out1 w of
                       (Inl err, out2, w1) \<Rightarrow> (Inl (WrapError ''fork resume'' err), out2, w1)
                     | (Inr v, out2, w1) \<Rightarrow> (Inr (res\<lparr>frFinal := v\<rparr>), out2, w1)))))"

lemma append_two: "es_Append E (xs @ ys) s = (case es_Append E xs s of (xs1, s1) \<Rightarrow> (case es_Append E ys s1 of (ys1, s2) \<Rightarrow> (xs1 @ ys1, s2)))"
  by (induction xs arbitrary: s) (auto split: prod.splits)

lemma append_clocked:
  assumes "\<And>e. e \<in> set evs \<Longrightarrow> eClock e \<noteq> 0"
  shows "esClock (snd (es_Append E evs s)) = esClock s"
  using assms
proof (induction evs arbitrary: s)
  case (Cons e evs)
  obtain e1 s1 where a: "append_one E e s = (e1, s1)" by (meson surj_pair)
  then show ?case using Cons.IH[of s1] Cons.prems append_one_facts(5)[OF a] by (auto split: prod.splits)
qed simp

lemma fork_prefix:
  assumes "(records E C)\<^sup>*\<^sup>* (NewEventRecorder traceID threadID, NewMemoryEventStore) (r, s)" "length (esLog s) < 2 ^ 64" "i < length (esLog s)"
  shows "es_Stream (no_filter\<lparr>fiTrace := traceID, fiToClock := eClock (esLog s ! i) - 1\<rparr>) s = (if i = 0 then esLog s else take i (esLog s))"
proof -
  have R: "recorded E (r, s) \<and> rcTrace r = traceID"
    using all_recorded[OF assms(1) recorded_new] by (simp add: NewEventRecorder_def)
  have c: "eClock (esLog s ! j) = of_nat (j + 1)" "eTrace (esLog s ! j) = traceID" if "j < length (esLog s)" for j
    using R assms(2) that by (auto simp: recorded_def recorded_at_def)
  have u: "unat (of_nat j :: clock) = j" if "j \<le> length (esLog s)" for j using unat_small[of j] that assms(2) by simp
  have k: "eClock (esLog s ! i) - 1 = of_nat i" using c(1)[OF assms(3)] by simp
  let ?f = "no_filter\<lparr>fiTrace := traceID, fiToClock := (of_nat i :: clock)\<rparr>"
  have z: "(of_nat i :: clock) > 0 \<longleftrightarrow> i > 0" using u[of i] assms(3) by (simp add: word_less_nat_alt)
  have m: "Matches ?f (esLog s ! j) \<longleftrightarrow> i = 0 \<or> j < i" if j: "j < length (esLog s)" for j
  proof -
    have "eClock (esLog s ! j) > of_nat i \<longleftrightarrow> j + 1 > i"
      using u[of "j + 1"] u[of i] j assms(3) unfolding c(1)[OF j] by (simp add: word_less_nat_alt)
    then show ?thesis using c(2)[OF j] z by (auto simp: Matches_def no_filter_def)
  qed
  have "filter P xs = (if i = 0 then xs else take i xs)" if "\<And>j. j < length xs \<Longrightarrow> P (xs ! j) \<longleftrightarrow> i = 0 \<or> j < i" for P and xs :: "event list"
  proof (cases "i = 0")
    case True
    then have "\<forall>x \<in> set xs. P x" using that by (auto simp: in_set_conv_nth)
    then show ?thesis using True by simp
  next
    case False
    have "\<forall>x \<in> set (take i xs). P x" using that False by (auto simp: in_set_conv_nth)
    moreover have "\<forall>x \<in> set (drop i xs). \<not> P x" using that False by (auto simp: in_set_conv_nth)
    ultimately have "filter P (take i xs @ drop i xs) = take i xs" by (metis append.right_neutral filter_False filter_True filter_append)
    then show ?thesis using False by simp
  qed
  from this[OF m] show ?thesis unfolding k es_Stream_def by blast
qed


section \<open>The recorded model call again\<close>

lemma demo_trace_clocks: "map eClock (esLog (snd demo_trace)) = [1, 2, 3]"
  by (simp add: demo_trace_def RecordModelCall_def RecordStateWrite_def record_event_def NewEventRecorder_def NewMemoryEventStore_def Let_def
      append_one_def Tick_def NewEvent_def Seal_def with_meta_def with_payload_def)

lemma demo_trace_read: "readAllEvents (snd demo_trace) ''t'' = esLog (snd demo_trace)"
proof -
  have "\<forall>e \<in> set (esLog (snd demo_trace)). eTrace e = ''t''" using demo_trace_log by (auto simp: map_eq_Cons_conv)
  then show ?thesis by (simp add: readAllEvents_def es_Stream_def Matches_def no_filter_def)
qed

lemma empty_read: "readAllEvents NewMemoryEventStore tr = []"
  by (simp add: readAllEvents_def es_Stream_def NewMemoryEventStore_def)

lemma demo_trace_distinct: "distinct (map eClock (readAllEvents (snd demo_trace) ''t''))"
  by (simp add: demo_trace_read demo_trace_clocks)

lemma demo_trace_order: "set (esLog (snd demo_trace)) \<noteq> {}" "eClock ` set (esLog (snd demo_trace)) = {1, 2, 3}"
proof -
  show "eClock ` set (esLog (snd demo_trace)) = {1, 2, 3}" using arg_cong[OF demo_trace_clocks, of set] by simp
  then show "set (esLog (snd demo_trace)) \<noteq> {}" by auto
qed

lemma Diff_lists_witness:
  "\<exists>d. trace_diff text_codec [1, 2, 3] (snd demo_trace) NewMemoryEventStore ''t'' ''u'' = Some d \<and>
     set (dfMissingInRight d) = set (esLog (snd demo_trace)) \<and> dfMissingInRight d \<noteq> []"
proof -
  let ?m = "by_clock (esLog (snd demo_trace))"
  have "\<exists>d1. diff_clock text_codec ?m fmempty c d = Some d1" for c d by (cases "fmlookup ?m c") (simp_all add: diff_clock_def)
  then have "\<exists>d1. diff_clocks text_codec ?m fmempty cs d = Some d1" for cs d by (induction cs arbitrary: d) (simp, metis diff_clocks.simps(2) option.simps(5))
  then obtain d where d: "trace_diff text_codec [1, 2, 3] (snd demo_trace) NewMemoryEventStore ''t'' ''u'' = Some d"
    unfolding trace_diff_def demo_trace_read empty_read by_clock_def[of "[]"] foldl.simps(1) by blast
  have "all_clocks (readAllEvents (snd demo_trace) ''t'') (readAllEvents NewMemoryEventStore ''u'') [1, 2, 3]"
    by (simp add: all_clocks_def demo_trace_read empty_read demo_trace_order)
  from Diff_lists[OF d this demo_trace_distinct] have "set (dfMissingInRight d) = set (esLog (snd demo_trace))"
    by (simp add: demo_trace_read empty_read)
  with d demo_trace_order(1) show ?thesis by (metis set_empty)
qed

lemma equal_traces_differ_witness:
  "\<exists>d. trace_diff text_codec [3, 1, 2] (snd demo_trace) (snd demo_trace) ''t'' ''t'' = Some d \<and> dfMismatched d = [] \<and> length (dfLLM d) = 1"
proof -
  obtain a b c where l: "esLog (snd demo_trace) = [a, b, c]" "eType a = LLMCallStart" "eType b = LLMCallEnd" "eType c = StateWrite"
    "ePayload b = Some ''hello''" "ePayload c = Some ''x''" "eHash b = ''hello''"
    by (rule demo_trace_events)
  have "all_clocks (readAllEvents (snd demo_trace) ''t'') (readAllEvents (snd demo_trace) ''t'') [3, 1, 2]"
    by (auto simp: all_clocks_def demo_trace_read demo_trace_order)
  moreover have "EventCount (readAllEvents (snd demo_trace) ''t'') LLMCallEnd = 1" by (simp add: EventCount_filter demo_trace_read l)
  ultimately show ?thesis
    using equal_traces_differ[OF refl demo_trace_distinct, of "[3, 1, 2]" text_codec] by auto
qed

lemma checkpoint_rebuilt_witness:
  "let evs = [(NewEvent demo_events 1 NodeEnd 1)\<lparr>eNode := ''a''\<rparr>, (NewEvent demo_events 2 NodeEnd 2)\<lparr>eNode := ''b''\<rparr>] in
   \<exists>t. fmlookup (fst (BuildCheckpoint demo_lib text_codec 7 evs ''th'')) ''__completed_tasks__'' = Some (VStr t) \<and>
     deserializeStringSet t = Some {''a'', ''b''}"
proof -
  define evs where "evs = [(NewEvent demo_events 1 NodeEnd 1)\<lparr>eNode := ''a''\<rparr>, (NewEvent demo_events 2 NodeEnd 2)\<lparr>eNode := ''b''\<rparr>]"
  have n: "ended_nodes evs = [''a'', ''b'']" by (simp add: evs_def ended_nodes_def NewEvent_def)
  obtain cp cpID where b: "BuildCheckpoint demo_lib text_codec 7 evs ''th'' = (cp, cpID)" by (meson surj_pair)
  from checkpoint_rebuilt[OF b] show ?thesis by (auto simp: n b Let_def evs_def[symmetric])
qed


end
